(* ===== verification/Prelude.thy ===== *)
theory Prelude
  imports Complex_Main "HOL-Library.Word" "HOL-Library.Log_Nat"
begin

text \<open>
  What every theory of the development shares: the machine integer types of the C++ code,
  undefined behaviour as a value, and generic lemmas on powers of two with an integer
  exponent, on maps and on words.

  A function whose C++ original can reach undefined behaviour, or can fail to return,
  gives a value of type \<open>'a res\<close>: \<open>Inl\<close> of the fault, or \<open>Inr\<close> of the result.
\<close>

unbundle bit_operations_syntax

type_synonym u8 = "8 word"
type_synonym u16 = "16 word"
type_synonym u32 = "32 word"
type_synonym u64 = "64 word"

section \<open>Undefined behaviour and divergence as values\<close>

datatype fault =
    Signed_Overflow \<comment> \<open>an \<open>int32_t\<close> or \<open>int\<close> operation out of range\<close>
  | Float_To_Int \<comment> \<open>conversion of a NaN, an infinity or an out-of-range float\<close>
  | Hang \<comment> \<open>a loop that never returns\<close>
  | Empty_Container \<comment> \<open>\<open>front\<close> or \<open>pop_front\<close> of an empty deque\<close>
  | Uncaught_Exception \<comment> \<open>a C++ exception that the function does not catch\<close>
  | Out_Of_Bounds \<comment> \<open>a read or write past the end of a buffer\<close>
  | Bad_Access \<comment> \<open>\<open>map::at\<close> with a missing key, a null dereference\<close>
  | Division_By_Zero
  | Terminated \<comment> \<open>\<open>std::terminate\<close>\<close>

type_synonym 'a res = "fault + 'a"

definition bind_res :: "'a res \<Rightarrow> ('a \<Rightarrow> 'b res) \<Rightarrow> 'b res" where
  "bind_res m k = (case m of Inl e \<Rightarrow> Inl e | Inr x \<Rightarrow> k x)"

lemma bind_res_simps [simp]:
  "bind_res (Inl e) k = Inl e" "bind_res (Inr x) k = k x"
  by (simp_all add: bind_res_def)

lemma bind_res_eq_Inr:
  "bind_res m k = Inr y \<longleftrightarrow> (\<exists>x. m = Inr x \<and> k x = Inr y)"
  by (cases m) auto

lemma bind_res_InrE [elim!]:
  assumes "bind_res m k = Inr y"
  obtains x where "m = Inr x" "k x = Inr y"
  using assms by (auto simp: bind_res_eq_Inr)

definition of_opt :: "fault \<Rightarrow> 'a option \<Rightarrow> 'a res" where
  "of_opt e m = (case m of None \<Rightarrow> Inl e | Some x \<Rightarrow> Inr x)"

lemma of_opt_simps [simp]: "of_opt e None = Inl e" "of_opt e (Some x) = Inr x"
  by (simp_all add: of_opt_def)

lemma of_opt_eq_Inr [simp]: "of_opt e m = Inr x \<longleftrightarrow> m = Some x"
  by (cases m) auto

section \<open>Signed 32-bit integers\<close>

text \<open>
  \<open>int32_t\<close> and \<open>int\<close> are 32 bits wide on the ESP32; overflow is undefined, so a result
  is checked instead of wrapped.
\<close>

definition in_i32 :: "int \<Rightarrow> bool" where
  "in_i32 n \<longleftrightarrow> - (2 ^ 31) \<le> n \<and> n < 2 ^ 31"

definition chk32 :: "int \<Rightarrow> int res" where
  "chk32 n = (if in_i32 n then Inr n else Inl Signed_Overflow)"

lemma chk32_eq_Inr [simp]: "chk32 n = Inr m \<longleftrightarrow> m = n \<and> in_i32 n"
  by (auto simp: chk32_def)

lemma chk32_ok: "in_i32 n \<Longrightarrow> chk32 n = Inr n"
  by simp

section \<open>Powers of two with an integer exponent\<close>

lemma two_powi_pos [simp]: "0 < (2 :: rat) powi k"
  by simp

lemma two_powi_add: "(2 :: rat) powi (a + b) = 2 powi a * 2 powi b"
  by (simp add: power_int_add)

lemma two_powi_diff: "(2 :: rat) powi (a - b) = 2 powi a / 2 powi b"
  by (simp add: power_int_diff)

lemma two_powi_Suc: "(2 :: rat) powi (a + 1) = 2 * 2 powi a"
  by (simp add: two_powi_add)

lemma two_powi_mono: "a \<le> b \<Longrightarrow> (2 :: rat) powi a \<le> 2 powi b"
  by (rule power_int_increasing) auto

lemma two_powi_nat: "0 \<le> k \<Longrightarrow> (2 :: rat) powi k = 2 ^ nat k"
  by (simp add: power_int_nonneg_exp)

lemma two_powi_less_imp: "(2 :: rat) powi a < 2 powi b \<Longrightarrow> a < b"
  by (meson leD leI two_powi_mono)

section \<open>Words\<close>

lemma u32_diff_wraps: "unat (a - b :: u32) = (unat a + 2 ^ 32 - unat b) mod 2 ^ 32"
proof -
  have "unat a < 2 ^ 32" "unat b < 2 ^ 32"
    using unsigned_less [of a] unsigned_less [of b] by simp_all
  then show ?thesis
    by (auto simp: unat_sub_if' word_le_nat_alt not_le mod_if)
qed

lemma signed_take_bit_15:
  fixes v :: int
  assumes "0 \<le> v" "v < 65536"
  shows "signed_take_bit 15 v = (if v < 2 ^ 15 then v else v - 2 ^ 16)"
proof (cases "v < 2 ^ 15")
  case False
  then have "(v + 32768) mod 65536 = v - 32768"
    using mod_add_self2 [of "v - 32768" 65536] assms by (simp add: add.commute)
  then show ?thesis
    using False by (simp add: signed_take_bit_eq_take_bit_shift take_bit_eq_mod)
qed (use assms in \<open>simp add: signed_take_bit_int_eq_self\<close>)

lemma sint_ucast_16:
  "uint (w :: u32) < 65536 \<Longrightarrow>
   sint (ucast w :: u16) = (if uint w < 2 ^ 15 then uint w else uint w - 2 ^ 16)"
  by (simp add: sint_uint unsigned_ucast_eq take_bit_int_eq_self signed_take_bit_15)

text \<open>Two bytes put side by side.\<close>

lemma bytes_or: "push_bit 8 (ucast (hi :: u8) :: u32) OR ucast (lo :: u8) = push_bit 8 (ucast hi) + ucast lo"
  by (rule disjunctive_add [symmetric])
    (auto simp: bit_push_bit_iff bit_ucast_iff dest: bit_imp_le_length)

lemma uint_bytes: "uint (push_bit 8 (ucast (hi :: u8) :: u32) OR ucast (lo :: u8)) = 256 * uint hi + uint lo"
proof -
  have b: "0 \<le> uint hi" "uint hi < 256" "0 \<le> uint lo" "uint lo < 256"
    using uint_lt2p [of hi] uint_lt2p [of lo] by simp_all
  then have "uint (push_bit 8 (ucast hi :: u32)) = 256 * uint hi"
    by (simp add: push_bit_eq_mult uint_word_ariths unsigned_ucast_eq take_bit_int_eq_self)
  then show ?thesis
    unfolding bytes_or uint_word_ariths
    using b by (simp add: unsigned_ucast_eq take_bit_int_eq_self)
qed

section \<open>Text\<close>

text \<open>A number in decimal, as a stream prints it.\<close>

fun digit_string :: "nat \<Rightarrow> string" where
  "digit_string n = (if n < 10 then [char_of (48 + n)] else digit_string (n div 10) @ [char_of (48 + n mod 10)])"

declare digit_string.simps [simp del]

end
