(* ===== verification/Float32.thy ===== *)
theory Float32
  imports Prelude
begin

text \<open>
  IEEE-754 binary32, the \<open>float\<close> of the firmware (the ESP32-S3 evaluates \<open>float\<close>
  expressions in single precision). A value is NaN, an infinity, the negative zero or a
  finite rational; every operation is the exact operation on rationals followed by
  \<open>mk_f32\<close>, which rounds to nearest with ties to even and overflows to an infinity.
  Everything is executable. NaN payloads and contraction of \<open>a * b + c\<close> into one
  rounding are not modelled.
\<close>

section \<open>Values and rounding\<close>

datatype f32 = NaN | Inf bool | NZero | Fin rat

definition ilog2 :: "rat \<Rightarrow> int" where
  "ilog2 x = (case quotient_of x of (n, d) \<Rightarrow>
     let k = bitlen n - bitlen d in if 2 powi k \<le> x then k else k - 1)"

definition rne :: "rat \<Rightarrow> int" where
  "rne x = (let f = \<lfloor>x\<rfloor>; r = x - of_int f in
     if r < 1 / 2 then f else if 1 / 2 < r then f + 1 else if even f then f else f + 1)"

definition ulp_exp :: "rat \<Rightarrow> int" where
  "ulp_exp x = max (ilog2 \<bar>x\<bar> - 23) (- 149)"

definition rnd32 :: "rat \<Rightarrow> rat" where
  "rnd32 x = (if x = 0 then 0
     else of_int (rne (x / 2 powi ulp_exp x)) * 2 powi ulp_exp x)"

definition mk_f32 :: "bool \<Rightarrow> rat \<Rightarrow> f32" where
  "mk_f32 neg x = (let r = rnd32 x in
     if 2 ^ 128 \<le> \<bar>r\<bar> then Inf (r < 0)
     else if r = 0 then (if neg then NZero else Fin 0) else Fin r)"

section \<open>The binary exponent\<close>

lemma bitlen_powi:
  assumes "0 < n"
  shows "2 powi (bitlen n - 1) \<le> (of_int n :: rat) \<and> (of_int n :: rat) < 2 powi bitlen n"
proof -
  have b: "2 ^ nat (bitlen n - 1) \<le> n \<and> n < 2 ^ nat (bitlen n)"
    using assms by (rule bitlen_bounds)
  have "0 < bitlen n"
    using assms bitlen_eq_zero_iff [of n] bitlen_nonneg [of n] by linarith
  then have e: "2 powi (bitlen n - 1) = (of_int (2 ^ nat (bitlen n - 1)) :: rat)"
      "2 powi bitlen n = (of_int (2 ^ nat (bitlen n)) :: rat)"
    by (simp_all add: two_powi_nat)
  show ?thesis
    unfolding e using b by (simp only: of_int_le_iff of_int_less_iff)
qed

lemma ilog2_bounds:
  assumes "0 < x"
  shows "2 powi ilog2 x \<le> x \<and> x < 2 powi (ilog2 x + 1)"
proof -
  obtain n d where q: "quotient_of x = (n, d)"
    by (cases "quotient_of x")
  have d: "0 < d" and x: "x = of_int n / of_int d"
    using quotient_of_denom_pos [OF q] quotient_of_div [OF q] by auto
  have n: "0 < n"
    using assms d x by (simp add: zero_less_divide_iff)
  let ?a = "bitlen n" and ?b = "bitlen d"
  have N: "2 powi (?a - 1) \<le> (of_int n :: rat)" "(of_int n :: rat) < 2 powi ?a"
    and D: "2 powi (?b - 1) \<le> (of_int d :: rat)" "(of_int d :: rat) < 2 powi ?b"
    using bitlen_powi [OF n] bitlen_powi [OF d] by auto
  have "x < 2 powi ?a / 2 powi (?b - 1)"
    unfolding x by (rule frac_less) (use N D n d in auto)
  then have up: "x < 2 powi (?a - ?b + 1)"
    by (simp add: two_powi_diff [symmetric] algebra_simps)
  have "2 powi (?a - 1) / 2 powi ?b \<le> x"
    unfolding x by (rule frac_le) (use N D n d in auto)
  then have lo: "2 powi (?a - ?b - 1) \<le> x"
    by (simp add: two_powi_diff [symmetric] algebra_simps)
  show ?thesis
    using up lo by (auto simp: ilog2_def q Let_def)
qed

lemma ilog2_eqI:
  assumes "2 powi k \<le> x" "x < 2 powi (k + 1)"
  shows "ilog2 x = k"
proof -
  have "0 < x"
    using assms(1) by (rule less_le_trans [rotated]) simp
  then have b: "2 powi ilog2 x \<le> x" "x < 2 powi (ilog2 x + 1)"
    using ilog2_bounds by auto
  have "(2 :: rat) powi ilog2 x < 2 powi (k + 1)" "(2 :: rat) powi k < 2 powi (ilog2 x + 1)"
    using b assms by (meson le_less_trans)+
  then have "ilog2 x < k + 1" "k < ilog2 x + 1"
    by (auto dest: two_powi_less_imp)
  then show ?thesis by simp
qed

lemma ilog2_geI: "2 ^ n \<le> x \<Longrightarrow> int n \<le> ilog2 x"
proof -
  assume x: "2 ^ n \<le> x"
  then have "0 < x"
    by (rule less_le_trans [rotated]) simp
  then have "x < 2 powi (ilog2 x + 1)"
    using ilog2_bounds by blast
  then have "(2 :: rat) powi int n < 2 powi (ilog2 x + 1)"
    using x by simp
  then have "int n < ilog2 x + 1"
    by (rule two_powi_less_imp)
  then show ?thesis
    by simp
qed

lemma ilog2_mono: "0 < x \<Longrightarrow> x \<le> y \<Longrightarrow> ilog2 x \<le> ilog2 y"
proof -
  assume x: "0 < x" and y: "x \<le> y"
  have "2 powi ilog2 x \<le> x" "y < 2 powi (ilog2 y + 1)"
    using ilog2_bounds [OF x] ilog2_bounds [of y] x y by auto
  then have "(2 :: rat) powi ilog2 x < 2 powi (ilog2 y + 1)"
    using y by linarith
  then show ?thesis
    by (auto dest: two_powi_less_imp)
qed

section \<open>Rounding to the nearest integer, ties to even\<close>

lemma rne_of_int [simp]: "rne (of_int n) = n"
  by (simp add: rne_def)

lemma rne_0 [simp]: "rne 0 = 0"
  using rne_of_int [of 0] by simp

lemma rne_cases: "rne x = \<lfloor>x\<rfloor> \<or> rne x = \<lfloor>x\<rfloor> + 1"
  by (auto simp: rne_def Let_def)

lemma rne_err: "\<bar>of_int (rne x) - x\<bar> \<le> 1 / 2"
proof -
  have le: "of_int \<lfloor>x\<rfloor> \<le> x" and lt: "x < of_int \<lfloor>x\<rfloor> + 1"
    using floor_correct [of x] by (simp_all only: of_int_add of_int_1)
  show ?thesis
    unfolding rne_def Let_def abs_le_iff
    by (intro conjI; (split if_split)+; use le lt in \<open>simp del: of_int_floor_le\<close>)
qed

lemma rne_near: "\<bar>x - of_int n\<bar> < 1 / 2 \<Longrightarrow> rne x = n"
proof -
  assume "\<bar>x - of_int n\<bar> < 1 / 2"
  moreover have "\<bar>of_int (rne x - n)\<bar> \<le> \<bar>of_int (rne x) - x\<bar> + \<bar>x - of_int n\<bar>"
    by simp
  ultimately have "\<bar>of_int (rne x - n) :: rat\<bar> < of_int 1"
    using rne_err [of x] by linarith
  then have "\<bar>rne x - n\<bar> < 1"
    by (simp only: of_int_less_iff flip: of_int_abs)
  then show ?thesis
    by simp
qed

lemma rne_mono: "x \<le> y \<Longrightarrow> rne x \<le> rne y"
proof -
  assume xy: "x \<le> y"
  then have f: "\<lfloor>x\<rfloor> \<le> \<lfloor>y\<rfloor>"
    by (rule floor_mono)
  show ?thesis
  proof (cases "\<lfloor>x\<rfloor> = \<lfloor>y\<rfloor>")
    case True
    then show ?thesis
      using xy by (auto simp: rne_def Let_def)
  next
    case False
    then show ?thesis
      using f rne_cases [of x] rne_cases [of y] by linarith
  qed
qed

lemma rne_minus: "rne (- x) = - rne x"
proof (cases "x = of_int \<lfloor>x\<rfloor>")
  case True
  then show ?thesis
    by (metis of_int_minus rne_of_int)
next
  case False
  have b: "of_int \<lfloor>x\<rfloor> < x" "x < of_int \<lfloor>x\<rfloor> + 1"
    using False floor_correct [of x] by (simp_all only: of_int_add of_int_1 less_le) auto
  have "\<lfloor>- x\<rfloor> = - \<lfloor>x\<rfloor> - 1"
    using b by (intro floor_unique) auto
  then show ?thesis
    using b by (auto simp: rne_def Let_def)
qed

section \<open>Rounding to binary32\<close>

lemma rnd32_0 [simp]: "rnd32 0 = 0"
  by (simp add: rnd32_def)

lemma ulp_exp_minus [simp]: "ulp_exp (- x) = ulp_exp x"
  by (simp add: ulp_exp_def)

lemma ulp_exp_ge: "- 149 \<le> ulp_exp x"
  by (simp add: ulp_exp_def)

lemma rnd32_minus [simp]: "rnd32 (- x) = - rnd32 x"
  by (simp add: rnd32_def rne_minus)

lemma rnd32_err: "\<bar>rnd32 x - x\<bar> \<le> 2 powi ulp_exp x / 2"
proof (cases "x = 0")
  case False
  let ?u = "2 powi ulp_exp x :: rat"
  have "rnd32 x - x = (of_int (rne (x / ?u)) - x / ?u) * ?u"
    using False by (simp add: rnd32_def algebra_simps)
  then have "\<bar>rnd32 x - x\<bar> = \<bar>of_int (rne (x / ?u)) - x / ?u\<bar> * ?u"
    by (simp add: abs_mult)
  also have "\<dots> \<le> 1 / 2 * ?u"
    by (rule mult_right_mono [OF rne_err]) simp
  finally show ?thesis by simp
qed simp

lemma ulp_exp_mono: "0 < x \<Longrightarrow> x \<le> y \<Longrightarrow> ulp_exp x \<le> ulp_exp y"
  using ilog2_mono [of x y] by (auto simp: ulp_exp_def)

lemma less_pow_ulp_exp: "0 < x \<Longrightarrow> x < 2 powi (ulp_exp x + 24)"
proof -
  assume "0 < x"
  then have "x < 2 powi (ilog2 x + 1)"
    using ilog2_bounds by blast
  also have "\<dots> \<le> 2 powi (ulp_exp x + 24)"
    using \<open>0 < x\<close> by (intro two_powi_mono) (simp add: ulp_exp_def)
  finally show ?thesis .
qed

lemma rnd32_scaled:
  assumes "x \<noteq> 0"
  obtains m where "rnd32 x = of_int m * 2 powi ulp_exp x" "m = rne (x / 2 powi ulp_exp x)"
    "\<bar>m\<bar> \<le> 2 ^ 24"
proof -
  let ?u = "2 powi ulp_exp x :: rat" and ?m = "rne (x / 2 powi ulp_exp x)"
  have "ulp_exp \<bar>x\<bar> = ulp_exp x"
    by (simp add: ulp_exp_def)
  then have "\<bar>x\<bar> < 2 ^ 24 * ?u"
    using less_pow_ulp_exp [of "\<bar>x\<bar>"] assms by (simp add: two_powi_add mult.commute)
  then have "\<bar>x\<bar> / ?u < 2 ^ 24"
    by (simp add: pos_divide_less_eq)
  then have a: "\<bar>x / ?u\<bar> < 2 ^ 24"
    by (simp add: abs_divide)
  then have "x / ?u < 2 ^ 24" "- (x / ?u) < 2 ^ 24"
    by (simp_all only: abs_less_iff)
  then have "x / ?u \<le> of_int (2 ^ 24)" "of_int (- (2 ^ 24)) \<le> x / ?u"
    by simp_all
  then have "?m \<le> 2 ^ 24" "- (2 ^ 24) \<le> ?m"
    using rne_mono [of "x / ?u" "of_int (2 ^ 24)"] rne_mono [of "of_int (- (2 ^ 24))" "x / ?u"]
    by (simp_all only: rne_of_int)
  then have "\<bar>?m\<bar> \<le> 2 ^ 24"
    by simp
  moreover have "rnd32 x = of_int ?m * ?u"
    using assms by (simp add: rnd32_def)
  ultimately show thesis
    using that by blast
qed

lemma rnd32_grid_less:
  assumes x: "x = of_int m * 2 powi k" and m: "\<bar>m\<bar> < 2 ^ 24" and k: "- 149 \<le> k"
  shows "rnd32 x = x"
proof (cases "m = 0")
  case False
  then have pos: "0 < \<bar>x\<bar>" by (simp add: x)
  have m': "\<bar>of_int m :: rat\<bar> < 2 ^ 24"
    using m by (metis of_int_abs of_int_less_iff of_int_numeral of_int_power)
  then have "\<bar>x\<bar> < 2 ^ 24 * 2 powi k"
    by (simp add: x abs_mult)
  also have "\<dots> = 2 powi (k + 24)"
    by (simp add: two_powi_add mult.commute)
  finally have "2 powi ilog2 \<bar>x\<bar> < (2 :: rat) powi (k + 24)"
    using ilog2_bounds [OF pos] by (meson le_less_trans)
  then have e: "ulp_exp x \<le> k"
    using k by (auto simp: ulp_exp_def dest: two_powi_less_imp)
  then have "x / 2 powi ulp_exp x = of_int m * 2 powi (k - ulp_exp x)"
    by (simp add: x two_powi_diff)
  also have "\<dots> = of_int (m * 2 ^ nat (k - ulp_exp x))"
    using e by (simp add: two_powi_nat)
  finally have q: "x / 2 powi ulp_exp x = of_int (m * 2 ^ nat (k - ulp_exp x))" .
  show ?thesis
    using pos unfolding rnd32_def q rne_of_int by (simp only: q [symmetric]) auto
qed (simp add: x)

lemma rnd32_grid:
  assumes x: "x = of_int m * 2 powi k" and m: "\<bar>m\<bar> \<le> 2 ^ 24" and k: "- 149 \<le> k"
  shows "rnd32 x = x"
proof (cases "\<bar>m\<bar> = 2 ^ 24")
  case True
  then have "m = 2 ^ 23 * 2 \<or> m = - (2 ^ 23) * 2"
    by (auto simp: abs_if split: if_splits)
  then have "x = of_int (2 ^ 23) * 2 powi (k + 1) \<or> x = of_int (- (2 ^ 23)) * 2 powi (k + 1)"
    by (auto simp: x two_powi_Suc)
  then show ?thesis
    using k by (elim disjE) (erule rnd32_grid_less; simp)+
next
  case False
  then show ?thesis
    using m by (intro rnd32_grid_less [OF x _ k]) auto
qed

lemma rnd32_idem [simp]: "rnd32 (rnd32 x) = rnd32 x"
proof (cases "x = 0")
  case False
  then obtain m where "rnd32 x = of_int m * 2 powi ulp_exp x" "\<bar>m\<bar> \<le> 2 ^ 24"
    by (rule rnd32_scaled)
  then show ?thesis
    by (rule rnd32_grid) (rule ulp_exp_ge)
qed simp

lemma rnd32_of_int: "\<bar>n\<bar> \<le> 2 ^ 24 \<Longrightarrow> rnd32 (of_int n) = of_int n"
  by (rule rnd32_grid [where m = n and k = 0]) auto

lemma rnd32_mono_pos:
  assumes "0 < x" "x \<le> y"
  shows "rnd32 x \<le> rnd32 y"
proof (cases "ulp_exp x = ulp_exp y")
  case True
  then show ?thesis
    using assms by (auto simp: rnd32_def intro!: mult_right_mono rne_mono divide_right_mono)
next
  case False
  then have lt: "ulp_exp x < ulp_exp y"
    using ulp_exp_mono [OF assms] by simp
  then have ey: "ulp_exp y = ilog2 y - 23"
    using assms by (auto simp: ulp_exp_def split: if_splits)
  obtain m where m: "rnd32 x = of_int m * 2 powi ulp_exp x" "\<bar>m\<bar> \<le> 2 ^ 24"
    using assms(1) rnd32_scaled [of x] by blast
  have "(of_int m :: rat) \<le> of_int (2 ^ 24)"
    using m(2) by (simp only: of_int_le_iff)
  then have "rnd32 x \<le> 2 ^ 24 * 2 powi ulp_exp x"
    unfolding m(1) by (intro mult_right_mono) auto
  also have "\<dots> = 2 powi (ulp_exp x + 24)"
    by (simp add: two_powi_add mult.commute)
  also have "\<dots> \<le> 2 powi (ulp_exp y + 23)"
    using lt by (intro two_powi_mono) simp
  also have "\<dots> = of_int (2 ^ 23) * 2 powi ulp_exp y"
    by (simp add: two_powi_add mult.commute)
  also have "\<dots> \<le> of_int (rne (y / 2 powi ulp_exp y)) * 2 powi ulp_exp y"
  proof -
    have "2 powi (ulp_exp y + 23) \<le> y"
      using ilog2_bounds [of y] assms ey by simp
    then have "of_int (2 ^ 23) \<le> y / 2 powi ulp_exp y"
      by (simp add: pos_le_divide_eq two_powi_add mult.commute)
    then have "2 ^ 23 \<le> rne (y / 2 powi ulp_exp y)"
      using rne_mono by (metis rne_of_int)
    then show ?thesis
      by (intro mult_right_mono) (simp_all only: of_int_le_iff two_powi_pos less_imp_le)
  qed
  also have "\<dots> = rnd32 y"
    using assms by (simp add: rnd32_def)
  finally show ?thesis .
qed

lemma rnd32_nonneg: "0 \<le> x \<Longrightarrow> 0 \<le> rnd32 x"
proof (cases "x = 0")
  case False
  assume "0 \<le> x"
  then have "rne 0 \<le> rne (x / 2 powi ulp_exp x)"
    by (intro rne_mono) simp
  then show ?thesis
    by (simp add: rnd32_def)
qed simp

lemma rnd32_mono: "x \<le> y \<Longrightarrow> rnd32 x \<le> rnd32 y"
proof -
  assume xy: "x \<le> y"
  consider "0 < x" | "x \<le> 0" "0 \<le> y" | "y < 0"
    by linarith
  then show ?thesis
  proof cases
    case 1
    then show ?thesis using xy by (rule rnd32_mono_pos)
  next
    case 2
    then show ?thesis
      using rnd32_nonneg [of "- x"] rnd32_nonneg [of y] by simp
  next
    case 3
    then show ?thesis
      using rnd32_mono_pos [of "- y" "- x"] xy by simp
  qed
qed

section \<open>Operations\<close>

text \<open>A decimal literal \<open>0.98f\<close> is the value rounded to the nearest \<open>float\<close>.\<close>

definition flit :: "rat \<Rightarrow> f32" where
  "flit x = mk_f32 (x < 0) x"

text \<open>Conversions to \<open>float\<close> from \<open>int32_t\<close>, \<open>int16_t\<close> and \<open>uint32_t\<close> values.\<close>

definition of_i32 :: "int \<Rightarrow> f32" where
  "of_i32 n = mk_f32 False (of_int n)"

definition of_u32 :: "u32 \<Rightarrow> f32" where
  "of_u32 n = mk_f32 False (of_int (uint n))"

fun sgnbit :: "f32 \<Rightarrow> bool" where
  "sgnbit NaN = False"
| "sgnbit (Inf b) = b"
| "sgnbit NZero = True"
| "sgnbit (Fin x) = (x < 0)"

fun fval :: "f32 \<Rightarrow> rat" where
  "fval (Fin x) = x"
| "fval _ = 0"

fun fin :: "f32 \<Rightarrow> bool" where
  "fin NaN = False"
| "fin (Inf b) = False"
| "fin NZero = True"
| "fin (Fin x) = True"

fun isnan :: "f32 \<Rightarrow> bool" where
  "isnan NaN = True"
| "isnan _ = False"

fun isinf :: "f32 \<Rightarrow> bool" where
  "isinf (Inf b) = True"
| "isinf _ = False"

fun fneg :: "f32 \<Rightarrow> f32" where
  "fneg NaN = NaN"
| "fneg (Inf b) = Inf (\<not> b)"
| "fneg NZero = Fin 0"
| "fneg (Fin x) = (if x = 0 then NZero else Fin (- x))"

fun fabsf :: "f32 \<Rightarrow> f32" where
  "fabsf NaN = NaN"
| "fabsf (Inf b) = Inf False"
| "fabsf NZero = Fin 0"
| "fabsf (Fin x) = Fin \<bar>x\<bar>"

definition fadd :: "f32 \<Rightarrow> f32 \<Rightarrow> f32" where
  "fadd x y =
     (if isnan x \<or> isnan y then NaN
      else if isinf x \<and> isinf y then (if sgnbit x = sgnbit y then x else NaN)
      else if isinf x then x
      else if isinf y then y
      else mk_f32 (if fval x + fval y = 0 then sgnbit x \<and> sgnbit y else fval x + fval y < 0)
             (fval x + fval y))"

definition fsub :: "f32 \<Rightarrow> f32 \<Rightarrow> f32" where
  "fsub x y = fadd x (fneg y)"

definition fmul :: "f32 \<Rightarrow> f32 \<Rightarrow> f32" where
  "fmul x y =
     (let s = (sgnbit x \<noteq> sgnbit y) in
      if isnan x \<or> isnan y then NaN
      else if isinf x \<or> isinf y then
        (if (fin x \<and> fval x = 0) \<or> (fin y \<and> fval y = 0) then NaN else Inf s)
      else mk_f32 s (fval x * fval y))"

definition fdiv :: "f32 \<Rightarrow> f32 \<Rightarrow> f32" where
  "fdiv x y =
     (let s = (sgnbit x \<noteq> sgnbit y) in
      if isnan x \<or> isnan y \<or> (isinf x \<and> isinf y) then NaN
      else if isinf x then Inf s
      else if isinf y then (if s then NZero else Fin 0)
      else if fval y = 0 then (if fval x = 0 then NaN else Inf s)
      else mk_f32 s (fval x / fval y))"

text \<open>Ordered comparisons: false as soon as one side is a NaN.\<close>

fun flt :: "f32 \<Rightarrow> f32 \<Rightarrow> bool" where
  "flt NaN y = False"
| "flt x NaN = False"
| "flt (Inf a) (Inf b) = (a \<and> \<not> b)"
| "flt (Inf a) y = a"
| "flt x (Inf b) = (\<not> b)"
| "flt x y = (fval x < fval y)"

fun fle :: "f32 \<Rightarrow> f32 \<Rightarrow> bool" where
  "fle NaN y = False"
| "fle x NaN = False"
| "fle (Inf a) (Inf b) = (a \<or> \<not> b)"
| "fle (Inf a) y = a"
| "fle x (Inf b) = (\<not> b)"
| "fle x y = (fval x \<le> fval y)"

abbreviation fgt :: "f32 \<Rightarrow> f32 \<Rightarrow> bool" where
  "fgt x y \<equiv> flt y x"

abbreviation fge :: "f32 \<Rightarrow> f32 \<Rightarrow> bool" where
  "fge x y \<equiv> fle y x"

text \<open>
  \<open>static_cast<int>\<close> truncates towards zero; the conversion of a NaN, an infinity or of a
  value that does not fit is undefined.
\<close>

definition trunc_rat :: "rat \<Rightarrow> int" where
  "trunc_rat x = (if 0 \<le> x then \<lfloor>x\<rfloor> else \<lceil>x\<rceil>)"

definition to_i32 :: "f32 \<Rightarrow> int res" where
  "to_i32 x = (if fin x \<and> in_i32 (trunc_rat (fval x)) then Inr (trunc_rat (fval x))
     else Inl Float_To_Int)"

text \<open>Arduino's \<open>constrain\<close> macro, and \<open>std::min\<close> and \<open>std::max\<close> on floats.\<close>

definition constrain :: "f32 \<Rightarrow> f32 \<Rightarrow> f32 \<Rightarrow> f32" where
  "constrain amt low high = (if flt amt low then low else if fgt amt high then high else amt)"

definition fmin :: "f32 \<Rightarrow> f32 \<Rightarrow> f32" where
  "fmin a b = (if flt b a then b else a)"

definition fmax :: "f32 \<Rightarrow> f32 \<Rightarrow> f32" where
  "fmax a b = (if flt a b then b else a)"

section \<open>Representable values and intervals\<close>

definition repr32 :: "rat \<Rightarrow> bool" where
  "repr32 c \<longleftrightarrow> rnd32 c = c \<and> \<bar>c\<bar> < 2 ^ 128"

lemma repr32_minus [simp]: "repr32 (- c) = repr32 c"
  by (simp add: repr32_def)

lemma repr32_of_int: "\<bar>n\<bar> \<le> 2 ^ 24 \<Longrightarrow> repr32 (of_int n)"
proof -
  assume n: "\<bar>n\<bar> \<le> 2 ^ 24"
  have "\<bar>of_int n :: rat\<bar> = of_int \<bar>n\<bar>"
    by simp
  also have "\<dots> \<le> of_int (2 ^ 24)"
    using n by (simp only: of_int_le_iff)
  finally show ?thesis
    using rnd32_of_int [OF n] by (simp add: repr32_def)
qed

lemma repr32_0 [simp]: "repr32 0" and repr32_1 [simp]: "repr32 1"
  using repr32_of_int [of 0] repr32_of_int [of 1] by simp_all

lemma repr32_numeral [simp]: "(numeral n :: int) \<le> 2 ^ 24 \<Longrightarrow> repr32 (numeral n)"
  using repr32_of_int [of "numeral n"] by simp

lemma repr32_half_int: "\<bar>n\<bar> \<le> 2 ^ 24 \<Longrightarrow> k \<le> 100 \<Longrightarrow> repr32 (of_int n / 2 ^ k)"
proof -
  assume n: "\<bar>n\<bar> \<le> 2 ^ 24" and k: "k \<le> 100"
  have e: "of_int n / 2 ^ k = of_int n * (2 :: rat) powi (- int k)"
    by (simp add: power_int_minus divide_inverse)
  have "\<bar>of_int n :: rat\<bar> = of_int \<bar>n\<bar>"
    by simp
  also have "\<dots> \<le> of_int (2 ^ 24)"
    using n by (simp only: of_int_le_iff)
  finally have "\<bar>of_int n / 2 ^ k :: rat\<bar> \<le> 2 ^ 24 / 2 ^ k"
    by (simp add: abs_divide divide_right_mono)
  also have "\<dots> \<le> 2 ^ 24 / 1"
    by (rule divide_left_mono) simp_all
  finally have "\<bar>of_int n / 2 ^ k :: rat\<bar> < 2 ^ 128"
    by simp
  moreover have "rnd32 (of_int n / 2 ^ k) = of_int n / 2 ^ k"
    using n k by (intro rnd32_grid [OF e]) auto
  ultimately show ?thesis
    by (simp add: repr32_def)
qed

lemma mk_f32_between:
  assumes "a \<le> x" "x \<le> b" "repr32 a" "repr32 b"
  shows "fin (mk_f32 s x) \<and> fval (mk_f32 s x) = rnd32 x \<and> a \<le> rnd32 x \<and> rnd32 x \<le> b"
proof -
  have b: "a \<le> rnd32 x" "rnd32 x \<le> b"
    using rnd32_mono [OF assms(1)] rnd32_mono [OF assms(2)] assms(3,4)
    by (simp_all add: repr32_def)
  then have "\<bar>rnd32 x\<bar> < 2 ^ 128"
    using assms(3,4) unfolding repr32_def by linarith
  then show ?thesis
    using b by (simp add: mk_f32_def Let_def)
qed

text \<open>\<open>bdd B x\<close>: the float is finite with absolute value at most \<open>B\<close>.\<close>

definition bdd :: "rat \<Rightarrow> f32 \<Rightarrow> bool" where
  "bdd B x \<longleftrightarrow> fin x \<and> \<bar>fval x\<bar> \<le> B"

lemma bddI: "fin x \<Longrightarrow> \<bar>fval x\<bar> \<le> B \<Longrightarrow> bdd B x"
  by (simp add: bdd_def)

lemma bdd_mono: "bdd A x \<Longrightarrow> A \<le> B \<Longrightarrow> bdd B x"
  by (auto simp: bdd_def)

lemma bdd_fin: "bdd B x \<Longrightarrow> fin x"
  by (simp add: bdd_def)

lemma mk_f32_bdd: "\<bar>x\<bar> \<le> B \<Longrightarrow> repr32 B \<Longrightarrow> bdd B (mk_f32 s x) \<and> fval (mk_f32 s x) = rnd32 x"
  using mk_f32_between [of "- B" x B s] by (auto simp: bdd_def abs_le_iff)

lemma fin_simps [simp]:
  "fin x \<Longrightarrow> \<not> isnan x" "fin x \<Longrightarrow> \<not> isinf x"
  by (cases x; simp)+

lemma fin_cases: "fin x \<or> isnan x \<or> isinf x"
  by (cases x) auto

lemma fneg_fin [simp]: "fin (fneg x) = fin x" "fval (fneg x) = - fval x" "isnan (fneg x) = isnan x"
  "isinf (fneg x) = isinf x"
  by (cases x; simp)+

lemma fabsf_fin [simp]: "fin (fabsf x) = fin x" "fval (fabsf x) = \<bar>fval x\<bar>" "isnan (fabsf x) = isnan x"
  "isinf (fabsf x) = isinf x"
  by (cases x; simp)+

lemma fadd_fin:
  assumes "fin x" "fin y"
  obtains s where "fadd x y = mk_f32 s (fval x + fval y)"
  using assms that by (simp add: fadd_def)

lemma fmul_fin:
  assumes "fin x" "fin y"
  obtains s where "fmul x y = mk_f32 s (fval x * fval y)"
  using assms that by (simp add: fmul_def)

lemma fdiv_fin:
  assumes "fin x" "fin y" "fval y \<noteq> 0"
  obtains s where "fdiv x y = mk_f32 s (fval x / fval y)"
  using assms that by (simp add: fdiv_def)

lemma fadd_bdd:
  assumes "bdd A x" "bdd B y" "A + B \<le> C" "repr32 C"
  shows "bdd C (fadd x y)" "fval (fadd x y) = rnd32 (fval x + fval y)"
proof -
  have "\<bar>fval x + fval y\<bar> \<le> C"
    using assms(1-3) by (auto simp: bdd_def)
  then have m: "bdd C (mk_f32 s (fval x + fval y)) \<and>
      fval (mk_f32 s (fval x + fval y)) = rnd32 (fval x + fval y)" for s
    using assms(4) by (rule mk_f32_bdd)
  obtain s where "fadd x y = mk_f32 s (fval x + fval y)"
    using assms(1,2) by (auto simp: bdd_def elim: fadd_fin)
  then show "bdd C (fadd x y)" "fval (fadd x y) = rnd32 (fval x + fval y)"
    using m by simp_all
qed

lemma fsub_bdd:
  assumes "bdd A x" "bdd B y" "A + B \<le> C" "repr32 C"
  shows "bdd C (fsub x y)" "fval (fsub x y) = rnd32 (fval x - fval y)"
  using fadd_bdd [of A x B "fneg y" C] assms by (auto simp: fsub_def bdd_def)

lemma fmul_bdd:
  assumes "bdd A x" "bdd B y" "A * B \<le> C" "repr32 C"
  shows "bdd C (fmul x y)" "fval (fmul x y) = rnd32 (fval x * fval y)"
proof -
  have "\<bar>fval x\<bar> * \<bar>fval y\<bar> \<le> A * B"
    using assms(1,2) by (intro mult_mono) (auto simp: bdd_def)
  then have "\<bar>fval x * fval y\<bar> \<le> C"
    using assms(3) by (simp add: abs_mult)
  then have m: "bdd C (mk_f32 s (fval x * fval y)) \<and>
      fval (mk_f32 s (fval x * fval y)) = rnd32 (fval x * fval y)" for s
    using assms(4) by (rule mk_f32_bdd)
  obtain s where "fmul x y = mk_f32 s (fval x * fval y)"
    using assms(1,2) by (auto simp: bdd_def elim: fmul_fin)
  then show "bdd C (fmul x y)" "fval (fmul x y) = rnd32 (fval x * fval y)"
    using m by simp_all
qed

lemma fdiv_bdd:
  assumes "bdd A x" "fin y" "0 < L" "L \<le> \<bar>fval y\<bar>" "A / L \<le> C" "repr32 C"
  shows "bdd C (fdiv x y)" "fval (fdiv x y) = rnd32 (fval x / fval y)"
proof -
  have "\<bar>fval x\<bar> / \<bar>fval y\<bar> \<le> A / L"
    using assms(1-4) by (intro frac_le) (auto simp: bdd_def)
  then have c: "\<bar>fval x / fval y\<bar> \<le> C"
    using assms(5) by (simp add: abs_divide)
  have ne: "fval y \<noteq> 0"
    using assms(3,4) by auto
  have m: "bdd C (mk_f32 s (fval x / fval y)) \<and>
      fval (mk_f32 s (fval x / fval y)) = rnd32 (fval x / fval y)" for s
    using c assms(6) by (rule mk_f32_bdd)
  obtain s where "fdiv x y = mk_f32 s (fval x / fval y)"
    using assms(1,2) ne by (auto simp: bdd_def elim: fdiv_fin)
  then show "bdd C (fdiv x y)" "fval (fdiv x y) = rnd32 (fval x / fval y)"
    using m by simp_all
qed

lemma fneg_bdd [simp]: "bdd B (fneg x) = bdd B x"
  by (simp add: bdd_def)

lemma flt_fin [simp]: "fin x \<Longrightarrow> fin y \<Longrightarrow> flt x y \<longleftrightarrow> fval x < fval y"
  by (cases x; cases y) auto

lemma fle_fin [simp]: "fin x \<Longrightarrow> fin y \<Longrightarrow> fle x y \<longleftrightarrow> fval x \<le> fval y"
  by (cases x; cases y) auto

lemma flt_NaN2 [simp]: "\<not> flt x NaN"
  by (cases x) auto

lemma fle_NaN2 [simp]: "\<not> fle x NaN"
  by (cases x) auto

text \<open>Comparisons say that the float is finite when both sides of it are compared.\<close>

lemma fabs_le_bdd: "fle (fabsf x) b \<Longrightarrow> fin b \<Longrightarrow> bdd (fval b) x"
  by (cases x; cases b) (auto simp: bdd_def)

lemma not_fgt_fabs_bdd: "\<not> fgt (fabsf x) b \<Longrightarrow> fin b \<Longrightarrow> \<not> isnan x \<Longrightarrow> bdd (fval b) x"
  by (cases x; cases b) (auto simp: bdd_def)

lemma constrain_range:
  assumes "fin low" "fin high" "fval low \<le> fval high" "\<not> isnan x"
  shows "fin (constrain x low high)" "fval low \<le> fval (constrain x low high)"
    "fval (constrain x low high) \<le> fval high"
  using assms by (cases x; cases low; cases high; auto simp: constrain_def)+

lemma constrain_nan [simp]: "constrain NaN low high = NaN"
  by (simp add: constrain_def)

lemma isnan_iff: "isnan x \<longleftrightarrow> x = NaN"
  by (cases x) auto

lemma fadd_nan [simp]: "fadd NaN y = NaN" "fadd x NaN = NaN"
  by (simp_all add: fadd_def)

lemma fsub_nan [simp]: "fsub NaN y = NaN" "fsub x NaN = NaN"
  by (simp_all add: fsub_def)

lemma fmul_nan [simp]: "fmul NaN y = NaN" "fmul x NaN = NaN"
  by (simp_all add: fmul_def Let_def)

lemma fdiv_nan [simp]: "fdiv NaN y = NaN" "fdiv x NaN = NaN"
  by (simp_all add: fdiv_def Let_def)

lemma to_i32_bdd:
  assumes "bdd B x" "B < 2 ^ 31"
  shows "to_i32 x = Inr (trunc_rat (fval x))" "\<bar>of_int (trunc_rat (fval x))\<bar> \<le> B"
proof -
  have t: "\<bar>of_int (trunc_rat v)\<bar> \<le> \<bar>v\<bar>" for v :: rat
  proof (cases "0 \<le> v")
    case True
    then show ?thesis
      by (simp add: trunc_rat_def)
  next
    case False
    then have "\<lceil>v\<rceil> \<le> 0" "v \<le> of_int \<lceil>v\<rceil>"
      by (auto simp: ceiling_le_iff)
    then have "of_int \<lceil>v\<rceil> \<le> (0 :: rat)"
      by simp
    then show ?thesis
      using False le_of_int_ceiling [of v] by (simp add: trunc_rat_def del: le_of_int_ceiling)
  qed
  then show *: "\<bar>of_int (trunc_rat (fval x))\<bar> \<le> B"
    using assms(1) order_trans [OF t [of "fval x"]] by (simp add: bdd_def)
  then have "\<bar>of_int (trunc_rat (fval x)) :: rat\<bar> < of_int (2 ^ 31)"
    using assms(2) by simp
  then have "\<bar>trunc_rat (fval x)\<bar> < 2 ^ 31"
    by (simp only: of_int_less_iff flip: of_int_abs)
  then show "to_i32 x = Inr (trunc_rat (fval x))"
    using assms(1) by (auto simp: to_i32_def in_i32_def bdd_def)
qed

lemma repr32_pow2 [simp]: "n < 128 \<Longrightarrow> repr32 (2 ^ n)"
  using rnd32_grid [of "2 ^ n" 1 "int n"] power_strict_increasing [of n 128 "2 :: rat"]
  by (simp add: repr32_def)

lemma repr32_pow2_numerals [simp]:
  "repr32 33554432" "repr32 67108864" "repr32 134217728" "repr32 268435456" "repr32 536870912"
  "repr32 1073741824" "repr32 4294967296" "repr32 34359738368" "repr32 68719476736"
  "repr32 137438953472" "repr32 1099511627776"
  using repr32_pow2 [of 25] repr32_pow2 [of 26] repr32_pow2 [of 27] repr32_pow2 [of 28]
    repr32_pow2 [of 29] repr32_pow2 [of 30] repr32_pow2 [of 32] repr32_pow2 [of 35]
    repr32_pow2 [of 36] repr32_pow2 [of 37] repr32_pow2 [of 40]
  by simp_all

lemma flit_bdd: "\<bar>q\<bar> \<le> B \<Longrightarrow> repr32 B \<Longrightarrow> bdd B (flit q) \<and> fval (flit q) = rnd32 q"
  by (simp add: flit_def mk_f32_bdd)

lemma flit_repr: "repr32 q \<Longrightarrow> flit q = Fin q"
  by (auto simp: flit_def mk_f32_def repr32_def Let_def)

lemma flit_0 [simp]: "flit 0 = Fin 0" and flit_1 [simp]: "flit 1 = Fin 1"
  by (simp_all add: flit_repr)

lemma flit_numeral [simp]:
  assumes "(numeral n :: int) \<le> 2 ^ 24"
  shows "flit (numeral n) = Fin (numeral n)" "flit (- numeral n) = Fin (- numeral n)"
  using assms by (simp_all add: flit_repr)

lemma of_i32_small: "\<bar>n\<bar> \<le> 2 ^ 24 \<Longrightarrow> of_i32 n = Fin (of_int n)"
  using repr32_of_int [of n] by (simp add: of_i32_def mk_f32_def repr32_def Let_def)

lemma bdd_Fin [simp]: "bdd B (Fin x) \<longleftrightarrow> \<bar>x\<bar> \<le> B"
  by (simp add: bdd_def)

lemma constrain_sym_bdd:
  assumes "0 \<le> B"
  shows "isnan (constrain x (Fin (- B)) (Fin B)) = isnan x"
    and "\<not> isnan x \<Longrightarrow> bdd B (constrain x (Fin (- B)) (Fin B))"
proof -
  show 1: "isnan (constrain x (Fin (- B)) (Fin B)) = isnan x"
    by (cases x) (auto simp: constrain_def)
  show "bdd B (constrain x (Fin (- B)) (Fin B))" if "\<not> isnan x"
    using constrain_range [of "Fin (- B)" "Fin B" x] that assms by (auto simp: bdd_def abs_le_iff)
qed

text \<open>A value a \<open>float\<close> variable can hold.\<close>

definition is_float :: "f32 \<Rightarrow> bool" where
  "is_float a \<longleftrightarrow> (fin a \<longrightarrow> repr32 (fval a))"

section \<open>Order\<close>

lemma fle_refl: "\<not> isnan x \<Longrightarrow> fle x x"
  by (cases x) auto

lemma fle_trans: "fle x y \<Longrightarrow> fle y z \<Longrightarrow> fle x z"
  by (cases x; cases y; cases z) auto

lemma not_flt_fle: "\<not> isnan x \<Longrightarrow> \<not> isnan y \<Longrightarrow> \<not> flt y x \<longleftrightarrow> fle x y"
  by (cases x; cases y) auto

lemma flt_imp_fle: "flt x y \<Longrightarrow> fle x y"
  by (cases x; cases y) auto

lemma flt_not_fle: "flt x y \<Longrightarrow> \<not> fle y x"
  by (cases x; cases y) auto

lemma rnd32_double: "rnd32 x = x \<Longrightarrow> rnd32 (2 * x) = 2 * x"
proof (cases "x = 0")
  case False
  assume x: "rnd32 x = x"
  obtain m where "x = of_int m * 2 powi ulp_exp x" "\<bar>m\<bar> \<le> 2 ^ 24"
    using rnd32_scaled [OF False] x by metis
  then have "2 * x = of_int m * 2 powi (ulp_exp x + 1)" "\<bar>m\<bar> \<le> 2 ^ 24"
    by (metis mult.left_commute two_powi_Suc)+
  then show ?thesis
    by (rule rnd32_grid) (use ulp_exp_ge [of x] in simp)
qed simp

text \<open>The computed midpoint of two floats lies between them.\<close>

lemma midpoint_between:
  assumes lo: "bdd (2 ^ 100) lo" "is_float lo" and hi: "bdd (2 ^ 100) hi" "is_float hi"
    and le: "fval lo \<le> fval hi"
  shows "bdd (2 ^ 100) (fmul (flit (1 / 2)) (fadd hi lo))"
    "fval lo \<le> fval (fmul (flit (1 / 2)) (fadd hi lo))"
    "fval (fmul (flit (1 / 2)) (fadd hi lo)) \<le> fval hi"
proof -
  have h: "flit (1 / 2) = Fin (1 / 2)"
    using repr32_half_int [of 1 1] by (simp add: flit_repr)
  have r: "rnd32 (fval lo) = fval lo" "rnd32 (fval hi) = fval hi"
    using assms bdd_fin by (auto simp: is_float_def repr32_def)
  have s: "bdd (2 ^ 101) (fadd hi lo)" "fval (fadd hi lo) = rnd32 (fval hi + fval lo)"
    using fadd_bdd [OF hi(1) lo(1), of "2 ^ 101"] repr32_pow2 [of 101] by simp_all
  have "rnd32 (2 * fval lo) \<le> rnd32 (fval hi + fval lo)"
    "rnd32 (fval hi + fval lo) \<le> rnd32 (2 * fval hi)"
    using le by (auto intro: rnd32_mono)
  then have b: "2 * fval lo \<le> fval (fadd hi lo)" "fval (fadd hi lo) \<le> 2 * fval hi"
    using rnd32_double r s(2) by simp_all
  have m: "bdd (2 ^ 100) (fmul (Fin (1 / 2)) (fadd hi lo))"
    "fval (fmul (Fin (1 / 2)) (fadd hi lo)) = rnd32 (1 / 2 * fval (fadd hi lo))"
    using fmul_bdd [OF _ s(1), of "1 / 2" "Fin (1 / 2)" "2 ^ 100"] repr32_pow2 [of 100] by simp_all
  have "rnd32 (fval lo) \<le> rnd32 (1 / 2 * fval (fadd hi lo))"
    "rnd32 (1 / 2 * fval (fadd hi lo)) \<le> rnd32 (fval hi)"
    using b by (auto intro: rnd32_mono)
  then show "bdd (2 ^ 100) (fmul (flit (1 / 2)) (fadd hi lo))"
    "fval lo \<le> fval (fmul (flit (1 / 2)) (fadd hi lo))"
    "fval (fmul (flit (1 / 2)) (fadd hi lo)) \<le> fval hi"
    using m by (simp_all add: h r)
qed

end
