(* ===== verification/BoardConfig.thy ===== *)
theory BoardConfig
  imports Float32
begin

text \<open>
  The constants of \<open>firmware/src/config.h\<close>, under their own names. Every \<open>float\<close>
  constant is the decimal literal of the source rounded to binary32, and is followed, at
  the end, by the exact rational it denotes (the collection \<open>config_f32\<close>); the integer,
  boolean and string constants unfold with the collection \<open>config\<close>. The two
  \<open>MOTOR_DIR_INVERT\<close> macros have their default values.
\<close>

named_theorems config "integer, boolean and string constants"
named_theorems config_f32 "values of the float constants"

section \<open>Pins and I2C\<close>

definition M1_RPWM_PIN :: "int" where
  "M1_RPWM_PIN = 17"

definition M1_LPWM_PIN :: "int" where
  "M1_LPWM_PIN = 16"

definition M1_REN_PIN :: "int" where
  "M1_REN_PIN = 15"

definition M1_LEN_PIN :: "int" where
  "M1_LEN_PIN = 7"

definition M2_RPWM_PIN :: "int" where
  "M2_RPWM_PIN = 47"

definition M2_LPWM_PIN :: "int" where
  "M2_LPWM_PIN = 21"

definition M2_REN_PIN :: "int" where
  "M2_REN_PIN = 2"

definition M2_LEN_PIN :: "int" where
  "M2_LEN_PIN = 1"

definition M1_ENC_B_PIN :: "int" where
  "M1_ENC_B_PIN = 5"

definition M1_ENC_A_PIN :: "int" where
  "M1_ENC_A_PIN = 6"

definition M2_ENC_B_PIN :: "int" where
  "M2_ENC_B_PIN = 38"

definition M2_ENC_A_PIN :: "int" where
  "M2_ENC_A_PIN = 37"

definition I2C_SDA_PIN :: "int" where
  "I2C_SDA_PIN = 8"

definition I2C_SCL_PIN :: "int" where
  "I2C_SCL_PIN = 9"

definition I2C_FREQ_HZ :: "u32" where
  "I2C_FREQ_HZ = 400000"

definition LSM6DS3_I2C_ADDR_PRIMARY :: "u8" where
  "LSM6DS3_I2C_ADDR_PRIMARY = 106"

definition LSM6DS3_I2C_ADDR_ALT :: "u8" where
  "LSM6DS3_I2C_ADDR_ALT = 107"

definition HMC5883L_I2C_ADDR :: "u8" where
  "HMC5883L_I2C_ADDR = 30"

definition QMC5883_I2C_ADDR :: "u8" where
  "QMC5883_I2C_ADDR = 13"

definition QMC_REG_X_LSB :: "u8" where
  "QMC_REG_X_LSB = 0"

definition QMC_REG_STATUS :: "u8" where
  "QMC_REG_STATUS = 6"

definition QMC_REG_CONTROL_1 :: "u8" where
  "QMC_REG_CONTROL_1 = 9"

definition QMC_REG_CONTROL_2 :: "u8" where
  "QMC_REG_CONTROL_2 = 10"

definition QMC_REG_SET_RESET :: "u8" where
  "QMC_REG_SET_RESET = 11"

definition QMC_STATUS_DATA_READY :: "u8" where
  "QMC_STATUS_DATA_READY = 1"

definition QMC_LSB_TO_UT :: "f32" where
  "QMC_LSB_TO_UT = flit (1 / 10)"

section \<open>Sensor timing and calibration\<close>

definition IMU_READ_PERIOD_MS :: "u32" where
  "IMU_READ_PERIOD_MS = 20"

definition COMPASS_READ_PERIOD_MS :: "u32" where
  "COMPASS_READ_PERIOD_MS = 50"

definition SENSOR_DEBUG_PERIOD_MS :: "u32" where
  "SENSOR_DEBUG_PERIOD_MS = 1000"

definition YAW_COMPLEMENTARY_ALPHA :: "f32" where
  "YAW_COMPLEMENTARY_ALPHA = flit (98 / 100)"

definition COMPASS_DECLINATION_DEG :: "f32" where
  "COMPASS_DECLINATION_DEG = flit 0"

definition HMC_OFFSET_X_UT :: "f32" where
  "HMC_OFFSET_X_UT = flit 0"

definition HMC_OFFSET_Y_UT :: "f32" where
  "HMC_OFFSET_Y_UT = flit 0"

definition HMC_OFFSET_Z_UT :: "f32" where
  "HMC_OFFSET_Z_UT = flit 0"

definition ENABLE_TILT_COMPENSATION :: "bool" where
  "ENABLE_TILT_COMPENSATION = False"

definition COMPASS_STALE_EPS_UT :: "f32" where
  "COMPASS_STALE_EPS_UT = flit (2 / 100)"

definition COMPASS_STALE_WARN_MS :: "u32" where
  "COMPASS_STALE_WARN_MS = 2000"

definition MAG_CALIBRATION_DURATION_MS :: "u32" where
  "MAG_CALIBRATION_DURATION_MS = 15000"

definition MAG_CALIBRATION_ANGULAR_RADPS :: "f32" where
  "MAG_CALIBRATION_ANGULAR_RADPS = flit 1"

section \<open>PWM\<close>

definition PWM_FREQ_HZ :: "int" where
  "PWM_FREQ_HZ = 20000"

definition PWM_RES_BITS :: "int" where
  "PWM_RES_BITS = 8"

definition PWM_MAX :: "int" where
  "PWM_MAX = 2 ^ nat PWM_RES_BITS - 1"

definition PWM_M1_R_CH :: "int" where
  "PWM_M1_R_CH = 0"

definition PWM_M1_L_CH :: "int" where
  "PWM_M1_L_CH = 1"

definition PWM_M2_R_CH :: "int" where
  "PWM_M2_R_CH = 2"

definition PWM_M2_L_CH :: "int" where
  "PWM_M2_L_CH = 3"

section \<open>Kinematics\<close>

definition ENCODER_PPR :: "f32" where
  "ENCODER_PPR = flit 11"

definition GEAR_RATIO :: "f32" where
  "GEAR_RATIO = flit (188 / 10)"

definition ENCODER_EDGE_MULTIPLIER :: "f32" where
  "ENCODER_EDGE_MULTIPLIER = flit 1"

definition COUNTS_PER_OUTPUT_REV :: "f32" where
  "COUNTS_PER_OUTPUT_REV = fmul (fmul ENCODER_PPR GEAR_RATIO) ENCODER_EDGE_MULTIPLIER"

definition WHEEL_RADIUS_M :: "f32" where
  "WHEEL_RADIUS_M = flit (613 / 10000)"

definition WHEEL_BASE_M :: "f32" where
  "WHEEL_BASE_M = flit (282 / 1000)"

section \<open>Timing\<close>

definition CONTROL_PERIOD_MS :: "u32" where
  "CONTROL_PERIOD_MS = 10"

definition TELEMETRY_PERIOD_MS :: "u32" where
  "TELEMETRY_PERIOD_MS = 50"

definition ROS_TIME_SYNC_PERIOD_MS :: "u32" where
  "ROS_TIME_SYNC_PERIOD_MS = 5000"

definition CMD_TIMEOUT_MS :: "u32" where
  "CMD_TIMEOUT_MS = 1000"

definition RPM_ESTIMATION_WINDOW_MS :: "u32" where
  "RPM_ESTIMATION_WINDOW_MS = 50"

definition PUBLISH_RAW_ODOM_TF :: "bool" where
  "PUBLISH_RAW_ODOM_TF = False"

section \<open>PID defaults and control tuning\<close>

definition M1_KP :: "f32" where
  "M1_KP = flit 1"

definition M1_KI :: "f32" where
  "M1_KI = flit 1"

definition M1_KD :: "f32" where
  "M1_KD = flit (1 / 100)"

definition M2_KP :: "f32" where
  "M2_KP = flit 1"

definition M2_KI :: "f32" where
  "M2_KI = flit 1"

definition M2_KD :: "f32" where
  "M2_KD = flit (1 / 100)"

definition FF_GAIN :: "f32" where
  "FF_GAIN = flit (8 / 10)"

definition MIN_PWM_START :: "int" where
  "MIN_PWM_START = 60"

definition SPEED_LPF_ALPHA :: "f32" where
  "SPEED_LPF_ALPHA = flit (3 / 10)"

definition PWM_DEADBAND :: "int" where
  "PWM_DEADBAND = 8"

definition ZERO_CMD_RPM_EPS :: "f32" where
  "ZERO_CMD_RPM_EPS = flit (8 / 10)"

definition ZERO_CMD_MPS_EPS :: "f32" where
  "ZERO_CMD_MPS_EPS = flit (1 / 100)"

definition ZERO_CMD_RADPS_EPS :: "f32" where
  "ZERO_CMD_RADPS_EPS = flit (5 / 100)"

definition RPM_NOISE_EPS :: "f32" where
  "RPM_NOISE_EPS = flit (5 / 100)"

definition MAX_PLAUSIBLE_RPM :: "f32" where
  "MAX_PLAUSIBLE_RPM = flit 700"

section \<open>Non-volatile storage keys\<close>

definition PID_PREFS_NAMESPACE :: "string" where
  "PID_PREFS_NAMESPACE = ''pid''"

definition PID_PREF_KEY_KP :: "string" where
  "PID_PREF_KEY_KP = ''kp''"

definition PID_PREF_KEY_KI :: "string" where
  "PID_PREF_KEY_KI = ''ki''"

definition PID_PREF_KEY_KD :: "string" where
  "PID_PREF_KEY_KD = ''kd''"

definition MAG_PREFS_NAMESPACE :: "string" where
  "MAG_PREFS_NAMESPACE = ''mag''"

definition MAG_PREF_KEY_OFFSET_X :: "string" where
  "MAG_PREF_KEY_OFFSET_X = ''offx''"

definition MAG_PREF_KEY_OFFSET_Y :: "string" where
  "MAG_PREF_KEY_OFFSET_Y = ''offy''"

definition MAG_PREF_KEY_OFFSET_Z :: "string" where
  "MAG_PREF_KEY_OFFSET_Z = ''offz''"

section \<open>Units, motor direction, LiDAR\<close>

definition UT_TO_TESLA :: "f32" where
  "UT_TO_TESLA = flit (1 / 1000000)"

definition M1_MOTOR_DIR_INVERTED :: "bool" where
  "M1_MOTOR_DIR_INVERTED = ((1 :: int) \<noteq> 0)"

definition M2_MOTOR_DIR_INVERTED :: "bool" where
  "M2_MOTOR_DIR_INVERTED = ((0 :: int) \<noteq> 0)"

definition M1_ENCODER_INVERT :: "bool" where
  "M1_ENCODER_INVERT = False"

definition M2_ENCODER_INVERT :: "bool" where
  "M2_ENCODER_INVERT = True"

definition LIDAR_MOTOR_PIN :: "int" where
  "LIDAR_MOTOR_PIN = 19"

definition LIDAR_RX_PIN :: "int" where
  "LIDAR_RX_PIN = 20"

definition LIDAR_BAUD :: "u32" where
  "LIDAR_BAUD = 115200"

lemmas config_defs [config] =
  M1_RPWM_PIN_def
  M1_LPWM_PIN_def
  M1_REN_PIN_def
  M1_LEN_PIN_def
  M2_RPWM_PIN_def
  M2_LPWM_PIN_def
  M2_REN_PIN_def
  M2_LEN_PIN_def
  M1_ENC_B_PIN_def
  M1_ENC_A_PIN_def
  M2_ENC_B_PIN_def
  M2_ENC_A_PIN_def
  I2C_SDA_PIN_def
  I2C_SCL_PIN_def
  I2C_FREQ_HZ_def
  LSM6DS3_I2C_ADDR_PRIMARY_def
  LSM6DS3_I2C_ADDR_ALT_def
  HMC5883L_I2C_ADDR_def
  QMC5883_I2C_ADDR_def
  QMC_REG_X_LSB_def
  QMC_REG_STATUS_def
  QMC_REG_CONTROL_1_def
  QMC_REG_CONTROL_2_def
  QMC_REG_SET_RESET_def
  QMC_STATUS_DATA_READY_def
  IMU_READ_PERIOD_MS_def
  COMPASS_READ_PERIOD_MS_def
  SENSOR_DEBUG_PERIOD_MS_def
  ENABLE_TILT_COMPENSATION_def
  COMPASS_STALE_WARN_MS_def
  MAG_CALIBRATION_DURATION_MS_def
  PWM_FREQ_HZ_def
  PWM_RES_BITS_def
  PWM_MAX_def
  PWM_M1_R_CH_def
  PWM_M1_L_CH_def
  PWM_M2_R_CH_def
  PWM_M2_L_CH_def
  CONTROL_PERIOD_MS_def
  TELEMETRY_PERIOD_MS_def
  ROS_TIME_SYNC_PERIOD_MS_def
  CMD_TIMEOUT_MS_def
  RPM_ESTIMATION_WINDOW_MS_def
  PUBLISH_RAW_ODOM_TF_def
  MIN_PWM_START_def
  PWM_DEADBAND_def
  PID_PREFS_NAMESPACE_def
  PID_PREF_KEY_KP_def
  PID_PREF_KEY_KI_def
  PID_PREF_KEY_KD_def
  MAG_PREFS_NAMESPACE_def
  MAG_PREF_KEY_OFFSET_X_def
  MAG_PREF_KEY_OFFSET_Y_def
  MAG_PREF_KEY_OFFSET_Z_def
  M1_MOTOR_DIR_INVERTED_def
  M2_MOTOR_DIR_INVERTED_def
  M1_ENCODER_INVERT_def
  M2_ENCODER_INVERT_def
  LIDAR_MOTOR_PIN_def
  LIDAR_RX_PIN_def
  LIDAR_BAUD_def

section \<open>The rationals behind the float constants\<close>

lemma QMC_LSB_TO_UT_val [config_f32]: "QMC_LSB_TO_UT = Fin (13421773 / 134217728)"
  by code_simp

lemma YAW_COMPLEMENTARY_ALPHA_val [config_f32]: "YAW_COMPLEMENTARY_ALPHA = Fin (2055209 / 2097152)"
  by code_simp

lemma COMPASS_DECLINATION_DEG_val [config_f32]: "COMPASS_DECLINATION_DEG = Fin (0)"
  by code_simp

lemma HMC_OFFSET_X_UT_val [config_f32]: "HMC_OFFSET_X_UT = Fin (0)"
  by code_simp

lemma HMC_OFFSET_Y_UT_val [config_f32]: "HMC_OFFSET_Y_UT = Fin (0)"
  by code_simp

lemma HMC_OFFSET_Z_UT_val [config_f32]: "HMC_OFFSET_Z_UT = Fin (0)"
  by code_simp

lemma COMPASS_STALE_EPS_UT_val [config_f32]: "COMPASS_STALE_EPS_UT = Fin (5368709 / 268435456)"
  by code_simp

lemma MAG_CALIBRATION_ANGULAR_RADPS_val [config_f32]: "MAG_CALIBRATION_ANGULAR_RADPS = Fin (1)"
  by code_simp

lemma ENCODER_PPR_val [config_f32]: "ENCODER_PPR = Fin (11)"
  by code_simp

lemma GEAR_RATIO_val [config_f32]: "GEAR_RATIO = Fin (4928307 / 262144)"
  by code_simp

lemma ENCODER_EDGE_MULTIPLIER_val [config_f32]: "ENCODER_EDGE_MULTIPLIER = Fin (1)"
  by code_simp

lemma COUNTS_PER_OUTPUT_REV_val [config_f32]: "COUNTS_PER_OUTPUT_REV = Fin (3388211 / 16384)"
  by code_simp

lemma WHEEL_RADIUS_M_val [config_f32]: "WHEEL_RADIUS_M = Fin (16455093 / 268435456)"
  by code_simp

lemma WHEEL_BASE_M_val [config_f32]: "WHEEL_BASE_M = Fin (4731175 / 16777216)"
  by code_simp

lemma M1_KP_val [config_f32]: "M1_KP = Fin (1)"
  by code_simp

lemma M1_KI_val [config_f32]: "M1_KI = Fin (1)"
  by code_simp

lemma M1_KD_val [config_f32]: "M1_KD = Fin (5368709 / 536870912)"
  by code_simp

lemma M2_KP_val [config_f32]: "M2_KP = Fin (1)"
  by code_simp

lemma M2_KI_val [config_f32]: "M2_KI = Fin (1)"
  by code_simp

lemma M2_KD_val [config_f32]: "M2_KD = Fin (5368709 / 536870912)"
  by code_simp

lemma FF_GAIN_val [config_f32]: "FF_GAIN = Fin (13421773 / 16777216)"
  by code_simp

lemma SPEED_LPF_ALPHA_val [config_f32]: "SPEED_LPF_ALPHA = Fin (5033165 / 16777216)"
  by code_simp

lemma ZERO_CMD_RPM_EPS_val [config_f32]: "ZERO_CMD_RPM_EPS = Fin (13421773 / 16777216)"
  by code_simp

lemma ZERO_CMD_MPS_EPS_val [config_f32]: "ZERO_CMD_MPS_EPS = Fin (5368709 / 536870912)"
  by code_simp

lemma ZERO_CMD_RADPS_EPS_val [config_f32]: "ZERO_CMD_RADPS_EPS = Fin (13421773 / 268435456)"
  by code_simp

lemma RPM_NOISE_EPS_val [config_f32]: "RPM_NOISE_EPS = Fin (13421773 / 268435456)"
  by code_simp

lemma MAX_PLAUSIBLE_RPM_val [config_f32]: "MAX_PLAUSIBLE_RPM = Fin (700)"
  by code_simp

lemma UT_TO_TESLA_val [config_f32]: "UT_TO_TESLA = Fin (8796093 / 8796093022208)"
  by code_simp

end
