(* ===== verification/Board.thy ===== *)
theory Board
  imports BoardConfig
begin

text \<open>
  The Arduino core as the firmware uses it: every call that drives the hardware is
  recorded, newest first, in \<open>io\<close>; the duty cycle of a PWM channel is the one of the last
  \<open>ledcWrite\<close> on it. Readings of \<open>millis()\<close> come from a stream \<open>clk\<close>, one element per call,
  so that two calls in one function may see different times.
\<close>

section \<open>Calls to the Arduino core\<close>

datatype pin_mode = Output | Input_Pullup

datatype isr = M1_Encoder_ISR | M2_Encoder_ISR

text \<open>The lines printed on the serial port, with the values they show.\<close>

datatype log_line =
    I2c_Config int int u32
  | I2c_Probe bool bool bool
  | Qmc_Found
  | Sensor_Init bool u8 bool bool
  | Sensor_Values bool "f32 list" bool "f32 list"
  | Compass_Unchanged u32
  | Calibration_Started u32 f32
  | Calibration_Without_Samples
  | Calibration_Done f32 f32 f32

datatype hw_call =
    Pin_Mode int pin_mode
  | Digital_Write int bool
  | Ledc_Setup int int int
  | Ledc_Attach_Pin int int
  | Ledc_Write int int
  | Attach_Interrupt int isr
  | Wire_Begin int int u32
  | Serial_Begin u32
  | Delay u32
  | Set_Microros_Transports
  | Log log_line

record board =
  io :: "hw_call list"
  clk :: "nat \<Rightarrow> u32"
  clk_i :: nat

definition emit :: "hw_call \<Rightarrow> 'a board_scheme \<Rightarrow> 'a board_scheme" where
  "emit c s = s\<lparr>io := c # io s\<rparr>"

fun emits :: "hw_call list \<Rightarrow> 'a board_scheme \<Rightarrow> 'a board_scheme" where
  "emits [] s = s"
| "emits (c # cs) s = emits cs (emit c s)"

definition millis :: "'a board_scheme \<Rightarrow> u32 \<times> 'a board_scheme" where
  "millis s = (clk s (clk_i s), s\<lparr>clk_i := Suc (clk_i s)\<rparr>)"

text \<open>The duty cycle a channel was last given, 0 before the first write.\<close>

primrec duty :: "int \<Rightarrow> hw_call list \<Rightarrow> int" where
  "duty ch [] = 0"
| "duty ch (c # cs) = (case c of Ledc_Write ch' d \<Rightarrow> if ch = ch' then d else duty ch cs
     | _ \<Rightarrow> duty ch cs)"

lemma io_emits: "io (emits cs s) = rev cs @ io s"
  by (induction cs arbitrary: s) (simp_all add: emit_def)

lemma emits_append: "emits (xs @ ys) s = emits ys (emits xs s)"
  by (induction xs arbitrary: s) simp_all

lemma emits_eq: "emits cs s = s\<lparr>io := rev cs @ io s\<rparr>"
  by (induction cs arbitrary: s) (simp_all add: emit_def)

lemma millis_simps [simp]:
  "fst (millis s) = clk s (clk_i s)"
  "snd (millis s) = s\<lparr>clk_i := Suc (clk_i s)\<rparr>"
  by (simp_all add: millis_def)

section \<open>Periodic activities\<close>

text \<open>
  The firmware runs its activities with the pattern
  \<open>if ((now - last) >= PERIOD) { last = now; \<dots> }\<close> on \<open>uint32_t\<close> milliseconds; the
  subtraction wraps, so the test is right across the roll-over of \<open>millis()\<close>.
\<close>

definition elapsed :: "u32 \<Rightarrow> u32 \<Rightarrow> u32" where
  "elapsed now since = now - since"

lemma unat_elapsed: "unat (elapsed now since) = (unat now + 2 ^ 32 - unat since) mod 2 ^ 32"
  by (simp only: elapsed_def u32_diff_wraps)

lemma elapsed_forward [simp]: "elapsed (t + d) t = d"
  by (simp add: elapsed_def)

end
