(* ===== verification/Motors.thy ===== *)
theory Motors
  imports Board
begin

text \<open>
  \<open>firmware/src/motors.cpp\<close>: the globals \<open>g_m1_target_rpm\<close>, \<open>g_m2_target_rpm\<close> and
  \<open>g_last_cmd_ms\<close>, the H-bridge pins and PWM channels, and the conversion of a velocity
  command into wheel speeds.
\<close>

record motors = board +
  m1_target_rpm :: f32
  m2_target_rpm :: f32
  last_cmd_ms :: u32

section \<open>PWM output\<close>

definition stopMotors :: "'a board_scheme \<Rightarrow> 'a board_scheme" where
  "stopMotors s = emits
     [Ledc_Write PWM_M1_R_CH 0, Ledc_Write PWM_M1_L_CH 0,
      Ledc_Write PWM_M2_R_CH 0, Ledc_Write PWM_M2_L_CH 0] s"

definition initMotorPinsAndPwm :: "'a board_scheme \<Rightarrow> 'a board_scheme" where
  "initMotorPinsAndPwm s = stopMotors (emits
     [Pin_Mode M1_REN_PIN Output, Pin_Mode M1_LEN_PIN Output,
      Pin_Mode M2_REN_PIN Output, Pin_Mode M2_LEN_PIN Output,
      Digital_Write M1_REN_PIN True, Digital_Write M1_LEN_PIN True,
      Digital_Write M2_REN_PIN True, Digital_Write M2_LEN_PIN True,
      Ledc_Setup PWM_M1_R_CH PWM_FREQ_HZ PWM_RES_BITS,
      Ledc_Setup PWM_M1_L_CH PWM_FREQ_HZ PWM_RES_BITS,
      Ledc_Setup PWM_M2_R_CH PWM_FREQ_HZ PWM_RES_BITS,
      Ledc_Setup PWM_M2_L_CH PWM_FREQ_HZ PWM_RES_BITS,
      Ledc_Attach_Pin M1_RPWM_PIN PWM_M1_R_CH, Ledc_Attach_Pin M1_LPWM_PIN PWM_M1_L_CH,
      Ledc_Attach_Pin M2_RPWM_PIN PWM_M2_R_CH, Ledc_Attach_Pin M2_LPWM_PIN PWM_M2_L_CH] s)"

definition constrain_int :: "int \<Rightarrow> int \<Rightarrow> int \<Rightarrow> int" where
  "constrain_int amt low high = (if amt < low then low else if amt > high then high else amt)"

definition applyMotorCommand :: "int \<Rightarrow> int \<Rightarrow> 'a board_scheme \<Rightarrow> 'a board_scheme" where
  "applyMotorCommand motor_index pwm_signed s =
     (let p = constrain_int pwm_signed (- PWM_MAX) PWM_MAX;
          p = (if \<bar>p\<bar> < PWM_DEADBAND then 0 else p)
      in if motor_index = 1 then
           let cmd = (if M1_MOTOR_DIR_INVERTED then - p else p);
               forward = (0 \<le> cmd);
               dty = \<bar>cmd\<bar>
           in emits [Ledc_Write PWM_M1_R_CH (if forward then dty else 0),
                     Ledc_Write PWM_M1_L_CH (if forward then 0 else dty)] s
         else
           let cmd = (if M2_MOTOR_DIR_INVERTED then - p else p);
               forward = (0 \<le> cmd);
               dty = \<bar>cmd\<bar>
           in emits [Ledc_Write PWM_M2_R_CH (if forward then dty else 0),
                     Ledc_Write PWM_M2_L_CH (if forward then 0 else dty)] s)"

section \<open>Velocity commands\<close>

text \<open>\<open>static_cast<float>(M_PI)\<close>.\<close>

definition M_PI_F :: f32 where
  "M_PI_F = flit (314159265358979323846 / 100000000000000000000)"

lemma M_PI_F_val [config_f32]: "M_PI_F = Fin (13176795 / 4194304)"
  by code_simp

definition setTargetsFromCmdVel ::
    "f32 \<Rightarrow> f32 \<Rightarrow> 'a motors_scheme \<Rightarrow> 'a motors_scheme" where
  "setTargetsFromCmdVel linear_x_mps angular_z_radps s =
     (let lin = (if flt (fabsf linear_x_mps) ZERO_CMD_MPS_EPS then Fin 0 else linear_x_mps);
          ang = (if flt (fabsf angular_z_radps) ZERO_CMD_RADPS_EPS then Fin 0
                 else angular_z_radps);
          v_left = fsub lin (fmul (fmul ang WHEEL_BASE_M) (flit (5 / 10)));
          v_right = fadd lin (fmul (fmul ang WHEEL_BASE_M) (flit (5 / 10)));
          circ = fmul (fmul (flit 2) M_PI_F) WHEEL_RADIUS_M
      in s\<lparr>m1_target_rpm := fmul (fdiv v_left circ) (flit 60),
           m2_target_rpm := fmul (fdiv v_right circ) (flit 60)\<rparr>)"

section \<open>The H-bridge\<close>

text \<open>
  The two half bridges of a motor, and what the state of the channels must satisfy: at most
  one side of a bridge is driven and no duty cycle exceeds the 8-bit range.
\<close>

definition bridge_safe :: "hw_call list \<Rightarrow> bool" where
  "bridge_safe cs \<longleftrightarrow>
     (\<forall>ch \<in> {PWM_M1_R_CH, PWM_M1_L_CH, PWM_M2_R_CH, PWM_M2_L_CH}. 0 \<le> duty ch cs \<and> duty ch cs \<le> PWM_MAX) \<and>
     (duty PWM_M1_R_CH cs = 0 \<or> duty PWM_M1_L_CH cs = 0) \<and>
     (duty PWM_M2_R_CH cs = 0 \<or> duty PWM_M2_L_CH cs = 0)"

definition all_stopped :: "hw_call list \<Rightarrow> bool" where
  "all_stopped cs \<longleftrightarrow> duty PWM_M1_R_CH cs = 0 \<and> duty PWM_M1_L_CH cs = 0 \<and>
     duty PWM_M2_R_CH cs = 0 \<and> duty PWM_M2_L_CH cs = 0"

text \<open>What a signed PWM value asks of a motor after clamping and dead band.\<close>

definition effective_pwm :: "int \<Rightarrow> int" where
  "effective_pwm p = (let q = max (- 255) (min 255 p) in if \<bar>q\<bar> < 8 then 0 else q)"

lemma effective_pwm_bound: "\<bar>effective_pwm p\<bar> \<le> 255"
proof -
  have "\<bar>max (- 255) (min 255 p)\<bar> \<le> 255"
    by (simp add: abs_le_iff)
  then show ?thesis
    by (simp add: effective_pwm_def Let_def)
qed

lemma constrain_int_max_min: "constrain_int p (- 255) 255 = max (- 255) (min 255 p)"
  by (simp add: constrain_int_def max_def min_def)

lemma bridge_sides:
  "(if 0 \<le> e then \<bar>e\<bar> else 0) = max 0 (e :: int)"
  "(if 0 \<le> e then 0 else \<bar>e\<bar>) = max 0 (- e)"
  by auto

lemma applyMotorCommand_eq:
  "applyMotorCommand i p s =
     (if i = 1
      then emits [Ledc_Write 0 (max 0 (- effective_pwm p)), Ledc_Write 1 (max 0 (effective_pwm p))] s
      else emits [Ledc_Write 2 (max 0 (effective_pwm p)), Ledc_Write 3 (max 0 (- effective_pwm p))] s)"
proof -
  have pwm: "PWM_MAX = 255" "PWM_DEADBAND = 8"
    by (simp_all add: config)
  have e: "(let p = constrain_int p (- PWM_MAX) PWM_MAX in if \<bar>p\<bar> < PWM_DEADBAND then 0 else p)
      = effective_pwm p"
    by (simp only: pwm constrain_int_max_min effective_pwm_def)
  show ?thesis
    unfolding applyMotorCommand_def Let_def
    using e unfolding Let_def
    by (simp only: bridge_sides) (simp add: config)
qed

lemma duty_applyMotorCommand:
  "duty ch (io (applyMotorCommand i p s)) =
     (if i = 1 then (if ch = 0 then max 0 (- effective_pwm p) else
                     if ch = 1 then max 0 (effective_pwm p) else duty ch (io s))
      else (if ch = 2 then max 0 (effective_pwm p) else
            if ch = 3 then max 0 (- effective_pwm p) else duty ch (io s)))"
  by (simp add: applyMotorCommand_eq emits_eq)

lemma applyMotorCommand_frame:
  "applyMotorCommand i p s = s\<lparr>io := io (applyMotorCommand i p s)\<rparr>"
  by (simp add: applyMotorCommand_eq emits_eq)

lemma stopMotors_eq:
  "stopMotors s = s\<lparr>io := [Ledc_Write 3 0, Ledc_Write 2 0, Ledc_Write 1 0, Ledc_Write 0 0] @ io s\<rparr>"
  by (simp add: stopMotors_def emits_eq config)

lemma stopMotors_stopped: "all_stopped (io (stopMotors s))"
  by (simp add: stopMotors_eq all_stopped_def config)

lemma all_stopped_safe: "all_stopped cs \<Longrightarrow> bridge_safe cs"
  by (auto simp: all_stopped_def bridge_safe_def config)

lemma applyMotorCommand_bridge_safe:
  "bridge_safe (io s) \<Longrightarrow> bridge_safe (io (applyMotorCommand i p s))"
  using effective_pwm_bound [of p]
  by (auto simp: bridge_safe_def duty_applyMotorCommand config)

section \<open>What a motor command does\<close>

text \<open>A motor command drives exactly one side of the addressed bridge, in the direction of the
  sign (inverted for motor 1), with the requested magnitude clamped to \<open>PWM_MAX\<close>, and with nothing
  at all inside the dead band; the other motor's channels keep their duties.\<close>

theorem motor_command_effect:
  "let s1 = applyMotorCommand 1 p s; s2 = applyMotorCommand 2 p s;
       m = (if \<bar>p\<bar> < PWM_DEADBAND then 0 else min \<bar>p\<bar> PWM_MAX)
   in duty PWM_M1_R_CH (io s1) = (if p < 0 then m else 0) \<and>
      duty PWM_M1_L_CH (io s1) = (if 0 < p then m else 0) \<and>
      duty PWM_M2_R_CH (io s1) = duty PWM_M2_R_CH (io s) \<and>
      duty PWM_M2_L_CH (io s1) = duty PWM_M2_L_CH (io s) \<and>
      duty PWM_M2_R_CH (io s2) = (if 0 < p then m else 0) \<and>
      duty PWM_M2_L_CH (io s2) = (if p < 0 then m else 0) \<and>
      duty PWM_M1_R_CH (io s2) = duty PWM_M1_R_CH (io s) \<and>
      duty PWM_M1_L_CH (io s2) = duty PWM_M1_L_CH (io s)"
  by (simp add: Let_def duty_applyMotorCommand effective_pwm_def config max_def min_def abs_if)

text \<open>Reversing a motor drives both sides of its bridge for a moment. The two channels are
  written one after the other, the new side first for motor 1 turning backwards: when its left
  side is driven and a negative command outside the dead band arrives, there is a state between
  the two writes in which both sides have a positive duty.\<close>

theorem motor_reversal_transient:
  assumes "0 < duty PWM_M1_L_CH (io s)" "p \<le> - PWM_DEADBAND"
  shows "\<exists>w1 w2. io (applyMotorCommand 1 p s) = w2 # w1 # io s \<and>
    0 < duty PWM_M1_R_CH (w1 # io s) \<and> 0 < duty PWM_M1_L_CH (w1 # io s)"
proof -
  have "effective_pwm p < 0"
    using assms(2) by (simp add: effective_pwm_def config Let_def max_def min_def abs_if)
  then show ?thesis
    using assms(1) by (simp add: applyMotorCommand_eq emits_eq config)
qed

theorem motor_reversal_transient_witness:
  "\<exists>w1 w2. io (applyMotorCommand 1 (- 100) \<lparr>io = [Ledc_Write 1 80], clk = (\<lambda>_. 0), clk_i = 0\<rparr>)
      = [w2, w1, Ledc_Write 1 80] \<and> 0 < duty PWM_M1_R_CH [w1, Ledc_Write 1 80]"
  using motor_reversal_transient [of "\<lparr>io = [Ledc_Write 1 80], clk = (\<lambda>_. 0), clk_i = 0\<rparr>" "- 100"]
  by (auto simp: config)

end
