(* ===== verification/Encoders.thy ===== *)
theory Encoders
  imports Motors
begin

text \<open>
  \<open>firmware/src/encoders.cpp\<close>: two interrupt handlers, one per motor, on the rising edge of
  channel A. A handler reads both pins once; \<open>lv\<close> gives the pin levels it sees. The counters
  are \<open>int32_t\<close>: leaving their range is undefined behaviour.
\<close>

record encoders = motors +
  m1_encoder_count :: int
  m2_encoder_count :: int

definition m1EncoderISR ::
    "(int \<Rightarrow> bool) \<Rightarrow> 'a encoders_scheme \<Rightarrow> 'a encoders_scheme res" where
  "m1EncoderISR lv s =
     (let delta = (if lv M1_ENC_A_PIN = lv M1_ENC_B_PIN then 1 else - 1);
          delta = (if M1_ENCODER_INVERT then - delta else delta)
      in bind_res (chk32 (m1_encoder_count s + delta)) (\<lambda>c. Inr (s\<lparr>m1_encoder_count := c\<rparr>)))"

definition m2EncoderISR ::
    "(int \<Rightarrow> bool) \<Rightarrow> 'a encoders_scheme \<Rightarrow> 'a encoders_scheme res" where
  "m2EncoderISR lv s =
     (let delta = (if lv M2_ENC_A_PIN = lv M2_ENC_B_PIN then 1 else - 1);
          delta = (if M2_ENCODER_INVERT then - delta else delta)
      in bind_res (chk32 (m2_encoder_count s + delta)) (\<lambda>c. Inr (s\<lparr>m2_encoder_count := c\<rparr>)))"

definition initEncoders :: "'a encoders_scheme \<Rightarrow> 'a encoders_scheme" where
  "initEncoders s = emits
     [Pin_Mode M1_ENC_A_PIN Input_Pullup, Pin_Mode M1_ENC_B_PIN Input_Pullup,
      Pin_Mode M2_ENC_A_PIN Input_Pullup, Pin_Mode M2_ENC_B_PIN Input_Pullup,
      Attach_Interrupt M1_ENC_A_PIN M1_Encoder_ISR, Attach_Interrupt M2_ENC_A_PIN M2_Encoder_ISR] s"

section \<open>Sequences of interrupts\<close>

text \<open>
  An interrupt is the motor whose channel A rises and whether both channels are then equal.
  A sequence of interrupts runs the handlers one after the other and stops at a fault.
\<close>

datatype edge = Edge isr bool

fun levels :: "bool \<Rightarrow> int \<Rightarrow> bool" where
  "levels same p = (same \<or> p = M1_ENC_A_PIN \<or> p = M2_ENC_A_PIN)"

fun take_interrupt :: "edge \<Rightarrow> 'a encoders_scheme \<Rightarrow> 'a encoders_scheme res" where
  "take_interrupt (Edge M1_Encoder_ISR same) s = m1EncoderISR (levels same) s"
| "take_interrupt (Edge M2_Encoder_ISR same) s = m2EncoderISR (levels same) s"

fun take_interrupts :: "edge list \<Rightarrow> 'a encoders_scheme \<Rightarrow> 'a encoders_scheme res" where
  "take_interrupts [] s = Inr s"
| "take_interrupts (e # es) s = bind_res (take_interrupt e s) (take_interrupts es)"

text \<open>Signed number of edges of a motor: forward (channels equal) minus backward.\<close>

fun edge_balance :: "isr \<Rightarrow> edge list \<Rightarrow> int" where
  "edge_balance m [] = 0"
| "edge_balance m (Edge m' same # es) =
     (if m = m' then (if same then 1 else - 1) else 0) + edge_balance m es"

lemma edge_balance_bound: "\<bar>edge_balance m es\<bar> \<le> int (length es)"
  by (induction m es rule: edge_balance.induct) auto

lemma m1EncoderISR_eq:
  "m1EncoderISR (levels b) s = bind_res (chk32 (m1_encoder_count s + (if b then 1 else - 1)))
     (\<lambda>c. Inr (s\<lparr>m1_encoder_count := c\<rparr>))"
  by (simp add: m1EncoderISR_def config Let_def)

lemma m2EncoderISR_eq:
  "m2EncoderISR (levels b) s = bind_res (chk32 (m2_encoder_count s - (if b then 1 else - 1)))
     (\<lambda>c. Inr (s\<lparr>m2_encoder_count := c\<rparr>))"
  by (simp add: m2EncoderISR_def config Let_def)

lemma take_interrupts_counts:
  assumes "\<bar>m1_encoder_count s\<bar> + int (length es) < 2 ^ 31"
    and "\<bar>m2_encoder_count s\<bar> + int (length es) < 2 ^ 31"
  shows "take_interrupts es s = Inr (s\<lparr>
     m1_encoder_count := m1_encoder_count s + edge_balance M1_Encoder_ISR es,
     m2_encoder_count := m2_encoder_count s - edge_balance M2_Encoder_ISR es\<rparr>)"
  using assms
proof (induction es arbitrary: s)
  case (Cons e es)
  obtain m b where e: "e = Edge m b"
    by (cases e)
  let ?d = "if b then 1 else - 1 :: int"
  let ?t = "case m of M1_Encoder_ISR \<Rightarrow> s\<lparr>m1_encoder_count := m1_encoder_count s + ?d\<rparr>
    | M2_Encoder_ISR \<Rightarrow> s\<lparr>m2_encoder_count := m2_encoder_count s - ?d\<rparr>"
  have step: "take_interrupt e s = Inr ?t"
    using Cons.prems by (cases m) (auto simp: e m1EncoderISR_eq m2EncoderISR_eq chk32_def in_i32_def)
  have "\<bar>m1_encoder_count ?t\<bar> + int (length es) < 2 ^ 31"
    "\<bar>m2_encoder_count ?t\<bar> + int (length es) < 2 ^ 31"
    using Cons.prems by (cases m; auto)+
  then have "take_interrupts es ?t = Inr (?t\<lparr>
     m1_encoder_count := m1_encoder_count ?t + edge_balance M1_Encoder_ISR es,
     m2_encoder_count := m2_encoder_count ?t - edge_balance M2_Encoder_ISR es\<rparr>)"
    by (rule Cons.IH)
  moreover have "take_interrupts (e # es) s = take_interrupts es ?t"
    by (simp add: step)
  ultimately show ?case
    by (cases m; cases b; simp add: e algebra_simps)
qed simp

text \<open>The encoder counters count. After any sequence of fewer than \<open>2^31 - |count|\<close> interrupts,
  in any interleaving of the two motors, no counter has overflowed; the counter of motor 1 has
  moved by its forward minus its backward edges, that of motor 2, whose encoder is mounted
  inverted, by the opposite, and nothing else has changed.\<close>

theorem encoder_counts:
  assumes "\<bar>m1_encoder_count s\<bar> + int (length es) < 2 ^ 31"
    and "\<bar>m2_encoder_count s\<bar> + int (length es) < 2 ^ 31"
  shows "take_interrupts es s = Inr (s\<lparr>
     m1_encoder_count := m1_encoder_count s + edge_balance M1_Encoder_ISR es,
     m2_encoder_count := m2_encoder_count s - edge_balance M2_Encoder_ISR es\<rparr>)"
  using assms by (rule take_interrupts_counts)

theorem encoder_counts_witness:
  "let s = \<lparr>io = [], clk = (\<lambda>_. 0), clk_i = 0, m1_target_rpm = Fin 0, m2_target_rpm = Fin 0,
        last_cmd_ms = 0, m1_encoder_count = 5, m2_encoder_count = 5\<rparr>
   in take_interrupts [Edge M1_Encoder_ISR True, Edge M2_Encoder_ISR True, Edge M1_Encoder_ISR True] s
      = Inr (s\<lparr>m1_encoder_count := 7, m2_encoder_count := 4\<rparr>)"
  using encoder_counts [of "\<lparr>io = [], clk = (\<lambda>_. 0), clk_i = 0, m1_target_rpm = Fin 0,
      m2_target_rpm = Fin 0, last_cmd_ms = 0, m1_encoder_count = 5, m2_encoder_count = 5\<rparr>"
      "[Edge M1_Encoder_ISR True, Edge M2_Encoder_ISR True, Edge M1_Encoder_ISR True]"]
  by (simp add: Let_def)

end
