(* ===== verification/Pid.thy ===== *)
theory Pid
  imports Encoders
begin

text \<open>
  \<open>firmware/src/pid.cpp\<close>: the class \<open>PidController\<close> and the functions that keep its gains,
  and the magnetometer offsets, in the ESP32's non-volatile storage. The two controllers
  \<open>g_m1_pid\<close> and \<open>g_m2_pid\<close> are fields of the state; the \<open>Preferences\<close> library is a
  parameter (a record of its functions over an abstract storage state).
\<close>

section \<open>The controller\<close>

record pid_controller =
  pid_kp :: f32
  pid_ki :: f32
  pid_kd :: f32
  pid_ff :: f32
  pid_integral :: f32
  pid_prev_measurement :: f32
  pid_first_run :: bool

definition mk_PidController :: "f32 \<Rightarrow> f32 \<Rightarrow> f32 \<Rightarrow> f32 \<Rightarrow> pid_controller" where
  "mk_PidController kp ki kd ff =
     \<lparr>pid_kp = kp, pid_ki = ki, pid_kd = kd, pid_ff = ff,
      pid_integral = Fin 0, pid_prev_measurement = Fin 0, pid_first_run = True\<rparr>"

text \<open>The default argument \<open>ff = 1.5f\<close> of the constructor.\<close>

definition default_ff :: f32 where
  "default_ff = flit (15 / 10)"

definition pid_SetGains :: "f32 \<Rightarrow> f32 \<Rightarrow> f32 \<Rightarrow> pid_controller \<Rightarrow> pid_controller" where
  "pid_SetGains kp ki kd c = c\<lparr>pid_kp := kp, pid_ki := ki, pid_kd := kd\<rparr>"

definition pid_GetGains :: "pid_controller \<Rightarrow> f32 \<times> f32 \<times> f32" where
  "pid_GetGains c = (pid_kp c, pid_ki c, pid_kd c)"

definition pid_SetFeedforward :: "f32 \<Rightarrow> pid_controller \<Rightarrow> pid_controller" where
  "pid_SetFeedforward ff c = c\<lparr>pid_ff := ff\<rparr>"

definition pid_Reset :: "pid_controller \<Rightarrow> pid_controller" where
  "pid_Reset c = c\<lparr>pid_integral := Fin 0, pid_prev_measurement := Fin 0, pid_first_run := True\<rparr>"

definition pwm_max_f :: f32 where
  "pwm_max_f = of_i32 PWM_MAX"

definition pid_Update ::
    "f32 \<Rightarrow> f32 \<Rightarrow> f32 \<Rightarrow> pid_controller \<Rightarrow> f32 \<times> pid_controller" where
  "pid_Update setpoint measurement dt_s c =
     (if fle dt_s (flit 0) then (flit 0, c)
      else
        let error = fsub setpoint measurement;
            integral = fadd (pid_integral c) (fmul error dt_s);
            integral = constrain integral (flit (- 300)) (flit 300);
            d_measurement = (if pid_first_run c then flit 0
              else fdiv (fsub measurement (pid_prev_measurement c)) dt_s);
            output = fadd (fsub (fadd (fmul (pid_kp c) error) (fmul (pid_ki c) integral))
                             (fmul (pid_kd c) d_measurement))
                       (fmul (pid_ff c) setpoint);
            output = constrain output (fneg pwm_max_f) pwm_max_f
        in (output, c\<lparr>pid_integral := integral, pid_prev_measurement := measurement,
                     pid_first_run := False\<rparr>))"

section \<open>Non-volatile storage\<close>

text \<open>
  The functions of the \<open>Preferences\<close> library the firmware calls, over an abstract state
  \<open>'n\<close> of the storage and its handles. \<open>pf_begin ns read_only\<close> says whether the namespace
  could be opened.
\<close>

record 'n prefs =
  pf_begin :: "string \<Rightarrow> bool \<Rightarrow> 'n \<Rightarrow> bool \<times> 'n"
  pf_isKey :: "string \<Rightarrow> 'n \<Rightarrow> bool"
  pf_getFloat :: "string \<Rightarrow> f32 \<Rightarrow> 'n \<Rightarrow> f32"
  pf_putFloat :: "string \<Rightarrow> f32 \<Rightarrow> 'n \<Rightarrow> 'n"
  pf_end :: "'n \<Rightarrow> 'n"

record 'n control = encoders +
  m1_pid :: pid_controller
  m2_pid :: pid_controller
  nvs :: 'n

definition savePidGainsToNvs ::
    "('n, 'z) prefs_scheme \<Rightarrow> f32 \<Rightarrow> f32 \<Rightarrow> f32 \<Rightarrow> ('n, 'a) control_scheme \<Rightarrow> ('n, 'a) control_scheme" where
  "savePidGainsToNvs P kp ki kd s =
     (case pf_begin P PID_PREFS_NAMESPACE False (nvs s) of (ok, n) \<Rightarrow>
        if \<not> ok then s\<lparr>nvs := n\<rparr>
        else s\<lparr>nvs := pf_end P (pf_putFloat P PID_PREF_KEY_KD kd
                 (pf_putFloat P PID_PREF_KEY_KI ki (pf_putFloat P PID_PREF_KEY_KP kp n)))\<rparr>)"

definition loadPidGainsFromNvsAndApply ::
    "('n, 'z) prefs_scheme \<Rightarrow> ('n, 'a) control_scheme \<Rightarrow> ('n, 'a) control_scheme" where
  "loadPidGainsFromNvsAndApply P s =
     (case pf_begin P PID_PREFS_NAMESPACE True (nvs s) of (ok, n) \<Rightarrow>
        if \<not> ok then s\<lparr>nvs := n\<rparr>
        else
          let has_kp = pf_isKey P PID_PREF_KEY_KP n;
              has_ki = pf_isKey P PID_PREF_KEY_KI n;
              has_kd = pf_isKey P PID_PREF_KEY_KD n;
              s1 = (if has_kp \<and> has_ki \<and> has_kd then
                      let kp = pf_getFloat P PID_PREF_KEY_KP M1_KP n;
                          ki = pf_getFloat P PID_PREF_KEY_KI M1_KI n;
                          kd = pf_getFloat P PID_PREF_KEY_KD M1_KD n
                      in s\<lparr>m1_pid := pid_Reset (pid_SetGains kp ki kd (m1_pid s)),
                           m2_pid := pid_Reset (pid_SetGains kp ki kd (m2_pid s))\<rparr>
                    else s)
          in s1\<lparr>nvs := pf_end P n\<rparr>)"

definition saveMagOffsetsToNvs ::
    "('n, 'z) prefs_scheme \<Rightarrow> f32 \<Rightarrow> f32 \<Rightarrow> f32 \<Rightarrow> ('n, 'a) control_scheme \<Rightarrow> ('n, 'a) control_scheme" where
  "saveMagOffsetsToNvs P offset_x offset_y offset_z s =
     (case pf_begin P MAG_PREFS_NAMESPACE False (nvs s) of (ok, n) \<Rightarrow>
        if \<not> ok then s\<lparr>nvs := n\<rparr>
        else s\<lparr>nvs := pf_end P (pf_putFloat P MAG_PREF_KEY_OFFSET_Z offset_z
                 (pf_putFloat P MAG_PREF_KEY_OFFSET_Y offset_y
                    (pf_putFloat P MAG_PREF_KEY_OFFSET_X offset_x n)))\<rparr>)"

text \<open>
  What the firmware relies on, as the library documents it: an open namespace holds float
  values under keys, a write is seen by a later read, opening and closing keep the data, and
  opening a namespace for reading succeeds once it holds something. \<open>view\<close> reads the
  contents off the storage state and \<open>cur\<close> the namespace that is open.
\<close>

definition prefs_laws ::
    "('n, 'z) prefs_scheme \<Rightarrow> ('n \<Rightarrow> string \<Rightarrow> string \<Rightarrow> f32 option) \<Rightarrow> ('n \<Rightarrow> string option) \<Rightarrow> bool" where
  "prefs_laws P view cur \<longleftrightarrow>
     (\<forall>ns ro n. view (snd (pf_begin P ns ro n)) = view n \<and>
        (fst (pf_begin P ns ro n) \<longrightarrow> cur (snd (pf_begin P ns ro n)) = Some ns)) \<and>
     (\<forall>ns n. (\<exists>k. view n ns k \<noteq> None) \<longrightarrow> fst (pf_begin P ns True n)) \<and>
     (\<forall>ns k v n. cur n = Some ns \<longrightarrow> cur (pf_putFloat P k v n) = Some ns \<and>
        view (pf_putFloat P k v n) = (view n)(ns := (view n ns)(k \<mapsto> v))) \<and>
     (\<forall>ns k n. cur n = Some ns \<longrightarrow> pf_isKey P k n = (view n ns k \<noteq> None)) \<and>
     (\<forall>ns k d n. cur n = Some ns \<longrightarrow>
        pf_getFloat P k d n = (case view n ns k of None \<Rightarrow> d | Some v \<Rightarrow> v)) \<and>
     (\<forall>n. view (pf_end P n) = view n)"

text \<open>A storage that obeys the laws: a map, and the namespace that is open.\<close>

type_synonym map_nvs = "(string \<Rightarrow> string \<Rightarrow> f32 option) \<times> string option"

definition map_prefs :: "map_nvs prefs" where
  "map_prefs = \<lparr>pf_begin = (\<lambda>ns ro n. (True, (fst n, Some ns))),
     pf_isKey = (\<lambda>k n. case snd n of None \<Rightarrow> False | Some ns \<Rightarrow> fst n ns k \<noteq> None),
     pf_getFloat = (\<lambda>k d n. case snd n of None \<Rightarrow> d
        | Some ns \<Rightarrow> (case fst n ns k of None \<Rightarrow> d | Some v \<Rightarrow> v)),
     pf_putFloat = (\<lambda>k v n. case snd n of None \<Rightarrow> n
        | Some ns \<Rightarrow> ((fst n)(ns := (fst n ns)(k \<mapsto> v)), Some ns)),
     pf_end = (\<lambda>n. (fst n, None))\<rparr>"

lemma map_prefs_laws: "prefs_laws map_prefs fst snd"
  by (auto simp: prefs_laws_def map_prefs_def)

section \<open>The controller's limits\<close>

text \<open>
  The anti-windup and output limits. A NaN passes through Arduino's \<open>constrain\<close> macro, so
  both limits hold up to NaN.
\<close>

definition nan_or_bdd :: "rat \<Rightarrow> f32 \<Rightarrow> bool" where
  "nan_or_bdd B x \<longleftrightarrow> isnan x \<or> bdd B x"

definition pid_ok :: "pid_controller \<Rightarrow> bool" where
  "pid_ok c \<longleftrightarrow> nan_or_bdd 300 (pid_integral c)"

lemma pwm_max_f_val [config_f32]: "pwm_max_f = Fin 255"
  by (simp add: pwm_max_f_def config of_i32_small)

lemma default_ff_val [config_f32]: "default_ff = Fin (3 / 2)"
  by (simp add: default_ff_def flit_repr repr32_half_int [of 3 1, simplified])

lemma pid_Update_stopped: "fle dt (Fin 0) \<Longrightarrow> pid_Update sp m dt c = (Fin 0, c)"
  by (simp add: pid_Update_def)

lemma constrain_nan_or_bdd: "0 \<le> B \<Longrightarrow> nan_or_bdd B (constrain x (Fin (- B)) (Fin B))"
  using constrain_sym_bdd [of B x] by (auto simp: nan_or_bdd_def)

lemma pid_Update_snd:
  "\<not> fle dt (Fin 0) \<Longrightarrow> snd (pid_Update sp m dt c) =
     c\<lparr>pid_integral := constrain (fadd (pid_integral c) (fmul (fsub sp m) dt)) (Fin (- 300)) (Fin 300),
       pid_prev_measurement := m, pid_first_run := False\<rparr>"
  by (simp add: pid_Update_def Let_def)

lemma pid_Update_ok: "pid_ok c \<Longrightarrow> pid_ok (snd (pid_Update sp m dt c))"
  using constrain_nan_or_bdd [of 300 "fadd (pid_integral c) (fmul (fsub sp m) dt)"]
  by (cases "fle dt (Fin 0)") (simp_all add: pid_Update_stopped pid_Update_snd pid_ok_def)

lemma pid_Update_out: "nan_or_bdd 255 (fst (pid_Update sp m dt c))"
proof (cases "fle dt (Fin 0)")
  case True
  then show ?thesis
    by (simp add: pid_Update_stopped nan_or_bdd_def)
next
  case False
  then show ?thesis
    using constrain_nan_or_bdd [of 255] by (simp add: pid_Update_def Let_def config_f32)
qed

lemma pid_Reset_ok [simp]: "pid_ok (pid_Reset c)"
  by (simp add: pid_ok_def pid_Reset_def nan_or_bdd_def)

lemma pid_SetGains_ok [simp]: "pid_ok (pid_SetGains a b d c) = pid_ok c"
  by (simp add: pid_ok_def pid_SetGains_def)

lemma mk_PidController_ok [simp]: "pid_ok (mk_PidController a b d f)"
  by (simp add: pid_ok_def mk_PidController_def nan_or_bdd_def)

section \<open>Sequences of controller calls\<close>

datatype pid_call = Update f32 f32 f32 | Reset | SetGains f32 f32 f32 | SetFeedforward f32

fun pid_step :: "pid_call \<Rightarrow> pid_controller \<Rightarrow> pid_controller" where
  "pid_step (Update sp m dt) c = snd (pid_Update sp m dt c)"
| "pid_step Reset c = pid_Reset c"
| "pid_step (SetGains kp ki kd) c = pid_SetGains kp ki kd c"
| "pid_step (SetFeedforward ff) c = pid_SetFeedforward ff c"

fun pid_steps :: "pid_call list \<Rightarrow> pid_controller \<Rightarrow> pid_controller" where
  "pid_steps [] c = c"
| "pid_steps (x # xs) c = pid_steps xs (pid_step x c)"

lemma pid_step_ok: "pid_ok c \<Longrightarrow> pid_ok (pid_step x c)"
  by (cases x) (simp_all add: pid_Update_ok, simp add: pid_ok_def pid_SetFeedforward_def)

lemma pid_steps_ok: "pid_ok c \<Longrightarrow> pid_ok (pid_steps xs c)"
  by (induction xs arbitrary: c) (simp_all add: pid_step_ok)

text \<open>C39: Anti-windup and output saturation. Whatever calls a controller has received since it
  was constructed, its integral term is a NaN or lies in [-300, 300], and the output of the
  next \<open>Update\<close> is a NaN or lies in [-PWM_MAX, PWM_MAX].\<close>

theorem pid_limits:
  "nan_or_bdd 300 (pid_integral (pid_steps calls (mk_PidController kp ki kd ff))) \<and>
   nan_or_bdd (of_int PWM_MAX)
     (fst (pid_Update sp m dt (pid_steps calls (mk_PidController kp ki kd ff))))"
  using pid_steps_ok [OF mk_PidController_ok] by (simp add: pid_ok_def config pid_Update_out)

lemma pid_nan_sticky_step:
  assumes "pid_integral c = NaN" "x \<noteq> Reset"
  shows "pid_integral (pid_step x c) = NaN"
proof (cases x)
  case (Update sp m dt)
  then show ?thesis
    using assms(1) by (cases "fle dt (Fin 0)") (simp_all add: pid_Update_stopped pid_Update_snd)
qed (use assms in \<open>simp_all add: pid_SetGains_def pid_SetFeedforward_def\<close>)

lemma pid_nan_sticky:
  "pid_integral c = NaN \<Longrightarrow> Reset \<notin> set calls \<Longrightarrow> pid_integral (pid_steps calls c) = NaN"
proof (induction calls arbitrary: c)
  case (Cons x xs)
  then have "pid_integral (pid_step x c) = NaN"
    by (intro pid_nan_sticky_step) auto
  then show ?case
    using Cons by simp
qed simp

lemma pid_Update_nan_integral:
  "pid_integral c = NaN \<Longrightarrow> \<not> fle dt (Fin 0) \<Longrightarrow> fst (pid_Update sp m dt c) = NaN"
  by (simp add: pid_Update_def Let_def)

text \<open>A NaN set point poisons a controller until it is reset: after one \<open>Update\<close> with a NaN
  set point and a positive time step, every later \<open>Update\<close> with a positive time step returns
  NaN, whatever set points, gains or feed-forward it is given, as long as no \<open>Reset\<close> is called.\<close>

theorem pid_nan_poisoning:
  assumes "\<not> fle dt (Fin 0)" "\<not> fle dt' (Fin 0)" "Reset \<notin> set calls"
  shows "fst (pid_Update sp m' dt' (pid_steps (Update NaN m dt # calls) c)) = NaN"
  using assms by (simp add: pid_Update_nan_integral pid_nan_sticky pid_Update_snd)

theorem pid_nan_poisoning_witness:
  "fst (pid_Update (Fin 10) (Fin 0) (Fin 1)
     (pid_steps [Update NaN (Fin 0) (Fin 1), Update (Fin 10) (Fin 0) (Fin 1)]
        (mk_PidController (Fin 1) (Fin 1) (Fin 0) (Fin 1)))) = NaN"
  by (rule pid_nan_poisoning) simp_all

section \<open>Finite inputs\<close>

text \<open>A controller whose state and gains are finite and not absurdly large.\<close>

definition pid_sane :: "pid_controller \<Rightarrow> bool" where
  "pid_sane c \<longleftrightarrow> bdd (2 ^ 10) (pid_kp c) \<and> bdd (2 ^ 10) (pid_ki c) \<and> bdd (2 ^ 10) (pid_kd c) \<and>
     bdd (2 ^ 10) (pid_ff c) \<and> bdd 300 (pid_integral c) \<and> bdd (2 ^ 14) (pid_prev_measurement c)"

lemma pid_integral_bdd:
  assumes "bdd 300 i" "bdd (2 ^ 15) e" "bdd (2 ^ 10) dt"
  shows "bdd 300 (constrain (fadd i (fmul e dt)) (Fin (- 300)) (Fin 300))"
proof -
  have "bdd (2 ^ 25) (fmul e dt)"
    by (rule fmul_bdd(1) [OF assms(2,3)]) simp_all
  then have "bdd (2 ^ 26) (fadd i (fmul e dt))"
    by (rule fadd_bdd(1) [OF assms(1)]) simp_all
  then show ?thesis
    by (intro constrain_sym_bdd(2)) (auto dest: bdd_fin)
qed

lemma pid_derivative_bdd:
  assumes "bdd (2 ^ 14) m" "bdd (2 ^ 14) p" "bdd (2 ^ 10) dt" "1 / 2 ^ 10 \<le> fval dt"
  shows "bdd (2 ^ 25) (fdiv (fsub m p) dt)"
proof -
  have "bdd (2 ^ 15) (fsub m p)"
    by (rule fsub_bdd(1) [OF assms(1,2)]) simp_all
  then show ?thesis
    by (rule fdiv_bdd(1) [where L = "1 / 2 ^ 10"])
      (use assms(4) bdd_fin [OF assms(3)] in simp_all)
qed

lemma pid_sum_bdd:
  assumes "bdd (2 ^ 10) kp" "bdd (2 ^ 10) ki" "bdd (2 ^ 10) kd" "bdd (2 ^ 10) ff"
    and "bdd (2 ^ 15) e" "bdd 300 i" "bdd (2 ^ 25) d" "bdd (2 ^ 14) sp"
  shows "bdd (2 ^ 37) (fadd (fsub (fadd (fmul kp e) (fmul ki i)) (fmul kd d)) (fmul ff sp))"
proof -
  have p: "bdd (2 ^ 25) (fmul kp e)" and i: "bdd (2 ^ 19) (fmul ki i)"
    by (rule fmul_bdd(1) [OF assms(1,5)] fmul_bdd(1) [OF assms(2,6)]; simp)+
  have d: "bdd (2 ^ 35) (fmul kd d)" and f: "bdd (2 ^ 24) (fmul ff sp)"
    by (rule fmul_bdd(1) [OF assms(3,7)] fmul_bdd(1) [OF assms(4,8)]; simp)+
  have pi: "bdd (2 ^ 26) (fadd (fmul kp e) (fmul ki i))"
    by (rule fadd_bdd(1) [OF p i]) simp_all
  have "bdd (2 ^ 36) (fsub (fadd (fmul kp e) (fmul ki i)) (fmul kd d))"
    by (rule fsub_bdd(1) [OF pi d]) simp_all
  then show ?thesis
    by (rule fadd_bdd(1) [OF _ f]) simp_all
qed

lemma pid_Update_sane:
  assumes c: "pid_sane c" and sp: "bdd (2 ^ 14) sp" and m: "bdd (2 ^ 14) m"
    and dt: "bdd (2 ^ 10) dt" "1 / 2 ^ 10 \<le> fval dt"
  shows "bdd 255 (fst (pid_Update sp m dt c)) \<and> pid_sane (snd (pid_Update sp m dt c))"
proof -
  let ?e = "fsub sp m"
  let ?i = "constrain (fadd (pid_integral c) (fmul ?e dt)) (Fin (- 300)) (Fin 300)"
  let ?d = "if pid_first_run c then Fin 0 else fdiv (fsub m (pid_prev_measurement c)) dt"
  have pos: "\<not> fle dt (Fin 0)"
    using dt bdd_fin [OF dt(1)] by (simp add: fle_fin)
  have e: "bdd (2 ^ 15) ?e"
    by (rule fsub_bdd(1) [OF sp m]) simp_all
  have i: "bdd 300 ?i"
    using c e dt(1) by (intro pid_integral_bdd) (simp_all add: pid_sane_def)
  have "bdd (2 ^ 14) (pid_prev_measurement c)"
    using c by (simp add: pid_sane_def)
  then have "bdd (2 ^ 25) (fdiv (fsub m (pid_prev_measurement c)) dt)"
    using pid_derivative_bdd [OF m _ dt] by blast
  then have d: "bdd (2 ^ 25) ?d"
    by simp
  have "bdd (2 ^ 37) (fadd (fsub (fadd (fmul (pid_kp c) ?e) (fmul (pid_ki c) ?i))
      (fmul (pid_kd c) ?d)) (fmul (pid_ff c) sp))"
    using c e i d sp by (intro pid_sum_bdd) (simp_all add: pid_sane_def)
  then have "bdd 255 (fst (pid_Update sp m dt c))"
    using pos constrain_sym_bdd(2) [of 255] bdd_fin
    by (simp add: pid_Update_def Let_def config_f32 split del: if_split cong: if_cong)
  moreover have "pid_sane (snd (pid_Update sp m dt c))"
    using c i m pos by (simp add: pid_Update_snd pid_sane_def)
  ultimately show ?thesis ..
qed

text \<open>
  What the control step needs of a controller: an invariant that every update with inputs in
  range keeps, and an output in the range of the PWM.
\<close>

locale controller =
  fixes update :: "f32 \<Rightarrow> f32 \<Rightarrow> f32 \<Rightarrow> 'c \<Rightarrow> f32 \<times> 'c" and good :: "'c \<Rightarrow> bool"
  assumes update_good: "good c \<Longrightarrow> bdd (2 ^ 14) sp \<Longrightarrow> bdd (2 ^ 14) m \<Longrightarrow> bdd (2 ^ 10) dt \<Longrightarrow>
    1 / 2 ^ 10 \<le> fval dt \<Longrightarrow> bdd 255 (fst (update sp m dt c)) \<and> good (snd (update sp m dt c))"
begin

lemma update_pwm:
  assumes "good c" "bdd (2 ^ 14) sp" "bdd (2 ^ 14) m" "bdd (2 ^ 10) dt" "1 / 2 ^ 10 \<le> fval dt"
  shows "\<exists>p. to_i32 (fst (update sp m dt c)) = Inr p \<and> \<bar>p\<bar> \<le> 255 \<and> good (snd (update sp m dt c))"
proof -
  have b: "bdd 255 (fst (update sp m dt c))" and g: "good (snd (update sp m dt c))"
    using update_good [OF assms] by auto
  have "\<bar>of_int (trunc_rat (fval (fst (update sp m dt c)))) :: rat\<bar> \<le> of_int 255"
    using to_i32_bdd(2) [OF b] by simp
  then have "\<bar>trunc_rat (fval (fst (update sp m dt c)))\<bar> \<le> 255"
    by (simp only: of_int_le_iff flip: of_int_abs)
  then show ?thesis
    using to_i32_bdd(1) [OF b] g by simp
qed

end

interpretation ctl: controller pid_Update pid_sane
  by unfold_locales (rule pid_Update_sane)

text \<open>C40: On finite inputs the controller never produces a NaN. With gains up to 1024, set point
  and measurement up to 16384 rpm and a time step between 1/1024 s and 1024 s, \<open>Update\<close> returns a
  finite value in [-PWM_MAX, PWM_MAX] (so its conversion to \<open>int\<close> is defined) and leaves a state
  of the same kind.\<close>

theorem pid_update_finite:
  assumes "pid_sane c" "bdd (2 ^ 14) sp" "bdd (2 ^ 14) m" "bdd (2 ^ 10) dt" "1 / 2 ^ 10 \<le> fval dt"
  shows "(\<exists>p. to_i32 (fst (pid_Update sp m dt c)) = Inr p \<and> \<bar>p\<bar> \<le> PWM_MAX) \<and>
    pid_sane (snd (pid_Update sp m dt c))"
  using ctl.update_pwm [OF assms] by (auto simp: config)

theorem pid_update_finite_witness:
  "(\<exists>p. to_i32 (fst (pid_Update (Fin 50) (Fin 10) (Fin (1 / 64))
       (mk_PidController M1_KP M1_KI M1_KD default_ff))) = Inr p \<and> \<bar>p\<bar> \<le> PWM_MAX) \<and>
   pid_sane (snd (pid_Update (Fin 50) (Fin 10) (Fin (1 / 64))
       (mk_PidController M1_KP M1_KI M1_KD default_ff)))"
  by (rule pid_update_finite) (simp_all add: pid_sane_def mk_PidController_def config_f32)

section \<open>Gains survive a restart\<close>

text \<open>Gains saved to non-volatile storage are restored at the next start: with a storage that
  keeps what is written, \<open>savePidGainsToNvs\<close> followed, from any later program state over that
  storage, by \<open>loadPidGainsFromNvsAndApply\<close> puts the saved gains into both controllers and resets
  their integral and derivative memory.\<close>

theorem pid_gains_roundtrip:
  assumes "prefs_laws P view cur" "fst (pf_begin P PID_PREFS_NAMESPACE False (nvs s))"
    and "nvs boot = nvs (savePidGainsToNvs P kp ki kd s)"
  shows "m1_pid (loadPidGainsFromNvsAndApply P boot) = pid_Reset (pid_SetGains kp ki kd (m1_pid boot)) \<and>
    m2_pid (loadPidGainsFromNvsAndApply P boot) = pid_Reset (pid_SetGains kp ki kd (m2_pid boot))"
proof -
  let ?ns = "PID_PREFS_NAMESPACE"
  let ?n0 = "snd (pf_begin P ?ns False (nvs s))"
  let ?n1 = "pf_putFloat P PID_PREF_KEY_KP kp ?n0"
  let ?n2 = "pf_putFloat P PID_PREF_KEY_KI ki ?n1"
  let ?n3 = "pf_putFloat P PID_PREF_KEY_KD kd ?n2"
  note laws = assms(1) [unfolded prefs_laws_def]
  have c0: "cur ?n0 = Some ?ns"
    using laws assms(2) by blast
  have c1: "cur ?n1 = Some ?ns" and v1: "view ?n1 ?ns = (view ?n0 ?ns)(PID_PREF_KEY_KP \<mapsto> kp)"
    using laws c0 by auto
  have c2: "cur ?n2 = Some ?ns" and v2: "view ?n2 ?ns = (view ?n1 ?ns)(PID_PREF_KEY_KI \<mapsto> ki)"
    using laws c1 by auto
  have v3: "view ?n3 ?ns = (view ?n2 ?ns)(PID_PREF_KEY_KD \<mapsto> kd)"
    using laws c2 by auto
  have saved: "nvs boot = pf_end P ?n3"
    using assms(2,3) by (simp add: savePidGainsToNvs_def split: prod.splits)
  let ?b = "snd (pf_begin P ?ns True (nvs boot))"
  have vb: "view (nvs boot) = view ?n3" "view ?b = view (nvs boot)"
    using laws saved by auto
  then have "view (nvs boot) ?ns PID_PREF_KEY_KD \<noteq> None"
    by (simp add: v3)
  then have ok: "fst (pf_begin P ?ns True (nvs boot))"
    using laws by blast
  then have cb: "cur ?b = Some ?ns"
    using laws by blast
  have rd: "pf_isKey P k ?b \<and> pf_getFloat P k d ?b = x" if "view ?b ?ns k = Some x" for k d x
    using laws cb that by simp
  have "PID_PREF_KEY_KP \<noteq> PID_PREF_KEY_KI" "PID_PREF_KEY_KP \<noteq> PID_PREF_KEY_KD"
    "PID_PREF_KEY_KI \<noteq> PID_PREF_KEY_KD"
    by (simp_all add: config)
  then have "view ?b ?ns PID_PREF_KEY_KP = Some kp" "view ?b ?ns PID_PREF_KEY_KI = Some ki"
    "view ?b ?ns PID_PREF_KEY_KD = Some kd"
    by (simp_all add: vb v1 v2 v3)
  then obtain b where "pf_begin P ?ns True (nvs boot) = (True, b)"
    "pf_isKey P PID_PREF_KEY_KP b" "pf_getFloat P PID_PREF_KEY_KP M1_KP b = kp"
    "pf_isKey P PID_PREF_KEY_KI b" "pf_getFloat P PID_PREF_KEY_KI M1_KI b = ki"
    "pf_isKey P PID_PREF_KEY_KD b" "pf_getFloat P PID_PREF_KEY_KD M1_KD b = kd"
    using ok rd by (cases "pf_begin P ?ns True (nvs boot)") simp
  then show ?thesis
    by (simp add: loadPidGainsFromNvsAndApply_def Let_def)
qed

theorem pid_gains_roundtrip_witness:
  "let s = \<lparr>io = [], clk = (\<lambda>_. 0), clk_i = 0, m1_target_rpm = Fin 0, m2_target_rpm = Fin 0,
        last_cmd_ms = 0, m1_encoder_count = 0, m2_encoder_count = 0,
        m1_pid = mk_PidController M1_KP M1_KI M1_KD default_ff,
        m2_pid = mk_PidController M2_KP M2_KI M2_KD default_ff,
        nvs = (\<lambda>_ _. None, None)\<rparr>;
      s' = loadPidGainsFromNvsAndApply map_prefs (savePidGainsToNvs map_prefs (Fin 2) (Fin 3) (Fin 4) s)
   in pid_kp (m1_pid s') = Fin 2 \<and> pid_ki (m2_pid s') = Fin 3"
  using pid_gains_roundtrip [OF map_prefs_laws, of
      "\<lparr>io = [], clk = (\<lambda>_. 0), clk_i = 0, m1_target_rpm = Fin 0, m2_target_rpm = Fin 0,
        last_cmd_ms = 0, m1_encoder_count = 0, m2_encoder_count = 0,
        m1_pid = mk_PidController M1_KP M1_KI M1_KD default_ff,
        m2_pid = mk_PidController M2_KP M2_KI M2_KD default_ff,
        nvs = (\<lambda>_ _. None, None)\<rparr>" _ "Fin 2" "Fin 3" "Fin 4", OF _ refl]
  by (simp add: Let_def map_prefs_def pid_Reset_def pid_SetGains_def)

end
