(* ===== verification/Imu.thy ===== *)
theory Imu
  imports Pid
begin

text \<open>
  \<open>firmware/src/imu.cpp\<close>: the I2C bus and its two sensors (an LSM6DS3 inertial unit, and an
  HMC5883L or QMC5883 compass), the yaw estimate and the magnetometer calibration. The C
  mathematical functions, the \<open>Wire\<close> library and the sensor drivers are parameters: fields of
  the record \<open>platform\<close>, the bus and the devices on it an abstract state \<open>'w\<close>.
\<close>

section \<open>State\<close>

record imu_data =
  accel_x :: f32
  accel_y :: f32
  accel_z :: f32
  gyro_x :: f32
  gyro_y :: f32
  gyro_z :: f32
  imu_last_read_ms :: u32

record compass_data =
  mag_x :: f32
  mag_y :: f32
  mag_z :: f32
  compass_yaw_rad :: f32
  heading_deg :: f32
  compass_last_read_ms :: u32

record orientation_state =
  yaw_rad :: f32
  initialized :: bool
  last_update_ms :: u32

record mag_calibration_state =
  active :: bool
  calibration_done :: bool
  has_samples :: bool
  auto_rotate :: bool
  start_ms :: u32
  duration_ms :: u32
  angular_speed_radps :: f32
  min_x :: f32
  max_x :: f32
  min_y :: f32
  max_y :: f32
  min_z :: f32
  max_z :: f32
  offset_x :: f32
  offset_y :: f32
  offset_z :: f32

definition init_imu_data :: imu_data where
  "init_imu_data = \<lparr>accel_x = Fin 0, accel_y = Fin 0, accel_z = Fin 0,
     gyro_x = Fin 0, gyro_y = Fin 0, gyro_z = Fin 0, imu_last_read_ms = 0\<rparr>"

definition init_compass_data :: compass_data where
  "init_compass_data = \<lparr>mag_x = Fin 0, mag_y = Fin 0, mag_z = Fin 0,
     compass_yaw_rad = Fin 0, heading_deg = Fin 0, compass_last_read_ms = 0\<rparr>"

definition init_orientation :: orientation_state where
  "init_orientation = \<lparr>yaw_rad = Fin 0, initialized = False, last_update_ms = 0\<rparr>"

definition init_mag_calibration :: mag_calibration_state where
  "init_mag_calibration = \<lparr>active = False, calibration_done = False, has_samples = False,
     auto_rotate = True, start_ms = 0, duration_ms = MAG_CALIBRATION_DURATION_MS,
     angular_speed_radps = MAG_CALIBRATION_ANGULAR_RADPS,
     min_x = Fin 0, max_x = Fin 0, min_y = Fin 0, max_y = Fin 0, min_z = Fin 0, max_z = Fin 0,
     offset_x = Fin 0, offset_y = Fin 0, offset_z = Fin 0\<rparr>"

record ('n, 'w) sensors = "'n control" +
  bus :: 'w
  imu_data :: imu_data
  compass_data :: compass_data
  orientation :: orientation_state
  mag_cal :: mag_calibration_state
  imu_data_valid :: bool
  compass_data_valid :: bool
  lsm6ds3_i2c_addr :: u8
  imu_present :: bool
  compass_present :: bool
  compass_using_qmc :: bool
  compass_stale_ms :: u32
  last_sensor_log_ms :: u32

text \<open>The globals of the firmware's files up to this one, as they are at power on.\<close>

definition power_on_sensors :: "(nat \<Rightarrow> u32) \<Rightarrow> 'n \<Rightarrow> 'w \<Rightarrow> ('n, 'w) sensors" where
  "power_on_sensors ck n w = \<lparr>io = [], clk = ck, clk_i = 0,
     m1_target_rpm = Fin 0, m2_target_rpm = Fin 0, last_cmd_ms = 0,
     m1_encoder_count = 0, m2_encoder_count = 0,
     m1_pid = mk_PidController M1_KP M1_KI M1_KD default_ff,
     m2_pid = mk_PidController M2_KP M2_KI M2_KD default_ff, nvs = n,
     bus = w, imu_data = init_imu_data, compass_data = init_compass_data,
     orientation = init_orientation, mag_cal = init_mag_calibration,
     imu_data_valid = False, compass_data_valid = False,
     lsm6ds3_i2c_addr = LSM6DS3_I2C_ADDR_PRIMARY, imu_present = False, compass_present = False,
     compass_using_qmc = False, compass_stale_ms = 0, last_sensor_log_ms = 0\<rparr>"

section \<open>The platform\<close>

record imu_event =
  ev_accel :: "f32 \<times> f32 \<times> f32"
  ev_gyro :: "f32 \<times> f32 \<times> f32"

record ('n, 'w) platform = "'n prefs" +
  sinf :: "f32 \<Rightarrow> f32"
  cosf :: "f32 \<Rightarrow> f32"
  atan2f :: "f32 \<Rightarrow> f32 \<Rightarrow> f32"
  sqrtf :: "f32 \<Rightarrow> f32"
  wire_beginTransmission :: "u8 \<Rightarrow> 'w \<Rightarrow> 'w"
  wire_write :: "u8 \<Rightarrow> 'w \<Rightarrow> 'w"
  wire_endTransmission :: "bool \<Rightarrow> 'w \<Rightarrow> u8 \<times> 'w"
  wire_requestFrom :: "int \<Rightarrow> int \<Rightarrow> bool \<Rightarrow> 'w \<Rightarrow> nat \<times> 'w"
  wire_read :: "'w \<Rightarrow> int \<times> 'w"
  lsm_begin :: "u8 \<Rightarrow> 'w \<Rightarrow> bool \<times> 'w"
  lsm_getEvent :: "'w \<Rightarrow> imu_event option \<times> 'w"
  hmc_begin :: "'w \<Rightarrow> bool \<times> 'w"
  hmc_getEvent :: "'w \<Rightarrow> (f32 \<times> f32 \<times> f32) \<times> 'w"

text \<open>
  What is relied on of the mathematical functions: sine and cosine of a finite number lie in
  [-1, 1], \<open>atan2f\<close> of finite numbers in [-pi, pi] (as floats).
\<close>

definition libm_laws :: "('n, 'w, 'z) platform_scheme \<Rightarrow> bool" where
  "libm_laws P \<longleftrightarrow>
     (\<forall>x. fin x \<longrightarrow> bdd 1 (sinf P x) \<and> bdd 1 (cosf P x)) \<and>
     (\<forall>x y. fin x \<longrightarrow> fin y \<longrightarrow> bdd (fval M_PI_F) (atan2f P x y) \<and> is_float (atan2f P x y))"

section \<open>Angles\<close>

definition TWO_PI_F :: f32 where
  "TWO_PI_F = fmul (flit 2) M_PI_F"

partial_function (option) wrap_down :: "f32 \<Rightarrow> f32 option" where
  "wrap_down a = (if fgt a M_PI_F then wrap_down (fsub a TWO_PI_F) else Some a)"

partial_function (option) wrap_up :: "f32 \<Rightarrow> f32 option" where
  "wrap_up a = (if flt a (fneg M_PI_F) then wrap_up (fadd a TWO_PI_F) else Some a)"

definition normalizeAngleRad :: "f32 \<Rightarrow> f32 res" where
  "normalizeAngleRad a = of_opt Hang (Option.bind (wrap_down a) wrap_up)"

partial_function (option) heading_up :: "f32 \<Rightarrow> f32 option" where
  "heading_up a = (if flt a (Fin 0) then heading_up (fadd a TWO_PI_F) else Some a)"

partial_function (option) heading_down :: "f32 \<Rightarrow> f32 option" where
  "heading_down a = (if fge a TWO_PI_F then heading_down (fsub a TWO_PI_F) else Some a)"

definition computeHeadingDegrees ::
    "('n, 'w, 'z) platform_scheme \<Rightarrow> f32 \<Rightarrow> f32 \<Rightarrow> f32 \<Rightarrow> ('n, 'w, 'a) sensors_scheme \<Rightarrow> f32 res" where
  "computeHeadingDegrees P mx my mz s =
     (let d = imu_data s;
          heading_rad =
            (if ENABLE_TILT_COMPENSATION \<and> imu_data_valid s then
               let roll = atan2f P (accel_y d) (accel_z d);
                   pitch = atan2f P (fneg (accel_x d))
                     (sqrtf P (fadd (fmul (accel_y d) (accel_y d)) (fmul (accel_z d) (accel_z d))));
                   xh = fadd (fmul mx (cosf P pitch)) (fmul mz (sinf P pitch));
                   yh = fsub (fadd (fmul (fmul mx (sinf P roll)) (sinf P pitch))
                                (fmul my (cosf P roll)))
                          (fmul (fmul mz (sinf P roll)) (cosf P pitch))
               in atan2f P yh xh
             else atan2f P my mx);
          heading_rad = fadd heading_rad
            (fdiv (fmul COMPASS_DECLINATION_DEG M_PI_F) (flit 180))
      in bind_res (of_opt Hang (Option.bind (heading_up heading_rad) heading_down))
           (\<lambda>h. Inr (fdiv (fmul h (flit 180)) M_PI_F)))"

section \<open>The I2C bus\<close>

definition probeI2cAddress :: "('n, 'w, 'z) platform_scheme \<Rightarrow> u8 \<Rightarrow> 'w \<Rightarrow> bool \<times> 'w" where
  "probeI2cAddress P address w =
     (case wire_endTransmission P True (wire_beginTransmission P address w) of
        (e, w) \<Rightarrow> (e = 0, w))"

definition writeI2cRegister ::
    "('n, 'w, 'z) platform_scheme \<Rightarrow> u8 \<Rightarrow> u8 \<Rightarrow> u8 \<Rightarrow> 'w \<Rightarrow> bool \<times> 'w" where
  "writeI2cRegister P address r v w =
     (case wire_endTransmission P True
        (wire_write P v (wire_write P r (wire_beginTransmission P address w))) of
        (e, w) \<Rightarrow> (e = 0, w))"

fun read_bytes :: "('n, 'w, 'z) platform_scheme \<Rightarrow> nat \<Rightarrow> 'w \<Rightarrow> u8 list \<times> 'w" where
  "read_bytes P 0 w = ([], w)"
| "read_bytes P (Suc n) w = (case wire_read P w of (b, w) \<Rightarrow>
     case read_bytes P n w of (bs, w) \<Rightarrow> (word_of_int b # bs, w))"

definition readI2cRegisters ::
    "('n, 'w, 'z) platform_scheme \<Rightarrow> u8 \<Rightarrow> u8 \<Rightarrow> nat \<Rightarrow> 'w \<Rightarrow> u8 list option \<times> 'w" where
  "readI2cRegisters P address start_reg n w =
     (case wire_endTransmission P False
        (wire_write P start_reg (wire_beginTransmission P address w)) of
        (e, w) \<Rightarrow>
          if e \<noteq> 0 then (None, w)
          else case wire_requestFrom P (uint address) (int n) True w of (read_count, w) \<Rightarrow>
            if read_count \<noteq> n then (None, w)
            else case read_bytes P n w of (bs, w) \<Rightarrow> (Some bs, w))"

definition initQmc5883 :: "('n, 'w, 'z) platform_scheme \<Rightarrow> 'w \<Rightarrow> bool \<times> 'w" where
  "initQmc5883 P w =
     (case writeI2cRegister P QMC5883_I2C_ADDR QMC_REG_CONTROL_2 0 w of (ctrl2_ok, w) \<Rightarrow>
      case writeI2cRegister P QMC5883_I2C_ADDR QMC_REG_SET_RESET 1 w of (reset_ok, w) \<Rightarrow>
      case writeI2cRegister P QMC5883_I2C_ADDR QMC_REG_CONTROL_1 0x15 w of (ctrl1_ok, w) \<Rightarrow>
        (ctrl1_ok \<and> ctrl2_ok \<and> reset_ok, w))"

text \<open>The 16-bit two's complement value of a register pair.\<close>

definition qmc_axis :: "u8 \<Rightarrow> u8 \<Rightarrow> int" where
  "qmc_axis hi lo = sint (ucast (push_bit 8 (ucast hi :: u32) OR ucast lo) :: u16)"

definition readQmc5883MagneticField ::
    "('n, 'w, 'z) platform_scheme \<Rightarrow> 'w \<Rightarrow> (f32 \<times> f32 \<times> f32) option \<times> 'w" where
  "readQmc5883MagneticField P w =
     (case readI2cRegisters P QMC5883_I2C_ADDR QMC_REG_STATUS 1 w of
        (None, w) \<Rightarrow> (None, w)
      | (Some status, w) \<Rightarrow>
          if status ! 0 AND QMC_STATUS_DATA_READY = 0 then (None, w)
          else case readI2cRegisters P QMC5883_I2C_ADDR QMC_REG_X_LSB 6 w of
            (None, w) \<Rightarrow> (None, w)
          | (Some raw, w) \<Rightarrow>
              (Some (fmul (of_i32 (qmc_axis (raw ! 1) (raw ! 0))) QMC_LSB_TO_UT,
                     fmul (of_i32 (qmc_axis (raw ! 3) (raw ! 2))) QMC_LSB_TO_UT,
                     fmul (of_i32 (qmc_axis (raw ! 5) (raw ! 4))) QMC_LSB_TO_UT), w))"

section \<open>Sensors\<close>

definition initI2cAndSensors ::
    "('n, 'w, 'z) platform_scheme \<Rightarrow> ('n, 'w, 'a) sensors_scheme \<Rightarrow> ('n, 'w, 'a) sensors_scheme" where
  "initI2cAndSensors P s =
     (let s = emits [Wire_Begin I2C_SDA_PIN I2C_SCL_PIN I2C_FREQ_HZ, Delay 80] s;
          (imu_primary_ok, w) = probeI2cAddress P LSM6DS3_I2C_ADDR_PRIMARY (bus s);
          (imu_alt_ok, w) = probeI2cAddress P LSM6DS3_I2C_ADDR_ALT w;
          (compass_addr_ok, w) = probeI2cAddress P HMC5883L_I2C_ADDR w;
          (qmc_addr_ok, w) = probeI2cAddress P QMC5883_I2C_ADDR w;
          addr = (if imu_primary_ok then LSM6DS3_I2C_ADDR_PRIMARY
                  else if imu_alt_ok then LSM6DS3_I2C_ADDR_ALT
                  else lsm6ds3_i2c_addr s);
          (imu_ok, w) = lsm_begin P addr w;
          (compass_ok, w) = hmc_begin P w;
          (compass_ok, using_qmc, w) =
            (if \<not> compass_ok \<and> qmc_addr_ok then
               (case initQmc5883 P w of (ok, w) \<Rightarrow> (ok, ok, w))
             else (compass_ok, False, w));
          s = s\<lparr>bus := w, lsm6ds3_i2c_addr := addr, imu_present := imu_ok,
                compass_present := compass_ok, compass_using_qmc := using_qmc\<rparr>
      in emits ([Log (I2c_Config I2C_SDA_PIN I2C_SCL_PIN I2C_FREQ_HZ),
                 Log (I2c_Probe imu_primary_ok imu_alt_ok compass_addr_ok)] @
                (if \<not> compass_addr_ok \<and> qmc_addr_ok then [Log Qmc_Found] else []) @
                [Log (Sensor_Init imu_ok addr compass_ok using_qmc)]) s)"

definition readImuData ::
    "('n, 'w, 'z) platform_scheme \<Rightarrow> u32 \<Rightarrow> ('n, 'w, 'a) sensors_scheme \<Rightarrow> ('n, 'w, 'a) sensors_scheme" where
  "readImuData P now_ms s =
     (if \<not> imu_present s \<or> elapsed now_ms (imu_last_read_ms (imu_data s)) < IMU_READ_PERIOD_MS then s
      else case lsm_getEvent P (bus s) of
        (Some ev, w) \<Rightarrow>
          (case ev_accel ev of (ax, ay, az) \<Rightarrow> case ev_gyro ev of (gx, gy, gz) \<Rightarrow>
            s\<lparr>bus := w,
              imu_data := \<lparr>accel_x = ax, accel_y = ay, accel_z = az,
                gyro_x = fsub gx (flit (586 / 10000)),
                gyro_y = fadd gy (flit (880 / 10000)),
                gyro_z = fadd gz (flit (910 / 10000)),
                imu_last_read_ms = now_ms\<rparr>,
              imu_data_valid := True\<rparr>)
      | (None, w) \<Rightarrow> s\<lparr>bus := w, imu_data_valid := False\<rparr>)"

text \<open>One sample taken while a calibration is active widens the box seen so far.\<close>

definition mag_cal_sample ::
    "f32 \<times> f32 \<times> f32 \<Rightarrow> mag_calibration_state \<Rightarrow> mag_calibration_state" where
  "mag_cal_sample m c = (case m of (mx, my, mz) \<Rightarrow>
     if \<not> active c then c
     else if \<not> has_samples c then
       c\<lparr>min_x := mx, max_x := mx, min_y := my, max_y := my, min_z := mz, max_z := mz,
         has_samples := True\<rparr>
     else
       c\<lparr>min_x := fmin (min_x c) mx, max_x := fmax (max_x c) mx,
         min_y := fmin (min_y c) my, max_y := fmax (max_y c) my,
         min_z := fmin (min_z c) mz, max_z := fmax (max_z c) mz\<rparr>)"

definition readCompassData ::
    "('n, 'w, 'z) platform_scheme \<Rightarrow> u32 \<Rightarrow> ('n, 'w, 'a) sensors_scheme \<Rightarrow> ('n, 'w, 'a) sensors_scheme res" where
  "readCompassData P now_ms s =
     (if \<not> compass_present s \<or>
         elapsed now_ms (compass_last_read_ms (compass_data s)) < COMPASS_READ_PERIOD_MS then Inr s
      else
        let prev = compass_data s;
            (sample, w) =
              (if compass_using_qmc s then readQmc5883MagneticField P (bus s)
               else case hmc_getEvent P (bus s) of (m, w) \<Rightarrow> (Some m, w));
            s = s\<lparr>bus := w\<rparr>
        in case sample of None \<Rightarrow> Inr s
        | Some (mx, my, mz) \<Rightarrow>
          let s = s\<lparr>mag_cal := mag_cal_sample (mx, my, mz) (mag_cal s)\<rparr>;
              mx = fsub mx (offset_x (mag_cal s));
              my = fsub my (offset_y (mag_cal s));
              mz = fsub mz (offset_z (mag_cal s))
          in if isnan mx \<or> isnan my \<or> isnan mz \<or> isinf mx \<or> isinf my \<or> isinf mz
             then Inr (s\<lparr>compass_data_valid := False\<rparr>)
             else
               bind_res (normalizeAngleRad (atan2f P my mx)) (\<lambda>yaw.
               bind_res (computeHeadingDegrees P mx my mz s) (\<lambda>hdg.
                 let dx = fabsf (fsub mx (mag_x prev));
                     dy = fabsf (fsub my (mag_y prev));
                     dz = fabsf (fsub mz (mag_z prev));
                     still = (flt dx COMPASS_STALE_EPS_UT \<and> flt dy COMPASS_STALE_EPS_UT \<and>
                              flt dz COMPASS_STALE_EPS_UT)
                 in Inr (s\<lparr>compass_data := \<lparr>mag_x = mx, mag_y = my, mag_z = mz,
                        compass_yaw_rad = yaw, heading_deg = hdg, compass_last_read_ms = now_ms\<rparr>,
                      compass_data_valid := True,
                      compass_stale_ms :=
                        (if still then
                           (if 0 < compass_last_read_ms prev
                            then compass_stale_ms s + elapsed now_ms (compass_last_read_ms prev)
                            else compass_stale_ms s)
                         else 0)\<rparr>))))"

definition updateYawEstimate ::
    "u32 \<Rightarrow> ('n, 'w, 'a) sensors_scheme \<Rightarrow> ('n, 'w, 'a) sensors_scheme res" where
  "updateYawEstimate now_ms s =
     (if \<not> imu_data_valid s \<and> \<not> compass_data_valid s then Inr s
      else
        let o1 = orientation s in
        if \<not> initialized o1 then
          Inr (s\<lparr>orientation := \<lparr>
                yaw_rad = (if compass_data_valid s then compass_yaw_rad (compass_data s)
                           else yaw_rad o1),
                initialized = True, last_update_ms = now_ms\<rparr>\<rparr>)
        else if now_ms \<le> last_update_ms o1 then Inr s
        else
          let dt_s = fdiv (of_u32 (elapsed now_ms (last_update_ms o1))) (flit 1000);
              o1 = o1\<lparr>last_update_ms := now_ms\<rparr>
          in if fle dt_s (flit 0) then Inr (s\<lparr>orientation := o1\<rparr>)
             else
               bind_res (if imu_data_valid s
                 then normalizeAngleRad (fadd (yaw_rad o1) (fmul (gyro_z (imu_data s)) dt_s))
                 else Inr (yaw_rad o1)) (\<lambda>gyro_pred_yaw.
               if compass_data_valid s then
                 bind_res (normalizeAngleRad
                     (fadd (fmul YAW_COMPLEMENTARY_ALPHA gyro_pred_yaw)
                        (fmul (fsub (flit 1) YAW_COMPLEMENTARY_ALPHA)
                           (compass_yaw_rad (compass_data s)))))
                   (\<lambda>y. Inr (s\<lparr>orientation := o1\<lparr>yaw_rad := y\<rparr>\<rparr>))
               else Inr (s\<lparr>orientation := o1\<lparr>yaw_rad := gyro_pred_yaw\<rparr>\<rparr>)))"

definition logSensorData ::
    "u32 \<Rightarrow> ('n, 'w, 'a) sensors_scheme \<Rightarrow> ('n, 'w, 'a) sensors_scheme" where
  "logSensorData now_ms s =
     (if elapsed now_ms (last_sensor_log_ms s) < SENSOR_DEBUG_PERIOD_MS then s
      else
        let d = imu_data s; c = compass_data s in
        emits (Log (Sensor_Values (imu_data_valid s)
                 [accel_x d, accel_y d, accel_z d, gyro_x d, gyro_y d, gyro_z d]
                 (compass_data_valid s) [mag_x c, mag_y c, mag_z c, heading_deg c]) #
               (if COMPASS_STALE_WARN_MS \<le> compass_stale_ms s
                then [Log (Compass_Unchanged (compass_stale_ms s))] else []))
          (s\<lparr>last_sensor_log_ms := now_ms\<rparr>))"

section \<open>Magnetometer calibration\<close>

definition startMagCalibration ::
    "u32 \<Rightarrow> ('n, 'w, 'a) sensors_scheme \<Rightarrow> ('n, 'w, 'a) sensors_scheme" where
  "startMagCalibration now_ms s =
     (let s = s\<lparr>mag_cal := (mag_cal s)\<lparr>active := True, calibration_done := False,
                 has_samples := False, start_ms := now_ms\<rparr>\<rparr>;
          s = setTargetsFromCmdVel (flit 0) (angular_speed_radps (mag_cal s)) s
      in emit (Log (Calibration_Started (duration_ms (mag_cal s)) (angular_speed_radps (mag_cal s))))
           (s\<lparr>last_cmd_ms := now_ms\<rparr>))"

definition finishMagCalibration ::
    "('n, 'z) prefs_scheme \<Rightarrow> bool \<Rightarrow> ('n, 'w, 'a) sensors_scheme \<Rightarrow> ('n, 'w, 'a) sensors_scheme" where
  "finishMagCalibration P persist_offsets s =
     (if \<not> active (mag_cal s) then s
      else
        let s = s\<lparr>mag_cal := (mag_cal s)\<lparr>active := False\<rparr>,
                  m1_target_rpm := flit 0, m2_target_rpm := flit 0\<rparr>;
            (now, s) = millis s;
            s = s\<lparr>last_cmd_ms := now\<rparr>;
            c = mag_cal s
        in if \<not> has_samples c then
             emit (Log Calibration_Without_Samples) (s\<lparr>mag_cal := c\<lparr>calibration_done := False\<rparr>\<rparr>)
           else
             let ox = fmul (flit (5 / 10)) (fadd (max_x c) (min_x c));
                 oy = fmul (flit (5 / 10)) (fadd (max_y c) (min_y c));
                 oz = fmul (flit (5 / 10)) (fadd (max_z c) (min_z c));
                 s = s\<lparr>mag_cal := c\<lparr>offset_x := ox, offset_y := oy, offset_z := oz,
                       calibration_done := True\<rparr>\<rparr>;
                 s = (if persist_offsets then saveMagOffsetsToNvs P ox oy oz s else s)
             in emit (Log (Calibration_Done ox oy oz)) s)"

definition updateMagCalibrationMode ::
    "('n, 'z) prefs_scheme \<Rightarrow> u32 \<Rightarrow> ('n, 'w, 'a) sensors_scheme \<Rightarrow> ('n, 'w, 'a) sensors_scheme" where
  "updateMagCalibrationMode P now_ms s =
     (if \<not> active (mag_cal s) \<or> \<not> auto_rotate (mag_cal s) then s
      else
        let s = setTargetsFromCmdVel (flit 0) (angular_speed_radps (mag_cal s)) s;
            s = s\<lparr>last_cmd_ms := now_ms\<rparr>
        in if duration_ms (mag_cal s) \<le> elapsed now_ms (start_ms (mag_cal s))
           then finishMagCalibration P True s else s)"

definition loadMagOffsetsFromNvs ::
    "('n, 'z) prefs_scheme \<Rightarrow> ('n, 'w, 'a) sensors_scheme \<Rightarrow> ('n, 'w, 'a) sensors_scheme" where
  "loadMagOffsetsFromNvs P s =
     (case pf_begin P MAG_PREFS_NAMESPACE True (nvs s) of (ok, n) \<Rightarrow>
        if \<not> ok then
          s\<lparr>nvs := n, mag_cal := (mag_cal s)\<lparr>offset_x := HMC_OFFSET_X_UT, offset_y := HMC_OFFSET_Y_UT,
              offset_z := HMC_OFFSET_Z_UT, calibration_done := False\<rparr>\<rparr>
        else
          let has_x = pf_isKey P MAG_PREF_KEY_OFFSET_X n;
              has_y = pf_isKey P MAG_PREF_KEY_OFFSET_Y n;
              has_z = pf_isKey P MAG_PREF_KEY_OFFSET_Z n
          in s\<lparr>nvs := pf_end P n, mag_cal := (mag_cal s)\<lparr>
                 offset_x := (if has_x then pf_getFloat P MAG_PREF_KEY_OFFSET_X HMC_OFFSET_X_UT n
                              else HMC_OFFSET_X_UT),
                 offset_y := (if has_y then pf_getFloat P MAG_PREF_KEY_OFFSET_Y HMC_OFFSET_Y_UT n
                              else HMC_OFFSET_Y_UT),
                 offset_z := (if has_z then pf_getFloat P MAG_PREF_KEY_OFFSET_Z HMC_OFFSET_Z_UT n
                              else HMC_OFFSET_Z_UT),
                 calibration_done := (has_x \<and> has_y \<and> has_z)\<rparr>\<rparr>)"

section \<open>Wrapping an angle returns exactly on the range where a turn is more than half an ulp\<close>

text \<open>\<open>pif\<close> and \<open>turn\<close> are the exact values of the two float constants.\<close>

definition pif :: rat where
  "pif = 13176795 / 4194304"

definition turn :: rat where
  "turn = 13176795 / 2097152"

lemma TWO_PI_F_val [config_f32]: "TWO_PI_F = Fin turn"
  unfolding turn_def by code_simp

lemma M_PI_F_pif: "M_PI_F = Fin pif"
  by (simp add: M_PI_F_val pif_def)

lemma repr32_pif [simp]: "repr32 pif" and repr32_turn [simp]: "repr32 turn"
  using repr32_half_int [of 13176795 22] repr32_half_int [of 13176795 21]
  by (simp_all add: pif_def turn_def)

lemma pif_bounds: "3 < pif" "pif < 4" "turn = 2 * pif"
  by (simp_all add: pif_def turn_def)

lemma ulp_exp_le:
  assumes "\<bar>y\<bar> < 2 ^ n" "23 \<le> n"
  shows "ulp_exp y \<le> int n - 24 \<or> y = 0"
proof (cases "y = 0")
  case False
  then have "2 powi ilog2 \<bar>y\<bar> \<le> \<bar>y\<bar>"
    using ilog2_bounds [of "\<bar>y\<bar>"] by simp
  also have "\<bar>y\<bar> < 2 powi int n"
    using assms by simp
  finally have "ilog2 \<bar>y\<bar> < int n"
    by (rule two_powi_less_imp)
  then show ?thesis
    using assms(2) by (simp add: ulp_exp_def)
qed simp

lemma turn_step:
  assumes "pif < x" "x \<le> 2 ^ 27"
  shows "- pif \<le> rnd32 (x - turn)" "rnd32 (x - turn) \<le> x - 2"
proof -
  have "rnd32 (- pif) \<le> rnd32 (x - turn)"
    using assms pif_bounds by (intro rnd32_mono) simp
  then show "- pif \<le> rnd32 (x - turn)"
    using repr32_pif unfolding repr32_def by simp
  have "\<bar>x - turn\<bar> < 2 ^ 27"
    using assms pif_bounds by (auto simp: abs_if)
  then have "ulp_exp (x - turn) \<le> 3 \<or> x - turn = 0"
    using ulp_exp_le [of "x - turn" 27] by auto
  then have "\<bar>rnd32 (x - turn) - (x - turn)\<bar> \<le> 4"
  proof
    assume e: "ulp_exp (x - turn) \<le> 3"
    have "(2 :: rat) powi ulp_exp (x - turn) \<le> 2 powi 3"
      using e by (rule two_powi_mono)
    then show ?thesis
      using rnd32_err [of "x - turn"] by simp
  qed simp
  then show "rnd32 (x - turn) \<le> x - 2"
    using pif_bounds by (simp add: abs_le_iff)
qed

lemma turn_down_fval:
  assumes "bdd (2 ^ 27) a"
  shows "fin (fsub a TWO_PI_F)" "fval (fsub a TWO_PI_F) = rnd32 (fval a - turn)"
    "fin (fadd a TWO_PI_F)" "fval (fadd a TWO_PI_F) = rnd32 (fval a + turn)"
proof -
  have t: "bdd 8 (Fin turn)"
    by (simp add: turn_def)
  note s = fsub_bdd [OF assms t, of "2 ^ 28"] and u = fadd_bdd [OF assms t, of "2 ^ 28"]
  show "fin (fsub a TWO_PI_F)" "fval (fsub a TWO_PI_F) = rnd32 (fval a - turn)"
    "fin (fadd a TWO_PI_F)" "fval (fadd a TWO_PI_F) = rnd32 (fval a + turn)"
    using s u by (auto simp: TWO_PI_F_val bdd_def)
qed

lemma wrap_down_returns:
  assumes "bdd (2 ^ 27) a"
  obtains b where "wrap_down a = Some b" "fval a \<le> pif \<and> b = a \<or> bdd pif b"
  using assms
proof (induction "nat \<lceil>fval a\<rceil>" arbitrary: a thesis rule: less_induct)
  case less
  show ?case
  proof (cases "fval a \<le> pif")
    case True
    then have "wrap_down a = Some a"
      using less.prems(2) by (subst wrap_down.simps) (simp add: M_PI_F_pif bdd_def)
    then show thesis
      using less.prems(1) True by blast
  next
    case False
    let ?b = "fsub a TWO_PI_F"
    have a: "pif < fval a" "fval a \<le> 2 ^ 27" "fin a"
      using False less.prems(2) by (auto simp: bdd_def)
    have b: "fin ?b" "- pif \<le> fval ?b" "fval ?b \<le> fval a - 2"
      using turn_step [OF a(1,2)] turn_down_fval [OF less.prems(2)] by simp_all
    have unfold: "wrap_down a = wrap_down ?b"
      using a by (subst wrap_down.simps) (simp add: M_PI_F_pif)
    have "bdd (2 ^ 27) ?b"
      using a b pif_bounds by (auto simp: bdd_def abs_le_iff)
    moreover have "nat \<lceil>fval ?b\<rceil> < nat \<lceil>fval a\<rceil>"
    proof -
      have "\<lceil>fval ?b\<rceil> \<le> \<lceil>fval a - of_int 2\<rceil>"
        using b(3) by (intro ceiling_mono) simp
      moreover have "0 < \<lceil>fval a\<rceil>"
        using a(1) pif_bounds by simp
      ultimately show ?thesis
        unfolding ceiling_diff_of_int by linarith
    qed
    ultimately obtain c where "wrap_down ?b = Some c" "fval ?b \<le> pif \<and> c = ?b \<or> bdd pif c"
      using less.hyps by metis
    then show thesis
      using less.prems(1) unfold b by (auto simp: bdd_def abs_le_iff)
  qed
qed

lemma wrap_up_returns:
  assumes "bdd (2 ^ 27) a" "fval a \<le> pif"
  obtains b where "wrap_up a = Some b" "bdd pif b"
  using assms
proof (induction "nat \<lceil>- fval a\<rceil>" arbitrary: a thesis rule: less_induct)
  case less
  show ?case
  proof (cases "- pif \<le> fval a")
    case True
    then have "wrap_up a = Some a"
      using less.prems(2) by (subst wrap_up.simps) (simp add: M_PI_F_pif bdd_def)
    then show thesis
      using less.prems True by (auto simp: bdd_def)
  next
    case False
    let ?b = "fadd a TWO_PI_F"
    have a: "pif < - fval a" "- fval a \<le> 2 ^ 27" "fin a"
      using False less.prems(2) by (auto simp: bdd_def)
    have "rnd32 (fval a + turn) = - rnd32 (- fval a - turn)"
      using rnd32_minus [of "- fval a - turn"] by (simp add: add.commute)
    then have b: "fin ?b" "fval ?b \<le> pif" "- fval ?b \<le> - fval a - 2"
      using turn_step [OF a(1,2)] turn_down_fval [OF less.prems(2)] by simp_all
    have unfold: "wrap_up a = wrap_up ?b"
      using a by (subst wrap_up.simps) (simp add: M_PI_F_pif)
    have "bdd (2 ^ 27) ?b"
      using a b pif_bounds by (auto simp: bdd_def abs_le_iff)
    moreover have "nat \<lceil>- fval ?b\<rceil> < nat \<lceil>- fval a\<rceil>"
    proof -
      have "\<lceil>- fval ?b\<rceil> \<le> \<lceil>- fval a - of_int 2\<rceil>"
        using b(3) by (intro ceiling_mono) simp
      moreover have "0 < \<lceil>- fval a\<rceil>"
        using a(1) pif_bounds by simp
      ultimately show ?thesis
        unfolding ceiling_diff_of_int by linarith
    qed
    ultimately show thesis
      using less.hyps [of ?b] b(2) unfold less.prems(1) by metis
  qed
qed

lemma normalizeAngleRad_bdd:
  assumes "bdd (2 ^ 27) a"
  obtains b where "normalizeAngleRad a = Inr b" "bdd pif b"
proof -
  obtain b where b: "wrap_down a = Some b" "fval a \<le> pif \<and> b = a \<or> bdd pif b"
    using assms by (rule wrap_down_returns)
  have "bdd (2 ^ 27) b" "fval b \<le> pif"
    using b(2) assms pif_bounds by (auto simp: bdd_def)
  then obtain c where "wrap_up b = Some c" "bdd pif c"
    by (rule wrap_up_returns)
  then show thesis
    using that b(1) by (simp add: normalizeAngleRad_def)
qed

lemma normalizeAngleRad_nan: "normalizeAngleRad NaN = Inr NaN"
  by (simp add: normalizeAngleRad_def wrap_down.simps [of NaN] wrap_up.simps [of NaN])

text \<open>Beyond \<open>2^27\<close> a turn is less than half an ulp, and subtracting it changes nothing.\<close>

lemma rnd32_absorbs:
  assumes x: "repr32 x" "2 ^ 27 < x"
  shows "rnd32 (x - turn) = x"
proof -
  have "ulp_exp x \<ge> 4"
    using ilog2_geI [of 27 x] x(2) by (simp add: ulp_exp_def)
  moreover obtain m where m: "x = of_int m * 2 powi ulp_exp x"
    using x rnd32_scaled [of x] by (metis repr32_def less_irrefl not_numeral_less_zero power_strict_mono
        zero_less_numeral zero_less_power less_trans)
  ultimately obtain k where k: "x = of_int k * 16"
  proof -
    assume e: "4 \<le> ulp_exp x"
    then have "x = of_int m * 2 powi (ulp_exp x - 4) * 16"
      by (subst m) (simp add: two_powi_diff)
    then have "x = of_int (m * 2 ^ nat (ulp_exp x - 4)) * 16"
      using e by (simp add: two_powi_nat)
    then show thesis
      by (rule that)
  qed
  have "(2 :: rat) ^ 27 = of_int (2 ^ 23) * 16"
    by simp
  then have "(of_int (2 ^ 23) :: rat) < of_int k"
    using x(2) k by simp
  then have "2 ^ 23 < k"
    by (simp only: of_int_less_iff)
  then have "2 ^ 23 + 1 \<le> k"
    by simp
  then have "(of_int (2 ^ 23 + 1) :: rat) \<le> of_int k"
    by (simp only: of_int_le_iff)
  then have x16: "2 ^ 27 + 16 \<le> x"
    using k by simp
  let ?y = "x - turn" and ?e = "ulp_exp (x - turn)"
  have y: "2 ^ 27 < ?y" "?y < x"
    using x16 pif_bounds by simp_all
  have e4: "4 \<le> ?e"
    using ilog2_geI [of 27 ?y] y(1) by (simp add: ulp_exp_def)
  have "?e \<le> ulp_exp x"
    using y by (intro ulp_exp_mono) simp_all
  then have n: "x / 2 powi ?e = of_int (m * 2 ^ nat (ulp_exp x - ?e))" (is "_ = of_int ?n")
    by (subst m) (simp add: two_powi_nat [symmetric] two_powi_diff)
  have "(2 :: rat) powi 4 \<le> 2 powi ?e"
    using e4 by (rule two_powi_mono)
  then have "turn / 2 powi ?e \<le> turn / 16"
    using pif_bounds by (intro divide_left_mono) simp_all
  also have "turn / 16 < 1 / 2"
    by (simp add: turn_def)
  finally have t: "turn / 2 powi ?e < 1 / 2" .
  have "0 < turn / 2 powi ?e"
    using pif_bounds by simp
  then have "\<bar>?y / 2 powi ?e - of_int ?n\<bar> < 1 / 2"
    using t unfolding diff_divide_distrib n by linarith
  then have r: "rne (?y / 2 powi ?e) = ?n"
    by (rule rne_near)
  have "rnd32 ?y = of_int ?n * 2 powi ?e"
    using y(1) unfolding rnd32_def r by simp
  then show ?thesis
    unfolding n [symmetric] by simp
qed

definition stuck :: "f32 \<Rightarrow> bool" where
  "stuck a \<longleftrightarrow> isinf a \<or> (fin a \<and> repr32 (fval a) \<and> 2 ^ 27 < \<bar>fval a\<bar>)"

lemma stuck_down: "stuck a \<Longrightarrow> fgt a M_PI_F \<Longrightarrow> fsub a TWO_PI_F = a"
proof (cases a)
  case (Fin x)
  assume s: "stuck a" "fgt a M_PI_F"
  then have x: "repr32 x" "2 ^ 27 < x"
    using Fin pif_bounds by (auto simp: stuck_def M_PI_F_pif abs_if split: if_splits)
  then have "rnd32 (x - turn) = x"
    by (rule rnd32_absorbs)
  then show ?thesis
    using x pif_bounds
    by (simp add: Fin fsub_def fadd_def TWO_PI_F_val mk_f32_def repr32_def Let_def)
qed (auto simp: stuck_def fsub_def fadd_def TWO_PI_F_val M_PI_F_pif)

lemma stuck_up: "stuck a \<Longrightarrow> flt a (fneg M_PI_F) \<Longrightarrow> fadd a TWO_PI_F = a"
proof (cases a)
  case (Fin x)
  assume s: "stuck a" "flt a (fneg M_PI_F)"
  then have x: "repr32 (- x)" "2 ^ 27 < - x"
    using Fin pif_bounds by (auto simp: stuck_def M_PI_F_pif abs_if split: if_splits)
  then have "rnd32 (- x - turn) = - x"
    by (rule rnd32_absorbs)
  then have "rnd32 (x + turn) = x"
    using rnd32_minus [of "- x - turn"] by (simp add: add.commute)
  then show ?thesis
    using x pif_bounds
    by (simp add: Fin fadd_def TWO_PI_F_val mk_f32_def repr32_def Let_def)
qed (auto simp: stuck_def fadd_def TWO_PI_F_val M_PI_F_pif)

lemma wrap_down_stuck: "wrap_down a = Some b \<Longrightarrow> stuck a \<Longrightarrow> b = a \<and> \<not> fgt a M_PI_F"
  using wrap_down.raw_induct [where P = "\<lambda>a b. stuck a \<longrightarrow> b = a \<and> \<not> fgt a M_PI_F"]
  by (metis (no_types, lifting) option.inject stuck_down)

lemma wrap_up_stuck: "wrap_up a = Some b \<Longrightarrow> stuck a \<Longrightarrow> b = a \<and> \<not> flt a (fneg M_PI_F)"
  using wrap_up.raw_induct [where P = "\<lambda>a b. stuck a \<longrightarrow> b = a \<and> \<not> flt a (fneg M_PI_F)"]
  by (metis (no_types, lifting) option.inject stuck_up)

lemma normalizeAngleRad_stuck:
  assumes "stuck a"
  shows "normalizeAngleRad a = Inl Hang"
proof -
  have "fgt a M_PI_F \<or> flt a (fneg M_PI_F)"
    using assms pif_bounds by (cases a) (auto simp: stuck_def M_PI_F_pif abs_if split: if_splits)
  then have "Option.bind (wrap_down a) wrap_up = None"
    using wrap_down_stuck [of a] wrap_up_stuck [of a] assms
    by (cases "wrap_down a"; cases "wrap_up a") auto
  then show ?thesis
    by (simp add: normalizeAngleRad_def)
qed

text \<open>C38: \<open>normalizeAngleRad\<close> returns exactly for a NaN and for numbers of magnitude at most
  \<open>2^27\<close>; what it returns is a NaN or lies in [-pi, pi] (the float pi). For an infinity, and
  for every larger float, its loops never end: the turn subtracted is less than half the gap
  between neighbouring floats.\<close>

theorem normalizeAngleRad_returns:
  assumes "is_float a"
  shows "(if isnan a \<or> bdd (2 ^ 27) a
     then \<exists>b. normalizeAngleRad a = Inr b \<and> (isnan b \<and> isnan a \<or> bdd (fval M_PI_F) b)
     else normalizeAngleRad a = Inl Hang)"
proof (cases "bdd (2 ^ 27) a")
  case True
  then obtain b where "normalizeAngleRad a = Inr b" "bdd pif b"
    by (rule normalizeAngleRad_bdd)
  then show ?thesis
    using True by (simp add: M_PI_F_pif)
next
  case False
  show ?thesis
  proof (cases "isnan a")
    case True
    then show ?thesis
      by (simp add: isnan_iff normalizeAngleRad_nan)
  next
    case False
    then have "stuck a"
      using \<open>\<not> bdd (2 ^ 27) a\<close> assms fin_cases [of a]
      by (auto simp: stuck_def bdd_def is_float_def)
    then show ?thesis
      using False \<open>\<not> bdd (2 ^ 27) a\<close> by (simp add: normalizeAngleRad_stuck)
  qed
qed

theorem normalizeAngleRad_returns_witness:
  "(\<exists>b. normalizeAngleRad (Fin 100) = Inr b \<and> bdd (fval M_PI_F) b) \<and>
   normalizeAngleRad (Fin (2 ^ 28)) = Inl Hang"
proof -
  have "is_float (Fin 100)" "is_float (Fin (2 ^ 28))"
    by (simp_all add: is_float_def)
  then show ?thesis
    using normalizeAngleRad_returns [of "Fin 100"] normalizeAngleRad_returns [of "Fin (2 ^ 28)"]
    by simp
qed

section \<open>The compass heading\<close>

lemma no_declination: "fdiv (fmul COMPASS_DECLINATION_DEG M_PI_F) (flit 180) = Fin 0"
  by code_simp

lemma fadd_zero: "bdd B x \<Longrightarrow> repr32 (fval x) \<Longrightarrow> bdd B (fadd x (Fin 0)) \<and> fval (fadd x (Fin 0)) = fval x"
  by (cases x) (auto simp: fadd_def mk_f32_def repr32_def Let_def bdd_def)

lemma heading_up_eq:
  assumes h: "bdd pif h"
  obtains h' where "heading_up h = Some h'" "fin h'" "0 \<le> fval h'" "fval h' \<le> turn"
proof (cases "fval h < 0")
  case False
  then have "heading_up h = Some h"
    using h by (subst heading_up.simps) (simp add: bdd_def)
  then show thesis
    using that False h pif_bounds by (auto simp: bdd_def)
next
  case True
  let ?g = "fadd h TWO_PI_F"
  have g: "fin ?g" "fval ?g = rnd32 (fval h + turn)"
    using turn_down_fval [of h] h pif_bounds by (auto simp: bdd_def)
  have "rnd32 0 \<le> rnd32 (fval h + turn)" "rnd32 (fval h + turn) \<le> rnd32 turn"
    using True h pif_bounds by (auto intro!: rnd32_mono rnd32_nonneg simp: bdd_def)
  then have b: "0 \<le> fval ?g" "fval ?g \<le> turn"
    using repr32_turn unfolding g repr32_def by simp_all
  have "heading_up h = heading_up ?g"
    using True h by (subst heading_up.simps) (simp add: bdd_def)
  also have "\<dots> = Some ?g"
    using g b by (subst heading_up.simps) simp
  finally show thesis
    using that g b by blast
qed

lemma heading_down_eq:
  assumes h: "fin h" "0 \<le> fval h" "fval h \<le> turn"
  obtains h' where "heading_down h = Some h'" "fin h'" "0 \<le> fval h'" "fval h' < turn"
proof (cases "fval h < turn")
  case True
  then have "heading_down h = Some h"
    using h by (subst heading_down.simps) (simp add: TWO_PI_F_val)
  then show thesis
    using that True h by blast
next
  case False
  let ?g = "fsub h TWO_PI_F"
  have e: "fval h = turn"
    using False h by simp
  then have g: "fin ?g" "fval ?g = 0"
    using turn_down_fval [of h] h pif_bounds by (auto simp: bdd_def)
  have "heading_down h = heading_down ?g"
    using e h by (subst heading_down.simps) (simp add: TWO_PI_F_val)
  also have "\<dots> = Some ?g"
    using g pif_bounds by (subst heading_down.simps) (simp add: TWO_PI_F_val)
  finally show thesis
    using that g pif_bounds by simp
qed

lemma heading_degrees_bdd:
  assumes "fin h" "0 \<le> fval h" "fval h < turn"
  shows "fin (fdiv (fmul h (flit 180)) M_PI_F)" "0 \<le> fval (fdiv (fmul h (flit 180)) M_PI_F)"
    "fval (fdiv (fmul h (flit 180)) M_PI_F) \<le> 360"
proof -
  have T: "bdd turn h"
    using assms by (simp add: bdd_def)
  have c: "bdd 180 (Fin 180)"
    by simp
  let ?m = "fmul h (Fin 180)" and ?c = "4632467 / 4096 :: rat"
  have m: "bdd 2048 ?m" "fval ?m = rnd32 (fval h * 180)"
    using fmul_bdd [OF T c, of 2048] by (simp_all add: turn_def)
  have "rnd32 0 \<le> rnd32 (fval h * 180)" "rnd32 (fval h * 180) \<le> rnd32 (turn * 180)"
    using assms by (auto intro!: rnd32_mono rnd32_nonneg)
  moreover have "rnd32 (turn * 180) = ?c"
    unfolding turn_def by code_simp
  ultimately have r: "0 \<le> fval ?m" "fval ?m \<le> ?c"
    using m(2) by simp_all
  have d: "bdd 2048 (fdiv ?m M_PI_F)" "fval (fdiv ?m M_PI_F) = rnd32 (fval ?m / pif)"
    using fdiv_bdd [OF m(1), of M_PI_F 1 2048] pif_bounds by (simp_all add: M_PI_F_pif)
  have "rnd32 0 \<le> rnd32 (fval ?m / pif)" "rnd32 (fval ?m / pif) \<le> rnd32 (?c / pif)"
  proof -
    have "0 \<le> fval ?m / pif" "fval ?m / pif \<le> ?c / pif"
      using r pif_bounds by (simp, intro divide_right_mono) simp_all
    then show "rnd32 0 \<le> rnd32 (fval ?m / pif)" "rnd32 (fval ?m / pif) \<le> rnd32 (?c / pif)"
      by (simp only: rnd32_mono)+
  qed
  moreover have "rnd32 (?c / pif) = 360"
    unfolding pif_def by code_simp
  ultimately show "fin (fdiv (fmul h (flit 180)) M_PI_F)"
    "0 \<le> fval (fdiv (fmul h (flit 180)) M_PI_F)"
    "fval (fdiv (fmul h (flit 180)) M_PI_F) \<le> 360"
    using d by (simp_all add: bdd_def)
qed

lemma computeHeadingDegrees_ok:
  assumes "libm_laws P" "fin mx" "fin my"
  obtains d where "computeHeadingDegrees P mx my mz s = Inr d" "bdd 360 d" "0 \<le> fval d"
proof -
  let ?a = "atan2f P my mx"
  have "bdd pif ?a"
    using assms by (simp add: libm_laws_def M_PI_F_pif)
  then have "bdd pif (fadd ?a (Fin 0))"
    using fadd_zero [of pif ?a] assms by (auto simp: libm_laws_def is_float_def bdd_def)
  then obtain h where h: "heading_up (fadd ?a (Fin 0)) = Some h" "fin h" "0 \<le> fval h" "fval h \<le> turn"
    by (rule heading_up_eq)
  obtain k where k: "heading_down h = Some k" "fin k" "0 \<le> fval k" "fval k < turn"
    using h(2-4) by (rule heading_down_eq)
  have "computeHeadingDegrees P mx my mz s = Inr (fdiv (fmul k (flit 180)) M_PI_F)"
    unfolding computeHeadingDegrees_def no_declination
    by (simp add: Let_def config h(1) k(1))
  then show thesis
    using that heading_degrees_bdd [OF k(2-4)] by (simp add: bdd_def)
qed

section \<open>The yaw estimate\<close>

lemma of_u32_pos:
  assumes d: "unat d = N" and N: "0 < N" "N \<le> 2 ^ n" "n \<le> 32"
  shows "bdd (2 ^ n) (of_u32 d)" "fval (of_u32 d) = rnd32 (of_nat N)" "1 \<le> fval (of_u32 d)"
proof -
  have u: "(of_int (uint d) :: rat) = of_nat N"
    unfolding d [symmetric] by simp
  have n1: "(1 :: rat) \<le> of_nat N"
    using N(1) by simp
  have "(of_nat N :: rat) \<le> of_nat (2 ^ n)"
    using N(2) by (simp only: of_nat_le_iff)
  then have n: "\<bar>of_nat N :: rat\<bar> \<le> 2 ^ n" by simp
  have "repr32 (2 ^ n)"
    using N(3) by (intro repr32_pow2) simp
  then show f: "bdd (2 ^ n) (of_u32 d)" "fval (of_u32 d) = rnd32 (of_nat N)"
    using mk_f32_bdd [OF n, of False] unfolding of_u32_def u by auto
  have "rnd32 1 \<le> rnd32 (of_nat N)"
    using n1 by (rule rnd32_mono)
  then show "1 \<le> fval (of_u32 d)"
    using repr32_1 by (simp add: f repr32_def)
qed

lemma dt_seconds:
  assumes "0 < unat d" "unat d < 2 ^ 30"
  shows "bdd (2 ^ 21) (fdiv (of_u32 d) (flit 1000))" "1 / 2 ^ 10 \<le> fval (fdiv (of_u32 d) (flit 1000))"
proof -
  have f: "bdd (2 ^ 30) (of_u32 d)" "1 \<le> fval (of_u32 d)"
    using of_u32_pos [OF refl, of d 30] assms by simp_all
  have q: "bdd (2 ^ 21) (fdiv (of_u32 d) (Fin 1000))"
    "fval (fdiv (of_u32 d) (Fin 1000)) = rnd32 (fval (of_u32 d) / 1000)"
    using fdiv_bdd [OF f(1), of "Fin 1000" 1000 "2 ^ 21"] by simp_all
  have "rnd32 (1 / 2 ^ 10) \<le> rnd32 (fval (of_u32 d) / 1000)"
    using f(2) by (intro rnd32_mono) simp
  moreover have "rnd32 (1 / 2 ^ 10) = 1 / 2 ^ 10"
    using repr32_half_int [of 1 10] by (simp add: repr32_def)
  ultimately have "1 / 2 ^ 10 \<le> fval (fdiv (of_u32 d) (Fin 1000))"
    using q(2) by simp
  then show "bdd (2 ^ 21) (fdiv (of_u32 d) (flit 1000))"
    "1 / 2 ^ 10 \<le> fval (fdiv (of_u32 d) (flit 1000))"
    using q(1) by simp_all
qed

text \<open>Milliseconds that are exact as a \<open>float\<close>: sharper bounds in seconds.\<close>

lemma dt_seconds_exact:
  assumes d: "unat d = N" and N: "0 < N" "N \<le> 2 ^ 20"
  shows "bdd (of_nat N / 512) (fdiv (of_u32 d) (flit 1000))"
    "fval (fdiv (of_u32 d) (flit 1000)) = rnd32 (of_nat N / 1000)"
proof -
  have f: "bdd (2 ^ 20) (of_u32 d)" "fval (of_u32 d) = rnd32 (of_nat N)"
    using of_u32_pos [OF d N(1), of 20] N(2) by simp_all
  moreover have "rnd32 (of_nat N) = of_nat N"
    using rnd32_of_int [of "int N"] N(2) by simp
  ultimately have n: "bdd (of_nat N) (of_u32 d)" "fval (of_u32 d) = of_nat N"
    by (simp_all add: bdd_def)
  have "repr32 (of_nat N / 512)"
    using repr32_half_int [of "int N" 9] N(2) by simp
  then show "bdd (of_nat N / 512) (fdiv (of_u32 d) (flit 1000))"
    "fval (fdiv (of_u32 d) (flit 1000)) = rnd32 (of_nat N / 1000)"
    using fdiv_bdd [OF n(1), of "Fin 1000" 1000 "of_nat N / 512"] n(2)
    by (simp_all add: divide_left_mono)
qed

text \<open>What keeps the estimate in range: angles in [-pi, pi], a turn rate below 32 rad/s.\<close>

definition yaw_ok :: "('n, 'w, 'a) sensors_scheme \<Rightarrow> bool" where
  "yaw_ok s \<longleftrightarrow> bdd (fval M_PI_F) (yaw_rad (orientation s)) \<and>
     (compass_data_valid s \<longrightarrow> bdd (fval M_PI_F) (compass_yaw_rad (compass_data s))) \<and>
     (imu_data_valid s \<longrightarrow> bdd 32 (gyro_z (imu_data s)))"

lemma gyro_prediction:
  assumes "bdd pif y" "bdd 32 g" "bdd (2 ^ 21) dt"
  shows "\<exists>z. normalizeAngleRad (fadd y (fmul g dt)) = Inr z \<and> bdd pif z"
proof -
  have y: "bdd (2 ^ 26) y"
    using assms(1) by (rule bdd_mono) (simp add: pif_def)
  have "bdd (2 ^ 26) (fmul g dt)"
    by (rule fmul_bdd(1) [OF assms(2,3)]) simp_all
  then have "bdd (2 ^ 27) (fadd y (fmul g dt))"
    by (rule fadd_bdd(1) [OF y]) simp_all
  then show ?thesis
    by (rule normalizeAngleRad_bdd) blast
qed

lemma complementary_filter:
  assumes "bdd pif y" "bdd pif c"
  shows "\<exists>z. normalizeAngleRad (fadd (fmul YAW_COMPLEMENTARY_ALPHA y)
    (fmul (fsub (flit 1) YAW_COMPLEMENTARY_ALPHA) c)) = Inr z \<and> bdd pif z"
proof -
  have a: "bdd 1 YAW_COMPLEMENTARY_ALPHA"
    by (simp add: config_f32)
  have b: "bdd 1 (fsub (flit 1) YAW_COMPLEMENTARY_ALPHA)"
    by code_simp
  have "bdd 4 (fmul YAW_COMPLEMENTARY_ALPHA y)"
    "bdd 4 (fmul (fsub (flit 1) YAW_COMPLEMENTARY_ALPHA) c)"
    using fmul_bdd(1) [OF a assms(1), of 4] fmul_bdd(1) [OF b assms(2), of 4] pif_bounds by simp_all
  then have "bdd (2 ^ 27) (fadd (fmul YAW_COMPLEMENTARY_ALPHA y)
      (fmul (fsub (flit 1) YAW_COMPLEMENTARY_ALPHA) c))"
    by (rule fadd_bdd(1)) simp_all
  then show ?thesis
    by (rule normalizeAngleRad_bdd) blast
qed

lemma updateYawEstimate_ok:
  assumes "yaw_ok s" "unat (elapsed now_ms (last_update_ms (orientation s))) < 2 ^ 30"
  shows "\<exists>s'. updateYawEstimate now_ms s = Inr s' \<and> yaw_ok s' \<and>
    (imu_data_valid s \<or> compass_data_valid s \<longrightarrow> initialized (orientation s'))"
proof (cases "imu_data_valid s \<or> compass_data_valid s")
  case False
  then show ?thesis
    using assms(1) by (auto simp: updateYawEstimate_def)
next
  case valid: True
  let ?o = "orientation s"
  show ?thesis
  proof (cases "initialized ?o \<and> last_update_ms ?o < now_ms")
    case False
    then show ?thesis
      using valid assms(1) by (auto simp: updateYawEstimate_def yaw_ok_def Let_def not_less)
  next
    case True
    let ?d = "elapsed now_ms (last_update_ms ?o)"
    let ?dt = "fdiv (of_u32 ?d) (flit 1000)"
    have "?d \<noteq> 0"
      using True by (auto simp: elapsed_def)
    then have dt: "bdd (2 ^ 21) ?dt" "1 / 2 ^ 10 \<le> fval ?dt"
      using dt_seconds [of ?d] assms(2) by (simp_all add: unat_gt_0)
    then have pos: "\<not> fle ?dt (flit 0)"
      by (auto simp: bdd_def)
    have y: "bdd pif (yaw_rad ?o)" and g: "imu_data_valid s \<Longrightarrow> bdd 32 (gyro_z (imu_data s))"
      and c: "compass_data_valid s \<Longrightarrow> bdd pif (compass_yaw_rad (compass_data s))"
      using assms(1) by (auto simp: yaw_ok_def M_PI_F_pif)
    let ?pred = "if imu_data_valid s
      then normalizeAngleRad (fadd (yaw_rad ?o) (fmul (gyro_z (imu_data s)) ?dt))
      else Inr (yaw_rad ?o)"
    obtain p where p: "?pred = Inr p" "bdd pif p"
      using gyro_prediction [OF y g dt(1)] y by (cases "imu_data_valid s") auto
    obtain z where z: "compass_data_valid s \<Longrightarrow> normalizeAngleRad
        (fadd (fmul YAW_COMPLEMENTARY_ALPHA p)
           (fmul (fsub (flit 1) YAW_COMPLEMENTARY_ALPHA) (compass_yaw_rad (compass_data s)))) = Inr z"
      "compass_data_valid s \<Longrightarrow> bdd pif z"
      using complementary_filter [OF p(2) c] by (cases "compass_data_valid s") auto
    have v: "(\<not> imu_data_valid s \<and> \<not> compass_data_valid s) = False"
      and y': "yaw_rad (?o\<lparr>last_update_ms := now_ms\<rparr>) = yaw_rad ?o"
      using valid by auto
    have "updateYawEstimate now_ms s = Inr (s\<lparr>orientation := ?o\<lparr>last_update_ms := now_ms,
        yaw_rad := (if compass_data_valid s then z else p)\<rparr>\<rparr>)"
    proof -
      have "updateYawEstimate now_ms s = bind_res ?pred (\<lambda>g.
          if compass_data_valid s then
            bind_res (normalizeAngleRad (fadd (fmul YAW_COMPLEMENTARY_ALPHA g)
                (fmul (fsub (flit 1) YAW_COMPLEMENTARY_ALPHA) (compass_yaw_rad (compass_data s)))))
              (\<lambda>y. Inr (s\<lparr>orientation := ?o\<lparr>last_update_ms := now_ms, yaw_rad := y\<rparr>\<rparr>))
          else Inr (s\<lparr>orientation := ?o\<lparr>last_update_ms := now_ms, yaw_rad := g\<rparr>\<rparr>))"
        using True v pos y' unfolding updateYawEstimate_def Let_def
        by (simp only: not_le [symmetric] if_True if_False not_False_eq_True simp_thms)
      then show ?thesis
        using p(1) z(1) by (simp split: if_split)
    qed
    then show ?thesis
      using True assms(1) p(2) z(2) by (auto simp: yaw_ok_def M_PI_F_pif)
  qed
qed

text \<open>The yaw estimate stays an angle. While the turn rate is below 32 rad/s and readings are
  less than 2^30 ms apart, \<open>updateYawEstimate\<close> always returns and keeps the estimate finite and in
  [-pi, pi], on every path: first reading, gyroscope only, compass only, both.\<close>

theorem updateYawEstimate_in_range:
  assumes "yaw_ok s" "unat (elapsed now_ms (last_update_ms (orientation s))) < 2 ^ 30"
  shows "\<exists>s'. updateYawEstimate now_ms s = Inr s' \<and> yaw_ok s' \<and>
    (imu_data_valid s \<or> compass_data_valid s \<longrightarrow> initialized (orientation s'))"
  by (rule updateYawEstimate_ok [OF assms])

section \<open>Compass readings\<close>

text \<open>The QMC5883 registers hold a 16-bit two's complement number, low byte first.\<close>

lemma qmc_axis_value:
  "qmc_axis hi lo = (let v = 256 * uint hi + uint lo in if v < 2 ^ 15 then v else v - 2 ^ 16)"
proof -
  have "uint (push_bit 8 (ucast hi :: u32) OR ucast lo) < 65536"
    unfolding uint_bytes using uint_lt2p [of hi] uint_lt2p [of lo] by simp
  then show ?thesis
    by (simp only: qmc_axis_def Let_def sint_ucast_16 uint_bytes)
qed

lemma qmc_axis_bound: "\<bar>qmc_axis hi lo\<bar> \<le> 2 ^ 15"
  using uint_lt2p [of hi] uint_lt2p [of lo] by (auto simp: qmc_axis_value Let_def)

lemma qmc_sample_bdd: "bdd 4096 (fmul (of_i32 (qmc_axis hi lo)) QMC_LSB_TO_UT)"
proof -
  have "bdd 32768 (of_i32 (qmc_axis hi lo))"
    using qmc_axis_bound [of hi lo] by (simp add: of_i32_small flip: of_int_abs)
  moreover have "bdd (1 / 8) QMC_LSB_TO_UT"
    by (simp add: config_f32)
  ultimately show ?thesis
    by (rule fmul_bdd(1)) simp_all
qed

text \<open>A device that answers: status byte and six data bytes.\<close>

lemma length_read_bytes: "length (fst (read_bytes P n w)) = n"
  by (induction n arbitrary: w) (simp_all split: prod.splits, metis fst_conv)

lemma readI2cRegisters_length:
  "readI2cRegisters P address r n w = (Some bs, w') \<Longrightarrow> length bs = n"
  by (auto simp: readI2cRegisters_def split: prod.splits if_splits)
    (metis fst_conv length_read_bytes)

lemma and_1_bit: "x AND QMC_STATUS_DATA_READY = 0 \<longleftrightarrow> \<not> bit x 0"
  by (simp add: config and_one_eq mod_2_eq_odd bit_0)

text \<open>Every sample the QMC5883 driver returns is finite and at most 4096 uT on each axis, the
  raw two's complement value of its register pair times \<open>QMC_LSB_TO_UT\<close>; when the bus reports an
  error, delivers too few bytes, or the data-ready bit is clear, no sample is returned.\<close>

theorem readQmc5883MagneticField_sound:
  "case fst (readQmc5883MagneticField P w) of
     None \<Rightarrow> True
   | Some (x, y, z) \<Rightarrow>
       bdd 4096 x \<and> bdd 4096 y \<and> bdd 4096 z \<and>
       (\<exists>w1 w2 status raw.
          readI2cRegisters P QMC5883_I2C_ADDR QMC_REG_STATUS 1 w = (Some [status], w1) \<and>
          bit status 0 \<and>
          readI2cRegisters P QMC5883_I2C_ADDR QMC_REG_X_LSB 6 w1 = (Some raw, w2) \<and>
          length raw = 6 \<and>
          (let value = \<lambda>i. 256 * uint (raw ! (i + 1)) + uint (raw ! i);
               int16 = \<lambda>v. if v < 2 ^ 15 then v else v - 2 ^ 16
           in x = fmul (of_i32 (int16 (value 0))) QMC_LSB_TO_UT \<and>
              y = fmul (of_i32 (int16 (value 2))) QMC_LSB_TO_UT \<and>
              z = fmul (of_i32 (int16 (value 4))) QMC_LSB_TO_UT))"
proof (cases "readQmc5883MagneticField P w")
  case (Pair m w')
  show ?thesis
  proof (cases m)
    case (Some v)
    obtain st w1 where st: "readI2cRegisters P QMC5883_I2C_ADDR QMC_REG_STATUS 1 w = (Some st, w1)"
      using Pair Some by (auto simp: readQmc5883MagneticField_def split: prod.splits option.splits)
    obtain b where b: "st = [b]"
      using readI2cRegisters_length [OF st] by (cases st) auto
    have ready: "bit b 0"
      using Pair Some st b by (auto simp: readQmc5883MagneticField_def and_1_bit split: if_splits)
    obtain raw w2 where raw: "readI2cRegisters P QMC5883_I2C_ADDR QMC_REG_X_LSB 6 w1 = (Some raw, w2)"
      using Pair Some st b ready
      by (auto simp: readQmc5883MagneticField_def and_1_bit split: prod.splits option.splits)
    have len: "length raw = 6"
      using readI2cRegisters_length [OF raw] .
    have v: "v = (fmul (of_i32 (qmc_axis (raw ! 1) (raw ! 0))) QMC_LSB_TO_UT,
        fmul (of_i32 (qmc_axis (raw ! 3) (raw ! 2))) QMC_LSB_TO_UT,
        fmul (of_i32 (qmc_axis (raw ! 5) (raw ! 4))) QMC_LSB_TO_UT)"
      using Pair Some st b ready raw by (simp add: readQmc5883MagneticField_def and_1_bit)
    show ?thesis
      using Pair Some st b ready raw len qmc_sample_bdd
      by (simp add: v) (simp add: qmc_axis_value Let_def)
  qed (simp add: Pair)
qed

lemma readCompassData_ok:
  assumes laws: "libm_laws P" and ok: "yaw_ok s"
  shows "\<exists>s'. readCompassData P now_ms s = Inr s' \<and> yaw_ok s'"
proof (cases "compass_present s \<and>
    \<not> elapsed now_ms (compass_last_read_ms (compass_data s)) < COMPASS_READ_PERIOD_MS")
  case False
  then show ?thesis
    using ok by (auto simp: readCompassData_def)
next
  case True
  let ?r = "if compass_using_qmc s then readQmc5883MagneticField P (bus s)
     else case hmc_getEvent P (bus s) of (m, w) \<Rightarrow> (Some m, w)"
  obtain m w where r: "?r = (m, w)"
    by (cases ?r)
  show ?thesis
  proof (cases m)
    case None
    then have "readCompassData P now_ms s = Inr (s\<lparr>bus := w\<rparr>)"
      using True r unfolding readCompassData_def Let_def by simp
    then show ?thesis
      using ok by (simp add: yaw_ok_def)
  next
    case (Some v)
    obtain x y z where v: "v = (x, y, z)"
      by (cases v)
    let ?c = "mag_cal_sample (x, y, z) (mag_cal s)"
    let ?x = "fsub x (offset_x ?c)" and ?y = "fsub y (offset_y ?c)" and ?z = "fsub z (offset_z ?c)"
    let ?s = "s\<lparr>bus := w, mag_cal := ?c\<rparr>"
    show ?thesis
    proof (cases "fin ?x \<and> fin ?y \<and> fin ?z")
      case False
      then have "isnan ?x \<or> isnan ?y \<or> isnan ?z \<or> isinf ?x \<or> isinf ?y \<or> isinf ?z"
        using fin_cases by blast
      then have "readCompassData P now_ms s = Inr (?s\<lparr>compass_data_valid := False\<rparr>)"
        using True r Some v unfolding readCompassData_def Let_def by simp
      then show ?thesis
        using ok by (simp add: yaw_ok_def)
    next
      case fin: True
      have "bdd pif (atan2f P ?y ?x)"
        using laws fin by (simp add: libm_laws_def M_PI_F_pif)
      then have "bdd (2 ^ 27) (atan2f P ?y ?x)"
        by (rule bdd_mono) (simp add: pif_def)
      then obtain yaw where yaw: "normalizeAngleRad (atan2f P ?y ?x) = Inr yaw" "bdd pif yaw"
        by (rule normalizeAngleRad_bdd)
      obtain hdg where "computeHeadingDegrees P ?x ?y ?z ?s = Inr hdg"
        using computeHeadingDegrees_ok [OF laws, of ?x ?y ?z ?s] fin by blast
      then show ?thesis
        using True r Some v fin yaw ok unfolding readCompassData_def Let_def
        by (simp add: yaw_ok_def M_PI_F_pif)
    qed
  qed
qed

section \<open>Calibration\<close>

text \<open>\<open>box lo hi xs\<close>: two of the samples, below and above every sample.\<close>

definition box :: "f32 \<Rightarrow> f32 \<Rightarrow> f32 list \<Rightarrow> bool" where
  "box lo hi xs \<longleftrightarrow> lo \<in> set xs \<and> hi \<in> set xs \<and> (\<forall>x \<in> set xs. fle lo x \<and> fle x hi)"

lemma box_single: "\<not> isnan x \<Longrightarrow> box x x [x]"
  by (simp add: box_def fle_refl)

lemma box_step:
  assumes "box lo hi xs" "\<not> isnan x" "\<forall>y \<in> set xs. \<not> isnan y"
  shows "box (fmin lo x) (fmax hi x) (x # xs)"
proof -
  have b: "lo \<in> set xs" "hi \<in> set xs" and le: "\<And>y. y \<in> set xs \<Longrightarrow> fle lo y \<and> fle y hi"
    using assms(1) by (auto simp: box_def)
  have nn: "\<not> isnan lo" "\<not> isnan hi"
    using b assms(3) by auto
  have "fle (fmin lo x) lo" "fle (fmin lo x) x" "fle hi (fmax hi x)" "fle x (fmax hi x)"
    using nn assms(2) not_flt_fle [of lo x] not_flt_fle [of x hi]
    by (auto simp: fmin_def fmax_def fle_refl flt_imp_fle)
  then have "\<forall>y \<in> set (x # xs). fle (fmin lo x) y \<and> fle y (fmax hi x)"
    using le fle_trans by auto
  moreover have "fmin lo x \<in> set (x # xs)" "fmax hi x \<in> set (x # xs)"
    using b by (auto simp: fmin_def fmax_def)
  ultimately show ?thesis
    by (simp add: box_def)
qed

definition no_nan :: "(f32 \<times> f32 \<times> f32) list \<Rightarrow> bool" where
  "no_nan ms \<longleftrightarrow> (\<forall>m \<in> set ms. \<not> isnan (fst m) \<and> \<not> isnan (fst (snd m)) \<and> \<not> isnan (snd (snd m)))"

definition cal_box :: "(f32 \<times> f32 \<times> f32) list \<Rightarrow> mag_calibration_state \<Rightarrow> bool" where
  "cal_box ms c \<longleftrightarrow> active c \<and> has_samples c \<and>
     box (min_x c) (max_x c) (map fst ms) \<and>
     box (min_y c) (max_y c) (map (fst \<circ> snd) ms) \<and>
     box (min_z c) (max_z c) (map (snd \<circ> snd) ms)"

lemma mag_cal_first:
  "active c \<Longrightarrow> \<not> has_samples c \<Longrightarrow> no_nan [m] \<Longrightarrow> cal_box [m] (mag_cal_sample m c)"
  by (cases m) (auto simp: cal_box_def mag_cal_sample_def no_nan_def box_single)

lemma mag_cal_next:
  "cal_box ms c \<Longrightarrow> no_nan (m # ms) \<Longrightarrow> cal_box (m # ms) (mag_cal_sample m c)"
  by (cases m) (auto simp: cal_box_def mag_cal_sample_def no_nan_def intro!: box_step)

lemma mag_cal_fold:
  "cal_box ms c \<Longrightarrow> no_nan (ns @ ms) \<Longrightarrow> cal_box (rev ns @ ms) (fold mag_cal_sample ns c)"
proof (induction ns arbitrary: ms c)
  case (Cons n ns)
  then have "cal_box (n # ms) (mag_cal_sample n c)"
    by (intro mag_cal_next) (auto simp: no_nan_def)
  then show ?case
    using Cons.IH [of "n # ms"] Cons.prems(2) by (auto simp: no_nan_def)
qed simp

lemma mag_cal_run:
  assumes "active c" "\<not> has_samples c" "no_nan ms" "ms \<noteq> []"
  shows "cal_box (rev ms) (fold mag_cal_sample ms c)"
proof -
  obtain n ns where ms: "ms = n # ns"
    using assms(4) by (cases ms) auto
  have "cal_box [n] (mag_cal_sample n c)"
    using assms ms by (intro mag_cal_first) (auto simp: no_nan_def)
  then show ?thesis
    using mag_cal_fold [of "[n]" _ ns] assms(3) by (auto simp: ms no_nan_def)
qed

lemma fold_mag_cal_keeps:
  "active (fold mag_cal_sample ms c) = active c"
  by (induction ms arbitrary: c) (auto simp: mag_cal_sample_def split: prod.splits)

text \<open>The two centre coordinates of a box of samples.\<close>

definition centred :: "f32 \<Rightarrow> f32 list \<Rightarrow> bool" where
  "centred mid xs \<longleftrightarrow> (\<exists>lo hi. box lo hi xs \<and> fval lo \<le> fval mid \<and> fval mid \<le> fval hi \<and>
     mid = fmul (flit (5 / 10)) (fadd hi lo))"

definition good_sample :: "f32 \<Rightarrow> bool" where
  "good_sample x \<longleftrightarrow> bdd (2 ^ 100) x \<and> is_float x"

lemma box_rev [simp]: "box lo hi (rev xs) = box lo hi xs"
  by (simp add: box_def)

lemma box_centred:
  assumes "box lo hi xs" "\<forall>x \<in> set xs. good_sample x"
  shows "centred (fmul (flit (5 / 10)) (fadd hi lo)) xs"
proof -
  have "good_sample lo" "good_sample hi" "fle lo hi"
    using assms by (auto simp: box_def)
  then have "fval lo \<le> fval hi"
    by (auto simp: good_sample_def bdd_def)
  then have "fval lo \<le> fval (fmul (flit (1 / 2)) (fadd hi lo))"
    "fval (fmul (flit (1 / 2)) (fadd hi lo)) \<le> fval hi"
    using midpoint_between [of lo hi] \<open>good_sample lo\<close> \<open>good_sample hi\<close>
    by (simp_all add: good_sample_def)
  then show ?thesis
    using assms(1) by (auto simp: centred_def)
qed

lemma startMagCalibration_cal:
  "mag_cal (startMagCalibration t s) =
     (mag_cal s)\<lparr>active := True, calibration_done := False, has_samples := False, start_ms := t\<rparr>"
  by (simp add: startMagCalibration_def setTargetsFromCmdVel_def Let_def emit_def)

lemma finishMagCalibration_cal:
  assumes "active (mag_cal s)" "has_samples (mag_cal s)"
  shows "mag_cal (finishMagCalibration P b s) = (mag_cal s)\<lparr>active := False, calibration_done := True,
     offset_x := fmul (flit (5 / 10)) (fadd (max_x (mag_cal s)) (min_x (mag_cal s))),
     offset_y := fmul (flit (5 / 10)) (fadd (max_y (mag_cal s)) (min_y (mag_cal s))),
     offset_z := fmul (flit (5 / 10)) (fadd (max_z (mag_cal s)) (min_z (mag_cal s)))\<rparr>"
  using assms by (simp add: finishMagCalibration_def Let_def millis_def emit_def
      saveMagOffsetsToNvs_def split: prod.splits)

lemma finishMagCalibration_targets:
  "active (mag_cal s) \<Longrightarrow> m1_target_rpm (finishMagCalibration P b s) = Fin 0 \<and>
     m2_target_rpm (finishMagCalibration P b s) = Fin 0 \<and>
     \<not> active (mag_cal (finishMagCalibration P b s))"
  by (simp add: finishMagCalibration_def Let_def millis_def emit_def
      saveMagOffsetsToNvs_def split: prod.splits)

lemma fst_comp_map: "map (\<lambda>x. fst (snd x)) ms = map (fst \<circ> snd) ms"
  "map (\<lambda>x. snd (snd x)) ms = map (snd \<circ> snd) ms"
  by simp_all

text \<open>Hard-iron calibration is right. From \<open>startMagCalibration\<close>, over any non-empty sequence
  of finite samples, to \<open>finishMagCalibration\<close>: on each axis the recorded minimum and maximum are
  the least and greatest sample, the stored offset is their computed midpoint and lies between
  them, the calibration is over and the wheels are told to stop.\<close>

theorem mag_calibration_offsets:
  assumes "ms \<noteq> []" "\<forall>(x, y, z) \<in> set ms. good_sample x \<and> good_sample y \<and> good_sample z"
    and "mag_cal s' = fold mag_cal_sample ms (mag_cal (startMagCalibration t s))"
  shows "let s'' = finishMagCalibration P b s' in
     centred (offset_x (mag_cal s'')) (map fst ms) \<and>
     centred (offset_y (mag_cal s'')) (map (fst \<circ> snd) ms) \<and>
     centred (offset_z (mag_cal s'')) (map (snd \<circ> snd) ms) \<and>
     calibration_done (mag_cal s'') \<and> \<not> active (mag_cal s'') \<and>
     m1_target_rpm s'' = Fin 0 \<and> m2_target_rpm s'' = Fin 0"
proof -
  have "no_nan ms"
    using assms(2) by (fastforce simp: no_nan_def good_sample_def bdd_def)
  then have "cal_box (rev ms) (mag_cal s')"
    unfolding assms(3) using assms(1) by (intro mag_cal_run) (simp_all add: startMagCalibration_cal)
  then have c: "active (mag_cal s')" "has_samples (mag_cal s')"
    and b: "box (min_x (mag_cal s')) (max_x (mag_cal s')) (map fst ms)"
      "box (min_y (mag_cal s')) (max_y (mag_cal s')) (map (fst \<circ> snd) ms)"
      "box (min_z (mag_cal s')) (max_z (mag_cal s')) (map (snd \<circ> snd) ms)"
    by (simp_all add: cal_box_def rev_map [symmetric])
  have g: "\<forall>x \<in> set (map fst ms). good_sample x" "\<forall>x \<in> set (map (fst \<circ> snd) ms). good_sample x"
    "\<forall>x \<in> set (map (snd \<circ> snd) ms). good_sample x"
    using assms(2) by auto
  show ?thesis
    using box_centred [OF b(1) g(1)] box_centred [OF b(2) g(2)] box_centred [OF b(3) g(3)]
      finishMagCalibration_targets [OF c(1), of P b]
    by (simp add: Let_def finishMagCalibration_cal [OF c])
qed

lemma nan_sticks_in_box:
  "min_x c = NaN \<Longrightarrow> max_x c = NaN \<Longrightarrow> has_samples c \<Longrightarrow>
   min_x (fold mag_cal_sample ms c) = NaN \<and> max_x (fold mag_cal_sample ms c) = NaN \<and>
   has_samples (fold mag_cal_sample ms c)"
  by (induction ms arbitrary: c)
    (auto simp: mag_cal_sample_def fmin_def fmax_def split: prod.splits)

text \<open>A NaN in the first sample of a calibration spoils the compass: the extrema are taken
  before the sample is checked, so whatever samples follow, the stored offset is a NaN, and every
  later HMC5883L reading that is due is rejected and marks the compass invalid.\<close>

theorem mag_calibration_nan:
  assumes "mag_cal s' = fold mag_cal_sample ((NaN, y, z) # ms) (mag_cal (startMagCalibration t s))"
    and "compass_present u" "\<not> compass_using_qmc u"
    and "\<not> elapsed now_ms (compass_last_read_ms (compass_data u)) < COMPASS_READ_PERIOD_MS"
    and "mag_cal u = mag_cal (finishMagCalibration P b s')"
  shows "offset_x (mag_cal (finishMagCalibration P b s')) = NaN \<and>
    (\<exists>u'. readCompassData Q now_ms u = Inr u' \<and> \<not> compass_data_valid u' \<and>
       compass_data u' = compass_data u)"
proof -
  let ?c = "mag_cal_sample (NaN, y, z) (mag_cal (startMagCalibration t s))"
  have c: "min_x ?c = NaN" "max_x ?c = NaN" "has_samples ?c" "active ?c"
    by (simp_all add: mag_cal_sample_def startMagCalibration_cal)
  then have "min_x (mag_cal s') = NaN" "has_samples (mag_cal s')" "active (mag_cal s')"
    using nan_sticks_in_box [of ?c ms] fold_mag_cal_keeps [of ms ?c] assms(1) by simp_all
  then have off: "offset_x (mag_cal (finishMagCalibration P b s')) = NaN"
    and inactive: "\<not> active (mag_cal (finishMagCalibration P b s'))"
    by (simp_all add: finishMagCalibration_cal)
  obtain x y z w where ev: "hmc_getEvent Q (bus u) = ((x, y, z), w)"
    by (metis prod_cases3 prod.exhaust)
  have s: "mag_cal_sample (x, y, z) (mag_cal u) = mag_cal u"
    using inactive assms(5) by (simp add: mag_cal_sample_def)
  have "readCompassData Q now_ms u = Inr (u\<lparr>bus := w, mag_cal := mag_cal u, compass_data_valid := False\<rparr>)"
    using assms(2-4) ev off s unfolding readCompassData_def Let_def by (simp add: assms(5))
  then show ?thesis
    using off by simp
qed

section \<open>Instances\<close>

text \<open>
  A platform that obeys every law stated of the parameters: the storage of \<open>map_prefs\<close>, a bus
  whose HMC5883L yields a list of samples, an inertial unit at rest, and constant functions for
  the mathematical ones.
\<close>

definition sim_platform :: "(map_nvs, (f32 \<times> f32 \<times> f32) list) platform" where
  "sim_platform = \<lparr>pf_begin = pf_begin map_prefs, pf_isKey = pf_isKey map_prefs,
     pf_getFloat = pf_getFloat map_prefs, pf_putFloat = pf_putFloat map_prefs,
     pf_end = pf_end map_prefs,
     sinf = (\<lambda>x. Fin 0), cosf = (\<lambda>x. Fin 1), atan2f = (\<lambda>y x. Fin 0), sqrtf = (\<lambda>x. Fin 0),
     wire_beginTransmission = (\<lambda>a w. w), wire_write = (\<lambda>b w. w),
     wire_endTransmission = (\<lambda>b w. (2, w)), wire_requestFrom = (\<lambda>a n b w. (0, w)),
     wire_read = (\<lambda>w. (- 1, w)), lsm_begin = (\<lambda>a w. (True, w)),
     lsm_getEvent = (\<lambda>w. (Some \<lparr>ev_accel = (Fin 0, Fin 0, Fin 9), ev_gyro = (Fin 0, Fin 0, Fin 0)\<rparr>, w)),
     hmc_begin = (\<lambda>w. (True, w)),
     hmc_getEvent = (\<lambda>w. case w of [] \<Rightarrow> ((Fin 0, Fin 0, Fin 0), []) | m # ms \<Rightarrow> (m, ms))\<rparr>"

lemma sim_platform_laws: "libm_laws sim_platform" "prefs_laws sim_platform fst snd"
  using pif_bounds map_prefs_laws
  by (simp_all add: libm_laws_def sim_platform_def is_float_def M_PI_F_pif prefs_laws_def)

theorem updateYawEstimate_in_range_witness:
  "let s = power_on_sensors (\<lambda>_. 0) (\<lambda>_ _. None, None) [] :: (map_nvs, (f32 \<times> f32 \<times> f32) list) sensors
   in \<exists>s'. updateYawEstimate 20 (s\<lparr>imu_data_valid := True\<rparr>) = Inr s' \<and> yaw_ok s' \<and>
     initialized (orientation s')"
proof -
  let ?s = "power_on_sensors (\<lambda>_. 0) (\<lambda>_ _. None, None) []\<lparr>imu_data_valid := True\<rparr>
    :: (map_nvs, (f32 \<times> f32 \<times> f32) list) sensors"
  have "yaw_ok ?s" "unat (elapsed 20 (last_update_ms (orientation ?s))) < 2 ^ 30"
    using pif_bounds by (simp_all add: yaw_ok_def power_on_sensors_def init_orientation_def
        init_imu_data_def M_PI_F_pif elapsed_def)
  from updateYawEstimate_in_range [OF this] show ?thesis
    by (simp add: Let_def)
qed

theorem mag_calibration_offsets_witness:
  "let s = power_on_sensors (\<lambda>_. 0) (\<lambda>_ _. None, None) [] :: (map_nvs, unit list) sensors;
       s1 = startMagCalibration 5 s;
       s2 = s1\<lparr>mag_cal := fold mag_cal_sample [(Fin 1, Fin 2, Fin 3), (Fin 3, Fin 6, Fin 9)] (mag_cal s1)\<rparr>
   in centred (offset_x (mag_cal (finishMagCalibration map_prefs True s2))) [Fin 1, Fin 3]"
proof -
  let ?s = "power_on_sensors (\<lambda>_. 0) (\<lambda>_ _. None, None) [] :: (map_nvs, unit list) sensors"
  let ?ms = "[(Fin 1, Fin 2, Fin 3), (Fin 3, Fin 6, Fin 9)]"
  let ?s2 = "(startMagCalibration 5 ?s)
    \<lparr>mag_cal := fold mag_cal_sample ?ms (mag_cal (startMagCalibration 5 ?s))\<rparr>"
  have "?ms \<noteq> []" "\<forall>(x, y, z) \<in> set ?ms. good_sample x \<and> good_sample y \<and> good_sample z"
    "mag_cal ?s2 = fold mag_cal_sample ?ms (mag_cal (startMagCalibration 5 ?s))"
    by (simp_all add: good_sample_def is_float_def)
  from mag_calibration_offsets [OF this, of map_prefs True] show ?thesis
    by (simp add: Let_def)
qed

theorem mag_calibration_nan_witness:
  "let s = power_on_sensors (\<lambda>_. 0) (\<lambda>_ _. None, None) [(Fin 1, Fin 1, Fin 1)];
       s1 = startMagCalibration 5 s;
       s2 = s1\<lparr>mag_cal := fold mag_cal_sample [(NaN, Fin 2, Fin 3), (Fin 3, Fin 6, Fin 9)] (mag_cal s1)\<rparr>;
       u = s\<lparr>compass_present := True,
              mag_cal := mag_cal (finishMagCalibration sim_platform True s2)\<rparr>
   in \<exists>u'. readCompassData sim_platform 100 u = Inr u' \<and> \<not> compass_data_valid u'"
proof -
  let ?s = "power_on_sensors (\<lambda>_. 0) (\<lambda>_ _. None, None) [(Fin 1, Fin 1, Fin 1)]
    :: (map_nvs, (f32 \<times> f32 \<times> f32) list) sensors"
  let ?s1 = "startMagCalibration 5 ?s"
  let ?s2 = "?s1\<lparr>mag_cal := fold mag_cal_sample [(NaN, Fin 2, Fin 3), (Fin 3, Fin 6, Fin 9)] (mag_cal ?s1)\<rparr>"
  let ?u = "?s\<lparr>compass_present := True,
    mag_cal := mag_cal (finishMagCalibration sim_platform True ?s2)\<rparr>"
  have "mag_cal ?s2 = fold mag_cal_sample ((NaN, Fin 2, Fin 3) # [(Fin 3, Fin 6, Fin 9)]) (mag_cal ?s1)"
    "compass_present ?u" "\<not> compass_using_qmc ?u"
    "\<not> elapsed 100 (compass_last_read_ms (compass_data ?u)) < COMPASS_READ_PERIOD_MS"
    "mag_cal ?u = mag_cal (finishMagCalibration sim_platform True ?s2)"
    by (simp_all add: power_on_sensors_def init_compass_data_def elapsed_def config)
  from mag_calibration_nan [OF this, of sim_platform] show ?thesis
    by (auto simp: Let_def)
qed

end
