(* ===== verification/Odometry.thy ===== *)
theory Odometry
  imports Imu
begin

text \<open>
  \<open>firmware/src/odometry.cpp\<close>: one control step. It estimates the wheel speeds from the
  encoder counts, integrates the pose, stops the motors when no command has arrived for
  \<open>CMD_TIMEOUT_MS\<close>, and otherwise runs both PID controllers and the kick start. The
  function's \<open>static\<close> variables are fields of the state.
\<close>

record odom_state =
  x_m :: f32
  y_m :: f32
  theta_rad :: f32
  linear_mps :: f32
  angular_radps :: f32

definition init_odom :: odom_state where
  "init_odom = \<lparr>x_m = Fin 0, y_m = Fin 0, theta_rad = Fin 0, linear_mps = Fin 0,
     angular_radps = Fin 0\<rparr>"

record ('n, 'w) robot = "('n, 'w) sensors" +
  odom :: odom_state
  m1_measured_rpm :: f32
  m2_measured_rpm :: f32
  prev_m1_count :: int
  prev_m2_count :: int
  accum_m1_delta :: int
  accum_m2_delta :: int
  accum_dt_ms :: u32
  prev_cmd_active :: bool
  kickstart_ms :: u32

section \<open>The parts of a control step\<close>

text \<open>\<open>abs\<close> of an \<open>int32_t\<close>, undefined on the least value.\<close>

definition abs32 :: "int \<Rightarrow> int res" where
  "abs32 n = chk32 \<bar>n\<bar>"

text \<open>The largest plausible number of edges in a step, and the filtered edge difference.\<close>

definition max_counts :: "f32 \<Rightarrow> f32" where
  "max_counts dt_s =
     fadd (fmul (fmul (fmul (fdiv MAX_PLAUSIBLE_RPM (flit 60)) COUNTS_PER_OUTPUT_REV) dt_s)
             (flit (15 / 10))) (flit 1)"

definition plausible_delta :: "int \<Rightarrow> int \<Rightarrow> int \<Rightarrow> int res" where
  "plausible_delta max_delta_counts count prev =
     bind_res (chk32 (count - prev)) (\<lambda>delta.
     bind_res (abs32 delta) (\<lambda>a. Inr (if a > max_delta_counts then 0 else delta)))"

definition countEdges :: "u32 \<Rightarrow> ('n, 'w, 'a) robot_scheme \<Rightarrow> ('n, 'w, 'a) robot_scheme res" where
  "countEdges dt_ms s =
     (let dt_s = fdiv (of_u32 dt_ms) (flit 1000) in
      bind_res (to_i32 (max_counts dt_s)) (\<lambda>max_delta_counts.
      bind_res (plausible_delta max_delta_counts (m1_encoder_count s) (prev_m1_count s)) (\<lambda>m1_delta.
      bind_res (plausible_delta max_delta_counts (m2_encoder_count s) (prev_m2_count s)) (\<lambda>m2_delta.
      bind_res (chk32 (accum_m1_delta s + m1_delta)) (\<lambda>a1.
      bind_res (chk32 (accum_m2_delta s + m2_delta)) (\<lambda>a2.
        Inr (s\<lparr>prev_m1_count := m1_encoder_count s, prev_m2_count := m2_encoder_count s,
               accum_m1_delta := a1, accum_m2_delta := a2,
               accum_dt_ms := accum_dt_ms s + dt_ms\<rparr>)))))))"

text \<open>A new speed estimate of one wheel from its accumulated edges.\<close>

definition plausible_rpm :: "f32 \<Rightarrow> f32" where
  "plausible_rpm rpm_raw = (if fgt (fabsf rpm_raw) MAX_PLAUSIBLE_RPM then flit 0 else rpm_raw)"

definition lowpass :: "f32 \<Rightarrow> f32 \<Rightarrow> f32" where
  "lowpass rpm_raw old =
     fadd (fmul SPEED_LPF_ALPHA rpm_raw) (fmul (fsub (flit 1) SPEED_LPF_ALPHA) old)"

definition denoise :: "f32 \<Rightarrow> f32" where
  "denoise rpm = (if flt (fabsf rpm) RPM_NOISE_EPS then flit 0 else rpm)"

definition rpm_factor :: "u32 \<Rightarrow> f32" where
  "rpm_factor window_ms =
     fdiv (fdiv (flit 60) COUNTS_PER_OUTPUT_REV) (fdiv (of_u32 window_ms) (flit 1000))"

definition estimateSpeeds :: "('n, 'w, 'a) robot_scheme \<Rightarrow> ('n, 'w, 'a) robot_scheme" where
  "estimateSpeeds s =
     (let s = (if RPM_ESTIMATION_WINDOW_MS \<le> accum_dt_ms s then
                 let f = rpm_factor (accum_dt_ms s);
                     r1 = plausible_rpm (fmul (of_i32 (accum_m1_delta s)) f);
                     r2 = plausible_rpm (fmul (of_i32 (accum_m2_delta s)) f)
                 in s\<lparr>m1_measured_rpm := lowpass r1 (m1_measured_rpm s),
                      m2_measured_rpm := lowpass r2 (m2_measured_rpm s),
                      accum_m1_delta := 0, accum_m2_delta := 0, accum_dt_ms := 0\<rparr>
               else s)
      in s\<lparr>m1_measured_rpm := denoise (m1_measured_rpm s),
           m2_measured_rpm := denoise (m2_measured_rpm s)\<rparr>)"

definition wheel_mps :: "f32 \<Rightarrow> f32" where
  "wheel_mps rpm = fdiv (fmul (fmul (fmul rpm (flit 2)) M_PI_F) WHEEL_RADIUS_M) (flit 60)"

definition integrateOdometry ::
    "('n, 'w, 'z) platform_scheme \<Rightarrow> f32 \<Rightarrow> ('n, 'w, 'a) robot_scheme \<Rightarrow> ('n, 'w, 'a) robot_scheme res" where
  "integrateOdometry P dt_s s =
     (let v_l_mps = wheel_mps (m1_measured_rpm s);
          v_r_mps = wheel_mps (m2_measured_rpm s);
          lin = fmul (flit (5 / 10)) (fadd v_r_mps v_l_mps);
          ang = fdiv (fsub v_l_mps v_r_mps) WHEEL_BASE_M;
          th = theta_rad (odom s);
          theta_mid = fadd th (fmul (fmul (flit (5 / 10)) ang) dt_s);
          x = fadd (x_m (odom s)) (fmul (fmul lin (cosf P theta_mid)) dt_s);
          y = fadd (y_m (odom s)) (fmul (fmul lin (sinf P theta_mid)) dt_s)
      in bind_res (normalizeAngleRad (fadd th (fmul ang dt_s))) (\<lambda>th'.
           Inr (s\<lparr>odom := \<lparr>x_m = x, y_m = y, theta_rad = th',
                  linear_mps = lin, angular_radps = ang\<rparr>\<rparr>)))"

definition checkCmdTimeout :: "('n, 'w, 'a) robot_scheme \<Rightarrow> ('n, 'w, 'a) robot_scheme" where
  "checkCmdTimeout s =
     (let (now, s) = millis s in
      if elapsed now (last_cmd_ms s) > CMD_TIMEOUT_MS
      then s\<lparr>m1_target_rpm := flit 0, m2_target_rpm := flit 0\<rparr> else s)"

definition cmd_active :: "('n, 'w, 'a) robot_scheme \<Rightarrow> bool" where
  "cmd_active s \<longleftrightarrow> fgt (fabsf (m1_target_rpm s)) ZERO_CMD_RPM_EPS \<or>
     fgt (fabsf (m2_target_rpm s)) ZERO_CMD_RPM_EPS"

definition stop_requested :: "('n, 'w, 'a) robot_scheme \<Rightarrow> bool" where
  "stop_requested s \<longleftrightarrow> fle (fabsf (m1_target_rpm s)) ZERO_CMD_RPM_EPS \<and>
     fle (fabsf (m2_target_rpm s)) ZERO_CMD_RPM_EPS"

definition KICKSTART_DURATION_MS :: u32 where
  "KICKSTART_DURATION_MS = 200"

definition boost :: "int \<Rightarrow> int" where
  "boost p = (if \<bar>p\<bar> < MIN_PWM_START then (if 0 \<le> p then MIN_PWM_START else - MIN_PWM_START)
     else p)"

definition kickstart ::
    "bool \<Rightarrow> int \<Rightarrow> int \<Rightarrow> ('n, 'w, 'a) robot_scheme \<Rightarrow> (int \<times> int) \<times> ('n, 'w, 'a) robot_scheme" where
  "kickstart cmd_active_now m1_pwm m2_pwm s =
     (let s = (if cmd_active_now \<and> \<not> prev_cmd_active s
               then (case millis s of (now, s) \<Rightarrow> s\<lparr>kickstart_ms := now\<rparr>) else s);
          s = s\<lparr>prev_cmd_active := cmd_active_now\<rparr>
      in if cmd_active_now then
           (case millis s of (now, s) \<Rightarrow>
              if elapsed now (kickstart_ms s) < KICKSTART_DURATION_MS
              then ((boost m1_pwm, boost m2_pwm), s) else ((m1_pwm, m2_pwm), s))
         else ((m1_pwm, m2_pwm), s))"

definition driveMotors :: "f32 \<Rightarrow> ('n, 'w, 'a) robot_scheme \<Rightarrow> ('n, 'w, 'a) robot_scheme res" where
  "driveMotors dt_s s =
     (if stop_requested s then
        Inr ((stopMotors (s\<lparr>m1_target_rpm := flit 0, m2_target_rpm := flit 0\<rparr>))
               \<lparr>prev_cmd_active := False\<rparr>)
      else
        let cmd_active_now = cmd_active s;
            (out1, c1) = pid_Update (m1_target_rpm s) (m1_measured_rpm s) dt_s (m1_pid s);
            s = s\<lparr>m1_pid := c1\<rparr>
        in bind_res (to_i32 out1) (\<lambda>m1_pwm.
           let (out2, c2) = pid_Update (m2_target_rpm s) (m2_measured_rpm s) dt_s (m2_pid s);
               s = s\<lparr>m2_pid := c2\<rparr>
           in bind_res (to_i32 out2) (\<lambda>m2_pwm.
              case kickstart cmd_active_now m1_pwm m2_pwm s of ((m1_pwm, m2_pwm), s) \<Rightarrow>
                Inr (applyMotorCommand 2 m2_pwm (applyMotorCommand 1 m1_pwm s)))))"

section \<open>The control step\<close>

definition runControlStep ::
    "('n, 'w, 'z) platform_scheme \<Rightarrow> u32 \<Rightarrow> ('n, 'w, 'a) robot_scheme \<Rightarrow> ('n, 'w, 'a) robot_scheme res" where
  "runControlStep P dt_ms s =
     (let dt_s = fdiv (of_u32 dt_ms) (flit 1000) in
      bind_res (countEdges dt_ms s) (\<lambda>s.
      bind_res (integrateOdometry P dt_s (estimateSpeeds s)) (\<lambda>s.
        driveMotors dt_s (checkCmdTimeout s))))"

section \<open>What each part leaves alone\<close>

lemma countEdges_frame:
  "countEdges dt s = Inr s' \<Longrightarrow>
   s' = s\<lparr>prev_m1_count := m1_encoder_count s, prev_m2_count := m2_encoder_count s,
     accum_m1_delta := accum_m1_delta s', accum_m2_delta := accum_m2_delta s',
     accum_dt_ms := accum_dt_ms s + dt\<rparr>"
  by (auto simp: countEdges_def Let_def)

lemma estimateSpeeds_frame:
  "estimateSpeeds s = s\<lparr>m1_measured_rpm := m1_measured_rpm (estimateSpeeds s),
     m2_measured_rpm := m2_measured_rpm (estimateSpeeds s),
     accum_m1_delta := accum_m1_delta (estimateSpeeds s),
     accum_m2_delta := accum_m2_delta (estimateSpeeds s),
     accum_dt_ms := accum_dt_ms (estimateSpeeds s)\<rparr>"
  by (simp add: estimateSpeeds_def Let_def)

lemma integrateOdometry_frame:
  "integrateOdometry P dt s = Inr s' \<Longrightarrow> s' = s\<lparr>odom := odom s'\<rparr>"
  by (auto simp: integrateOdometry_def Let_def)

definition sense :: "('n, 'w, 'z) platform_scheme \<Rightarrow> u32 \<Rightarrow> ('n, 'w, 'a) robot_scheme \<Rightarrow> ('n, 'w, 'a) robot_scheme res" where
  "sense P dt s = bind_res (countEdges dt s)
     (\<lambda>s. integrateOdometry P (fdiv (of_u32 dt) (flit 1000)) (estimateSpeeds s))"

lemma runControlStep_sense:
  "runControlStep P dt s =
     bind_res (sense P dt s) (\<lambda>s. driveMotors (fdiv (of_u32 dt) (flit 1000)) (checkCmdTimeout s))"
  by (cases "countEdges dt s") (simp_all add: runControlStep_def sense_def Let_def)

lemma sense_frame:
  assumes "sense P dt s = Inr t"
  shows "io t = io s" "clk t = clk s" "clk_i t = clk_i s" "last_cmd_ms t = last_cmd_ms s"
    "m1_target_rpm t = m1_target_rpm s" "m2_target_rpm t = m2_target_rpm s"
    "m1_pid t = m1_pid s" "m2_pid t = m2_pid s" "nvs t = nvs s" "mag_cal t = mag_cal s"
    "prev_cmd_active t = prev_cmd_active s" "kickstart_ms t = kickstart_ms s"
    "m1_encoder_count t = m1_encoder_count s" "m2_encoder_count t = m2_encoder_count s"
proof -
  obtain a where a: "countEdges dt s = Inr a"
    "integrateOdometry P (fdiv (of_u32 dt) (flit 1000)) (estimateSpeeds a) = Inr t"
    using assms by (auto simp: sense_def)
  note f = countEdges_frame [OF a(1)] integrateOdometry_frame [OF a(2)] estimateSpeeds_frame [of a]
  show "io t = io s" "clk t = clk s" "clk_i t = clk_i s" "last_cmd_ms t = last_cmd_ms s"
    "m1_target_rpm t = m1_target_rpm s" "m2_target_rpm t = m2_target_rpm s"
    "m1_pid t = m1_pid s" "m2_pid t = m2_pid s" "nvs t = nvs s" "mag_cal t = mag_cal s"
    "prev_cmd_active t = prev_cmd_active s" "kickstart_ms t = kickstart_ms s"
    "m1_encoder_count t = m1_encoder_count s" "m2_encoder_count t = m2_encoder_count s"
    by (subst f(2), simp, subst f(3), simp, subst f(1), simp)+
qed

lemma checkCmdTimeout_eq:
  "checkCmdTimeout s = (if elapsed (clk s (clk_i s)) (last_cmd_ms s) > CMD_TIMEOUT_MS
     then s\<lparr>clk_i := Suc (clk_i s), m1_target_rpm := Fin 0, m2_target_rpm := Fin 0\<rparr>
     else s\<lparr>clk_i := Suc (clk_i s)\<rparr>)"
  by (simp add: checkCmdTimeout_def millis_def)

section \<open>Stopping\<close>

lemma driveMotors_stop:
  "stop_requested s \<Longrightarrow> driveMotors dt s =
     Inr (s\<lparr>m1_target_rpm := Fin 0, m2_target_rpm := Fin 0, prev_cmd_active := False,
       io := [Ledc_Write 3 0, Ledc_Write 2 0, Ledc_Write 1 0, Ledc_Write 0 0] @ io s\<rparr>)"
  by (simp add: driveMotors_def stopMotors_eq)

lemma stop_requested_zero: "m1_target_rpm s = Fin 0 \<Longrightarrow> m2_target_rpm s = Fin 0 \<Longrightarrow> stop_requested s"
  by (simp add: stop_requested_def config_f32)

text \<open>C12: Dead-man's stop. Whatever the state, a control step that runs more than \<open>CMD_TIMEOUT_MS\<close>
  milliseconds after the last command (on the wrapping 32-bit clock) leaves both targets at zero
  and all four PWM channels at duty 0, and forgets that a command was active, so that the next
  one gets its kick start.\<close>

theorem cmd_timeout_stops:
  assumes "runControlStep P dt_ms s = Inr s'"
    and "elapsed (clk s (clk_i s)) (last_cmd_ms s) > CMD_TIMEOUT_MS"
  shows "m1_target_rpm s' = Fin 0 \<and> m2_target_rpm s' = Fin 0 \<and> all_stopped (io s') \<and>
    \<not> prev_cmd_active s'"
proof -
  obtain t where t: "sense P dt_ms s = Inr t"
    and d: "driveMotors (fdiv (of_u32 dt_ms) (flit 1000)) (checkCmdTimeout t) = Inr s'"
    using assms(1) by (auto simp: runControlStep_sense)
  have c: "checkCmdTimeout t = t\<lparr>clk_i := Suc (clk_i t), m1_target_rpm := Fin 0, m2_target_rpm := Fin 0\<rparr>"
    using assms(2) by (simp add: checkCmdTimeout_eq sense_frame [OF t])
  have "stop_requested (checkCmdTimeout t)"
    unfolding c by (simp add: stop_requested_zero)
  from driveMotors_stop [OF this] show ?thesis
    using d by (auto simp: all_stopped_def config)
qed

section \<open>The bridge\<close>

lemma millis_frame [simp]: "io (snd (millis s)) = io s"
  by simp

lemma kickstart_io: "io (snd (kickstart b p q s)) = io s"
  by (simp add: kickstart_def Let_def millis_def)

text \<open>The outputs of the two controllers.\<close>

definition pid1 :: "f32 \<Rightarrow> ('n, 'w, 'a) robot_scheme \<Rightarrow> f32 \<times> pid_controller" where
  "pid1 dt_s s = pid_Update (m1_target_rpm s) (m1_measured_rpm s) dt_s (m1_pid s)"

definition pid2 :: "f32 \<Rightarrow> ('n, 'w, 'a) robot_scheme \<Rightarrow> f32 \<times> pid_controller" where
  "pid2 dt_s s = pid_Update (m2_target_rpm s) (m2_measured_rpm s) dt_s (m2_pid s)"

definition drive :: "(int \<times> int) \<times> ('n, 'w, 'a) robot_scheme \<Rightarrow> ('n, 'w, 'a) robot_scheme" where
  "drive k = applyMotorCommand 2 (snd (fst k)) (applyMotorCommand 1 (fst (fst k)) (snd k))"

lemma driveMotors_go:
  assumes "\<not> stop_requested s"
  shows "driveMotors dt s =
    bind_res (to_i32 (fst (pid1 dt s))) (\<lambda>p. bind_res (to_i32 (fst (pid2 dt s))) (\<lambda>q.
      Inr (drive (kickstart (cmd_active s) p q
        (s\<lparr>m1_pid := snd (pid1 dt s), m2_pid := snd (pid2 dt s)\<rparr>)))))"
  using assms by (simp add: driveMotors_def Let_def case_prod_beta pid1_def pid2_def drive_def)

lemma driveMotors_bridge_safe:
  assumes "driveMotors dt s = Inr s'" "bridge_safe (io s)"
  shows "bridge_safe (io s')"
proof (cases "stop_requested s")
  case True
  then show ?thesis
    using assms(1) driveMotors_stop [OF True, of dt]
    by (auto intro!: all_stopped_safe simp: all_stopped_def config)
next
  case False
  then obtain p q where k: "s' = drive (kickstart (cmd_active s) p q
      (s\<lparr>m1_pid := snd (pid1 dt s), m2_pid := snd (pid2 dt s)\<rparr>))"
    using assms(1) by (auto simp: driveMotors_go)
  show ?thesis
    unfolding k drive_def using assms(2)
    by (intro applyMotorCommand_bridge_safe) (simp add: kickstart_io)
qed

lemma runControlStep_bridge_safe:
  "runControlStep P dt_ms s = Inr s' \<Longrightarrow> bridge_safe (io s) \<Longrightarrow> bridge_safe (io s')"
  by (auto simp: runControlStep_sense checkCmdTimeout_eq sense_frame split: if_splits
      dest!: driveMotors_bridge_safe)

section \<open>Bounds on the parts\<close>

lemma counts_per_ms:
  "fmul (fdiv MAX_PLAUSIBLE_RPM (flit 60)) COUNTS_PER_OUTPUT_REV = Fin (4941141 / 2048)"
  by code_simp

lemma max_counts_bdd:
  assumes d: "unat d = N" and N: "0 < N" "N \<le> 2 ^ 19"
  shows "bdd (of_nat (9 * N)) (max_counts (fdiv (of_u32 d) (flit 1000)))"
proof -
  let ?dt = "fdiv (of_u32 d) (flit 1000)"
  have r: "repr32 (of_nat (k * N))" if "k \<le> 9" for k
  proof -
    have "k * N \<le> 9 * 2 ^ 19"
      by (rule mult_mono) (use that N(2) in simp_all)
    then have "int (k * N) \<le> int (9 * 2 ^ 19)"
      by (simp only: of_nat_le_iff)
    also have "\<dots> \<le> 2 ^ 24"
      by simp
    finally have "\<bar>int (k * N)\<bar> \<le> 2 ^ 24"
      by (simp only: abs_of_nat)
    from repr32_of_int [OF this] show ?thesis
      by (simp only: of_int_of_nat_eq)
  qed
  have dt: "bdd (of_nat N / 512) ?dt"
    using dt_seconds_exact [OF d] N by simp
  have c: "bdd 2432 (Fin (4941141 / 2048))" "bdd (3 / 2) (flit (15 / 10))"
    using repr32_half_int [of 3 1] by (simp_all add: flit_repr)
  have 1: "bdd (of_nat (5 * N)) (fmul (Fin (4941141 / 2048)) ?dt)"
    by (rule fmul_bdd(1) [OF c(1) dt]) (simp_all add: r [of 5, simplified])
  have 2: "bdd (of_nat (8 * N)) (fmul (fmul (Fin (4941141 / 2048)) ?dt) (flit (15 / 10)))"
    by (rule fmul_bdd(1) [OF 1 c(2)]) (simp_all add: r [of 8, simplified])
  have one: "bdd 1 (flit 1)" by simp
  show ?thesis
    unfolding max_counts_def counts_per_ms
    by (rule fadd_bdd(1) [OF 2 one]) (use N r [of 9] in simp_all)
qed

lemma plausible_delta_ok:
  assumes "\<bar>count\<bar> \<le> 2 ^ 29" "\<bar>prev\<bar> \<le> 2 ^ 29"
  shows "\<exists>d. plausible_delta m count prev = Inr d \<and> \<bar>d\<bar> \<le> \<bar>m\<bar>"
proof -
  have "\<bar>count - prev\<bar> \<le> 2 ^ 30"
    using assms by simp
  then have "in_i32 (count - prev)" "in_i32 \<bar>count - prev\<bar>"
    by (auto simp: in_i32_def abs_le_iff)
  then show ?thesis
    by (auto simp: plausible_delta_def abs32_def chk32_def)
qed

lemma window_seconds:
  assumes d: "unat d = N" and N: "50 \<le> N" "N \<le> 2 ^ 20"
  shows "fin (fdiv (of_u32 d) (flit 1000))" "1 / 32 \<le> fval (fdiv (of_u32 d) (flit 1000))"
proof -
  have e: "bdd (of_nat N / 512) (fdiv (of_u32 d) (flit 1000))"
    "fval (fdiv (of_u32 d) (flit 1000)) = rnd32 (of_nat N / 1000)"
    using dt_seconds_exact [OF d] N by simp_all
  have "(50 :: rat) \<le> of_nat N"
    using N(1) by simp
  then have "rnd32 (1 / 32) \<le> rnd32 (of_nat N / 1000)"
    by (intro rnd32_mono) simp
  moreover have "rnd32 (1 / 32) = 1 / 32"
    using repr32_half_int [of 1 5] by (simp add: repr32_def)
  ultimately show "1 / 32 \<le> fval (fdiv (of_u32 d) (flit 1000))"
    using e(2) by simp
  show "fin (fdiv (of_u32 d) (flit 1000))"
    using e(1) by (rule bdd_fin)
qed

lemma plausible_rpm_bdd:
  assumes "\<not> isnan x"
  shows "bdd 700 (plausible_rpm x)"
proof (cases "flt (Fin 700) (fabsf x)")
  case False
  then have "bdd (fval (Fin 700)) x"
    by (rule not_fgt_fabs_bdd) (use assms in simp_all)
  then show ?thesis
    using False by (simp add: plausible_rpm_def config_f32)
qed (simp add: plausible_rpm_def config_f32)

lemma raw_rpm_bdd:
  assumes "unat d = N" "50 \<le> N" "N \<le> 2 ^ 20" "\<bar>n\<bar> \<le> 2 ^ 24"
  shows "bdd 700 (plausible_rpm (fmul (of_i32 n) (rpm_factor d)))"
proof -
  note w = window_seconds [OF assms(1-3)]
  have c: "bdd 1 (fdiv (flit 60) COUNTS_PER_OUTPUT_REV)"
    by code_simp
  have f: "bdd 32 (rpm_factor d)"
    unfolding rpm_factor_def
    by (rule fdiv_bdd(1) [OF c w(1), where L = "1 / 32"]) (use w(2) in simp_all)
  have i: "bdd (2 ^ 24) (of_i32 n)"
    using assms(4) by (simp add: of_i32_small flip: of_int_abs)
  have "bdd (2 ^ 29) (fmul (of_i32 n) (rpm_factor d))"
    by (rule fmul_bdd(1) [OF i f]) simp_all
  then have "\<not> isnan (fmul (of_i32 n) (rpm_factor d))"
    by (auto dest: bdd_fin)
  then show ?thesis
    by (rule plausible_rpm_bdd)
qed

text \<open>The low-pass filter keeps the plausibility bound exactly, rounding included.\<close>

lemma lowpass_bdd:
  assumes "bdd 700 r" "bdd 700 old"
  shows "bdd 700 (lowpass r old)"
proof -
  let ?a = "5033165 / 16777216 :: rat" and ?b = "11744051 / 16777216 :: rat"
  have a: "SPEED_LPF_ALPHA = Fin ?a" and b: "fsub (flit 1) SPEED_LPF_ALPHA = Fin ?b"
    by code_simp+
  have A: "bdd ?a (Fin ?a)" and B: "bdd ?b (Fin ?b)"
    by simp_all
  have ra: "repr32 (13762561 / 65536)"
    using repr32_half_int [of 13762561 16] by simp
  have p: "bdd (13762561 / 65536) (fmul (Fin ?a) r)"
    by (rule fmul_bdd(1) [OF A assms(1) _ ra]) simp
  have q: "bdd 490 (fmul (Fin ?b) old)"
    by (rule fmul_bdd(1) [OF B assms(2)]) simp_all
  have s: "fin (lowpass r old)" "fval (lowpass r old) = rnd32 (fval (fmul (Fin ?a) r) + fval (fmul (Fin ?b) old))"
    unfolding lowpass_def b unfolding a using fadd_bdd [OF p q, of 1024] by (auto simp: bdd_def)
  have "\<bar>fval (fmul (Fin ?a) r) + fval (fmul (Fin ?b) old)\<bar> \<le> 13762561 / 65536 + 490"
    using p q unfolding bdd_def by linarith
  then have "fval (fmul (Fin ?a) r) + fval (fmul (Fin ?b) old) \<le> 13762561 / 65536 + 490"
    "- (13762561 / 65536 + 490) \<le> fval (fmul (Fin ?a) r) + fval (fmul (Fin ?b) old)"
    by linarith+
  then have "rnd32 (- (13762561 / 65536 + 490)) \<le> fval (lowpass r old)"
    "fval (lowpass r old) \<le> rnd32 (13762561 / 65536 + 490)"
    unfolding s(2) by (simp_all only: rnd32_mono)
  moreover have "rnd32 (13762561 / 65536 + 490) = 700"
    by code_simp
  ultimately show ?thesis
    using s(1) by (simp add: bdd_def)
qed

lemma denoise_bdd: "bdd B x \<Longrightarrow> bdd B (denoise x)"
  by (auto simp: denoise_def bdd_def)

lemma wheel_mps_bdd:
  assumes "bdd 700 rpm"
  shows "bdd 6 (wheel_mps rpm)"
proof -
  have c: "bdd 2 (flit 2)" "bdd 4 M_PI_F" "bdd (1 / 16) WHEEL_RADIUS_M"
    using pif_bounds by (simp_all add: config_f32)
  have 1: "bdd 1400 (fmul rpm (flit 2))"
    by (rule fmul_bdd(1) [OF assms c(1)]) simp_all
  have 2: "bdd 5600 (fmul (fmul rpm (flit 2)) M_PI_F)"
    by (rule fmul_bdd(1) [OF 1 c(2)]) simp_all
  have 3: "bdd 350 (fmul (fmul (fmul rpm (flit 2)) M_PI_F) WHEEL_RADIUS_M)"
    by (rule fmul_bdd(1) [OF 2 c(3)]) simp_all
  show ?thesis
    unfolding wheel_mps_def by (rule fdiv_bdd(1) [OF 3, where L = 60]) simp_all
qed

lemma turn_rate_bdd:
  assumes "bdd 700 l" "bdd 700 r"
  shows "bdd 48 (fdiv (fsub (wheel_mps l) (wheel_mps r)) WHEEL_BASE_M)"
proof -
  have 1: "bdd 12 (fsub (wheel_mps l) (wheel_mps r))"
    by (rule fsub_bdd(1) [OF wheel_mps_bdd wheel_mps_bdd]) (use assms in simp_all)
  show ?thesis
    by (rule fdiv_bdd(1) [OF 1, where L = "1 / 4"]) (simp_all add: config_f32)
qed

section \<open>A control step of a sane robot is defined\<close>

text \<open>
  The range of states of a robot whose sensors and gains are sane: measured speeds plausible,
  heading an angle, controllers finite, the window of accumulated edges open and consistent
  with its duration, counters far from overflow.
\<close>

definition robot_ok :: "('n, 'w, 'a) robot_scheme \<Rightarrow> bool" where
  "robot_ok s \<longleftrightarrow>
     bdd 700 (m1_measured_rpm s) \<and> bdd 700 (m2_measured_rpm s) \<and>
     bdd (fval M_PI_F) (theta_rad (odom s)) \<and>
     pid_sane (m1_pid s) \<and> pid_sane (m2_pid s) \<and>
     uint (accum_dt_ms s) < 50 \<and>
     \<bar>accum_m1_delta s\<bar> \<le> 9 * uint (accum_dt_ms s) \<and>
     \<bar>accum_m2_delta s\<bar> \<le> 9 * uint (accum_dt_ms s) \<and>
     \<bar>prev_m1_count s\<bar> \<le> 2 ^ 29 \<and> \<bar>prev_m2_count s\<bar> \<le> 2 ^ 29"

definition counters_ok :: "('n, 'w, 'a) robot_scheme \<Rightarrow> bool" where
  "counters_ok s \<longleftrightarrow> \<bar>m1_encoder_count s\<bar> \<le> 2 ^ 29 \<and> \<bar>m2_encoder_count s\<bar> \<le> 2 ^ 29"

lemma accum_ok:
  fixes a d :: int
  assumes "\<bar>a\<bar> \<le> 9 * W" "\<bar>d\<bar> \<le> 9 * int N" "W < 50" "N \<le> 2 ^ 19"
  shows "in_i32 (a + d)" "\<bar>a + d\<bar> \<le> 9 * (W + int N)"
proof -
  show "\<bar>a + d\<bar> \<le> 9 * (W + int N)"
    using assms(1,2) by (auto simp: abs_le_iff)
  moreover have "9 * (W + int N) < 2 ^ 31"
    using assms(3,4) by simp
  ultimately show "in_i32 (a + d)"
    by (auto simp: in_i32_def abs_le_iff)
qed

lemma countEdges_ok:
  assumes ok: "robot_ok s" "counters_ok s" and d: "unat d = N" and N: "0 < N" "N \<le> 2 ^ 19"
  obtains a where "countEdges d s = Inr a"
    "\<bar>accum_m1_delta a\<bar> \<le> 9 * (uint (accum_dt_ms s) + int N)"
    "\<bar>accum_m2_delta a\<bar> \<le> 9 * (uint (accum_dt_ms s) + int N)"
proof -
  let ?m = "max_counts (fdiv (of_u32 d) (flit 1000))"
  have m: "bdd (of_nat (9 * N)) ?m"
    using max_counts_bdd [OF d N] .
  have "of_nat (9 * N) \<le> (of_nat (9 * 2 ^ 19) :: rat)"
    using N(2) by (simp only: of_nat_le_iff)
  then have "of_nat (9 * N) < (2 ^ 31 :: rat)"
    by simp
  then obtain k where k: "to_i32 ?m = Inr k" "\<bar>of_int k :: rat\<bar> \<le> of_nat (9 * N)"
    using to_i32_bdd [OF m] by blast
  have "\<bar>of_int k :: rat\<bar> \<le> of_int (9 * int N)"
    using k(2) by simp
  then have k9: "\<bar>k\<bar> \<le> 9 * int N"
    by (simp only: of_int_le_iff flip: of_int_abs)
  have c: "\<bar>m1_encoder_count s\<bar> \<le> 2 ^ 29" "\<bar>m2_encoder_count s\<bar> \<le> 2 ^ 29"
    "\<bar>prev_m1_count s\<bar> \<le> 2 ^ 29" "\<bar>prev_m2_count s\<bar> \<le> 2 ^ 29" "uint (accum_dt_ms s) < 50"
    "\<bar>accum_m1_delta s\<bar> \<le> 9 * uint (accum_dt_ms s)"
    "\<bar>accum_m2_delta s\<bar> \<le> 9 * uint (accum_dt_ms s)"
    using ok by (simp_all add: robot_ok_def counters_ok_def)
  obtain d1 where d1: "plausible_delta k (m1_encoder_count s) (prev_m1_count s) = Inr d1" "\<bar>d1\<bar> \<le> 9 * int N"
    using plausible_delta_ok [OF c(1,3), of k] k9 by force
  obtain d2 where d2: "plausible_delta k (m2_encoder_count s) (prev_m2_count s) = Inr d2" "\<bar>d2\<bar> \<le> 9 * int N"
    using plausible_delta_ok [OF c(2,4), of k] k9 by force
  note A = accum_ok [OF c(6) d1(2) c(5) N(2)] and B = accum_ok [OF c(7) d2(2) c(5) N(2)]
  show thesis
    by (rule that [of "s\<lparr>prev_m1_count := m1_encoder_count s, prev_m2_count := m2_encoder_count s,
        accum_m1_delta := accum_m1_delta s + d1, accum_m2_delta := accum_m2_delta s + d2,
        accum_dt_ms := accum_dt_ms s + d\<rparr>"])
      (use A B in \<open>simp_all only: countEdges_def Let_def k(1) d1(1) d2(1) bind_res_simps
        chk32_ok, simp_all\<close>)
qed

lemma estimateSpeeds_ok:
  assumes "bdd 700 (m1_measured_rpm a)" "bdd 700 (m2_measured_rpm a)"
    and "\<bar>accum_m1_delta a\<bar> \<le> 9 * uint (accum_dt_ms a)"
    and "\<bar>accum_m2_delta a\<bar> \<le> 9 * uint (accum_dt_ms a)"
    and "uint (accum_dt_ms a) \<le> 2 ^ 20"
  shows "bdd 700 (m1_measured_rpm (estimateSpeeds a))" "bdd 700 (m2_measured_rpm (estimateSpeeds a))"
    "uint (accum_dt_ms (estimateSpeeds a)) < 50"
    "\<bar>accum_m1_delta (estimateSpeeds a)\<bar> \<le> 9 * uint (accum_dt_ms (estimateSpeeds a))"
    "\<bar>accum_m2_delta (estimateSpeeds a)\<bar> \<le> 9 * uint (accum_dt_ms (estimateSpeeds a))"
proof -
  have win: "RPM_ESTIMATION_WINDOW_MS \<le> accum_dt_ms a \<longleftrightarrow> 50 \<le> uint (accum_dt_ms a)"
    by (simp add: config word_le_def)
  have raw: "bdd 700 (plausible_rpm (fmul (of_i32 n) (rpm_factor (accum_dt_ms a))))"
    if "50 \<le> uint (accum_dt_ms a)" "\<bar>n\<bar> \<le> 9 * uint (accum_dt_ms a)" for n
  proof -
    obtain N where N: "unat (accum_dt_ms a) = N" "uint (accum_dt_ms a) = int N"
      by (metis uint_nat)
    show ?thesis
      by (rule raw_rpm_bdd [OF N(1)]) (use that assms(5) N(2) in simp_all)
  qed
  show "bdd 700 (m1_measured_rpm (estimateSpeeds a))" "bdd 700 (m2_measured_rpm (estimateSpeeds a))"
    "uint (accum_dt_ms (estimateSpeeds a)) < 50"
    "\<bar>accum_m1_delta (estimateSpeeds a)\<bar> \<le> 9 * uint (accum_dt_ms (estimateSpeeds a))"
    "\<bar>accum_m2_delta (estimateSpeeds a)\<bar> \<le> 9 * uint (accum_dt_ms (estimateSpeeds a))"
    using assms raw
    by (auto simp: estimateSpeeds_def Let_def win not_le intro!: denoise_bdd lowpass_bdd)
qed

lemma integrateOdometry_ok:
  assumes "bdd 700 (m1_measured_rpm a)" "bdd 700 (m2_measured_rpm a)" "bdd pif (theta_rad (odom a))"
    and "bdd (2 ^ 10) dt"
  obtains b where "integrateOdometry P dt a = Inr b" "bdd pif (theta_rad (odom b))"
proof -
  let ?w = "fdiv (fsub (wheel_mps (m1_measured_rpm a)) (wheel_mps (m2_measured_rpm a))) WHEEL_BASE_M"
  have w: "bdd 65536 (fmul ?w dt)"
    by (rule fmul_bdd(1) [OF turn_rate_bdd [OF assms(1,2)] assms(4)]) simp_all
  have "bdd 4 (theta_rad (odom a))"
    using assms(3) by (rule bdd_mono) (use pif_bounds in simp)
  then have "bdd (2 ^ 27) (fadd (theta_rad (odom a)) (fmul ?w dt))"
    by (rule fadd_bdd(1) [OF _ w]) simp_all
  then obtain th where "normalizeAngleRad (fadd (theta_rad (odom a)) (fmul ?w dt)) = Inr th" "bdd pif th"
    by (rule normalizeAngleRad_bdd)
  then show thesis
    using that by (simp add: integrateOdometry_def Let_def)
qed

lemma dt_control:
  assumes "unat d = N" "0 < N" "N \<le> 2 ^ 19"
  shows "bdd (2 ^ 10) (fdiv (of_u32 d) (flit 1000))" "1 / 2 ^ 10 \<le> fval (fdiv (of_u32 d) (flit 1000))"
proof -
  have "bdd (of_nat N / 512) (fdiv (of_u32 d) (flit 1000))"
    using dt_seconds_exact [OF assms(1,2)] assms(3) by simp
  moreover have "(of_nat N :: rat) \<le> of_nat (2 ^ 19)"
    using assms(3) by (simp only: of_nat_le_iff)
  ultimately show "bdd (2 ^ 10) (fdiv (of_u32 d) (flit 1000))"
    by (elim bdd_mono) simp
  show "1 / 2 ^ 10 \<le> fval (fdiv (of_u32 d) (flit 1000))"
    using dt_seconds(2) [of d] assms by simp
qed

lemma sense_ok:
  assumes ok: "robot_ok s" "counters_ok s" and d: "unat d = N" "0 < N" "N \<le> 2 ^ 19"
  obtains t where "sense P d s = Inr t" "robot_ok t"
proof -
  obtain a where a: "countEdges d s = Inr a"
    "\<bar>accum_m1_delta a\<bar> \<le> 9 * (uint (accum_dt_ms s) + int N)"
    "\<bar>accum_m2_delta a\<bar> \<le> 9 * (uint (accum_dt_ms s) + int N)"
    using countEdges_ok [OF ok d] by blast
  have u: "uint (accum_dt_ms s) < 50"
    using ok by (simp add: robot_ok_def)
  have A: "a = s\<lparr>prev_m1_count := m1_encoder_count s, prev_m2_count := m2_encoder_count s,
      accum_m1_delta := accum_m1_delta a, accum_m2_delta := accum_m2_delta a,
      accum_dt_ms := accum_dt_ms s + d\<rparr>"
    using countEdges_frame [OF a(1)] .
  have f: "accum_dt_ms a = accum_dt_ms s + d" "m1_measured_rpm a = m1_measured_rpm s"
    "m2_measured_rpm a = m2_measured_rpm s" "odom a = odom s"
    "prev_m1_count a = m1_encoder_count s" "prev_m2_count a = m2_encoder_count s"
    "m1_pid a = m1_pid s" "m2_pid a = m2_pid s"
    by (subst A, simp)+
  have dN: "uint d = int N"
    using d(1) by (metis uint_nat)
  have w: "uint (accum_dt_ms a) = uint (accum_dt_ms s) + int N"
    unfolding f uint_word_ariths dN using u d(3) by simp
  have e: "bdd 700 (m1_measured_rpm (estimateSpeeds a))" "bdd 700 (m2_measured_rpm (estimateSpeeds a))"
    "uint (accum_dt_ms (estimateSpeeds a)) < 50"
    "\<bar>accum_m1_delta (estimateSpeeds a)\<bar> \<le> 9 * uint (accum_dt_ms (estimateSpeeds a))"
    "\<bar>accum_m2_delta (estimateSpeeds a)\<bar> \<le> 9 * uint (accum_dt_ms (estimateSpeeds a))"
    using estimateSpeeds_ok [of a] ok a(2,3) u d(3) unfolding w by (simp_all add: f robot_ok_def)
  note E = estimateSpeeds_frame [of a]
  have "odom (estimateSpeeds a) = odom s"
    by (subst E) (simp add: f)
  then have "bdd pif (theta_rad (odom (estimateSpeeds a)))"
    using ok by (simp add: robot_ok_def M_PI_F_pif)
  then obtain t where t: "integrateOdometry P (fdiv (of_u32 d) (flit 1000)) (estimateSpeeds a) = Inr t"
    "bdd pif (theta_rad (odom t))"
    using integrateOdometry_ok [OF e(1,2) _ dt_control(1) [OF d]] by blast
  note T = integrateOdometry_frame [OF t(1)]
  have p: "m1_pid (estimateSpeeds a) = m1_pid s" "m2_pid (estimateSpeeds a) = m2_pid s"
    "prev_m1_count (estimateSpeeds a) = m1_encoder_count s"
    "prev_m2_count (estimateSpeeds a) = m2_encoder_count s"
    by (subst E, simp add: f)+
  have "robot_ok t"
    unfolding robot_ok_def M_PI_F_pif using t(2)
    by (subst (1 2 4 5 6 7 8 9 10 11 12) T) (use e p ok in \<open>simp add: robot_ok_def counters_ok_def\<close>)
  moreover have "sense P d s = Inr t"
    unfolding sense_def a(1) bind_res_simps by (rule t(1))
  ultimately show thesis
    using that by blast
qed

definition targets_ok :: "('n, 'w, 'a) robot_scheme \<Rightarrow> bool" where
  "targets_ok s \<longleftrightarrow> bdd (2 ^ 14) (m1_target_rpm s) \<and> bdd (2 ^ 14) (m2_target_rpm s)"

lemma robot_ok_drive_frame:
  assumes "m1_measured_rpm t = m1_measured_rpm s" "m2_measured_rpm t = m2_measured_rpm s"
    "odom t = odom s" "accum_dt_ms t = accum_dt_ms s" "accum_m1_delta t = accum_m1_delta s"
    "accum_m2_delta t = accum_m2_delta s" "prev_m1_count t = prev_m1_count s"
    "prev_m2_count t = prev_m2_count s" "pid_sane (m1_pid t)" "pid_sane (m2_pid t)"
  shows "robot_ok s \<Longrightarrow> robot_ok t"
  using assms by (simp add: robot_ok_def)

lemma drive_frame:
  "drive k = (snd k)\<lparr>io := io (drive k)\<rparr>"
  unfolding drive_def
  by (subst applyMotorCommand_frame, subst (2) applyMotorCommand_frame) simp

lemma kickstart_frame:
  "snd (kickstart b p q s) = s\<lparr>clk_i := clk_i (snd (kickstart b p q s)),
     prev_cmd_active := b, kickstart_ms := kickstart_ms (snd (kickstart b p q s))\<rparr>"
  by (simp add: kickstart_def Let_def millis_def)

lemma driveMotors_ok:
  assumes ok: "robot_ok s" "targets_ok s" and dt: "bdd (2 ^ 10) dt" "1 / 2 ^ 10 \<le> fval dt"
  obtains s' where "driveMotors dt s = Inr s'" "robot_ok s'" "targets_ok s'"
proof (cases "stop_requested s")
  case True
  then show thesis
    using that driveMotors_stop [OF True, of dt] ok by (auto simp: robot_ok_def targets_ok_def)
next
  case False
  have sane: "pid_sane (m1_pid s)" "pid_sane (m2_pid s)"
    and tg: "bdd (2 ^ 14) (m1_target_rpm s)" "bdd (2 ^ 14) (m2_target_rpm s)"
    and "bdd 700 (m1_measured_rpm s)" "bdd 700 (m2_measured_rpm s)"
    using ok by (auto simp: robot_ok_def targets_ok_def)
  then have ms: "bdd (2 ^ 14) (m1_measured_rpm s)" "bdd (2 ^ 14) (m2_measured_rpm s)"
    by (auto elim!: bdd_mono)
  obtain p where p: "to_i32 (fst (pid1 dt s)) = Inr p" "pid_sane (snd (pid1 dt s))"
    using ctl.update_pwm [OF sane(1) tg(1) ms(1) dt] unfolding pid1_def by blast
  obtain q where q: "to_i32 (fst (pid2 dt s)) = Inr q" "pid_sane (snd (pid2 dt s))"
    using ctl.update_pwm [OF sane(2) tg(2) ms(2) dt] unfolding pid2_def by blast
  let ?u = "s\<lparr>m1_pid := snd (pid1 dt s), m2_pid := snd (pid2 dt s)\<rparr>"
  let ?k = "kickstart (cmd_active s) p q ?u"
  have d: "driveMotors dt s = Inr (drive ?k)"
    using False by (simp add: driveMotors_go p(1) q(1))
  note K = kickstart_frame [of "cmd_active s" p q ?u]
  have "robot_ok (drive ?k)"
    by (rule robot_ok_drive_frame [OF _ _ _ _ _ _ _ _ _ _ ok(1)];
        subst drive_frame, subst K, simp add: p q)
  moreover have "targets_ok (drive ?k)"
    unfolding targets_ok_def
    by (subst (1 2) drive_frame, subst (1 2) K) (use tg in simp)
  ultimately show thesis
    using that d by blast
qed

lemma runControlStep_ok:
  assumes ok: "robot_ok s" "counters_ok s" "targets_ok s" and d: "0 < unat d" "unat d \<le> 2 ^ 19"
  obtains s' where "runControlStep P d s = Inr s'" "robot_ok s'" "targets_ok s'"
proof -
  obtain t where t: "sense P d s = Inr t" "robot_ok t"
    using sense_ok [OF ok(1,2) refl d] by blast
  note f = sense_frame [OF t(1)]
  have c: "robot_ok (checkCmdTimeout t)" "targets_ok (checkCmdTimeout t)"
    using t(2) ok(3) by (auto simp: checkCmdTimeout_eq robot_ok_def targets_ok_def f)
  obtain s' where "driveMotors (fdiv (of_u32 d) (flit 1000)) (checkCmdTimeout t) = Inr s'"
    "robot_ok s'" "targets_ok s'"
    using driveMotors_ok [OF c dt_control [OF refl d]] by blast
  moreover have "runControlStep P d s =
      driveMotors (fdiv (of_u32 d) (flit 1000)) (checkCmdTimeout t)"
    unfolding runControlStep_sense t(1) bind_res_simps ..
  ultimately show thesis
    using that by simp
qed

text \<open>C3: A control step of a sane robot is free of undefined behaviour and always returns, and
  leaves a sane robot: for steps of 1 ms to 524 s, encoder counters below \<open>2^29\<close> and targets
  below 16384 rpm, no integer overflows, no NaN or out-of-range value is converted to \<open>int\<close>,
  the heading loop ends, measured speeds stay within \<open>MAX_PLAUSIBLE_RPM\<close>, the heading stays in
  [-pi, pi], the controllers stay finite, and at most one side of each bridge is driven.\<close>

theorem control_step_defined:
  assumes "robot_ok s" "counters_ok s" "targets_ok s" "0 < unat dt_ms" "unat dt_ms \<le> 2 ^ 19"
    and "bridge_safe (io s)"
  shows "\<exists>s'. runControlStep P dt_ms s = Inr s' \<and> robot_ok s' \<and> targets_ok s' \<and>
    bridge_safe (io s') \<and>
    bdd (fval MAX_PLAUSIBLE_RPM) (m1_measured_rpm s') \<and> bdd (fval MAX_PLAUSIBLE_RPM) (m2_measured_rpm s') \<and>
    bdd (fval M_PI_F) (theta_rad (odom s'))"
proof -
  obtain s' where s': "runControlStep P dt_ms s = Inr s'" "robot_ok s'" "targets_ok s'"
    using assms(1-5) by (rule runControlStep_ok)
  then show ?thesis
    using runControlStep_bridge_safe [OF s'(1) assms(6)] by (auto simp: robot_ok_def config_f32)
qed

section \<open>Commands the controllers cannot digest\<close>

text \<open>A NaN set point is undefined behaviour. If a command puts a NaN into the target of motor 1
  (nothing on the way from \<open>/motor_rpm_cmd\<close> checks for it), the next control step before the
  time-out neither stops the motors nor drives them: it converts a NaN to \<open>int\<close>.\<close>

theorem nan_target_undefined:
  assumes "robot_ok s" "counters_ok s" "0 < unat dt_ms" "unat dt_ms \<le> 2 ^ 19"
    and "m1_target_rpm s = NaN"
    and "elapsed (clk s (clk_i s)) (last_cmd_ms s) \<le> CMD_TIMEOUT_MS"
  shows "runControlStep P dt_ms s = Inl Float_To_Int"
proof -
  let ?dt = "fdiv (of_u32 dt_ms) (flit 1000)"
  obtain t where t: "sense P dt_ms s = Inr t"
    using sense_ok [OF assms(1,2) refl assms(3,4)] by blast
  note f = sense_frame [OF t]
  let ?c = "checkCmdTimeout t"
  have c: "m1_target_rpm ?c = NaN"
    using assms(5,6) by (simp add: checkCmdTimeout_eq f)
  then have n: "\<not> stop_requested ?c"
    by (simp add: stop_requested_def)
  have dt: "\<not> fle ?dt (Fin 0)"
    using dt_control [OF refl assms(3,4)] by (auto simp: bdd_def)
  have "pid_integral (snd (pid_Update NaN m ?dt k)) = NaN \<and> fst (pid_Update NaN m ?dt k) = NaN" for m k
    using dt by (simp add: pid_Update_def Let_def)
  then have "to_i32 (fst (pid1 ?dt ?c)) = Inl Float_To_Int"
    by (simp add: pid1_def c to_i32_def)
  then have "driveMotors ?dt ?c = Inl Float_To_Int"
    unfolding driveMotors_go [OF n] by simp
  then show ?thesis
    unfolding runControlStep_sense t bind_res_simps .
qed

section \<open>The kick start\<close>

lemma boost_effective: "60 \<le> \<bar>effective_pwm (boost p)\<bar>"
  by (simp add: effective_pwm_def boost_def config Let_def abs_if max_def min_def)

lemma bridge_abs:
  "max (max 0 (- e)) (max 0 e) = \<bar>e :: int\<bar>" "max (max 0 e) (max 0 (- e)) = \<bar>e\<bar>"
  by (simp_all add: abs_if max_def)

text \<open>Breaking static friction. The first control step of a new command (the previous step had
  none, the target of a wheel exceeds \<open>ZERO_CMD_RPM_EPS\<close>, no time-out) drives one side of both
  bridges with at least \<open>MIN_PWM_START\<close>, whatever the controllers ask for, and starts the
  kick-start window.\<close>

theorem kickstart_first_step:
  assumes "runControlStep P dt_ms s = Inr s'" "\<not> prev_cmd_active s" "cmd_active s"
    and "elapsed (clk s (clk_i s)) (last_cmd_ms s) \<le> CMD_TIMEOUT_MS"
    and "elapsed (clk s (clk_i s + 2)) (clk s (clk_i s + 1)) < KICKSTART_DURATION_MS"
  shows "MIN_PWM_START \<le> max (duty PWM_M1_R_CH (io s')) (duty PWM_M1_L_CH (io s')) \<and>
    MIN_PWM_START \<le> max (duty PWM_M2_R_CH (io s')) (duty PWM_M2_L_CH (io s')) \<and>
    prev_cmd_active s' \<and> kickstart_ms s' = clk s (clk_i s + 1)"
proof -
  let ?dt = "fdiv (of_u32 dt_ms) (flit 1000)"
  obtain t where t: "sense P dt_ms s = Inr t" and d: "driveMotors ?dt (checkCmdTimeout t) = Inr s'"
    using assms(1) by (auto simp: runControlStep_sense)
  note f = sense_frame [OF t]
  let ?c = "checkCmdTimeout t"
  have c: "?c = t\<lparr>clk_i := Suc (clk_i t)\<rparr>"
    using assms(4) by (simp add: checkCmdTimeout_eq f)
  have act: "cmd_active ?c" "\<not> prev_cmd_active ?c"
    using assms(2,3) by (simp_all add: c f cmd_active_def)
  then have n: "\<not> stop_requested ?c"
    by (auto simp: cmd_active_def stop_requested_def config_f32 not_flt_fle [symmetric] dest: flt_not_fle)
  obtain p q where s': "s' = drive (kickstart True p q
      (?c\<lparr>m1_pid := snd (pid1 ?dt ?c), m2_pid := snd (pid2 ?dt ?c)\<rparr>))"
    using d act(1) unfolding driveMotors_go [OF n] by auto
  let ?u = "?c\<lparr>m1_pid := snd (pid1 ?dt ?c), m2_pid := snd (pid2 ?dt ?c)\<rparr>"
  have k: "kickstart True p q ?u = ((boost p, boost q),
      ?u\<lparr>clk_i := clk_i s + 3, prev_cmd_active := True, kickstart_ms := clk s (clk_i s + 1)\<rparr>)"
    using assms(5) act(2) by (simp add: kickstart_def Let_def millis_def c f numeral_3_eq_3)
  show ?thesis
    unfolding s' k drive_def using boost_effective [of p] boost_effective [of q]
    by (simp add: duty_applyMotorCommand config bridge_abs applyMotorCommand_eq emits_eq)
qed

section \<open>Which way the robot turns\<close>

text \<open>
  \<open>sided z L U x\<close>: the float is finite and, counted in direction \<open>z\<close> (1 or -1), between \<open>L\<close> and
  \<open>U\<close>. Multiplication and division by positive floats keep the direction.
\<close>

definition sided :: "rat \<Rightarrow> rat \<Rightarrow> rat \<Rightarrow> f32 \<Rightarrow> bool" where
  "sided z L U x \<longleftrightarrow> fin x \<and> L \<le> z * fval x \<and> z * fval x \<le> U"

lemma sided_rnd:
  assumes "z = 1 \<or> z = - 1" "L \<le> z * v" "z * v \<le> U" "repr32 L" "repr32 U"
  shows "L \<le> z * rnd32 v" "z * rnd32 v \<le> U"
proof -
  have "z * rnd32 v = rnd32 (z * v)"
    using assms(1) by auto
  then show "L \<le> z * rnd32 v" "z * rnd32 v \<le> U"
    using rnd32_mono [OF assms(2)] rnd32_mono [OF assms(3)] assms(4,5) by (simp_all add: repr32_def)
qed

lemma sided_bdd: "z = 1 \<or> z = - 1 \<Longrightarrow> 0 \<le> L \<Longrightarrow> sided z L U x \<Longrightarrow> bdd U x"
  by (auto simp: sided_def bdd_def)

lemma sided_mul:
  assumes z: "z = 1 \<or> z = - 1" and x: "sided z a b x" and y: "sided 1 c d y"
    and "0 \<le> a" "0 \<le> c" "L \<le> a * c" "b * d \<le> U" "repr32 L" "repr32 U"
  shows "sided z L U (fmul x y)"
proof -
  have bx: "bdd b x" and by': "bdd d y"
    using sided_bdd [OF z assms(4) x] sided_bdd [OF _ assms(5) y] by auto
  note m = fmul_bdd [OF bx by' assms(7,9)]
  have "a * c \<le> (z * fval x) * fval y" "(z * fval x) * fval y \<le> b * d"
    using assms(4,5) x y by (auto simp: sided_def intro!: mult_mono)
  then have "L \<le> z * (fval x * fval y)" "z * (fval x * fval y) \<le> U"
    using assms(6,7) by (simp_all add: mult.assoc)
  from sided_rnd [OF z this assms(8,9)] show ?thesis
    using m by (simp add: sided_def bdd_def)
qed

lemma sided_div:
  assumes z: "z = 1 \<or> z = - 1" and x: "sided z a b x" and y: "sided 1 c d y"
    and "0 \<le> a" "0 < c" "L \<le> a / d" "b / c \<le> U" "repr32 L" "repr32 U"
  shows "sided z L U (fdiv x y)"
proof -
  have bx: "bdd b x" and fy: "fin y" "c \<le> fval y" "fval y \<le> d"
    using sided_bdd [OF z assms(4) x] y by (auto simp: sided_def)
  have c: "c \<le> \<bar>fval y\<bar>"
    using fy by simp
  note m = fdiv_bdd [OF bx fy(1) assms(5) c assms(7,9)]
  have "a / d \<le> (z * fval x) / fval y" "(z * fval x) / fval y \<le> b / c"
    using assms(4,5) x fy by (auto simp: sided_def intro!: frac_le)
  then have "L \<le> z * (fval x / fval y)" "z * (fval x / fval y) \<le> U"
    using assms(6,7) by (simp_all add: times_divide_eq_right)
  from sided_rnd [OF z this assms(8,9)] show ?thesis
    using m by (simp add: sided_def bdd_def)
qed

definition wheel_rpm :: "f32 \<Rightarrow> f32" where
  "wheel_rpm v = fmul (fdiv v (fmul (fmul (flit 2) M_PI_F) WHEEL_RADIUS_M)) (flit 60)"

lemma wheel_rpm_sided:
  assumes "z = 1 \<or> z = - 1" "sided z (1 / 128) 4 v"
  shows "sided z (1 / 4) 1024 (wheel_rpm v)"
proof -
  have c: "sided 1 (1 / 4) (1 / 2) (fmul (fmul (flit 2) M_PI_F) WHEEL_RADIUS_M)"
    by code_simp
  have r: "repr32 (1 / 64)" "repr32 (1 / 4)"
    using repr32_half_int [of 1 6] repr32_half_int [of 1 2] by simp_all
  have 1: "sided z (1 / 64) 16 (fdiv v (fmul (fmul (flit 2) M_PI_F) WHEEL_RADIUS_M))"
    by (rule sided_div [OF assms(1,2) c]) (simp_all add: r)
  have 2: "sided 1 60 60 (flit 60)"
    by (simp add: sided_def)
  show ?thesis
    unfolding wheel_rpm_def by (rule sided_mul [OF assms(1) 1 2]) (simp_all add: r)
qed

lemma wheel_mps_sided:
  assumes "z = 1 \<or> z = - 1" "sided z (1 / 4) 1024 r"
  shows "sided z (1 / 2048) 16 (wheel_mps r)"
proof -
  have c: "sided 1 2 2 (flit 2)" "sided 1 3 4 M_PI_F" "sided 1 (1 / 32) (1 / 16) WHEEL_RADIUS_M"
    "sided 1 60 60 (flit 60)"
    by (simp_all add: sided_def config_f32)
  have r: "repr32 (1 / 2)" "repr32 (1 / 32)" "repr32 (1 / 2048)"
    using repr32_half_int [of 1 1] repr32_half_int [of 1 5] repr32_half_int [of 1 11] by simp_all
  have 1: "sided z (1 / 2) 2048 (fmul r (flit 2))"
    by (rule sided_mul [OF assms c(1)]) (simp_all add: r)
  have 2: "sided z 1 8192 (fmul (fmul r (flit 2)) M_PI_F)"
    by (rule sided_mul [OF assms(1) 1 c(2)]) (simp_all add: r)
  have 3: "sided z (1 / 32) 512 (fmul (fmul (fmul r (flit 2)) M_PI_F) WHEEL_RADIUS_M)"
    by (rule sided_mul [OF assms(1) 2 c(3)]) (simp_all add: r)
  show ?thesis
    unfolding wheel_mps_def by (rule sided_div [OF assms(1) 3 c(4)]) (simp_all add: r)
qed

lemma cmd_turn_sided:
  assumes "sided 1 (1 / 16) 16 w"
  shows "sided (- 1) (1 / 4) 1024 (m1_target_rpm (setTargetsFromCmdVel (Fin 0) w s))"
    "sided 1 (1 / 4) 1024 (m2_target_rpm (setTargetsFromCmdVel (Fin 0) w s))"
proof -
  have r: "repr32 (1 / 64)" "repr32 (1 / 128)" "repr32 (- (1 / 128))"
    using repr32_half_int [of 1 6] repr32_half_int [of 1 7] by simp_all
  have base: "sided 1 (1 / 4) (1 / 2) WHEEL_BASE_M" and half: "sided 1 (1 / 2) (1 / 2) (flit (5 / 10))"
    using repr32_half_int [of 1 1] by (simp_all add: sided_def config_f32 flit_repr)
  have 1: "sided 1 (1 / 64) 8 (fmul w WHEEL_BASE_M)"
    by (rule sided_mul [OF _ assms base]) (simp_all add: r)
  have 2: "sided 1 (1 / 128) 4 (fmul (fmul w WHEEL_BASE_M) (flit (5 / 10)))" (is "sided 1 _ _ ?t")
    by (rule sided_mul [OF _ 1 half]) (simp_all add: r)
  have b: "bdd 4 ?t" and t: "1 / 128 \<le> fval ?t" "fval ?t \<le> 4"
    using sided_bdd [OF _ _ 2] 2 by (simp_all add: sided_def)
  have z: "bdd 0 (Fin 0)" by simp
  have l: "fin (fsub (Fin 0) ?t)" "fval (fsub (Fin 0) ?t) = rnd32 (- fval ?t)"
    and p: "fin (fadd (Fin 0) ?t)" "fval (fadd (Fin 0) ?t) = rnd32 (fval ?t)"
    using fsub_bdd [OF z b, of 4] fadd_bdd [OF z b, of 4] by (auto simp: bdd_def)
  have left: "sided (- 1) (1 / 128) 4 (fsub (Fin 0) ?t)"
    using sided_rnd [of "- 1" "1 / 128" "- fval ?t" 4] t l r by (simp add: sided_def)
  have right: "sided 1 (1 / 128) 4 (fadd (Fin 0) ?t)"
    using sided_rnd [of 1 "1 / 128" "fval ?t" 4] t p r by (simp add: sided_def)
  have lin: "(if flt (fabsf (Fin 0)) ZERO_CMD_MPS_EPS then Fin 0 else Fin 0) = Fin 0"
    and ang: "(if flt (fabsf w) ZERO_CMD_RADPS_EPS then Fin 0 else w) = w"
    using assms by (auto simp: sided_def config_f32)
  have "m1_target_rpm (setTargetsFromCmdVel (Fin 0) w s) = wheel_rpm (fsub (Fin 0) ?t)"
    "m2_target_rpm (setTargetsFromCmdVel (Fin 0) w s) = wheel_rpm (fadd (Fin 0) ?t)"
    unfolding setTargetsFromCmdVel_def lin ang Let_def wheel_rpm_def by simp_all
  then show "sided (- 1) (1 / 4) 1024 (m1_target_rpm (setTargetsFromCmdVel (Fin 0) w s))"
    "sided 1 (1 / 4) 1024 (m2_target_rpm (setTargetsFromCmdVel (Fin 0) w s))"
    using wheel_rpm_sided left right by simp_all
qed

text \<open>The odometry turns the wrong way. When the wheels turn exactly as commanded for a pure
  rotation at \<open>w\<close> rad/s to the left (1/16 to 16), the commanded speeds are negative on motor 1 and
  positive on motor 2, and the angular speed \<open>runControlStep\<close> integrates from those same speeds is
  negative: a turn to the right.\<close>

theorem odometry_turn_reversed:
  assumes "fin w" "1 / 16 \<le> fval w" "fval w \<le> 16"
    and "m1_measured_rpm s = m1_target_rpm (setTargetsFromCmdVel (Fin 0) w s)"
    and "m2_measured_rpm s = m2_target_rpm (setTargetsFromCmdVel (Fin 0) w s)"
    and "integrateOdometry P dt_s s = Inr s'"
  shows "fval (m1_measured_rpm s) < 0 \<and> 0 < fval (m2_measured_rpm s) \<and>
    fin (angular_radps (odom s')) \<and> fval (angular_radps (odom s')) < 0"
proof -
  have w: "sided 1 (1 / 16) 16 w"
    using assms(1-3) by (simp add: sided_def)
  have m: "sided (- 1) (1 / 4) 1024 (m1_measured_rpm s)" "sided 1 (1 / 4) 1024 (m2_measured_rpm s)"
    unfolding assms(4,5) by (rule cmd_turn_sided [OF w])+
  have v: "sided (- 1) (1 / 2048) 16 (wheel_mps (m1_measured_rpm s))"
    "sided 1 (1 / 2048) 16 (wheel_mps (m2_measured_rpm s))"
    using wheel_mps_sided m by simp_all
  let ?d = "fsub (wheel_mps (m1_measured_rpm s)) (wheel_mps (m2_measured_rpm s))"
  have b: "bdd 16 (wheel_mps (m1_measured_rpm s))" "bdd 16 (wheel_mps (m2_measured_rpm s))"
    using sided_bdd [OF _ _ v(1)] sided_bdd [OF _ _ v(2)] by simp_all
  have r: "repr32 (1 / 1024)" "repr32 (1 / 2048)"
    using repr32_half_int [of 1 10] repr32_half_int [of 1 11] by simp_all
  have "fin ?d" "fval ?d = rnd32 (fval (wheel_mps (m1_measured_rpm s)) - fval (wheel_mps (m2_measured_rpm s)))"
    using fsub_bdd [OF b, of 32] by (auto simp: bdd_def)
  then have "sided (- 1) (1 / 1024) 32 ?d"
    using sided_rnd [of "- 1" "1 / 1024" "fval (wheel_mps (m1_measured_rpm s)) - fval (wheel_mps (m2_measured_rpm s))" 32]
      v r by (simp add: sided_def)
  moreover have "sided 1 (1 / 4) (1 / 2) WHEEL_BASE_M"
    by (simp add: sided_def config_f32)
  ultimately have "sided (- 1) (1 / 1024) 128 (fdiv ?d WHEEL_BASE_M)"
    by (rule sided_div [rotated]) (simp_all add: r)
  moreover have "angular_radps (odom s') = fdiv ?d WHEEL_BASE_M"
    using assms(6) by (auto simp: integrateOdometry_def Let_def)
  ultimately show ?thesis
    using m by (auto simp: sided_def)
qed

section \<open>Instances\<close>

text \<open>The robot at power on, before \<open>setup\<close>.\<close>

definition power_on_robot :: "(nat \<Rightarrow> u32) \<Rightarrow> 'n \<Rightarrow> 'w \<Rightarrow> ('n, 'w) robot" where
  "power_on_robot ck n w = sensors.extend (power_on_sensors ck n w)
     \<lparr>odom = init_odom, m1_measured_rpm = Fin 0, m2_measured_rpm = Fin 0,
      prev_m1_count = 0, prev_m2_count = 0, accum_m1_delta = 0, accum_m2_delta = 0,
      accum_dt_ms = 0, prev_cmd_active = False, kickstart_ms = 0\<rparr>"

lemmas power_on_defs = power_on_robot_def power_on_sensors_def sensors.defs init_odom_def

lemma power_on_ok:
  "robot_ok (power_on_robot ck n w)" "counters_ok (power_on_robot ck n w)"
  "targets_ok (power_on_robot ck n w)" "bridge_safe (io (power_on_robot ck n w))"
  using pif_bounds
  by (simp_all add: robot_ok_def counters_ok_def targets_ok_def power_on_defs pid_sane_def
      mk_PidController_def config_f32 bridge_safe_def config)

text \<open>A robot one second and a half after its last command, at 50 rpm, and its variants.\<close>

definition sample_robot :: "f32 \<Rightarrow> (map_nvs, (f32 \<times> f32 \<times> f32) list) robot" where
  "sample_robot target = (power_on_robot (\<lambda>_. 1500) (\<lambda>_ _. None, None) [])
     \<lparr>m1_target_rpm := target, m2_target_rpm := Fin 50\<rparr>"

lemma sample_robot_ok:
  "robot_ok (sample_robot v)" "counters_ok (sample_robot v)" "bridge_safe (io (sample_robot v))"
  "targets_ok (sample_robot (Fin 50))"
  using power_on_ok [of "\<lambda>_. 1500" "(\<lambda>_ _. None, None) :: map_nvs" "[] :: (f32 \<times> f32 \<times> f32) list"]
  by (simp_all add: sample_robot_def robot_ok_def counters_ok_def targets_ok_def)

lemma sample_robot_sel:
  "clk (sample_robot v) = (\<lambda>_. 1500)" "last_cmd_ms (sample_robot v) = 0" "clk_i (sample_robot v) = 0"
  "m1_target_rpm (sample_robot v) = v" "m2_target_rpm (sample_robot v) = Fin 50"
  "prev_cmd_active (sample_robot v) = False" "theta_rad (odom (sample_robot v)) = Fin 0"
  by (simp_all add: sample_robot_def power_on_defs)

theorem cmd_timeout_stops_witness:
  "\<exists>s'. runControlStep sim_platform 10 (sample_robot (Fin 50)) = Inr s' \<and>
     m1_target_rpm s' = Fin 0 \<and> all_stopped (io s')"
proof -
  obtain s' where s': "runControlStep sim_platform 10 (sample_robot (Fin 50)) = Inr s'"
    by (rule runControlStep_ok [OF sample_robot_ok(1,2,4), of 10]) simp_all
  have "elapsed (clk (sample_robot (Fin 50)) (clk_i (sample_robot (Fin 50))))
      (last_cmd_ms (sample_robot (Fin 50))) > CMD_TIMEOUT_MS"
    by (simp add: sample_robot_sel elapsed_def config)
  from cmd_timeout_stops [OF s' this] show ?thesis
    using s' by blast
qed

theorem control_step_defined_witness:
  "\<exists>s'. runControlStep sim_platform 10 (sample_robot (Fin 50)) = Inr s' \<and> robot_ok s' \<and>
     bridge_safe (io s')"
  using control_step_defined [OF sample_robot_ok(1,2,4) _ _ sample_robot_ok(3), of 10] by auto

theorem nan_target_undefined_witness:
  "runControlStep sim_platform 10 ((sample_robot NaN)\<lparr>last_cmd_ms := 1000\<rparr>) = Inl Float_To_Int"
proof -
  let ?s = "(sample_robot NaN)\<lparr>last_cmd_ms := 1000\<rparr>"
  have "robot_ok ?s" "counters_ok ?s"
    using sample_robot_ok(1,2) [of NaN] by (simp_all add: robot_ok_def counters_ok_def)
  from nan_target_undefined [OF this, of 10 sim_platform] show ?thesis
    by (simp add: sample_robot_sel elapsed_def config)
qed

theorem kickstart_first_step_witness:
  "\<exists>s'. runControlStep sim_platform 10 ((sample_robot (Fin 50))\<lparr>last_cmd_ms := 1000\<rparr>) = Inr s' \<and>
     60 \<le> max (duty 0 (io s')) (duty 1 (io s'))"
proof -
  let ?s = "(sample_robot (Fin 50))\<lparr>last_cmd_ms := 1000\<rparr>"
  have "robot_ok ?s" "counters_ok ?s" "targets_ok ?s"
    using sample_robot_ok(1,2,3) [of "Fin 50"] sample_robot_ok(4) by (simp_all add: robot_ok_def counters_ok_def targets_ok_def)
  then obtain s' where s': "runControlStep sim_platform 10 ?s = Inr s'"
    by (rule runControlStep_ok [where d = 10]) simp_all
  have "\<not> prev_cmd_active ?s" "cmd_active ?s"
    "elapsed (clk ?s (clk_i ?s)) (last_cmd_ms ?s) \<le> CMD_TIMEOUT_MS"
    "elapsed (clk ?s (clk_i ?s + 2)) (clk ?s (clk_i ?s + 1)) < KICKSTART_DURATION_MS"
    by (simp_all add: sample_robot_sel cmd_active_def config_f32 elapsed_def config
        KICKSTART_DURATION_MS_def)
  from kickstart_first_step [OF s' this] show ?thesis
    using s' by (auto simp: config)
qed

lemma cmd_one_rad:
  "bdd 700 (wheel_rpm (fsub (Fin 0) (fmul (fmul (Fin 1) WHEEL_BASE_M) (flit (5 / 10)))))"
  "bdd 700 (wheel_rpm (fadd (Fin 0) (fmul (fmul (Fin 1) WHEEL_BASE_M) (flit (5 / 10)))))"
  by code_simp+

theorem odometry_turn_reversed_witness:
  "\<exists>s s'. integrateOdometry sim_platform (Fin 1) (s :: (map_nvs, (f32 \<times> f32 \<times> f32) list) robot) = Inr s' \<and>
     m2_measured_rpm s = m2_target_rpm (setTargetsFromCmdVel (Fin 0) (Fin 1) s) \<and>
     fval (angular_radps (odom s')) < 0"
proof -
  let ?t = "setTargetsFromCmdVel (Fin 0) (Fin 1) (sample_robot (Fin 0))"
  let ?s = "(sample_robot (Fin 0))\<lparr>m1_measured_rpm := m1_target_rpm ?t, m2_measured_rpm := m2_target_rpm ?t\<rparr>"
  have e: "m1_target_rpm (setTargetsFromCmdVel x y u) = m1_target_rpm (setTargetsFromCmdVel x y v)"
    "m2_target_rpm (setTargetsFromCmdVel x y u) = m2_target_rpm (setTargetsFromCmdVel x y v)"
    for x y and u v :: "(map_nvs, (f32 \<times> f32 \<times> f32) list) robot"
    by (simp_all add: setTargetsFromCmdVel_def Let_def)
  have b: "bdd 700 (m1_target_rpm ?t)" "bdd 700 (m2_target_rpm ?t)"
    using cmd_one_rad by (simp_all add: setTargetsFromCmdVel_def Let_def wheel_rpm_def config_f32)
  obtain s' where s': "integrateOdometry sim_platform (Fin 1) ?s = Inr s'"
    by (rule integrateOdometry_ok [of ?s "Fin 1"]) (use b pif_bounds in \<open>simp_all add: sample_robot_sel\<close>)
  have "m1_measured_rpm ?s = m1_target_rpm (setTargetsFromCmdVel (Fin 0) (Fin 1) ?s)"
    "m2_measured_rpm ?s = m2_target_rpm (setTargetsFromCmdVel (Fin 0) (Fin 1) ?s)"
    using e [of _ _ ?s "sample_robot (Fin 0)"] by simp_all
  from odometry_turn_reversed [OF _ _ _ this s'] show ?thesis
    using s' e(2) [of "Fin 0" "Fin 1" ?s "sample_robot (Fin 0)"] by (intro exI [of _ ?s] exI [of _ s']) simp
qed

end
