(* ===== verification/Ros.thy ===== *)
theory Ros
  imports Odometry
begin

text \<open>
  \<open>firmware/src/main.cpp\<close>, built with \<open>USE_MICROROS=1\<close> as \<open>platformio.ini\<close> says: the micro-ROS
  entities, the callbacks, the telemetry, and the functions \<open>setup\<close> and \<open>loop\<close>. The micro-ROS
  client library is a parameter (further fields of the record of the platform, over an
  abstract state \<open>'r\<close>); every call that creates, destroys or uses an entity is recorded, newest
  first, in \<open>ros_log\<close>.
\<close>

section \<open>Messages\<close>

text \<open>
  A \<open>double\<close> of a message is a value of the same datatype as a \<open>float\<close>: widening keeps the
  value, \<open>narrow\<close> is the conversion back, and \<open>dlit\<close> rounds a decimal literal to binary64.
\<close>

type_synonym f64 = f32

definition narrow :: "f64 \<Rightarrow> f32" where
  "narrow x = (case x of Fin q \<Rightarrow> mk_f32 (q < 0) q | _ \<Rightarrow> x)"

definition dlit :: "rat \<Rightarrow> f64" where
  "dlit x = (if x = 0 then Fin 0
     else let e = max (ilog2 \<bar>x\<bar> - 52) (- 1074) in Fin (of_int (rne (x / 2 powi e)) * 2 powi e))"

datatype msg_type = Twist | Float32MultiArray | Bool | Imu | MagneticField | Odometry | TFMessage

datatype entity =
    Support
  | Node
  | Subscription msg_type string
  | Publisher msg_type string
  | Executor
  | Handler msg_type string

record ros_string =
  rs_data :: string
  rs_size :: nat
  rs_capacity :: nat

definition setRosString :: "string \<Rightarrow> ros_string" where
  "setRosString v = \<lparr>rs_data = v, rs_size = length v, rs_capacity = length v + 1\<rparr>"

record ros_time =
  sec :: int
  nanosec :: u32

record header =
  stamp :: ros_time
  frame_id :: ros_string

type_synonym vec3 = "f64 \<times> f64 \<times> f64"
type_synonym quat = "f64 \<times> f64 \<times> f64 \<times> f64"

record imu_message =
  imu_header :: header
  im_orientation :: quat
  im_orientation_covariance :: "f64 list"
  im_angular_velocity :: vec3
  im_angular_velocity_covariance :: "f64 list"
  im_linear_acceleration :: vec3
  im_linear_acceleration_covariance :: "f64 list"

record mag_message =
  mag_header :: header
  magnetic_field :: vec3
  magnetic_field_covariance :: "f64 list"

record odom_message =
  odom_header :: header
  child_frame_id :: ros_string
  position :: vec3
  om_orientation :: quat
  pose_covariance :: "f64 list"
  twist_linear :: vec3
  twist_angular :: vec3
  twist_covariance :: "f64 list"

record tf_message =
  tf_header :: header
  tf_child_frame_id :: ros_string
  translation :: vec3
  rotation :: quat

datatype publication =
    Pub_Wheel "f32 list"
  | Pub_Rpm_Feedback "f32 list"
  | Pub_Imu imu_message
  | Pub_Mag mag_message
  | Pub_Odom odom_message
  | Pub_Imu_Status bool
  | Pub_Mag_Status bool
  | Pub_Tf tf_message

text \<open>What the executor hands to the callbacks.\<close>

datatype delivery =
    Cmd_Vel f64 f64
  | Rpm_Cmd "f32 list"
  | Pid_Config "f32 list"
  | Calibrate_Mag bool

section \<open>State and platform\<close>

datatype agent_state = Waiting | Connected

datatype ros_call = Init entity bool | Fini entity | Publish publication | Sync bool | Ping bool

record ('n, 'w, 'r) ros = "('n, 'w) robot" +
  rmw :: 'r
  ros_log :: "ros_call list"
  agent_state :: agent_state
  ros_time_synced :: bool
  last_ros_time_sync_ms :: u32
  ros_entities_created :: bool
  rpm_cmd_msg :: "f32 list"
  pid_config_msg :: "f32 list"
  imu_msg :: imu_message
  mag_msg :: mag_message
  odom_msg :: odom_message
  tf_msg :: tf_message
  loop_entered :: bool
  last_control_ms :: u32
  last_telemetry_ms :: u32
  last_agent_check_ms :: u32

record ('n, 'w, 'r) firmware_platform = "('n, 'w) platform" +
  rcl_init :: "entity \<Rightarrow> 'r \<Rightarrow> bool \<times> 'r"
  rcl_fini :: "entity \<Rightarrow> 'r \<Rightarrow> 'r"
  rcl_publish :: "publication \<Rightarrow> 'r \<Rightarrow> 'r"
  rmw_sync_session :: "u32 \<Rightarrow> 'r \<Rightarrow> bool \<times> 'r"
  rmw_epoch_millis :: "'r \<Rightarrow> 64 word \<times> 'r"
  rmw_ping_agent :: "int \<Rightarrow> int \<Rightarrow> 'r \<Rightarrow> bool \<times> 'r"
  executor_spin_some :: "'r \<Rightarrow> delivery list \<times> 'r"

section \<open>Time\<close>

definition syncRosClock ::
    "('n, 'w, 'r, 'z) firmware_platform_scheme \<Rightarrow> u32 \<Rightarrow> ('n, 'w, 'r, 'a) ros_scheme \<Rightarrow>
     bool \<times> ('n, 'w, 'r, 'a) ros_scheme" where
  "syncRosClock P timeout_ms s =
     (case rmw_sync_session P timeout_ms (rmw s) of (ok, r) \<Rightarrow>
        let s = s\<lparr>rmw := r, ros_log := Sync ok # ros_log s\<rparr> in
        if \<not> ok then (False, s\<lparr>ros_time_synced := False\<rparr>)
        else case millis (s\<lparr>ros_time_synced := True\<rparr>) of (now, s) \<Rightarrow>
          (True, s\<lparr>last_ros_time_sync_ms := now\<rparr>))"

definition time_of_ms :: "u64 \<Rightarrow> ros_time" where
  "time_of_ms time_ms =
     \<lparr>sec = sint (ucast (time_ms div 1000) :: u32),
      nanosec = ucast (time_ms mod 1000) * 1000000\<rparr>"

text \<open>
  The signed sums of the source do not overflow for epochs below \<open>2^63 - 2^32\<close> milliseconds;
  there they are the wrapping sums written here.
\<close>

definition setRosTimeFromMillis ::
    "('n, 'w, 'r, 'z) firmware_platform_scheme \<Rightarrow> u32 \<Rightarrow> ('n, 'w, 'r, 'a) ros_scheme \<Rightarrow>
     ros_time \<times> ('n, 'w, 'r, 'a) ros_scheme" where
  "setRosTimeFromMillis P now_ms s =
     (if \<not> ros_time_synced s then (time_of_ms (ucast now_ms), s)
      else case rmw_epoch_millis P (rmw s) of (epoch_ms, r) \<Rightarrow>
        let s = s\<lparr>rmw := r\<rparr> in
        if sint epoch_ms \<le> 0 then (time_of_ms (ucast now_ms), s)
        else case millis s of (now_local_ms, s) \<Rightarrow>
          (time_of_ms (ucast now_ms + (epoch_ms - ucast now_local_ms)), s))"

definition setYawQuaternion :: "('n, 'w, 'z) platform_scheme \<Rightarrow> f32 \<Rightarrow> quat" where
  "setYawQuaternion P yaw =
     (let half = fmul (flit (5 / 10)) yaw in (Fin 0, Fin 0, sinf P half, cosf P half))"

section \<open>Message templates\<close>

definition zero_header :: "string \<Rightarrow> header" where
  "zero_header frame = \<lparr>stamp = \<lparr>sec = 0, nanosec = 0\<rparr>, frame_id = setRosString frame\<rparr>"

definition zero3 :: vec3 where
  "zero3 = (Fin 0, Fin 0, Fin 0)"

definition zero4 :: quat where
  "zero4 = (Fin 0, Fin 0, Fin 0, Fin 0)"

text \<open>A 3 by 3 covariance with one value on the diagonal, a 6 by 6 with six.\<close>

definition diag3 :: "f64 \<Rightarrow> f64 list" where
  "diag3 v = (replicate 9 (Fin 0))[0 := v, 4 := v, 8 := v]"

definition diag6 :: "f64 \<Rightarrow> f64 \<Rightarrow> f64 \<Rightarrow> f64 \<Rightarrow> f64 \<Rightarrow> f64 \<Rightarrow> f64 list" where
  "diag6 a b c d e f =
     (replicate 36 (Fin 0))[0 := a, 7 := b, 14 := c, 21 := d, 28 := e, 35 := f]"

definition initStandardRosMessages :: "('n, 'w, 'r, 'a) ros_scheme \<Rightarrow> ('n, 'w, 'r, 'a) ros_scheme" where
  "initStandardRosMessages s = s\<lparr>
     imu_msg := \<lparr>imu_header = zero_header ''imu_link'',
       im_orientation = zero4, im_orientation_covariance = diag3 (dlit (2 / 10)),
       im_angular_velocity = zero3, im_angular_velocity_covariance = diag3 (dlit (2 / 10)),
       im_linear_acceleration = zero3, im_linear_acceleration_covariance = diag3 (dlit (2 / 10))\<rparr>,
     mag_msg := \<lparr>mag_header = zero_header ''imu_link'', magnetic_field = zero3,
       magnetic_field_covariance = diag3 (dlit (25 / 10 ^ 13))\<rparr>,
     odom_msg := \<lparr>odom_header = zero_header ''odom'',
       child_frame_id = setRosString ''base_link'', position = zero3, om_orientation = zero4,
       pose_covariance = diag6 (dlit (2 / 100)) (dlit (2 / 100)) (Fin 99999) (Fin 99999)
         (Fin 99999) (dlit (1 / 10)),
       twist_linear = zero3, twist_angular = zero3,
       twist_covariance = diag6 (dlit (5 / 100)) (dlit (5 / 100)) (Fin 99999) (Fin 99999)
         (Fin 99999) (dlit (2 / 10))\<rparr>,
     tf_msg := \<lparr>tf_header = zero_header ''odom'', tf_child_frame_id = setRosString ''base_link'',
       translation = zero3, rotation = zero4\<rparr>\<rparr>"

section \<open>Callbacks\<close>

definition cmdVelCallback ::
    "f64 \<Rightarrow> f64 \<Rightarrow> ('n, 'w, 'r, 'a) ros_scheme \<Rightarrow> ('n, 'w, 'r, 'a) ros_scheme" where
  "cmdVelCallback linear_x angular_z s =
     (if active (mag_cal s) then s
      else case millis (setTargetsFromCmdVel (narrow linear_x) (narrow angular_z) s) of
        (now, s) \<Rightarrow> s\<lparr>last_cmd_ms := now\<rparr>)"

definition rpmCmdCallback ::
    "f32 list \<Rightarrow> ('n, 'w, 'r, 'a) ros_scheme \<Rightarrow> ('n, 'w, 'r, 'a) ros_scheme" where
  "rpmCmdCallback msg s =
     (if active (mag_cal s) then s
      else if 2 \<le> length msg then
        (case millis (s\<lparr>m1_target_rpm := msg ! 0, m2_target_rpm := msg ! 1\<rparr>) of
           (now, s) \<Rightarrow> s\<lparr>last_cmd_ms := now\<rparr>)
      else s)"

definition pidConfigCallback ::
    "('n, 'z) prefs_scheme \<Rightarrow> f32 list \<Rightarrow> ('n, 'w, 'r, 'a) ros_scheme \<Rightarrow> ('n, 'w, 'r, 'a) ros_scheme" where
  "pidConfigCallback P msg s =
     (if length msg < 3 then s
      else
        let kp = msg ! 0; ki = msg ! 1; kd = msg ! 2;
            s = s\<lparr>m1_pid := pid_SetGains kp ki kd (m1_pid s),
                  m2_pid := pid_SetGains kp ki kd (m2_pid s)\<rparr>;
            s = s\<lparr>m1_pid := pid_Reset (m1_pid s), m2_pid := pid_Reset (m2_pid s)\<rparr>
        in savePidGainsToNvs P kp ki kd s)"

definition calibrateMagCallback ::
    "('n, 'z) prefs_scheme \<Rightarrow> bool \<Rightarrow> ('n, 'w, 'r, 'a) ros_scheme \<Rightarrow> ('n, 'w, 'r, 'a) ros_scheme" where
  "calibrateMagCallback P data s =
     (if data then (case millis s of (now, s) \<Rightarrow> startMagCalibration now s)
      else finishMagCalibration P True s)"

definition deliver ::
    "('n, 'z) prefs_scheme \<Rightarrow> delivery \<Rightarrow> ('n, 'w, 'r, 'a) ros_scheme \<Rightarrow> ('n, 'w, 'r, 'a) ros_scheme" where
  "deliver P d s = (case d of
       Cmd_Vel x z \<Rightarrow> cmdVelCallback x z s
     | Rpm_Cmd xs \<Rightarrow> rpmCmdCallback xs (s\<lparr>rpm_cmd_msg := xs\<rparr>)
     | Pid_Config xs \<Rightarrow> pidConfigCallback P xs (s\<lparr>pid_config_msg := xs\<rparr>)
     | Calibrate_Mag b \<Rightarrow> calibrateMagCallback P b s)"

section \<open>Entities\<close>

definition rclInit ::
    "('n, 'w, 'r, 'z) firmware_platform_scheme \<Rightarrow> entity \<Rightarrow> ('n, 'w, 'r, 'a) ros_scheme \<Rightarrow>
     bool \<times> ('n, 'w, 'r, 'a) ros_scheme" where
  "rclInit P e s = (case rcl_init P e (rmw s) of (ok, r) \<Rightarrow>
     (ok, s\<lparr>rmw := r, ros_log := Init e ok # ros_log s\<rparr>))"

text \<open>A run of \<open>if (\<dots>_init(\<dots>) != RCL_RET_OK) return false;\<close> statements.\<close>

fun init_all ::
    "('n, 'w, 'r, 'z) firmware_platform_scheme \<Rightarrow> entity list \<Rightarrow> ('n, 'w, 'r, 'a) ros_scheme \<Rightarrow>
     bool \<times> ('n, 'w, 'r, 'a) ros_scheme" where
  "init_all P [] s = (True, s)"
| "init_all P (e # es) s =
     (case rclInit P e s of (ok, s) \<Rightarrow> if ok then init_all P es s else (False, s))"

definition ros_subscriptions :: "entity list" where
  "ros_subscriptions =
     [Subscription Twist ''/cmd_vel'', Subscription Float32MultiArray ''/motor_rpm_cmd'',
      Subscription Float32MultiArray ''/pid_config'', Subscription Bool ''/calibrate_mag'']"

definition ros_publishers :: "entity list" where
  "ros_publishers =
     [Publisher Float32MultiArray ''/wheel_speeds'',
      Publisher Float32MultiArray ''/motor_rpm_feedback'', Publisher Imu ''/imu/raw'',
      Publisher MagneticField ''/imu/mag'', Publisher Odometry ''/wheel_odom'',
      Publisher Bool ''/imu/status/valid'', Publisher Bool ''/mag/status/valid''] @
     (if PUBLISH_RAW_ODOM_TF then [Publisher TFMessage ''/tf''] else [])"

definition ros_handlers :: "entity list" where
  "ros_handlers =
     [Handler Twist ''/cmd_vel'', Handler Float32MultiArray ''/motor_rpm_cmd'',
      Handler Float32MultiArray ''/pid_config'', Handler Bool ''/calibrate_mag'']"

definition createRosEntities ::
    "('n, 'w, 'r, 'z) firmware_platform_scheme \<Rightarrow> ('n, 'w, 'r, 'a) ros_scheme \<Rightarrow>
     bool \<times> ('n, 'w, 'r, 'a) ros_scheme" where
  "createRosEntities P s =
     (case init_all P [Support, Node] s of (ok, s) \<Rightarrow>
      if \<not> ok then (False, s)
      else case init_all P (ros_subscriptions @ ros_publishers) (snd (syncRosClock P 1000 s)) of
        (ok, s) \<Rightarrow>
          if \<not> ok then (False, s)
          else case init_all P (Executor # ros_handlers)
              (initStandardRosMessages (s\<lparr>rpm_cmd_msg := [], pid_config_msg := []\<rparr>)) of
            (ok, s) \<Rightarrow> if \<not> ok then (False, s) else (True, s\<lparr>ros_entities_created := True\<rparr>))"

fun fini_all ::
    "('n, 'w, 'r, 'z) firmware_platform_scheme \<Rightarrow> entity list \<Rightarrow> ('n, 'w, 'r, 'a) ros_scheme \<Rightarrow>
     ('n, 'w, 'r, 'a) ros_scheme" where
  "fini_all P [] s = s"
| "fini_all P (e # es) s =
     fini_all P es (s\<lparr>rmw := rcl_fini P e (rmw s), ros_log := Fini e # ros_log s\<rparr>)"

definition destroyRosEntities ::
    "('n, 'w, 'r, 'z) firmware_platform_scheme \<Rightarrow> ('n, 'w, 'r, 'a) ros_scheme \<Rightarrow> ('n, 'w, 'r, 'a) ros_scheme" where
  "destroyRosEntities P s =
     (if \<not> ros_entities_created s then s
      else (fini_all P (rev ros_subscriptions @ rev ros_publishers @ [Node, Executor, Support]) s)
        \<lparr>ros_time_synced := False, ros_entities_created := False\<rparr>)"

section \<open>Telemetry\<close>

definition publish ::
    "('n, 'w, 'r, 'z) firmware_platform_scheme \<Rightarrow> publication \<Rightarrow> ('n, 'w, 'r, 'a) ros_scheme \<Rightarrow>
     ('n, 'w, 'r, 'a) ros_scheme" where
  "publish P m s = s\<lparr>rmw := rcl_publish P m (rmw s), ros_log := Publish m # ros_log s\<rparr>"

definition imu_quaternion ::
    "('n, 'w, 'z) platform_scheme \<Rightarrow> f32 \<Rightarrow> imu_data \<Rightarrow> quat" where
  "imu_quaternion P yaw d =
     (let roll = atan2f P (accel_y d) (accel_z d);
          pitch = atan2f P (fneg (accel_x d))
            (sqrtf P (fadd (fmul (accel_y d) (accel_y d)) (fmul (accel_z d) (accel_z d))));
          h = flit (5 / 10);
          cr = cosf P (fmul roll h); sr = sinf P (fmul roll h);
          cp = cosf P (fmul pitch h); sp = sinf P (fmul pitch h);
          cy = cosf P (fmul yaw h); sy = sinf P (fmul yaw h)
      in (fsub (fmul (fmul sr cp) cy) (fmul (fmul cr sp) sy),
          fadd (fmul (fmul cr sp) cy) (fmul (fmul sr cp) sy),
          fsub (fmul (fmul cr cp) sy) (fmul (fmul sr sp) cy),
          fadd (fmul (fmul cr cp) cy) (fmul (fmul sr sp) sy)))"

text \<open>The parts of \<open>publishWheelSpeeds\<close>, in its order.\<close>

definition publishImu ::
    "('n, 'w, 'r, 'z) firmware_platform_scheme \<Rightarrow> u32 \<Rightarrow> ('n, 'w, 'r, 'a) ros_scheme \<Rightarrow>
     ('n, 'w, 'r, 'a) ros_scheme" where
  "publishImu P now_ms s =
     (let (t, s) = setRosTimeFromMillis P now_ms s;
          d = imu_data s;
          s = s\<lparr>imu_msg := (imu_msg s)\<lparr>
                imu_header := (imu_header (imu_msg s))\<lparr>stamp := t\<rparr>,
                im_linear_acceleration := (accel_x d, accel_y d, accel_z d),
                im_angular_velocity := (gyro_x d, gyro_y d, gyro_z d),
                im_orientation := imu_quaternion P (yaw_rad (orientation s)) d\<rparr>\<rparr>
      in publish P (Pub_Imu (imu_msg s)) s)"

definition publishMag ::
    "('n, 'w, 'r, 'z) firmware_platform_scheme \<Rightarrow> u32 \<Rightarrow> ('n, 'w, 'r, 'a) ros_scheme \<Rightarrow>
     ('n, 'w, 'r, 'a) ros_scheme" where
  "publishMag P now_ms s =
     (let (t, s) = setRosTimeFromMillis P now_ms s;
          c = compass_data s;
          s = s\<lparr>mag_msg := (mag_msg s)\<lparr>
                mag_header := (mag_header (mag_msg s))\<lparr>stamp := t\<rparr>,
                magnetic_field := (fmul (mag_x c) UT_TO_TESLA, fmul (mag_y c) UT_TO_TESLA,
                  fmul (mag_z c) UT_TO_TESLA)\<rparr>\<rparr>
      in publish P (Pub_Mag (mag_msg s)) s)"

definition publishOdom ::
    "('n, 'w, 'r, 'z) firmware_platform_scheme \<Rightarrow> u32 \<Rightarrow> ('n, 'w, 'r, 'a) ros_scheme \<Rightarrow>
     ('n, 'w, 'r, 'a) ros_scheme" where
  "publishOdom P now_ms s =
     (let (t, s) = setRosTimeFromMillis P now_ms s;
          d = odom s;
          s = s\<lparr>odom_msg := (odom_msg s)\<lparr>
                odom_header := (odom_header (odom_msg s))\<lparr>stamp := t\<rparr>,
                position := (x_m d, y_m d, Fin 0),
                om_orientation := setYawQuaternion P (theta_rad d),
                twist_linear := (linear_mps d, Fin 0, snd (snd (twist_linear (odom_msg s)))),
                twist_angular := (fst (twist_angular (odom_msg s)),
                  fst (snd (twist_angular (odom_msg s))), angular_radps d)\<rparr>\<rparr>
      in publish P (Pub_Odom (odom_msg s)) s)"

definition publishTf ::
    "('n, 'w, 'r, 'z) firmware_platform_scheme \<Rightarrow> u32 \<Rightarrow> ('n, 'w, 'r, 'a) ros_scheme \<Rightarrow>
     ('n, 'w, 'r, 'a) ros_scheme" where
  "publishTf P now_ms s =
     (let (t, s) = setRosTimeFromMillis P now_ms s;
          d = odom s;
          s = s\<lparr>tf_msg := (tf_msg s)\<lparr>
                tf_header := (tf_header (tf_msg s))\<lparr>stamp := t\<rparr>,
                translation := (x_m d, y_m d, Fin 0),
                rotation := setYawQuaternion P (theta_rad d)\<rparr>\<rparr>
      in publish P (Pub_Tf (tf_msg s)) s)"

definition publishWheelSpeeds ::
    "('n, 'w, 'r, 'z) firmware_platform_scheme \<Rightarrow> ('n, 'w, 'r, 'a) ros_scheme \<Rightarrow> ('n, 'w, 'r, 'a) ros_scheme" where
  "publishWheelSpeeds P s =
     (if \<not> ros_entities_created s then s
      else
        let (now_ms, s) = millis s;
            s = publish P (Pub_Wheel [m1_target_rpm s, m2_target_rpm s,
                  m1_measured_rpm s, m2_measured_rpm s]) s;
            s = publish P (Pub_Rpm_Feedback [m1_measured_rpm s, m2_measured_rpm s]) s;
            s = publishOdom P now_ms (publishMag P now_ms (publishImu P now_ms s));
            s = publish P (Pub_Imu_Status (imu_data_valid s)) s;
            s = publish P (Pub_Mag_Status (compass_data_valid s)) s
        in if PUBLISH_RAW_ODOM_TF then publishTf P now_ms s else s)"

section \<open>Setup and loop\<close>

definition setup_fn ::
    "('n, 'w, 'r, 'z) firmware_platform_scheme \<Rightarrow> ('n, 'w, 'r, 'a) ros_scheme \<Rightarrow> ('n, 'w, 'r, 'a) ros_scheme" where
  "setup_fn P s =
     (let s = emits [Serial_Begin 115200, Delay 1500] s;
          s = initMotorPinsAndPwm s;
          s = initEncoders s;
          s = initI2cAndSensors P s;
          s = loadPidGainsFromNvsAndApply P s;
          s = loadMagOffsetsFromNvs P s;
          (now, s) = millis s
      in emit Set_Microros_Transports (s\<lparr>last_cmd_ms := now\<rparr>))"

text \<open>The static initialisers of \<open>loop\<close>, which run on its first call.\<close>

definition enter_loop :: "('n, 'w, 'r, 'a) ros_scheme \<Rightarrow> ('n, 'w, 'r, 'a) ros_scheme" where
  "enter_loop s =
     (if loop_entered s then s
      else
        let (t1, s) = millis s; (t2, s) = millis s
        in s\<lparr>loop_entered := True, last_control_ms := t1, last_telemetry_ms := t2,
             last_agent_check_ms := 0\<rparr>)"

definition checkAgent ::
    "('n, 'w, 'r, 'z) firmware_platform_scheme \<Rightarrow> u32 \<Rightarrow> ('n, 'w, 'r, 'a) ros_scheme \<Rightarrow>
     ('n, 'w, 'r, 'a) ros_scheme" where
  "checkAgent P now s =
     (if elapsed now (last_agent_check_ms s) < 500 then s
      else case rmw_ping_agent P 50 1 (rmw s) of (agent_ok, r) \<Rightarrow>
        let s = s\<lparr>last_agent_check_ms := now, rmw := r, ros_log := Ping agent_ok # ros_log s\<rparr> in
        if agent_state s = Waiting \<and> agent_ok then
          (case createRosEntities P s of (ok, s) \<Rightarrow>
             if ok then s\<lparr>agent_state := Connected\<rparr> else s)
        else if agent_state s = Connected \<and> \<not> agent_ok then
          let s = destroyRosEntities P s
          in stopMotors (s\<lparr>agent_state := Waiting, m1_target_rpm := flit 0, m2_target_rpm := flit 0,
               m1_pid := pid_Reset (m1_pid s), m2_pid := pid_Reset (m2_pid s)\<rparr>)
        else s)"

definition controlTick ::
    "('n, 'w, 'z) platform_scheme \<Rightarrow> u32 \<Rightarrow> ('n, 'w, 'r, 'a) ros_scheme \<Rightarrow> ('n, 'w, 'r, 'a) ros_scheme res" where
  "controlTick P now s =
     (if elapsed now (last_control_ms s) < CONTROL_PERIOD_MS then Inr s
      else runControlStep P (elapsed now (last_control_ms s)) (s\<lparr>last_control_ms := now\<rparr>))"

definition serviceRos ::
    "('n, 'w, 'r, 'z) firmware_platform_scheme \<Rightarrow> u32 \<Rightarrow> ('n, 'w, 'r, 'a) ros_scheme \<Rightarrow>
     ('n, 'w, 'r, 'a) ros_scheme" where
  "serviceRos P now s =
     (if agent_state s \<noteq> Connected then s
      else
        let s = (if ROS_TIME_SYNC_PERIOD_MS \<le> elapsed now (last_ros_time_sync_ms s)
                 then snd (syncRosClock P 100 s) else s)
        in case executor_spin_some P (rmw s) of (ds, r) \<Rightarrow>
          let s = fold (deliver P) ds (s\<lparr>rmw := r\<rparr>)
          in if TELEMETRY_PERIOD_MS \<le> elapsed now (last_telemetry_ms s)
             then publishWheelSpeeds P (s\<lparr>last_telemetry_ms := now\<rparr>) else s)"

definition loop ::
    "('n, 'w, 'r, 'z) firmware_platform_scheme \<Rightarrow> ('n, 'w, 'r, 'a) ros_scheme \<Rightarrow>
     ('n, 'w, 'r, 'a) ros_scheme res" where
  "loop P s =
     (let (now, s) = millis (enter_loop s) in
      bind_res (readCompassData P now (readImuData P now s)) (\<lambda>s.
      bind_res (updateYawEstimate now s) (\<lambda>s.
      bind_res (controlTick P now (checkAgent P now
          (logSensorData now (updateMagCalibrationMode P now s)))) (\<lambda>s.
        Inr (serviceRos P now s)))))"

section \<open>Time stamps\<close>

lemma uint_time_of_ms:
  "uint (nanosec (time_of_ms t)) = (uint t mod 1000) * 1000000"
  "uint t < 2 ^ 31 * 1000 \<Longrightarrow> sec (time_of_ms t) = uint t div 1000"
proof -
  have m: "uint (t mod 1000) = uint t mod 1000" and d: "uint (t div 1000) = uint t div 1000"
    by (simp_all add: uint_mod uint_div)
  have "0 \<le> uint t mod 1000" "uint t mod 1000 < 1000"
    by simp_all
  then show "uint (nanosec (time_of_ms t)) = (uint t mod 1000) * 1000000"
    by (simp add: time_of_ms_def uint_word_ariths unsigned_ucast_eq take_bit_int_eq_self m)
  assume "uint t < 2 ^ 31 * 1000"
  moreover have "uint t = 1000 * (uint t div 1000) + uint t mod 1000" "0 \<le> uint t mod 1000"
    by simp_all
  ultimately have "uint t div 1000 < 2 ^ 31"
    by linarith
  moreover have "0 \<le> uint t div 1000"
    by (simp add: pos_imp_zdiv_nonneg_iff)
  moreover note d
  ultimately show "sec (time_of_ms t) = uint t div 1000"
    by (simp add: time_of_ms_def sint_uint unsigned_ucast_eq d take_bit_int_eq_self
        signed_take_bit_int_eq_self)
qed

lemma time_of_ms_total:
  "uint t < 2 ^ 31 * 1000 \<Longrightarrow>
   sec (time_of_ms t) * 1000 + uint (nanosec (time_of_ms t)) div 1000000 = uint t"
  by (simp add: uint_time_of_ms)

definition stamp_ms :: "ros_time \<Rightarrow> int" where
  "stamp_ms t = sec t * 1000 + uint (nanosec t) div 1000000"

text \<open>Time stamps are well formed and mean the time they are given. The nanoseconds are
  always below 10^9. Without clock synchronisation the stamp is the local time in milliseconds;
  with it, and an agent epoch before 2038, it is the epoch shifted by the age of the argument,
  whichever of the two clock readings is the later one.\<close>

theorem ros_time_stamp:
  assumes "sint (fst (rmw_epoch_millis P (rmw s))) < 2 ^ 31 * 1000 - 2 ^ 32"
    and "2 ^ 32 \<le> sint (fst (rmw_epoch_millis P (rmw s)))"
  shows "let t = fst (setRosTimeFromMillis P now_ms s);
       epoch = sint (fst (rmw_epoch_millis P (rmw s)))
     in uint (nanosec t) < 10 ^ 9 \<and>
        stamp_ms t = (if ros_time_synced s then epoch + (uint now_ms - uint (clk s (clk_i s)))
                      else uint now_ms)"
proof -
  obtain e r where er: "rmw_epoch_millis P (rmw s) = (e, r)"
    by (cases "rmw_epoch_millis P (rmw s)")
  have e: "sint e < 2 ^ 31 * 1000 - 2 ^ 32" "2 ^ 32 \<le> sint e"
    using assms by (simp_all add: er)
  have ue: "uint e = sint e"
  proof -
    have u: "uint e < 2 ^ 64"
      using uint_lt2p [of e] by simp
    then have "sint e = uint e - 2 ^ 64 * of_bool (bit (uint e) 63)"
      by (simp add: sint_uint signed_take_bit_eq_take_bit_minus take_bit_int_eq_self)
    moreover note u
    ultimately show ?thesis
      using e(2) by (cases "bit (uint e) 63") simp_all
  qed
  let ?n = "uint now_ms" and ?l = "uint (clk s (clk_i s))"
  have b: "0 \<le> ?n" "?n < 2 ^ 32" "0 \<le> ?l" "?l < 2 ^ 32"
    using uint_lt2p [of now_ms] uint_lt2p [of "clk s (clk_i s)"] by simp_all
  have k: "0 \<le> ?l" "?l < 4294967296" "0 \<le> ?n" "?n < 4294967296" "sint e < 2143188680704"
    "4294967296 \<le> sint e"
    using e b by simp_all
  then have small: "sint e + (?n - ?l) < 2147483648000"
    by linarith
  have "0 \<le> ?n + (sint e - ?l)" "?n + (sint e - ?l) < 18446744073709551616"
    using k by linarith+
  then have m: "(?n + (sint e - ?l)) mod 2 ^ 64 = sint e + (?n - ?l)"
    by (simp add: mod_pos_pos_trivial)
  have sum: "uint (ucast now_ms + (e - ucast (clk s (clk_i s)))) = sint e + (?n - ?l)"
    unfolding uint_word_ariths using e b
    by (simp add: unsigned_ucast_eq take_bit_int_eq_self ue mod_simps m [simplified])
  have "stamp_ms (time_of_ms (ucast now_ms)) = ?n"
    using time_of_ms_total [of "ucast now_ms"] b
    by (simp add: stamp_ms_def unsigned_ucast_eq take_bit_int_eq_self)
  moreover have "stamp_ms (time_of_ms (ucast now_ms + (e - ucast (clk s (clk_i s))))) = sint e + (?n - ?l)"
    using time_of_ms_total [of "ucast now_ms + (e - ucast (clk s (clk_i s)))"] small
    unfolding stamp_ms_def sum by simp
  moreover have "uint (nanosec (time_of_ms t)) < 10 ^ 9" for t
    using pos_mod_bound [of 1000 "uint t"] unfolding uint_time_of_ms by simp
  ultimately show ?thesis
    using e(2) by (simp add: setRosTimeFromMillis_def er Let_def millis_def)
qed

section \<open>Life of the entities\<close>

fun is_handler :: "entity \<Rightarrow> bool" where
  "is_handler (Handler t n) = True"
| "is_handler _ = False"

text \<open>An entity is alive after a successful initialisation until it, or the executor it hangs on,
  is destroyed.\<close>

fun alive :: "ros_call list \<Rightarrow> entity \<Rightarrow> bool" where
  "alive [] e = False"
| "alive (Init e' ok # cs) e = ((e' = e \<and> ok) \<or> alive cs e)"
| "alive (Fini e' # cs) e = (e' \<noteq> e \<and> \<not> (e' = Executor \<and> is_handler e) \<and> alive cs e)"
| "alive (Publish m # cs) e = alive cs e"
| "alive (Sync ok # cs) e = alive cs e"
| "alive (Ping ok # cs) e = alive cs e"

definition all_entities :: "entity list" where
  "all_entities = [Support, Node] @ ros_subscriptions @ ros_publishers @ Executor # ros_handlers"

fun creates_only :: "ros_call \<Rightarrow> bool" where
  "creates_only (Init e ok) = True"
| "creates_only (Sync ok) = True"
| "creates_only _ = False"

lemma alive_append: "list_all creates_only cs \<Longrightarrow> alive (cs @ ds) e \<longleftrightarrow> Init e True \<in> set cs \<or> alive ds e"
proof (induction cs)
  case (Cons c cs)
  then show ?case
    by (cases c) auto
qed simp

definition inits :: "entity list \<Rightarrow> ros_call list" where
  "inits es = map (\<lambda>e. Init e True) (rev es)"

lemma creates_only_inits [simp]: "list_all creates_only (inits es)"
  by (simp add: inits_def list_all_iff)

lemma inits_mem [simp]: "Init e True \<in> set (inits es) \<longleftrightarrow> e \<in> set es"
  by (auto simp: inits_def)

text \<open>Everything but the middleware and its trace.\<close>

lemma init_all_ex:
  "\<exists>b r cs. init_all P es s = (b, s\<lparr>rmw := r, ros_log := cs @ ros_log s\<rparr>) \<and>
     list_all creates_only cs \<and> (b \<longrightarrow> cs = inits es)"
proof (induction es arbitrary: s)
  case Nil
  show ?case
    by (intro exI [of _ True] exI [of _ "rmw s"] exI [of _ "[]"]) (simp add: inits_def)
next
  case (Cons e es)
  obtain ok r where i: "rcl_init P e (rmw s) = (ok, r)"
    by (cases "rcl_init P e (rmw s)")
  let ?s = "s\<lparr>rmw := r, ros_log := Init e ok # ros_log s\<rparr>"
  show ?case
  proof (cases ok)
    case True
    obtain b r' cs where c: "init_all P es ?s = (b, ?s\<lparr>rmw := r', ros_log := cs @ ros_log ?s\<rparr>)"
      "list_all creates_only cs" "b \<longrightarrow> cs = inits es"
      using Cons.IH [of ?s] by blast
    show ?thesis
      by (intro exI [of _ b] exI [of _ r'] exI [of _ "cs @ [Init e True]"])
        (use i True c in \<open>simp add: rclInit_def inits_def\<close>)
  next
    case False
    show ?thesis
      by (intro exI [of _ False] exI [of _ r] exI [of _ "[Init e False]"])
        (use i False in \<open>simp add: rclInit_def\<close>)
  qed
qed

text \<open>What a control step reads of the estimates and counters.\<close>

definition motion_view :: "('n, 'w, 'r, 'a) ros_scheme \<Rightarrow>
    (f32 \<times> f32 \<times> odom_state) \<times> (u32 \<times> int \<times> int) \<times> (int \<times> int \<times> int \<times> int) \<times> u32" where
  "motion_view s = ((m1_measured_rpm s, m2_measured_rpm s, odom s),
     (accum_dt_ms s, accum_m1_delta s, accum_m2_delta s),
     (prev_m1_count s, prev_m2_count s, m1_encoder_count s, m2_encoder_count s), last_control_ms s)"

definition keeps_motion :: "('n, 'w, 'r, 'a) ros_scheme \<Rightarrow> ('n, 'w, 'r, 'a) ros_scheme \<Rightarrow> bool" where
  "keeps_motion s s' \<longleftrightarrow> io s' = io s \<and> m1_pid s' = m1_pid s \<and> m2_pid s' = m2_pid s \<and>
     agent_state s' = agent_state s \<and> mag_cal s' = mag_cal s \<and>
     m1_target_rpm s' = m1_target_rpm s \<and> m2_target_rpm s' = m2_target_rpm s \<and>
     motion_view s' = motion_view s"

lemma keeps_motion_refl [simp]: "keeps_motion s s"
  by (simp add: keeps_motion_def)

lemma keeps_motion_trans: "keeps_motion s t \<Longrightarrow> keeps_motion t u \<Longrightarrow> keeps_motion s u"
  by (simp add: keeps_motion_def)

lemma syncRosClock_frame:
  obtains b where "keeps_motion s (snd (syncRosClock P t s))"
    "ros_log (snd (syncRosClock P t s)) = Sync b # ros_log s"
    "ros_entities_created (snd (syncRosClock P t s)) = ros_entities_created s"
  by (cases "rmw_sync_session P t (rmw s)"; cases "fst (rmw_sync_session P t (rmw s))")
    (auto simp: syncRosClock_def millis_def keeps_motion_def motion_view_def Let_def)

text \<open>
  Creating the entities only adds calls to the trace; when it succeeds every entity is
  initialised, and the created flag is set exactly then.
\<close>

lemma createRosEntities_frame:
  obtains b s' cs where "createRosEntities P s = (b, s')" "keeps_motion s s'"
    "ros_log s' = cs @ ros_log s" "list_all creates_only cs"
    "ros_entities_created s' = (b \<or> ros_entities_created s)"
    "b \<Longrightarrow> \<forall>e \<in> set all_entities. Init e True \<in> set cs"
proof -
  obtain b1 r1 c1 where 1: "init_all P [Support, Node] s = (b1, s\<lparr>rmw := r1, ros_log := c1 @ ros_log s\<rparr>)"
    "list_all creates_only c1" "b1 \<Longrightarrow> c1 = inits [Support, Node]"
    using init_all_ex [of P "[Support, Node]" s] by blast
  let ?s1 = "s\<lparr>rmw := r1, ros_log := c1 @ ros_log s\<rparr>"
  show thesis
  proof (cases b1)
    case False
    show thesis
      by (rule that [of False ?s1 c1]) (use 1 False in \<open>simp_all add: createRosEntities_def keeps_motion_def motion_view_def\<close>)
  next
    case b1: True
    let ?s2 = "snd (syncRosClock P 1000 ?s1)"
    obtain sb where s2: "keeps_motion ?s1 ?s2" "ros_log ?s2 = Sync sb # ros_log ?s1"
      "ros_entities_created ?s2 = ros_entities_created ?s1"
      by (rule syncRosClock_frame)
    obtain b2 r2 c2 where 2: "init_all P (ros_subscriptions @ ros_publishers) ?s2 =
        (b2, ?s2\<lparr>rmw := r2, ros_log := c2 @ ros_log ?s2\<rparr>)"
      "list_all creates_only c2" "b2 \<Longrightarrow> c2 = inits (ros_subscriptions @ ros_publishers)"
      using init_all_ex [of P "ros_subscriptions @ ros_publishers" ?s2] by blast
    let ?s3 = "?s2\<lparr>rmw := r2, ros_log := c2 @ ros_log ?s2\<rparr>"
    have k3: "keeps_motion s ?s3"
      using s2(1) by (simp add: keeps_motion_def motion_view_def)
    show thesis
    proof (cases b2)
      case False
      show thesis
        by (rule that [of False ?s3 "c2 @ Sync sb # c1"])
          (use 1 2 b1 False s2 k3 in \<open>simp_all add: createRosEntities_def\<close>)
    next
      case b2: True
      let ?s4 = "initStandardRosMessages (?s3\<lparr>rpm_cmd_msg := [], pid_config_msg := []\<rparr>)"
      have s4: "keeps_motion ?s3 ?s4" "ros_log ?s4 = ros_log ?s3"
        "ros_entities_created ?s4 = ros_entities_created ?s3"
        by (simp_all add: initStandardRosMessages_def keeps_motion_def motion_view_def)
      obtain b3 r3 c3 where 3: "init_all P (Executor # ros_handlers) ?s4 =
          (b3, ?s4\<lparr>rmw := r3, ros_log := c3 @ ros_log ?s4\<rparr>)"
        "list_all creates_only c3" "b3 \<Longrightarrow> c3 = inits (Executor # ros_handlers)"
        using init_all_ex [of P "Executor # ros_handlers" ?s4] by blast
      let ?s5 = "?s4\<lparr>rmw := r3, ros_log := c3 @ ros_log ?s4\<rparr>"
      let ?s6 = "if b3 then ?s5\<lparr>ros_entities_created := True\<rparr> else ?s5"
      have "createRosEntities P s = (b3, ?s6)"
        using 1 2 3 b1 b2 by (simp add: createRosEntities_def split del: if_split) simp
      moreover have "keeps_motion s ?s6"
        using keeps_motion_trans [OF k3 s4(1)] by (simp add: keeps_motion_def motion_view_def)
      moreover have "ros_log ?s6 = (c3 @ c2 @ Sync sb # c1) @ ros_log s"
        using s2 s4 by simp
      moreover have "list_all creates_only (c3 @ c2 @ Sync sb # c1)"
        using 1 2 3 by simp
      moreover have "ros_entities_created ?s6 = (b3 \<or> ros_entities_created s)"
        using s2 s4 by simp
      moreover have "\<forall>e \<in> set all_entities. Init e True \<in> set (c3 @ c2 @ Sync sb # c1)" if b3
        using 1(3) [OF b1] 2(3) [OF b2] 3(3) [OF that] by (simp add: all_entities_def) blast
      ultimately show thesis
        by (rule that)
    qed
  qed
qed

lemma fini_all_frame:
  "\<exists>r. fini_all P es s = s\<lparr>rmw := r, ros_log := map Fini (rev es) @ ros_log s\<rparr>"
proof (induction es arbitrary: s)
  case Nil
  show ?case
    by (intro exI [of _ "rmw s"]) simp
next
  case (Cons e es)
  show ?case
    using Cons.IH [of "s\<lparr>rmw := rcl_fini P e (rmw s), ros_log := Fini e # ros_log s\<rparr>"] by auto
qed

definition fini_order :: "entity list" where
  "fini_order = rev ros_subscriptions @ rev ros_publishers @ [Node, Executor, Support]"

lemma destroyRosEntities_frame:
  assumes "ros_entities_created s"
  obtains r where "destroyRosEntities P s = s\<lparr>rmw := r, ros_log := map Fini (rev fini_order) @ ros_log s,
    ros_time_synced := False, ros_entities_created := False\<rparr>"
  using assms fini_all_frame [of P fini_order s]
  by (auto simp: destroyRosEntities_def fini_order_def)

lemma not_alive_fini: "alive (map Fini es @ cs) e \<Longrightarrow> e \<notin> set es \<and> (Executor \<in> set es \<longrightarrow> \<not> is_handler e)"
  by (induction es) auto

lemma destroyed_all: "e \<in> set all_entities \<Longrightarrow> \<not> alive (map Fini (rev fini_order) @ cs) e"
  using not_alive_fini [of "rev fini_order" cs e]
  by (auto simp: all_entities_def fini_order_def ros_handlers_def)

section \<open>What each part of the loop preserves\<close>

text \<open>
  \<open>quiet s s'\<close>: between the two states the bridges stay safe, the controllers stay within their
  limits, and nothing changes about the connection.
\<close>

definition quiet :: "('n, 'w, 'r, 'a) ros_scheme \<Rightarrow> ('n, 'w, 'r, 'a) ros_scheme \<Rightarrow> bool" where
  "quiet s s' \<longleftrightarrow> (bridge_safe (io s) \<longrightarrow> bridge_safe (io s')) \<and>
     (pid_ok (m1_pid s) \<longrightarrow> pid_ok (m1_pid s')) \<and> (pid_ok (m2_pid s) \<longrightarrow> pid_ok (m2_pid s')) \<and>
     agent_state s' = agent_state s \<and> ros_entities_created s' = ros_entities_created s \<and>
     (\<forall>e. alive (ros_log s') e = alive (ros_log s) e)"

lemma quiet_trans: "quiet s t \<Longrightarrow> quiet t u \<Longrightarrow> quiet s u"
  by (simp add: quiet_def)

lemma quiet_refl [simp]: "quiet s s"
  by (simp add: quiet_def)

text \<open>Calls other than \<open>ledcWrite\<close> do not move a duty cycle.\<close>

fun is_write :: "hw_call \<Rightarrow> bool" where
  "is_write (Ledc_Write ch d) = True"
| "is_write _ = False"

lemma duty_other [simp]: "\<not> is_write c \<Longrightarrow> duty ch (c # cs) = duty ch cs"
  by (cases c) simp_all

lemma bridge_safe_other [simp]: "\<not> is_write c \<Longrightarrow> bridge_safe (c # cs) = bridge_safe cs"
  by (simp add: bridge_safe_def del: duty.simps)

named_theorems quiet "the steps of the loop are quiet"

lemma quiet_millis [quiet]: "quiet s (snd (millis s))"
  by (simp add: quiet_def)

lemma quiet_readImuData [quiet]: "quiet s (readImuData P now s)"
  by (auto simp: readImuData_def quiet_def split: prod.splits option.splits)

lemma quiet_readCompassData [quiet]: "readCompassData P now s = Inr s' \<Longrightarrow> quiet s s'"
  by (auto simp: readCompassData_def Let_def quiet_def split: prod.splits option.splits if_splits)

lemma quiet_updateYawEstimate [quiet]: "updateYawEstimate now s = Inr s' \<Longrightarrow> quiet s s'"
  by (auto simp: updateYawEstimate_def Let_def quiet_def split: if_splits)

lemma quiet_setTargets [quiet]: "quiet s (setTargetsFromCmdVel x z s)"
  by (simp add: setTargetsFromCmdVel_def Let_def quiet_def)

lemma quiet_saveMag [quiet]: "quiet s (saveMagOffsetsToNvs P x y z s)"
  by (auto simp: saveMagOffsetsToNvs_def quiet_def split: prod.splits)

lemma quiet_emit [quiet]: "\<not> is_write c \<Longrightarrow> quiet s (emit c s)"
  by (simp add: emit_def quiet_def)

lemma quiet_finishMagCalibration [quiet]: "quiet s (finishMagCalibration P b s)"
  by (auto simp: finishMagCalibration_def Let_def millis_def emit_def quiet_def
      saveMagOffsetsToNvs_def split: prod.splits)

lemma quiet_startMagCalibration [quiet]: "quiet s (startMagCalibration now s)"
  by (simp add: startMagCalibration_def setTargetsFromCmdVel_def Let_def emit_def quiet_def)

lemma quiet_set_cmd [quiet]: "quiet s (s\<lparr>last_cmd_ms := t\<rparr>)"
  by (simp add: quiet_def)

lemma quiet_updateMagCalibrationMode [quiet]: "quiet s (updateMagCalibrationMode P now s)"
proof -
  let ?t = "(setTargetsFromCmdVel (flit 0) (angular_speed_radps (mag_cal s)) s)\<lparr>last_cmd_ms := now\<rparr>"
  have "quiet s ?t"
    by (rule quiet_trans [OF quiet_setTargets quiet_set_cmd])
  then show ?thesis
    by (auto simp: updateMagCalibrationMode_def Let_def
        intro: quiet_trans [OF _ quiet_finishMagCalibration])
qed

lemma quiet_logSensorData [quiet]: "quiet s (logSensorData now s)"
  by (simp add: logSensorData_def Let_def emits_eq quiet_def)

lemma quiet_runControlStep [quiet]:
  assumes "runControlStep P dt s = Inr s'"
  shows "quiet s s'"
proof -
  let ?dt = "fdiv (of_u32 dt) (flit 1000)"
  obtain a t where a: "countEdges dt s = Inr a" and t: "integrateOdometry P ?dt (estimateSpeeds a) = Inr t"
    and d: "driveMotors ?dt (checkCmdTimeout t) = Inr s'"
    using assms by (auto simp: runControlStep_def Let_def)
  have "quiet s a"
    by (subst countEdges_frame [OF a]) (simp add: quiet_def)
  moreover have "quiet a (estimateSpeeds a)"
    by (subst estimateSpeeds_frame) (simp add: quiet_def)
  moreover have "quiet (estimateSpeeds a) t"
    by (subst integrateOdometry_frame [OF t]) (simp add: quiet_def)
  moreover have "quiet t (checkCmdTimeout t)"
    by (simp add: checkCmdTimeout_eq quiet_def)
  moreover have "quiet (checkCmdTimeout t) s'"
  proof (cases "stop_requested (checkCmdTimeout t)")
    case True
    then show ?thesis
      using d driveMotors_bridge_safe [OF d]
      by (auto simp: quiet_def driveMotors_stop)
  next
    case False
    let ?c = "checkCmdTimeout t"
    let ?u = "?c\<lparr>m1_pid := snd (pid1 ?dt ?c), m2_pid := snd (pid2 ?dt ?c)\<rparr>"
    obtain p q where s': "s' = drive (kickstart (cmd_active ?c) p q ?u)"
      using d unfolding driveMotors_go [OF False] by auto
    note K = kickstart_frame [of "cmd_active ?c" p q ?u]
    have "m1_pid s' = snd (pid1 ?dt ?c)" "m2_pid s' = snd (pid2 ?dt ?c)"
      "agent_state s' = agent_state ?c" "ros_entities_created s' = ros_entities_created ?c"
      "ros_log s' = ros_log ?c"
      unfolding s' by (subst drive_frame, subst K, simp)+
    then show ?thesis
      using driveMotors_bridge_safe [OF d] pid_Update_ok by (auto simp: quiet_def pid1_def pid2_def)
  qed
  ultimately show ?thesis
    by (meson quiet_trans)
qed

lemma quiet_controlTick [quiet]: "controlTick P now s = Inr s' \<Longrightarrow> quiet s s'"
  using quiet_runControlStep [of P _ "s\<lparr>last_control_ms := now\<rparr>" s']
  by (auto simp: controlTick_def quiet_def split: if_splits)

lemma quiet_cmdVelCallback [quiet]: "quiet s (cmdVelCallback x z s)"
  by (simp add: cmdVelCallback_def setTargetsFromCmdVel_def Let_def millis_def quiet_def)

lemma quiet_rpmCmdCallback [quiet]: "quiet s (rpmCmdCallback xs s)"
  by (simp add: rpmCmdCallback_def millis_def quiet_def)

lemma quiet_pidConfigCallback [quiet]: "quiet s (pidConfigCallback P xs s)"
  by (auto simp: pidConfigCallback_def savePidGainsToNvs_def Let_def quiet_def split: prod.splits)

lemma quiet_calibrateMagCallback [quiet]: "quiet s (calibrateMagCallback P b s)"
proof (cases b)
  case True
  have "quiet s (startMagCalibration (fst (millis s)) (snd (millis s)))"
    by (rule quiet_trans [OF quiet_millis quiet_startMagCalibration])
  then show ?thesis
    using True by (simp add: calibrateMagCallback_def case_prod_beta)
next
  case False
  then show ?thesis
    by (simp add: calibrateMagCallback_def quiet_finishMagCalibration)
qed

lemma quiet_deliver [quiet]: "quiet s (deliver P d s)"
proof -
  have "quiet s (s\<lparr>rpm_cmd_msg := xs\<rparr>)" "quiet s (s\<lparr>pid_config_msg := xs\<rparr>)" for xs
    by (simp_all add: quiet_def)
  then show ?thesis
    by (cases d) (auto simp: deliver_def intro: quiet_cmdVelCallback quiet_calibrateMagCallback
        quiet_trans [OF _ quiet_rpmCmdCallback] quiet_trans [OF _ quiet_pidConfigCallback])
qed

lemma quiet_fold_deliver [quiet]: "quiet s (fold (deliver P) ds s)"
proof (induction ds arbitrary: s)
  case (Cons d ds)
  show ?case
    using quiet_trans [OF quiet_deliver Cons.IH] by simp
qed simp

lemma quiet_syncRosClock [quiet]: "quiet s (snd (syncRosClock P t s))"
  by (cases "rmw_sync_session P t (rmw s)") (simp add: syncRosClock_def millis_def quiet_def Let_def)

lemma quiet_publish [quiet]: "quiet s (publish P m s)"
  by (simp add: publish_def quiet_def)

lemma quiet_setRosTime [quiet]: "quiet s (snd (setRosTimeFromMillis P t s))"
  by (cases "rmw_epoch_millis P (rmw s)") (simp add: setRosTimeFromMillis_def millis_def quiet_def Let_def)

text \<open>A change of fields \<open>quiet\<close> does not look at.\<close>

lemma quiet_fields:
  "io s' = io s \<Longrightarrow> m1_pid s' = m1_pid s \<Longrightarrow> m2_pid s' = m2_pid s \<Longrightarrow> agent_state s' = agent_state s \<Longrightarrow>
   ros_entities_created s' = ros_entities_created s \<Longrightarrow> ros_log s' = ros_log s \<Longrightarrow> quiet s s'"
  by (simp add: quiet_def)

lemma quiet_stamped:
  "quiet (snd (setRosTimeFromMillis P t s)) u \<Longrightarrow> quiet s (publish P m u)"
  by (rule quiet_trans [OF quiet_trans [OF quiet_setRosTime] quiet_publish])

lemma quiet_publishers [quiet]:
  "quiet s (publishImu P now s)" "quiet s (publishMag P now s)" "quiet s (publishOdom P now s)"
  "quiet s (publishTf P now s)"
  by (simp_all add: publishImu_def publishMag_def publishOdom_def publishTf_def case_prod_beta Let_def)
    (rule quiet_stamped, rule quiet_fields, simp_all)+

lemma quiet_publishWheelSpeeds [quiet]: "quiet s (publishWheelSpeeds P s)"
proof -
  have wheel: "quiet s (publish P m2 (publish P m1 (snd (millis s))))" for m1 m2
    by (rule quiet_trans [OF quiet_trans [OF quiet_millis quiet_publish] quiet_publish])
  have sensors: "quiet s (publishOdom P now (publishMag P now (publishImu P now s)))" for now s
    by (rule quiet_trans [OF quiet_publishers(1) quiet_trans [OF quiet_publishers(2,3)]])
  have status: "quiet s (publish P m2 (publish P m1 s))" for m1 m2 s
    by (rule quiet_trans [OF quiet_publish quiet_publish])
  show ?thesis
    using quiet_trans [OF quiet_trans [OF wheel sensors] status]
    by (simp add: publishWheelSpeeds_def case_prod_beta Let_def config)
qed

lemma quiet_serviceRos [quiet]: "quiet s (serviceRos P now s)"
proof -
  let ?s = "if ROS_TIME_SYNC_PERIOD_MS \<le> elapsed now (last_ros_time_sync_ms s)
    then snd (syncRosClock P 100 s) else s"
  have 1: "quiet s ?s"
    by (simp add: quiet_syncRosClock)
  have 2: "quiet ?s (fold (deliver P) ds (?s\<lparr>rmw := r\<rparr>))" for ds r
    by (rule quiet_trans [OF quiet_fields quiet_fold_deliver]) simp_all
  have 3: "quiet t (publishWheelSpeeds P (t\<lparr>last_telemetry_ms := now\<rparr>))" for t
    by (rule quiet_trans [OF quiet_fields quiet_publishWheelSpeeds]) simp_all
  show ?thesis
    using quiet_trans [OF 1 2] quiet_trans [OF quiet_trans [OF 1 2] 3]
    by (simp only: serviceRos_def Let_def case_prod_beta split: if_split) simp
qed

section \<open>Reachable states\<close>

text \<open>The static initial values of every global and static variable, over a clock, a storage, a bus
  and a middleware.\<close>

definition power_on :: "(nat \<Rightarrow> u32) \<Rightarrow> 'n \<Rightarrow> 'w \<Rightarrow> 'r \<Rightarrow> ('n, 'w, 'r) ros" where
  "power_on ck n w r = robot.extend (power_on_robot ck n w)
     \<lparr>rmw = r, ros_log = [], agent_state = Waiting, ros_time_synced = False,
      last_ros_time_sync_ms = 0, ros_entities_created = False,
      rpm_cmd_msg = [], pid_config_msg = [],
      imu_msg = \<lparr>imu_header = zero_header [], im_orientation = zero4,
        im_orientation_covariance = diag3 (Fin 0), im_angular_velocity = zero3,
        im_angular_velocity_covariance = diag3 (Fin 0), im_linear_acceleration = zero3,
        im_linear_acceleration_covariance = diag3 (Fin 0)\<rparr>,
      mag_msg = \<lparr>mag_header = zero_header [], magnetic_field = zero3,
        magnetic_field_covariance = diag3 (Fin 0)\<rparr>,
      odom_msg = \<lparr>odom_header = zero_header [], child_frame_id = setRosString [],
        position = zero3, om_orientation = zero4,
        pose_covariance = replicate 36 (Fin 0), twist_linear = zero3, twist_angular = zero3,
        twist_covariance = replicate 36 (Fin 0)\<rparr>,
      tf_msg = \<lparr>tf_header = zero_header [], tf_child_frame_id = setRosString [],
        translation = zero3, rotation = zero4\<rparr>,
      loop_entered = False, last_control_ms = 0, last_telemetry_ms = 0, last_agent_check_ms = 0\<rparr>"

text \<open>
  The firmware runs \<open>setup\<close> once and \<open>loop\<close> for ever, encoder interrupts arriving in between.
\<close>

inductive reachable ::
    "('n, 'w, 'r, 'z) firmware_platform_scheme \<Rightarrow> ('n, 'w, 'r) ros \<Rightarrow> bool"
  for P :: "('n, 'w, 'r, 'z) firmware_platform_scheme" where
  boot: "reachable P (setup_fn P (power_on ck n w r))"
| interrupt: "reachable P s \<Longrightarrow> take_interrupt e s = Inr s' \<Longrightarrow> reachable P s'"
| iterate: "reachable P s \<Longrightarrow> loop P s = Inr s' \<Longrightarrow> reachable P s'"

inductive_cases loop_stepE: "reachable P s"

definition sys_inv :: "('n, 'w, 'r, 'a) ros_scheme \<Rightarrow> bool" where
  "sys_inv s \<longleftrightarrow> bridge_safe (io s) \<and> pid_ok (m1_pid s) \<and> pid_ok (m2_pid s) \<and>
     (agent_state s = Connected \<longleftrightarrow> ros_entities_created s) \<and>
     (ros_entities_created s \<longrightarrow> (\<forall>e \<in> set all_entities. alive (ros_log s) e))"

lemma sys_inv_quiet: "sys_inv s \<Longrightarrow> quiet s s' \<Longrightarrow> sys_inv s'"
  by (auto simp: sys_inv_def quiet_def)

lemma take_interrupt_quiet:
  assumes "take_interrupt e s = Inr s'"
  shows "quiet s s'"
proof -
  obtain m b where "e = Edge m b"
    by (cases e)
  then show ?thesis
    using assms by (cases m) (auto simp: m1EncoderISR_eq m2EncoderISR_eq quiet_def)
qed

text \<open>The state after a ping, and the four outcomes of a check.\<close>

definition pinged ::
    "('n, 'w, 'r, 'z) firmware_platform_scheme \<Rightarrow> u32 \<Rightarrow> ('n, 'w, 'r, 'a) ros_scheme \<Rightarrow> ('n, 'w, 'r, 'a) ros_scheme" where
  "pinged P now s = s\<lparr>last_agent_check_ms := now, rmw := snd (rmw_ping_agent P 50 1 (rmw s)),
     ros_log := Ping (fst (rmw_ping_agent P 50 1 (rmw s))) # ros_log s\<rparr>"

definition disconnected :: "('n, 'w, 'r, 'a) ros_scheme \<Rightarrow> ('n, 'w, 'r, 'a) ros_scheme" where
  "disconnected s = stopMotors (s\<lparr>agent_state := Waiting, m1_target_rpm := Fin 0,
     m2_target_rpm := Fin 0, m1_pid := pid_Reset (m1_pid s), m2_pid := pid_Reset (m2_pid s)\<rparr>)"

lemma checkAgent_eq:
  "checkAgent P now s =
     (if elapsed now (last_agent_check_ms s) < 500 then s
      else if agent_state s = Waiting \<and> fst (rmw_ping_agent P 50 1 (rmw s)) then
        (if fst (createRosEntities P (pinged P now s))
         then (snd (createRosEntities P (pinged P now s)))\<lparr>agent_state := Connected\<rparr>
         else snd (createRosEntities P (pinged P now s)))
      else if agent_state s = Connected \<and> \<not> fst (rmw_ping_agent P 50 1 (rmw s)) then
        disconnected (destroyRosEntities P (pinged P now s))
      else pinged P now s)"
proof -
  obtain ok r where p: "rmw_ping_agent P 50 1 (rmw s) = (ok, r)"
    by (cases "rmw_ping_agent P 50 1 (rmw s)")
  show ?thesis
    by (simp only: checkAgent_def p prod.case Let_def case_prod_beta pinged_def fst_conv snd_conv
        flit_0 disconnected_def) simp
qed

lemma quiet_pinged: "quiet s (pinged P now s)"
  by (simp add: quiet_def pinged_def)

lemma sys_inv_create:
  assumes "sys_inv t" "agent_state t = Waiting" "createRosEntities P t = (b, s')"
  shows "if b then sys_inv (s'\<lparr>agent_state := Connected\<rparr>) else sys_inv s'"
proof -
  obtain c u cs where "createRosEntities P t = (c, u)" "keeps_motion t u"
    "ros_log u = cs @ ros_log t" "list_all creates_only cs"
    "ros_entities_created u = (c \<or> ros_entities_created t)"
    "c \<Longrightarrow> \<forall>e \<in> set all_entities. Init e True \<in> set cs"
    by (rule createRosEntities_frame [of P t]) blast
  then show ?thesis
    using assms by (auto simp: sys_inv_def keeps_motion_def alive_append)
qed

lemma disconnected_fields:
  "all_stopped (io (disconnected s))" "agent_state (disconnected s) = Waiting"
  "m1_target_rpm (disconnected s) = Fin 0" "m2_target_rpm (disconnected s) = Fin 0"
  "m1_pid (disconnected s) = pid_Reset (m1_pid s)" "m2_pid (disconnected s) = pid_Reset (m2_pid s)"
  "ros_entities_created (disconnected s) = ros_entities_created s"
  "ros_log (disconnected s) = ros_log s" "mag_cal (disconnected s) = mag_cal s"
  unfolding disconnected_def by (rule stopMotors_stopped) (simp_all add: stopMotors_eq)

lemma sys_inv_disconnect:
  assumes "sys_inv t" "agent_state t = Connected"
  shows "sys_inv (disconnected (destroyRosEntities P t))"
proof -
  have "ros_entities_created t"
    using assms by (simp add: sys_inv_def)
  then obtain r where r: "destroyRosEntities P t = t\<lparr>rmw := r,
      ros_log := map Fini (rev fini_order) @ ros_log t,
      ros_time_synced := False, ros_entities_created := False\<rparr>"
    by (rule destroyRosEntities_frame)
  show ?thesis
    unfolding sys_inv_def disconnected_fields
    using disconnected_fields(1) all_stopped_safe by (auto simp: r)
qed

lemma sys_inv_checkAgent:
  assumes "sys_inv s"
  shows "sys_inv (checkAgent P now s)"
proof -
  have t: "sys_inv (pinged P now s)" "agent_state (pinged P now s) = agent_state s"
    using sys_inv_quiet [OF assms quiet_pinged] by (auto simp: pinged_def)
  obtain b s' where c: "createRosEntities P (pinged P now s) = (b, s')"
    by (cases "createRosEntities P (pinged P now s)")
  show ?thesis
    unfolding checkAgent_eq c
    using assms t sys_inv_create [OF t(1) _ c] sys_inv_disconnect [OF t(1)] by auto
qed

lemma sys_inv_loop:
  assumes "sys_inv s" "loop P s = Inr s'"
  shows "sys_inv s'"
proof -
  define now where "now = fst (millis (enter_loop s))"
  define a where "a = readImuData P now (snd (millis (enter_loop s)))"
  obtain b c d where b: "readCompassData P now a = Inr b" and c: "updateYawEstimate now b = Inr c"
    and d: "controlTick P now (checkAgent P now (logSensorData now (updateMagCalibrationMode P now c))) = Inr d"
    and s': "s' = serviceRos P now d"
    using assms(2) unfolding loop_def by (auto simp: case_prod_beta Let_def now_def a_def)
  have "quiet s (enter_loop s)"
    by (simp add: enter_loop_def millis_def Let_def quiet_def)
  then have "quiet s a"
    unfolding a_def by (rule quiet_trans [OF quiet_trans [OF _ quiet_millis] quiet_readImuData])
  then have "quiet s c"
    by (rule quiet_trans [OF quiet_trans [OF _ quiet_readCompassData [OF b]] quiet_updateYawEstimate [OF c]])
  then have "quiet s (logSensorData now (updateMagCalibrationMode P now c))"
    by (rule quiet_trans [OF quiet_trans [OF _ quiet_updateMagCalibrationMode] quiet_logSensorData])
  then have "sys_inv (checkAgent P now (logSensorData now (updateMagCalibrationMode P now c)))"
    by (intro sys_inv_checkAgent sys_inv_quiet [OF assms(1)])
  then show ?thesis
    unfolding s' using quiet_controlTick [OF d] quiet_serviceRos sys_inv_quiet by blast
qed

lemma setup_io_frame:
  "m1_pid (initI2cAndSensors P s) = m1_pid s" "m2_pid (initI2cAndSensors P s) = m2_pid s"
  "agent_state (initI2cAndSensors P s) = agent_state s"
  "ros_entities_created (initI2cAndSensors P s) = ros_entities_created s"
  "ros_log (initI2cAndSensors P s) = ros_log s" "nvs (initI2cAndSensors P s) = nvs s"
  "bridge_safe (io (initI2cAndSensors P s)) = bridge_safe (io s)"
  by (simp_all add: initI2cAndSensors_def Let_def emits_eq case_prod_beta)

lemma sys_inv_setup: "sys_inv (setup_fn P (power_on ck n w r))"
proof -
  let ?s0 = "power_on ck n w r"
  let ?s1 = "initEncoders (initMotorPinsAndPwm (emits [Serial_Begin 115200, Delay 1500] ?s0))"
  let ?s2 = "initI2cAndSensors P ?s1"
  let ?s3 = "loadPidGainsFromNvsAndApply P ?s2"
  let ?s4 = "loadMagOffsetsFromNvs P ?s3"
  have "bridge_safe (io ?s1)"
    by (simp add: initEncoders_def initMotorPinsAndPwm_def stopMotors_eq emits_eq bridge_safe_def config)
  moreover have "m1_pid ?s1 = m1_pid ?s0" "m2_pid ?s1 = m2_pid ?s0" "agent_state ?s1 = Waiting"
    "\<not> ros_entities_created ?s1"
    by (simp_all add: initEncoders_def initMotorPinsAndPwm_def stopMotors_eq emits_eq power_on_def
        power_on_defs robot.defs)
  moreover have "pid_ok (m1_pid ?s0)" "pid_ok (m2_pid ?s0)"
    by (simp_all add: power_on_def power_on_defs robot.defs)
  ultimately have "sys_inv ?s2"
    by (simp add: sys_inv_def setup_io_frame)
  then have "sys_inv ?s3"
    by (simp add: sys_inv_def loadPidGainsFromNvsAndApply_def Let_def split: prod.splits)
  then have "sys_inv ?s4"
    by (auto simp: sys_inv_def loadMagOffsetsFromNvs_def Let_def split: prod.splits)
  then have "sys_inv (emit Set_Microros_Transports ((snd (millis ?s4))\<lparr>last_cmd_ms := fst (millis ?s4)\<rparr>))"
    by (simp add: sys_inv_def emit_def)
  then show ?thesis
    by (simp add: setup_fn_def Let_def case_prod_beta)
qed

lemma reachable_sys_inv: "reachable P s \<Longrightarrow> sys_inv s"
proof (induction rule: reachable.induct)
  case (interrupt s e s')
  then show ?case
    using take_interrupt_quiet sys_inv_quiet by blast
qed (simp_all add: sys_inv_setup sys_inv_loop)

text \<open>C1: Safety of the whole firmware. In every state the robot can reach from power on, through
  \<open>setup\<close>, any number of \<open>loop\<close> iterations and encoder interrupts, and whatever the middleware,
  the sensors and the incoming messages do: no bridge has both sides driven and every duty is at
  most \<open>PWM_MAX\<close>; the integral terms of both controllers are within [-300, 300] (or NaN); and the
  agent counts as connected exactly when the entities are created, all of them being alive then.\<close>

theorem firmware_safety:
  assumes "reachable P s"
  shows "bridge_safe (io s) \<and> nan_or_bdd 300 (pid_integral (m1_pid s)) \<and>
    nan_or_bdd 300 (pid_integral (m2_pid s)) \<and>
    (agent_state s = Connected \<longleftrightarrow> ros_entities_created s) \<and>
    (agent_state s = Connected \<longrightarrow> (\<forall>e \<in> set all_entities. alive (ros_log s) e))"
  using reachable_sys_inv [OF assms] by (simp add: sys_inv_def pid_ok_def)

text \<open>C9: Losing the agent stops the robot. When a connected robot's ping fails, the check leaves it
  waiting with every entity destroyed, both targets at zero, both controllers reset and all four
  PWM channels at duty 0.\<close>

theorem agent_loss_stops:
  assumes "reachable P s" "agent_state s = Connected"
    and "\<not> elapsed now (last_agent_check_ms s) < 500" "\<not> fst (rmw_ping_agent P 50 1 (rmw s))"
  shows "let s' = checkAgent P now s in
    agent_state s' = Waiting \<and> \<not> ros_entities_created s' \<and>
    (\<forall>e \<in> set all_entities. \<not> alive (ros_log s') e) \<and>
    m1_target_rpm s' = Fin 0 \<and> m2_target_rpm s' = Fin 0 \<and> all_stopped (io s') \<and>
    m1_pid s' = pid_Reset (m1_pid s) \<and> m2_pid s' = pid_Reset (m2_pid s)"
proof -
  let ?t = "pinged P now s"
  have "ros_entities_created ?t"
    using reachable_sys_inv [OF assms(1)] assms(2) by (simp add: sys_inv_def pinged_def)
  then obtain r where r: "destroyRosEntities P ?t = ?t\<lparr>rmw := r,
      ros_log := map Fini (rev fini_order) @ ros_log ?t,
      ros_time_synced := False, ros_entities_created := False\<rparr>"
    by (rule destroyRosEntities_frame)
  have "checkAgent P now s = disconnected (destroyRosEntities P ?t)"
    using assms(2-4) by (simp add: checkAgent_eq)
  then show ?thesis
    using disconnected_fields(1) [of "destroyRosEntities P ?t"]
    by (simp add: Let_def disconnected_fields r destroyed_all) (simp add: pinged_def)
qed

text \<open>But a running calibration drives a robot that has lost its agent: \<open>loop\<close> calls
  \<open>updateMagCalibrationMode\<close> whether or not there is an agent, and while the calibration is active
  and not yet over (turn rate between 1/16 and 16 rad/s) it commands the wheels to turn again and
  renews the command time, from the very state the disconnection left.\<close>

theorem calibration_survives_agent_loss:
  assumes "reachable P s" "agent_state s = Connected"
    and "\<not> elapsed now (last_agent_check_ms s) < 500" "\<not> fst (rmw_ping_agent P 50 1 (rmw s))"
    and "active (mag_cal s)" "auto_rotate (mag_cal s)"
    and "elapsed now' (start_ms (mag_cal s)) < duration_ms (mag_cal s)"
    and "fin (angular_speed_radps (mag_cal s))" "1 / 16 \<le> fval (angular_speed_radps (mag_cal s))"
      "fval (angular_speed_radps (mag_cal s)) \<le> 16"
  shows "let s' = checkAgent P now s; s'' = updateMagCalibrationMode P now' s' in
    agent_state s' = Waiting \<and> all_stopped (io s') \<and>
    agent_state s'' = Waiting \<and> fval (m1_target_rpm s'') < 0 \<and> 0 < fval (m2_target_rpm s'') \<and>
    last_cmd_ms s'' = now'"
proof -
  let ?t = "pinged P now s" and ?w = "angular_speed_radps (mag_cal s)"
  have "ros_entities_created ?t"
    using reachable_sys_inv [OF assms(1)] assms(2) by (simp add: sys_inv_def pinged_def)
  then obtain r where r: "destroyRosEntities P ?t = ?t\<lparr>rmw := r,
      ros_log := map Fini (rev fini_order) @ ros_log ?t,
      ros_time_synced := False, ros_entities_created := False\<rparr>"
    by (rule destroyRosEntities_frame)
  let ?d = "disconnected (destroyRosEntities P ?t)"
  have c: "checkAgent P now s = ?d"
    using assms(2-4) by (simp add: checkAgent_eq)
  have m: "mag_cal ?d = mag_cal s"
    unfolding disconnected_fields r by (simp add: pinged_def)
  let ?u = "setTargetsFromCmdVel (Fin 0) ?w ?d"
  have u: "agent_state ?u = Waiting" "mag_cal ?u = mag_cal s"
    by (simp_all add: setTargetsFromCmdVel_def Let_def disconnected_fields(2) m)
  have "updateMagCalibrationMode P now' ?d = ?u\<lparr>last_cmd_ms := now'\<rparr>"
    using assms(5-7) by (simp add: updateMagCalibrationMode_def Let_def m u)
  moreover have "sided 1 (1 / 16) 16 ?w"
    using assms(8-10) by (simp add: sided_def)
  ultimately show ?thesis
    using cmd_turn_sided [of ?w ?d] disconnected_fields(1,2) [of "destroyRosEntities P ?t"] u
    by (simp add: Let_def c sided_def)
qed

text \<open>A failed connection attempt leaks. When \<open>createRosEntities\<close> returns false it has destroyed
  nothing of what it created: every entity it initialised successfully is still alive, and since
  the created flag is not set, \<open>destroyRosEntities\<close> will not release them either; the next attempt
  initialises them a second time.\<close>

theorem failed_connection_leaks:
  assumes "\<not> ros_entities_created s" "createRosEntities P s = (False, s')"
  shows "\<exists>calls. ros_log s' = calls @ ros_log s \<and> (\<forall>e. Fini e \<notin> set calls) \<and>
    (\<forall>e. Init e True \<in> set calls \<longrightarrow> alive (ros_log (destroyRosEntities P s')) e)"
proof -
  obtain b u cs where f: "createRosEntities P s = (b, u)" "ros_log u = cs @ ros_log s"
    "list_all creates_only cs" "ros_entities_created u = (b \<or> ros_entities_created s)"
    by (rule createRosEntities_frame [of P s]) blast
  have u: "b = False" "u = s'"
    using f(1) assms(2) by simp_all
  have d: "destroyRosEntities P s' = s'"
    using f(4) assms(1) u by (simp add: destroyRosEntities_def)
  have "Fini e \<notin> set cs" for e
    using f(3) by (auto simp: list_all_iff dest!: bspec [of _ _ "Fini e"])
  then show ?thesis
    using f(2,3) u d by (intro exI [of _ cs]) (auto simp: alive_append)
qed

section \<open>Iterations are defined\<close>

text \<open>Sensors that behave: the mathematical laws, and turn rates of at most 31 rad/s.\<close>

definition sensors_sane :: "('n, 'w, 'z) platform_scheme \<Rightarrow> bool" where
  "sensors_sane P \<longleftrightarrow> libm_laws P \<and>
     (\<forall>w ev w'. lsm_getEvent P w = (Some ev, w') \<longrightarrow> bdd 31 (snd (snd (ev_gyro ev))))"

definition ready :: "('n, 'w, 'r, 'a) ros_scheme \<Rightarrow> bool" where
  "ready s \<longleftrightarrow> robot_ok s \<and> counters_ok s \<and> targets_ok s"

lemma ready_view:
  assumes "ready s" "motion_view s' = motion_view s" "pid_sane (m1_pid s')" "pid_sane (m2_pid s')" "targets_ok s'"
  shows "ready s'"
  using assms by (simp add: ready_def motion_view_def robot_ok_def counters_ok_def)

text \<open>Between the two states only sensor readings, estimates and traces change.\<close>

definition same_motion :: "('n, 'w, 'r, 'a) ros_scheme \<Rightarrow> ('n, 'w, 'r, 'a) ros_scheme \<Rightarrow> bool" where
  "same_motion s s' \<longleftrightarrow> motion_view s' = motion_view s \<and> m1_pid s' = m1_pid s \<and> m2_pid s' = m2_pid s \<and>
     m1_target_rpm s' = m1_target_rpm s \<and> m2_target_rpm s' = m2_target_rpm s \<and>
     angular_speed_radps (mag_cal s') = angular_speed_radps (mag_cal s)"

lemma same_motion_ready: "same_motion s s' \<Longrightarrow> ready s \<Longrightarrow> ready s'"
  by (auto simp: same_motion_def ready_def motion_view_def robot_ok_def counters_ok_def targets_ok_def)

lemma same_motion_refl [simp]: "same_motion s s"
  by (simp add: same_motion_def)

lemma same_motion_trans: "same_motion s t \<Longrightarrow> same_motion t u \<Longrightarrow> same_motion s u"
  by (simp add: same_motion_def)

lemma readImuData_same:
  "same_motion s (readImuData P now s)"
  "last_update_ms (orientation (readImuData P now s)) = last_update_ms (orientation s)"
  by (auto simp: readImuData_def same_motion_def motion_view_def split: prod.splits option.splits)

lemma readImuData_yaw_ok:
  assumes "sensors_sane P" "yaw_ok s"
  shows "yaw_ok (readImuData P now s)"
proof (cases "lsm_getEvent P (bus s)")
  case (Pair e w)
  show ?thesis
  proof (cases e)
    case None
    then show ?thesis
      using assms Pair by (auto simp: readImuData_def yaw_ok_def)
  next
    case (Some ev)
    then have "bdd 31 (snd (snd (ev_gyro ev)))"
      using assms(1) Pair by (auto simp: sensors_sane_def)
    moreover have "bdd 1 (flit (910 / 10000))"
      by code_simp
    ultimately have "bdd 32 (fadd (snd (snd (ev_gyro ev))) (flit (910 / 10000)))"
      by (rule fadd_bdd(1)) simp_all
    then show ?thesis
      using assms(2) Pair Some by (auto simp: readImuData_def yaw_ok_def split: prod.splits)
  qed
qed

lemma mag_cal_sample_speed: "angular_speed_radps (mag_cal_sample m c) = angular_speed_radps c"
  by (cases m) (simp add: mag_cal_sample_def)

lemma readCompassData_same:
  "readCompassData P now s = Inr s' \<Longrightarrow>
   same_motion s s' \<and> last_update_ms (orientation s') = last_update_ms (orientation s)"
  by (auto simp: readCompassData_def Let_def same_motion_def motion_view_def mag_cal_sample_speed
      split: prod.splits option.splits if_splits)

lemma updateYawEstimate_same:
  "updateYawEstimate now s = Inr s' \<Longrightarrow> same_motion s s'"
  by (auto simp: updateYawEstimate_def Let_def same_motion_def motion_view_def split: if_splits)

lemma updateYawEstimate_returns:
  assumes "yaw_ok s" "unat (elapsed now (last_update_ms (orientation s))) < 2 ^ 30"
  obtains s' where "updateYawEstimate now s = Inr s'"
  using updateYawEstimate_ok [OF assms] by blast

lemma logSensorData_same: "same_motion s (logSensorData now s)"
  by (simp add: logSensorData_def Let_def emits_eq same_motion_def motion_view_def)

lemma cmd_targets_bdd:
  assumes "bdd 16 w"
  shows "bdd (2 ^ 14) (m1_target_rpm (setTargetsFromCmdVel (Fin 0) w s))"
    "bdd (2 ^ 14) (m2_target_rpm (setTargetsFromCmdVel (Fin 0) w s))"
proof -
  let ?a = "if flt (fabsf w) ZERO_CMD_RADPS_EPS then Fin 0 else w"
  let ?t = "fmul (fmul ?a WHEEL_BASE_M) (flit (5 / 10))"
  have a: "bdd 16 ?a"
    using assms by simp
  have c: "bdd 1 WHEEL_BASE_M" "bdd 1 (flit (5 / 10))"
    using repr32_half_int [of 1 1] by (simp_all add: config_f32 flit_repr)
  have 1: "bdd 16 (fmul ?a WHEEL_BASE_M)"
    by (rule fmul_bdd(1) [OF a c(1)]) simp_all
  have 2: "bdd 16 ?t"
    by (rule fmul_bdd(1) [OF 1 c(2)]) simp_all
  have z: "bdd 0 (Fin 0)"
    by simp
  have v: "bdd 16 (fsub (Fin 0) ?t)" "bdd 16 (fadd (Fin 0) ?t)"
    using fsub_bdd(1) [OF z 2, of 16] fadd_bdd(1) [OF z 2, of 16] by simp_all
  have circ: "sided 1 (1 / 4) (1 / 2) (fmul (fmul (flit 2) M_PI_F) WHEEL_RADIUS_M)"
    by code_simp
  have rpm: "bdd (2 ^ 14) (wheel_rpm x)" if x: "bdd 16 x" for x
  proof -
    have d: "bdd 64 (fdiv x (fmul (fmul (flit 2) M_PI_F) WHEEL_RADIUS_M))"
      by (rule fdiv_bdd(1) [OF x, where L = "1 / 4"]) (use circ in \<open>auto simp: sided_def\<close>)
    have s: "bdd 60 (flit 60)" by simp
    show ?thesis
      unfolding wheel_rpm_def by (rule fmul_bdd(1) [OF d s]) simp_all
  qed
  have lin: "(if flt (fabsf (Fin 0)) ZERO_CMD_MPS_EPS then Fin 0 else Fin 0) = Fin 0"
    by simp
  have "m1_target_rpm (setTargetsFromCmdVel (Fin 0) w s) = wheel_rpm (fsub (Fin 0) ?t)"
    "m2_target_rpm (setTargetsFromCmdVel (Fin 0) w s) = wheel_rpm (fadd (Fin 0) ?t)"
    unfolding setTargetsFromCmdVel_def lin Let_def wheel_rpm_def by simp_all
  then show "bdd (2 ^ 14) (m1_target_rpm (setTargetsFromCmdVel (Fin 0) w s))"
    "bdd (2 ^ 14) (m2_target_rpm (setTargetsFromCmdVel (Fin 0) w s))"
    using rpm v by simp_all
qed

lemma updateMagCalibrationMode_ready:
  assumes "ready s" "bdd 16 (angular_speed_radps (mag_cal s))"
  shows "ready (updateMagCalibrationMode P now s)"
    "last_control_ms (updateMagCalibrationMode P now s) = last_control_ms s"
proof -
  let ?w = "angular_speed_radps (mag_cal s)"
  let ?t = "(setTargetsFromCmdVel (Fin 0) ?w s)\<lparr>last_cmd_ms := now\<rparr>"
  have p: "pid_sane (m1_pid s)" "pid_sane (m2_pid s)"
    using assms(1) by (simp_all add: ready_def robot_ok_def)
  have t: "motion_view ?t = motion_view s" "m1_pid ?t = m1_pid s" "m2_pid ?t = m2_pid s"
    by (simp_all add: setTargetsFromCmdVel_def Let_def motion_view_def)
  have "ready ?t"
    by (rule ready_view [OF assms(1) t(1)])
      (use p cmd_targets_bdd [OF assms(2), of s] in \<open>simp_all add: t targets_ok_def\<close>)
  moreover have f: "motion_view (finishMagCalibration P True u) = motion_view u"
    "m1_pid (finishMagCalibration P True u) = m1_pid u" "m2_pid (finishMagCalibration P True u) = m2_pid u"
    "targets_ok u \<Longrightarrow> targets_ok (finishMagCalibration P True u)"
    for u :: "('a, 'b, 'c, 'd) ros_scheme"
    by (auto simp: finishMagCalibration_def Let_def millis_def emit_def saveMagOffsetsToNvs_def
        motion_view_def targets_ok_def split: prod.splits)
  moreover have "ready (finishMagCalibration P True ?t)"
    by (rule ready_view [OF \<open>ready ?t\<close> f(1)])
      (use p \<open>ready ?t\<close> in \<open>simp_all add: f t, simp add: ready_def f(4)\<close>)
  ultimately show "ready (updateMagCalibrationMode P now s)"
    using assms(1) by (simp add: updateMagCalibrationMode_def Let_def)
  show "last_control_ms (updateMagCalibrationMode P now s) = last_control_ms s"
    using f(1) [of ?t] t(1) by (auto simp: updateMagCalibrationMode_def Let_def motion_view_def)
qed

lemma checkAgent_ready:
  assumes "ready s" 
  shows "ready (checkAgent P now s)" "last_control_ms (checkAgent P now s) = last_control_ms s"
proof -
  let ?t = "pinged P now s"
  have t: "ready ?t" "motion_view ?t = motion_view s"
    using same_motion_ready [of s ?t] assms by (simp_all add: same_motion_def pinged_def motion_view_def)
  have k: "ready u \<and> last_control_ms u = last_control_ms s" if "keeps_motion ?t u" for u
  proof -
    have "same_motion ?t u" and v: "motion_view u = motion_view s"
      using that t(2) by (simp_all add: keeps_motion_def same_motion_def)
    then show ?thesis
      using same_motion_ready t(1) by (auto simp: motion_view_def)
  qed
  obtain b u where c: "createRosEntities P ?t = (b, u)" "keeps_motion ?t u"
    by (rule createRosEntities_frame [of P ?t]) blast
  then have "keeps_motion ?t u" "ready (u\<lparr>agent_state := Connected\<rparr>)" 
    using k [OF c(2)] by (auto simp: ready_def robot_ok_def counters_ok_def targets_ok_def)
  moreover have "ready (disconnected (destroyRosEntities P ?t))"
    "last_control_ms (disconnected (destroyRosEntities P ?t)) = last_control_ms s"
  proof -
    let ?d = "destroyRosEntities P ?t"
    have d: "motion_view ?d = motion_view s" "m1_pid ?d = m1_pid s" "m2_pid ?d = m2_pid s"
      using fini_all_frame [of P "rev ros_subscriptions @ rev ros_publishers @ [Node, Executor, Support]" ?t] t(2)
      by (auto simp: destroyRosEntities_def motion_view_def pinged_def)
    have m: "motion_view (disconnected ?d) = motion_view s"
      unfolding d(1) [symmetric] disconnected_def by (simp add: stopMotors_eq motion_view_def)
    have p: "pid_sane (pid_Reset c)" if "pid_sane c" for c
      using that by (simp add: pid_sane_def pid_Reset_def)
    show "ready (disconnected ?d)"
      by (rule ready_view [OF assms m])
        (use assms p in \<open>simp_all add: disconnected_fields d ready_def robot_ok_def targets_ok_def\<close>)
    show "last_control_ms (disconnected ?d) = last_control_ms s"
      using m by (simp add: motion_view_def)
  qed
  ultimately show "ready (checkAgent P now s)" "last_control_ms (checkAgent P now s) = last_control_ms s"
    unfolding checkAgent_eq c using k [OF c(2)] assms t by (auto simp: motion_view_def)
qed

lemma controlTick_returns:
  assumes "ready s" "unat (elapsed now (last_control_ms s)) \<le> 2 ^ 19"
  obtains s' where "controlTick P now s = Inr s'"
proof (cases "elapsed now (last_control_ms s) < CONTROL_PERIOD_MS")
  case True
  then show thesis
    using that by (simp add: controlTick_def)
next
  case False
  then have "\<not> unat (elapsed now (last_control_ms s)) < 10"
    by (simp add: config word_less_nat_alt)
  moreover have "robot_ok (s\<lparr>last_control_ms := now\<rparr>)" "counters_ok (s\<lparr>last_control_ms := now\<rparr>)"
    "targets_ok (s\<lparr>last_control_ms := now\<rparr>)"
    using assms(1) by (simp_all add: ready_def robot_ok_def counters_ok_def targets_ok_def)
  ultimately obtain s' where
    "runControlStep P (elapsed now (last_control_ms s)) (s\<lparr>last_control_ms := now\<rparr>) = Inr s'"
    using runControlStep_ok assms(2) by (metis less_nat_zero_code linorder_neqE_nat zero_less_numeral)
  then show thesis
    using that False by (simp add: controlTick_def)
qed


section \<open>Instances\<close>

text \<open>
  A middleware that answers pings from a list, creates every entity but those of a list, hands
  out prepared deliveries, and has the epoch of November 2023; no sensor is connected.
\<close>

record sim_rmw =
  pings :: "bool list"
  refused :: "entity list"
  inbox :: "delivery list"

type_synonym sim_state = "(map_nvs, (f32 \<times> f32 \<times> f32) list, sim_rmw) ros"

definition sim_firmware :: "(map_nvs, (f32 \<times> f32 \<times> f32) list, sim_rmw) firmware_platform" where
  "sim_firmware = platform.extend
     (sim_platform\<lparr>lsm_begin := (\<lambda>a w. (False, w)), hmc_begin := (\<lambda>w. (False, w))\<rparr>)
     \<lparr>rcl_init = (\<lambda>e r. (e \<notin> set (refused r), r)), rcl_fini = (\<lambda>e r. r), rcl_publish = (\<lambda>m r. r),
      rmw_sync_session = (\<lambda>t r. (True, r)), rmw_epoch_millis = (\<lambda>r. (1700000000000, r)),
      rmw_ping_agent = (\<lambda>t n r. case pings r of [] \<Rightarrow> (False, r) | b # bs \<Rightarrow> (b, r\<lparr>pings := bs\<rparr>)),
      executor_spin_some = (\<lambda>r. (inbox r, r\<lparr>inbox := []\<rparr>))\<rparr>"

definition sim_boot :: "delivery list \<Rightarrow> (map_nvs, (f32 \<times> f32 \<times> f32) list, sim_rmw) ros" where
  "sim_boot ds = setup_fn sim_firmware (power_on (\<lambda>_. 1000) (\<lambda>_ _. None, None) []
     \<lparr>pings = [True], refused = [], inbox = ds\<rparr>)"

lemma sim_firmware_sel:
  "rcl_init sim_firmware = (\<lambda>e r. (e \<notin> set (refused r), r))"
  "rmw_sync_session sim_firmware = (\<lambda>t r. (True, r))"
  "rmw_epoch_millis sim_firmware = (\<lambda>r. (1700000000000, r))"
  "rmw_ping_agent sim_firmware = (\<lambda>t n r. case pings r of [] \<Rightarrow> (False, r) | b # bs \<Rightarrow> (b, r\<lparr>pings := bs\<rparr>))"
  "executor_spin_some sim_firmware = (\<lambda>r. (inbox r, r\<lparr>inbox := []\<rparr>))"
  "lsm_begin sim_firmware = (\<lambda>a w. (False, w))" "hmc_begin sim_firmware = (\<lambda>w. (False, w))"
  "wire_beginTransmission sim_firmware = (\<lambda>a w. w)" "wire_write sim_firmware = (\<lambda>b w. w)"
  "wire_endTransmission sim_firmware = (\<lambda>b w. (2, w))"
  "pf_begin sim_firmware = pf_begin map_prefs" "pf_isKey sim_firmware = pf_isKey map_prefs"
  "pf_end sim_firmware = pf_end map_prefs"
  by (simp_all add: sim_firmware_def platform.defs sim_platform_def)

lemma sim_boot_fields:
  "clk (sim_boot ds) = (\<lambda>_. 1000)" "imu_present (sim_boot ds) = False"
  "compass_present (sim_boot ds) = False" "agent_state (sim_boot ds) = Waiting"
  "loop_entered (sim_boot ds) = False" "imu_data_valid (sim_boot ds) = False"
  "compass_data_valid (sim_boot ds) = False" "pings (rmw (sim_boot ds)) = [True]"
  "refused (rmw (sim_boot ds)) = []" "inbox (rmw (sim_boot ds)) = ds"
  "active (mag_cal (sim_boot ds)) = False" "auto_rotate (mag_cal (sim_boot ds)) = True"
  "duration_ms (mag_cal (sim_boot ds)) = 15000" "angular_speed_radps (mag_cal (sim_boot ds)) = Fin 1"
  "last_sensor_log_ms (sim_boot ds) = 0" "last_ros_time_sync_ms (sim_boot ds) = 0"
  by (simp_all add: sim_boot_def setup_fn_def Let_def case_prod_beta initI2cAndSensors_def
      probeI2cAddress_def sim_firmware_sel loadPidGainsFromNvsAndApply_def loadMagOffsetsFromNvs_def
      map_prefs_def initEncoders_def initMotorPinsAndPwm_def stopMotors_eq emits_eq emit_def
      power_on_def robot.defs power_on_defs init_mag_calibration_def config config_f32)

lemma sim_init_all:
  "refused (rmw s) = [] \<Longrightarrow> init_all sim_firmware es s = (True, s\<lparr>ros_log := inits es @ ros_log s\<rparr>)"
  by (induction es arbitrary: s) (simp_all add: rclInit_def sim_firmware_sel inits_def)

lemma sim_create:
  assumes "refused (rmw s) = []"
  shows "\<exists>u. createRosEntities sim_firmware s = (True, u) \<and> rmw u = rmw s \<and> clk u = clk s \<and>
    last_ros_time_sync_ms u = clk s (clk_i s) \<and> mag_cal u = mag_cal s \<and>
    last_agent_check_ms u = last_agent_check_ms s \<and> last_control_ms u = last_control_ms s \<and>
    last_telemetry_ms u = last_telemetry_ms s"
  by (simp add: createRosEntities_def sim_init_all assms syncRosClock_def
      sim_firmware_sel millis_def initStandardRosMessages_def del: init_all.simps)

text \<open>One iteration connects the robot and delivers its first message.\<close>

lemma sim_connected:
  obtains s where "reachable sim_firmware s" "agent_state s = Connected" "last_agent_check_ms s = 1000"
    "pings (rmw s) = []" "active (mag_cal s)" "auto_rotate (mag_cal s)" "start_ms (mag_cal s) = 1000"
    "duration_ms (mag_cal s) = 15000" "angular_speed_radps (mag_cal s) = Fin 1"
proof -
  define b where "b = sim_boot [Calibrate_Mag True]"
  define s where "s = snd (millis (enter_loop b))"
  define l where "l = logSensorData 1000 s"
  note f = sim_boot_fields [of "[Calibrate_Mag True]", folded b_def]
  have s: "clk s = (\<lambda>_. 1000)" "imu_present s = False" "compass_present s = False"
    "agent_state s = Waiting" "imu_data_valid s = False" "compass_data_valid s = False"
    "rmw s = rmw b" "mag_cal s = mag_cal b" "last_control_ms s = 1000" "last_telemetry_ms s = 1000"
    "last_agent_check_ms s = 0"
    by (simp_all add: s_def enter_loop_def millis_def Let_def f)
  let ?p = "sim_firmware"
  have sense: "readImuData ?p 1000 s = s" "readCompassData ?p 1000 s = Inr s"
    "updateYawEstimate 1000 s = Inr s" "updateMagCalibrationMode ?p 1000 s = s"
    using s f by (simp_all add: readImuData_def readCompassData_def updateYawEstimate_def
        updateMagCalibrationMode_def)
  have l: "clk l = (\<lambda>_. 1000)" "agent_state l = Waiting" "rmw l = rmw b" "mag_cal l = mag_cal b"
    "last_control_ms l = 1000" "last_telemetry_ms l = 1000" "last_agent_check_ms l = 0"
    using s by (simp_all add: l_def logSensorData_def Let_def emits_eq)
  have "refused (rmw (pinged ?p 1000 l)) = []"
    using l f by (simp add: pinged_def sim_firmware_sel)
  then obtain u where u: "createRosEntities ?p (pinged ?p 1000 l) = (True, u)"
    "rmw u = rmw (pinged ?p 1000 l)" "clk u = clk (pinged ?p 1000 l)"
    "last_ros_time_sync_ms u = clk (pinged ?p 1000 l) (clk_i (pinged ?p 1000 l))"
    "mag_cal u = mag_cal (pinged ?p 1000 l)"
    "last_agent_check_ms u = last_agent_check_ms (pinged ?p 1000 l)"
    "last_control_ms u = last_control_ms (pinged ?p 1000 l)"
    "last_telemetry_ms u = last_telemetry_ms (pinged ?p 1000 l)"
    using sim_create by blast
  let ?u = "u\<lparr>agent_state := Connected\<rparr>"
  have u': "clk ?u = (\<lambda>_. 1000)" "last_ros_time_sync_ms ?u = 1000" "mag_cal ?u = mag_cal b"
    "last_agent_check_ms ?u = 1000" "last_control_ms ?u = 1000" "last_telemetry_ms ?u = 1000"
    "inbox (rmw ?u) = [Calibrate_Mag True]" "pings (rmw ?u) = []"
    using u l f by (simp_all add: pinged_def sim_firmware_sel)
  have "checkAgent ?p 1000 l = ?u"
    using l f by (simp add: checkAgent_eq u(1) elapsed_def sim_firmware_sel)
  then have "controlTick ?p 1000 (checkAgent ?p 1000 l) = Inr ?u"
    using u' by (simp add: controlTick_def elapsed_def config)
  then have run: "loop ?p b = Inr (serviceRos ?p 1000 ?u)"
  proof -
    have "fst (millis (enter_loop b)) = 1000"
      by (simp add: enter_loop_def millis_def Let_def f)
    then show "controlTick ?p 1000 (checkAgent ?p 1000 l) = Inr ?u \<Longrightarrow> ?thesis"
      by (simp only: loop_def case_prod_beta Let_def s_def [symmetric] sense bind_res_simps
          l_def [symmetric])
  qed
  have "serviceRos ?p 1000 ?u = startMagCalibration 1000
      (snd (millis (?u\<lparr>rmw := (rmw ?u)\<lparr>inbox := []\<rparr>\<rparr>)))"
    using u' by (simp add: serviceRos_def elapsed_def config sim_firmware_sel deliver_def
        calibrateMagCallback_def case_prod_beta startMagCalibration_def setTargetsFromCmdVel_def
        emit_def Let_def)
  moreover have "reachable ?p b"
    unfolding b_def sim_boot_def by (rule reachable.boot)
  ultimately show thesis
    using that [OF reachable.iterate [OF _ run]] u' f
    by (simp add: startMagCalibration_def setTargetsFromCmdVel_def emit_def Let_def)
qed

theorem firmware_safety_witness:
  "bridge_safe (io (sim_boot [])) \<and> nan_or_bdd 300 (pid_integral (m1_pid (sim_boot [])))"
proof -
  have "reachable sim_firmware (sim_boot [])"
    unfolding sim_boot_def by (rule reachable.boot)
  from firmware_safety [OF this] show ?thesis
    by simp
qed

theorem agent_loss_stops_witness:
  "\<exists>s :: sim_state. agent_state s = Connected \<and> agent_state (checkAgent sim_firmware 2000 s) = Waiting \<and>
     all_stopped (io (checkAgent sim_firmware 2000 s))"
proof -
  obtain s where s: "reachable sim_firmware s" "agent_state s = Connected"
    "last_agent_check_ms s = 1000" "pings (rmw s) = []"
    by (rule sim_connected)
  have "\<not> elapsed 2000 (last_agent_check_ms s) < 500" "\<not> fst (rmw_ping_agent sim_firmware 50 1 (rmw s))"
    using s by (simp_all add: elapsed_def sim_firmware_sel)
  from agent_loss_stops [OF s(1,2) this] s(2) show ?thesis
    by (intro exI [of _ s]) (simp add: Let_def)
qed

theorem calibration_survives_agent_loss_witness:
  "\<exists>s :: sim_state. agent_state s = Connected \<and>
     fval (m1_target_rpm (updateMagCalibrationMode sim_firmware 3000 (checkAgent sim_firmware 2000 s))) < 0"
proof -
  obtain s where s: "reachable sim_firmware s" "agent_state s = Connected"
    "last_agent_check_ms s = 1000" "pings (rmw s) = []" "active (mag_cal s)" "auto_rotate (mag_cal s)"
    "start_ms (mag_cal s) = 1000" "duration_ms (mag_cal s) = 15000"
    "angular_speed_radps (mag_cal s) = Fin 1"
    by (rule sim_connected)
  have "\<not> elapsed 2000 (last_agent_check_ms s) < 500" "\<not> fst (rmw_ping_agent sim_firmware 50 1 (rmw s))"
    "elapsed 3000 (start_ms (mag_cal s)) < duration_ms (mag_cal s)"
    "fin (angular_speed_radps (mag_cal s))" "1 / 16 \<le> fval (angular_speed_radps (mag_cal s))"
    "fval (angular_speed_radps (mag_cal s)) \<le> 16"
    using s by (simp_all add: elapsed_def sim_firmware_sel)
  from calibration_survives_agent_loss [OF s(1,2) this(1,2) s(5,6) this(3-6)] s(2) show ?thesis
    by (intro exI [of _ s]) (simp add: Let_def)
qed

theorem failed_connection_leaks_witness:
  "let s = power_on (\<lambda>_. 0) (\<lambda>_ _. None, None) [] \<lparr>pings = [], refused = [Node], inbox = []\<rparr>
   in \<exists>s' calls. createRosEntities sim_firmware s = (False, s') \<and> ros_log s' = calls @ ros_log s \<and>
     alive (ros_log (destroyRosEntities sim_firmware s')) Support"
proof -
  let ?s = "power_on (\<lambda>_. 0) (\<lambda>_ _. None, None) [] \<lparr>pings = [], refused = [Node], inbox = []\<rparr>
    :: (map_nvs, (f32 \<times> f32 \<times> f32) list, sim_rmw) ros"
  have s: "\<not> ros_entities_created ?s" "ros_log ?s = []" "refused (rmw ?s) = [Node]"
    by (simp_all add: power_on_def robot.defs)
  let ?u = "?s\<lparr>ros_log := [Init Node False, Init Support True]\<rparr>"
  have c: "createRosEntities sim_firmware ?s = (False, ?u)"
    using s by (simp add: createRosEntities_def rclInit_def sim_firmware_sel)
  from failed_connection_leaks [OF s(1) c] show ?thesis
    using s c by (auto simp: Let_def)
qed

theorem ros_time_stamp_witness:
  "let s = (power_on (\<lambda>_. 5000) (\<lambda>_ _. None, None) [] \<lparr>pings = [], refused = [], inbox = []\<rparr>)
        \<lparr>ros_time_synced := True\<rparr>
   in stamp_ms (fst (setRosTimeFromMillis sim_firmware 4000 s)) = 1699999999000"
proof -
  let ?s = "(power_on (\<lambda>_. 5000) (\<lambda>_ _. None, None) [] \<lparr>pings = [], refused = [], inbox = []\<rparr>)
    \<lparr>ros_time_synced := True\<rparr> :: (map_nvs, (f32 \<times> f32 \<times> f32) list, sim_rmw) ros"
  have e: "sint (fst (rmw_epoch_millis sim_firmware r)) = 1700000000000" for r
    by (simp add: sim_firmware_sel)
  have "clk ?s (clk_i ?s) = 5000"
    by (simp add: power_on_def robot.defs power_on_defs)
  then show ?thesis
    using ros_time_stamp [of sim_firmware ?s 4000] by (simp add: Let_def e)
qed


end
