(* ===== verification/XrceTypes.thy ===== *)
theory XrceTypes
  imports Prelude
begin

text \<open>
  The data of the XRCE protocol that the agent's streams and sessions handle:
  types/XRCETypes.hpp, types/MessageHeader.hpp, types/SubMessageHeader.hpp, the constants of
  config.hpp, and utils/Conversion.hpp.  A class with one private member per field and
  accessors for it is a record; an enumeration with an underlying type of 8 bits, which may
  hold any byte received from the network, is the byte with a constant per enumerator.
  The serialisers of these classes are not in the repository: they are fields of the record
  cdr_lib of Messages.
\<close>

section \<open>Identifiers\<close>

type_synonym ClientKey = "u8 \<times> u8 \<times> u8 \<times> u8"
type_synonym ObjectKind = u8
type_synonym ObjectId = "u8 \<times> u8"
type_synonym SessionId = u8
type_synonym StreamId = u8
type_synonym SequenceNr = u16
type_synonym SubmessageId = u8

definition STREAMID_NONE :: StreamId where "STREAMID_NONE = 0x00"
definition STREAMID_BUILTIN_BEST_EFFORTS :: StreamId where "STREAMID_BUILTIN_BEST_EFFORTS = 0x01"
definition STREAMID_BUILTIN_RELIABLE :: StreamId where "STREAMID_BUILTIN_RELIABLE = 0x80"

definition SESSIONID_NONE_WITH_CLIENT_KEY :: SessionId where "SESSIONID_NONE_WITH_CLIENT_KEY = 0x00"
definition SESSIONID_NONE_WITHOUT_CLIENT_KEY :: SessionId where "SESSIONID_NONE_WITHOUT_CLIENT_KEY = 0x80"

definition FRAGMENT :: SubmessageId where "FRAGMENT = 13"

section \<open>Flags of a submessage\<close>

definition FLAG_LITTLE_ENDIANNESS :: u8 where "FLAG_LITTLE_ENDIANNESS = push_bit 0 1"
definition FLAG_LAST_FRAGMENT :: u8 where "FLAG_LAST_FRAGMENT = push_bit 1 1"

section \<open>Limits of config.hpp\<close>

definition RELIABLE_STREAM_DEPTH :: int where "RELIABLE_STREAM_DEPTH = 16"
definition BEST_EFFORT_STREAM_DEPTH :: nat where "BEST_EFFORT_STREAM_DEPTH = 16"

lemmas xrce_consts =
  STREAMID_NONE_def STREAMID_BUILTIN_BEST_EFFORTS_def STREAMID_BUILTIN_RELIABLE_def
  FRAGMENT_def FLAG_LITTLE_ENDIANNESS_def FLAG_LAST_FRAGMENT_def
  RELIABLE_STREAM_DEPTH_def BEST_EFFORT_STREAM_DEPTH_def

section \<open>Headers and payloads\<close>

record MessageHeader =
  mh_session_id :: u8
  mh_stream_id :: u8
  mh_sequence_nr :: u16
  mh_client_key :: ClientKey

record SubmessageHeader =
  sh_submessage_id :: SubmessageId
  sh_flags :: u8
  sh_submessage_length :: u16

record ACKNACK_Payload =
  an_first_unacked_seq_num :: u16
  an_nack_bitmap :: "u8 \<times> u8"
  an_stream_id :: u8

record HEARTBEAT_Payload =
  hb_first_unacked_seq_nr :: u16
  hb_last_unacked_seq_nr :: u16
  hb_stream_id :: u8

text \<open>client/session/SessionInfo.hpp\<close>

record SessionInfo =
  si_client_key :: ClientKey
  si_session_id :: SessionId
  si_mtu :: nat

section \<open>Conversions between identifiers and integers\<close>

definition objectid_to_raw :: "ObjectId \<Rightarrow> u16" where
  "objectid_to_raw object_id = (case object_id of (id0, id1) \<Rightarrow>
     word_of_int (uint (drop_bit 4 id1) + push_bit 4 (uint id0)))"

definition raw_to_objectid :: "u16 \<Rightarrow> ObjectKind \<Rightarrow> ObjectId" where
  "raw_to_objectid raw kind = (ucast (drop_bit 4 raw), word_of_int (push_bit 4 (uint raw) OR uint kind))"

definition raw_to_objectprefix :: "u16 \<Rightarrow> ObjectId" where
  "raw_to_objectprefix raw = (ucast (drop_bit 4 raw), word_of_int (push_bit 4 (uint raw)))"

definition clientkey_to_raw :: "ClientKey \<Rightarrow> u32" where
  "clientkey_to_raw client_key = (case client_key of (k0, k1, k2, k3) \<Rightarrow>
     push_bit 24 (ucast k0) + push_bit 16 (ucast k1) + push_bit 8 (ucast k2) + ucast k3)"

definition raw_to_clientkey :: "u32 \<Rightarrow> ClientKey" where
  "raw_to_clientkey key = (ucast (drop_bit 24 key), ucast (drop_bit 16 key), ucast (drop_bit 8 key), ucast key)"

lemma bit_u8_less: "bit (w :: u8) n \<Longrightarrow> n < 8"
  using bit_imp_le_length [of w n] by simp

lemmas disjoint_bits =
  bit_or_iff bit_push_bit_iff bit_drop_bit_eq bit_ucast_iff bit_u8_less

lemma clientkey_to_raw_bits:
  "clientkey_to_raw (k0, k1, k2, k3) =
     ((push_bit 24 (ucast k0) OR push_bit 16 (ucast k1)) OR push_bit 8 (ucast k2)) OR ucast k3"
proof -
  have 1: "push_bit 24 (ucast k0 :: u32) + push_bit 16 (ucast k1) = push_bit 24 (ucast k0) OR push_bit 16 (ucast k1)"
    by (rule disjunctive_add) (auto simp: disjoint_bits dest: bit_u8_less)
  have 2: "(push_bit 24 (ucast k0 :: u32) OR push_bit 16 (ucast k1)) + push_bit 8 (ucast k2) =
    (push_bit 24 (ucast k0) OR push_bit 16 (ucast k1)) OR push_bit 8 (ucast k2)"
    by (rule disjunctive_add) (auto simp: disjoint_bits dest: bit_u8_less)
  have 3: "((push_bit 24 (ucast k0 :: u32) OR push_bit 16 (ucast k1)) OR push_bit 8 (ucast k2)) + ucast k3 =
    ((push_bit 24 (ucast k0) OR push_bit 16 (ucast k1)) OR push_bit 8 (ucast k2)) OR ucast k3"
    by (rule disjunctive_add) (auto simp: disjoint_bits dest: bit_u8_less)
  show ?thesis
    by (simp add: clientkey_to_raw_def 1 2 3)
qed

lemma objectid_to_raw_bits:
  "objectid_to_raw (id0, id1) = ucast (drop_bit 4 id1) OR push_bit 4 (ucast id0)"
proof -
  have "objectid_to_raw (id0, id1) = ucast (drop_bit 4 id1) + push_bit 4 (ucast id0)"
    unfolding objectid_to_raw_def ucast_eq by (simp add: push_bit_eq_mult)
  also have "\<dots> = ucast (drop_bit 4 id1) OR push_bit 4 (ucast id0)"
    by (rule disjunctive_add) (auto simp: disjoint_bits dest: bit_u8_less)
  finally show ?thesis .
qed

lemma and_15: "w AND 0x0F = take_bit 4 (w :: u8)"
  by (simp add: take_bit_eq_mask mask_eq_exp_minus_1)

lemma raw_to_objectid_bits:
  "raw_to_objectid raw kind = (ucast (drop_bit 4 raw), push_bit 4 (ucast raw) OR kind)"
  by (auto simp: raw_to_objectid_def bit_eq_iff bit_word_of_int_iff bit_or_iff bit_push_bit_iff
      bit_uint_iff bit_ucast_iff dest: bit_u8_less)

lemma objectid_to_raw_kind: "objectid_to_raw (raw_to_objectid raw (kind AND 0x0F)) = take_bit 12 raw"
  by (rule bit_word_eqI)
    (auto simp: objectid_to_raw_bits raw_to_objectid_bits disjoint_bits and_15 bit_take_bit_iff)

text \<open>Client keys and object identifiers survive the conversion to integers and back: a
  client key is recovered from its 32-bit number and the number from the key; an object
  identifier is recovered from its number together with the low four bits of its second
  byte, its kind; of a 16-bit number the low twelve bits come back, whatever the kind.\<close>

theorem conversion_roundtrips:
  "raw_to_clientkey (clientkey_to_raw k) = k \<and>
   clientkey_to_raw (raw_to_clientkey r) = r \<and>
   raw_to_objectid (objectid_to_raw oid) (snd oid AND 0x0F) = oid \<and>
   objectid_to_raw (raw_to_objectid raw (kind AND 0x0F)) = take_bit 12 raw"
proof -
  obtain k0 k1 k2 k3 where k: "k = (k0, k1, k2, k3)" by (cases k) auto
  obtain id0 id1 where oid: "oid = (id0, id1)" by (cases oid) auto
  have 1: "raw_to_clientkey (clientkey_to_raw k) = k"
    by (auto simp: k clientkey_to_raw_bits raw_to_clientkey_def bit_eq_iff disjoint_bits dest: bit_u8_less)
  have 2: "clientkey_to_raw (raw_to_clientkey r) = r"
    unfolding raw_to_clientkey_def clientkey_to_raw_bits
  proof (rule bit_word_eqI)
    fix n assume "n < LENGTH(32)"
    then consider "n < 8" | "8 \<le> n" "n < 16" | "16 \<le> n" "n < 24" | "24 \<le> n" "n < 32"
      by fastforce
    then show "bit (((push_bit 24 (ucast (ucast (drop_bit 24 r) :: u8) :: u32) OR
        push_bit 16 (ucast (ucast (drop_bit 16 r) :: u8))) OR
        push_bit 8 (ucast (ucast (drop_bit 8 r) :: u8))) OR ucast (ucast r :: u8)) n = bit r n"
      by cases (auto simp: disjoint_bits)
  qed
  have 3: "raw_to_objectid (objectid_to_raw oid) (snd oid AND 0x0F) = oid"
    by (simp add: oid objectid_to_raw_bits raw_to_objectid_bits and_15)
      (auto simp: bit_eq_iff disjoint_bits bit_take_bit_iff dest: bit_u8_less)
  show ?thesis using 1 2 3 objectid_to_raw_kind by blast
qed

end
