(* ===== verification/Messages.thy ===== *)
theory Messages
  imports XrceTypes "HOL-Library.While_Combinator"
begin

text \<open>
  message/InputMessage.hpp and message/OutputMessage.hpp: messages as buffers of bytes that
  are read and written through a Fast-CDR (de)serialiser.

  Fast-CDR and the serialisers of the XRCE classes are not in the repository: the record
  cdr_lib holds the functions that the two classes call, over an abstract type 'c of
  (de)serialisers that own their buffer.  A function that may throw
  NotEnoughMemoryException gives a boolean, False for the exception, with the state it
  leaves behind.
\<close>

type_synonym bytes = "u8 list"

record 'c cdr_lib =
  uninitialised :: "nat \<Rightarrow> bytes" \<comment> \<open>the bytes of a new array, which C++ leaves open\<close>
  new_cdr :: "bytes \<Rightarrow> 'c" \<comment> \<open>FastBuffer over the bytes, then Cdr\<close>
  cdr_bytes :: "'c \<Rightarrow> bytes" \<comment> \<open>the bytes of the buffer\<close>
  cdr_position :: "'c \<Rightarrow> nat" \<comment> \<open>get_current_position() - get_buffer_pointer()\<close>
  cdr_length :: "'c \<Rightarrow> nat" \<comment> \<open>get_serialized_data_length()\<close>
  cdr_jump :: "nat \<Rightarrow> 'c \<Rightarrow> 'c"
  cdr_endianness :: "'c \<Rightarrow> u8"
  cdr_change_endianness :: "u8 \<Rightarrow> 'c \<Rightarrow> 'c"
  cdr_serialize_array :: "u8 option \<Rightarrow> bytes \<Rightarrow> 'c \<Rightarrow> bool \<times> 'c"
  cdr_deserialize_array :: "u8 option \<Rightarrow> nat \<Rightarrow> bytes \<Rightarrow> 'c \<Rightarrow> bool \<times> bytes \<times> 'c"
    \<comment> \<open>number of bytes to read and the destination, which comes back overwritten\<close>
  new_MessageHeader :: MessageHeader
  MessageHeader_getCdrSerializedSize :: "MessageHeader \<Rightarrow> nat"
  MessageHeader_serialize :: "MessageHeader \<Rightarrow> 'c \<Rightarrow> bool \<times> 'c"
  MessageHeader_deserialize :: "MessageHeader \<Rightarrow> 'c \<Rightarrow> bool \<times> MessageHeader \<times> 'c"
  new_SubmessageHeader :: SubmessageHeader
  SubmessageHeader_getCdrSerializedSize :: "SubmessageHeader \<Rightarrow> nat"
  SubmessageHeader_serialize :: "SubmessageHeader \<Rightarrow> 'c \<Rightarrow> bool \<times> 'c"
  SubmessageHeader_deserialize :: "SubmessageHeader \<Rightarrow> 'c \<Rightarrow> bool \<times> SubmessageHeader \<times> 'c"

text \<open>What the templates require of a payload type T.\<close>

record 'c payload =
  getCdrSerializedSize :: nat
  serialize :: "'c \<Rightarrow> bool \<times> 'c"

definition BIG_ENDIANNESS :: u8 where "BIG_ENDIANNESS = 0"

text \<open>The padding to the next multiple of four, (4 - (position & 3)) & 3.\<close>

definition padding :: "nat \<Rightarrow> nat" where
  "padding p = (4 - (p AND 3)) AND 3"

definition skip_padding :: "'c cdr_lib \<Rightarrow> 'c \<Rightarrow> 'c" where
  "skip_padding L c = cdr_jump L (padding (cdr_position L c)) c"

section \<open>Input messages\<close>

record 'c InputMessage =
  im_buf :: bytes
  im_header :: MessageHeader
  im_subheader :: SubmessageHeader
  im_deserializer :: 'c
  im_valid_xrce_message :: bool

definition im_deserialize_header :: "'c cdr_lib \<Rightarrow> 'c InputMessage \<Rightarrow> bool \<times> 'c InputMessage" where
  "im_deserialize_header L m =
     (let (rv, h, c) = MessageHeader_deserialize L (im_header m) (im_deserializer m)
      in (rv, m\<lparr>im_header := h, im_deserializer := c\<rparr>))"

definition im_deserialize_subheader :: "'c cdr_lib \<Rightarrow> 'c InputMessage \<Rightarrow> bool \<times> 'c InputMessage" where
  "im_deserialize_subheader L m =
     (let (rv, h, c) = SubmessageHeader_deserialize L (im_subheader m) (im_deserializer m)
      in (rv, m\<lparr>im_subheader := h, im_deserializer := c\<rparr>))"

text \<open>
  count_submessages: one round of the do-while loop over (rv, count, local_subheader,
  local_deserializer), and the loop, which goes on while rv holds.
\<close>

definition count_round :: "'c cdr_lib \<Rightarrow> bytes \<Rightarrow>
    bool \<times> nat \<times> SubmessageHeader \<times> 'c \<Rightarrow> bool \<times> nat \<times> SubmessageHeader \<times> 'c" where
  "count_round L buf s = (case s of (rv, count, sub, c) \<Rightarrow>
     let c = skip_padding L c in
     if length buf > cdr_length L c then
       (case SubmessageHeader_deserialize L sub c of
          (True, sub, c) \<Rightarrow> (rv, count + 1, sub, c)
        | (False, sub, c) \<Rightarrow> (False, count, sub, c))
     else (False, count, sub, c))"

definition count_submessages :: "'c cdr_lib \<Rightarrow> bytes \<Rightarrow> nat res" where
  "count_submessages L buf =
     (let c = new_cdr L buf; (ok, h, c) = MessageHeader_deserialize L (new_MessageHeader L) c in
      if \<not> ok then Inl Uncaught_Exception
      else bind_res
        (of_opt Hang (while_option fst (count_round L buf)
           (count_round L buf (False, 0, new_SubmessageHeader L, c))))
        (\<lambda>(rv, count, sub, c). Inr count))"

definition new_InputMessage :: "'c cdr_lib \<Rightarrow> bytes \<Rightarrow> 'c InputMessage res" where
  "new_InputMessage L buf =
     (let m = \<lparr>im_buf = buf, im_header = new_MessageHeader L, im_subheader = new_SubmessageHeader L,
               im_deserializer = new_cdr L buf, im_valid_xrce_message = False\<rparr>;
          (rv, m) = im_deserialize_header L m
      in if \<not> rv then Inr (m\<lparr>im_valid_xrce_message := False\<rparr>)
         else bind_res (count_submessages L (im_buf m))
           (\<lambda>n. Inr (m\<lparr>im_valid_xrce_message := n > 0\<rparr>)))"

definition prepare_next_submessage :: "'c cdr_lib \<Rightarrow> 'c InputMessage \<Rightarrow> bool \<times> 'c InputMessage" where
  "prepare_next_submessage L m =
     (let m = m\<lparr>im_deserializer := skip_padding L (im_deserializer m)\<rparr> in
      if length (im_buf m) > cdr_length L (im_deserializer m) then
        let (rv, m) = im_deserialize_subheader L m;
            endianness = sh_flags (im_subheader m) AND 0x01
        in if endianness \<noteq> cdr_endianness L (im_deserializer m)
           then (rv, m\<lparr>im_deserializer := cdr_change_endianness L endianness (im_deserializer m)\<rparr>)
           else (rv, m)
      else (False, m))"

definition get_submessage_id :: "'c cdr_lib \<Rightarrow> 'c InputMessage \<Rightarrow> SubmessageId res" where
  "get_submessage_id L m =
     (let c = new_cdr L (im_buf m); (ok, h, c) = MessageHeader_deserialize L (new_MessageHeader L) c in
      if \<not> ok then Inl Uncaught_Exception
      else let c = skip_padding L c in
        if length (im_buf m) > cdr_length L c then
          (case SubmessageHeader_deserialize L (new_SubmessageHeader L) c of
             (True, sub, c) \<Rightarrow> Inr (sh_submessage_id sub)
           | (False, sub, c) \<Rightarrow> Inl Uncaught_Exception)
        else Inr (sh_submessage_id (new_SubmessageHeader L)))"

definition get_payload :: "('d \<Rightarrow> 'c \<Rightarrow> bool \<times> 'd \<times> 'c) \<Rightarrow> 'd \<Rightarrow> 'c InputMessage \<Rightarrow> bool \<times> 'd \<times> 'c InputMessage" where
  "get_payload T_deserialize data m =
     (let (rv, data, c) = T_deserialize data (im_deserializer m)
      in (rv, data, m\<lparr>im_deserializer := c\<rparr>))"

text \<open>The bytes that get_raw_header copies, whose number is its result.\<close>

definition get_raw_header :: "'c InputMessage \<Rightarrow> bytes res" where
  "get_raw_header m =
     (let n = (if 128 > uint (mh_session_id (im_header m)) then 8 else 4) in
      if length (im_buf m) < n then Inl Out_Of_Bounds else Inr (take n (im_buf m)))"

definition get_raw_payload :: "'c cdr_lib \<Rightarrow> bytes \<Rightarrow> nat \<Rightarrow> 'c InputMessage \<Rightarrow> bool \<times> bytes \<times> 'c InputMessage" where
  "get_raw_payload L buf len m =
     (let n = unat (sh_submessage_length (im_subheader m)) in
      if n \<le> len then
        let (rv, buf, c) = cdr_deserialize_array L (Some BIG_ENDIANNESS) n buf (im_deserializer m)
        in (rv, buf, m\<lparr>im_deserializer := c\<rparr>)
      else (False, buf, m))"

section \<open>Output messages\<close>

record 'c OutputMessage =
  om_len :: nat
  om_serializer :: 'c

definition om_get_buf :: "'c cdr_lib \<Rightarrow> 'c OutputMessage \<Rightarrow> bytes" where
  "om_get_buf L m = cdr_bytes L (om_serializer m)"

definition om_get_len :: "'c cdr_lib \<Rightarrow> 'c OutputMessage \<Rightarrow> nat" where
  "om_get_len L m = cdr_length L (om_serializer m)"

definition om_serialize :: "('c \<Rightarrow> bool \<times> 'c) \<Rightarrow> 'c OutputMessage \<Rightarrow> bool \<times> 'c OutputMessage" where
  "om_serialize ser m = (let (rv, c) = ser (om_serializer m) in (rv, m\<lparr>om_serializer := c\<rparr>))"

definition new_OutputMessage :: "'c cdr_lib \<Rightarrow> MessageHeader \<Rightarrow> nat \<Rightarrow> 'c OutputMessage" where
  "new_OutputMessage L header len =
     snd (om_serialize (MessageHeader_serialize L header)
       \<lparr>om_len = len, om_serializer = new_cdr L (replicate len 0)\<rparr>)"

definition append_subheader :: "'c cdr_lib \<Rightarrow> SubmessageId \<Rightarrow> u8 \<Rightarrow> nat \<Rightarrow>
    'c OutputMessage \<Rightarrow> bool \<times> 'c OutputMessage" where
  "append_subheader L submessage_id flags submessage_len m =
     (let subheader = (new_SubmessageHeader L)\<lparr>sh_submessage_id := submessage_id, sh_flags := flags,
            sh_submessage_length := of_nat submessage_len\<rparr>
      in om_serialize (SubmessageHeader_serialize L subheader)
           (m\<lparr>om_serializer := skip_padding L (om_serializer m)\<rparr>))"

definition append_submessage :: "'c cdr_lib \<Rightarrow> SubmessageId \<Rightarrow> 'c payload \<Rightarrow> u8 \<Rightarrow>
    'c OutputMessage \<Rightarrow> bool \<times> 'c OutputMessage" where
  "append_submessage L submessage_id data flags m =
     (let (ok, m) = append_subheader L submessage_id flags (getCdrSerializedSize data) m in
      if ok then om_serialize (serialize data) m else (False, m))"

definition append_raw_payload :: "'c cdr_lib \<Rightarrow> SubmessageId \<Rightarrow> bytes \<Rightarrow> u8 \<Rightarrow>
    'c OutputMessage \<Rightarrow> bool \<times> 'c OutputMessage" where
  "append_raw_payload L submessage_id buf flags m =
     (let (ok, m) = append_subheader L submessage_id flags (length buf) m in
      if ok then om_serialize (cdr_serialize_array L (Some BIG_ENDIANNESS) buf) m else (False, m))"

definition append_fragment :: "'c cdr_lib \<Rightarrow> SubmessageHeader \<Rightarrow> bytes \<Rightarrow>
    'c OutputMessage \<Rightarrow> bool \<times> 'c OutputMessage" where
  "append_fragment L subheader buf m =
     (let (ok, m) = om_serialize (SubmessageHeader_serialize L subheader)
            (m\<lparr>om_serializer := skip_padding L (om_serializer m)\<rparr>)
      in if ok then om_serialize (cdr_serialize_array L None buf) m else (False, m))"

section \<open>Validity of an input message\<close>

lemma count_round_stops: "fst (count_round L buf (False, s)) = False"
  by (cases s) (auto simp: count_round_def Let_def split: prod.splits bool.splits)

lemma count_submessages_once:
  "count_submessages L buf =
     (case MessageHeader_deserialize L (new_MessageHeader L) (new_cdr L buf) of (ok, h, c) \<Rightarrow>
        if \<not> ok then Inl Uncaught_Exception
        else Inr (fst (snd (count_round L buf (False, 0, new_SubmessageHeader L, c)))))"
proof -
  have w: "while_option fst (count_round L buf) (count_round L buf (False, s)) = Some (count_round L buf (False, s))" for s
    using count_round_stops [of L buf s] by (subst while_option_unfold) simp
  obtain ok h c where d: "MessageHeader_deserialize L (new_MessageHeader L) (new_cdr L buf) = (ok, h, c)"
    by (metis prod_cases3)
  obtain r where "count_round L buf (False, 0, new_SubmessageHeader L, c) = r"
    by simp
  then show ?thesis
    using w [of "(0, new_SubmessageHeader L, c)"]
    by (cases r) (auto simp: count_submessages_def d)
qed

lemma count_round_le: "fst (snd (count_round L buf (False, 0, s))) \<le> 1"
  by (cases s) (auto simp: count_round_def Let_def split: prod.splits bool.splits)

lemma count_submessages_le: "count_submessages L buf = Inr n \<Longrightarrow> n \<le> 1"
  using count_round_le by (auto simp: count_submessages_once split: prod.splits if_splits)

lemma new_InputMessage_returns: "\<exists>m. new_InputMessage L buf = Inr m"
  by (auto simp: new_InputMessage_def im_deserialize_header_def count_submessages_once split: prod.splits)

lemma new_InputMessage_fields:
  assumes "new_InputMessage L buf = Inr m"
  shows "im_buf m = buf" "im_subheader m = new_SubmessageHeader L"
    "MessageHeader_deserialize L (new_MessageHeader L) (new_cdr L buf) = (ok, h, c) \<Longrightarrow>
       im_header m = h \<and> im_deserializer m = c"
  using assms
  by (auto simp: new_InputMessage_def im_deserialize_header_def count_submessages_once Let_def
      split: prod.splits if_splits)

text \<open>The constructor of an input message never lets an exception escape, whatever bytes
  arrived, although count_submessages throws on a bad header; on a message that it marks as
  valid get_submessage_id does not throw either; and count_submessages never counts more than
  one submessage, because its loop runs once.\<close>

theorem input_message_validity:
  assumes "new_InputMessage L buf = r"
  shows "\<exists>m. r = Inr m \<and> im_buf m = buf \<and>
      (im_valid_xrce_message m \<longrightarrow> (\<exists>i. get_submessage_id L m = Inr i)) \<and>
      (case count_submessages L buf of Inl e \<Rightarrow> \<not> im_valid_xrce_message m
       | Inr n \<Rightarrow> n \<le> 1 \<and> (im_valid_xrce_message m \<longleftrightarrow> n = 1))"
proof -
  obtain m where m: "new_InputMessage L buf = Inr m"
    using new_InputMessage_returns by blast
  obtain ok h c where d: "MessageHeader_deserialize L (new_MessageHeader L) (new_cdr L buf) = (ok, h, c)"
    by (metis prod_cases3)
  have v: "im_valid_xrce_message m \<longleftrightarrow>
      ok \<and> fst (snd (count_round L buf (False, 0, new_SubmessageHeader L, c))) > 0"
    using m d by (cases ok) (auto simp: new_InputMessage_def im_deserialize_header_def count_submessages_once)
  then have "\<exists>i. get_submessage_id L m = Inr i" if "im_valid_xrce_message m"
    using that d new_InputMessage_fields(1) [OF m]
    by (auto simp: get_submessage_id_def count_round_def Let_def split: prod.splits if_splits bool.splits)
  then show ?thesis
    using v d m assms new_InputMessage_fields(1) [OF m]
      count_round_le [of L buf "(new_SubmessageHeader L, c)"]
    by (auto simp: count_submessages_once)
qed

section \<open>Laws of the serialiser\<close>

definition overwrite :: "nat \<Rightarrow> bytes \<Rightarrow> bytes \<Rightarrow> bytes" where
  "overwrite p xs buf = take p buf @ xs @ drop (p + length xs) buf"

text \<open>f writes the bytes xs at the position of c whenever they fit.\<close>

definition writes :: "'c cdr_lib \<Rightarrow> ('c \<Rightarrow> bool \<times> 'c) \<Rightarrow> bytes \<Rightarrow> 'c \<Rightarrow> bool" where
  "writes L f xs c \<longleftrightarrow> cdr_length L c + length xs \<le> length (cdr_bytes L c) \<longrightarrow>
     fst (f c) \<and> cdr_bytes L (snd (f c)) = overwrite (cdr_length L c) xs (cdr_bytes L c) \<and>
     cdr_length L (snd (f c)) = cdr_length L c + length xs"

text \<open>The (de)serialiser c moved over n bytes that it left as they are.\<close>

definition moved :: "'c cdr_lib \<Rightarrow> nat \<Rightarrow> 'c \<Rightarrow> 'c \<Rightarrow> bool" where
  "moved L n c c' \<longleftrightarrow> cdr_bytes L c' = cdr_bytes L c \<and> cdr_length L c' = cdr_length L c + n"

definition little :: "SubmessageHeader \<Rightarrow> bool" where
  "little s \<longleftrightarrow> sh_flags s AND 0x01 = 1"

text \<open>
  What the agent relies on: arrays of bytes are written and read as they are, the headers
  have an encoding (hdr and sub) of the sizes that the protocol fixes, and reading an
  encoding gives the header back (of a message header only the session is needed, since the
  client key is not sent in a session without one).
\<close>

definition cdr_moves :: "'c cdr_lib \<Rightarrow> bool" where
  "cdr_moves L \<longleftrightarrow>
     (\<forall>n. length (uninitialised L n) = n) \<and>
     (\<forall>b. cdr_bytes L (new_cdr L b) = b \<and> cdr_length L (new_cdr L b) = 0) \<and>
     (\<forall>c. cdr_position L c = cdr_length L c) \<and>
     (\<forall>n c. cdr_length L c + n \<le> length (cdr_bytes L c) \<longrightarrow> moved L n c (cdr_jump L n c)) \<and>
     (\<forall>e c. moved L 0 c (cdr_change_endianness L e c))"

definition reads_array :: "'c cdr_lib \<Rightarrow> bool" where
  "reads_array L \<longleftrightarrow>
     (\<forall>e n dst c. cdr_length L c + n \<le> length (cdr_bytes L c) \<and> n \<le> length dst \<longrightarrow>
        (\<exists>c'. cdr_deserialize_array L e n dst c =
           (True, take n (drop (cdr_length L c) (cdr_bytes L c)) @ drop n dst, c') \<and> moved L n c c'))"

definition hdr_codec :: "'c cdr_lib \<Rightarrow> (MessageHeader \<Rightarrow> bytes) \<Rightarrow> bool" where
  "hdr_codec L hdr \<longleftrightarrow>
     (\<forall>h. length (hdr h) = (if 128 > uint (mh_session_id h) then 8 else 4)) \<and>
     (\<forall>h. MessageHeader_getCdrSerializedSize L h = length (hdr h)) \<and>
     (\<forall>h c. cdr_length L c = 0 \<longrightarrow> writes L (MessageHeader_serialize L h) (hdr h) c)"

definition reads_hdr :: "'c cdr_lib \<Rightarrow> (MessageHeader \<Rightarrow> bytes) \<Rightarrow> bool" where
  "reads_hdr L hdr \<longleftrightarrow>
     (\<forall>h0 h rest. \<exists>h' c'. MessageHeader_deserialize L h0 (new_cdr L (hdr h @ rest)) = (True, h', c') \<and>
        mh_session_id h' = mh_session_id h \<and> moved L (length (hdr h)) (new_cdr L (hdr h @ rest)) c')"

definition sub_codec :: "'c cdr_lib \<Rightarrow> (SubmessageHeader \<Rightarrow> bytes) \<Rightarrow> bool" where
  "sub_codec L sub \<longleftrightarrow>
     (\<forall>s. length (sub s) = 4) \<and>
     (\<forall>s. SubmessageHeader_getCdrSerializedSize L s = 4) \<and>
     (\<forall>s c. little s \<and> 4 dvd cdr_length L c \<longrightarrow> writes L (SubmessageHeader_serialize L s) (sub s) c)"

definition reads_sub :: "'c cdr_lib \<Rightarrow> (SubmessageHeader \<Rightarrow> bytes) \<Rightarrow> bool" where
  "reads_sub L sub \<longleftrightarrow>
     (\<forall>s0 s c rest. little s \<and> 4 dvd cdr_length L c \<and> drop (cdr_length L c) (cdr_bytes L c) = sub s @ rest \<longrightarrow>
        (\<exists>c'. SubmessageHeader_deserialize L s0 c = (True, s, c') \<and> moved L 4 c c'))"

definition cdr_laws :: "'c cdr_lib \<Rightarrow> (MessageHeader \<Rightarrow> bytes) \<Rightarrow> (SubmessageHeader \<Rightarrow> bytes) \<Rightarrow> bool" where
  "cdr_laws L hdr sub \<longleftrightarrow> cdr_moves L \<and> (\<forall>e xs c. writes L (cdr_serialize_array L e xs) xs c) \<and>
     reads_array L \<and> hdr_codec L hdr \<and> reads_hdr L hdr \<and> sub_codec L sub \<and> reads_sub L sub"

lemma cdr_lawsD:
  assumes "cdr_laws L hdr sub"
  shows cdr_uninitialised: "length (uninitialised L n) = n"
    and cdr_new: "cdr_bytes L (new_cdr L b) = b" "cdr_length L (new_cdr L b) = 0"
    and cdr_pos: "cdr_position L c = cdr_length L c"
    and cdr_jump_moves: "cdr_length L c + n \<le> length (cdr_bytes L c) \<Longrightarrow> moved L n c (cdr_jump L n c)"
    and cdr_change: "moved L 0 c (cdr_change_endianness L e c)"
    and cdr_array_writes: "writes L (cdr_serialize_array L eo xs) xs c"
    and cdr_hdr_length: "length (hdr h) = (if 128 > uint (mh_session_id h) then 8 else 4)"
    and cdr_hdr_size: "MessageHeader_getCdrSerializedSize L h = length (hdr h)"
    and cdr_hdr_writes: "cdr_length L c = 0 \<Longrightarrow> writes L (MessageHeader_serialize L h) (hdr h) c"
    and cdr_sub_length: "length (sub s) = 4"
    and cdr_sub_size: "SubmessageHeader_getCdrSerializedSize L s = 4"
    and cdr_sub_writes: "little s \<Longrightarrow> 4 dvd cdr_length L c \<Longrightarrow> writes L (SubmessageHeader_serialize L s) (sub s) c"
  using assms by (simp_all add: cdr_laws_def cdr_moves_def hdr_codec_def sub_codec_def)

lemma cdr_array_reads:
  assumes "cdr_laws L hdr sub" "cdr_length L c + n \<le> length (cdr_bytes L c)" "n \<le> length dst"
  obtains c' where "cdr_deserialize_array L e n dst c =
    (True, take n (drop (cdr_length L c) (cdr_bytes L c)) @ drop n dst, c')" "moved L n c c'"
  using assms unfolding cdr_laws_def reads_array_def by blast

lemma cdr_hdr_reads:
  assumes "cdr_laws L hdr sub"
  obtains h' c' where "MessageHeader_deserialize L h0 (new_cdr L (hdr h @ rest)) = (True, h', c')"
    "mh_session_id h' = mh_session_id h" "moved L (length (hdr h)) (new_cdr L (hdr h @ rest)) c'"
  using assms unfolding cdr_laws_def reads_hdr_def by blast

lemma cdr_sub_reads:
  assumes "cdr_laws L hdr sub" "little s" "4 dvd cdr_length L c"
    "drop (cdr_length L c) (cdr_bytes L c) = sub s @ rest"
  obtains c' where "SubmessageHeader_deserialize L s0 c = (True, s, c')" "moved L 4 c c'"
  using assms unfolding cdr_laws_def reads_sub_def by blast

section \<open>A message with one fragment, on both sides\<close>

lemma padding_0: "4 dvd p \<Longrightarrow> padding p = 0"
proof -
  assume "4 dvd p"
  moreover have "p AND 3 = p mod 4"
    using take_bit_eq_mask [of 2 p] by (simp add: take_bit_eq_mod mask_eq_exp_minus_1)
  ultimately show ?thesis by (simp add: padding_def)
qed

lemma skip_padding_0:
  assumes "cdr_laws L hdr sub" "4 dvd cdr_length L c" "cdr_length L c \<le> length (cdr_bytes L c)"
  shows "moved L 0 c (skip_padding L c)"
  using assms cdr_jump_moves [OF assms(1), of c 0]
  by (simp add: skip_padding_def cdr_pos [OF assms(1)] padding_0)

lemma overwrite_zeros:
  "length buf = length xs + n \<Longrightarrow> overwrite (length xs) ys (xs @ replicate (length ys + n) 0) = xs @ ys @ replicate n 0"
  by (simp add: overwrite_def)

lemma om_serialize_writes:
  assumes "writes L f xs c" "cdr_bytes L c = pre @ replicate (length xs + n) 0" "cdr_length L c = length pre"
  shows "\<exists>c'. om_serialize f \<lparr>om_len = k, om_serializer = c\<rparr> = (True, \<lparr>om_len = k, om_serializer = c'\<rparr>) \<and>
    cdr_bytes L c' = (pre @ xs) @ replicate n 0 \<and> cdr_length L c' = length (pre @ xs)"
  using assms by (auto simp: om_serialize_def writes_def overwrite_def split: prod.splits)

lemma fragment_sent:
  assumes laws: "cdr_laws L hdr sub" and s: "little s" and len: "len = length (hdr h) + 4 + length xs"
  shows "\<exists>m. append_fragment L s xs (new_OutputMessage L h len) = (True, m) \<and>
    om_get_buf L m = hdr h @ sub s @ xs \<and> om_get_len L m = len"
proof -
  let ?c = "new_cdr L (replicate len 0)"
  obtain c1 where c1: "om_serialize (MessageHeader_serialize L h) \<lparr>om_len = len, om_serializer = ?c\<rparr> =
      (True, \<lparr>om_len = len, om_serializer = c1\<rparr>)"
    "cdr_bytes L c1 = hdr h @ replicate (4 + length xs) 0" "cdr_length L c1 = length (hdr h)"
    using om_serialize_writes [OF cdr_hdr_writes [OF laws, of ?c h], where pre = "[]" and n = "4 + length xs" and k = len] cdr_new [OF laws] len
    by (auto simp: add.assoc)
  have four: "4 dvd length (hdr h)"
    using cdr_hdr_length [OF laws, of h] by auto
  define c2 where "c2 = skip_padding L c1"
  have c2: "cdr_bytes L c2 = hdr h @ replicate (length (sub s) + length xs) 0" "cdr_length L c2 = length (hdr h)"
    using skip_padding_0 [OF laws, of c1] c1 four cdr_sub_length [OF laws, of s] by (simp_all add: c2_def moved_def)
  obtain c3 where c3: "om_serialize (SubmessageHeader_serialize L s) \<lparr>om_len = len, om_serializer = c2\<rparr> =
      (True, \<lparr>om_len = len, om_serializer = c3\<rparr>)"
    "cdr_bytes L c3 = (hdr h @ sub s) @ replicate (length xs + 0) 0" "cdr_length L c3 = length (hdr h @ sub s)"
    using om_serialize_writes [OF cdr_sub_writes [OF laws s, of c2], where pre = "hdr h" and n = "length xs" and k = len]
      c2 four by auto
  obtain c4 where c4: "om_serialize (cdr_serialize_array L None xs) \<lparr>om_len = len, om_serializer = c3\<rparr> =
      (True, \<lparr>om_len = len, om_serializer = c4\<rparr>)"
    "cdr_bytes L c4 = (hdr h @ sub s) @ xs" "cdr_length L c4 = length ((hdr h @ sub s) @ xs)"
    using om_serialize_writes [OF cdr_array_writes [OF laws, of None xs c3], where pre = "hdr h @ sub s" and n = 0 and k = len]
      c3(2,3) by auto
  show ?thesis
    using c1(1) c3(1) c4 len cdr_sub_length [OF laws, of s]
    by (auto simp: append_fragment_def new_OutputMessage_def om_get_buf_def om_get_len_def simp flip: c2_def)
qed

lemma fragment_received:
  assumes laws: "cdr_laws L hdr sub" and s: "little s" and len: "length xs = unat (sh_submessage_length s)"
  obtains m m' where "new_InputMessage L (hdr h @ sub s @ xs) = Inr m" "im_valid_xrce_message m"
    "prepare_next_submessage L m = (True, m')" "im_subheader m' = s"
    "get_raw_header m' = Inr (hdr h)"
    "length dst = length xs \<Longrightarrow> \<exists>m''. get_raw_payload L dst (length xs) m' = (True, xs, m'')"
proof -
  let ?buf = "hdr h @ sub s @ xs"
  obtain h1 c1 where c1: "MessageHeader_deserialize L (new_MessageHeader L) (new_cdr L ?buf) = (True, h1, c1)"
    "mh_session_id h1 = mh_session_id h" "moved L (length (hdr h)) (new_cdr L ?buf) c1"
    using cdr_hdr_reads [OF laws] by blast
  have four: "4 dvd length (hdr h)"
    using cdr_hdr_length [OF laws, of h] by auto
  define c2 where "c2 = skip_padding L c1"
  have c2: "cdr_bytes L c2 = ?buf" "cdr_length L c2 = length (hdr h)"
    using skip_padding_0 [OF laws, of c1] c1(3) four cdr_new [OF laws] by (simp_all add: c2_def moved_def)
  obtain c3 where c3: "SubmessageHeader_deserialize L (new_SubmessageHeader L) c2 = (True, s, c3)" "moved L 4 c2 c3"
    using cdr_sub_reads [OF laws s, of c2 xs] c2 four by auto
  have room: "cdr_length L c2 < length ?buf"
    using c2 cdr_sub_length [OF laws, of s] by simp
  define m where "m = \<lparr>im_buf = ?buf, im_header = h1, im_subheader = new_SubmessageHeader L,
    im_deserializer = c1, im_valid_xrce_message = True\<rparr>"
  have new: "new_InputMessage L ?buf = Inr m"
    using c1(1) c3(1) room
    by (simp add: new_InputMessage_def im_deserialize_header_def count_submessages_once count_round_def m_def
        flip: c2_def)
  define c4 where "c4 = (if sh_flags s AND 0x01 \<noteq> cdr_endianness L c3
    then cdr_change_endianness L (sh_flags s AND 0x01) c3 else c3)"
  have c4: "cdr_bytes L c4 = ?buf" "cdr_length L c4 = length (hdr h) + 4"
    using c3(2) c2 cdr_change [OF laws] by (simp_all add: c4_def moved_def)
  define m' where "m' = m\<lparr>im_subheader := s, im_deserializer := c4\<rparr>"
  have prep: "prepare_next_submessage L m = (True, m')"
    using c3(1) room
    by (simp add: prepare_next_submessage_def im_deserialize_subheader_def m_def m'_def c4_def flip: c2_def)
  have raw: "get_raw_header m' = Inr (hdr h)"
    using c1(2) cdr_hdr_length [OF laws, of h] cdr_sub_length [OF laws, of s]
    by (auto simp: get_raw_header_def m'_def m_def)
  have "\<exists>m''. get_raw_payload L dst (length xs) m' = (True, xs, m'')" if "length dst = length xs"
  proof -
    have "cdr_length L c4 + length xs \<le> length (cdr_bytes L c4)" "length xs \<le> length dst"
      using c4 cdr_sub_length [OF laws, of s] that by simp_all
    from cdr_array_reads [OF laws this, of "Some BIG_ENDIANNESS"]
    obtain c5 where "cdr_deserialize_array L (Some BIG_ENDIANNESS) (length xs) dst c4 =
        (True, take (length xs) (drop (length (hdr h) + 4) ?buf) @ drop (length xs) dst, c5)"
      using c4 by auto
    then show ?thesis
      using cdr_sub_length [OF laws, of s] that len by (auto simp: get_raw_payload_def m'_def)
  qed
  then show ?thesis
    using new prep raw by (auto simp: m_def m'_def intro!: that [of m m'])
qed

section \<open>A concrete serialiser\<close>

text \<open>A buffer with a position: little-endian numbers, the client key only in sessions that have one.\<close>

definition sim_hdr :: "MessageHeader \<Rightarrow> bytes" where
  "sim_hdr h = (case mh_client_key h of (k0, k1, k2, k3) \<Rightarrow>
     [mh_session_id h, mh_stream_id h, ucast (mh_sequence_nr h), ucast (drop_bit 8 (mh_sequence_nr h))] @
     (if 128 > uint (mh_session_id h) then [k0, k1, k2, k3] else []))"

definition sim_sub :: "SubmessageHeader \<Rightarrow> bytes" where
  "sim_sub s = [sh_submessage_id s, sh_flags s, ucast (sh_submessage_length s),
     ucast (drop_bit 8 (sh_submessage_length s))]"

type_synonym sim_cdr_state = "bytes \<times> nat \<times> u8"

definition sim_write :: "bytes \<Rightarrow> sim_cdr_state \<Rightarrow> bool \<times> sim_cdr_state" where
  "sim_write xs c = (case c of (b, p, e) \<Rightarrow>
     if p + length xs \<le> length b then (True, (overwrite p xs b, p + length xs, e)) else (False, c))"

definition sim_read_array :: "nat \<Rightarrow> bytes \<Rightarrow> sim_cdr_state \<Rightarrow> bool \<times> bytes \<times> sim_cdr_state" where
  "sim_read_array n dst c = (case c of (b, p, e) \<Rightarrow>
     if p + n \<le> length b then (True, take n (drop p b) @ drop n dst, (b, p + n, e)) else (False, dst, c))"

definition u16_of_bytes :: "u8 \<Rightarrow> u8 \<Rightarrow> u16" where
  "u16_of_bytes lo hi = ucast lo OR push_bit 8 (ucast hi)"

definition sim_read_hdr :: "MessageHeader \<Rightarrow> sim_cdr_state \<Rightarrow> bool \<times> MessageHeader \<times> sim_cdr_state" where
  "sim_read_hdr h c = (case c of (b, p, e) \<Rightarrow>
     (case drop p b of
        s # st # lo # hi # rest \<Rightarrow>
          let h = \<lparr>mh_session_id = s, mh_stream_id = st, mh_sequence_nr = u16_of_bytes lo hi,
                mh_client_key = mh_client_key h\<rparr>
          in if 128 > uint s then
               (case rest of
                  k0 # k1 # k2 # k3 # _ \<Rightarrow> (True, h\<lparr>mh_client_key := (k0, k1, k2, k3)\<rparr>, (b, p + 8, e))
                | _ \<Rightarrow> (False, h, (b, p + 4, e)))
             else (True, h, (b, p + 4, e))
      | _ \<Rightarrow> (False, h, c)))"

definition sim_read_sub :: "SubmessageHeader \<Rightarrow> sim_cdr_state \<Rightarrow> bool \<times> SubmessageHeader \<times> sim_cdr_state" where
  "sim_read_sub s c = (case c of (b, p, e) \<Rightarrow>
     (case drop p b of
        i # fl # lo # hi # _ \<Rightarrow>
          (True, \<lparr>sh_submessage_id = i, sh_flags = fl, sh_submessage_length = u16_of_bytes lo hi\<rparr>, (b, p + 4, e))
      | _ \<Rightarrow> (False, s, c)))"

definition sim_cdr :: "sim_cdr_state cdr_lib" where
  "sim_cdr = \<lparr>uninitialised = (\<lambda>n. replicate n 0xAB), new_cdr = (\<lambda>b. (b, 0, 1)), cdr_bytes = fst, cdr_position = fst \<circ> snd, cdr_length = fst \<circ> snd,
     cdr_jump = (\<lambda>n (b, p, e). if p + n \<le> length b then (b, p + n, e) else (b, p, e)),
     cdr_endianness = snd \<circ> snd, cdr_change_endianness = (\<lambda>e (b, p, _). (b, p, e)),
     cdr_serialize_array = (\<lambda>_. sim_write), cdr_deserialize_array = (\<lambda>_. sim_read_array),
     new_MessageHeader = \<lparr>mh_session_id = 0, mh_stream_id = 0, mh_sequence_nr = 0, mh_client_key = (0, 0, 0, 0)\<rparr>,
     MessageHeader_getCdrSerializedSize = length \<circ> sim_hdr,
     MessageHeader_serialize = sim_write \<circ> sim_hdr, MessageHeader_deserialize = sim_read_hdr,
     new_SubmessageHeader = \<lparr>sh_submessage_id = 0, sh_flags = 1, sh_submessage_length = 0\<rparr>,
     SubmessageHeader_getCdrSerializedSize = length \<circ> sim_sub,
     SubmessageHeader_serialize = sim_write \<circ> sim_sub, SubmessageHeader_deserialize = sim_read_sub\<rparr>"

lemma u16_of_bytes_eq: "u16_of_bytes (ucast w) (ucast (drop_bit 8 w)) = w"
proof (rule bit_word_eqI)
  fix n assume "n < LENGTH(16)"
  then consider "n < 8" | "8 \<le> n" "n < 16" by fastforce
  then show "bit (u16_of_bytes (ucast w) (ucast (drop_bit 8 w))) n = bit w n"
    by cases (auto simp: u16_of_bytes_def disjoint_bits)
qed

lemma sim_writes: "writes sim_cdr (sim_write xs) xs c"
  by (cases c) (auto simp: writes_def sim_cdr_def sim_write_def)

lemma sim_cdr_laws: "cdr_laws sim_cdr sim_hdr sim_sub"
proof -
  have "cdr_moves sim_cdr"
    by (auto simp: cdr_moves_def sim_cdr_def moved_def)
  moreover have "\<forall>e xs c. writes sim_cdr (cdr_serialize_array sim_cdr e xs) xs c"
    using sim_writes by (simp add: sim_cdr_def)
  moreover have "reads_array sim_cdr"
    by (auto simp: reads_array_def sim_cdr_def sim_read_array_def moved_def)
  moreover have len: "length (sim_hdr h) = (if 128 > uint (mh_session_id h) then 8 else 4)" for h
    by (cases "mh_client_key h") (simp add: sim_hdr_def)
  then have "hdr_codec sim_cdr sim_hdr"
    using sim_writes by (simp add: hdr_codec_def sim_cdr_def)
  moreover have "reads_hdr sim_cdr sim_hdr"
  proof -
    have "\<exists>h' c'. sim_read_hdr h0 (sim_hdr h @ rest, 0, 1) = (True, h', c') \<and>
        mh_session_id h' = mh_session_id h \<and> fst c' = sim_hdr h @ rest \<and> fst (snd c') = length (sim_hdr h)" for h0 h rest
      by (cases "mh_client_key h") (simp add: sim_hdr_def sim_read_hdr_def)
    then show ?thesis by (simp add: reads_hdr_def sim_cdr_def moved_def)
  qed
  moreover have "sub_codec sim_cdr sim_sub"
    using sim_writes by (simp add: sub_codec_def sim_cdr_def) (simp add: sim_sub_def)
  moreover have "reads_sub sim_cdr sim_sub"
    by (auto simp: reads_sub_def sim_cdr_def moved_def sim_read_sub_def sim_sub_def u16_of_bytes_eq split: list.splits)
  ultimately show ?thesis by (simp add: cdr_laws_def)
qed

lemma input_message_validity_witness:
  "\<exists>m. new_InputMessage sim_cdr [0x81, 1, 0, 0, 13, 1, 0, 0] = Inr m \<and> im_valid_xrce_message m \<and>
     (\<exists>i. get_submessage_id sim_cdr m = Inr i)"
proof -
  have "count_submessages sim_cdr [0x81, 1, 0, 0, 13, 1, 0, 0] = Inr 1"
    by (simp add: count_submessages_once count_round_def sim_cdr_def sim_read_hdr_def sim_read_sub_def
        skip_padding_def padding_0)
  then show ?thesis
    using input_message_validity [of sim_cdr "[0x81, 1, 0, 0, 13, 1, 0, 0]", OF refl] by auto
qed

end
