(* ===== verification/SeqNum.thy ===== *)
theory SeqNum
  imports Prelude
begin

text \<open>
  utils/SeqNum.hpp of the micro-ROS agent: 16-bit sequence numbers with serial arithmetic.
  A SeqNum is its only field, a word of 16 bits; each overloaded operator is a definition
  whose comparisons and subtractions are done on promoted integers, as in the source.
\<close>

type_synonym SeqNum = u16

definition SEQ_MAX :: int where "SEQ_MAX = 65535 + 1"

definition ADD_RANGE_0 :: int where "ADD_RANGE_0 = 0"

definition ADD_RANGE_1 :: int where "ADD_RANGE_1 = 32767"

lemmas seq_consts [simp] = SEQ_MAX_def ADD_RANGE_0_def ADD_RANGE_1_def

definition SeqNum_of_int :: "int \<Rightarrow> SeqNum" where
  "SeqNum_of_int n = word_of_int n"

definition seq_lt :: "SeqNum \<Rightarrow> SeqNum \<Rightarrow> bool" where
  "seq_lt lhs rhs \<longleftrightarrow> lhs \<noteq> rhs \<and>
     ((uint lhs < uint rhs \<and> uint rhs - uint lhs < ADD_RANGE_1 + 1) \<or>
      (uint lhs > uint rhs \<and> uint lhs - uint rhs > ADD_RANGE_1 + 1))"

definition seq_gt :: "SeqNum \<Rightarrow> SeqNum \<Rightarrow> bool" where
  "seq_gt lhs rhs = seq_lt rhs lhs"

definition seq_le :: "SeqNum \<Rightarrow> SeqNum \<Rightarrow> bool" where
  "seq_le lhs rhs \<longleftrightarrow> \<not> seq_gt lhs rhs"

definition seq_ge :: "SeqNum \<Rightarrow> SeqNum \<Rightarrow> bool" where
  "seq_ge lhs rhs \<longleftrightarrow> \<not> seq_lt lhs rhs"

definition seq_add_int :: "SeqNum \<Rightarrow> int \<Rightarrow> SeqNum" where
  "seq_add_int s rhs =
     (if ADD_RANGE_0 \<le> rhs \<and> rhs \<le> ADD_RANGE_1
      then word_of_int ((uint s + uint (word_of_int rhs :: u16)) mod SEQ_MAX) else s)"

definition seq_add :: "SeqNum \<Rightarrow> SeqNum \<Rightarrow> SeqNum" where
  "seq_add s rhs =
     (if seq_ge rhs (SeqNum_of_int ADD_RANGE_0) \<and> seq_le rhs (SeqNum_of_int ADD_RANGE_1)
      then word_of_int ((uint s + uint rhs) mod SEQ_MAX) else s)"

definition seq_inc :: "SeqNum \<Rightarrow> SeqNum" where
  "seq_inc s = (if uint s = 65535 then 0 else word_of_int (uint s + 1))"

definition seq_sub_int :: "SeqNum \<Rightarrow> int \<Rightarrow> SeqNum" where
  "seq_sub_int s rhs =
     (let r = word_of_int rhs :: u16 in
      if uint r > uint s then word_of_int (uint s - uint r + SEQ_MAX)
      else word_of_int (uint s - uint r))"

definition seq_sub :: "SeqNum \<Rightarrow> SeqNum \<Rightarrow> SeqNum" where
  "seq_sub s rhs =
     (if uint rhs > uint s then word_of_int (uint s - uint rhs + SEQ_MAX)
      else word_of_int (uint s - uint rhs))"

text \<open>The operator with the int on the left subtracts the int from the number.\<close>

definition int_minus_seq :: "int \<Rightarrow> SeqNum \<Rightarrow> SeqNum" where
  "int_minus_seq lhs rhs = seq_sub_int rhs lhs"

section \<open>The operators as arithmetic of words\<close>

lemma u16_bounds: "0 \<le> uint (a :: u16)" "uint (a :: u16) < 65536"
  using uint_lt2p [of a] by simp_all

lemma uint_sub_u16: "uint (b - a :: u16) = (if uint a \<le> uint b then uint b - uint a else uint b - uint a + 65536)"
proof -
  have "uint (b - a) = (uint b - uint a) mod 65536"
    by (simp add: uint_word_ariths)
  moreover have "(y - x) mod 65536 = (if x \<le> y then y - x else y - x + 65536)"
    if "0 \<le> x" "x < 65536" "0 \<le> y" "y < 65536" for x y :: int
    using that mod_add_self2 [of "y - x" 65536] mod_pos_pos_trivial [of "y - x + 65536" 65536]
    by (auto simp: mod_pos_pos_trivial)
  ultimately show ?thesis
    using u16_bounds by presburger
qed

lemma unat_sub_u16: "unat (b - a :: u16) = nat (uint (b - a))"
  by simp

lemma seq_lt_iff: "seq_lt a b \<longleftrightarrow> 0 < unat (b - a) \<and> unat (b - a) < 32768"
proof -
  have "seq_lt a b \<longleftrightarrow> 0 < uint (b - a) \<and> uint (b - a) < 32768"
    using u16_bounds(1) [of a] u16_bounds(2) [of a] u16_bounds(1) [of b] u16_bounds(2) [of b]
    unfolding seq_lt_def uint_sub_u16 word_uint_eq_iff seq_consts by (smt (verit))
  then show ?thesis
    by (metis of_nat_0_less_iff of_nat_less_iff of_nat_numeral uint_nat)
qed

lemma seq_gt_iff: "seq_gt a b \<longleftrightarrow> 0 < unat (a - b) \<and> unat (a - b) < 32768"
  by (simp add: seq_gt_def seq_lt_iff)

lemma seq_le_iff: "seq_le a b \<longleftrightarrow> a = b \<or> 32768 \<le> unat (a - b)"
  by (auto simp: seq_le_def seq_gt_iff unat_eq_0)

lemma seq_ge_iff: "seq_ge a b \<longleftrightarrow> a = b \<or> 32768 \<le> unat (b - a)"
  by (auto simp: seq_ge_def seq_lt_iff unat_eq_0)

lemma word_mod_u16: "(word_of_int (n mod 65536) :: u16) = word_of_int n"
  by (rule word_of_int_eq_iff [THEN iffD2]) (simp add: take_bit_eq_mod)

lemma seq_add_int_eq: "0 \<le> n \<Longrightarrow> n \<le> 32767 \<Longrightarrow> seq_add_int s n = s + word_of_int n"
  by (simp add: seq_add_int_def word_mod_u16 del: word_of_int_uint add: word_of_int_uint wi_hom_add [symmetric])

lemma seq_add_int_out: "n < 0 \<or> 32767 < n \<Longrightarrow> seq_add_int s n = s"
  by (auto simp: seq_add_int_def)

lemma seq_add_int_1 [simp]: "seq_add_int s 1 = s + 1"
  by (simp add: seq_add_int_eq)

lemma seq_sub_eq [simp]: "seq_sub s r = s - r"
proof -
  have "(word_of_int (uint s - uint r + 65536) :: u16) = word_of_int (uint s - uint r)"
    using word_mod_u16 [of "uint s - uint r + 65536"] word_mod_u16 [of "uint s - uint r"] by simp
  then show ?thesis
    by (simp add: seq_sub_def wi_hom_sub [symmetric])
qed

lemma seq_sub_int_eq [simp]: "seq_sub_int s n = s - word_of_int n"
  using seq_sub_eq [of s "word_of_int n"] by (simp add: seq_sub_int_def seq_sub_def Let_def)

lemma seq_inc_eq [simp]: "seq_inc s = s + 1"
proof (cases "uint s = 65535")
  case True
  then have "s = word_of_int 65535"
    by (metis word_of_int_uint)
  then show ?thesis by (simp add: seq_inc_def)
qed (simp add: seq_inc_def wi_hom_add [symmetric])

lemma seq_add_guard: "seq_ge r (SeqNum_of_int 0) \<and> seq_le r (SeqNum_of_int 32767) \<longleftrightarrow> unat r < 32768"
proof -
  have z: "uint (0 - r) = (if uint r = 0 then 0 else 65536 - uint r)"
    using u16_bounds [of r] uint_sub_u16 [where b = 0 and a = r] by auto
  have m: "uint (r - 32767) = (if 32767 \<le> uint r then uint r - 32767 else uint r - 32767 + 65536)"
    by (simp add: uint_sub_u16)
  have "seq_ge r 0 \<longleftrightarrow> uint r \<le> 32768"
    using z u16_bounds [of r] unfolding seq_ge_def seq_lt_def word_uint_eq_iff seq_consts
    by auto
  moreover have "seq_le r 32767 \<longleftrightarrow> uint r \<le> 32767 \<or> uint r = 65535"
  proof -
    have "uint (32767 :: u16) = 32767" by simp
    then show ?thesis
      using u16_bounds(1) [of r] u16_bounds(2) [of r]
      unfolding seq_le_def seq_gt_def seq_lt_def word_uint_eq_iff seq_consts by (smt (verit))
  qed
  moreover have "unat r < 32768 \<longleftrightarrow> uint r < 32768"
    using uint_nat [of r] by linarith
  ultimately show ?thesis
    using u16_bounds(1) [of r] u16_bounds(2) [of r]
    by (simp add: SeqNum_of_int_def del: unsigned_greater_eq) linarith
qed

lemma seq_add_eq: "seq_add s r = (if unat r < 32768 then s + r else s)"
  using seq_add_guard [of r]
  by (simp add: seq_add_def word_mod_u16 wi_hom_add [symmetric])

text \<open>Comparisons of two numbers of a window that starts at any number.\<close>

lemma unat_of_nat_u16: "n < 65536 \<Longrightarrow> unat (of_nat n :: u16) = n"
  by (simp add: unat_of_nat take_bit_nat_eq_self)

lemma seq_lt_window:
  "i < 65536 \<Longrightarrow> j < 65536 \<Longrightarrow> i < j + 32768 \<Longrightarrow> j < i + 32768 \<Longrightarrow>
   seq_lt (b + of_nat i) (b + of_nat j) \<longleftrightarrow> i < j"
proof -
  assume a: "i < 65536" "j < 65536" "i < j + 32768" "j < i + 32768"
  have "uint (of_nat j - of_nat i :: u16) = (if i \<le> j then int j - int i else int j - int i + 65536)"
    using a by (simp add: uint_sub_u16 unsigned_of_nat take_bit_nat_eq_self)
  moreover have "b + of_nat j - (b + of_nat i) = (of_nat j - of_nat i :: u16)"
    by simp
  ultimately show ?thesis
    using a unfolding seq_lt_iff unat_sub_u16 by (auto simp del: nat_uint_eq)
qed

text \<open>C37: serial comparison.  A number is smaller than another exactly when the other lies
  1 to 2^15 - 1 steps ahead of it, so the order is asymmetric, moving both numbers by the
  same amount keeps it, and the only unordered pairs are equal numbers and those that are
  2^15 apart.\<close>

theorem seq_order_serial:
  "(seq_lt a b \<longleftrightarrow> (\<exists>k\<in>{1..<2 ^ 15}. b = seq_add a (word_of_int (int k)))) \<and>
   \<not> (seq_lt a b \<and> seq_lt b a) \<and>
   seq_lt (a + c) (b + c) = seq_lt a b \<and>
   (\<not> seq_lt a b \<and> \<not> seq_gt a b \<longleftrightarrow> a = b \<or> unat (b - a) = 2 ^ 15)"
proof -
  have neg: "a \<noteq> b \<Longrightarrow> unat (a - b) = 65536 - unat (b - a)"
  proof -
    assume "a \<noteq> b"
    then have "uint a \<noteq> uint b" by (simp add: word_uint_eq_iff)
    then have "uint (a - b) = 65536 - uint (b - a)"
      by (auto simp: uint_sub_u16)
    then show ?thesis
      using u16_bounds [of "a - b"] by (simp add: nat_diff_distrib unat_sub_u16 del: nat_uint_eq)
  qed
  have 1: "seq_lt a b \<longleftrightarrow> (\<exists>k\<in>{1..<2 ^ 15}. b = seq_add a (word_of_int (int k)))"
  proof
    assume "seq_lt a b"
    then have "unat (b - a) \<in> {1..<2 ^ 15}" "b = seq_add a (word_of_int (int (unat (b - a))))"
      by (auto simp: seq_lt_iff seq_add_eq)
    then show "\<exists>k\<in>{1..<2 ^ 15}. b = seq_add a (word_of_int (int k))" by blast
  next
    assume "\<exists>k\<in>{1..<2 ^ 15}. b = seq_add a (word_of_int (int k))"
    then obtain k where k: "1 \<le> k" "k < 32768" "b = seq_add a (of_nat k)"
      by auto
    then show "seq_lt a b"
      by (simp add: seq_lt_iff seq_add_eq unat_of_nat_u16)
  qed
  have 2: "\<not> (seq_lt a b \<and> seq_lt b a)"
    using neg by (cases "a = b") (auto simp: seq_lt_iff)
  have 3: "\<not> seq_lt a b \<and> \<not> seq_gt a b \<longleftrightarrow> a = b \<or> unat (b - a) = 2 ^ 15"
    using neg unsigned_less [of "b - a"]
    by (cases "a = b") (auto simp: seq_lt_iff seq_gt_iff unat_eq_0)
  show ?thesis
    using 1 2 3 by (simp add: seq_lt_iff)
qed

end
