(* ===== verification/Containers.thy ===== *)
theory Containers
  imports Prelude "HOL-Library.AList"
begin

text \<open>
  The containers of the C++ standard library that the agent uses.  A std::map or
  std::unordered_map is an association list with distinct keys, so that size and empty
  compute; map_find, map_emplace, map_put, map_index and map_erase are find, emplace (which
  keeps an entry that is there), operator[] assigned to and read, and erase.  A std::queue or std::deque is a
  list, front first.

  The locale bounded_queue is the interface that the four bounded message queues of a
  session share (the None and the best-effort streams, in both directions): what push and
  pop do to the queue.  Its lemma queue_fifo is the order and the bound of any sequence of
  operations.
\<close>

section \<open>Maps\<close>

definition map_find :: "('k \<times> 'v) list \<Rightarrow> 'k \<Rightarrow> 'v option" where
  "map_find m k = map_of m k"

definition map_emplace :: "'k \<Rightarrow> 'v \<Rightarrow> ('k \<times> 'v) list \<Rightarrow> ('k \<times> 'v) list" where
  "map_emplace k v m = (case map_find m k of None \<Rightarrow> (k, v) # m | Some _ \<Rightarrow> m)"

definition map_put :: "'k \<Rightarrow> 'v \<Rightarrow> ('k \<times> 'v) list \<Rightarrow> ('k \<times> 'v) list" where
  "map_put k v m = AList.update k v m"

definition map_erase :: "'k \<Rightarrow> ('k \<times> 'v) list \<Rightarrow> ('k \<times> 'v) list" where
  "map_erase k m = AList.delete k m"

text \<open>operator[]: the value of the key, a default one when the key is not there.\<close>

definition map_index :: "'v \<Rightarrow> ('k \<times> 'v) list \<Rightarrow> 'k \<Rightarrow> 'v" where
  "map_index d m k = (case map_find m k of None \<Rightarrow> d | Some v \<Rightarrow> v)"

text \<open>A range-based for loop that changes each value.\<close>

definition map_values :: "('v \<Rightarrow> 'w) \<Rightarrow> ('k \<times> 'v) list \<Rightarrow> ('k \<times> 'w) list" where
  "map_values f m = map (\<lambda>(k, v). (k, f v)) m"

definition map_ok :: "('k \<times> 'v) list \<Rightarrow> bool" where
  "map_ok m = distinct (map fst m)"

lemma map_find_empty [simp]: "map_find [] k = None"
  by (simp add: map_find_def)

lemma map_find_Cons: "map_find ((k, v) # m) k' = (if k' = k then Some v else map_find m k')"
  by (simp add: map_find_def)

lemma map_find_emplace [simp]:
  "map_find (map_emplace k v m) k' = (if k' = k \<and> map_find m k = None then Some v else map_find m k')"
  by (auto simp: map_emplace_def map_find_def split: option.split)

lemma map_find_put [simp]: "map_find (map_put k v m) k' = (if k' = k then Some v else map_find m k')"
  by (simp add: map_find_def map_put_def update_conv)

lemma map_find_erase [simp]: "map_find (map_erase k m) k' = (if k' = k then None else map_find m k')"
  by (simp add: map_find_def map_erase_def delete_conv)

lemma map_find_values [simp]: "map_find (map_values f m) k = map_option f (map_find m k)"
  by (induction m) (auto simp: map_find_def map_values_def)

lemma map_index_put [simp]: "map_index d (map_put k v m) k' = (if k' = k then v else map_index d m k')"
  by (simp add: map_index_def)

lemma map_index_empty [simp]: "map_index d [] k = d"
  by (simp add: map_index_def)

lemma map_index_values: "map_index d (map_values f m) k = (case map_find m k of None \<Rightarrow> d | Some v \<Rightarrow> f v)"
  by (simp add: map_index_def split: option.split)

lemma map_ok_values [simp]: "map_ok (map_values f m) = map_ok m"
  by (simp add: map_ok_def map_values_def comp_def case_prod_beta)

definition map_all :: "('k \<Rightarrow> 'v \<Rightarrow> bool) \<Rightarrow> ('k \<times> 'v) list \<Rightarrow> bool" where
  "map_all P m = list_all (\<lambda>(k, v). P k v) m"

lemma map_all_empty [simp]: "map_all P []"
  by (simp add: map_all_def)

lemma map_all_put: "map_all P m \<Longrightarrow> P k v \<Longrightarrow> map_all P (map_put k v m)"
proof (induction m)
  case (Cons x m)
  then show ?case by (cases x) (auto simp: map_all_def map_put_def)
qed (simp add: map_all_def map_put_def)

lemma map_all_index: "map_all P m \<Longrightarrow> P k d \<Longrightarrow> P k (map_index d m k)"
  by (induction m) (auto simp: map_all_def map_index_def map_find_Cons)

lemma map_all_values: "map_all (\<lambda>k v. P k (f v)) m \<Longrightarrow> map_all P (map_values f m)"
  by (induction m) (auto simp: map_all_def map_values_def)

lemma map_all_mono: "map_all P m \<Longrightarrow> (\<And>k v. P k v \<Longrightarrow> Q k v) \<Longrightarrow> map_all Q m"
  by (auto simp: map_all_def list_all_iff)

lemma map_ok_empty [simp]: "map_ok []"
  by (simp add: map_ok_def)

lemma map_ok_emplace [simp]: "map_ok m \<Longrightarrow> map_ok (map_emplace k v m)"
  by (auto simp: map_ok_def map_emplace_def map_find_def map_of_eq_None_iff split: option.split)

lemma map_ok_put [simp]: "map_ok m \<Longrightarrow> map_ok (map_put k v m)"
  by (simp add: map_ok_def map_put_def distinct_update)

lemma map_ok_erase [simp]: "map_ok m \<Longrightarrow> map_ok (map_erase k m)"
  by (simp add: map_ok_def map_erase_def distinct_delete)

lemma map_find_None_all: "(\<forall>k. map_find m k = None) \<longleftrightarrow> m = []"
  by (cases m) (auto simp: map_find_def)

lemma map_find_in_set: "map_ok m \<Longrightarrow> map_find m k = Some v \<longleftrightarrow> (k, v) \<in> set m"
  by (simp add: map_ok_def map_find_def)

section \<open>Bounded queues\<close>

datatype 'a queue_op = Queue_Push 'a | Queue_Pop

text \<open>A sequence of operations, with the messages it accepts and those it takes out.\<close>

fun queue_run :: "('s \<Rightarrow> 'm list) \<Rightarrow> ('a \<Rightarrow> 's \<Rightarrow> bool \<times> 's) \<Rightarrow> ('s \<Rightarrow> 'm option \<times> 's) \<Rightarrow>
    'a queue_op list \<Rightarrow> 's \<Rightarrow> 'm list \<times> 'm list \<times> 's" where
  "queue_run queue push pop [] s = ([], [], s)"
| "queue_run queue push pop (Queue_Push a # ops) s =
     (let s' = snd (push a s); (acc, out, t) = queue_run queue push pop ops s'
      in (drop (length (queue s)) (queue s') @ acc, out, t))"
| "queue_run queue push pop (Queue_Pop # ops) s =
     (let (m, s') = pop s; (acc, out, t) = queue_run queue push pop ops s'
      in (acc, case m of None \<Rightarrow> out | Some x \<Rightarrow> x # out, t))"

locale bounded_queue =
  fixes queue :: "'s \<Rightarrow> 'm list"
    and push :: "'a \<Rightarrow> 's \<Rightarrow> bool \<times> 's"
    and pop :: "'s \<Rightarrow> 'm option \<times> 's"
    and depth :: nat
  assumes push_law: "queue (snd (push a s)) = queue s \<or>
      length (queue s) < depth \<and> fst (push a s) \<and> (\<exists>m. queue (snd (push a s)) = queue s @ [m])"
    and pop_empty: "queue s = [] \<Longrightarrow> pop s = (None, s)"
    and pop_front: "queue s = m # ms \<Longrightarrow> fst (pop s) = Some m \<and> queue (snd (pop s)) = ms"
begin

lemma push_bound: "length (queue s) \<le> depth \<Longrightarrow> length (queue (snd (push a s))) \<le> depth"
  using push_law [of a s] by auto

lemma push_full: "depth \<le> length (queue s) \<Longrightarrow> queue (snd (push a s)) = queue s"
  using push_law [of a s] by auto

lemma pop_bound: "length (queue s) \<le> depth \<Longrightarrow> length (queue (snd (pop s))) \<le> depth"
  using pop_empty [of s] pop_front [of s] by (cases "queue s") auto

lemma push_grows: "\<exists>ys. queue (snd (push a s)) = queue s @ ys"
  using push_law [of a s] by auto

lemma queue_fifo:
  assumes "queue_run queue push pop ops s = (acc, out, t)"
  shows "queue s @ acc = out @ queue t"
    and "length (queue s) \<le> depth \<Longrightarrow> length (queue t) \<le> depth"
  using assms
proof (induction ops arbitrary: s acc out)
  case (Cons op ops)
  { case 1
    show ?case
    proof (cases op)
      case (Queue_Push a)
      obtain ys where "queue (snd (push a s)) = queue s @ ys"
        using push_grows by blast
      then show ?thesis
        using 1 Queue_Push Cons.IH(1) [of "snd (push a s)"] by (fastforce split: prod.splits)
    next
      case Queue_Pop
      then show ?thesis
        using 1 Cons.IH(1) [of "snd (pop s)"] pop_empty [of s] pop_front [of s]
        by (cases "queue s") (fastforce split: prod.splits)+
    qed
  next
    case 2
    show ?case
    proof (cases op)
      case (Queue_Push a)
      then show ?thesis
        using 2 Cons.IH(2) [of "snd (push a s)"] push_bound [of s a] by (auto simp: Let_def split: prod.splits)
    next
      case Queue_Pop
      then show ?thesis
        using 2 Cons.IH(2) [of "snd (pop s)"] pop_bound [of s] by (auto simp: Let_def split: prod.splits)
    qed }
qed simp_all

end

end
