(* ===== verification/InputStream.thy ===== *)
theory InputStream
  imports Messages SeqNum Containers
begin

text \<open>
  client/session/stream/InputStream.hpp: the three kinds of input streams of a session.
  The message type is a parameter where a method only stores and moves messages; emplace,
  push_fragment and pop_fragment_message work on the input messages of Messages.  A method
  that gives the caller a message gives an option, None for the result false.  Each method
  runs under the stream's own mutex, so a method is one step of the model.
\<close>

section \<open>None input stream\<close>

record 'm NoneInputStream =
  ni_messages :: "'m list"

definition new_NoneInputStream :: "'m NoneInputStream" where
  "new_NoneInputStream = \<lparr>ni_messages = []\<rparr>"

definition NoneInputStream_push_message :: "'m \<Rightarrow> 'm NoneInputStream \<Rightarrow> bool \<times> 'm NoneInputStream" where
  "NoneInputStream_push_message m s =
     (if length (ni_messages s) < BEST_EFFORT_STREAM_DEPTH
      then (True, s\<lparr>ni_messages := ni_messages s @ [m]\<rparr>) else (False, s))"

definition NoneInputStream_emplace_message :: "'c cdr_lib \<Rightarrow> bytes \<Rightarrow> 'c InputMessage NoneInputStream \<Rightarrow>
    (bool \<times> 'c InputMessage NoneInputStream) res" where
  "NoneInputStream_emplace_message L buf s =
     (if length (ni_messages s) < BEST_EFFORT_STREAM_DEPTH
      then bind_res (new_InputMessage L buf) (\<lambda>m. Inr (True, s\<lparr>ni_messages := ni_messages s @ [m]\<rparr>))
      else Inr (False, s))"

definition NoneInputStream_pop_message :: "'m NoneInputStream \<Rightarrow> 'm option \<times> 'm NoneInputStream" where
  "NoneInputStream_pop_message s =
     (case ni_messages s of [] \<Rightarrow> (None, s) | m # ms \<Rightarrow> (Some m, s\<lparr>ni_messages := ms\<rparr>))"

definition NoneInputStream_reset :: "'m NoneInputStream \<Rightarrow> 'm NoneInputStream" where
  "NoneInputStream_reset s = s\<lparr>ni_messages := []\<rparr>"

section \<open>Best-effort input stream\<close>

record 'm BestEffortInputStream =
  bi_messages :: "'m list"
  bi_last_received :: SeqNum

definition new_BestEffortInputStream :: "'m BestEffortInputStream" where
  "new_BestEffortInputStream = \<lparr>bi_messages = [], bi_last_received = 0xFFFF\<rparr>"

definition BestEffortInputStream_push_message ::
    "SeqNum \<Rightarrow> 'm \<Rightarrow> 'm BestEffortInputStream \<Rightarrow> bool \<times> 'm BestEffortInputStream" where
  "BestEffortInputStream_push_message seq_num m s =
     (if seq_gt seq_num (bi_last_received s) \<and> length (bi_messages s) < BEST_EFFORT_STREAM_DEPTH
      then (True, s\<lparr>bi_messages := bi_messages s @ [m], bi_last_received := seq_num\<rparr>)
      else (False, s))"

definition BestEffortInputStream_emplace_message :: "'c cdr_lib \<Rightarrow> SeqNum \<Rightarrow> bytes \<Rightarrow>
    'c InputMessage BestEffortInputStream \<Rightarrow> (bool \<times> 'c InputMessage BestEffortInputStream) res" where
  "BestEffortInputStream_emplace_message L seq_num buf s =
     (if seq_gt seq_num (bi_last_received s) \<and> length (bi_messages s) < BEST_EFFORT_STREAM_DEPTH
      then bind_res (new_InputMessage L buf)
        (\<lambda>m. Inr (True, s\<lparr>bi_messages := bi_messages s @ [m], bi_last_received := seq_num\<rparr>))
      else Inr (False, s))"

definition BestEffortInputStream_pop_message ::
    "'m BestEffortInputStream \<Rightarrow> 'm option \<times> 'm BestEffortInputStream" where
  "BestEffortInputStream_pop_message s =
     (case bi_messages s of [] \<Rightarrow> (None, s) | m # ms \<Rightarrow> (Some m, s\<lparr>bi_messages := ms\<rparr>))"

definition BestEffortInputStream_reset :: "'m BestEffortInputStream \<Rightarrow> 'm BestEffortInputStream" where
  "BestEffortInputStream_reset s = s\<lparr>bi_messages := [], bi_last_received := 0xFFFF\<rparr>"

section \<open>Reliable input stream\<close>

record 'm ReliableInputStream =
  ri_last_handled :: SeqNum
  ri_last_announced :: SeqNum
  ri_messages :: "(u16 \<times> 'm) list"
  ri_fragment_msg :: bytes
  ri_fragment_message_available :: bool

definition new_ReliableInputStream :: "'m ReliableInputStream" where
  "new_ReliableInputStream = \<lparr>ri_last_handled = 0xFFFF, ri_last_announced = 0xFFFF, ri_messages = [],
     ri_fragment_msg = [], ri_fragment_message_available = False\<rparr>"

definition ReliableInputStream_push_message ::
    "SeqNum \<Rightarrow> 'm \<Rightarrow> 'm ReliableInputStream \<Rightarrow> bool \<times> 'm ReliableInputStream" where
  "ReliableInputStream_push_message seq_num m s =
     (if seq_gt seq_num (ri_last_handled s) \<and>
         seq_le seq_num (seq_add (ri_last_handled s) (SeqNum_of_int RELIABLE_STREAM_DEPTH))
      then if seq_gt seq_num (ri_last_announced s)
        then (True, s\<lparr>ri_last_announced := seq_num, ri_messages := map_emplace seq_num m (ri_messages s)\<rparr>)
        else (case map_find (ri_messages s) seq_num of
            None \<Rightarrow> (True, s\<lparr>ri_messages := map_emplace seq_num m (ri_messages s)\<rparr>)
          | Some _ \<Rightarrow> (False, s))
      else (False, s))"

definition ReliableInputStream_emplace_message :: "'c cdr_lib \<Rightarrow> SeqNum \<Rightarrow> bytes \<Rightarrow>
    'c InputMessage ReliableInputStream \<Rightarrow> (bool \<times> 'c InputMessage ReliableInputStream) res" where
  "ReliableInputStream_emplace_message L seq_num buf s =
     (if seq_gt seq_num (ri_last_handled s) \<and>
         seq_le seq_num (seq_add (ri_last_handled s) (SeqNum_of_int RELIABLE_STREAM_DEPTH))
      then if seq_gt seq_num (ri_last_announced s)
        then bind_res (new_InputMessage L buf) (\<lambda>m.
          Inr (True, s\<lparr>ri_last_announced := seq_num, ri_messages := map_emplace seq_num m (ri_messages s)\<rparr>))
        else (case map_find (ri_messages s) seq_num of
            None \<Rightarrow> bind_res (new_InputMessage L buf) (\<lambda>m.
              Inr (True, s\<lparr>ri_messages := map_emplace seq_num m (ri_messages s)\<rparr>))
          | Some _ \<Rightarrow> Inr (False, s))
      else Inr (False, s))"

definition ReliableInputStream_pop_message :: "'m ReliableInputStream \<Rightarrow> 'm option \<times> 'm ReliableInputStream" where
  "ReliableInputStream_pop_message s =
     (case map_find (ri_messages s) (seq_add_int (ri_last_handled s) 1) of
        None \<Rightarrow> (None, s)
      | Some m \<Rightarrow> let handled = seq_add_int (ri_last_handled s) 1 in
          (Some m, s\<lparr>ri_last_handled := handled, ri_messages := map_erase handled (ri_messages s)\<rparr>))"

definition ReliableInputStream_update_from_heartbeat ::
    "SeqNum \<Rightarrow> SeqNum \<Rightarrow> 'm ReliableInputStream \<Rightarrow> 'm ReliableInputStream" where
  "ReliableInputStream_update_from_heartbeat first_unacked last_unacked s =
     (let s = (if seq_lt (seq_add_int (ri_last_handled s) 1) first_unacked
               then s\<lparr>ri_last_handled := seq_sub_int first_unacked 1\<rparr> else s)
      in if seq_lt (ri_last_announced s) last_unacked
         then s\<lparr>ri_last_announced := last_unacked\<rparr> else s)"

text \<open>One round of the loop of fill_acknack over the two bytes of the bitmap.\<close>

definition acknack_round :: "'m ReliableInputStream \<Rightarrow> nat \<Rightarrow> u8 \<times> u8 \<Rightarrow> u8 \<times> u8" where
  "acknack_round s i b = (case b of (b0, b1) \<Rightarrow>
     let missing = (\<lambda>k. seq_lt (seq_add (ri_last_handled s) (SeqNum_of_int (int k))) (ri_last_announced s) \<and>
           map_find (ri_messages s) (seq_add (ri_last_handled s) (SeqNum_of_int (int k + 1))) = None)
     in (if missing (i + 8) then b0 OR push_bit i 1 else b0, if missing i then b1 OR push_bit i 1 else b1))"

definition ReliableInputStream_fill_acknack :: "'m ReliableInputStream \<Rightarrow> ACKNACK_Payload \<Rightarrow> ACKNACK_Payload" where
  "ReliableInputStream_fill_acknack s acknack =
     acknack\<lparr>an_first_unacked_seq_num := seq_add_int (ri_last_handled s) 1,
       an_nack_bitmap := fold (acknack_round s) [0..<8] (0, 0)\<rparr>"

definition ReliableInputStream_reset :: "'m ReliableInputStream \<Rightarrow> 'm ReliableInputStream" where
  "ReliableInputStream_reset s = s\<lparr>ri_last_handled := 0xFFFF, ri_last_announced := 0xFFFF, ri_messages := []\<rparr>"

text \<open>push_fragment also moves the deserialiser of the message that it reads.\<close>

definition ReliableInputStream_push_fragment :: "'c cdr_lib \<Rightarrow> 'c InputMessage \<Rightarrow>
    'm ReliableInputStream \<Rightarrow> ('c InputMessage \<times> 'm ReliableInputStream) res" where
  "ReliableInputStream_push_fragment L message s =
     bind_res (if ri_fragment_msg s = [] then get_raw_header message else Inr (ri_fragment_msg s)) (\<lambda>msg.
       let fragment_size = unat (sh_submessage_length (im_subheader message));
           (rv, payload, message') = get_raw_payload L (replicate fragment_size 0) fragment_size message
       in Inr (message', s\<lparr>ri_fragment_msg := msg @ payload,
            ri_fragment_message_available := (0 \<noteq> FLAG_LAST_FRAGMENT AND sh_flags (im_subheader message'))\<rparr>))"

definition ReliableInputStream_pop_fragment_message :: "'c cdr_lib \<Rightarrow>
    'm ReliableInputStream \<Rightarrow> ('c InputMessage option \<times> 'm ReliableInputStream) res" where
  "ReliableInputStream_pop_fragment_message L s =
     (if ri_fragment_message_available s
      then bind_res (new_InputMessage L (ri_fragment_msg s)) (\<lambda>m.
        Inr (Some m, s\<lparr>ri_fragment_msg := [], ri_fragment_message_available := False\<rparr>))
      else Inr (None, s))"

section \<open>The bounded queues\<close>

interpretation none_in: bounded_queue ni_messages NoneInputStream_push_message NoneInputStream_pop_message
    BEST_EFFORT_STREAM_DEPTH
  by unfold_locales (auto simp: NoneInputStream_push_message_def NoneInputStream_pop_message_def)

interpretation best_effort_in: bounded_queue bi_messages "\<lambda>(n, m). BestEffortInputStream_push_message n m"
    BestEffortInputStream_pop_message BEST_EFFORT_STREAM_DEPTH
  by unfold_locales
    (auto simp: BestEffortInputStream_push_message_def BestEffortInputStream_pop_message_def split: if_splits)

text \<open>emplace_message is push_message of the message that the constructor makes.\<close>

lemma ReliableInputStream_emplace_push:
  assumes "new_InputMessage L buf = Inr m"
  shows "ReliableInputStream_emplace_message L n buf s = Inr (ReliableInputStream_push_message n m s)"
  using assms
  by (auto simp: ReliableInputStream_emplace_message_def ReliableInputStream_push_message_def split: option.split)

lemma BestEffortInputStream_emplace_push:
  assumes "new_InputMessage L buf = Inr m"
  shows "BestEffortInputStream_emplace_message L n buf s = Inr (BestEffortInputStream_push_message n m s)"
  using assms
  by (simp add: BestEffortInputStream_emplace_message_def BestEffortInputStream_push_message_def)

section \<open>The reliable stream against a receiver with unbounded numbers\<close>

text \<open>
  The sender numbers its messages 0, 1, 2, ...; message n travels with the sequence number
  n mod 2^16.  The abstract receiver keeps the number of the next message to deliver, one
  past the largest number announced, and the set of messages received ahead.
\<close>

type_synonym receiver = "nat \<times> nat \<times> nat set"

datatype net_event = Arrive nat | Deliver | Heartbeat nat nat

fun spec_step :: "net_event \<Rightarrow> receiver \<Rightarrow> nat option \<times> receiver" where
  "spec_step (Arrive n) (h, a, R) =
     (None, if h \<le> n \<and> n < h + 16 \<and> n \<notin> R then (h, max a (n + 1), insert n R) else (h, a, R))"
| "spec_step Deliver (h, a, R) =
     (if h \<in> R then (Some h, (h + 1, a, R - {h})) else (None, (h, a, R)))"
| "spec_step (Heartbeat lo hi) (h, a, R) = (None, (h, max a (hi + 1), R))"

fun stream_step :: "(nat \<Rightarrow> 'm) \<Rightarrow> net_event \<Rightarrow> 'm ReliableInputStream \<Rightarrow> 'm option \<times> 'm ReliableInputStream" where
  "stream_step f (Arrive n) s = (None, snd (ReliableInputStream_push_message (of_nat n) (f n) s))"
| "stream_step f Deliver s = ReliableInputStream_pop_message s"
| "stream_step f (Heartbeat lo hi) s =
     (None, ReliableInputStream_update_from_heartbeat (of_nat lo) (of_nat hi) s)"

text \<open>
  What the network and the sender guarantee: nothing arrives 2^14 numbers late or early,
  and a heartbeat does not announce as acknowledged what was not delivered.
\<close>

definition near :: "nat \<Rightarrow> nat \<Rightarrow> bool" where
  "near h n \<longleftrightarrow> h \<le> n + 2 ^ 14 \<and> n \<le> h + 2 ^ 14"

fun timely_event :: "net_event \<Rightarrow> receiver \<Rightarrow> bool" where
  "timely_event (Arrive n) (h, a, R) = near h n"
| "timely_event Deliver st = True"
| "timely_event (Heartbeat lo hi) (h, a, R) = (lo \<le> h \<and> near h lo \<and> near h hi)"

fun timely :: "net_event list \<Rightarrow> receiver \<Rightarrow> bool" where
  "timely [] st = True"
| "timely (e # es) st = (timely_event e st \<and> timely es (snd (spec_step e st)))"

fun spec_run :: "net_event list \<Rightarrow> receiver \<Rightarrow> nat list \<times> receiver" where
  "spec_run [] st = ([], st)"
| "spec_run (e # es) st = (let (x, st) = spec_step e st; (xs, st) = spec_run es st
     in (case x of None \<Rightarrow> xs | Some n \<Rightarrow> n # xs, st))"

fun stream_run :: "(nat \<Rightarrow> 'm) \<Rightarrow> net_event list \<Rightarrow> 'm ReliableInputStream \<Rightarrow> 'm list \<times> 'm ReliableInputStream" where
  "stream_run f [] s = ([], s)"
| "stream_run f (e # es) s = (let (x, s) = stream_step f e s; (xs, s) = stream_run f es s
     in (case x of None \<Rightarrow> xs | Some m \<Rightarrow> m # xs, s))"

definition acknack_bit :: "ACKNACK_Payload \<Rightarrow> nat \<Rightarrow> bool" where
  "acknack_bit an i = (if i < 8 then bit (snd (an_nack_bitmap an)) i else bit (fst (an_nack_bitmap an)) (i - 8))"

definition receives :: "(nat \<Rightarrow> 'm) \<Rightarrow> 'm ReliableInputStream \<Rightarrow> receiver \<Rightarrow> bool" where
  "receives f s st \<longleftrightarrow> (case st of (h, a, R) \<Rightarrow>
     ri_last_handled s = - 1 + of_nat h \<and> ri_last_announced s = - 1 + of_nat a \<and>
     map_ok (ri_messages s) \<and> R \<subseteq> {h..<h + 16} \<and> R \<subseteq> {..<a} \<and> h \<le> a \<and> a \<le> h + 2 ^ 14 + 1 \<and>
     (\<forall>n\<in>R. map_find (ri_messages s) (of_nat n) = Some (f n)) \<and>
     (\<forall>w. map_find (ri_messages s) w \<noteq> None \<longrightarrow> w \<in> of_nat ` R))"

lemma seq_lt_of_nat:
  assumes "i \<le> j + 32768" "j < i + 32768"
  shows "seq_lt (c + of_nat i) (c + of_nat j) \<longleftrightarrow> i < j"
proof -
  have "unat (of_nat j - of_nat i :: u16) = (if i \<le> j then j - i else j + 65536 - i)"
  proof (cases "i \<le> j")
    case True
    then have "(of_nat j - of_nat i :: u16) = of_nat (j - i)"
      by (rule of_nat_diff [symmetric])
    then show ?thesis
      using True assms unat_of_nat_u16 [of "j - i"] by (simp only: if_True)
  next
    case False
    have "(of_nat j - of_nat i :: u16) = of_nat (j + 65536 - i)"
      using assms by (subst of_nat_diff) simp_all
    then show ?thesis
      using False assms unat_of_nat_u16 [of "j + 65536 - i"] by (simp only: if_False)
  qed
  then show ?thesis
    using assms by (auto simp: seq_lt_iff)
qed

lemma of_nat_u16_inj:
  assumes "(of_nat i :: u16) = of_nat j" "i < j + 65536" "j < i + 65536"
  shows "i = j"
proof -
  have le: "i \<le> j \<Longrightarrow> i = j" if "(of_nat i :: u16) = of_nat j" "j < i + 65536" for i j
  proof -
    assume "i \<le> j"
    then have "(of_nat (j - i) :: u16) = 0"
      using that by (simp add: of_nat_diff)
    moreover have "j - i < 65536"
      using that(2) by linarith
    ultimately show "i = j"
      using unat_of_nat_u16 [of "j - i"] \<open>i \<le> j\<close> by (simp del: of_nat_diff)
  qed
  show ?thesis
    using le [of i j] le [of j i] assms by (metis nat_le_linear)
qed

text \<open>The guards of push_message and of update_from_heartbeat, in unbounded numbers.\<close>

lemma seq_gt_number:
  assumes "h \<le> n + 32769" "n + 1 < h + 32768"
  shows "seq_gt (of_nat n) (- 1 + of_nat h) \<longleftrightarrow> h \<le> n"
  using assms seq_lt_of_nat [of h "n + 1" "- 1"] by (auto simp: seq_gt_def)

lemma seq_le_number:
  assumes "h + 16 \<le> n + 32769" "n + 1 < h + 16 + 32768"
  shows "seq_le (of_nat n) (seq_add (- 1 + of_nat h) (SeqNum_of_int RELIABLE_STREAM_DEPTH)) \<longleftrightarrow> n < h + 16"
proof -
  have "seq_add (- 1 + of_nat h) (SeqNum_of_int RELIABLE_STREAM_DEPTH) = - 1 + of_nat (h + 16)"
    by (simp add: seq_add_eq SeqNum_of_int_def xrce_consts)
  then show ?thesis
    using assms seq_lt_of_nat [of "h + 16" "n + 1" "- 1"] by (auto simp: seq_le_def seq_gt_def)
qed

lemma push_simulates:
  assumes r: "receives f s (h, a, R)" and n: "near h n"
  shows "receives f (snd (ReliableInputStream_push_message (of_nat n) (f n) s)) (snd (spec_step (Arrive n) (h, a, R)))"
proof (cases "h \<le> n \<and> n < h + 16")
  case False
  then have "ReliableInputStream_push_message (of_nat n) (f n) s = (False, s)"
    using r n seq_gt_number [of h n] seq_le_number [of h n]
    by (auto simp: ReliableInputStream_push_message_def receives_def near_def)
  then show ?thesis using r False by auto
next
  case True
  have guard: "seq_gt (of_nat n) (ri_last_handled s) \<and>
      seq_le (of_nat n) (seq_add (ri_last_handled s) (SeqNum_of_int RELIABLE_STREAM_DEPTH))"
    using r True seq_gt_number [of h n] seq_le_number [of h n] by (simp add: receives_def)
  have announced: "seq_gt (of_nat n) (ri_last_announced s) \<longleftrightarrow> a \<le> n"
    using r True seq_gt_number [of a n] by (auto simp: receives_def)
  have find: "map_find (ri_messages s) (of_nat n) = None \<longleftrightarrow> n \<notin> R"
  proof
    assume "n \<notin> R"
    have "(of_nat n :: u16) \<noteq> of_nat k" if "k \<in> R" for k
      using r True that of_nat_u16_inj [of n k] \<open>n \<notin> R\<close> by (force simp: receives_def)
    then show "map_find (ri_messages s) (of_nat n) = None"
      using r by (force simp: receives_def)
  qed (use r in \<open>auto simp: receives_def\<close>)
  have fresh: "(of_nat n :: u16) \<noteq> of_nat k" if "n \<notin> R" "k \<in> R" for k
    using r True that of_nat_u16_inj [of n k] by (force simp: receives_def)
  show ?thesis
  proof (cases "n \<in> R")
    case in_R: True
    then have "\<not> a \<le> n" using r by (auto simp: receives_def)
    then show ?thesis
      using guard announced find in_R r True
      by (auto simp: ReliableInputStream_push_message_def split: option.split)
  next
    case False
    have "\<not> a \<le> n \<Longrightarrow> max a (n + 1) = a" "a \<le> n \<Longrightarrow> max a (n + 1) = n + 1" by auto
    then show ?thesis
      using guard announced find False r True fresh
      by (auto simp: ReliableInputStream_push_message_def receives_def)
  qed
qed

lemma pop_simulates:
  assumes r: "receives f s (h, a, R)"
  shows "receives f (snd (ReliableInputStream_pop_message s)) (snd (spec_step Deliver (h, a, R)))"
    and "fst (ReliableInputStream_pop_message s) = map_option f (fst (spec_step Deliver (h, a, R)))"
proof -
  have nxt: "seq_add_int (ri_last_handled s) 1 = of_nat h"
    using r by (simp add: receives_def)
  have other: "(of_nat h :: u16) \<noteq> of_nat k" if "k \<in> R" "k \<noteq> h" for k
    using r that of_nat_u16_inj [of h k] by (force simp: receives_def)
  have find: "map_find (ri_messages s) (of_nat h) = (if h \<in> R then Some (f h) else None)"
    using r other by (force simp: receives_def)
  show "fst (ReliableInputStream_pop_message s) = map_option f (fst (spec_step Deliver (h, a, R)))"
    using find nxt by (simp add: ReliableInputStream_pop_message_def Let_def)
  show "receives f (snd (ReliableInputStream_pop_message s)) (snd (spec_step Deliver (h, a, R)))"
  proof (cases "h \<in> R")
    case True
    have "R - {h} \<subseteq> {h + 1..<h + 1 + 16}" "h + 1 \<le> a"
      using r True by (auto simp: receives_def)
    then show ?thesis
      using find nxt r other not_sym [OF other] True
      by (auto simp: ReliableInputStream_pop_message_def receives_def Let_def)
  qed (use find nxt r in \<open>simp add: ReliableInputStream_pop_message_def\<close>)
qed

lemma heartbeat_simulates:
  assumes r: "receives f s (h, a, R)" and t: "timely_event (Heartbeat lo hi) (h, a, R)"
  shows "receives f (ReliableInputStream_update_from_heartbeat (of_nat lo) (of_nat hi) s)
    (snd (spec_step (Heartbeat lo hi) (h, a, R)))"
proof -
  have 1: "\<not> seq_lt (seq_add_int (ri_last_handled s) 1) (of_nat lo)"
    using r t seq_lt_of_nat [of h lo 0] by (auto simp: receives_def near_def)
  have 2: "seq_lt (ri_last_announced s) (of_nat hi) \<longleftrightarrow> a \<le> hi"
    using r t seq_gt_number [of a hi] by (auto simp: receives_def near_def seq_gt_def)
  have "a \<le> hi \<Longrightarrow> max a (hi + 1) = hi + 1" "\<not> a \<le> hi \<Longrightarrow> max a (hi + 1) = a" by auto
  then show ?thesis
    using r t 1 2 by (auto simp: ReliableInputStream_update_from_heartbeat_def receives_def near_def Let_def)
qed

lemma step_simulates:
  assumes "receives f s st" "timely_event e st"
  shows "receives f (snd (stream_step f e s)) (snd (spec_step e st))"
    and "fst (stream_step f e s) = map_option f (fst (spec_step e st))"
proof -
  obtain h a R where st: "st = (h, a, R)" by (cases st) auto
  show "receives f (snd (stream_step f e s)) (snd (spec_step e st))"
  proof (cases e)
    case (Arrive n)
    then show ?thesis using push_simulates [of f s h a R n] assms by (simp add: st)
  next
    case Deliver
    then show ?thesis using pop_simulates(1) [of f s h a R] assms by (simp add: st)
  next
    case (Heartbeat lo hi)
    then show ?thesis using heartbeat_simulates [of f s h a R lo hi] assms by (simp add: st)
  qed
  show "fst (stream_step f e s) = map_option f (fst (spec_step e st))"
    using assms(1) pop_simulates(2) [of f s h a R] by (cases e) (simp_all add: st)
qed

lemma run_simulates:
  assumes "receives f s st" "timely es st"
  shows "receives f (snd (stream_run f es s)) (snd (spec_run es st)) \<and>
    fst (stream_run f es s) = map f (fst (spec_run es st))"
  using assms
proof (induction es arbitrary: s st)
  case (Cons e es)
  obtain x s1 where step: "stream_step f e s = (x, s1)" by (metis surj_pair)
  obtain y st1 where spec: "spec_step e st = (y, st1)" by (metis surj_pair)
  have "receives f s1 st1" "x = map_option f y" "timely es st1"
    using step_simulates [of f s st e] Cons.prems step spec by simp_all
  then show ?case
    using Cons.IH [of s1 st1] step spec by (auto simp: case_prod_beta split: option.split)
qed simp

lemma spec_step_number:
  "spec_step e st = (x, st') \<Longrightarrow>
   x = None \<and> fst st' = fst st \<or> x = Some (fst st) \<and> fst st' = Suc (fst st)"
  by (cases st; cases e) (auto split: if_splits)

lemma spec_in_order:
  "fst (spec_run es st) = [fst st..<fst (snd (spec_run es st))] \<and> fst st \<le> fst (snd (spec_run es st))"
proof (induction es arbitrary: st)
  case (Cons e es)
  obtain x st' where step: "spec_step e st = (x, st')" by (metis surj_pair)
  show ?case
    using spec_step_number [OF step] Cons.IH [of st'] step upt_rec [of "fst st"]
    by (auto split: prod.splits)
qed simp

lemma receives_initially: "receives f new_ReliableInputStream (0, 0, {})"
  by (simp add: receives_def new_ReliableInputStream_def)

lemma receives_bound:
  assumes "receives f s (h, a, R)"
  shows "length (ri_messages s) \<le> 16"
proof -
  have ok: "distinct (map fst (ri_messages s))" and R: "R \<subseteq> {h..<h + 16}"
    using assms by (auto simp: receives_def map_ok_def)
  have "fst ` set (ri_messages s) \<subseteq> of_nat ` R"
    using assms by (force simp: receives_def map_find_in_set)
  then have "card (fst ` set (ri_messages s)) \<le> card R"
    using R finite_subset [OF R] by (meson card_image_le card_mono finite_atLeastLessThan finite_imageI order_trans)
  also have "\<dots> \<le> 16"
    using card_mono [OF _ R] by simp
  finally show ?thesis
    using ok by (metis distinct_card length_map set_map)
qed

section \<open>The bitmap of an acknack\<close>

definition missing :: "'m ReliableInputStream \<Rightarrow> nat \<Rightarrow> bool" where
  "missing s k \<longleftrightarrow> seq_lt (seq_add (ri_last_handled s) (SeqNum_of_int (int k))) (ri_last_announced s) \<and>
     map_find (ri_messages s) (seq_add (ri_last_handled s) (SeqNum_of_int (int k + 1))) = None"

lemma acknack_round_missing:
  "acknack_round s i (b0, b1) =
     (if missing s (i + 8) then b0 OR push_bit i 1 else b0, if missing s i then b1 OR push_bit i 1 else b1)"
  by (simp add: acknack_round_def missing_def)

lemma acknack_rounds:
  "j \<le> 8 \<Longrightarrow> fold (acknack_round s) [0..<j] (0, 0) = (b0, b1) \<Longrightarrow>
   (\<forall>i<8. bit b1 i \<longleftrightarrow> i < j \<and> missing s i) \<and> (\<forall>i<8. bit b0 i \<longleftrightarrow> i < j \<and> missing s (i + 8))"
proof (induction j arbitrary: b0 b1)
  case (Suc j)
  obtain c0 c1 where c: "fold (acknack_round s) [0..<j] (0, 0) = (c0, c1)" by fastforce
  show ?case
    using Suc.IH [OF _ c] Suc.prems c
    by (auto simp: acknack_round_missing bit_or_iff bit_exp_iff less_Suc_eq split: if_splits)
qed simp

lemma acknack_bits:
  "i < 16 \<Longrightarrow> acknack_bit (ReliableInputStream_fill_acknack s an) i \<longleftrightarrow> missing s i"
proof -
  assume i: "i < 16"
  obtain b0 b1 where "fold (acknack_round s) [0..<8] (0, 0) = (b0, b1)" by fastforce
  with acknack_rounds [OF _ this] i show ?thesis
    by (auto simp: acknack_bit_def ReliableInputStream_fill_acknack_def)
qed

lemma missing_number:
  assumes "receives f s (h, a, R)" "i < 16"
  shows "missing s i \<longleftrightarrow> h + i < a \<and> h + i \<notin> R"
proof -
  have "SeqNum_of_int (int k) = of_nat k" for k by (simp add: SeqNum_of_int_def)
  then have add: "seq_add (ri_last_handled s) (SeqNum_of_int (int k)) = - 1 + of_nat (h + k)" if "k < 32768" for k
    using assms that by (simp add: seq_add_eq unat_of_nat_u16 receives_def)
  have lt: "seq_lt (- 1 + of_nat (h + i)) (ri_last_announced s) \<longleftrightarrow> h + i < a"
    using assms seq_lt_of_nat [of "h + i" a "- 1"] by (auto simp: receives_def)
  have "int i + 1 = int (i + 1)" by simp
  have "map_find (ri_messages s) (of_nat (h + i)) = None \<longleftrightarrow> h + i \<notin> R"
  proof
    assume "h + i \<notin> R"
    then have "(of_nat (h + i) :: u16) \<noteq> of_nat k" if "k \<in> R" for k
      using assms that of_nat_u16_inj [of "h + i" k] by (force simp: receives_def)
    then show "map_find (ri_messages s) (of_nat (h + i)) = None"
      using assms by (force simp: receives_def)
  qed (use assms in \<open>auto simp: receives_def\<close>)
  then show ?thesis
    using add [of i] add [of "i + 1"] lt assms(2) unfolding missing_def \<open>int i + 1 = int (i + 1)\<close> by simp
qed

text \<open>C4: the reliable input stream refines a receiver with unbounded numbers, for any order of
  arrivals, repetitions, heartbeats and deliveries that the 16-bit numbers can tell apart.
  It hands over exactly the messages 0, 1, 2, ... of the sender, in order, without a gap or a
  repetition, as the abstract receiver does; it holds at most 16 messages; and its acknack
  asks for the next number and marks, of the 16 numbers from there on, exactly those that
  were announced and have not arrived.\<close>

theorem reliable_in_order:
  assumes "timely es (0, 0, {})" "stream_run f es new_ReliableInputStream = (out, s)"
  shows "\<exists>h a R. spec_run es (0, 0, {}) = ([0..<h], h, a, R) \<and> out = map f [0..<h] \<and>
    length (ri_messages s) \<le> 16 \<and>
    an_first_unacked_seq_num (ReliableInputStream_fill_acknack s an) = of_nat h \<and>
    (\<forall>i<16. acknack_bit (ReliableInputStream_fill_acknack s an) i \<longleftrightarrow> h + i < a \<and> h + i \<notin> R)"
proof -
  obtain h a R where st: "snd (spec_run es (0, 0, {})) = (h, a, R)" by (metis prod_cases3)
  have r: "receives f s (h, a, R)" and out: "out = map f (fst (spec_run es (0, 0, {})))"
    using run_simulates [OF receives_initially assms(1), of f] assms(2) st by auto
  have nums: "fst (spec_run es (0, 0, {})) = [0..<h]"
    using spec_in_order [of es "(0, 0, {})"] st by simp
  have "spec_run es (0, 0, {}) = ([0..<h], h, a, R)"
    using nums st by (metis prod.collapse)
  moreover have "an_first_unacked_seq_num (ReliableInputStream_fill_acknack s an) = of_nat h"
    using r by (simp add: ReliableInputStream_fill_acknack_def receives_def)
  ultimately show ?thesis
    using out nums receives_bound [OF r] acknack_bits missing_number [OF r] by metis
qed

lemma reliable_in_order_witness:
  "\<exists>s. stream_run (\<lambda>n. n * n) [Arrive 2, Arrive 1, Deliver, Arrive 0, Arrive 1, Heartbeat 0 4, Deliver, Deliver, Deliver]
      new_ReliableInputStream = ([0, 1, 4], s) \<and>
    (\<forall>i<16. acknack_bit (ReliableInputStream_fill_acknack s
       \<lparr>an_first_unacked_seq_num = 0, an_nack_bitmap = (0, 0), an_stream_id = 0\<rparr>) i \<longleftrightarrow> i < 2)"
proof -
  let ?an = "\<lparr>an_first_unacked_seq_num = 0, an_nack_bitmap = (0, 0), an_stream_id = 0\<rparr>"
  let ?es = "[Arrive 2, Arrive 1, Deliver, Arrive 0, Arrive 1, Heartbeat 0 4, Deliver, Deliver, Deliver]"
  obtain out s where run: "stream_run (\<lambda>n. n * n) ?es new_ReliableInputStream = (out, s)" by (metis surj_pair)
  have spec: "spec_run ?es (0, 0, {}) = ([0, 1, 2], 3, 5, {})" and t: "timely ?es (0, 0, {})"
    by (simp_all add: near_def insert_commute)
  from reliable_in_order [OF t run, of ?an] obtain h a R where *:
    "spec_run ?es (0, 0, {}) = ([0..<h], h, a, R)" "out = map (\<lambda>n. n * n) [0..<h]"
    "\<forall>i<16. acknack_bit (ReliableInputStream_fill_acknack s ?an) i \<longleftrightarrow> h + i < a \<and> h + i \<notin> R"
    by blast
  then have "h = 3" "a = 5" "R = {}" using spec by auto
  then show ?thesis using * run by (auto simp: upt_rec numeral_eq_Suc)
qed

text \<open>A reset of the reliable input stream forgets the window and the stored messages but
  keeps the bytes of a message that was being put together: after the reset the payload of
  the first fragment is appended to them, without a header of its own, and the message handed
  over with the last fragment begins with the bytes of the old session.\<close>

theorem reset_keeps_fragments:
  assumes "ri_fragment_msg s = old" "old \<noteq> []"
    and "ReliableInputStream_push_fragment L message (ReliableInputStream_reset s) = Inr (message', s')"
  shows "\<exists>payload. ri_fragment_msg s' = old @ payload \<and>
    (ri_fragment_message_available s' \<longrightarrow>
      (\<exists>m t. ReliableInputStream_pop_fragment_message L s' = Inr (Some m, t) \<and> im_buf m = old @ payload))"
proof -
  from assms obtain payload where p: "ri_fragment_msg s' = old @ payload"
    by (auto simp: ReliableInputStream_push_fragment_def ReliableInputStream_reset_def Let_def split: prod.splits)
  obtain m where "new_InputMessage L (old @ payload) = Inr m"
    using new_InputMessage_returns by blast
  with p show ?thesis
    using new_InputMessage_fields(1) by (auto simp: ReliableInputStream_pop_fragment_message_def)
qed

lemma reset_keeps_fragments_witness:
  "\<exists>s' m t. ReliableInputStream_push_fragment sim_cdr
      \<lparr>im_buf = [0x81, 1, 0, 0, 13, 3, 2, 0, 7, 8], im_header = new_MessageHeader sim_cdr,
       im_subheader = \<lparr>sh_submessage_id = 13, sh_flags = 3, sh_submessage_length = 2\<rparr>,
       im_deserializer = ([0x81, 1, 0, 0, 13, 3, 2, 0, 7, 8], 8, 1), im_valid_xrce_message = True\<rparr>
      (ReliableInputStream_reset ((new_ReliableInputStream :: nat ReliableInputStream)\<lparr>ri_fragment_msg := [1, 2, 3]\<rparr>)) = Inr s' \<and>
    ReliableInputStream_pop_fragment_message sim_cdr (snd s') = Inr (Some m, t) \<and>
    im_buf m = [1, 2, 3, 7, 8]"
proof -
  let ?s = "(new_ReliableInputStream :: nat ReliableInputStream)\<lparr>ri_fragment_msg := [1, 2, 3]\<rparr>"
  let ?m = "\<lparr>im_buf = [0x81, 1, 0, 0, 13, 3, 2, 0, 7, 8], im_header = new_MessageHeader sim_cdr,
       im_subheader = \<lparr>sh_submessage_id = 13, sh_flags = 3, sh_submessage_length = 2\<rparr>,
       im_deserializer = ([0x81, 1, 0, 0, 13, 3, 2, 0, 7, 8], 8, 1), im_valid_xrce_message = True\<rparr>"
  have "\<exists>m' s'. ReliableInputStream_push_fragment sim_cdr ?m (ReliableInputStream_reset ?s) = Inr (m', s') \<and>
      ri_fragment_message_available s' \<and> ri_fragment_msg s' = [1, 2, 3, 7, 8]"
    by (simp add: ReliableInputStream_push_fragment_def ReliableInputStream_reset_def get_raw_payload_def
        sim_cdr_def sim_read_array_def FLAG_LAST_FRAGMENT_def Let_def take_Cons' drop_Cons')
  then obtain m' s' where p: "ReliableInputStream_push_fragment sim_cdr ?m (ReliableInputStream_reset ?s) = Inr (m', s')"
    "ri_fragment_message_available s'" "ri_fragment_msg s' = [1, 2, 3, 7, 8]" by blast
  show ?thesis
    using reset_keeps_fragments [OF _ _ p(1), of "[1, 2, 3]"] p by auto
qed

end
