(* ===== verification/OutputStream.thy ===== *)
theory OutputStream
  imports InputStream
begin

text \<open>
  client/session/stream/OutputStream.hpp: the three kinds of output streams of a session.

  A reliable push waits on a condition variable until the window has room or the timeout
  passes.  The wait releases the stream's mutex, so the other methods run in between; the
  model takes the state at the end of the wait as its argument, and a wait that timed out is
  a push on a state whose window is full.  The loops are the ones of the source: fragment_loop
  may run for ever (None) and update_from_acknack terminates.
\<close>

section \<open>None output stream\<close>

record 'c NoneOutputStream =
  no_messages :: "'c OutputMessage list"

definition new_NoneOutputStream :: "'c NoneOutputStream" where
  "new_NoneOutputStream = \<lparr>no_messages = []\<rparr>"

definition NoneOutputStream_reset :: "'c NoneOutputStream \<Rightarrow> 'c NoneOutputStream" where
  "NoneOutputStream_reset s = s\<lparr>no_messages := []\<rparr>"

definition NoneOutputStream_push_submessage :: "'c cdr_lib \<Rightarrow> SessionInfo \<Rightarrow> SubmessageId \<Rightarrow> 'c payload \<Rightarrow>
    'c NoneOutputStream \<Rightarrow> bool \<times> 'c NoneOutputStream" where
  "NoneOutputStream_push_submessage L session_info submessage_id submessage s =
     (if BEST_EFFORT_STREAM_DEPTH > length (no_messages s) then
        let message_header = (new_MessageHeader L)\<lparr>mh_session_id := si_session_id session_info,
              mh_stream_id := STREAMID_NONE, mh_sequence_nr := 0x00, mh_client_key := si_client_key session_info\<rparr>;
            (ok, output_message) = append_submessage L submessage_id submessage 0x01
              (new_OutputMessage L message_header (si_mtu session_info))
        in if ok then (True, s\<lparr>no_messages := no_messages s @ [output_message]\<rparr>) else (False, s)
      else (False, s))"

definition NoneOutputStream_pop_message :: "'c NoneOutputStream \<Rightarrow> 'c OutputMessage option \<times> 'c NoneOutputStream" where
  "NoneOutputStream_pop_message s =
     (case no_messages s of [] \<Rightarrow> (None, s) | m # ms \<Rightarrow> (Some m, s\<lparr>no_messages := ms\<rparr>))"

section \<open>Best-effort output stream\<close>

record 'c BestEffortOutputStream =
  bo_messages :: "'c OutputMessage list"
  bo_last_sent :: SeqNum

definition new_BestEffortOutputStream :: "'c BestEffortOutputStream" where
  "new_BestEffortOutputStream = \<lparr>bo_messages = [], bo_last_sent = 0xFFFF\<rparr>"

definition BestEffortOutputStream_reset :: "'c BestEffortOutputStream \<Rightarrow> 'c BestEffortOutputStream" where
  "BestEffortOutputStream_reset s = s\<lparr>bo_messages := [], bo_last_sent := 0xFFFF\<rparr>"

definition BestEffortOutputStream_push_submessage :: "'c cdr_lib \<Rightarrow> SessionInfo \<Rightarrow> StreamId \<Rightarrow> SubmessageId \<Rightarrow>
    'c payload \<Rightarrow> 'c BestEffortOutputStream \<Rightarrow> bool \<times> 'c BestEffortOutputStream" where
  "BestEffortOutputStream_push_submessage L session_info stream_id submessage_id submessage s =
     (if BEST_EFFORT_STREAM_DEPTH > length (bo_messages s) then
        let message_header = (new_MessageHeader L)\<lparr>mh_session_id := si_session_id session_info,
              mh_stream_id := stream_id, mh_sequence_nr := seq_add_int (bo_last_sent s) 1,
              mh_client_key := si_client_key session_info\<rparr>;
            output_message = new_OutputMessage L message_header (si_mtu session_info)
        in if si_mtu session_info < getCdrSerializedSize submessage then (True, s)
           else let (ok, output_message) = append_submessage L submessage_id submessage 0x01 output_message
             in if ok then (True, s\<lparr>bo_messages := bo_messages s @ [output_message],
                    bo_last_sent := seq_add_int (bo_last_sent s) 1\<rparr>)
                else (False, s)
      else (False, s))"

definition BestEffortOutputStream_pop_message ::
    "'c BestEffortOutputStream \<Rightarrow> 'c OutputMessage option \<times> 'c BestEffortOutputStream" where
  "BestEffortOutputStream_pop_message s =
     (case bo_messages s of [] \<Rightarrow> (None, s) | m # ms \<Rightarrow> (Some m, s\<lparr>bo_messages := ms\<rparr>))"

section \<open>Reliable output stream\<close>

record 'c ReliableOutputStream =
  ro_messages :: "(u16 \<times> 'c OutputMessage) list"
  ro_last_unacked :: SeqNum
  ro_last_sent :: SeqNum
  ro_first_unacked :: SeqNum

definition new_ReliableOutputStream :: "'c ReliableOutputStream" where
  "new_ReliableOutputStream =
     \<lparr>ro_messages = [], ro_last_unacked = 0xFFFF, ro_last_sent = 0xFFFF, ro_first_unacked = 0x0000\<rparr>"

definition ReliableOutputStream_reset :: "'c ReliableOutputStream \<Rightarrow> 'c ReliableOutputStream" where
  "ReliableOutputStream_reset s =
     s\<lparr>ro_last_unacked := 0xFFFF, ro_last_sent := 0xFFFF, ro_first_unacked := 0x0000, ro_messages := []\<rparr>"

text \<open>The predicate that push_submessage waits for.\<close>

definition window_open :: "'c ReliableOutputStream \<Rightarrow> bool" where
  "window_open s = seq_lt (ro_last_unacked s) (seq_add (ro_first_unacked s) (SeqNum_of_int (RELIABLE_STREAM_DEPTH - 1)))"

text \<open>
  One round of the fragmentation loop: the bytes buf of the whole submessage from position
  serialized_size on; the result is whether the fragment was appended, with the new
  serialized_size, subheader and stream.  Reading past the end of buf is a fault.
\<close>

definition fragment_round :: "'c cdr_lib \<Rightarrow> nat \<Rightarrow> MessageHeader \<Rightarrow> u8 \<Rightarrow> nat \<Rightarrow> nat \<Rightarrow> nat \<Rightarrow> nat \<Rightarrow> bytes \<Rightarrow>
    u16 \<times> SubmessageHeader \<times> 'c ReliableOutputStream \<Rightarrow>
    (bool \<times> u16 \<times> SubmessageHeader \<times> 'c ReliableOutputStream) res" where
  "fragment_round L mtu message_header submessage_flags header_size subheader_size submessage_size max_fragment_size buf st =
     (case st of (serialized_size, fragment_subheader, s) \<Rightarrow>
      let (fragment_size, fragment_subheader) =
            (if mtu < header_size + subheader_size + (submessage_size - unat serialized_size)
             then (of_nat max_fragment_size :: u16, fragment_subheader)
             else (of_nat (submessage_size - unat serialized_size),
                   fragment_subheader\<lparr>sh_flags := submessage_flags OR FLAG_LAST_FRAGMENT\<rparr>));
          fragment_subheader = fragment_subheader\<lparr>sh_submessage_length := fragment_size\<rparr>;
          current_message_size = header_size + subheader_size + unat fragment_size;
          seq = seq_add_int (ro_last_unacked s) 1;
          s = s\<lparr>ro_last_unacked := seq\<rparr>
      in if submessage_size < unat serialized_size + unat fragment_size then Inl Out_Of_Bounds
         else let (ok, output_message) = append_fragment L fragment_subheader
                 (take (unat fragment_size) (drop (unat serialized_size) buf))
                 (new_OutputMessage L (message_header\<lparr>mh_sequence_nr := seq\<rparr>) current_message_size)
           in if ok then Inr (True, serialized_size + fragment_size, fragment_subheader,
                  s\<lparr>ro_messages := map_emplace seq output_message (ro_messages s)\<rparr>)
              else Inr (False, serialized_size, fragment_subheader, s))"

partial_function (option) fragment_loop ::
  "(u16 \<times> SubmessageHeader \<times> 'c ReliableOutputStream \<Rightarrow>
      (bool \<times> u16 \<times> SubmessageHeader \<times> 'c ReliableOutputStream) res) \<Rightarrow> nat \<Rightarrow>
    u16 \<times> SubmessageHeader \<times> 'c ReliableOutputStream \<Rightarrow> (u16 \<times> 'c ReliableOutputStream) res option" where
  "fragment_loop body submessage_size st =
     (case body st of
        Inl e \<Rightarrow> Some (Inl e)
      | Inr (ok, serialized_size, fragment_subheader, s) \<Rightarrow>
          if ok \<and> unat serialized_size < submessage_size
          then fragment_loop body submessage_size (serialized_size, fragment_subheader, s)
          else Some (Inr (serialized_size, s)))"

text \<open>The branch of push_submessage that fragments: size_t arithmetic wraps at 2^64.\<close>

definition push_fragments :: "'c cdr_lib \<Rightarrow> nat \<Rightarrow> MessageHeader \<Rightarrow> SubmessageHeader \<Rightarrow> nat \<Rightarrow> nat \<Rightarrow> nat \<Rightarrow>
    'c payload \<Rightarrow> 'c ReliableOutputStream \<Rightarrow> (bool \<times> 'c ReliableOutputStream) res" where
  "push_fragments L mtu message_header submessage_header header_size subheader_size submessage_size submessage s =
     (let serializer = new_cdr L (uninitialised L submessage_size);
          (ok1, serializer) = SubmessageHeader_serialize L submessage_header serializer;
          (ok2, serializer) = serialize submessage serializer;
          buf = cdr_bytes L serializer;
          max_fragment_size = unat (of_nat mtu - of_nat header_size - of_nat subheader_size :: u64);
          fragment_subheader = (new_SubmessageHeader L)\<lparr>sh_submessage_id := FRAGMENT,
            sh_flags := FLAG_LITTLE_ENDIANNESS, sh_submessage_length := of_nat max_fragment_size\<rparr>
      in if \<not> ok1 \<or> \<not> ok2 then Inl Uncaught_Exception
         else bind_res (case fragment_loop (fragment_round L mtu message_header (sh_flags submessage_header)
                  header_size subheader_size submessage_size max_fragment_size buf) submessage_size (0, fragment_subheader, s)
               of None \<Rightarrow> Inl Hang | Some r \<Rightarrow> r)
           (\<lambda>(serialized_size, s). Inr (unat serialized_size = submessage_size, s)))"

definition ReliableOutputStream_push_submessage :: "'c cdr_lib \<Rightarrow> SessionInfo \<Rightarrow> StreamId \<Rightarrow> SubmessageId \<Rightarrow>
    'c payload \<Rightarrow> 'c ReliableOutputStream \<Rightarrow> (bool \<times> 'c ReliableOutputStream) res" where
  "ReliableOutputStream_push_submessage L session_info stream_id submessage_id submessage s =
     (if window_open s then
        let message_header = (new_MessageHeader L)\<lparr>mh_session_id := si_session_id session_info,
              mh_stream_id := stream_id, mh_client_key := si_client_key session_info\<rparr>;
            submessage_header = (new_SubmessageHeader L)\<lparr>sh_submessage_id := submessage_id,
              sh_flags := FLAG_LITTLE_ENDIANNESS,
              sh_submessage_length := of_nat (getCdrSerializedSize submessage)\<rparr>;
            header_size = MessageHeader_getCdrSerializedSize L message_header;
            subheader_size = SubmessageHeader_getCdrSerializedSize L submessage_header;
            submessage_size = subheader_size + getCdrSerializedSize submessage
        in if header_size + submessage_size \<le> si_mtu session_info then
             let seq = seq_add_int (ro_last_unacked s) 1;
                 s = s\<lparr>ro_last_unacked := seq\<rparr>;
                 (ok, output_message) = append_submessage L submessage_id submessage 0x01
                   (new_OutputMessage L (message_header\<lparr>mh_sequence_nr := seq\<rparr>) (header_size + submessage_size))
             in Inr (if ok then (True, s\<lparr>ro_messages := map_emplace seq output_message (ro_messages s)\<rparr>)
                     else (False, s))
           else push_fragments L (si_mtu session_info) message_header submessage_header
                  header_size subheader_size submessage_size submessage s
      else Inr (False, s))"

text \<open>messages_.at throws when the number is not in the map.\<close>

definition ReliableOutputStream_get_next_message ::
    "'c ReliableOutputStream \<Rightarrow> ('c OutputMessage option \<times> 'c ReliableOutputStream) res" where
  "ReliableOutputStream_get_next_message s =
     (if seq_lt (ro_last_sent s) (ro_last_unacked s) then
        let s = s\<lparr>ro_last_sent := seq_add_int (ro_last_sent s) 1\<rparr>
        in bind_res (of_opt Uncaught_Exception (map_find (ro_messages s) (ro_last_sent s)))
             (\<lambda>m. Inr (Some m, s))
      else Inr (None, s))"

definition ReliableOutputStream_get_message :: "SeqNum \<Rightarrow> 'c ReliableOutputStream \<Rightarrow> 'c OutputMessage option" where
  "ReliableOutputStream_get_message seq_num s = map_find (ro_messages s) seq_num"

function acknack_loop :: "SeqNum \<Rightarrow> SeqNum \<times> (u16 \<times> 'm) list \<Rightarrow> SeqNum \<times> (u16 \<times> 'm) list" where
  "acknack_loop first_unacked (fu, ms) =
     (if seq_gt first_unacked fu then acknack_loop first_unacked (seq_add_int fu 1, map_erase fu ms) else (fu, ms))"
  by pat_completeness auto

termination
proof (relation "measure (\<lambda>(first_unacked, fu, ms). unat (first_unacked - fu))", goal_cases)
  case (2 a fu ms)
  then have "0 < unat (a - fu)" by (simp add: seq_gt_iff)
  then have "unat (a - fu - 1) < unat (a - fu)"
    by (simp add: unat_minus_one unat_gt_0)
  then show "((a, seq_add_int fu 1, map_erase fu ms), (a, fu, ms))
      \<in> measure (\<lambda>(first_unacked, fu, ms). unat (first_unacked - fu))"
    by (simp add: diff_diff_eq)
qed simp

declare acknack_loop.simps [simp del]

definition ReliableOutputStream_update_from_acknack :: "SeqNum \<Rightarrow> 'c ReliableOutputStream \<Rightarrow> 'c ReliableOutputStream" where
  "ReliableOutputStream_update_from_acknack first_unacked s =
     (if seq_le first_unacked (seq_add_int (ro_last_sent s) 1) then
        let (fu, ms) = acknack_loop first_unacked (ro_first_unacked s, ro_messages s)
        in s\<lparr>ro_first_unacked := fu, ro_messages := ms\<rparr>
      else s)"

definition ReliableOutputStream_fill_heartbeat ::
    "'c ReliableOutputStream \<Rightarrow> HEARTBEAT_Payload \<Rightarrow> bool \<times> HEARTBEAT_Payload" where
  "ReliableOutputStream_fill_heartbeat s heartbeat =
     (ro_messages s \<noteq> [], heartbeat\<lparr>hb_first_unacked_seq_nr := ro_first_unacked s,
        hb_last_unacked_seq_nr := ro_last_unacked s\<rparr>)"

section \<open>The bounded queues\<close>

interpretation none_out: bounded_queue no_messages
    "\<lambda>(L, info, i, data). NoneOutputStream_push_submessage L info i data" NoneOutputStream_pop_message
    BEST_EFFORT_STREAM_DEPTH
  by unfold_locales
    (auto simp: NoneOutputStream_push_submessage_def NoneOutputStream_pop_message_def Let_def split: prod.splits)

interpretation best_effort_out: bounded_queue bo_messages
    "\<lambda>(L, info, stream, i, data). BestEffortOutputStream_push_submessage L info stream i data"
    BestEffortOutputStream_pop_message BEST_EFFORT_STREAM_DEPTH
  by unfold_locales
    (auto simp: BestEffortOutputStream_push_submessage_def BestEffortOutputStream_pop_message_def Let_def
      split: prod.splits)

section \<open>A message with one submessage\<close>

text \<open>The payload has the bytes xs, as many as it announces.\<close>

definition payload_bytes :: "'c cdr_lib \<Rightarrow> 'c payload \<Rightarrow> bytes \<Rightarrow> bool" where
  "payload_bytes L data xs \<longleftrightarrow> getCdrSerializedSize data = length xs \<and>
     (\<forall>c. 4 dvd cdr_length L c \<longrightarrow> writes L (serialize data) xs c)"

lemma submessage_sent:
  assumes laws: "cdr_laws L hdr sub" and data: "payload_bytes L data xs"
    and fl: "flags AND 0x01 = 1" and len: "len = length (hdr h) + 4 + length xs"
  shows "\<exists>m. append_submessage L i data flags (new_OutputMessage L h len) = (True, m) \<and>
    om_get_buf L m = hdr h @ sub ((new_SubmessageHeader L)\<lparr>sh_submessage_id := i, sh_flags := flags,
      sh_submessage_length := of_nat (length xs)\<rparr>) @ xs"
proof -
  let ?c = "new_cdr L (replicate len 0)"
  let ?s = "(new_SubmessageHeader L)\<lparr>sh_submessage_id := i, sh_flags := flags,
      sh_submessage_length := of_nat (length xs)\<rparr>"
  have s: "little ?s" using fl by (simp add: little_def)
  obtain c1 where c1: "om_serialize (MessageHeader_serialize L h) \<lparr>om_len = len, om_serializer = ?c\<rparr> =
      (True, \<lparr>om_len = len, om_serializer = c1\<rparr>)"
    "cdr_bytes L c1 = hdr h @ replicate (4 + length xs) 0" "cdr_length L c1 = length (hdr h)"
    using om_serialize_writes [OF cdr_hdr_writes [OF laws, of ?c h], where pre = "[]" and n = "4 + length xs" and k = len]
      cdr_new [OF laws] len by (auto simp: add.assoc)
  have four: "4 dvd length (hdr h)"
    using cdr_hdr_length [OF laws, of h] by auto
  define c2 where "c2 = skip_padding L c1"
  have c2: "cdr_bytes L c2 = hdr h @ replicate (length (sub ?s) + length xs) 0" "cdr_length L c2 = length (hdr h)"
    using skip_padding_0 [OF laws, of c1] c1 four cdr_sub_length [OF laws, of ?s] by (simp_all add: c2_def moved_def)
  obtain c3 where c3: "om_serialize (SubmessageHeader_serialize L ?s) \<lparr>om_len = len, om_serializer = c2\<rparr> =
      (True, \<lparr>om_len = len, om_serializer = c3\<rparr>)"
    "cdr_bytes L c3 = (hdr h @ sub ?s) @ replicate (length xs + 0) 0" "cdr_length L c3 = length (hdr h @ sub ?s)"
    using om_serialize_writes [OF cdr_sub_writes [OF laws s, of c2], where pre = "hdr h" and n = "length xs" and k = len]
      c2 four by auto
  have "4 dvd cdr_length L c3"
    using c3(3) four cdr_sub_length [OF laws, of ?s] by simp
  then have "writes L (serialize data) xs c3"
    using data by (simp add: payload_bytes_def)
  from om_serialize_writes [OF this, where pre = "hdr h @ sub ?s" and n = 0 and k = len]
  obtain c4 where c4: "om_serialize (serialize data) \<lparr>om_len = len, om_serializer = c3\<rparr> =
      (True, \<lparr>om_len = len, om_serializer = c4\<rparr>)" "cdr_bytes L c4 = (hdr h @ sub ?s) @ xs"
    using c3(2,3) by auto
  show ?thesis
    using c1(1) c3(1) c4 data
    by (auto simp: append_submessage_def append_subheader_def new_OutputMessage_def om_get_buf_def payload_bytes_def
        simp flip: c2_def)
qed

section \<open>The reliable stream against a sender with unbounded numbers\<close>

text \<open>
  All messages ever pushed are numbered from 0; b is the first that is not acknowledged, t
  the next to send.
\<close>

definition sends :: "'c OutputMessage list \<Rightarrow> 'c ReliableOutputStream \<Rightarrow> nat \<Rightarrow> nat \<Rightarrow> bool" where
  "sends msgs s b t \<longleftrightarrow>
     ro_first_unacked s = of_nat b \<and> ro_last_sent s = - 1 + of_nat t \<and>
     ro_last_unacked s = - 1 + of_nat (length msgs) \<and>
     b \<le> t \<and> t \<le> length msgs \<and> length msgs \<le> b + 2 ^ 14 \<and> map_ok (ro_messages s) \<and>
     (\<forall>n. b \<le> n \<and> n < length msgs \<longrightarrow> map_find (ro_messages s) (of_nat n) = Some (msgs ! n)) \<and>
     (\<forall>w. map_find (ro_messages s) w \<noteq> None \<longrightarrow> w \<in> of_nat ` {b..<length msgs})"

lemma sends_initially: "sends [] new_ReliableOutputStream 0 0"
  by (simp add: sends_def new_ReliableOutputStream_def)

lemma sends_window_open: "sends msgs s b t \<Longrightarrow> window_open s \<longleftrightarrow> length msgs < b + 16"
proof -
  assume s: "sends msgs s b t"
  have "seq_add (of_nat b) (SeqNum_of_int (RELIABLE_STREAM_DEPTH - 1)) = - 1 + of_nat (b + 16)"
    by (simp add: seq_add_eq SeqNum_of_int_def xrce_consts)
  then show ?thesis
    using s seq_lt_of_nat [of "length msgs" "b + 16" "- 1"] by (auto simp: window_open_def sends_def)
qed

lemma sends_absent:
  assumes "sends msgs s b t" "n < b + 65536" "length msgs \<le> n + 65536" "\<not> (b \<le> n \<and> n < length msgs)"
  shows "map_find (ro_messages s) (of_nat n) = None"
proof (rule ccontr)
  assume "map_find (ro_messages s) (of_nat n) \<noteq> None"
  then have "(of_nat n :: u16) \<in> of_nat ` {b..<length msgs}"
    using assms(1) unfolding sends_def by blast
  then obtain k where "b \<le> k" "k < length msgs" "(of_nat n :: u16) = of_nat k"
    by auto
  then have "n = k"
    using assms(2,3) by (intro of_nat_u16_inj) auto
  then show False using assms(4) \<open>b \<le> k\<close> \<open>k < length msgs\<close> by simp
qed

lemma sends_push:
  assumes s: "sends msgs s b t" and room: "length msgs < b + 2 ^ 14"
  shows "seq_add_int (ro_last_unacked s) 1 = of_nat (length msgs)"
    and "sends (msgs @ [m]) (s\<lparr>ro_last_unacked := of_nat (length msgs),
      ro_messages := map_emplace (of_nat (length msgs)) m (ro_messages s)\<rparr>) b t"
proof -
  show "seq_add_int (ro_last_unacked s) 1 = of_nat (length msgs)"
    using s by (simp add: sends_def)
  have none: "map_find (ro_messages s) (of_nat (length msgs)) = None"
    using sends_absent [OF s, of "length msgs"] room by simp
  have "(of_nat n :: u16) \<noteq> of_nat (length msgs)" if "b \<le> n" "n < length msgs" for n
    using of_nat_u16_inj [of n "length msgs"] that room by auto
  then show "sends (msgs @ [m]) (s\<lparr>ro_last_unacked := of_nat (length msgs),
      ro_messages := map_emplace (of_nat (length msgs)) m (ro_messages s)\<rparr>) b t"
    using s room none by (auto simp: sends_def nth_append less_Suc_eq atLeastLessThanSuc)
qed

lemma sends_next:
  assumes s: "sends msgs s b t"
  shows "ReliableOutputStream_get_next_message s =
      (if t < length msgs then Inr (Some (msgs ! t), s\<lparr>ro_last_sent := of_nat t\<rparr>) else Inr (None, s))"
    and "t < length msgs \<Longrightarrow> sends msgs (s\<lparr>ro_last_sent := of_nat t\<rparr>) b (t + 1)"
  using s seq_lt_of_nat [of t "length msgs" "- 1"]
  by (auto simp: sends_def ReliableOutputStream_get_next_message_def Let_def)

lemma sends_get:
  assumes "sends msgs s b t" "n < b + 65536" "length msgs \<le> n + 65536"
  shows "ReliableOutputStream_get_message (of_nat n) s = (if b \<le> n \<and> n < length msgs then Some (msgs ! n) else None)"
  using assms sends_absent [OF assms] by (auto simp: ReliableOutputStream_get_message_def sends_def)

lemma image_from_Suc: "x \<in> f ` {b..<u} \<Longrightarrow> x \<noteq> f b \<Longrightarrow> x \<in> f ` {Suc b..<u}"
  by (metis (no_types, lifting) Suc_leI atLeastLessThan_iff image_iff le_neq_implies_less)

lemma sends_acknack_loop:
  assumes "sends msgs s b t" "b + k \<le> t"
  shows "\<exists>ms. acknack_loop (of_nat (b + k)) (of_nat b, ro_messages s) = (of_nat (b + k), ms) \<and>
    sends msgs (s\<lparr>ro_first_unacked := of_nat (b + k), ro_messages := ms\<rparr>) (b + k) t"
  using assms
proof (induction k arbitrary: b s)
  case 0
  have "\<not> seq_gt a a" for a by (simp add: seq_gt_iff)
  then show ?case using 0 by (simp add: sends_def acknack_loop.simps)
next
  case (Suc k)
  let ?s = "s\<lparr>ro_first_unacked := of_nat (b + 1), ro_messages := map_erase (of_nat b) (ro_messages s)\<rparr>"
  have "seq_gt (of_nat (b + Suc k)) (of_nat b)"
    using Suc.prems seq_lt_of_nat [of b "b + Suc k" 0] by (auto simp: seq_gt_def sends_def)
  then have loop: "acknack_loop (of_nat (b + Suc k)) (of_nat b, ro_messages s) =
      acknack_loop (of_nat ((b + 1) + k)) (of_nat (b + 1), ro_messages ?s)"
    by (subst acknack_loop.simps) (simp add: add.commute)
  have "(of_nat n :: u16) \<noteq> of_nat b" if "b < n" "n < length msgs" for n
    using of_nat_u16_inj [of n b] that Suc.prems by (auto simp: sends_def)
  then have "sends msgs ?s (b + 1) t"
    using Suc.prems by (auto simp: sends_def intro: image_from_Suc)
  then show ?case
    using Suc.IH [of ?s "b + 1"] Suc.prems loop by (auto simp: sends_def)
qed

lemma sends_acknack:
  assumes s: "sends msgs s b t" and n: "near b n"
  shows "sends msgs (ReliableOutputStream_update_from_acknack (of_nat n) s) (if n \<le> t then max b n else b) t"
proof -
  have le: "seq_le (of_nat n) (seq_add_int (ro_last_sent s) 1) \<longleftrightarrow> n \<le> t"
    using s n seq_lt_of_nat [of t n 0] by (auto simp: seq_le_def seq_gt_def sends_def near_def)
  consider (late) "t < n" | (old) "n < b" "n \<le> t" | (new) "b \<le> n" "n \<le> t"
    by linarith
  then show ?thesis
  proof cases
    case late
    then show ?thesis
      using le s by (simp add: ReliableOutputStream_update_from_acknack_def)
  next
    case old
    then have "\<not> seq_gt (of_nat n) (ro_first_unacked s)"
      using n s seq_lt_of_nat [of b n 0] by (auto simp: seq_gt_def near_def sends_def)
    then have "ReliableOutputStream_update_from_acknack (of_nat n) s = s"
      by (simp add: ReliableOutputStream_update_from_acknack_def acknack_loop.simps)
    then show ?thesis using old s by (simp add: max_def)
  next
    case new
    then obtain k where k: "n = b + k" using le_Suc_ex by blast
    have fu: "ro_first_unacked s = of_nat b" and kt: "b + k \<le> t"
      using s new k by (simp_all add: sends_def)
    obtain ms where "acknack_loop (of_nat n) (ro_first_unacked s, ro_messages s) = (of_nat n, ms)"
      "sends msgs (s\<lparr>ro_first_unacked := of_nat n, ro_messages := ms\<rparr>) n t"
      using sends_acknack_loop [OF s kt] unfolding k fu by blast
    then show ?thesis
      using new le by (simp add: ReliableOutputStream_update_from_acknack_def max_def del: acknack_loop.simps)
  qed
qed

lemma sends_heartbeat:
  assumes "sends msgs s b t"
  shows "ReliableOutputStream_fill_heartbeat s hb = (b < length msgs,
    hb\<lparr>hb_first_unacked_seq_nr := of_nat b, hb_last_unacked_seq_nr := - 1 + of_nat (length msgs)\<rparr>)"
proof -
  have "ro_messages s \<noteq> [] \<longleftrightarrow> (\<exists>w. map_find (ro_messages s) w \<noteq> None)"
    using map_find_None_all by metis
  also have "\<dots> \<longleftrightarrow> b < length msgs"
  proof
    assume "b < length msgs"
    then have "map_find (ro_messages s) (of_nat b) = Some (msgs ! b)"
      using assms by (simp add: sends_def)
    then show "\<exists>w. map_find (ro_messages s) w \<noteq> None" by (metis option.distinct(1))
  next
    assume "\<exists>w. map_find (ro_messages s) w \<noteq> None"
    then have "(of_nat ` {b..<length msgs} :: u16 set) \<noteq> {}"
      using assms unfolding sends_def by blast
    then show "b < length msgs" by simp
  qed
  finally show ?thesis
    using assms by (simp add: ReliableOutputStream_fill_heartbeat_def sends_def)
qed

section \<open>Fragmentation\<close>

function chunks :: "nat \<Rightarrow> bytes \<Rightarrow> bytes list" where
  "chunks k xs = (if k = 0 \<or> length xs \<le> k then [xs] else take k xs # chunks k (drop k xs))"
  by pat_completeness auto

termination
  by (relation "measure (\<lambda>(k, xs). length xs)") auto

declare chunks.simps [simp del]

lemma chunks_not_Nil [simp]: "chunks k xs \<noteq> []"
  by (subst chunks.simps) simp

lemma concat_chunks [simp]: "concat (chunks k xs) = xs"
  by (induction k xs rule: chunks.induct) (subst chunks.simps, simp)

lemma chunks_bound: "0 < k \<Longrightarrow> c \<in> set (chunks k xs) \<Longrightarrow> length c \<le> k"
  by (induction k xs rule: chunks.induct) (subst (asm) chunks.simps, auto split: if_splits)

abbreviation fragment_header :: "u8 \<Rightarrow> bytes \<Rightarrow> SubmessageHeader" where
  "fragment_header flags c \<equiv>
     \<lparr>sh_submessage_id = FRAGMENT, sh_flags = flags, sh_submessage_length = of_nat (length c)\<rparr>"

text \<open>The bytes of the messages that carry the chunks, the first with number n.\<close>

fun fragment_wire :: "(MessageHeader \<Rightarrow> bytes) \<Rightarrow> (SubmessageHeader \<Rightarrow> bytes) \<Rightarrow> MessageHeader \<Rightarrow> nat \<Rightarrow>
    bytes list \<Rightarrow> bytes list" where
  "fragment_wire hdr sub h n [] = []"
| "fragment_wire hdr sub h n [c] =
     [hdr (h\<lparr>mh_sequence_nr := of_nat n\<rparr>) @
      sub (fragment_header (FLAG_LITTLE_ENDIANNESS OR FLAG_LAST_FRAGMENT) c) @ c]"
| "fragment_wire hdr sub h n (c # cs) =
     (hdr (h\<lparr>mh_sequence_nr := of_nat n\<rparr>) @ sub (fragment_header FLAG_LITTLE_ENDIANNESS c) @ c) #
     fragment_wire hdr sub h (n + 1) cs"

lemma little_flags [simp]:
  "FLAG_LITTLE_ENDIANNESS AND 0x01 = 1" "(FLAG_LITTLE_ENDIANNESS OR FLAG_LAST_FRAGMENT) AND 0x01 = 1"
  "FLAG_LAST_FRAGMENT AND FLAG_LITTLE_ENDIANNESS = 0"
  "FLAG_LAST_FRAGMENT AND (FLAG_LITTLE_ENDIANNESS OR FLAG_LAST_FRAGMENT) = FLAG_LAST_FRAGMENT"
  by (simp_all add: FLAG_LITTLE_ENDIANNESS_def FLAG_LAST_FRAGMENT_def)

lemma hdr_length_seq:
  assumes "cdr_laws L hdr sub"
  shows "length (hdr (h\<lparr>mh_sequence_nr := n\<rparr>)) = length (hdr h)"
  using cdr_hdr_length [OF assms] by simp

lemma fragment_round_sends:
  assumes laws: "cdr_laws L hdr sub" and f: "sh_submessage_id f = FRAGMENT" "little f"
    and p: "p < length buf" "p < 65536" and k: "k < 65536"
    and c: "c = (if k < length buf - p then take k (drop p buf) else drop p buf)"
    and fl: "fl = (if k < length buf - p then sh_flags f else FLAG_LITTLE_ENDIANNESS OR FLAG_LAST_FRAGMENT)"
  obtains m where
    "fragment_round L (length (hdr h) + 4 + k) h FLAG_LITTLE_ENDIANNESS (length (hdr h)) 4 (length buf) k buf (of_nat p, f, s) =
      Inr (True, of_nat p + of_nat (length c), fragment_header fl c,
        s\<lparr>ro_last_unacked := ro_last_unacked s + 1,
          ro_messages := map_emplace (ro_last_unacked s + 1) m (ro_messages s)\<rparr>)"
    "om_get_buf L m = hdr (h\<lparr>mh_sequence_nr := ro_last_unacked s + 1\<rparr>) @ sub (fragment_header fl c) @ c"
proof -
  let ?h = "h\<lparr>mh_sequence_nr := ro_last_unacked s + 1\<rparr>"
  have lc: "length c < 65536" "p + length c \<le> length buf"
    using c k p by (auto split: if_splits)
  have take_c: "take (length c) (drop p buf) = c"
    using c by (auto simp: min_def split: if_splits)
  have "little (fragment_header fl c)"
    using f(2) by (simp add: little_def fl)
  then obtain m where m: "append_fragment L (fragment_header fl c) c
      (new_OutputMessage L ?h (length (hdr h) + 4 + length c)) = (True, m)"
    "om_get_buf L m = hdr ?h @ sub (fragment_header fl c) @ c"
    using fragment_sent [OF laws, of "fragment_header fl c" "length (hdr h) + 4 + length c" ?h c] hdr_length_seq [OF laws]
    by auto
  obtain l where f': "f = \<lparr>sh_submessage_id = FRAGMENT, sh_flags = sh_flags f, sh_submessage_length = l\<rparr>"
    using f by (cases f) simp
  have len: "(if k < length buf - p then of_nat k else of_nat (length buf - p)) = (of_nat (length c) :: u16)"
    using c by simp
  have "fragment_round L (length (hdr h) + 4 + k) h FLAG_LITTLE_ENDIANNESS (length (hdr h)) 4 (length buf) k buf (of_nat p, f, s) =
      Inr (True, of_nat p + of_nat (length c), fragment_header fl c,
        s\<lparr>ro_last_unacked := ro_last_unacked s + 1,
          ro_messages := map_emplace (ro_last_unacked s + 1) m (ro_messages s)\<rparr>)"
  proof (cases "k < length buf - p")
    case True
    then have "length c = k" "fl = sh_flags f"
      using c fl by simp_all
    moreover have "f\<lparr>sh_submessage_length := x\<rparr> = \<lparr>sh_submessage_id = FRAGMENT, sh_flags = sh_flags f,
        sh_submessage_length = x\<rparr>" for x
      by (subst f') simp
    ultimately show ?thesis
      using True m lc take_c p k
      by (simp add: fragment_round_def unat_of_nat_u16 Let_def)
  next
    case False
    then have "length buf - p = length c" "fl = FLAG_LITTLE_ENDIANNESS OR FLAG_LAST_FRAGMENT"
      using c fl by simp_all
    moreover have "f\<lparr>sh_flags := y, sh_submessage_length := x\<rparr> = \<lparr>sh_submessage_id = FRAGMENT, sh_flags = y,
        sh_submessage_length = x\<rparr>" for x y
      by (subst f') simp
    ultimately show ?thesis
      using False m lc take_c p k
      by (simp add: fragment_round_def unat_of_nat_u16 Let_def)
  qed
  then show ?thesis using m(2) that by blast
qed

lemma fragment_loop_sends:
  assumes laws: "cdr_laws L hdr sub"
  shows "cs = chunks k xs \<Longrightarrow> xs = drop p buf \<Longrightarrow> p < length buf \<Longrightarrow> length buf < 65536 \<Longrightarrow> 0 < k \<Longrightarrow> k < 65536 \<Longrightarrow>
    sh_submessage_id f = FRAGMENT \<Longrightarrow> sh_flags f = FLAG_LITTLE_ENDIANNESS \<Longrightarrow>
    sends msgs s b t \<Longrightarrow> length msgs + length cs \<le> b + 2 ^ 14 \<Longrightarrow>
    \<exists>ms s'. fragment_loop (fragment_round L (length (hdr h) + 4 + k) h FLAG_LITTLE_ENDIANNESS (length (hdr h)) 4
          (length buf) k buf) (length buf) (of_nat p, f, s) = Some (Inr (of_nat (length buf), s')) \<and>
      sends (msgs @ ms) s' b t \<and> map (om_get_buf L) ms = fragment_wire hdr sub h (length msgs) cs"
proof (induction cs arbitrary: xs p f msgs s)
  case Nil
  then show ?case using chunks_not_Nil [of k xs] by metis
next
  case (Cons c cs)
  let ?last = "\<not> k < length buf - p"
  define fl where "fl = (if k < length buf - p then FLAG_LITTLE_ENDIANNESS else FLAG_LITTLE_ENDIANNESS OR FLAG_LAST_FRAGMENT)"
  have fl: "fl = (if k < length buf - p then sh_flags f else FLAG_LITTLE_ENDIANNESS OR FLAG_LAST_FRAGMENT)"
    and f: "little f"
    using Cons.prems(8) by (simp_all add: fl_def little_def)
  have c: "c = (if k < length buf - p then take k (drop p buf) else drop p buf)"
    and cs: "cs = (if k < length buf - p then chunks k (drop (p + k) buf) else [])"
    using Cons.prems(1,2,5) by (subst (asm) chunks.simps; simp add: add.commute split: if_splits)+
  let ?n = "of_nat (length msgs) :: u16"
  have n: "ro_last_unacked s + 1 = ?n"
    using sends_push(1) [OF Cons.prems(9)] Cons.prems(10) by simp
  obtain m where m:
    "fragment_round L (length (hdr h) + 4 + k) h FLAG_LITTLE_ENDIANNESS (length (hdr h)) 4 (length buf) k buf (of_nat p, f, s) =
      Inr (True, of_nat p + of_nat (length c), fragment_header fl c,
        s\<lparr>ro_last_unacked := ?n, ro_messages := map_emplace ?n m (ro_messages s)\<rparr>)"
    "om_get_buf L m = hdr (h\<lparr>mh_sequence_nr := ?n\<rparr>) @ sub (fragment_header fl c) @ c"
    using fragment_round_sends [OF laws Cons.prems(7) f Cons.prems(3) _ Cons.prems(6) c fl, of h s] Cons.prems(3,4) n
    by auto
  let ?s = "s\<lparr>ro_last_unacked := ?n, ro_messages := map_emplace ?n m (ro_messages s)\<rparr>"
  have s: "sends (msgs @ [m]) ?s b t"
    using sends_push(2) [OF Cons.prems(9), of m] Cons.prems(10) by simp
  have pc: "(of_nat p + of_nat (length c) :: u16) = of_nat (p + length c)" by simp
  show ?case
  proof (cases "k < length buf - p")
    case True
    then have lc: "length c = k" and p': "p + k < length buf" using c by simp_all
    have "\<exists>ms s'. fragment_loop (fragment_round L (length (hdr h) + 4 + k) h FLAG_LITTLE_ENDIANNESS (length (hdr h)) 4
          (length buf) k buf) (length buf) (of_nat (p + k), fragment_header fl c, ?s) = Some (Inr (of_nat (length buf), s')) \<and>
      sends ((msgs @ [m]) @ ms) s' b t \<and> map (om_get_buf L) ms = fragment_wire hdr sub h (length (msgs @ [m])) cs"
    proof (rule Cons.IH)
      show "length (msgs @ [m]) + length cs \<le> b + 2 ^ 14" using Cons.prems(10) by simp
    qed (use Cons.prems(4-6) True cs p' s in \<open>simp_all add: fl_def\<close>)
    then obtain ms s' where ms: "fragment_loop (fragment_round L (length (hdr h) + 4 + k) h FLAG_LITTLE_ENDIANNESS (length (hdr h)) 4
          (length buf) k buf) (length buf) (of_nat (p + k), fragment_header fl c, ?s) = Some (Inr (of_nat (length buf), s'))"
      "sends (msgs @ m # ms) s' b t" "map (om_get_buf L) ms = fragment_wire hdr sub h (length msgs + 1) cs" by auto
    have "cs \<noteq> []" using cs True by simp
    then have "map (om_get_buf L) (m # ms) = fragment_wire hdr sub h (length msgs) (c # cs)"
      using m(2) ms(3) True by (cases cs) (simp_all add: fl_def)
    moreover have "unat (of_nat (p + k) :: u16) < length buf"
      using p' Cons.prems(4) unat_of_nat_u16 [of "p + k"] by simp
    then have "fragment_loop (fragment_round L (length (hdr h) + 4 + k) h FLAG_LITTLE_ENDIANNESS (length (hdr h)) 4
          (length buf) k buf) (length buf) (of_nat p, f, s) = Some (Inr (of_nat (length buf), s'))"
      using ms(1) by (subst fragment_loop.simps) (simp only: m(1) [unfolded pc] lc sum.case prod.case if_True simp_thms)
    ultimately show ?thesis using ms(2) by blast
  next
    case False
    then have "c = drop p buf" "cs = []" using c cs by simp_all
    then have pl: "p + length c = length buf" using Cons.prems(3) by simp
    have "fragment_loop (fragment_round L (length (hdr h) + 4 + k) h FLAG_LITTLE_ENDIANNESS (length (hdr h)) 4
          (length buf) k buf) (length buf) (of_nat p, f, s) = Some (Inr (of_nat (length buf), ?s))"
      using Cons.prems(4) unat_of_nat_u16 [of "length buf"]
      by (subst fragment_loop.simps) (simp only: m(1) [unfolded pc pl] sum.case prod.case less_irrefl if_False simp_thms)
    moreover have "map (om_get_buf L) [m] = fragment_wire hdr sub h (length msgs) (c # cs)"
      using m(2) False \<open>cs = []\<close> by (simp add: fl_def)
    ultimately show ?thesis using s by blast
  qed
qed

text \<open>A loop whose every round succeeds with bytes left never ends.\<close>

lemma fragment_loop_converges:
  assumes "fragment_loop body sz st = Some r"
  shows "(\<forall>st. I st \<longrightarrow> (\<exists>p f s. body st = Inr (True, p, f, s) \<and> unat p < sz \<and> I (p, f, s))) \<longrightarrow> \<not> I st"
proof (rule fragment_loop.raw_induct [OF _ assms])
  fix loop body sz st r
  assume IH: "\<And>body sz st r. loop body sz st = Some r \<Longrightarrow>
      (\<forall>st. I st \<longrightarrow> (\<exists>p f s. body st = Inr (True, p, f, s) \<and> unat p < sz \<and> I (p, f, s))) \<longrightarrow> \<not> I st"
    and loop: "(case body st of Inl e \<Rightarrow> Some (Inl e)
      | Inr (ok, p, f, s) \<Rightarrow> if ok \<and> unat p < sz then loop body sz (p, f, s) else Some (Inr (p, s))) = Some r"
  show "(\<forall>st. I st \<longrightarrow> (\<exists>p f s. body st = Inr (True, p, f, s) \<and> unat p < sz \<and> I (p, f, s))) \<longrightarrow> \<not> I st"
  proof (intro impI notI)
    assume *: "\<forall>st. I st \<longrightarrow> (\<exists>p f s. body st = Inr (True, p, f, s) \<and> unat p < sz \<and> I (p, f, s))" "I st"
    then obtain p f s where "body st = Inr (True, p, f, s)" "unat p < sz" "I (p, f, s)" by blast
    then show False using IH [of body sz "(p, f, s)" r] loop * by auto
  qed
qed

lemma fragment_loop_diverges:
  assumes "\<And>st. I st \<Longrightarrow> \<exists>p f s. body st = Inr (True, p, f, s) \<and> unat p < sz \<and> I (p, f, s)" "I st"
  shows "fragment_loop body sz st = None"
  using fragment_loop_converges [of body sz st _ I] assms by (cases "fragment_loop body sz st") blast+

section \<open>What push_submessage puts on the wire\<close>

abbreviation message_header :: "'c cdr_lib \<Rightarrow> SessionInfo \<Rightarrow> StreamId \<Rightarrow> MessageHeader" where
  "message_header L info stream \<equiv> (new_MessageHeader L)\<lparr>mh_session_id := si_session_id info,
     mh_stream_id := stream, mh_client_key := si_client_key info\<rparr>"

abbreviation submessage_header :: "'c cdr_lib \<Rightarrow> SubmessageId \<Rightarrow> bytes \<Rightarrow> SubmessageHeader" where
  "submessage_header L i xs \<equiv> (new_SubmessageHeader L)\<lparr>sh_submessage_id := i,
     sh_flags := FLAG_LITTLE_ENDIANNESS, sh_submessage_length := of_nat (length xs)\<rparr>"

definition fits_mtu :: "'c cdr_lib \<Rightarrow> (MessageHeader \<Rightarrow> bytes) \<Rightarrow> SessionInfo \<Rightarrow> StreamId \<Rightarrow> bytes \<Rightarrow> bool" where
  "fits_mtu L hdr info stream xs \<longleftrightarrow> length (hdr (message_header L info stream)) + 4 + length xs \<le> si_mtu info"

definition fragment_room :: "'c cdr_lib \<Rightarrow> (MessageHeader \<Rightarrow> bytes) \<Rightarrow> SessionInfo \<Rightarrow> StreamId \<Rightarrow> nat" where
  "fragment_room L hdr info stream = si_mtu info - length (hdr (message_header L info stream)) - 4"

definition wire :: "'c cdr_lib \<Rightarrow> (MessageHeader \<Rightarrow> bytes) \<Rightarrow> (SubmessageHeader \<Rightarrow> bytes) \<Rightarrow> SessionInfo \<Rightarrow>
    StreamId \<Rightarrow> SubmessageId \<Rightarrow> bytes \<Rightarrow> nat \<Rightarrow> bytes list" where
  "wire L hdr sub info stream i xs n =
     (let h = message_header L info stream; whole = sub (submessage_header L i xs) @ xs in
      if fits_mtu L hdr info stream xs then [hdr (h\<lparr>mh_sequence_nr := of_nat n\<rparr>) @ whole]
      else fragment_wire hdr sub h n (chunks (fragment_room L hdr info stream) whole))"

lemma serialize_whole:
  assumes laws: "cdr_laws L hdr sub" and data: "payload_bytes L data xs" and s: "little s"
  obtains c1 c2 where "SubmessageHeader_serialize L s (new_cdr L (uninitialised L (4 + length xs))) = (True, c1)"
    "serialize data c1 = (True, c2)" "cdr_bytes L c2 = sub s @ xs"
proof -
  let ?c = "new_cdr L (uninitialised L (4 + length xs))"
  have c: "cdr_length L ?c = 0" "length (cdr_bytes L ?c) = 4 + length xs"
    using cdr_new [OF laws] cdr_uninitialised [OF laws] by simp_all
  have w: "writes L (SubmessageHeader_serialize L s) (sub s) ?c"
    using cdr_sub_writes [OF laws s] c by simp
  obtain c1 where c1: "SubmessageHeader_serialize L s ?c = (True, c1)"
    "cdr_bytes L c1 = overwrite 0 (sub s) (cdr_bytes L ?c)" "cdr_length L c1 = 4"
    using w c cdr_sub_length [OF laws, of s] by (cases "SubmessageHeader_serialize L s ?c") (auto simp: writes_def)
  then have w2: "writes L (serialize data) xs c1"
    using data by (simp add: payload_bytes_def)
  have "length (cdr_bytes L c1) = 4 + length xs"
    using c1(2) c cdr_sub_length [OF laws, of s] by (simp add: overwrite_def)
  then obtain c2 where "serialize data c1 = (True, c2)" "cdr_bytes L c2 = overwrite 4 xs (cdr_bytes L c1)"
    using w2 c1(3) by (cases "serialize data c1") (auto simp: writes_def)
  moreover have "overwrite 4 xs (cdr_bytes L c1) = sub s @ xs"
    using c1(2) c cdr_sub_length [OF laws, of s] by (simp add: overwrite_def)
  ultimately show ?thesis using c1(1) that by simp
qed

lemma push_fragments_unfold:
  assumes laws: "cdr_laws L hdr sub" and data: "payload_bytes L data xs"
    and room: "length (hdr h) + 4 + k < 2 ^ 64"
  shows "push_fragments L (length (hdr h) + 4 + k) h (submessage_header L i xs) (length (hdr h)) 4 (4 + length xs) data s =
    bind_res (case fragment_loop (fragment_round L (length (hdr h) + 4 + k) h FLAG_LITTLE_ENDIANNESS (length (hdr h)) 4
        (4 + length xs) k (sub (submessage_header L i xs) @ xs)) (4 + length xs)
        (0, (new_SubmessageHeader L)\<lparr>sh_submessage_id := FRAGMENT, sh_flags := FLAG_LITTLE_ENDIANNESS,
          sh_submessage_length := of_nat k\<rparr>, s)
      of None \<Rightarrow> Inl Hang | Some r \<Rightarrow> r)
    (\<lambda>(serialized_size, s). Inr (unat serialized_size = 4 + length xs, s))"
proof -
  have "little (submessage_header L i xs)" by (simp add: little_def)
  from serialize_whole [OF laws data this] obtain c1 c2 where
    c: "SubmessageHeader_serialize L (submessage_header L i xs) (new_cdr L (uninitialised L (4 + length xs))) = (True, c1)"
    "serialize data c1 = (True, c2)" "cdr_bytes L c2 = sub (submessage_header L i xs) @ xs" by blast
  have "(of_nat (length (hdr h) + 4 + k) - of_nat (length (hdr h)) - of_nat 4 :: u64) = of_nat k" by simp
  then have "unat (of_nat (length (hdr h) + 4 + k) - of_nat (length (hdr h)) - of_nat 4 :: u64) = unat (of_nat k :: u64)"
    by (rule arg_cong)
  also have "\<dots> = k"
    using room by (simp add: unat_of_nat take_bit_nat_eq_self)
  finally show ?thesis
    using c by (simp only: push_fragments_def Let_def prod.case) simp
qed

lemma push_ok:
  assumes laws: "cdr_laws L hdr sub" and data: "payload_bytes L data xs" and s: "sends msgs s b t"
    and opn: "length msgs < b + 16" and small: "length xs + 4 < 65536"
    and room: "fits_mtu L hdr info stream xs \<or> 0 < fragment_room L hdr info stream"
    and few: "length (wire L hdr sub info stream i xs (length msgs)) \<le> 16000"
  shows "\<exists>ms s'. ReliableOutputStream_push_submessage L info stream i data s = Inr (True, s') \<and>
    sends (msgs @ ms) s' b t \<and> map (om_get_buf L) ms = wire L hdr sub info stream i xs (length msgs)"
proof -
  let ?h = "message_header L info stream" and ?sh = "submessage_header L i xs"
  let ?n = "of_nat (length msgs) :: u16"
  have n: "seq_add_int (ro_last_unacked s) 1 = ?n"
    using sends_push(1) [OF s] opn by simp
  have size: "getCdrSerializedSize data = length xs"
    using data by (simp add: payload_bytes_def)
  have w: "window_open s" using sends_window_open [OF s] opn by simp
  note sizes = cdr_hdr_size [OF laws] cdr_sub_size [OF laws] size
  show ?thesis
  proof (cases "fits_mtu L hdr info stream xs")
    case True
    obtain m where m: "append_submessage L i data 0x01 (new_OutputMessage L (?h\<lparr>mh_sequence_nr := ?n\<rparr>)
        (length (hdr ?h) + (4 + length xs))) = (True, m)"
      "om_get_buf L m = hdr (?h\<lparr>mh_sequence_nr := ?n\<rparr>) @ sub ?sh @ xs"
      using submessage_sent [OF laws data, of 1 "length (hdr ?h) + 4 + length xs" "?h\<lparr>mh_sequence_nr := ?n\<rparr>" i]
        hdr_length_seq [OF laws] by (auto simp: FLAG_LITTLE_ENDIANNESS_def add.assoc)
    have "ReliableOutputStream_push_submessage L info stream i data s =
        Inr (True, s\<lparr>ro_last_unacked := ?n, ro_messages := map_emplace ?n m (ro_messages s)\<rparr>)"
      using w True m(1) n by (simp add: ReliableOutputStream_push_submessage_def sizes fits_mtu_def Let_def add.assoc)
    moreover have "map (om_get_buf L) [m] = wire L hdr sub info stream i xs (length msgs)"
      using m(2) True by (simp add: wire_def)
    ultimately show ?thesis
      using sends_push(2) [OF s, of m] opn by fastforce
  next
    case False
    define k where "k = fragment_room L hdr info stream"
    have k: "0 < k" "si_mtu info = length (hdr ?h) + 4 + k" "k < 65536"
      using False room small by (auto simp: k_def fragment_room_def fits_mtu_def)
    have hl: "length (hdr ?h) \<le> 8" using cdr_hdr_length [OF laws, of ?h] by simp
    let ?buf = "sub ?sh @ xs"
    have lb: "length ?buf = 4 + length xs" using cdr_sub_length [OF laws, of ?sh] by simp
    let ?f = "(new_SubmessageHeader L)\<lparr>sh_submessage_id := FRAGMENT, sh_flags := FLAG_LITTLE_ENDIANNESS,
          sh_submessage_length := of_nat k\<rparr>"
    have few': "length msgs + length (chunks k ?buf) \<le> b + 2 ^ 14"
    proof -
      have "length (fragment_wire hdr sub h m cs) = length cs" for h m cs
        by (induction hdr sub h m cs rule: fragment_wire.induct) simp_all
      then show ?thesis using few opn False by (simp add: wire_def k_def Let_def)
    qed
    obtain ms s' where ms: "fragment_loop (fragment_round L (length (hdr ?h) + 4 + k) ?h FLAG_LITTLE_ENDIANNESS (length (hdr ?h)) 4
          (length ?buf) k ?buf) (length ?buf) (of_nat 0, ?f, s) = Some (Inr (of_nat (length ?buf), s'))"
      "sends (msgs @ ms) s' b t" "map (om_get_buf L) ms = fragment_wire hdr sub ?h (length msgs) (chunks k ?buf)"
    proof -
      have "0 < length ?buf" "length ?buf < 65536" using lb small by linarith+
      from fragment_loop_sends [OF laws refl drop_0 [symmetric] this k(1,3) _ _ s few', of ?f ?h]
      show ?thesis using that by auto
    qed
    have "ReliableOutputStream_push_submessage L info stream i data s =
        push_fragments L (length (hdr ?h) + 4 + k) ?h ?sh (length (hdr ?h)) 4 (4 + length xs) data s"
      using w False k(2) by (simp add: ReliableOutputStream_push_submessage_def sizes fits_mtu_def Let_def)
    also have "\<dots> = Inr (True, s')"
      using push_fragments_unfold [OF laws data, of ?h k i s] ms(1) lb k(3) hl small
        unat_of_nat_u16 [of "4 + length xs"] by simp
    finally show ?thesis
      using ms(2,3) False by (auto simp: wire_def k_def Let_def)
  qed
qed

text \<open>A push that never returns.  If a submessage does not fit the MTU and is 65536 bytes or
  longer with its header, the 16-bit counter of serialised bytes never reaches its size, and
  if the MTU leaves no byte for the payload of a fragment the counter never moves; in both
  cases the loop of push_submessage goes on for ever, holding the mutex of the stream.\<close>

theorem oversize_push_hangs:
  assumes laws: "cdr_laws L hdr sub" and data: "payload_bytes L data xs" and opn: "window_open s"
    and big: "\<not> fits_mtu L hdr info stream xs"
    and mtu: "si_mtu info = length (hdr (message_header L info stream)) + 4 + k" "k < 65536"
    and bad: "65536 \<le> 4 + length xs \<or> k = 0"
  shows "ReliableOutputStream_push_submessage L info stream i data s = Inl Hang"
proof -
  let ?h = "message_header L info stream" and ?sh = "submessage_header L i xs"
  let ?buf = "sub ?sh @ xs"
  let ?body = "fragment_round L (length (hdr ?h) + 4 + k) ?h FLAG_LITTLE_ENDIANNESS (length (hdr ?h)) 4 (length ?buf) k ?buf"
  have size: "getCdrSerializedSize data = length xs"
    using data by (simp add: payload_bytes_def)
  have lb: "length ?buf = 4 + length xs" using cdr_sub_length [OF laws, of ?sh] by simp
  have hl: "length (hdr ?h) \<le> 8" using cdr_hdr_length [OF laws, of ?h] by simp
  have "fragment_loop ?body (length ?buf) (0, f, s) = None"
    if f: "sh_submessage_id f = FRAGMENT" "little f" for f
  proof (rule fragment_loop_diverges [where I = "\<lambda>(p, f, s). sh_submessage_id f = FRAGMENT \<and> little f \<and>
      unat p < length ?buf \<and> (k = 0 \<longrightarrow> p = 0)"])
    fix st :: "u16 \<times> SubmessageHeader \<times> 'a ReliableOutputStream"
    assume "case st of (p, f, s) \<Rightarrow> sh_submessage_id f = FRAGMENT \<and> little f \<and> unat p < length ?buf \<and> (k = 0 \<longrightarrow> p = 0)"
    then obtain p f s where st: "st = (p, f, s)" and f: "sh_submessage_id f = FRAGMENT" "little f"
      and p: "unat p < length ?buf" "k = 0 \<Longrightarrow> p = 0" by (cases st) auto
    define c where "c = (if k < length ?buf - unat p then take k (drop (unat p) ?buf) else drop (unat p) ?buf)"
    define fl where "fl = (if k < length ?buf - unat p then sh_flags f else FLAG_LITTLE_ENDIANNESS OR FLAG_LAST_FRAGMENT)"
    have "unat p < 65536" using unsigned_less [of p] by simp
    from fragment_round_sends [OF laws f p(1) this mtu(2) c_def fl_def, of ?h s] obtain s' where
      r: "?body (of_nat (unat p), f, s) = Inr (True, p + of_nat (length c), fragment_header fl c, s')"
      by auto
    moreover have "little (fragment_header fl c)"
      using f(2) by (simp add: fl_def little_def)
    moreover have "k = 0 \<Longrightarrow> p + of_nat (length c) = 0"
      using p lb by (simp add: c_def)
    moreover have "unat (p + of_nat (length c)) < length ?buf"
    proof (cases "k = 0")
      case True
      then show ?thesis using \<open>k = 0 \<Longrightarrow> p + of_nat (length c) = 0\<close> lb by simp
    next
      case False
      have "unat q < 65536" for q :: u16 using unsigned_less [of q] by simp
      then show ?thesis using bad False lb by (metis less_le_trans)
    qed
    ultimately show "\<exists>p f s. ?body st = Inr (True, p, f, s) \<and> unat p < length ?buf \<and>
        (case (p, f, s) of (p, f, s) \<Rightarrow> sh_submessage_id f = FRAGMENT \<and> little f \<and> unat p < length ?buf \<and> (k = 0 \<longrightarrow> p = 0))"
      by (auto simp: st)
  qed (use f lb in auto)
  then have "fragment_loop ?body (length ?buf) (0, (new_SubmessageHeader L)\<lparr>sh_submessage_id := FRAGMENT,
      sh_flags := FLAG_LITTLE_ENDIANNESS, sh_submessage_length := of_nat k\<rparr>, s) = None"
    by (simp add: little_def)
  moreover have "ReliableOutputStream_push_submessage L info stream i data s =
      push_fragments L (length (hdr ?h) + 4 + k) ?h ?sh (length (hdr ?h)) 4 (4 + length xs) data s"
    using opn big mtu(1)
    by (simp add: ReliableOutputStream_push_submessage_def cdr_hdr_size [OF laws] cdr_sub_size [OF laws] size
        fits_mtu_def Let_def)
  ultimately show ?thesis
    using push_fragments_unfold [OF laws data, of ?h k i s] lb hl mtu(2) by simp
qed

end
