(* ===== verification/ReliableLink.thy ===== *)
theory ReliableLink
  imports OutputStream
begin

text \<open>
  The two reliable streams at the ends of a link.

  First the round trip of one fragmented submessage: what ReliableOutputStream::push_submessage
  cuts into messages, ReliableInputStream::push_fragment puts together again.

  Then the whole protocol as a transition system: an output stream, an input stream, and a
  network that may lose, repeat and reorder messages, heartbeats and acknacks.  The numbers
  in the network are the unbounded numbers of the messages, and only the 16-bit sequence
  numbers reach the streams; the steps that take something from the network require that it
  is not 2^14 numbers old, without which 16 bits cannot tell the numbers apart.
\<close>

section \<open>Putting fragments together\<close>

text \<open>What the receiving side does with the buffer of each fragment.\<close>

fun feed_fragments :: "'c cdr_lib \<Rightarrow> bytes list \<Rightarrow> 'm ReliableInputStream \<Rightarrow> 'm ReliableInputStream res" where
  "feed_fragments L [] r = Inr r"
| "feed_fragments L (buf # bufs) r =
     bind_res (new_InputMessage L buf) (\<lambda>m.
       bind_res (ReliableInputStream_push_fragment L (snd (prepare_next_submessage L m)) r)
         (\<lambda>(_, r). feed_fragments L bufs r))"

lemma push_fragment_received:
  assumes laws: "cdr_laws L hdr sub" and c: "length c < 65536"
    and fl: "fl AND 0x01 = 1"
  shows "\<exists>m m'. new_InputMessage L (hdr h @ sub (fragment_header fl c) @ c) = Inr m \<and>
    ReliableInputStream_push_fragment L (snd (prepare_next_submessage L m)) r =
      Inr (m', r\<lparr>ri_fragment_msg := (if ri_fragment_msg r = [] then hdr h else ri_fragment_msg r) @ c,
        ri_fragment_message_available := (0 \<noteq> FLAG_LAST_FRAGMENT AND fl)\<rparr>)"
proof -
  have s: "little (fragment_header fl c)" "length c = unat (sh_submessage_length (fragment_header fl c))"
    using fl c by (simp_all add: little_def unat_of_nat_u16)
  obtain m m' where m: "new_InputMessage L (hdr h @ sub (fragment_header fl c) @ c) = Inr m"
    "prepare_next_submessage L m = (True, m')" "im_subheader m' = fragment_header fl c"
    "get_raw_header m' = Inr (hdr h)"
    "\<exists>m''. get_raw_payload L (replicate (length c) 0) (length c) m' = (True, c, m'')"
    using fragment_received [OF laws s, of h "replicate (length c) 0"] by (metis length_replicate)
  then obtain m'' where p: "get_raw_payload L (replicate (length c) 0) (length c) m' = (True, c, m'')" by blast
  then have "im_subheader m'' = im_subheader m'"
    by (auto simp: get_raw_payload_def Let_def split: prod.splits if_splits)
  then show ?thesis
    using m(1-4) p s(2) by (simp add: ReliableInputStream_push_fragment_def)
qed

lemma last_flag [simp]: "FLAG_LAST_FRAGMENT \<noteq> 0" "0 \<noteq> FLAG_LAST_FRAGMENT"
  by (simp_all add: FLAG_LAST_FRAGMENT_def)

lemma feed_wire:
  assumes laws: "cdr_laws L hdr sub"
  shows "cs \<noteq> [] \<Longrightarrow> \<forall>c\<in>set cs. length c < 65536 \<Longrightarrow>
    feed_fragments L (fragment_wire hdr sub h n cs) r =
      Inr (r\<lparr>ri_fragment_msg := (if ri_fragment_msg r = [] then hdr (h\<lparr>mh_sequence_nr := of_nat n\<rparr>)
          else ri_fragment_msg r) @ concat cs, ri_fragment_message_available := True\<rparr>)"
proof (induction cs arbitrary: n r)
  case (Cons c cs)
  let ?h = "h\<lparr>mh_sequence_nr := of_nat n\<rparr>"
  have c: "length c < 65536" using Cons.prems by simp
  have ne: "hdr h' \<noteq> []" for h'
    using cdr_hdr_length [OF laws, of h'] by (metis list.size(3) zero_neq_numeral)
  show ?case
  proof (cases cs)
    case Nil
    obtain m m' where "new_InputMessage L (hdr ?h @ sub (fragment_header (FLAG_LITTLE_ENDIANNESS OR FLAG_LAST_FRAGMENT) c) @ c) = Inr m"
      "ReliableInputStream_push_fragment L (snd (prepare_next_submessage L m)) r =
      Inr (m', r\<lparr>ri_fragment_msg := (if ri_fragment_msg r = [] then hdr ?h else ri_fragment_msg r) @ c,
        ri_fragment_message_available := True\<rparr>)"
      using push_fragment_received [OF laws c, of "FLAG_LITTLE_ENDIANNESS OR FLAG_LAST_FRAGMENT" ?h r]
      by auto
    then show ?thesis using Nil by simp
  next
    case (Cons c' cs')
    then have wire: "fragment_wire hdr sub h n (c # cs) =
        (hdr ?h @ sub (fragment_header FLAG_LITTLE_ENDIANNESS c) @ c) # fragment_wire hdr sub h (n + 1) cs"
      by simp
    let ?r = "r\<lparr>ri_fragment_msg := (if ri_fragment_msg r = [] then hdr ?h else ri_fragment_msg r) @ c,
        ri_fragment_message_available := False\<rparr>"
    obtain m m' where m: "new_InputMessage L (hdr ?h @ sub (fragment_header FLAG_LITTLE_ENDIANNESS c) @ c) = Inr m"
      "ReliableInputStream_push_fragment L (snd (prepare_next_submessage L m)) r = Inr (m', ?r)"
      using push_fragment_received [OF laws c, of FLAG_LITTLE_ENDIANNESS ?h r] by auto
    have "feed_fragments L (fragment_wire hdr sub h (n + 1) cs) ?r =
      Inr (?r\<lparr>ri_fragment_msg := ri_fragment_msg ?r @ concat cs, ri_fragment_message_available := True\<rparr>)"
      using Cons.IH [of "n + 1" ?r] Cons.prems Cons ne by simp
    then show ?thesis
      unfolding wire using m by simp
  qed
qed simp

text \<open>C5: fragmentation round trip.  A submessage that does not fit the MTU but is shorter than
  65536 bytes is cut into messages none of which exceeds the MTU; the receiving stream, fed
  with them in order, has a whole message exactly after the last one, and that message is the
  header of the first fragment followed by the submessage header and the payload, byte for
  byte.\<close>

theorem fragmentation_roundtrip:
  assumes laws: "cdr_laws L hdr sub" and data: "payload_bytes L data xs" and s: "sends msgs s b t"
    and opn: "length msgs < b + 16" and small: "length xs + 4 < 65536"
    and big: "\<not> fits_mtu L hdr info stream xs" and room: "0 < fragment_room L hdr info stream"
    and few: "length (wire L hdr sub info stream i xs (length msgs)) \<le> 16000"
  shows "\<exists>ms s' r m. ReliableOutputStream_push_submessage L info stream i data s = Inr (True, s') \<and>
    sends (msgs @ ms) s' b t \<and> (\<forall>m\<in>set ms. length (om_get_buf L m) \<le> si_mtu info) \<and>
    feed_fragments L (map (om_get_buf L) ms) new_ReliableInputStream = Inr r \<and>
    ReliableInputStream_pop_fragment_message L r = Inr (Some m, new_ReliableInputStream) \<and>
    im_buf m = hdr ((message_header L info stream)\<lparr>mh_sequence_nr := of_nat (length msgs)\<rparr>) @
      sub (submessage_header L i xs) @ xs"
proof -
  let ?h = "message_header L info stream" and ?sh = "submessage_header L i xs"
  define k where "k = fragment_room L hdr info stream"
  define cs where "cs = chunks k (sub ?sh @ xs)"
  obtain ms s' where ms: "ReliableOutputStream_push_submessage L info stream i data s = Inr (True, s')"
    "sends (msgs @ ms) s' b t" "map (om_get_buf L) ms = fragment_wire hdr sub ?h (length msgs) cs"
    using push_ok [OF laws data s opn small _ few] room big by (auto simp: wire_def Let_def k_def cs_def)
  have k: "si_mtu info = length (hdr ?h) + 4 + k" "k < 65536" "0 < k"
    using room big small by (auto simp: k_def fragment_room_def fits_mtu_def)
  have c: "length c \<le> k" if "c \<in> set cs" for c
    using that k(3) chunks_bound by (auto simp: cs_def)
  have "length w \<le> si_mtu info" if "w \<in> set (fragment_wire hdr sub ?h n cs)" "\<forall>c\<in>set cs. length c \<le> k" for w n cs
    using that
  proof (induction cs arbitrary: n)
    case (Cons c cs)
    then show ?case
      using cdr_sub_length [OF laws] hdr_length_seq [OF laws] k(1) by (cases cs) auto
  qed simp
  then have mtu: "\<forall>m\<in>set ms. length (om_get_buf L m) \<le> si_mtu info"
    using c ms(3) by (metis imageI list.set_map)
  let ?whole = "hdr (?h\<lparr>mh_sequence_nr := of_nat (length msgs)\<rparr>) @ sub ?sh @ xs"
  have "\<forall>c\<in>set cs. length c < 65536" using c k(2) by (meson le_less_trans)
  then have feed: "feed_fragments L (map (om_get_buf L) ms) new_ReliableInputStream =
      Inr (new_ReliableInputStream\<lparr>ri_fragment_msg := ?whole, ri_fragment_message_available := True\<rparr>)"
    using feed_wire [OF laws, of cs ?h "length msgs" new_ReliableInputStream] ms(3)
    by (simp add: cs_def new_ReliableInputStream_def)
  obtain m where m: "new_InputMessage L ?whole = Inr m"
    using new_InputMessage_returns by blast
  have "ReliableInputStream_pop_fragment_message L
      (new_ReliableInputStream\<lparr>ri_fragment_msg := ?whole, ri_fragment_message_available := True\<rparr>) =
      Inr (Some m, new_ReliableInputStream)"
    using m by (simp add: ReliableInputStream_pop_fragment_message_def new_ReliableInputStream_def)
  then show ?thesis
    using ms(1,2) mtu feed new_InputMessage_fields(1) [OF m] by blast
qed

definition sim_payload :: "bytes \<Rightarrow> sim_cdr_state payload" where
  "sim_payload xs = \<lparr>getCdrSerializedSize = length xs, serialize = sim_write xs\<rparr>"

lemma sim_payload_bytes: "payload_bytes sim_cdr (sim_payload xs) xs"
  by (simp add: payload_bytes_def sim_payload_def sim_writes)

definition sim_info :: SessionInfo where
  "sim_info = \<lparr>si_client_key = (1, 2, 3, 4), si_session_id = 0x81, si_mtu = 12\<rparr>"

lemma sim_mtu: "length (sim_hdr (message_header sim_cdr sim_info stream)) = 4"
  by (simp add: sim_hdr_def sim_info_def)

lemma fragmentation_roundtrip_witness:
  "\<exists>ms s r m. ReliableOutputStream_push_submessage sim_cdr sim_info 0x80 5 (sim_payload [1, 2, 3, 4, 5, 6, 7])
      new_ReliableOutputStream = Inr (True, s) \<and>
    feed_fragments sim_cdr (map (om_get_buf sim_cdr) ms) (new_ReliableInputStream :: nat ReliableInputStream) = Inr r \<and>
    ReliableInputStream_pop_fragment_message sim_cdr r = Inr (Some m, new_ReliableInputStream) \<and>
    im_buf m = [0x81, 0x80, 0, 0, 5, 1, 7, 0, 1, 2, 3, 4, 5, 6, 7]"
proof -
  have big: "\<not> fits_mtu sim_cdr sim_hdr sim_info 0x80 [1, 2, 3, 4, 5, 6, 7]"
    and room: "0 < fragment_room sim_cdr sim_hdr sim_info 0x80"
    using sim_mtu by (simp_all add: fits_mtu_def fragment_room_def sim_info_def)
  have "fragment_room sim_cdr sim_hdr sim_info 0x80 = 4"
    using sim_mtu by (simp add: fragment_room_def sim_info_def)
  then have few: "length (wire sim_cdr sim_hdr sim_sub sim_info 0x80 5 [1, 2, 3, 4, 5, 6, 7] (length [])) \<le> 16000"
    using big by (simp add: wire_def sim_sub_def chunks.simps Let_def)
  show ?thesis
    using fragmentation_roundtrip [OF sim_cdr_laws sim_payload_bytes sends_initially _ _ big room few]
    by (auto simp: sim_hdr_def sim_sub_def sim_info_def FLAG_LITTLE_ENDIANNESS_def)
qed

lemma oversize_push_hangs_witness:
  "ReliableOutputStream_push_submessage sim_cdr (sim_info\<lparr>si_mtu := 8\<rparr>) 0x80 5 (sim_payload [1])
      new_ReliableOutputStream = Inl Hang \<and>
   ReliableOutputStream_push_submessage sim_cdr (sim_info\<lparr>si_mtu := 512\<rparr>) 0x80 5 (sim_payload (replicate 65532 0))
      new_ReliableOutputStream = Inl Hang"
proof -
  have opn: "window_open (new_ReliableOutputStream :: sim_cdr_state ReliableOutputStream)"
    using sends_window_open [OF sends_initially] by simp
  show ?thesis
    using oversize_push_hangs [OF sim_cdr_laws sim_payload_bytes [of "[1]"] opn, where info = "sim_info\<lparr>si_mtu := 8\<rparr>" and k = 0]
      oversize_push_hangs [OF sim_cdr_laws sim_payload_bytes [of "replicate 65532 0"] opn, where info = "sim_info\<lparr>si_mtu := 512\<rparr>" and k = 504]
    by (simp add: sim_mtu fits_mtu_def)
qed

section \<open>The link as a transition system\<close>

record 'c link =
  lk_out :: "'c ReliableOutputStream"
  lk_in :: "'c OutputMessage ReliableInputStream"
  lk_net :: "(nat \<times> 'c OutputMessage) set" \<comment> \<open>messages under way, with their numbers\<close>
  lk_beats :: "(nat \<times> nat) set" \<comment> \<open>heartbeats under way\<close>
  lk_acks :: "nat set" \<comment> \<open>acknacks under way\<close>
  lk_pushed :: "'c OutputMessage list" \<comment> \<open>all messages made by push_submessage\<close>
  lk_sent :: nat \<comment> \<open>how many of them get_next_message has given out\<close>
  lk_delivered :: "'c OutputMessage list" \<comment> \<open>all messages that pop_message has given out\<close>

definition new_link :: "'c link" where
  "new_link = \<lparr>lk_out = new_ReliableOutputStream, lk_in = new_ReliableInputStream, lk_net = {}, lk_beats = {},
     lk_acks = {}, lk_pushed = [], lk_sent = 0, lk_delivered = []\<rparr>"

text \<open>The messages that a push added to the stream.\<close>

definition new_messages :: "'c ReliableOutputStream \<Rightarrow> 'c ReliableOutputStream \<Rightarrow> 'c OutputMessage list" where
  "new_messages s s' = map (\<lambda>j. the (map_find (ro_messages s') (ro_last_unacked s + 1 + of_nat j)))
     [0..<unat (ro_last_unacked s' - ro_last_unacked s)]"

abbreviation good_payload :: "'c cdr_lib \<Rightarrow> (MessageHeader \<Rightarrow> bytes) \<Rightarrow> (SubmessageHeader \<Rightarrow> bytes) \<Rightarrow>
    SessionInfo \<Rightarrow> StreamId \<Rightarrow> SubmessageId \<Rightarrow> 'c payload \<Rightarrow> bytes \<Rightarrow> nat \<Rightarrow> bool" where
  "good_payload L hdr sub info stream i data xs n \<equiv> payload_bytes L data xs \<and> length xs + 4 < 65536 \<and>
     (fits_mtu L hdr info stream xs \<or> 0 < fragment_room L hdr info stream) \<and>
     length (wire L hdr sub info stream i xs n) \<le> 16000"

inductive link_step :: "'c cdr_lib \<Rightarrow> (MessageHeader \<Rightarrow> bytes) \<Rightarrow> (SubmessageHeader \<Rightarrow> bytes) \<Rightarrow> SessionInfo \<Rightarrow>
    StreamId \<Rightarrow> 'c link \<Rightarrow> 'c link \<Rightarrow> bool" for L hdr sub info stream where
  push: "good_payload L hdr sub info stream i data xs (length (lk_pushed l)) \<Longrightarrow>
    ReliableOutputStream_push_submessage L info stream i data (lk_out l) = Inr (rv, s) \<Longrightarrow>
    link_step L hdr sub info stream l
      (l\<lparr>lk_out := s, lk_pushed := lk_pushed l @ new_messages (lk_out l) s\<rparr>)"
| send: "ReliableOutputStream_get_next_message (lk_out l) = Inr (Some m, s) \<Longrightarrow>
    link_step L hdr sub info stream l
      (l\<lparr>lk_out := s, lk_sent := lk_sent l + 1, lk_net := insert (lk_sent l, m) (lk_net l)\<rparr>)"
| resend: "near (length (lk_delivered l)) n \<Longrightarrow>
    ReliableOutputStream_get_message (of_nat n) (lk_out l) = Some m \<Longrightarrow>
    link_step L hdr sub info stream l (l\<lparr>lk_net := insert (n, m) (lk_net l)\<rparr>)"
| lose: "link_step L hdr sub info stream l (l\<lparr>lk_net := lk_net l - {p}, lk_beats := lk_beats l - {q},
    lk_acks := lk_acks l - {a}\<rparr>)"
| receive: "(n, m) \<in> lk_net l \<Longrightarrow> near (length (lk_delivered l)) n \<Longrightarrow>
    link_step L hdr sub info stream l
      (l\<lparr>lk_in := snd (ReliableInputStream_push_message (of_nat n) m (lk_in l))\<rparr>)"
| deliver: "ReliableInputStream_pop_message (lk_in l) = (Some m, r) \<Longrightarrow>
    link_step L hdr sub info stream l (l\<lparr>lk_in := r, lk_delivered := lk_delivered l @ [m]\<rparr>)"
| heartbeat: "ReliableOutputStream_fill_heartbeat (lk_out l) hb = (True, hb') \<Longrightarrow>
    of_nat lo = hb_first_unacked_seq_nr hb' \<Longrightarrow> of_nat hi = hb_last_unacked_seq_nr hb' \<Longrightarrow>
    near (lk_sent l) lo \<Longrightarrow> near (lk_sent l) hi \<Longrightarrow>
    link_step L hdr sub info stream l (l\<lparr>lk_beats := insert (lo, hi) (lk_beats l)\<rparr>)"
| hear_heartbeat: "(lo, hi) \<in> lk_beats l \<Longrightarrow> near (length (lk_delivered l)) lo \<Longrightarrow>
    near (length (lk_delivered l)) hi \<Longrightarrow>
    link_step L hdr sub info stream l
      (l\<lparr>lk_in := ReliableInputStream_update_from_heartbeat (of_nat lo) (of_nat hi) (lk_in l)\<rparr>)"
| acknack: "of_nat n = an_first_unacked_seq_num (ReliableInputStream_fill_acknack (lk_in l) an) \<Longrightarrow>
    near (length (lk_delivered l)) n \<Longrightarrow>
    link_step L hdr sub info stream l (l\<lparr>lk_acks := insert n (lk_acks l)\<rparr>)"
| hear_acknack: "n \<in> lk_acks l \<Longrightarrow> near (lk_sent l) n \<Longrightarrow>
    link_step L hdr sub info stream l
      (l\<lparr>lk_out := ReliableOutputStream_update_from_acknack (of_nat n) (lk_out l)\<rparr>)"

abbreviation link_steps where
  "link_steps L hdr sub info stream \<equiv> (link_step L hdr sub info stream)\<^sup>*\<^sup>*"

lemma new_messages_eq:
  assumes s: "sends msgs s b t" and s': "sends (msgs @ ms) s' b t"
  shows "new_messages s s' = ms"
proof -
  have lms: "length ms \<le> 2 ^ 14" using s s' by (auto simp: sends_def)
  have diff: "ro_last_unacked s' - ro_last_unacked s = of_nat (length ms)"
    using s s' by (simp add: sends_def)
  then have len: "unat (ro_last_unacked s' - ro_last_unacked s) = length ms"
    using lms by (simp add: unat_of_nat_u16)
  have el: "map_find (ro_messages s') (ro_last_unacked s + 1 + of_nat j) = Some (ms ! j)" if "j < length ms" for j
  proof -
    have "ro_last_unacked s + 1 + of_nat j = of_nat (length msgs + j)" "b \<le> length msgs + j"
      using s by (simp_all add: sends_def)
    then show ?thesis
      using s' that unfolding sends_def by (metis length_append nat_add_left_cancel_less nth_append_length_plus)
  qed
  show ?thesis
    by (rule nth_equalityI) (auto simp: new_messages_def len el)
qed

lemma push_new_messages:
  assumes laws: "cdr_laws L hdr sub" and s: "sends msgs s b t"
    and good: "good_payload L hdr sub info stream i data xs (length msgs)"
    and push: "ReliableOutputStream_push_submessage L info stream i data s = Inr (rv, s')"
  shows "sends (msgs @ new_messages s s') s' b t"
proof (cases "length msgs < b + 16")
  case True
  obtain ms s'' where "ReliableOutputStream_push_submessage L info stream i data s = Inr (True, s'')"
    "sends (msgs @ ms) s'' b t"
    using push_ok [OF laws _ s True] good by blast
  then show ?thesis using push new_messages_eq [OF s] by simp
next
  case False
  then have "\<not> window_open s" using sends_window_open [OF s] by simp
  then have "s' = s" using push by (simp add: ReliableOutputStream_push_submessage_def)
  then show ?thesis using s by (simp add: new_messages_def)
qed

section \<open>Invariant of the link\<close>

definition link_at :: "'c link \<Rightarrow> nat \<Rightarrow> nat \<Rightarrow> nat set \<Rightarrow> bool" where
  "link_at l b a R \<longleftrightarrow> sends (lk_pushed l) (lk_out l) b (lk_sent l) \<and>
     receives (\<lambda>n. lk_pushed l ! n) (lk_in l) (length (lk_delivered l), a, R) \<and>
     take (length (lk_delivered l)) (lk_pushed l) = lk_delivered l \<and> b \<le> length (lk_delivered l) \<and>
     R \<subseteq> {..<length (lk_pushed l)} \<and>
     (\<forall>n m. (n, m) \<in> lk_net l \<longrightarrow> n < length (lk_pushed l) \<and> m = lk_pushed l ! n) \<and>
     (\<forall>lo hi. (lo, hi) \<in> lk_beats l \<longrightarrow> lo \<le> length (lk_delivered l)) \<and>
     (\<forall>n. n \<in> lk_acks l \<longrightarrow> n \<le> length (lk_delivered l))"

definition link_inv :: "'c link \<Rightarrow> bool" where
  "link_inv l \<longleftrightarrow> (\<exists>b a R. link_at l b a R)"

lemma receives_cong:
  assumes "receives f s (h, a, R)" "\<And>n. n \<in> R \<Longrightarrow> f n = g n"
  shows "receives g s (h, a, R)"
  using assms by (auto simp: receives_def)

lemma near_number:
  assumes "(of_nat n :: u16) = of_nat k" "near t n" "t \<le> k + 2 ^ 14" "k \<le> t + 2 ^ 14"
  shows "n = k"
  using assms by (intro of_nat_u16_inj) (auto simp: near_def)

lemma link_inv_initially: "link_inv new_link"
  using sends_initially receives_initially [of "\<lambda>n. [] ! n"]
  by (auto simp: link_inv_def link_at_def new_link_def intro!: exI [of _ 0] exI [of _ "{}"])

lemma link_invI: "link_at l b a R \<Longrightarrow> link_inv l"
  by (auto simp: link_inv_def)

lemma link_inv_step:
  assumes laws: "cdr_laws L hdr sub" and inv: "link_inv l" and step: "link_step L hdr sub info stream l l'"
  shows "link_inv l'"
proof -
  define h where "h = length (lk_delivered l)"
  obtain b a R where at: "link_at l b a R"
    using inv by (auto simp: link_inv_def)
  then have s: "sends (lk_pushed l) (lk_out l) b (lk_sent l)"
    and r: "receives (\<lambda>n. lk_pushed l ! n) (lk_in l) (h, a, R)"
    and del: "take h (lk_pushed l) = lk_delivered l" and bh: "b \<le> h"
    and R: "R \<subseteq> {..<length (lk_pushed l)}"
    and net: "\<And>n m. (n, m) \<in> lk_net l \<Longrightarrow> n < length (lk_pushed l) \<and> m = lk_pushed l ! n"
    and beats: "\<And>lo hi. (lo, hi) \<in> lk_beats l \<Longrightarrow> lo \<le> h"
    and acks: "\<And>n. n \<in> lk_acks l \<Longrightarrow> n \<le> h"
    unfolding link_at_def h_def by blast+
  have hu: "h \<le> length (lk_pushed l)"
    using del unfolding h_def by (metis length_take min.cobounded1)
  have win: "b \<le> lk_sent l" "lk_sent l \<le> length (lk_pushed l)" "length (lk_pushed l) \<le> b + 2 ^ 14"
    using s by (simp_all add: sends_def)
  show ?thesis
    using step
  proof cases
    case (push i data xs rv s')
    let ?new = "lk_pushed l @ new_messages (lk_out l) s'"
    show ?thesis
    proof -
      have "sends (lk_pushed l') (lk_out l') b (lk_sent l')"
        using push_new_messages [OF laws s] push by simp
      moreover have "receives (\<lambda>n. ?new ! n) (lk_in l) (h, a, R)"
        by (rule receives_cong [OF r]) (use R in \<open>auto simp: nth_append\<close>)
      moreover have "take h ?new = take h (lk_pushed l)" "R \<subseteq> {..<length ?new}"
        using hu R by (simp_all add: subset_iff trans_less_add1)
      ultimately show ?thesis
        using at push(1) by (intro link_invI [of l' b a R]) (simp add: link_at_def h_def nth_append trans_less_add1)
    qed
  next
    case (send m s')
    then have "lk_sent l < length (lk_pushed l)" "m = lk_pushed l ! lk_sent l" "s' = lk_out l\<lparr>ro_last_sent := of_nat (lk_sent l)\<rparr>"
      using sends_next(1) [OF s] by (auto split: if_splits)
    then show ?thesis
      using send(1) at sends_next(2) [OF s] by (intro link_invI [of l' b a R]) (auto simp: link_at_def)
  next
    case (resend n m)
    then have "n < length (lk_pushed l)" "m = lk_pushed l ! n"
      using sends_get [OF s, of n] bh hu win by (auto simp: near_def h_def split: if_splits)
    then show ?thesis
      using resend(1) at by (intro link_invI [of l' b a R]) (auto simp: link_at_def)
  next
    case lose
    then show ?thesis
      using at by (intro link_invI [of l' b a R]) (auto simp: link_at_def)
  next
    case (receive n m)
    have m: "n < length (lk_pushed l)" "m = lk_pushed l ! n" using net receive(2) by auto
    obtain a' R' where "receives (\<lambda>n. lk_pushed l ! n) (lk_in l') (h, a', R')" "R' \<subseteq> insert n R"
      using push_simulates [OF r, of n] receive m by (auto simp: h_def split: if_splits)
    then show ?thesis
      using receive(1) at m(1) by (intro link_invI [of l' b a' R']) (auto simp: link_at_def h_def)
  next
    case (deliver m r')
    have out: "fst (ReliableInputStream_pop_message (lk_in l)) =
        map_option (\<lambda>n. lk_pushed l ! n) (fst (spec_step Deliver (h, a, R)))"
      using pop_simulates(2) [OF r] .
    then have hR: "h \<in> R" and m: "m = lk_pushed l ! h"
      using deliver(2) by (auto split: if_splits)
    then have hl: "h < length (lk_pushed l)" using R by auto
    have "receives (\<lambda>n. lk_pushed l ! n) r' (Suc h, a, R - {h})"
      using pop_simulates(1) [OF r] deliver(2) hR by simp
    moreover have "take (Suc h) (lk_pushed l) = lk_delivered l @ [m]"
      using del m hl by (simp add: take_Suc_conv_app_nth)
    ultimately show ?thesis
      using at deliver(1)
      by (intro link_invI [of l' b a "R - {h}"]) (auto simp: link_at_def h_def intro: le_SucI)
  next
    case (heartbeat hb hb' lo hi)
    then have "(of_nat lo :: u16) = of_nat b"
      using sends_heartbeat [OF s, of hb] by auto
    then have "lo = b"
      using heartbeat(5) win by (intro near_number [of lo b "lk_sent l"]) auto
    then show ?thesis
      using heartbeat(1) at bh by (intro link_invI [of l' b a R]) (auto simp: link_at_def h_def)
  next
    case (hear_heartbeat lo hi)
    then have "timely_event (Heartbeat lo hi) (h, a, R)"
      using beats by (auto simp: h_def)
    then have "receives (\<lambda>n. lk_pushed l ! n) (lk_in l') (h, max a (hi + 1), R)"
      using heartbeat_simulates [OF r] hear_heartbeat(1) by simp
    then show ?thesis
      using hear_heartbeat(1) at by (intro link_invI [of l' b "max a (hi + 1)" R]) (simp add: link_at_def h_def)
  next
    case (acknack n an)
    then have "(of_nat n :: u16) = of_nat h"
      using r by (simp add: ReliableInputStream_fill_acknack_def receives_def)
    then have "n = h"
      using near_number [of n h h] acknack(3) by (simp add: h_def)
    then show ?thesis
      using acknack(1) at by (intro link_invI [of l' b a R]) (auto simp: link_at_def h_def)
  next
    case (hear_acknack n)
    have n: "n \<le> h" "near b n"
      using acks [OF hear_acknack(2)] hear_acknack(3) bh hu win by (auto simp: near_def)
    then have "sends (lk_pushed l) (lk_out l') (if n \<le> lk_sent l then max b n else b) (lk_sent l)"
      using sends_acknack [OF s] hear_acknack(1) by simp
    then show ?thesis
      using hear_acknack(1) at bh n by (intro link_invI [of l' "if n \<le> lk_sent l then max b n else b" a R]) (simp add: link_at_def h_def)
  qed
qed

lemma link_inv_steps:
  assumes laws: "cdr_laws L hdr sub" and "link_steps L hdr sub info stream l l'" "link_inv l"
  shows "link_inv l'"
  using assms(2,3) by (induction rule: rtranclp_induct) (auto intro: link_inv_step [OF laws])

text \<open>C2: the reliable protocol is safe.  Whatever the network loses, repeats or reorders, in every
  state that the link reaches the messages handed over to the receiver are the first messages
  that were pushed, in order, each once; the sender never looks up a message that is not there
  (get_next_message never throws); and the receiver holds at most 16 messages.\<close>

theorem reliable_link_safety:
  assumes "cdr_laws L hdr sub" "link_steps L hdr sub info stream new_link l"
  shows "lk_delivered l = take (length (lk_delivered l)) (lk_pushed l) \<and>
    (\<exists>r. ReliableOutputStream_get_next_message (lk_out l) = Inr r) \<and> length (ri_messages (lk_in l)) \<le> 16"
proof -
  obtain b a R where "link_at l b a R"
    using link_inv_steps [OF assms link_inv_initially] by (auto simp: link_inv_def)
  then have "sends (lk_pushed l) (lk_out l) b (lk_sent l)"
    "receives (\<lambda>n. lk_pushed l ! n) (lk_in l) (length (lk_delivered l), a, R)"
    "take (length (lk_delivered l)) (lk_pushed l) = lk_delivered l"
    by (simp_all add: link_at_def)
  then show ?thesis
    using sends_next(1) receives_bound by (metis (no_types, lifting))
qed

lemma link_progress:
  assumes at: "link_at l b a R" and more: "length (lk_delivered l) < length (lk_pushed l)"
  shows "\<exists>l'. link_steps L hdr sub info stream l l' \<and> lk_pushed l' = lk_pushed l \<and>
    length (lk_delivered l') = Suc (length (lk_delivered l))"
proof -
  define h where "h = length (lk_delivered l)"
  let ?f = "\<lambda>n. lk_pushed l ! n"
  have s: "sends (lk_pushed l) (lk_out l) b (lk_sent l)" and r: "receives ?f (lk_in l) (h, a, R)" and bh: "b \<le> h"
    using at by (simp_all add: link_at_def h_def)
  have step: "link_step L hdr sub info stream l' (l'\<lparr>lk_in := r'', lk_delivered := lk_delivered l' @ [m]\<rparr>)"
    if "receives ?f (lk_in l') (h, a', R')" "h \<in> R'" "ReliableInputStream_pop_message (lk_in l') = (Some m, r'')"
    for l' :: "'a link" and a' R' m r''
    using that by (intro link_step.deliver)
  have pop: "\<exists>r''. ReliableInputStream_pop_message (lk_in l') = (Some (?f h), r'')"
    if "receives ?f (lk_in l') (h, a', R')" "h \<in> R'" for l' :: "'a link" and a' R'
    using pop_simulates(2) [OF that(1)] that(2) by (metis (no_types, lifting) fst_conv option.map(2) prod.collapse spec_step.simps(2))
  show ?thesis
  proof (cases "h \<in> R")
    case True
    then obtain r'' where "ReliableInputStream_pop_message (lk_in l) = (Some (?f h), r'')"
      using pop [OF r] by blast
    then have "link_steps L hdr sub info stream l (l\<lparr>lk_in := r'', lk_delivered := lk_delivered l @ [?f h]\<rparr>)"
      using step [OF r True] by blast
    then show ?thesis
      by (intro exI [of _ "l\<lparr>lk_in := r'', lk_delivered := lk_delivered l @ [?f h]\<rparr>"]) simp
  next
    case False
    define l1 where "l1 = l\<lparr>lk_net := insert (h, ?f h) (lk_net l)\<rparr>"
    define l2 where "l2 = l1\<lparr>lk_in := snd (ReliableInputStream_push_message (of_nat h) (?f h) (lk_in l1))\<rparr>"
    have near: "near h h" by (simp add: near_def)
    have win: "length (lk_pushed l) \<le> b + 2 ^ 14"
      using s by (simp add: sends_def)
    have "ReliableOutputStream_get_message (of_nat h) (lk_out l) = Some (?f h)"
      using sends_get [OF s, of h] bh win more by (simp add: h_def)
    then have 1: "link_step L hdr sub info stream l l1"
      unfolding l1_def using near by (intro link_step.resend) (simp_all add: h_def)
    have 2: "link_step L hdr sub info stream l1 l2"
      unfolding l2_def using near by (intro link_step.receive) (simp_all add: l1_def h_def)
    have r2: "receives ?f (lk_in l2) (h, max a (h + 1), insert h R)"
      using push_simulates [OF r near] False by (simp add: l1_def l2_def)
    then obtain r'' where "ReliableInputStream_pop_message (lk_in l2) = (Some (?f h), r'')"
      using pop by blast
    then have 3: "link_step L hdr sub info stream l2 (l2\<lparr>lk_in := r'', lk_delivered := lk_delivered l2 @ [?f h]\<rparr>)"
      using step [OF r2] by blast
    have "link_steps L hdr sub info stream l (l2\<lparr>lk_in := r'', lk_delivered := lk_delivered l2 @ [?f h]\<rparr>)"
      using 1 2 3 by (meson converse_rtranclp_into_rtranclp r_into_rtranclp)
    then show ?thesis
      by (intro exI [of _ "l2\<lparr>lk_in := r'', lk_delivered := lk_delivered l2 @ [?f h]\<rparr>"]) (simp add: l1_def l2_def)
  qed
qed

text \<open>C11: the reliable protocol can always make progress.  From every state that the link reaches
  there is a way for it to go on, without a new push, to a state in which everything pushed
  so far has been delivered; no loss, repetition or reordering leaves it stuck.\<close>

theorem reliable_link_progress:
  assumes laws: "cdr_laws L hdr sub" and reach: "link_steps L hdr sub info stream new_link l"
  shows "\<exists>l'. link_steps L hdr sub info stream l l' \<and> lk_pushed l' = lk_pushed l \<and> lk_delivered l' = lk_pushed l"
proof -
  have "link_inv l"
    using link_inv_steps [OF laws reach link_inv_initially] .
  then show ?thesis
  proof (induction "length (lk_pushed l) - length (lk_delivered l)" arbitrary: l)
    case 0
    then have "lk_delivered l = lk_pushed l"
      by (auto simp: link_inv_def link_at_def)
    then show ?case by blast
  next
    case (Suc k)
    then obtain b a R where "link_at l b a R" by (auto simp: link_inv_def)
    then obtain l1 where l1: "link_steps L hdr sub info stream l l1" "lk_pushed l1 = lk_pushed l"
      "length (lk_delivered l1) = Suc (length (lk_delivered l))"
      using link_progress Suc.hyps(2) by (metis zero_less_Suc zero_less_diff)
    have "k = length (lk_pushed l1) - length (lk_delivered l1)"
      using Suc.hyps(2) l1 by simp
    from Suc.hyps(1) [OF this link_inv_steps [OF laws l1(1) Suc.prems]] l1 show ?case
      by (metis rtranclp_trans)
  qed
qed

lemma sim_link_push:
  obtains l where "link_step sim_cdr sim_hdr sim_sub sim_info 0x80 new_link l" "length (lk_pushed l) = 1"
    "lk_delivered l = []"
proof -
  have fits: "fits_mtu sim_cdr sim_hdr sim_info 0x80 [7]"
    using sim_mtu by (simp add: fits_mtu_def sim_info_def)
  then have good: "good_payload sim_cdr sim_hdr sim_sub sim_info 0x80 5 (sim_payload [7]) [7] 0"
    using sim_payload_bytes by (simp add: wire_def Let_def)
  obtain ms s where ms: "ReliableOutputStream_push_submessage sim_cdr sim_info 0x80 5 (sim_payload [7])
      new_ReliableOutputStream = Inr (True, s)" "sends ([] @ ms) s 0 0"
    "map (om_get_buf sim_cdr) ms = wire sim_cdr sim_hdr sim_sub sim_info 0x80 5 [7] (length [])"
    using push_ok [OF sim_cdr_laws sim_payload_bytes sends_initially, where xs = "[7]" and info = sim_info
        and stream = "0x80" and i = "5"] good fits
    by auto
  have "length ms = 1"
    using arg_cong [OF ms(3), of length] fits by (simp add: wire_def Let_def)
  moreover have "new_messages new_ReliableOutputStream s = ms"
    using new_messages_eq [OF sends_initially ms(2)] .
  moreover have "link_step sim_cdr sim_hdr sim_sub sim_info 0x80 new_link
      (new_link\<lparr>lk_out := s, lk_pushed := lk_pushed new_link @ new_messages (lk_out new_link) s\<rparr>)"
    by (rule link_step.push [where data = "sim_payload [7]" and xs = "[7]" and i = "5" and rv = True])
      (use good ms(1) in \<open>simp_all add: new_link_def\<close>)
  ultimately show ?thesis
    using that by (simp add: new_link_def)
qed

lemma reliable_link_progress_witness:
  "\<exists>l'. link_steps sim_cdr sim_hdr sim_sub sim_info 0x80 new_link l' \<and> length (lk_delivered l') = 1 \<and>
     lk_delivered l' = lk_pushed l'"
proof -
  obtain l where l: "link_step sim_cdr sim_hdr sim_sub sim_info 0x80 new_link l" "length (lk_pushed l) = 1"
    by (rule sim_link_push)
  then have "link_steps sim_cdr sim_hdr sim_sub sim_info 0x80 new_link l" by blast
  moreover from this obtain l' where "link_steps sim_cdr sim_hdr sim_sub sim_info 0x80 l l'"
    "lk_pushed l' = lk_pushed l" "lk_delivered l' = lk_pushed l"
    using reliable_link_progress [OF sim_cdr_laws] by blast
  ultimately show ?thesis
    using l(2) by (intro exI [of _ l']) auto
qed

lemma reliable_link_safety_witness:
  "\<exists>l. link_steps sim_cdr sim_hdr sim_sub sim_info 0x80 new_link l \<and> length (lk_pushed l) = 1 \<and>
     (\<exists>r. ReliableOutputStream_get_next_message (lk_out l) = Inr r)"
proof -
  obtain l where l: "link_step sim_cdr sim_hdr sim_sub sim_info 0x80 new_link l" "length (lk_pushed l) = 1"
    by (rule sim_link_push)
  then have "link_steps sim_cdr sim_hdr sim_sub sim_info 0x80 new_link l" by blast
  from reliable_link_safety [OF sim_cdr_laws this] this l(2) show ?thesis
    by blast
qed

end
