(* ===== verification/Session.thy ===== *)
theory Session
  imports OutputStream
begin

text \<open>
  client/session/Session.hpp: the streams of a client.  A session keeps one None stream and
  a table of best-effort and of reliable streams in each direction; an operation picks the
  stream by its identifier, and a stream that is named for the first time is made by
  operator[] of the table.  Each table has its mutex, so an operation is one step; the lock
  of the table of reliable output streams is the subject of SharedMutex.
  push_output_submessage may wait inside the stream for room in the window: as in
  OutputStream, its argument is the state at the end of the wait.
\<close>

definition is_none_stream :: "StreamId \<Rightarrow> bool" where
  "is_none_stream stream_id \<longleftrightarrow> STREAMID_NONE = stream_id"

definition is_besteffort_stream :: "StreamId \<Rightarrow> bool" where
  "is_besteffort_stream stream_id \<longleftrightarrow> STREAMID_BUILTIN_RELIABLE > stream_id \<and> STREAMID_NONE \<noteq> stream_id"

definition is_reliable_stream :: "StreamId \<Rightarrow> bool" where
  "is_reliable_stream stream_id \<longleftrightarrow> STREAMID_BUILTIN_RELIABLE \<le> stream_id"

lemma stream_kinds:
  "is_reliable_stream i \<longleftrightarrow> \<not> is_none_stream i \<and> \<not> is_besteffort_stream i"
  by (auto simp: is_none_stream_def is_besteffort_stream_def is_reliable_stream_def xrce_consts)

record 'c Session =
  session_info :: SessionInfo
  none_istream :: "'c InputMessage NoneInputStream"
  best_effort_istreams :: "(StreamId \<times> 'c InputMessage BestEffortInputStream) list"
  reliable_istreams :: "(StreamId \<times> 'c InputMessage ReliableInputStream) list"
  none_ostream :: "'c NoneOutputStream"
  best_effort_ostreams :: "(StreamId \<times> 'c BestEffortOutputStream) list"
  reliable_ostreams :: "(StreamId \<times> 'c ReliableOutputStream) list"

definition new_Session :: "SessionInfo \<Rightarrow> 'c Session" where
  "new_Session info = \<lparr>session_info = info, none_istream = new_NoneInputStream,
     best_effort_istreams = [], reliable_istreams = [], none_ostream = new_NoneOutputStream,
     best_effort_ostreams = [], reliable_ostreams = []\<rparr>"

definition Session_reset :: "'c Session \<Rightarrow> 'c Session" where
  "Session_reset s = s\<lparr>
     best_effort_istreams := map_values BestEffortInputStream_reset (best_effort_istreams s),
     reliable_istreams := map_values ReliableInputStream_reset (reliable_istreams s),
     none_ostream := NoneOutputStream_reset (none_ostream s),
     best_effort_ostreams := map_values BestEffortOutputStream_reset (best_effort_ostreams s),
     reliable_ostreams := map_values ReliableOutputStream_reset (reliable_ostreams s)\<rparr>"

section \<open>Input streams\<close>

text \<open>operator[] of the tables, and the table with the changed stream.\<close>

abbreviation best_effort_in_at :: "'c Session \<Rightarrow> StreamId \<Rightarrow> 'c InputMessage BestEffortInputStream" where
  "best_effort_in_at s \<equiv> map_index new_BestEffortInputStream (best_effort_istreams s)"

abbreviation reliable_in_at :: "'c Session \<Rightarrow> StreamId \<Rightarrow> 'c InputMessage ReliableInputStream" where
  "reliable_in_at s \<equiv> map_index new_ReliableInputStream (reliable_istreams s)"

abbreviation best_effort_out_at :: "'c Session \<Rightarrow> StreamId \<Rightarrow> 'c BestEffortOutputStream" where
  "best_effort_out_at s \<equiv> map_index new_BestEffortOutputStream (best_effort_ostreams s)"

abbreviation reliable_out_at :: "'c Session \<Rightarrow> StreamId \<Rightarrow> 'c ReliableOutputStream" where
  "reliable_out_at s \<equiv> map_index new_ReliableOutputStream (reliable_ostreams s)"

definition Session_push_input_message :: "'c InputMessage \<Rightarrow> StreamId \<Rightarrow> SequenceNr \<Rightarrow> 'c Session \<Rightarrow> bool \<times> 'c Session" where
  "Session_push_input_message message stream_id sequence_nr s =
     (if is_none_stream stream_id then
        let (rv, t) = NoneInputStream_push_message message (none_istream s)
        in (rv, s\<lparr>none_istream := t\<rparr>)
      else if is_besteffort_stream stream_id then
        let (rv, t) = BestEffortInputStream_push_message sequence_nr message (best_effort_in_at s stream_id)
        in (rv, s\<lparr>best_effort_istreams := map_put stream_id t (best_effort_istreams s)\<rparr>)
      else
        let (rv, t) = ReliableInputStream_push_message sequence_nr message (reliable_in_at s stream_id)
        in (rv, s\<lparr>reliable_istreams := map_put stream_id t (reliable_istreams s)\<rparr>))"

definition Session_pop_input_message :: "StreamId \<Rightarrow> 'c Session \<Rightarrow> 'c InputMessage option \<times> 'c Session" where
  "Session_pop_input_message stream_id s =
     (if is_none_stream stream_id then
        let (message, t) = NoneInputStream_pop_message (none_istream s)
        in (message, s\<lparr>none_istream := t\<rparr>)
      else if is_besteffort_stream stream_id then
        let (message, t) = BestEffortInputStream_pop_message (best_effort_in_at s stream_id)
        in (message, s\<lparr>best_effort_istreams := map_put stream_id t (best_effort_istreams s)\<rparr>)
      else
        let (message, t) = ReliableInputStream_pop_message (reliable_in_at s stream_id)
        in (message, s\<lparr>reliable_istreams := map_put stream_id t (reliable_istreams s)\<rparr>))"

definition Session_update_from_heartbeat :: "StreamId \<Rightarrow> SeqNum \<Rightarrow> SeqNum \<Rightarrow> 'c Session \<Rightarrow> 'c Session" where
  "Session_update_from_heartbeat stream_id first_unacked last_unacked s =
     (if is_reliable_stream stream_id then
        s\<lparr>reliable_istreams := map_put stream_id
            (ReliableInputStream_update_from_heartbeat first_unacked last_unacked (reliable_in_at s stream_id))
            (reliable_istreams s)\<rparr>
      else s)"

definition Session_fill_acknack :: "StreamId \<Rightarrow> ACKNACK_Payload \<Rightarrow> 'c Session \<Rightarrow> ACKNACK_Payload \<times> 'c Session" where
  "Session_fill_acknack stream_id acknack s =
     (if is_reliable_stream stream_id then
        (ReliableInputStream_fill_acknack (reliable_in_at s stream_id) acknack,
         s\<lparr>reliable_istreams := map_put stream_id (reliable_in_at s stream_id) (reliable_istreams s)\<rparr>)
      else (acknack, s))"

definition Session_push_input_fragment :: "'c cdr_lib \<Rightarrow> StreamId \<Rightarrow> 'c InputMessage \<Rightarrow> 'c Session \<Rightarrow>
    ('c InputMessage \<times> 'c Session) res" where
  "Session_push_input_fragment L stream_id message s =
     (if is_reliable_stream stream_id then
        bind_res (ReliableInputStream_push_fragment L message (reliable_in_at s stream_id)) (\<lambda>(message, t).
          Inr (message, s\<lparr>reliable_istreams := map_put stream_id t (reliable_istreams s)\<rparr>))
      else Inr (message, s))"

text \<open>Unlike its counterpart, this one does not look at the kind of the stream.\<close>

definition Session_pop_input_fragment_message :: "'c cdr_lib \<Rightarrow> StreamId \<Rightarrow> 'c Session \<Rightarrow>
    ('c InputMessage option \<times> 'c Session) res" where
  "Session_pop_input_fragment_message L stream_id s =
     bind_res (ReliableInputStream_pop_fragment_message L (reliable_in_at s stream_id)) (\<lambda>(message, t).
       Inr (message, s\<lparr>reliable_istreams := map_put stream_id t (reliable_istreams s)\<rparr>))"

section \<open>Output streams\<close>

text \<open>A vector of as many zeros as there are streams, and then the streams.\<close>

definition Session_get_output_streams :: "'c Session \<Rightarrow> u8 list" where
  "Session_get_output_streams s =
     replicate (length (reliable_ostreams s)) 0 @ map fst (reliable_ostreams s)"

definition get_reliable_output_stream :: "StreamId \<Rightarrow> 'c Session \<Rightarrow> 'c ReliableOutputStream \<times> 'c Session" where
  "get_reliable_output_stream stream_id s =
     (case map_find (reliable_ostreams s) stream_id of
        Some t \<Rightarrow> (t, s)
      | None \<Rightarrow> (reliable_out_at s stream_id,
          s\<lparr>reliable_ostreams := map_put stream_id (reliable_out_at s stream_id) (reliable_ostreams s)\<rparr>))"

text \<open>The reference that it returns, written back.\<close>

definition put_reliable_output_stream :: "StreamId \<Rightarrow> 'c ReliableOutputStream \<Rightarrow> 'c Session \<Rightarrow> 'c Session" where
  "put_reliable_output_stream stream_id t s = s\<lparr>reliable_ostreams := map_put stream_id t (reliable_ostreams s)\<rparr>"

definition Session_push_output_submessage :: "'c cdr_lib \<Rightarrow> StreamId \<Rightarrow> SubmessageId \<Rightarrow> 'c payload \<Rightarrow> 'c Session \<Rightarrow>
    (bool \<times> 'c Session) res" where
  "Session_push_output_submessage L stream_id submessage_id submessage s =
     (if is_none_stream stream_id then
        let (rv, t) = NoneOutputStream_push_submessage L (session_info s) submessage_id submessage (none_ostream s)
        in Inr (rv, s\<lparr>none_ostream := t\<rparr>)
      else if is_besteffort_stream stream_id then
        let (rv, t) = BestEffortOutputStream_push_submessage L (session_info s) stream_id submessage_id submessage
              (best_effort_out_at s stream_id)
        in Inr (rv, s\<lparr>best_effort_ostreams := map_put stream_id t (best_effort_ostreams s)\<rparr>)
      else
        let (t, s) = get_reliable_output_stream stream_id s
        in bind_res (ReliableOutputStream_push_submessage L (session_info s) stream_id submessage_id submessage t)
             (\<lambda>(rv, t). Inr (rv, put_reliable_output_stream stream_id t s)))"

definition Session_get_next_output_message :: "StreamId \<Rightarrow> 'c Session \<Rightarrow> ('c OutputMessage option \<times> 'c Session) res" where
  "Session_get_next_output_message stream_id s =
     (if is_none_stream stream_id then
        let (message, t) = NoneOutputStream_pop_message (none_ostream s)
        in Inr (message, s\<lparr>none_ostream := t\<rparr>)
      else if is_besteffort_stream stream_id then
        let (message, t) = BestEffortOutputStream_pop_message (best_effort_out_at s stream_id)
        in Inr (message, s\<lparr>best_effort_ostreams := map_put stream_id t (best_effort_ostreams s)\<rparr>)
      else
        let (t, s) = get_reliable_output_stream stream_id s
        in bind_res (ReliableOutputStream_get_next_message t)
             (\<lambda>(message, t). Inr (message, put_reliable_output_stream stream_id t s)))"

definition Session_get_output_message :: "StreamId \<Rightarrow> SeqNum \<Rightarrow> 'c Session \<Rightarrow> 'c OutputMessage option \<times> 'c Session" where
  "Session_get_output_message stream_id seq_num s =
     (if is_reliable_stream stream_id then
        let (t, s) = get_reliable_output_stream stream_id s
        in (ReliableOutputStream_get_message seq_num t, s)
      else (None, s))"

definition Session_update_from_acknack :: "StreamId \<Rightarrow> SeqNum \<Rightarrow> 'c Session \<Rightarrow> 'c Session" where
  "Session_update_from_acknack stream_id first_unacked s =
     (if is_reliable_stream stream_id then
        let (t, s) = get_reliable_output_stream stream_id s
        in put_reliable_output_stream stream_id (ReliableOutputStream_update_from_acknack first_unacked t) s
      else s)"

definition Session_fill_heartbeat :: "StreamId \<Rightarrow> HEARTBEAT_Payload \<Rightarrow> 'c Session \<Rightarrow>
    (bool \<times> HEARTBEAT_Payload) \<times> 'c Session" where
  "Session_fill_heartbeat stream_id heartbeat s =
     (if is_reliable_stream stream_id then
        let (t, s) = get_reliable_output_stream stream_id s;
            (rv, heartbeat) = ReliableOutputStream_fill_heartbeat t heartbeat
        in ((rv, heartbeat\<lparr>hb_stream_id := stream_id\<rparr>), s)
      else ((False, heartbeat), s))"

section \<open>Runs of a session\<close>

datatype 'c session_op =
    Push_Input StreamId SequenceNr "'c InputMessage"
  | Pop_Input StreamId
  | From_Heartbeat StreamId SeqNum SeqNum
  | Fill_Acknack StreamId ACKNACK_Payload
  | Push_Fragment StreamId "'c InputMessage"
  | Pop_Fragment StreamId
  | Push_Output StreamId SubmessageId "'c payload"
  | Next_Output StreamId
  | Get_Output StreamId SeqNum
  | From_Acknack StreamId SeqNum
  | Fill_Heartbeat StreamId HEARTBEAT_Payload
  | Reset_Session

datatype 'c session_result =
    Nothing
  | Answer bool
  | Input "'c InputMessage option"
  | Output "'c OutputMessage option"
  | Acknack ACKNACK_Payload
  | Heartbeat_Answer bool HEARTBEAT_Payload

text \<open>The stream that an operation names; a reset is about all of them.\<close>

fun op_stream :: "'c session_op \<Rightarrow> StreamId option" where
  "op_stream (Push_Input i n m) = Some i"
| "op_stream (Pop_Input i) = Some i"
| "op_stream (From_Heartbeat i a b) = Some i"
| "op_stream (Fill_Acknack i an) = Some i"
| "op_stream (Push_Fragment i m) = Some i"
| "op_stream (Pop_Fragment i) = Some i"
| "op_stream (Push_Output i k d) = Some i"
| "op_stream (Next_Output i) = Some i"
| "op_stream (Get_Output i n) = Some i"
| "op_stream (From_Acknack i a) = Some i"
| "op_stream (Fill_Heartbeat i hb) = Some i"
| "op_stream Reset_Session = None"

fun session_step :: "'c cdr_lib \<Rightarrow> 'c session_op \<Rightarrow> 'c Session \<Rightarrow> ('c session_result \<times> 'c Session) res" where
  "session_step L (Push_Input i n m) s = (let (r, s) = Session_push_input_message m i n s in Inr (Answer r, s))"
| "session_step L (Pop_Input i) s = (let (r, s) = Session_pop_input_message i s in Inr (Input r, s))"
| "session_step L (From_Heartbeat i a b) s = Inr (Nothing, Session_update_from_heartbeat i a b s)"
| "session_step L (Fill_Acknack i an) s = (let (r, s) = Session_fill_acknack i an s in Inr (Acknack r, s))"
| "session_step L (Push_Fragment i m) s =
     bind_res (Session_push_input_fragment L i m s) (\<lambda>(m, s). Inr (Input (Some m), s))"
| "session_step L (Pop_Fragment i) s =
     bind_res (Session_pop_input_fragment_message L i s) (\<lambda>(m, s). Inr (Input m, s))"
| "session_step L (Push_Output i k d) s =
     bind_res (Session_push_output_submessage L i k d s) (\<lambda>(r, s). Inr (Answer r, s))"
| "session_step L (Next_Output i) s =
     bind_res (Session_get_next_output_message i s) (\<lambda>(r, s). Inr (Output r, s))"
| "session_step L (Get_Output i n) s = (let (r, s) = Session_get_output_message i n s in Inr (Output r, s))"
| "session_step L (From_Acknack i a) s = Inr (Nothing, Session_update_from_acknack i a s)"
| "session_step L (Fill_Heartbeat i hb) s =
     (let ((r, hb), s) = Session_fill_heartbeat i hb s in Inr (Heartbeat_Answer r hb, s))"
| "session_step L Reset_Session s = Inr (Nothing, Session_reset s)"

text \<open>A run gives the results, each with the stream of its operation.\<close>

fun session_run :: "'c cdr_lib \<Rightarrow> 'c session_op list \<Rightarrow> 'c Session \<Rightarrow>
    ((StreamId option \<times> 'c session_result) list \<times> 'c Session) res" where
  "session_run L [] s = Inr ([], s)"
| "session_run L (x # xs) s =
     bind_res (session_step L x s) (\<lambda>(r, s).
       bind_res (session_run L xs s) (\<lambda>(rs, s). Inr ((op_stream x, r) # rs, s)))"

definition concerns :: "StreamId \<Rightarrow> StreamId option \<Rightarrow> bool" where
  "concerns i k = (case k of None \<Rightarrow> True | Some j \<Rightarrow> i = j)"

text \<open>What a session knows of one stream.\<close>

definition session_view :: "'c Session \<Rightarrow> StreamId \<Rightarrow>
    SessionInfo \<times> ('c InputMessage NoneInputStream \<times> 'c NoneOutputStream) option \<times>
    'c InputMessage BestEffortInputStream \<times> 'c InputMessage ReliableInputStream \<times>
    'c BestEffortOutputStream \<times> 'c ReliableOutputStream" where
  "session_view s i = (session_info s,
     if is_none_stream i then Some (none_istream s, none_ostream s) else None,
     best_effort_in_at s i, reliable_in_at s i, best_effort_out_at s i, reliable_out_at s i)"

lemmas session_input_defs = Session_push_input_message_def Session_pop_input_message_def
  Session_update_from_heartbeat_def Session_fill_acknack_def Session_push_input_fragment_def
  Session_pop_input_fragment_message_def

lemmas stream_reset_defs = NoneOutputStream_reset_def BestEffortInputStream_reset_def
  ReliableInputStream_reset_def BestEffortOutputStream_reset_def ReliableOutputStream_reset_def
  new_BestEffortInputStream_def new_ReliableInputStream_def new_BestEffortOutputStream_def
  new_ReliableOutputStream_def

lemmas session_output_defs = Session_push_output_submessage_def Session_get_next_output_message_def
  Session_get_output_message_def Session_update_from_acknack_def Session_fill_heartbeat_def
  put_reliable_output_stream_def

lemma get_reliable:
  "get_reliable_output_stream i s = (reliable_out_at s i, snd (get_reliable_output_stream i s))"
  by (simp add: get_reliable_output_stream_def map_index_def split: option.split)

lemma get_reliable_view [simp]: "session_view (snd (get_reliable_output_stream i s)) = session_view s"
  by (auto simp: get_reliable_output_stream_def session_view_def fun_eq_iff split: option.split)

lemma get_reliable_fields [simp]:
  "session_info (snd (get_reliable_output_stream i s)) = session_info s"
  "none_istream (snd (get_reliable_output_stream i s)) = none_istream s"
  "best_effort_istreams (snd (get_reliable_output_stream i s)) = best_effort_istreams s"
  "reliable_istreams (snd (get_reliable_output_stream i s)) = reliable_istreams s"
  "none_ostream (snd (get_reliable_output_stream i s)) = none_ostream s"
  "best_effort_ostreams (snd (get_reliable_output_stream i s)) = best_effort_ostreams s"
  "reliable_out_at (snd (get_reliable_output_stream i s)) j = reliable_out_at s j"
  by (auto simp: get_reliable_output_stream_def split: option.split)

lemma session_step_other:
  assumes "session_step L x s = Inr (r, t)" "\<not> concerns i (op_stream x)"
  shows "session_view t i = session_view s i"
  using assms
  by (cases x)
    (auto simp: session_input_defs session_output_defs get_reliable_output_stream_def session_view_def
      concerns_def is_none_stream_def Let_def split: if_splits prod.splits option.splits)

lemma session_reset_view:
  "session_view (Session_reset s) i = (case session_view s i of (info, none, bi, ri, bo, ro) \<Rightarrow>
     (info, map_option (map_prod id NoneOutputStream_reset) none, BestEffortInputStream_reset bi,
      ReliableInputStream_reset ri, BestEffortOutputStream_reset bo, ReliableOutputStream_reset ro))"
  by (simp add: session_view_def Session_reset_def map_index_def stream_reset_defs split: option.split)

lemma session_view_eq:
  "session_view s i = session_view s' i \<longleftrightarrow> session_info s = session_info s' \<and>
     (is_none_stream i \<longrightarrow> none_istream s = none_istream s' \<and> none_ostream s = none_ostream s') \<and>
     best_effort_in_at s i = best_effort_in_at s' i \<and> reliable_in_at s i = reliable_in_at s' i \<and>
     best_effort_out_at s i = best_effort_out_at s' i \<and> reliable_out_at s i = reliable_out_at s' i"
  by (auto simp: session_view_def)

lemma get_reliable_let:
  "(let (t, u) = get_reliable_output_stream i s in F t u) =
     F (reliable_out_at s i) (snd (get_reliable_output_stream i s))"
  by (subst get_reliable) simp

lemma session_input_step_view:
  assumes "session_step L x s = Inr (r, t)" "session_view s i = session_view s' i"
    "x \<in> {Push_Input i n m, Pop_Input i, From_Heartbeat i a b, Fill_Acknack i an, Push_Fragment i m, Pop_Fragment i}"
  shows "\<exists>t'. session_step L x s' = Inr (r, t') \<and> session_view t' i = session_view t i"
  using assms unfolding session_view_eq session_input_defs
  by (elim insertE emptyE) (auto simp: session_input_defs Let_def split: if_splits prod.splits)

lemma session_output_step_view:
  assumes "session_step L x s = Inr (r, t)" "session_view s i = session_view s' i"
    "x \<in> {Push_Output i k d, Next_Output i, Get_Output i n, From_Acknack i a, Fill_Heartbeat i hb}"
  shows "\<exists>t'. session_step L x s' = Inr (r, t') \<and> session_view t' i = session_view t i"
  using assms
  by (elim insertE emptyE)
   (auto simp: session_view_eq session_output_defs get_reliable_let put_reliable_output_stream_def
    split: if_splits prod.splits)

lemma session_step_view:
  assumes "session_step L x s = Inr (r, t)" "session_view s i = session_view s' i" "concerns i (op_stream x)"
  shows "\<exists>t'. session_step L x s' = Inr (r, t') \<and> session_view t' i = session_view t i"
proof (cases "x = Reset_Session")
  case True
  then show ?thesis using assms by (auto simp: session_reset_view)
next
  case False
  then show ?thesis
    using session_input_step_view [OF assms(1,2)] session_output_step_view [OF assms(1,2)] assms(3)
    by (cases x) (auto simp: concerns_def)
qed

text \<open>C6: the streams of a session do not touch each other.  In any run of a session that
  returns, what stream i answers, and what is left of it, is what the operations on stream i
  alone (and the resets of the session) give: no operation on another stream, of any kind
  and direction, can be seen in it.
\<close>
theorem session_streams_isolated:
  assumes "session_run L ops s = Inr (rs, t)"
  shows "\<exists>t'. session_run L (filter (\<lambda>x. concerns i (op_stream x)) ops) s =
      Inr (filter (\<lambda>(k, r). concerns i k) rs, t') \<and> session_view t' i = session_view t i"
proof -
  have "\<exists>t'. session_run L (filter (\<lambda>x. concerns i (op_stream x)) ops) s' =
      Inr (filter (\<lambda>(k, r). concerns i k) rs, t') \<and> session_view t' i = session_view t i"
    if "session_view s i = session_view s' i" for s'
    using assms that
  proof (induction ops arbitrary: s s' rs)
    case (Cons x ops)
    obtain r u qs where x: "session_step L x s = Inr (r, u)" "session_run L ops u = Inr (qs, t)"
      "rs = (op_stream x, r) # qs"
      using Cons.prems(1) by (auto simp: bind_res_eq_Inr)
    show ?case
    proof (cases "concerns i (op_stream x)")
      case True
      obtain u' where "session_step L x s' = Inr (r, u')" "session_view u i = session_view u' i"
        using session_step_view [OF x(1) Cons.prems(2) True] by auto
      then show ?thesis
        using Cons.IH [OF x(2), of u'] True x(3) by auto
    next
      case False
      then show ?thesis
        using Cons.IH [OF x(2), of s'] session_step_other [OF x(1) False] Cons.prems(2) x(3) by simp
    qed
  qed simp
  then show ?thesis by blast
qed

section \<open>Well-formed sessions\<close>

text \<open>
  The tables have one entry for a stream, the best-effort tables hold only best-effort
  streams, the table of reliable output streams only reliable ones, and no queue is longer
  than its bound.  The table of reliable input streams is left out of the second part:
  pop_input_fragment_message adds a stream of any identifier to it.
\<close>

definition session_ok :: "'c Session \<Rightarrow> bool" where
  "session_ok s \<longleftrightarrow>
     map_ok (best_effort_istreams s) \<and> map_ok (reliable_istreams s) \<and>
     map_ok (best_effort_ostreams s) \<and> map_ok (reliable_ostreams s) \<and>
     length (ni_messages (none_istream s)) \<le> BEST_EFFORT_STREAM_DEPTH \<and>
     length (no_messages (none_ostream s)) \<le> BEST_EFFORT_STREAM_DEPTH \<and>
     map_all (\<lambda>i t. is_besteffort_stream i \<and> length (bi_messages t) \<le> BEST_EFFORT_STREAM_DEPTH) (best_effort_istreams s) \<and>
     map_all (\<lambda>i t. is_besteffort_stream i \<and> length (bo_messages t) \<le> BEST_EFFORT_STREAM_DEPTH) (best_effort_ostreams s) \<and>
     map_all (\<lambda>i t. is_reliable_stream i) (reliable_ostreams s)"

lemma session_ok_new: "session_ok (new_Session info)"
  by (simp add: session_ok_def new_Session_def new_NoneInputStream_def new_NoneOutputStream_def)

text \<open>One entry of a table, one queue and the table of reliable input streams at a time.\<close>

lemma session_ok_put [intro]:
  assumes "session_ok s"
  shows "length (ni_messages ni) \<le> BEST_EFFORT_STREAM_DEPTH \<Longrightarrow> session_ok (s\<lparr>none_istream := ni\<rparr>)"
    and "length (no_messages no) \<le> BEST_EFFORT_STREAM_DEPTH \<Longrightarrow> session_ok (s\<lparr>none_ostream := no\<rparr>)"
    and "is_besteffort_stream i \<Longrightarrow> length (bi_messages bi) \<le> BEST_EFFORT_STREAM_DEPTH \<Longrightarrow>
      session_ok (s\<lparr>best_effort_istreams := map_put i bi (best_effort_istreams s)\<rparr>)"
    and "is_besteffort_stream i \<Longrightarrow> length (bo_messages bo) \<le> BEST_EFFORT_STREAM_DEPTH \<Longrightarrow>
      session_ok (s\<lparr>best_effort_ostreams := map_put i bo (best_effort_ostreams s)\<rparr>)"
    and "session_ok (s\<lparr>reliable_istreams := map_put i ri (reliable_istreams s)\<rparr>)"
    and "is_reliable_stream i \<Longrightarrow> session_ok (s\<lparr>reliable_ostreams := map_put i ro (reliable_ostreams s)\<rparr>)"
  using assms by (auto simp: session_ok_def intro!: map_all_put)

lemma session_ok_queues:
  assumes "session_ok s"
  shows "length (ni_messages (none_istream s)) \<le> BEST_EFFORT_STREAM_DEPTH"
    and "length (no_messages (none_ostream s)) \<le> BEST_EFFORT_STREAM_DEPTH"
    and "length (bi_messages (best_effort_in_at s i)) \<le> BEST_EFFORT_STREAM_DEPTH"
    and "length (bo_messages (best_effort_out_at s i)) \<le> BEST_EFFORT_STREAM_DEPTH"
proof -
  have "map_all (\<lambda>i t. length (bi_messages t) \<le> BEST_EFFORT_STREAM_DEPTH) (best_effort_istreams s)"
    "map_all (\<lambda>i t. length (bo_messages t) \<le> BEST_EFFORT_STREAM_DEPTH) (best_effort_ostreams s)"
    using assms by (auto simp: session_ok_def elim: map_all_mono)
  then show "length (bi_messages (best_effort_in_at s i)) \<le> BEST_EFFORT_STREAM_DEPTH"
    "length (bo_messages (best_effort_out_at s i)) \<le> BEST_EFFORT_STREAM_DEPTH"
    by (auto dest!: map_all_index [where k = i] simp: new_BestEffortInputStream_def new_BestEffortOutputStream_def)
qed (use assms in \<open>simp_all add: session_ok_def\<close>)

lemma session_ok_get_reliable:
  assumes "session_ok s" "is_reliable_stream i"
  shows "session_ok (snd (get_reliable_output_stream i s))"
  using assms by (auto simp: get_reliable_output_stream_def split: option.split)

lemma session_ok_reset: "session_ok s \<Longrightarrow> session_ok (Session_reset s)"
  unfolding session_ok_def Session_reset_def
  by (auto simp: stream_reset_defs elim!: map_all_mono intro!: map_all_values)

lemmas queue_bounds = none_in.push_bound none_in.pop_bound none_out.pop_bound best_effort_in.pop_bound
  best_effort_out.pop_bound best_effort_in.push_bound [where a = "(n, m)" for n m, simplified]
  none_out.push_bound [where a = "(L, info, i, data)" for L info i data, simplified]
  best_effort_out.push_bound [where a = "(L, info, j, i, data)" for L info j i data, simplified]

lemma session_ok_input_step:
  assumes "session_ok s" "session_step L x s = Inr (r, t)"
    "x \<in> {Push_Input i n m, Pop_Input i, From_Heartbeat i a b, Fill_Acknack i an, Push_Fragment i m, Pop_Fragment i}"
  shows "session_ok t"
  using assms
  by (elim insertE emptyE)
    (auto simp: session_input_defs Let_def case_prod_beta session_ok_queues [OF assms(1)]
      intro!: session_ok_put [OF assms(1)] queue_bounds split: if_splits)

lemma session_ok_output_step:
  assumes "session_ok s" "session_step L x s = Inr (r, t)"
    "x \<in> {Push_Output i k d, Next_Output i, Get_Output i n, From_Acknack i a, Fill_Heartbeat i hb}"
  shows "session_ok t"
  using assms
  by (elim insertE emptyE)
    (auto simp: session_output_defs get_reliable_let case_prod_beta session_ok_queues [OF assms(1)] stream_kinds
      session_ok_get_reliable [OF assms(1)]
      intro!: session_ok_put [OF assms(1)] session_ok_put [OF session_ok_get_reliable [OF assms(1)]] queue_bounds
      split: if_splits)

lemma session_ok_run: "session_ok s \<Longrightarrow> session_run L ops s = Inr (rs, t) \<Longrightarrow> session_ok t"
proof (induction ops arbitrary: s rs)
  case (Cons x ops)
  obtain r u qs where x: "session_step L x s = Inr (r, u)" "session_run L ops u = Inr (qs, t)"
    using Cons.prems(2) by (auto simp: bind_res_eq_Inr)
  have "session_ok u"
    using session_ok_input_step [OF Cons.prems(1) x(1)] session_ok_output_step [OF Cons.prems(1) x(1)]
      session_ok_reset [OF Cons.prems(1)] x(1) by (cases x) auto
  then show ?case using Cons.IH x(2) by blast
qed simp


section \<open>Witnesses\<close>

text \<open>A session in which two reliable output streams are named and a heartbeat arrives.\<close>

definition sample_ops :: "sim_cdr_state session_op list" where
  "sample_ops = [Get_Output 0x80 0, From_Heartbeat 0x80 0 3, Get_Output 0x81 0, Next_Output 0x81]"

definition sample_info :: SessionInfo where
  "sample_info = \<lparr>si_client_key = (0xAA, 0xBB, 0xCC, 0xDD), si_session_id = 0x81, si_mtu = 512\<rparr>"

lemma sample_run:
  "\<exists>rs t. session_run sim_cdr sample_ops (new_Session sample_info) = Inr (rs, t) \<and>
     map fst (reliable_ostreams t) = [0x80, 0x81] \<and> length rs = 4"
  by (simp add: sample_ops_def session_input_defs session_output_defs get_reliable_output_stream_def
      is_reliable_stream_def is_none_stream_def is_besteffort_stream_def xrce_consts new_Session_def map_put_def map_index_def
      map_find_Cons ReliableOutputStream_get_next_message_def new_ReliableOutputStream_def
      seq_lt_iff)


lemma session_streams_isolated_witness:
  "\<exists>rs t t'. session_run sim_cdr sample_ops (new_Session sample_info) = Inr (rs, t) \<and> length rs = 4 \<and>
     session_run sim_cdr [Get_Output 0x80 0, From_Heartbeat 0x80 0 3] (new_Session sample_info) =
       Inr (filter (\<lambda>(k, r). concerns 0x80 k) rs, t') \<and>
     session_view t' 0x80 = session_view t 0x80"
proof -
  obtain rs t where t: "session_run sim_cdr sample_ops (new_Session sample_info) = Inr (rs, t)" "length rs = 4"
    using sample_run by blast
  have "filter (\<lambda>x. concerns 0x80 (op_stream x)) sample_ops = [Get_Output 0x80 0, From_Heartbeat 0x80 0 3]"
    by (simp add: sample_ops_def concerns_def)
  then show ?thesis using session_streams_isolated [OF t(1), of "0x80"] t by auto
qed

end
