(* ===== verification/SharedMutex.thy ===== *)
theory SharedMutex
  imports Prelude
begin

text \<open>
  utils/SharedMutex.hpp and utils/SharedMutexPriority.hpp: a lock that many threads can hold
  shared or one exclusively, built from a mutex, a condition variable and counters.

  A lock object is its flag locked; lock and unlock take it with the state of the mutex.
  lock gives None when its thread has to wait on the condition variable, and unlock says
  whom it notifies.  The bodies run under the mutex mtx_, so each is one step; what a thread
  does while it waits is the step relation of the second half: a thread in lock is trying
  (about to test its condition) or asleep on the condition variable, until a notification or
  a spurious wake-up.

  The locale shared_lock is what both classes promise of the state of the mutex; mutual
  exclusion is proved in it once, for any pattern of calls.
\<close>

datatype notification = Notify_None | Notify_One | Notify_All

section \<open>SharedMutex.hpp\<close>

record 't SharedMutex =
  shared_counter :: nat
  exclusively_locked :: bool
  exclusive_thread_id :: "'t option"

definition new_SharedMutex :: "'t SharedMutex" where
  "new_SharedMutex = \<lparr>shared_counter = 0, exclusively_locked = False, exclusive_thread_id = None\<rparr>"

definition SharedLock_lock :: "'t \<Rightarrow> bool \<times> 't SharedMutex \<Rightarrow> (bool \<times> 't SharedMutex) option" where
  "SharedLock_lock thread_id l = (case l of (locked, m) \<Rightarrow>
     if \<not> locked then
       if \<not> exclusively_locked m \<or> Some thread_id = exclusive_thread_id m
       then Some (True, m\<lparr>shared_counter := shared_counter m + 1\<rparr>) else None
     else Some (locked, m))"

definition SharedLock_unlock :: "bool \<times> 't SharedMutex \<Rightarrow> notification \<times> bool \<times> 't SharedMutex" where
  "SharedLock_unlock l = (case l of (locked, m) \<Rightarrow>
     if locked then
       let m = m\<lparr>shared_counter := shared_counter m - 1\<rparr>
       in (if 0 = shared_counter m then Notify_One else Notify_None, False, m)
     else (Notify_None, locked, m))"

definition ExclusiveLock_lock :: "'t \<Rightarrow> bool \<times> 't SharedMutex \<Rightarrow> (bool \<times> 't SharedMutex) option" where
  "ExclusiveLock_lock thread_id l = (case l of (locked, m) \<Rightarrow>
     if \<not> locked then
       if 0 = shared_counter m \<and> \<not> exclusively_locked m
       then Some (True, m\<lparr>exclusively_locked := True, exclusive_thread_id := Some thread_id\<rparr>) else None
     else Some (locked, m))"

definition ExclusiveLock_unlock :: "bool \<times> 't SharedMutex \<Rightarrow> notification \<times> bool \<times> 't SharedMutex" where
  "ExclusiveLock_unlock l = (case l of (locked, m) \<Rightarrow>
     if locked then (Notify_All, False, m\<lparr>exclusively_locked := False\<rparr>)
     else (Notify_None, locked, m))"

section \<open>SharedMutexPriority.hpp\<close>

record 't SharedMutexPriority =
  pri_shared_counter :: nat
  pri_exclusive_counter :: nat
  pri_exclusively_locked :: bool
  pri_exclusive_thread_id :: "'t option"

definition new_SharedMutexPriority :: "'t SharedMutexPriority" where
  "new_SharedMutexPriority = \<lparr>pri_shared_counter = 0, pri_exclusive_counter = 0,
     pri_exclusively_locked = False, pri_exclusive_thread_id = None\<rparr>"

definition SharedLockPriority_lock ::
    "'t \<Rightarrow> bool \<times> 't SharedMutexPriority \<Rightarrow> (bool \<times> 't SharedMutexPriority) option" where
  "SharedLockPriority_lock thread_id l = (case l of (locked, m) \<Rightarrow>
     if \<not> locked then
       if \<not> (pri_exclusively_locked m \<or> pri_exclusive_counter m \<noteq> 0) \<or>
          Some thread_id = pri_exclusive_thread_id m
       then Some (True, m\<lparr>pri_shared_counter := pri_shared_counter m + 1\<rparr>) else None
     else Some (locked, m))"

definition SharedLockPriority_unlock ::
    "bool \<times> 't SharedMutexPriority \<Rightarrow> notification \<times> bool \<times> 't SharedMutexPriority" where
  "SharedLockPriority_unlock l = (case l of (locked, m) \<Rightarrow>
     if locked then
       let m = m\<lparr>pri_shared_counter := pri_shared_counter m - 1\<rparr>
       in (if 0 = pri_shared_counter m then Notify_One else Notify_None, False, m)
     else (Notify_None, locked, m))"

text \<open>
  lock counts the caller before it takes mtx_ and waits: two steps, of which the first is
  an increment that the mutex does not protect.
\<close>

definition ExclusiveLockPriority_announce :: "bool \<times> 't SharedMutexPriority \<Rightarrow> bool \<times> 't SharedMutexPriority" where
  "ExclusiveLockPriority_announce l = (case l of (locked, m) \<Rightarrow>
     if \<not> locked then (locked, m\<lparr>pri_exclusive_counter := pri_exclusive_counter m + 1\<rparr>) else (locked, m))"

definition ExclusiveLockPriority_lock ::
    "'t \<Rightarrow> bool \<times> 't SharedMutexPriority \<Rightarrow> (bool \<times> 't SharedMutexPriority) option" where
  "ExclusiveLockPriority_lock thread_id l = (case l of (locked, m) \<Rightarrow>
     if \<not> locked then
       if 0 = pri_shared_counter m \<and> \<not> pri_exclusively_locked m
       then Some (True, m\<lparr>pri_exclusively_locked := True, pri_exclusive_thread_id := Some thread_id\<rparr>)
       else None
     else Some (locked, m))"

definition ExclusiveLockPriority_unlock ::
    "bool \<times> 't SharedMutexPriority \<Rightarrow> notification \<times> bool \<times> 't SharedMutexPriority" where
  "ExclusiveLockPriority_unlock l = (case l of (locked, m) \<Rightarrow>
     if locked then
       (Notify_All, False, m\<lparr>pri_exclusive_counter := pri_exclusive_counter m - 1, pri_exclusively_locked := False\<rparr>)
     else (Notify_None, locked, m))"

section \<open>Threads that lock and unlock\<close>

datatype lock_kind = Shared | Exclusive

text \<open>What threads do with a mutex, for either class: the start of lock, its test, unlock.\<close>

record ('t, 'm) mutex_ops =
  announce :: "lock_kind \<Rightarrow> 'm \<Rightarrow> 'm"
  try_lock :: "lock_kind \<Rightarrow> 't \<Rightarrow> 'm \<Rightarrow> 'm option"
  unlock :: "lock_kind \<Rightarrow> 'm \<Rightarrow> notification \<times> 'm"

definition shared_mutex_ops :: "('t, 't SharedMutex) mutex_ops" where
  "shared_mutex_ops = \<lparr>
     announce = (\<lambda>k m. m),
     try_lock = (\<lambda>k t m. map_option snd
       (case k of Shared \<Rightarrow> SharedLock_lock t (False, m) | Exclusive \<Rightarrow> ExclusiveLock_lock t (False, m))),
     unlock = (\<lambda>k m. map_prod id snd
       (case k of Shared \<Rightarrow> SharedLock_unlock (True, m) | Exclusive \<Rightarrow> ExclusiveLock_unlock (True, m)))\<rparr>"

definition priority_mutex_ops :: "('t, 't SharedMutexPriority) mutex_ops" where
  "priority_mutex_ops = \<lparr>
     announce = (\<lambda>k m. case k of Shared \<Rightarrow> m | Exclusive \<Rightarrow> snd (ExclusiveLockPriority_announce (False, m))),
     try_lock = (\<lambda>k t m. map_option snd
       (case k of Shared \<Rightarrow> SharedLockPriority_lock t (False, m)
                | Exclusive \<Rightarrow> ExclusiveLockPriority_lock t (False, m))),
     unlock = (\<lambda>k m. map_prod id snd
       (case k of Shared \<Rightarrow> SharedLockPriority_unlock (True, m)
                | Exclusive \<Rightarrow> ExclusiveLockPriority_unlock (True, m)))\<rparr>"

text \<open>Holders by thread, one entry for each locked object; the calls of lock that did not return.\<close>

record ('t, 'm) lock_system =
  mutex :: 'm
  holders :: "('t \<times> lock_kind) list"
  trying :: "('t \<times> lock_kind) list"
  asleep :: "('t \<times> lock_kind) list"

definition lock_start :: "'m \<Rightarrow> ('t, 'm) lock_system" where
  "lock_start m = \<lparr>mutex = m, holders = [], trying = [], asleep = []\<rparr>"

definition wake :: "'t \<times> lock_kind \<Rightarrow> ('t, 'm) lock_system \<Rightarrow> ('t, 'm) lock_system" where
  "wake c s = s\<lparr>asleep := remove1 c (asleep s), trying := c # trying s\<rparr>"

inductive notifies :: "notification \<Rightarrow> ('t, 'm) lock_system \<Rightarrow> ('t, 'm) lock_system \<Rightarrow> bool" where
  none: "notifies Notify_None s s"
| one: "c \<in> set (asleep s) \<Longrightarrow> notifies Notify_One s (wake c s)"
| nobody: "asleep s = [] \<Longrightarrow> notifies Notify_One s s"
| all: "notifies Notify_All s (s\<lparr>asleep := [], trying := asleep s @ trying s\<rparr>)"

datatype 't lock_action =
    Call 't lock_kind | Acquire 't lock_kind | Sleep 't lock_kind | Release 't lock_kind | Spurious 't lock_kind

inductive lock_step :: "('t, 'm) mutex_ops \<Rightarrow> 't lock_action \<Rightarrow> ('t, 'm) lock_system \<Rightarrow> ('t, 'm) lock_system \<Rightarrow> bool"
  for ops where
  call: "t \<notin> fst ` set (trying s @ asleep s) \<Longrightarrow>
    lock_step ops (Call t k) s (s\<lparr>mutex := announce ops k (mutex s), trying := (t, k) # trying s\<rparr>)"
| acquire: "(t, k) \<in> set (trying s) \<Longrightarrow> try_lock ops k t (mutex s) = Some m \<Longrightarrow>
    lock_step ops (Acquire t k) s
      (s\<lparr>mutex := m, trying := remove1 (t, k) (trying s), holders := (t, k) # holders s\<rparr>)"
| sleep: "(t, k) \<in> set (trying s) \<Longrightarrow> try_lock ops k t (mutex s) = None \<Longrightarrow>
    lock_step ops (Sleep t k) s (s\<lparr>trying := remove1 (t, k) (trying s), asleep := (t, k) # asleep s\<rparr>)"
| release: "(t, k) \<in> set (holders s) \<Longrightarrow> t \<notin> fst ` set (trying s @ asleep s) \<Longrightarrow>
    unlock ops k (mutex s) = (n, m) \<Longrightarrow>
    notifies n (s\<lparr>mutex := m, holders := remove1 (t, k) (holders s)\<rparr>) s' \<Longrightarrow>
    lock_step ops (Release t k) s s'"
| spurious: "(t, k) \<in> set (asleep s) \<Longrightarrow> lock_step ops (Spurious t k) s (wake (t, k) s)"

text \<open>The states that are reached when calls are made as the rule allows.\<close>

inductive lock_run :: "('t, 'm) mutex_ops \<Rightarrow> ('t \<Rightarrow> lock_kind \<Rightarrow> ('t, 'm) lock_system \<Rightarrow> bool) \<Rightarrow>
    ('t, 'm) lock_system \<Rightarrow> 't lock_action list \<Rightarrow> ('t, 'm) lock_system \<Rightarrow> bool"
  for ops rule where
  start: "lock_run ops rule s [] s"
| step: "lock_run ops rule s xs u \<Longrightarrow> lock_step ops x u v \<Longrightarrow>
    (\<And>t k. x = Call t k \<Longrightarrow> rule t k u) \<Longrightarrow> lock_run ops rule s (xs @ [x]) v"

inductive_cases call_step: "lock_step ops (Call t k) s s'"
inductive_cases acquire_step: "lock_step ops (Acquire t k) s s'"
inductive_cases sleep_step: "lock_step ops (Sleep t k) s s'"
inductive_cases release_step: "lock_step ops (Release t k) s s'"
inductive_cases spurious_step: "lock_step ops (Spurious t k) s s'"

lemmas lock_step_elims = call_step acquire_step sleep_step release_step spurious_step

lemma notifies_same: "notifies n s s' \<Longrightarrow> mutex s' = mutex s \<and> holders s' = holders s"
  by (induction rule: notifies.induct) (simp_all add: wake_def)

section \<open>Mutual exclusion\<close>

definition exclusion :: "('t \<times> lock_kind) list \<Rightarrow> bool" where
  "exclusion hs \<longleftrightarrow> length (filter (\<lambda>h. snd h = Exclusive) hs) \<le> 1 \<and>
     (\<forall>t u k. (t, Exclusive) \<in> set hs \<longrightarrow> (u, k) \<in> set hs \<longrightarrow> u = t)"

text \<open>How the holders agree with the state of the mutex.\<close>

definition lock_agrees :: "('m \<Rightarrow> nat) \<Rightarrow> ('m \<Rightarrow> bool) \<Rightarrow> ('m \<Rightarrow> 't option) \<Rightarrow> 'm \<Rightarrow> ('t \<times> lock_kind) list \<Rightarrow> bool" where
  "lock_agrees counter locked owner m hs \<longleftrightarrow>
     counter m = length (filter (\<lambda>h. snd h = Shared) hs) \<and>
     (if locked m then \<exists>t. owner m = Some t \<and> filter (\<lambda>h. snd h = Exclusive) hs = [(t, Exclusive)] \<and> list_all (\<lambda>h. fst h = t) hs
      else filter (\<lambda>h. snd h = Exclusive) hs = [])"

lemma list_all_remove1: "list_all P xs \<Longrightarrow> list_all P (remove1 x xs)"
  by (induction xs) auto

lemma sole_member: "list_all (\<lambda>h. fst h = t) hs \<Longrightarrow> (u, k) \<in> set hs \<Longrightarrow> u = t"
  by (auto simp: list_all_iff)

lemma no_holders: "filter (\<lambda>h. snd h = Shared) hs = [] \<Longrightarrow> filter (\<lambda>h. snd h = Exclusive) hs = [] \<Longrightarrow> hs = []"
  by (cases hs; cases "snd (hd hs)") (auto split: if_splits)

lemma lock_agrees_exclusion: "lock_agrees counter locked owner m hs \<Longrightarrow> exclusion hs"
proof (unfold exclusion_def, intro conjI allI impI)
  assume a: "lock_agrees counter locked owner m hs"
  then show "length (filter (\<lambda>h. snd h = Exclusive) hs) \<le> 1"
    by (auto simp: lock_agrees_def split: if_splits)
  fix t v k assume v: "(v, k) \<in> set hs" and "(t, Exclusive) \<in> set hs"
  then have t: "(t, Exclusive) \<in> set (filter (\<lambda>h. snd h = Exclusive) hs)" by simp
  have "filter (\<lambda>h. snd h = Exclusive) hs \<noteq> []"
    using t by (metis empty_iff list.set(1))
  then have "locked m"
    using a by (auto simp: lock_agrees_def split: if_splits)
  then obtain u where "filter (\<lambda>h. snd h = Exclusive) hs = [(u, Exclusive)]" "list_all (\<lambda>h. fst h = u) hs"
    using a by (auto simp: lock_agrees_def)
  with t v show "v = t" by (auto simp: list_all_iff)
qed

locale shared_lock =
  fixes ops :: "('t, 'm) mutex_ops"
    and counter :: "'m \<Rightarrow> nat"
    and locked :: "'m \<Rightarrow> bool"
    and owner :: "'m \<Rightarrow> 't option"
    and fresh :: "'m"
  assumes fresh_law: "counter fresh = 0 \<and> \<not> locked fresh"
    and announce_law: "counter (announce ops k m) = counter m \<and> locked (announce ops k m) = locked m \<and>
      owner (announce ops k m) = owner m"
    and try_shared: "try_lock ops Shared t m = Some m' \<Longrightarrow> (locked m \<longrightarrow> owner m = Some t) \<and>
      counter m' = Suc (counter m) \<and> locked m' = locked m \<and> owner m' = owner m"
    and try_exclusive: "try_lock ops Exclusive t m = Some m' \<Longrightarrow> counter m = 0 \<and> \<not> locked m \<and>
      counter m' = 0 \<and> locked m' \<and> owner m' = Some t"
    and unlock_shared: "unlock ops Shared m = (n, m') \<Longrightarrow>
      counter m' = counter m - 1 \<and> locked m' = locked m \<and> owner m' = owner m"
    and unlock_exclusive: "unlock ops Exclusive m = (n, m') \<Longrightarrow> counter m' = counter m \<and> \<not> locked m'"
begin

abbreviation agrees :: "('t, 'm) lock_system \<Rightarrow> bool" where
  "agrees s \<equiv> lock_agrees counter locked owner (mutex s) (holders s)"

lemma agrees_acquire:
  assumes "agrees s" "try_lock ops k t (mutex s) = Some m"
  shows "lock_agrees counter locked owner m ((t, k) # holders s)"
proof (cases k)
  case Shared
  then show ?thesis using assms try_shared [of t "mutex s" m] by (auto simp: lock_agrees_def)
next
  case Exclusive
  then have "counter (mutex s) = 0" "\<not> locked (mutex s)" "counter m = 0" "locked m" "owner m = Some t"
    using assms(2) try_exclusive by auto
  moreover from this have "holders s = []"
    using assms(1) no_holders [of "holders s"] by (simp add: lock_agrees_def)
  ultimately show ?thesis using Exclusive by (simp add: lock_agrees_def)
qed

lemma agrees_release:
  assumes "agrees s" "(t, k) \<in> set (holders s)" "unlock ops k (mutex s) = (n, m)"
  shows "lock_agrees counter locked owner m (remove1 (t, k) (holders s))"
proof (cases k)
  case Shared
  then have "length (remove1 (t, Shared) (filter (\<lambda>h. snd h = Shared) (holders s))) =
      length (filter (\<lambda>h. snd h = Shared) (holders s)) - 1"
    using assms(2) by (simp add: length_remove1)
  then show ?thesis
    using Shared assms unlock_shared [of "mutex s" n m]
    by (auto simp: lock_agrees_def filter_remove1 remove1_idem list_all_remove1 split: if_splits)
next
  case Exclusive
  have "(t, Exclusive) \<in> set (filter (\<lambda>h. snd h = Exclusive) (holders s))"
    using assms(2) Exclusive by simp
  then show ?thesis
    using Exclusive assms unlock_exclusive [of "mutex s" n m]
    by (auto simp: lock_agrees_def filter_remove1 remove1_idem dest: sole_member split: if_splits)
qed

lemma agrees_step: "lock_step ops x s s' \<Longrightarrow> agrees s \<Longrightarrow> agrees s'"
proof (induction rule: lock_step.induct)
  case (call t s k)
  then show ?case using announce_law [of k "mutex s"] by (auto simp: lock_agrees_def)
next
  case (acquire t k s m)
  then show ?case using agrees_acquire [of s k t m] by simp
next
  case (release t k s n m s')
  then show ?case using agrees_release [of s t k n m] notifies_same [OF release(4)] by simp
qed (simp_all add: wake_def)

lemma agrees_run: "lock_run ops rule s xs s' \<Longrightarrow> s = lock_start fresh \<Longrightarrow> agrees s'"
proof (induction rule: lock_run.induct)
  case (start s)
  then show ?case using fresh_law by (simp add: lock_agrees_def lock_start_def)
next
  case (step s xs u x v)
  then show ?case using agrees_step by blast
qed

lemma run_excludes: "lock_run ops rule (lock_start fresh) xs s \<Longrightarrow> exclusion (holders s)"
  by (rule lock_agrees_exclusion [OF agrees_run [OF _ refl]])

end

lemmas shared_mutex_defs = shared_mutex_ops_def new_SharedMutex_def SharedLock_lock_def SharedLock_unlock_def
  ExclusiveLock_lock_def ExclusiveLock_unlock_def

lemmas priority_mutex_defs = priority_mutex_ops_def new_SharedMutexPriority_def SharedLockPriority_lock_def
  SharedLockPriority_unlock_def ExclusiveLockPriority_announce_def ExclusiveLockPriority_lock_def
  ExclusiveLockPriority_unlock_def

lemma shared_mutex_ops_simps [simp]:
  "announce shared_mutex_ops k m = m"
  "try_lock shared_mutex_ops Shared t m =
     (if \<not> exclusively_locked m \<or> exclusive_thread_id m = Some t
      then Some (m\<lparr>shared_counter := Suc (shared_counter m)\<rparr>) else None)"
  "try_lock shared_mutex_ops Exclusive t m =
     (if shared_counter m = 0 \<and> \<not> exclusively_locked m
      then Some (m\<lparr>exclusively_locked := True, exclusive_thread_id := Some t\<rparr>) else None)"
  "unlock shared_mutex_ops Shared m = (if shared_counter m \<le> 1 then Notify_One else Notify_None,
     m\<lparr>shared_counter := shared_counter m - 1\<rparr>)"
  "unlock shared_mutex_ops Exclusive m = (Notify_All, m\<lparr>exclusively_locked := False\<rparr>)"
  by (auto simp: shared_mutex_defs Let_def)

lemma priority_mutex_ops_simps [simp]:
  "announce priority_mutex_ops Shared m = m"
  "announce priority_mutex_ops Exclusive m = m\<lparr>pri_exclusive_counter := Suc (pri_exclusive_counter m)\<rparr>"
  "try_lock priority_mutex_ops Shared t m =
     (if \<not> pri_exclusively_locked m \<and> pri_exclusive_counter m = 0 \<or> pri_exclusive_thread_id m = Some t
      then Some (m\<lparr>pri_shared_counter := Suc (pri_shared_counter m)\<rparr>) else None)"
  "try_lock priority_mutex_ops Exclusive t m =
     (if pri_shared_counter m = 0 \<and> \<not> pri_exclusively_locked m
      then Some (m\<lparr>pri_exclusively_locked := True, pri_exclusive_thread_id := Some t\<rparr>) else None)"
  "unlock priority_mutex_ops Shared m = (if pri_shared_counter m \<le> 1 then Notify_One else Notify_None,
     m\<lparr>pri_shared_counter := pri_shared_counter m - 1\<rparr>)"
  "unlock priority_mutex_ops Exclusive m =
     (Notify_All, m\<lparr>pri_exclusive_counter := pri_exclusive_counter m - 1, pri_exclusively_locked := False\<rparr>)"
  by (auto simp: priority_mutex_defs Let_def)

interpretation shared_mutex: shared_lock shared_mutex_ops shared_counter exclusively_locked exclusive_thread_id
    new_SharedMutex
  by unfold_locales (auto simp: new_SharedMutex_def split: if_splits)

lemma announce_priority_fields:
  "pri_shared_counter (announce priority_mutex_ops k m) = pri_shared_counter m"
  "pri_exclusively_locked (announce priority_mutex_ops k m) = pri_exclusively_locked m"
  "pri_exclusive_thread_id (announce priority_mutex_ops k m) = pri_exclusive_thread_id m"
  by (cases k; simp)+

interpretation priority_mutex: shared_lock priority_mutex_ops pri_shared_counter pri_exclusively_locked
    pri_exclusive_thread_id new_SharedMutexPriority
  by unfold_locales (auto simp: new_SharedMutexPriority_def announce_priority_fields split: if_splits)

section \<open>SharedMutex loses no wake-up\<close>

text \<open>
  What the users of the lock do: a thread asks for the exclusive lock only when it holds
  nothing, and for the shared one when it does not hold it shared (Session asks for it while
  it holds it exclusively).
\<close>

definition orderly :: "'t \<Rightarrow> lock_kind \<Rightarrow> ('t \<times> lock_kind) list \<Rightarrow> bool" where
  "orderly t k hs \<longleftrightarrow> (t, Shared) \<notin> set hs \<and> (k = Exclusive \<longrightarrow> (t, Exclusive) \<notin> set hs)"

abbreviation orderly_calls :: "'t \<Rightarrow> lock_kind \<Rightarrow> ('t, 'm) lock_system \<Rightarrow> bool" where
  "orderly_calls t k s \<equiv> orderly t k (holders s)"

definition orderly_waits :: "('t \<times> lock_kind) list \<Rightarrow> ('t \<times> lock_kind) list \<Rightarrow> bool" where
  "orderly_waits hs cs \<longleftrightarrow> (\<forall>c\<in>set cs. orderly (fst c) (snd c) hs)"

text \<open>A thread sleeps for the shared lock only while another thread has the exclusive one.\<close>

definition shared_sleep :: "'t SharedMutex \<Rightarrow> ('t \<times> lock_kind) list \<Rightarrow> bool" where
  "shared_sleep m cs \<longleftrightarrow>
     (\<forall>c\<in>set cs. snd c = Shared \<longrightarrow> exclusively_locked m \<and> exclusive_thread_id m \<noteq> Some (fst c))"

definition waits_well :: "('t, 't SharedMutex) lock_system \<Rightarrow> bool" where
  "waits_well s \<longleftrightarrow> distinct (map fst (trying s @ asleep s)) \<and>
     orderly_waits (holders s) (trying s @ asleep s) \<and> shared_sleep (mutex s) (asleep s) \<and>
     (shared_counter (mutex s) = 0 \<longrightarrow> \<not> exclusively_locked (mutex s) \<longrightarrow> asleep s \<noteq> [] \<longrightarrow>
       Exclusive \<in> snd ` set (trying s))"

lemma orderly_waits_mono:
  "orderly_waits hs cs \<Longrightarrow> set hs' \<subseteq> set hs \<Longrightarrow> set cs' \<subseteq> set cs \<Longrightarrow> orderly_waits hs' cs'"
  by (fastforce simp: orderly_waits_def orderly_def)

lemma shared_sleep_mono: "shared_sleep m cs \<Longrightarrow> set cs' \<subseteq> set cs \<Longrightarrow> shared_sleep m cs'"
  by (auto simp: shared_sleep_def)

lemma shared_sleep_cong:
  "exclusively_locked m = exclusively_locked m' \<Longrightarrow> exclusive_thread_id m = exclusive_thread_id m' \<Longrightarrow>
     shared_sleep m cs = shared_sleep m' cs"
  by (simp add: shared_sleep_def)

lemma distinct_fst_move:
  assumes "distinct (map fst (xs @ ys))"
  shows "c \<in> set xs \<Longrightarrow> distinct (map fst (remove1 c xs @ c # ys))"
    and "c \<in> set ys \<Longrightarrow> distinct (map fst (c # xs @ remove1 c ys))"
    and "c \<in> set xs \<Longrightarrow> fst c \<notin> fst ` set (remove1 c xs @ ys)"
proof -
  have remove: "c \<in> set zs \<Longrightarrow> distinct (map fst zs) \<Longrightarrow>
      distinct (map fst (remove1 c zs)) \<and> fst c \<notin> fst ` set (remove1 c zs)" for zs :: "('a \<times> 'b) list"
    by (induction zs) force+
  show 1: "c \<in> set xs \<Longrightarrow> distinct (map fst (remove1 c xs @ c # ys))"
    using assms remove [of xs] set_remove1_subset [of c xs] by auto
  show "c \<in> set ys \<Longrightarrow> distinct (map fst (c # xs @ remove1 c ys))"
    using assms remove [of ys] set_remove1_subset [of c ys] by auto
  show "c \<in> set xs \<Longrightarrow> fst c \<notin> fst ` set (remove1 c xs @ ys)"
    using 1 by auto
qed

lemma waits_well_wake:
  assumes "waits_well s" "c \<in> set (asleep s)"
    "shared_counter m = 0 \<longrightarrow> \<not> exclusively_locked m \<longrightarrow> snd c = Exclusive"
    "exclusively_locked m = exclusively_locked (mutex s)" "exclusive_thread_id m = exclusive_thread_id (mutex s)"
    "set hs \<subseteq> set (holders s)"
  shows "waits_well (wake c (s\<lparr>mutex := m, holders := hs\<rparr>))"
proof -
  have "distinct (map fst (c # trying s @ remove1 c (asleep s)))"
    using assms(1,2) distinct_fst_move(2) unfolding waits_well_def by blast
  moreover have "orderly_waits hs (c # trying s @ remove1 c (asleep s))"
    using assms(1,2,6) set_remove1_subset [of c "asleep s"]
    unfolding waits_well_def by (elim conjE orderly_waits_mono) auto
  moreover have "shared_sleep m (remove1 c (asleep s))"
    using assms(1) shared_sleep_mono [OF _ set_remove1_subset, of "mutex s" "asleep s" c] shared_sleep_cong [OF assms(4,5)]
    by (simp add: waits_well_def)
  ultimately show ?thesis
    using assms(3) by (simp add: waits_well_def wake_def)
qed

lemma waits_well_acquire:
  assumes "waits_well s" "(t, k) \<in> set (trying s)" "try_lock shared_mutex_ops k t (mutex s) = Some m"
  shows "waits_well (s\<lparr>mutex := m, trying := remove1 (t, k) (trying s), holders := (t, k) # holders s\<rparr>)"
proof -
  let ?cs = "remove1 (t, k) (trying s) @ asleep s"
  have d: "distinct (map fst ?cs)" "t \<notin> fst ` set ?cs"
    using assms(1) distinct_fst_move(1,3) [OF _ assms(2)] by (auto simp: waits_well_def)
  have "orderly_waits (holders s) ?cs"
    using assms(1) set_remove1_subset [of "(t, k)" "trying s"]
    unfolding waits_well_def by (elim conjE orderly_waits_mono) auto
  then have "orderly_waits ((t, k) # holders s) ?cs"
    using d(2) by (fastforce simp: orderly_waits_def orderly_def)
  moreover have "shared_sleep m (asleep s)"
    using assms(1,3) by (cases k) (auto simp: waits_well_def shared_sleep_def split: if_splits)
  moreover have "\<not> (shared_counter m = 0 \<and> \<not> exclusively_locked m)"
    using assms(3) by (cases k) (auto split: if_splits)
  ultimately show ?thesis using d(1) by (auto simp: waits_well_def)
qed

lemma waits_well_sleep:
  assumes "waits_well s" "(t, k) \<in> set (trying s)" "try_lock shared_mutex_ops k t (mutex s) = None"
  shows "waits_well (s\<lparr>trying := remove1 (t, k) (trying s), asleep := (t, k) # asleep s\<rparr>)"
proof -
  have "distinct (map fst (remove1 (t, k) (trying s) @ (t, k) # asleep s))"
    using assms(1) distinct_fst_move(1) [OF _ assms(2)] by (auto simp: waits_well_def)
  moreover have "orderly_waits (holders s) (remove1 (t, k) (trying s) @ (t, k) # asleep s)"
    using assms(1,2) set_remove1_subset [of "(t, k)" "trying s"]
    unfolding waits_well_def by (elim conjE orderly_waits_mono) auto
  moreover have "shared_sleep (mutex s) ((t, k) # asleep s)" "\<not> (shared_counter (mutex s) = 0 \<and> \<not> exclusively_locked (mutex s))"
    using assms(1,3) by (cases k; auto simp: waits_well_def shared_sleep_def split: if_splits)+
  ultimately show ?thesis by (auto simp: waits_well_def)
qed

lemma waits_well_release:
  assumes "waits_well s" "unlock shared_mutex_ops k (mutex s) = (n, m)"
    "notifies n (s\<lparr>mutex := m, holders := remove1 (t, k) (holders s)\<rparr>) s'"
  shows "waits_well s'"
proof -
  have hs: "set (remove1 (t, k) (holders s)) \<subseteq> set (holders s)"
    by (rule set_remove1_subset)
  then have o: "orderly_waits (remove1 (t, k) (holders s)) (trying s @ asleep s)"
    using assms(1) unfolding waits_well_def by (elim conjE orderly_waits_mono) auto
  from assms(3) show ?thesis
  proof cases
    case none
    then show ?thesis
      using assms(1,2) o by (cases k) (auto simp: waits_well_def shared_sleep_def split: if_splits)
  next
    case (one c)
    then have "k = Shared" using assms(2) by (cases k) auto
    moreover have "snd c = Exclusive" if "\<not> exclusively_locked (mutex s)"
      using assms(1) one(3) that by (cases "snd c") (auto simp: waits_well_def shared_sleep_def)
    ultimately show ?thesis
      using waits_well_wake [OF assms(1), of c m "remove1 (t, k) (holders s)"] one assms(2) hs
      by (auto split: if_splits)
  next
    case nobody
    then show ?thesis using assms(1) o by (simp add: waits_well_def shared_sleep_def)
  next
    case all
    then show ?thesis
      using assms(1) o distinct_fst_move(1) [of "[]"] by (auto simp: waits_well_def shared_sleep_def orderly_waits_def)
  qed
qed

lemma waits_well_step:
  assumes "lock_step shared_mutex_ops x s s'" "waits_well s" "\<And>t k. x = Call t k \<Longrightarrow> orderly_calls t k s"
  shows "waits_well s'"
  using assms
proof (induction rule: lock_step.induct)
  case (call t s k)
  then show ?case by (auto simp: waits_well_def orderly_waits_def)
next
  case (spurious t k s)
  then have "\<not> exclusively_locked (mutex s) \<longrightarrow> k = Exclusive"
    by (cases k) (auto simp: waits_well_def shared_sleep_def)
  then show ?case
    using waits_well_wake [OF spurious(2,1), of "mutex s" "holders s"] by simp
qed (auto intro: waits_well_acquire waits_well_sleep waits_well_release)

lemma waits_well_run:
  "lock_run shared_mutex_ops orderly_calls s xs s' \<Longrightarrow> s = lock_start new_SharedMutex \<Longrightarrow> waits_well s'"
proof (induction rule: lock_run.induct)
  case (start s)
  then show ?case by (simp add: waits_well_def lock_start_def orderly_waits_def shared_sleep_def)
next
  case (step s xs u x v)
  then show ?case using waits_well_step by blast
qed

text \<open>In such a state somebody can go on, as long as somebody holds the lock or waits for it.\<close>

fun is_progress :: "'t lock_action \<Rightarrow> bool" where
  "is_progress (Acquire t k) = True"
| "is_progress (Release t k) = True"
| "is_progress x = False"

definition lock_load :: "('t, 'm) lock_system \<Rightarrow> nat" where
  "lock_load s = 2 * length (trying s @ asleep s) + length (holders s)"

lemma notifies_total: "\<exists>s'. notifies n s s' \<and> length (trying s' @ asleep s') = length (trying s @ asleep s)"
proof (cases n)
  case Notify_One
  show ?thesis
  proof (cases "asleep s")
    case Nil
    then show ?thesis using Notify_One by (auto intro: notifies.nobody)
  next
    case (Cons c cs)
    then have "notifies Notify_One s (wake c s)" by (intro notifies.one) simp
    then show ?thesis using Notify_One Cons by (intro exI [of _ "wake c s"]) (simp add: wake_def)
  qed
qed (use notifies.none notifies.all [of s] in \<open>fastforce+\<close>)

lemma length_remove1_Suc: "x \<in> set xs \<Longrightarrow> length xs = Suc (length (remove1 x xs))"
  by (induction xs) auto

lemma release_enabled:
  assumes "(t, k) \<in> set (holders s)" "t \<notin> fst ` set (trying s @ asleep s)"
  shows "\<exists>s'. lock_step ops (Release t k) s s' \<and> lock_load s' < lock_load s"
proof -
  obtain n m where u: "unlock ops k (mutex s) = (n, m)" by (cases "unlock ops k (mutex s)")
  let ?s = "s\<lparr>mutex := m, holders := remove1 (t, k) (holders s)\<rparr>"
  obtain s' where s': "notifies n ?s s'" "length (trying s' @ asleep s') = length (trying ?s @ asleep ?s)"
    using notifies_total [of n ?s] by blast
  moreover have "length (remove1 (t, k) (holders s)) < length (holders s)"
    using length_remove1_Suc [OF assms(1)] by simp
  ultimately have "lock_load s' < lock_load s"
    using notifies_same [OF s'(1)] by (simp add: lock_load_def)
  then show ?thesis using lock_step.release [OF assms u s'(1)] by blast
qed

lemma somebody_goes_on:
  assumes a: "shared_mutex.agrees s" and w: "waits_well s" and busy: "lock_load s \<noteq> 0"
  shows "\<exists>x s'. lock_step shared_mutex_ops x s s' \<and> is_progress x \<and> lock_load s' < lock_load s"
proof (cases "\<exists>t k m. (t, k) \<in> set (trying s) \<and> try_lock shared_mutex_ops k t (mutex s) = Some m")
  case True
  then obtain t k m where t: "(t, k) \<in> set (trying s)" "try_lock shared_mutex_ops k t (mutex s) = Some m" by blast
  then show ?thesis
    using lock_step.acquire [OF t] length_remove1_Suc [OF t(1)] by (intro exI conjI) (auto simp: lock_load_def)
next
  case blocked: False
  then have no_try: "try_lock shared_mutex_ops k t (mutex s) = None" if "(t, k) \<in> set (trying s)" for t k
    using that by (meson not_None_eq)
  show ?thesis
  proof (cases "holders s = []")
    case True
    then have free: "shared_counter (mutex s) = 0" "\<not> exclusively_locked (mutex s)"
      using a by (auto simp: lock_agrees_def split: if_splits)
    have "try_lock shared_mutex_ops k t (mutex s) \<noteq> None" for k t
      using free by (cases k) auto
    then have "c \<notin> set (trying s)" for c
      using no_try [of "fst c" "snd c"] by (metis prod.collapse)
    then have "trying s = []"
      by (metis list.set_intros(1) neq_Nil_conv)
    then have False
      using True w busy free by (simp add: waits_well_def lock_load_def)
    then show ?thesis ..
  next
    case False
    have "\<exists>t k. (t, k) \<in> set (holders s) \<and> t \<notin> fst ` set (trying s @ asleep s)"
    proof (cases "exclusively_locked (mutex s)")
      case True
      then obtain t where t: "exclusive_thread_id (mutex s) = Some t"
        "filter (\<lambda>h. snd h = Exclusive) (holders s) = [(t, Exclusive)]"
        using a by (auto simp: lock_agrees_def)
      then have h: "(t, Exclusive) \<in> set (holders s)"
        using filter_set [of "\<lambda>h. snd h = Exclusive" "holders s"] by auto
      have "(t, k) \<notin> set (trying s @ asleep s)" for k
      proof
        assume k: "(t, k) \<in> set (trying s @ asleep s)"
        with w have "orderly t k (holders s)"
          unfolding waits_well_def orderly_waits_def by fastforce
        with h have "k = Shared" by (cases k) (auto simp: orderly_def)
        moreover have "(t, Shared) \<notin> set (trying s)"
          using no_try [of t Shared] t(1) by auto
        moreover have "(t, Shared) \<notin> set (asleep s)"
          using w t(1) by (auto simp: waits_well_def shared_sleep_def)
        ultimately show False using k by simp
      qed
      then show ?thesis using h by fastforce
    next
      case unlocked: False
      obtain t k where h: "(t, k) \<in> set (holders s)" using False by (cases "holders s") auto
      have "k = Shared"
        using a unlocked h by (cases k) (auto simp: lock_agrees_def filter_empty_conv)
      have "(t, l) \<notin> set (trying s @ asleep s)" for l
      proof
        assume "(t, l) \<in> set (trying s @ asleep s)"
        with w have "orderly t l (holders s)"
          unfolding waits_well_def orderly_waits_def by fastforce
        with h \<open>k = Shared\<close> show False by (simp add: orderly_def)
      qed
      then show ?thesis using h by fastforce
    qed
    then show ?thesis
      using release_enabled by (metis is_progress.simps(2))
  qed
qed

lemma lock_run_front:
  assumes "lock_run ops rule u ys v" "lock_step ops x s u" "is_progress x"
  shows "lock_run ops rule s (x # ys) v"
  using assms
proof (induction rule: lock_run.induct)
  case (start u)
  then show ?case using lock_run.step [OF lock_run.start, of ops x s u rule] by (cases x) auto
next
  case (step u ys w y v)
  then have "lock_run ops rule s ((x # ys) @ [y]) v"
    by (intro lock_run.step) auto
  then show ?case by simp
qed

lemma everybody_finishes:
  assumes "shared_mutex.agrees s" "waits_well s"
  shows "\<exists>ys s'. lock_run shared_mutex_ops orderly_calls s ys s' \<and> list_all is_progress ys \<and> lock_load s' = 0"
  using assms
proof (induction "lock_load s" arbitrary: s rule: less_induct)
  case less
  show ?case
  proof (cases "lock_load s = 0")
    case True
    then show ?thesis using lock_run.start [of shared_mutex_ops orderly_calls s] by (intro exI [of _ "[]"]) auto
  next
    case False
    then obtain x u where x: "lock_step shared_mutex_ops x s u" "is_progress x" "lock_load u < lock_load s"
      using somebody_goes_on less.prems by blast
    have "shared_mutex.agrees u" "waits_well u"
      using shared_mutex.agrees_step [OF x(1) less.prems(1)] waits_well_step [OF x(1) less.prems(2)] x(2)
      by (cases x; auto)+
    then obtain ys s' where "lock_run shared_mutex_ops orderly_calls u ys s'" "list_all is_progress ys" "lock_load s' = 0"
      using less.hyps [OF x(3)] by blast
    then show ?thesis
      using lock_run_front [OF _ x(1,2)] x(2) by (intro exI [of _ "x # ys"]) auto
  qed
qed

section \<open>What the two locks give\<close>

text \<open>C20: mutual exclusion, for both classes.  In every run of any number of threads that lock
  and unlock as they like, with spurious wake-ups, at most one object is locked exclusively,
  and while it is, no other thread holds the lock in any way.
\<close>
theorem locks_exclude:
  "(lock_run shared_mutex_ops any (lock_start new_SharedMutex) xs s \<longrightarrow> exclusion (holders s)) \<and>
   (lock_run priority_mutex_ops any' (lock_start new_SharedMutexPriority) xs u \<longrightarrow> exclusion (holders u))"
  using shared_mutex.run_excludes priority_mutex.run_excludes by blast

text \<open>C10: SharedMutex loses no wake-up and does not deadlock.  From every state that threads
  reach that call it as its users do, the calls that are made so far can all return and the
  locks be given back by steps that take a lock or give it back, without any spurious
  wake-up: somebody who sleeps on the condition variable is always notified in time.
\<close>
theorem shared_mutex_progress:
  assumes "lock_run shared_mutex_ops orderly_calls (lock_start new_SharedMutex) xs s"
  shows "\<exists>ys s'. lock_run shared_mutex_ops orderly_calls s ys s' \<and> list_all is_progress ys \<and>
    holders s' = [] \<and> trying s' = [] \<and> asleep s' = []"
  using everybody_finishes [OF shared_mutex.agrees_run [OF assms refl] waits_well_run [OF assms refl]]
  by (auto simp: lock_load_def)

text \<open>The run that loses the wake-up: thread 1 reads, thread 2 wants to write, thread 3 to read.\<close>

definition lost_run :: "nat lock_action list" where
  "lost_run = [Call 1 Shared, Acquire 1 Shared, Call 2 Exclusive, Sleep 2 Exclusive, Call 3 Shared, Sleep 3 Shared,
     Release 1 Shared, Sleep 3 Shared]"

text \<open>SharedMutexPriority loses a wake-up.  Threads that call it in the same orderly way
  reach a state in which nobody holds the lock, a thread sleeps that could take it
  exclusively at once, and nothing happens any more unless another call is made or the
  condition variable wakes somebody spuriously: the one notification of the last reader went
  to a reader that waits for the writer.
\<close>
theorem priority_mutex_lost_wakeup:
  "\<exists>s. lock_run priority_mutex_ops orderly_calls (lock_start new_SharedMutexPriority) lost_run s \<and>
     holders s = [] \<and> trying s = [] \<and> (2, Exclusive) \<in> set (asleep s) \<and>
     try_lock priority_mutex_ops Exclusive 2 (mutex s) \<noteq> None \<and>
     (\<forall>x s'. lock_step priority_mutex_ops x s s' \<longrightarrow> (\<exists>t k. x = Call t k \<or> x = Spurious t k))"
proof -
  let ?m = "\<lambda>shared excl. \<lparr>pri_shared_counter = shared, pri_exclusive_counter = excl,
    pri_exclusively_locked = False, pri_exclusive_thread_id = None :: nat option\<rparr>"
  let ?s = "\<lparr>mutex = ?m 0 1, holders = [], trying = [], asleep = [(3, Shared), (2, Exclusive)]\<rparr>"
  let ?run = "lock_run priority_mutex_ops orderly_calls (lock_start new_SharedMutexPriority)"
  note next_step = lock_run.step [of priority_mutex_ops orderly_calls "lock_start new_SharedMutexPriority"]
  have "?run [] \<lparr>mutex = ?m 0 0, holders = [], trying = [], asleep = []\<rparr>"
    using lock_run.start [of priority_mutex_ops orderly_calls "lock_start new_SharedMutexPriority"]
    by (simp add: lock_start_def new_SharedMutexPriority_def)
  from next_step [OF this lock_step.call [of 1 _ _ Shared]]
  have "?run [Call 1 Shared] \<lparr>mutex = ?m 0 0, holders = [], trying = [(1, Shared)], asleep = []\<rparr>"
    by (simp add: orderly_def)
  from next_step [OF this lock_step.acquire [of 1 Shared _ _ "?m 1 0"]]
  have "?run [Call 1 Shared, Acquire 1 Shared] \<lparr>mutex = ?m 1 0, holders = [(1, Shared)], trying = [], asleep = []\<rparr>"
    by simp
  from next_step [OF this lock_step.call [of 2 _ _ Exclusive]]
  have "?run (take 3 lost_run)
      \<lparr>mutex = ?m 1 1, holders = [(1, Shared)], trying = [(2, Exclusive)], asleep = []\<rparr>"
    by (simp add: orderly_def lost_run_def)
  from next_step [OF this lock_step.sleep [of 2 Exclusive]]
  have "?run (take 4 lost_run)
      \<lparr>mutex = ?m 1 1, holders = [(1, Shared)], trying = [], asleep = [(2, Exclusive)]\<rparr>"
    by (simp add: lost_run_def)
  from next_step [OF this lock_step.call [of 3 _ _ Shared]]
  have "?run (take 5 lost_run)
      \<lparr>mutex = ?m 1 1, holders = [(1, Shared)], trying = [(3, Shared)], asleep = [(2, Exclusive)]\<rparr>"
    by (simp add: orderly_def lost_run_def)
  from next_step [OF this lock_step.sleep [of 3 Shared]]
  have "?run (take 6 lost_run)
      \<lparr>mutex = ?m 1 1, holders = [(1, Shared)], trying = [], asleep = [(3, Shared), (2, Exclusive)]\<rparr>"
    by (simp add: lost_run_def)
  from next_step [OF this lock_step.release [of 1 Shared _ _ Notify_One "?m 0 1", OF _ _ _ notifies.one [of "(3, Shared)"]]]
  have "?run (take 7 lost_run)
      \<lparr>mutex = ?m 0 1, holders = [], trying = [(3, Shared)], asleep = [(2, Exclusive)]\<rparr>"
    by (simp add: lost_run_def wake_def)
  from next_step [OF this lock_step.sleep [of 3 Shared]]
  have "?run lost_run ?s" by (simp add: lost_run_def)
  moreover have "\<exists>t k. x = Call t k \<or> x = Spurious t k" if "lock_step priority_mutex_ops x ?s s'" for x s'
    using that by (cases x) (auto elim: lock_step_elims)
  ultimately show ?thesis by (intro exI [of _ ?s]) simp
qed

text \<open>One thread writes while another one sleeps.\<close>

lemma sample_lock_run:
  "\<exists>s. lock_run shared_mutex_ops orderly_calls (lock_start new_SharedMutex)
     [Call (1::nat) Exclusive, Acquire 1 Exclusive, Call 2 Shared, Sleep 2 Shared] s \<and>
     holders s = [(1, Exclusive)] \<and> asleep s = [(2, Shared)]"
proof -
  let ?run = "lock_run shared_mutex_ops orderly_calls (lock_start new_SharedMutex)"
  let ?m = "\<lambda>b t. \<lparr>shared_counter = 0, exclusively_locked = b, exclusive_thread_id = t :: nat option\<rparr>"
  note next_step = lock_run.step [of shared_mutex_ops orderly_calls "lock_start new_SharedMutex"]
  have "?run [] \<lparr>mutex = ?m False None, holders = [], trying = [], asleep = []\<rparr>"
    using lock_run.start [of shared_mutex_ops orderly_calls "lock_start new_SharedMutex"]
    by (simp add: lock_start_def new_SharedMutex_def)
  from next_step [OF this lock_step.call [of 1 _ _ Exclusive]]
  have "?run [Call 1 Exclusive] \<lparr>mutex = ?m False None, holders = [], trying = [(1, Exclusive)], asleep = []\<rparr>"
    by (simp add: orderly_def)
  from next_step [OF this lock_step.acquire [of 1 Exclusive _ _ "?m True (Some 1)"]]
  have "?run [Call 1 Exclusive, Acquire 1 Exclusive]
      \<lparr>mutex = ?m True (Some 1), holders = [(1, Exclusive)], trying = [], asleep = []\<rparr>"
    by simp
  from next_step [OF this lock_step.call [of 2 _ _ Shared]]
  have "?run [Call 1 Exclusive, Acquire 1 Exclusive, Call 2 Shared]
      \<lparr>mutex = ?m True (Some 1), holders = [(1, Exclusive)], trying = [(2, Shared)], asleep = []\<rparr>"
    by (simp add: orderly_def)
  from next_step [OF this lock_step.sleep [of 2 Shared]]
  have "?run [Call 1 Exclusive, Acquire 1 Exclusive, Call 2 Shared, Sleep 2 Shared]
      \<lparr>mutex = ?m True (Some 1), holders = [(1, Exclusive)], trying = [], asleep = [(2, Shared)]\<rparr>"
    by simp
  then show ?thesis by (intro exI conjI) auto
qed

lemma locks_exclude_witness:
  "\<exists>xs (s :: (nat, nat SharedMutex) lock_system). lock_run shared_mutex_ops orderly_calls (lock_start new_SharedMutex) xs s \<and>
     holders s \<noteq> [] \<and> exclusion (holders s)"
  using sample_lock_run locks_exclude by (metis list.discI)

lemma shared_mutex_progress_witness:
  "\<exists>s ys s'. lock_run shared_mutex_ops orderly_calls (lock_start new_SharedMutex)
       [Call (1::nat) Exclusive, Acquire 1 Exclusive, Call 2 Shared, Sleep 2 Shared] s \<and> asleep s \<noteq> [] \<and>
     lock_run shared_mutex_ops orderly_calls s ys s' \<and> list_all is_progress ys \<and> asleep s' = []"
  using sample_lock_run shared_mutex_progress by (metis list.discI)

text \<open>In the lost run, the implications of the last theorem are met: the first call takes the lock.\<close>

lemma priority_mutex_lost_wakeup_witness:
  "\<exists>s. lock_run priority_mutex_ops orderly_calls (lock_start new_SharedMutexPriority) lost_run s \<and> asleep s \<noteq> [] \<and>
     \<not> lock_step priority_mutex_ops (Acquire 2 Exclusive) s s"
proof -
  obtain s where s: "lock_run priority_mutex_ops orderly_calls (lock_start new_SharedMutexPriority) lost_run s"
    "(2, Exclusive) \<in> set (asleep s)"
    "\<forall>x s'. lock_step priority_mutex_ops x s s' \<longrightarrow> (\<exists>t k. x = Call t k \<or> x = Spurious t k)"
    using priority_mutex_lost_wakeup by blast
  then have "\<not> lock_step priority_mutex_ops (Acquire 2 Exclusive) s s" "asleep s \<noteq> []" by fastforce+
  then show ?thesis using s(1) by blast
qed

end
