(* ===== verification/SessionLocks.thy ===== *)
theory SessionLocks
  imports Session SharedMutex
begin

text \<open>
  Threads that use one session (client/session/Session.hpp over utils/SharedMutex.hpp): the
  composition of Session and SharedMutex.  The table of reliable output streams is read
  under the shared lock and changed under the exclusive one; an operation on a stream holds
  the shared lock, and get_reliable_output_stream gives it up and takes both locks when it
  has to make the stream.

  A thread is a program counter, one for each point between two accesses; a step is a step
  of the lock (lock_step) or an access to the session.  What an operation does to the stream
  it found is one step, since the stream has a mutex of its own.

  The invariant says which locks each program counter holds.  From it: no thread reads or
  writes the table while another one changes it, a stream that two threads miss at the same
  time is made once, threads use the locks as SharedMutex demands, and every interleaving
  gives what the operations give one after the other, in the order of their accesses.
\<close>

section \<open>Threads\<close>

text \<open>What a thread does under the lock: an operation on a reliable output stream, or a loop over all of them.\<close>

datatype 'c task = Operation "'c session_op" | Reset_Streams | List_Streams

fun table_stream :: "'c session_op \<Rightarrow> StreamId option" where
  "table_stream (Push_Output i k d) = (if is_reliable_stream i then Some i else None)"
| "table_stream (Next_Output i) = (if is_reliable_stream i then Some i else None)"
| "table_stream (Get_Output i n) = (if is_reliable_stream i then Some i else None)"
| "table_stream (From_Acknack i a) = (if is_reliable_stream i then Some i else None)"
| "table_stream (Fill_Heartbeat i hb) = (if is_reliable_stream i then Some i else None)"
| "table_stream x = None"

definition op_key :: "'c session_op \<Rightarrow> StreamId" where
  "op_key x = the (table_stream x)"

text \<open>
  The points of Session's methods: Find is find, Insert is operator[], Relock is the second
  shared_lock.lock(), Visit is a loop over the table with the streams it has passed and
  those to come.
\<close>

datatype 'c pc =
    Idle
  | Locking "'c task"
  | Find "'c session_op"
  | Unlock "'c session_op"
  | Exclusive_Locking "'c session_op"
  | Relock "'c session_op"
  | Insert "'c session_op"
  | Drop_Exclusive "'c session_op"
  | Use "'c session_op"
  | Begin_Visit bool
  | Visit bool "StreamId list" "StreamId list"
  | Leave

fun wants :: "'c pc \<Rightarrow> lock_kind option" where
  "wants (Locking y) = Some Shared"
| "wants (Exclusive_Locking x) = Some Exclusive"
| "wants (Relock x) = Some Shared"
| "wants p = None"

fun when_locked :: "'c pc \<Rightarrow> 'c pc" where
  "when_locked (Locking (Operation x)) = Find x"
| "when_locked (Locking Reset_Streams) = Begin_Visit True"
| "when_locked (Locking List_Streams) = Begin_Visit False"
| "when_locked (Exclusive_Locking x) = Relock x"
| "when_locked (Relock x) = Insert x"
| "when_locked p = p"

fun gives_back :: "'c pc \<Rightarrow> (lock_kind \<times> 'c pc) option" where
  "gives_back (Unlock x) = Some (Shared, Exclusive_Locking x)"
| "gives_back (Drop_Exclusive x) = Some (Exclusive, Use x)"
| "gives_back Leave = Some (Shared, Idle)"
| "gives_back p = None"

text \<open>What happened to the streams: an operation with its result, or the reset of one stream.\<close>

datatype 'c stream_event = Did "'c session_op" "'c session_result" | Did_Reset StreamId

definition reset_stream :: "StreamId \<Rightarrow> 'c Session \<Rightarrow> 'c Session" where
  "reset_stream i s = s\<lparr>reliable_ostreams :=
     map_put i (ReliableOutputStream_reset (reliable_out_at s i)) (reliable_ostreams s)\<rparr>"

text \<open>An access of the session: the next point, the session, and what happened.\<close>

fun session_access :: "'c cdr_lib \<Rightarrow> 'c pc \<Rightarrow> 'c Session \<Rightarrow> ('c pc \<times> 'c Session \<times> 'c stream_event list) option" where
  "session_access L (Find x) s =
     Some (case map_find (reliable_ostreams s) (op_key x) of Some _ \<Rightarrow> Use x | None \<Rightarrow> Unlock x, s, [])"
| "session_access L (Insert x) s =
     Some (Drop_Exclusive x, s\<lparr>reliable_ostreams :=
       map_put (op_key x) (reliable_out_at s (op_key x)) (reliable_ostreams s)\<rparr>, [])"
| "session_access L (Use x) s =
     (case session_step L x s of Inr (r, u) \<Rightarrow> Some (Leave, u, [Did x r]) | Inl e \<Rightarrow> None)"
| "session_access L (Begin_Visit b) s = Some (Visit b [] (map fst (reliable_ostreams s)), s, [])"
| "session_access L (Visit b done []) s = Some (Leave, s, [])"
| "session_access L (Visit b done (i # is)) s =
     Some (Visit b (done @ [i]) is, if b then reset_stream i s else s, if b then [Did_Reset i] else [])"
| "session_access L p s = None"

record ('t, 'c) session_system =
  locks :: "('t, 't SharedMutex) lock_system"
  pcs :: "'t \<Rightarrow> 'c pc"
  shared_session :: "'c Session"
  history :: "'c stream_event list"

definition system_start :: "'c Session \<Rightarrow> ('t, 'c) session_system" where
  "system_start s = \<lparr>locks = lock_start new_SharedMutex, pcs = (\<lambda>t. Idle), shared_session = s, history = []\<rparr>"

abbreviation moves :: "'t \<Rightarrow> 'c pc \<Rightarrow> ('t, 'c) session_system \<Rightarrow> ('t, 'c) session_system" where
  "moves t p s \<equiv> s\<lparr>pcs := (pcs s)(t := p)\<rparr>"

datatype 't move = Begin 't | Lock_Move "'t lock_action" | Access 't

inductive system_step :: "'c cdr_lib \<Rightarrow> 't move \<Rightarrow> ('t, 'c) session_system \<Rightarrow> ('t, 'c) session_system \<Rightarrow> bool"
  for L where
  begins: "pcs s t = Idle \<Longrightarrow> (\<forall>x. y = Operation x \<longrightarrow> table_stream x \<noteq> None) \<Longrightarrow>
    system_step L (Begin t) s (moves t (Locking y) s)"
| calls: "wants (pcs s t) = Some k \<Longrightarrow> lock_step shared_mutex_ops (Call t k) (locks s) l \<Longrightarrow>
    system_step L (Lock_Move (Call t k)) s (s\<lparr>locks := l\<rparr>)"
| sleeps: "lock_step shared_mutex_ops (Sleep t k) (locks s) l \<Longrightarrow>
    system_step L (Lock_Move (Sleep t k)) s (s\<lparr>locks := l\<rparr>)"
| wakes: "lock_step shared_mutex_ops (Spurious t k) (locks s) l \<Longrightarrow>
    system_step L (Lock_Move (Spurious t k)) s (s\<lparr>locks := l\<rparr>)"
| acquires: "lock_step shared_mutex_ops (Acquire t k) (locks s) l \<Longrightarrow>
    system_step L (Lock_Move (Acquire t k)) s (moves t (when_locked (pcs s t)) (s\<lparr>locks := l\<rparr>))"
| releases: "gives_back (pcs s t) = Some (k, p) \<Longrightarrow> lock_step shared_mutex_ops (Release t k) (locks s) l \<Longrightarrow>
    system_step L (Lock_Move (Release t k)) s (moves t p (s\<lparr>locks := l\<rparr>))"
| accesses: "session_access L (pcs s t) (shared_session s) = Some (p, u, es) \<Longrightarrow>
    system_step L (Access t) s (moves t p (s\<lparr>shared_session := u, history := history s @ es\<rparr>))"

inductive system_run :: "'c cdr_lib \<Rightarrow> ('t, 'c) session_system \<Rightarrow> 't move list \<Rightarrow> ('t, 'c) session_system \<Rightarrow> bool"
  for L where
  start: "system_run L s [] s"
| step: "system_run L s ms u \<Longrightarrow> system_step L m u v \<Longrightarrow> system_run L s (ms @ [m]) v"

text \<open>The operations and resets one after the other.\<close>

inductive replay :: "'c cdr_lib \<Rightarrow> 'c Session \<Rightarrow> 'c stream_event list \<Rightarrow> 'c Session \<Rightarrow> bool"
  for L s where
  nothing: "replay L s [] s"
| did: "replay L s es u \<Longrightarrow> session_step L x u = Inr (r, v) \<Longrightarrow> replay L s (es @ [Did x r]) v"
| did_reset: "replay L s es u \<Longrightarrow> replay L s (es @ [Did_Reset i]) (reset_stream i u)"

text \<open>Find and Insert are the two ends of get_reliable_output_stream.\<close>

lemma access_gets_stream:
  "session_access L (Find x) s = Some (Use x, s, []) \<and> get_reliable_output_stream (op_key x) s = (reliable_out_at s (op_key x), s) \<or>
   session_access L (Find x) s = Some (Unlock x, s, []) \<and>
   session_access L (Insert x) s = Some (Drop_Exclusive x, snd (get_reliable_output_stream (op_key x) s), [])"
  by (simp add: get_reliable_output_stream_def map_index_def split: option.split)

section \<open>The locks that a thread holds\<close>

fun holds :: "'c pc \<Rightarrow> lock_kind list" where
  "holds Idle = []"
| "holds (Locking y) = []"
| "holds (Exclusive_Locking x) = []"
| "holds (Relock x) = [Exclusive]"
| "holds (Insert x) = [Shared, Exclusive]"
| "holds (Drop_Exclusive x) = [Shared, Exclusive]"
| "holds p = [Shared]"

lemma holds_acquired: "wants p = Some k \<Longrightarrow> holds (when_locked p) = k # holds p"
  by (cases p rule: when_locked.cases) auto

lemma holds_given: "gives_back p = Some (k, q) \<Longrightarrow> holds q = remove1 k (holds p) \<and> k \<in> set (holds p) \<and> wants p = None"
  by (cases p) auto

lemma holds_accessed:
  "session_access L p s = Some (q, u, es) \<Longrightarrow> holds q = holds p \<and> holds p \<noteq> [] \<and> wants p = None"
  by (cases "(L, p, s)" rule: session_access.cases) (auto split: option.splits sum.splits if_splits)

lemma holds_wanted: "wants p = Some k \<Longrightarrow> Shared \<notin> set (holds p) \<and> (k = Exclusive \<longrightarrow> holds p = [])"
  by (cases p) auto

definition holders_agree :: "('t, 'm) lock_system \<Rightarrow> ('t \<Rightarrow> 'c pc) \<Rightarrow> bool" where
  "holders_agree l ps \<longleftrightarrow> (\<forall>t. filter (\<lambda>h. fst h = t) (holders l) = map (Pair t) (holds (ps t)))"

definition calls_agree :: "('t, 'm) lock_system \<Rightarrow> ('t \<Rightarrow> 'c pc) \<Rightarrow> bool" where
  "calls_agree l ps \<longleftrightarrow> list_all (\<lambda>(t, k). wants (ps t) = Some k) (trying l @ asleep l)"

definition locks_agree :: "('t, 't SharedMutex) lock_system \<Rightarrow> ('t \<Rightarrow> 'c pc) \<Rightarrow> bool" where
  "locks_agree l ps \<longleftrightarrow> holders_agree l ps \<and> calls_agree l ps \<and> shared_mutex.agrees l \<and> waits_well l"

lemma holder_iff:
  assumes "holders_agree l ps"
  shows "(t, k) \<in> set (holders l) \<longleftrightarrow> k \<in> set (holds (ps t))"
proof -
  have "set (filter (\<lambda>h. fst h = t) (holders l)) = set (map (Pair t) (holds (ps t)))"
    using assms by (simp add: holders_agree_def)
  then show ?thesis by (force simp: set_eq_iff)
qed

lemma waiting_wants: "calls_agree l ps \<Longrightarrow> (t, k) \<in> set (trying l @ asleep l) \<Longrightarrow> wants (ps t) = Some k"
  by (auto simp: calls_agree_def list_all_iff)

lemma not_waiting: "calls_agree l ps \<Longrightarrow> wants (ps t) = None \<Longrightarrow> t \<notin> fst ` set (trying l @ asleep l)"
  using waiting_wants by fastforce

lemma insert_remove1: "c \<in> set xs \<Longrightarrow> insert c (set (remove1 c xs)) = set xs"
  by (induction xs) auto

lemma notifies_waiting: "notifies n s s' \<Longrightarrow> set (trying s' @ asleep s') = set (trying s @ asleep s)"
  by (induction rule: notifies.induct) (use insert_remove1 in \<open>fastforce simp: wake_def\<close>)+

text \<open>A thread that does not wait moves; the waiting calls are as before or fewer.\<close>

lemma calls_agree_move:
  assumes "calls_agree l ps" "set (trying l' @ asleep l') \<subseteq> set (trying l @ asleep l)"
    "t \<notin> fst ` set (trying l' @ asleep l')"
  shows "calls_agree l' (ps(t := p))"
  unfolding calls_agree_def list_all_iff
proof (intro ballI, clarify)
  fix u k assume u: "(u, k) \<in> set (trying l' @ asleep l')"
  then have "u \<noteq> t" using assms(3) by (metis fst_conv image_eqI)
  moreover have "(u, k) \<in> set (trying l @ asleep l)" using u assms(2) by blast
  ultimately show "wants ((ps(t := p)) u) = Some k"
    using waiting_wants [OF assms(1)] by simp
qed

lemma filter_holders_other: "t \<noteq> v \<Longrightarrow> filter (\<lambda>h. fst h = v) (remove1 (t, k) hs) = filter (\<lambda>h. fst h = v) hs"
  by (simp add: filter_remove1 remove1_idem)

lemma remove1_map_Pair: "remove1 (t, k) (map (Pair t) ks) = map (Pair t) (remove1 k ks)"
  by (induction ks) auto

lemma locks_agree_move:
  assumes "locks_agree l ps" "holds p = holds (ps t)" "wants (ps t) = None"
  shows "locks_agree l (ps(t := p))"
  using assms calls_agree_move [of l ps l t p] not_waiting [of l ps t]
  by (simp add: locks_agree_def holders_agree_def)

lemma locks_agree_acquire:
  assumes "locks_agree l ps" "lock_step shared_mutex_ops (Acquire t k) l l'"
  shows "locks_agree l' (ps(t := when_locked (ps t)))"
proof -
  have agree: "holders_agree l ps" "calls_agree l ps" "shared_mutex.agrees l" "waits_well l"
    using assms(1) by (auto simp: locks_agree_def)
  obtain m where t: "(t, k) \<in> set (trying l)"
    and l': "l' = l\<lparr>mutex := m, trying := remove1 (t, k) (trying l), holders := (t, k) # holders l\<rparr>"
    using assms(2) by (auto elim: acquire_step)
  then have w: "wants (ps t) = Some k"
    using waiting_wants [OF agree(2), of t k] by simp
  have "holders_agree l' (ps(t := when_locked (ps t)))"
    using agree(1) holds_acquired [OF w] l' by (auto simp: holders_agree_def)
  moreover have "t \<notin> fst ` set (trying l' @ asleep l')"
    using distinct_fst_move(3) [OF _ t, of "asleep l"] agree(4) l' by (simp add: waits_well_def)
  then have "calls_agree l' (ps(t := when_locked (ps t)))"
    using calls_agree_move [OF agree(2), of l'] l' set_remove1_subset [of "(t, k)" "trying l"] by auto
  ultimately show ?thesis
    using shared_mutex.agrees_step [OF assms(2) agree(3)] waits_well_step [OF assms(2) agree(4)]
    by (simp add: locks_agree_def)
qed

lemma locks_agree_release:
  assumes "locks_agree l ps" "gives_back (ps t) = Some (k, p)" "lock_step shared_mutex_ops (Release t k) l l'"
  shows "locks_agree l' (ps(t := p))"
proof -
  have agree: "holders_agree l ps" "calls_agree l ps" "shared_mutex.agrees l" "waits_well l"
    using assms(1) by (auto simp: locks_agree_def)
  have p: "holds p = remove1 k (holds (ps t))" "wants (ps t) = None"
    using holds_given [OF assms(2)] by auto
  obtain n m where n: "notifies n (l\<lparr>mutex := m, holders := remove1 (t, k) (holders l)\<rparr>) l'"
    using assms(3) by (auto elim: release_step)
  then have l': "holders l' = remove1 (t, k) (holders l)" "set (trying l' @ asleep l') = set (trying l @ asleep l)"
    using notifies_same notifies_waiting by fastforce+
  have "filter (\<lambda>h. fst h = v) (holders l') = map (Pair v) (holds ((ps(t := p)) v))" for v
    using agree(1) l'(1) p(1) filter_holders_other [of t v k "holders l"]
    by (cases "v = t") (auto simp: holders_agree_def filter_remove1 remove1_map_Pair)
  then have "holders_agree l' (ps(t := p))" by (simp add: holders_agree_def)
  moreover have "calls_agree l' (ps(t := p))"
    using l'(2) not_waiting [OF agree(2) p(2)]
    by (intro calls_agree_move [OF agree(2)]) (simp_all del: set_append)
  ultimately show ?thesis
    using shared_mutex.agrees_step [OF assms(3) agree(3)] waits_well_step [OF assms(3) agree(4)]
    by (simp add: locks_agree_def)
qed

lemma locks_agree_wait:
  assumes "locks_agree l ps" "lock_step shared_mutex_ops x l l'" "x = Sleep t k \<or> x = Spurious t k"
  shows "locks_agree l' ps"
proof -
  have "holders l' = holders l" "set (trying l' @ asleep l') = set (trying l @ asleep l)"
    using assms(2,3) insert_remove1 by (fastforce elim!: sleep_step spurious_step simp: wake_def)+
  then have "holders_agree l' ps" "calls_agree l' ps"
    using assms(1) by (auto simp: locks_agree_def holders_agree_def calls_agree_def list_all_iff)
  then show ?thesis
    using assms(1,3) shared_mutex.agrees_step [OF assms(2)] waits_well_step [OF assms(2)]
    by (auto simp: locks_agree_def)
qed

lemma locks_agree_call:
  assumes "locks_agree l ps" "lock_step shared_mutex_ops (Call t k) l l'" "wants (ps t) = Some k"
  shows "locks_agree l' ps"
proof -
  have agree: "holders_agree l ps" "calls_agree l ps" using assms(1) by (auto simp: locks_agree_def)
  have "orderly t k (holders l)"
    using holds_wanted [OF assms(3)] holder_iff [OF agree(1)] by (auto simp: orderly_def)
  moreover have "l' = l\<lparr>trying := (t, k) # trying l\<rparr>"
    using assms(2) by (auto elim: call_step)
  ultimately show ?thesis
    using assms shared_mutex.agrees_step [OF assms(2)] waits_well_step [OF assms(2)]
    by (auto simp: locks_agree_def holders_agree_def calls_agree_def)
qed

abbreviation locks_ok :: "('t, 'c) session_system \<Rightarrow> bool" where
  "locks_ok s \<equiv> locks_agree (locks s) (pcs s)"

lemma locks_ok_step: "system_step L m s s' \<Longrightarrow> locks_ok s \<Longrightarrow> locks_ok s'"
proof (induction rule: system_step.induct)
  case (begins s t y)
  then show ?case using locks_agree_move [of "locks s" "pcs s" "Locking y" t] by (simp add: fun_upd_def)
next
  case (accesses s t p u es)
  then show ?case using locks_agree_move [of "locks s" "pcs s" p t] holds_accessed [OF accesses(1)] by (simp add: fun_upd_def)
qed (auto intro: locks_agree_call locks_agree_wait locks_agree_acquire locks_agree_release)

lemma locks_ok_start: "locks_ok (system_start s)"
  using shared_mutex.agrees_run [OF lock_run.start refl] waits_well_run [OF lock_run.start refl]
  by (simp add: locks_agree_def holders_agree_def calls_agree_def system_start_def lock_start_def)

lemma locks_ok_run: "system_run L s ms s' \<Longrightarrow> locks_ok s \<Longrightarrow> locks_ok s'"
  by (induction rule: system_run.induct) (auto intro: locks_ok_step)

text \<open>A thread that is about to change the table is the only one that holds a lock.\<close>

lemma insert_alone:
  assumes "locks_agree l ps" "Exclusive \<in> set (holds (ps t))" "u \<noteq> t"
  shows "holds (ps u) = []"
proof (rule ccontr)
  have a: "holders_agree l ps" "exclusion (holders l)"
    using assms(1) lock_agrees_exclusion by (auto simp: locks_agree_def)
  assume "holds (ps u) \<noteq> []"
  then obtain k where "(u, k) \<in> set (holders l)"
    using holder_iff [OF a(1)] by (metis list.set_intros(1) neq_Nil_conv)
  moreover have "(t, Exclusive) \<in> set (holders l)"
    using holder_iff [OF a(1)] assms(2) by simp
  ultimately show False using a(2) assms(3) unfolding exclusion_def by blast
qed

section \<open>The table under the locks\<close>

abbreviation table_keys :: "'c Session \<Rightarrow> StreamId list" where
  "table_keys s \<equiv> map fst (reliable_ostreams s)"

text \<open>What a thread knows of the table: its reference and its iterator are valid.\<close>

fun table_known :: "'c pc \<Rightarrow> StreamId list \<Rightarrow> bool" where
  "table_known (Find x) ks = (table_stream x \<noteq> None)"
| "table_known (Unlock x) ks = (table_stream x \<noteq> None)"
| "table_known (Exclusive_Locking x) ks = (table_stream x \<noteq> None)"
| "table_known (Relock x) ks = (table_stream x \<noteq> None)"
| "table_known (Insert x) ks = (table_stream x \<noteq> None)"
| "table_known (Drop_Exclusive x) ks = (table_stream x \<noteq> None \<and> op_key x \<in> set ks)"
| "table_known (Use x) ks = (table_stream x \<noteq> None \<and> op_key x \<in> set ks)"
| "table_known (Visit b done is) ks = (done @ is = ks)"
| "table_known (Locking (Operation x)) ks = (table_stream x \<noteq> None)"
| "table_known p ks = True"

lemma table_known_locked: "wants p = Some k \<Longrightarrow> table_known p ks \<Longrightarrow> table_known (when_locked p) ks"
  by (cases p rule: when_locked.cases) auto

lemma table_known_given: "gives_back p = Some (k, q) \<Longrightarrow> table_known p ks \<Longrightarrow> table_known q ks"
  by (cases p) auto

lemma table_known_unlocked: "holds p = [] \<Longrightarrow> table_known p ks = table_known p ks'"
  by (cases "(p, ks)" rule: table_known.cases) auto

lemma keys_put: "map fst (map_put k v m) = (if k \<in> set (map fst m) then map fst m else map fst m @ [k])"
  by (simp add: map_put_def update_keys)

lemma found_iff: "map_find m k = None \<longleftrightarrow> k \<notin> set (map fst m)"
  by (simp add: map_find_def map_of_eq_None_iff)

lemma get_found: "i \<in> set (table_keys s) \<Longrightarrow> snd (get_reliable_output_stream i s) = s"
  using found_iff [of "reliable_ostreams s" i] by (auto simp: get_reliable_output_stream_def split: option.split)

lemma use_keys:
  assumes "session_step L x s = Inr (r, u)" "table_stream x = Some i" "i \<in> set (table_keys s)"
  shows "table_keys u = table_keys s"
proof -
  have put: "table_keys (s\<lparr>reliable_ostreams := map_put i v (reliable_ostreams s)\<rparr>) = table_keys s" for v
    using assms(3) by (simp add: keys_put)
  from assms(1,2) show ?thesis
    by (cases x)
      (auto simp: session_output_defs get_reliable_let put [simplified] get_found [OF assms(3)] stream_kinds
        split: if_splits prod.splits)
qed

text \<open>Only Insert adds a key; every other access leaves the keys as they are.\<close>

lemma access_keys:
  assumes "session_access L p s = Some (q, u, es)" "table_known p (table_keys s)"
  shows "table_known q (table_keys u) \<and> (Exclusive \<notin> set (holds p) \<longrightarrow> table_keys u = table_keys s)"
proof (cases p)
  case (Find x)
  then show ?thesis
    using assms found_iff [of "reliable_ostreams s" "op_key x"] by (auto simp del: set_map split: option.splits)
next
  case (Use x)
  then obtain r where r: "session_step L x s = Inr (r, u)" "q = Leave"
    using assms(1) by (auto split: sum.splits)
  obtain i where "table_stream x = Some i" "i \<in> set (table_keys s)"
    using assms(2) Use by (force simp: op_key_def)
  then show ?thesis using use_keys [OF r(1)] r(2) by simp
next
  case (Visit b past todo)
  then have keys: "table_keys s = past @ todo" using assms(2) by simp
  show ?thesis
  proof (cases todo)
    case (Cons i js)
    then have "table_keys (reset_stream i s) = table_keys s"
      using keys by (simp add: reset_stream_def keys_put del: set_map)
    then show ?thesis using assms(1) Visit Cons keys by auto
  qed (use assms Visit in simp)
qed (use assms in \<open>auto simp: keys_put\<close>)

definition table_ok :: "('t, 'c) session_system \<Rightarrow> bool" where
  "table_ok s \<longleftrightarrow> (\<forall>t. table_known (pcs s t) (table_keys (shared_session s)))"

lemma table_ok_step: "system_step L m s s' \<Longrightarrow> locks_ok s \<Longrightarrow> table_ok s \<Longrightarrow> table_ok s'"
proof (induction rule: system_step.induct)
  case (begins s t y)
  then show ?case by (cases y) (auto simp: table_ok_def)
next
  case (acquires t k s l)
  then have "(t, k) \<in> set (trying (locks s) @ asleep (locks s))" by (auto elim: acquire_step)
  then have w: "wants (pcs s t) = Some k"
    using acquires(2) waiting_wants [of "locks s" "pcs s" t k] by (simp add: locks_agree_def)
  then show ?case
    using acquires(3) table_known_locked [OF w] by (simp add: table_ok_def)
next
  case (releases s t k p l)
  then show ?case using table_known_given [OF releases(1)] by (simp add: table_ok_def)
next
  case (accesses s t p u es)
  have "table_known (pcs s t) (table_keys (shared_session s))"
    using accesses(3) by (simp add: table_ok_def)
  note known = access_keys [OF accesses(1) this]
  have "table_known (pcs s v) (table_keys u)" if "v \<noteq> t" for v
  proof (cases "Exclusive \<in> set (holds (pcs s t))")
    case True
    then show ?thesis
      using insert_alone [OF accesses(2) True that] accesses(3) table_known_unlocked
      unfolding table_ok_def by blast
  next
    case False
    then show ?thesis using known accesses(3) by (simp add: table_ok_def)
  qed
  then show ?case using known by (simp add: table_ok_def)
qed (auto simp: table_ok_def)

lemma table_ok_run: "system_run L s ms s' \<Longrightarrow> s = system_start s0 \<Longrightarrow> locks_ok s' \<and> table_ok s'"
proof (induction rule: system_run.induct)
  case (start s)
  then show ?case using locks_ok_start by (simp add: table_ok_def system_start_def)
qed (auto intro: locks_ok_step table_ok_step)

section \<open>One operation after the other\<close>

definition same_views :: "'c Session \<Rightarrow> 'c Session \<Rightarrow> bool" where
  "same_views s u \<longleftrightarrow> (\<forall>i. session_view s i = session_view u i)"

lemma same_views_step:
  assumes "session_step L x s = Inr (r, u)" "same_views s s'"
  shows "\<exists>u'. session_step L x s' = Inr (r, u') \<and> same_views u u'"
proof -
  obtain i where "concerns i (op_stream x)" by (cases "op_stream x") (auto simp: concerns_def)
  then obtain u' where u': "session_step L x s' = Inr (r, u')"
    using session_step_view [OF assms(1), of i s'] assms(2) by (auto simp: same_views_def)
  have "session_view u j = session_view u' j" for j
  proof (cases "concerns j (op_stream x)")
    case True
    then show ?thesis
      using session_step_view [OF assms(1), of j s'] assms(2) u' by (auto simp: same_views_def)
  next
    case False
    then show ?thesis
      using session_step_other [OF assms(1) False] session_step_other [OF u' False] assms(2) by (simp add: same_views_def)
  qed
  then show ?thesis using u' by (auto simp: same_views_def)
qed

lemma same_views_reset: "same_views s s' \<Longrightarrow> same_views (reset_stream i s) (reset_stream i s')"
  by (auto simp: same_views_def session_view_def reset_stream_def split: if_splits)

lemma same_views_insert:
  "same_views (s\<lparr>reliable_ostreams := map_put i (reliable_out_at s i) (reliable_ostreams s)\<rparr>) s"
  by (auto simp: same_views_def session_view_def)

lemma same_views_refl [simp]: "same_views s s"
  by (simp add: same_views_def)

lemma same_views_trans: "same_views s t \<Longrightarrow> same_views t u \<Longrightarrow> same_views s u"
  by (simp add: same_views_def)

lemma replay_access:
  assumes "session_access L p s = Some (q, u, es)" "replay L s0 hs v" "same_views s v"
  shows "\<exists>w. replay L s0 (hs @ es) w \<and> same_views u w"
proof (cases p)
  case (Insert x)
  then show ?thesis
    using assms same_views_trans [OF same_views_insert assms(3)] by auto
next
  case (Use x)
  then obtain r where r: "session_step L x s = Inr (r, u)" "es = [Did x r]"
    using assms(1) by (auto split: sum.splits)
  then show ?thesis
    using same_views_step [OF r(1) assms(3)] replay.did [OF assms(2)] by blast
next
  case (Visit b past todo)
  then show ?thesis
    using assms replay.did_reset [OF assms(2)] same_views_reset [OF assms(3)] by (cases todo) (auto split: if_splits)
qed (use assms in auto)

definition replayed :: "'c cdr_lib \<Rightarrow> 'c Session \<Rightarrow> ('t, 'c) session_system \<Rightarrow> bool" where
  "replayed L s0 s \<longleftrightarrow> (\<exists>u. replay L s0 (history s) u \<and> same_views (shared_session s) u)"

lemma replayed_step: "system_step L m s s' \<Longrightarrow> replayed L s0 s \<Longrightarrow> replayed L s0 s'"
proof (induction rule: system_step.induct)
  case (accesses s t p u es)
  then show ?case using replay_access [OF accesses(1)] by (auto simp: replayed_def)
qed (auto simp: replayed_def)

lemma replayed_run: "system_run L s ms s' \<Longrightarrow> replayed L s0 s \<Longrightarrow> replayed L s0 s'"
  by (induction rule: system_run.induct) (auto intro: replayed_step)

section \<open>Every call returns\<close>

fun pc_op :: "'c pc \<Rightarrow> 'c session_op option" where
  "pc_op (Locking (Operation x)) = Some x"
| "pc_op (Find x) = Some x"
| "pc_op (Unlock x) = Some x"
| "pc_op (Exclusive_Locking x) = Some x"
| "pc_op (Relock x) = Some x"
| "pc_op (Insert x) = Some x"
| "pc_op (Drop_Exclusive x) = Some x"
| "pc_op (Use x) = Some x"
| "pc_op p = None"

definition never_faults :: "'c cdr_lib \<Rightarrow> 'c session_op \<Rightarrow> bool" where
  "never_faults L x \<longleftrightarrow> (\<forall>s. \<exists>r u. session_step L x s = Inr (r, u))"

abbreviation no_faults :: "'c cdr_lib \<Rightarrow> ('t, 'c) session_system \<Rightarrow> bool" where
  "no_faults L s \<equiv> (\<forall>t x. pc_op (pcs s t) = Some x \<longrightarrow> never_faults L x)"

text \<open>How far a thread is from the end, the calls it has made counted.\<close>

fun distance :: "'c pc \<Rightarrow> nat" where
  "distance Idle = 0"
| "distance Leave = 2"
| "distance (Visit b done todo) = 4"
| "distance (Use x) = 4"
| "distance (Begin_Visit b) = 6"
| "distance (Drop_Exclusive x) = 6"
| "distance (Insert x) = 8"
| "distance (Relock x) = 10"
| "distance (Exclusive_Locking x) = 12"
| "distance (Unlock x) = 14"
| "distance (Find x) = 16"
| "distance (Locking y) = 18"

fun streams_left :: "'c pc \<Rightarrow> nat" where
  "streams_left (Visit b done todo) = length todo"
| "streams_left p = 0"

abbreviation waiting :: "('t, 'm) lock_system \<Rightarrow> 't \<Rightarrow> bool" where
  "waiting l t \<equiv> t \<in> fst ` set (trying l @ asleep l)"

definition thread_cost :: "('t, 'm) lock_system \<Rightarrow> ('t \<Rightarrow> 'c pc) \<Rightarrow> 't \<Rightarrow> nat" where
  "thread_cost l ps t = distance (ps t) + (if wants (ps t) \<noteq> None \<and> \<not> waiting l t then 1 else 0)"

definition cheaper :: "'t \<Rightarrow> ('t, 'c) session_system \<Rightarrow> ('t, 'c) session_system \<Rightarrow> bool" where
  "cheaper t s' s \<longleftrightarrow>
     (\<forall>u. u \<noteq> t \<longrightarrow> pcs s' u = pcs s u \<and> thread_cost (locks s') (pcs s') u = thread_cost (locks s) (pcs s) u) \<and>
     (thread_cost (locks s') (pcs s') t < thread_cost (locks s) (pcs s) t \<or>
      thread_cost (locks s') (pcs s') t = thread_cost (locks s) (pcs s) t \<and>
      streams_left (pcs s' t) < streams_left (pcs s t))"

lemma distance_locked: "wants p = Some k \<Longrightarrow> distance (when_locked p) + 1 < distance p"
  by (cases p rule: when_locked.cases) auto

lemma distance_given: "gives_back p = Some (k, q) \<Longrightarrow> distance q + 1 < distance p"
  by (cases p) auto

lemma distance_accessed:
  "session_access L p s = Some (q, u, es) \<Longrightarrow> distance q + 1 < distance p \<or>
     distance q = distance p \<and> wants q = None \<and> streams_left q < streams_left p"
  by (cases "(L, p, s)" rule: session_access.cases) (auto split: option.splits sum.splits)

lemma pc_op_moves:
  "wants p = Some k \<Longrightarrow> pc_op (when_locked p) = Some x \<Longrightarrow> pc_op p = Some x"
  "gives_back p = Some (k, q) \<Longrightarrow> pc_op q = Some x \<Longrightarrow> pc_op p = Some x"
  "session_access L p s = Some (q, u, es) \<Longrightarrow> pc_op q = Some x \<Longrightarrow> pc_op p = Some x"
proof -
  show "wants p = Some k \<Longrightarrow> pc_op (when_locked p) = Some x \<Longrightarrow> pc_op p = Some x"
    by (cases p rule: when_locked.cases) auto
  show "gives_back p = Some (k, q) \<Longrightarrow> pc_op q = Some x \<Longrightarrow> pc_op p = Some x"
    by (cases p) auto
  show "session_access L p s = Some (q, u, es) \<Longrightarrow> pc_op q = Some x \<Longrightarrow> pc_op p = Some x"
    by (cases "(L, p, s)" rule: session_access.cases) (auto split: option.splits sum.splits)
qed

lemma pc_next:
  assumes "p \<noteq> Idle" "\<And>x. pc_op p = Some x \<Longrightarrow> never_faults L x"
  shows "wants p \<noteq> None \<or> gives_back p \<noteq> None \<or> session_access L p s \<noteq> None"
  using assms
proof (cases p)
  case (Use x)
  then obtain r u where "session_step L x s = Inr (r, u)"
    using assms(2) unfolding never_faults_def by fastforce
  then show ?thesis using Use by simp
next
  case (Visit b past todo)
  then show ?thesis by (cases todo) auto
qed auto

lemma cheaper_move:
  assumes "\<And>u. u \<noteq> t \<Longrightarrow> waiting l u = waiting (locks s) u" "distance p + 1 < distance (pcs s t)"
  shows "cheaper t (moves t p (s\<lparr>locks := l, shared_session := u, history := h\<rparr>)) s"
  using assms by (simp add: cheaper_def thread_cost_def del: set_append)

fun begins_call :: "'t move \<Rightarrow> bool" where
  "begins_call (Begin t) = True"
| "begins_call m = False"

text \<open>A busy thread that does not wait for a lock can always go on.\<close>

lemma runner_goes_on:
  assumes ok: "locks_ok s" and p: "pcs s t \<noteq> Idle" "\<And>x. pc_op (pcs s t) = Some x \<Longrightarrow> never_faults L x"
    and free: "\<not> waiting (locks s) t"
  shows "\<exists>m s'. system_step L m s s' \<and> \<not> begins_call m \<and> cheaper t s' s"
proof -
  consider k where "wants (pcs s t) = Some k" | k q where "gives_back (pcs s t) = Some (k, q)"
    | q u es where "session_access L (pcs s t) (shared_session s) = Some (q, u, es)"
    using pc_next [OF p, where s = "shared_session s"] by (metis not_None_eq prod_cases3 surj_pair)
  then show ?thesis
  proof cases
    case (1 k)
    let ?l = "locks s\<lparr>mutex := mutex (locks s), trying := (t, k) # trying (locks s)\<rparr>"
    have "lock_step shared_mutex_ops (Call t k) (locks s) ?l"
      using lock_step.call [OF free, of shared_mutex_ops k] by simp
    moreover have "cheaper t (s\<lparr>locks := ?l\<rparr>) s"
      using free 1 by (auto simp: cheaper_def thread_cost_def)
    ultimately show ?thesis using system_step.calls [OF 1] by fastforce
  next
    case (2 k q)
    have "(t, k) \<in> set (holders (locks s))"
      using holder_iff [of "locks s" "pcs s" t k] ok holds_given [OF 2] by (simp add: locks_agree_def)
    then obtain l where l: "lock_step shared_mutex_ops (Release t k) (locks s) l"
      using release_enabled [OF _ free] by blast
    then have "set (trying l @ asleep l) = set (trying (locks s) @ asleep (locks s))"
      using notifies_waiting by (fastforce elim!: release_step)
    then have "cheaper t (moves t q (s\<lparr>locks := l\<rparr>)) s"
      using cheaper_move [where s = s and u = "shared_session s" and h = "history s" and l = l and p = q] distance_given [OF 2] by simp
    then show ?thesis using system_step.releases [OF 2 l] by fastforce
  next
    case (3 q u es)
    have "wants (pcs s t) = None" using holds_accessed [OF 3] by simp
    then have "cheaper t (moves t q (s\<lparr>shared_session := u, history := history s @ es\<rparr>)) s"
      using distance_accessed [OF 3] by (auto simp: cheaper_def thread_cost_def)
    then show ?thesis using system_step.accesses [OF 3] by fastforce
  qed
qed

lemma somebody_moves:
  assumes ok: "locks_ok s" and v: "pcs s v \<noteq> Idle" and nf: "no_faults L s"
  shows "\<exists>t m s'. pcs s t \<noteq> Idle \<and> system_step L m s s' \<and> \<not> begins_call m \<and> cheaper t s' s"
proof (cases "\<exists>t. pcs s t \<noteq> Idle \<and> \<not> waiting (locks s) t")
  case True
  then show ?thesis using runner_goes_on [OF ok] nf by blast
next
  case False
  then have busy: "waiting (locks s) t" if "pcs s t \<noteq> Idle" for t using that by blast
  have agree: "holders_agree (locks s) (pcs s)" "calls_agree (locks s) (pcs s)"
    "shared_mutex.agrees (locks s)" "waits_well (locks s)"
    using ok by (auto simp: locks_agree_def)
  have "lock_load (locks s) \<noteq> 0" using busy [OF v] by (auto simp: lock_load_def)
  then obtain x l where x: "lock_step shared_mutex_ops x (locks s) l" "is_progress x"
    using somebody_goes_on agree(3,4) by blast
  from x(2) show ?thesis
  proof (cases x rule: is_progress.cases)
    case (1 t k)
    then obtain m where t: "(t, k) \<in> set (trying (locks s))"
      "l = locks s\<lparr>mutex := m, trying := remove1 (t, k) (trying (locks s)), holders := (t, k) # holders (locks s)\<rparr>"
      using x(1) by (auto elim: acquire_step)
    then have w: "wants (pcs s t) = Some k"
      using waiting_wants [OF agree(2), of t k] by simp
    have "set (remove1 (t, k) (trying (locks s))) \<union> {(t, k)} = set (trying (locks s))"
      using insert_remove1 [OF t(1)] by simp
    then have "waiting l u = waiting (locks s) u" if "u \<noteq> t" for u
      using that t(2) by force
    then have "cheaper t (moves t (when_locked (pcs s t)) (s\<lparr>locks := l\<rparr>)) s"
      using cheaper_move [where s = s and u = "shared_session s" and h = "history s" and l = l and p = "when_locked (pcs s t)"] distance_locked [OF w] by simp
    moreover have "pcs s t \<noteq> Idle" using w by auto
    ultimately show ?thesis
      using system_step.acquires [of t k s l L] x(1) 1 by (metis begins_call.simps(2))
  next
    case (2 t k)
    then have "(t, k) \<in> set (holders (locks s))" "\<not> waiting (locks s) t"
      using x(1) by (auto elim: release_step)
    moreover from this have "k \<in> set (holds (pcs s t))"
      using holder_iff [OF agree(1)] by blast
    then have "pcs s t \<noteq> Idle" by auto
    ultimately show ?thesis using busy by blast
  qed simp_all
qed

lemma no_faults_move:
  assumes "no_faults L s" "pcs s' = (pcs s)(t := p)" "\<And>x. pc_op p = Some x \<Longrightarrow> pc_op (pcs s t) = Some x"
  shows "no_faults L s'"
proof (intro allI impI)
  fix v x assume "pc_op (pcs s' v) = Some x"
  then show "never_faults L x"
    using assms by (cases "v = t") auto
qed

lemma no_faults_step: "system_step L m s s' \<Longrightarrow> locks_ok s \<Longrightarrow> \<not> begins_call m \<Longrightarrow> no_faults L s \<Longrightarrow> no_faults L s'"
proof (induction rule: system_step.induct)
  case (acquires t k s l)
  then have "(t, k) \<in> set (trying (locks s) @ asleep (locks s))" by (auto elim: acquire_step)
  then have "wants (pcs s t) = Some k"
    using acquires(2) waiting_wants [of "locks s" "pcs s" t k] by (simp add: locks_agree_def)
  then show ?case
    by (intro no_faults_move [OF acquires(4), where t = t and p = "when_locked (pcs s t)"]) (auto dest: pc_op_moves(1))
next
  case (releases s t k p l)
  then show ?case
    by (intro no_faults_move [OF releases(5), where t = t and p = p]) (auto dest: pc_op_moves(2) [OF releases(1)])
next
  case (accesses s t p u es)
  then show ?case
    by (intro no_faults_move [OF accesses(4), where t = t and p = p]) (auto dest: pc_op_moves(3) [OF accesses(1)])
qed auto

lemma system_run_front: "system_run L u ms v \<Longrightarrow> system_step L m s u \<Longrightarrow> system_run L s (m # ms) v"
proof (induction rule: system_run.induct)
  case (start u)
  then show ?case using system_run.step [OF system_run.start] by fastforce
next
  case (step u ms w n v)
  then have "system_run L s ((m # ms) @ [n]) v" by (blast intro: system_run.step)
  then show ?case by simp
qed

lemma cheaper_measure:
  assumes "cheaper t s' s" "finite T" "t \<in> T"
  shows "(s', s) \<in> measures [\<lambda>s. \<Sum>t\<in>T. thread_cost (locks s) (pcs s) t, \<lambda>s. \<Sum>t\<in>T. streams_left (pcs s t)]"
proof -
  have split: "(\<Sum>u\<in>T. f u) = f t + (\<Sum>u\<in>T - {t}. f u)" for f :: "'a \<Rightarrow> nat"
    using sum.remove [OF assms(2,3)] .
  have "(\<Sum>u\<in>T - {t}. thread_cost (locks s') (pcs s') u) = (\<Sum>u\<in>T - {t}. thread_cost (locks s) (pcs s) u)"
    "(\<Sum>u\<in>T - {t}. streams_left (pcs s' u)) = (\<Sum>u\<in>T - {t}. streams_left (pcs s u))"
    using assms(1) by (auto simp: cheaper_def)
  then show ?thesis
    using assms(1) by (auto simp: cheaper_def split)
qed

lemma system_finishes:
  assumes "locks_ok s" "no_faults L s" "finite T" "\<And>t. t \<notin> T \<Longrightarrow> pcs s t = Idle"
  shows "\<exists>ms s'. system_run L s ms s' \<and> list_all (\<lambda>m. \<not> begins_call m) ms \<and> (\<forall>t. pcs s' t = Idle)"
  using assms(1,2,4)
proof (induction s rule: wf_induct_rule [OF wf_measures [of
    "[\<lambda>s. \<Sum>t\<in>T. thread_cost (locks s) (pcs s) t, \<lambda>s. \<Sum>t\<in>T. streams_left (pcs s t)]"]])
  case (1 s)
  show ?case
  proof (cases "\<forall>t. pcs s t = Idle")
    case True
    then show ?thesis using system_run.start [of L s] by (intro exI [of _ "[]"]) auto
  next
    case False
    then obtain t m u where m: "pcs s t \<noteq> Idle" "system_step L m s u" "\<not> begins_call m" "cheaper t u s"
      using somebody_moves [OF 1(2) _ 1(3)] by blast
    have "t \<in> T" using 1(4) m(1) by blast
    moreover from this have "pcs u v = Idle" if "v \<notin> T" for v
      using 1(4) [OF that] m(4) that by (auto simp: cheaper_def)
    ultimately obtain ms s' where "system_run L u ms s'" "list_all (\<lambda>m. \<not> begins_call m) ms" "\<forall>t. pcs s' t = Idle"
      using 1(1) [OF cheaper_measure [OF m(4) assms(3)] locks_ok_step [OF m(2) 1(2)] no_faults_step [OF m(2) 1(2) m(3) 1(3)]]
      by blast
    then show ?thesis using system_run_front [OF _ m(2)] m(3) by (intro exI [of _ "m # ms"]) auto
  qed
qed

lemma finite_busy_move: "finite {t. f t \<noteq> c} \<Longrightarrow> finite {v. (f(t := p)) v \<noteq> c}"
  by (rule finite_subset [of _ "insert t {t. f t \<noteq> c}"]) auto

lemma finite_busy_step: "system_step L m s s' \<Longrightarrow> finite {t. pcs s t \<noteq> Idle} \<Longrightarrow> finite {t. pcs s' t \<noteq> Idle}"
proof (induction rule: system_step.induct)
  case (begins s t y)
  then show ?case using finite_busy_move [of "pcs s" Idle t "Locking y"] by simp
next
  case (acquires t k s l)
  then show ?case using finite_busy_move [of "pcs s" Idle t "when_locked (pcs s t)"] by simp
next
  case (releases s t k p l)
  then show ?case using finite_busy_move [of "pcs s" Idle t p] by simp
next
  case (accesses s t p u es)
  then show ?case using finite_busy_move [of "pcs s" Idle t p] by simp
qed simp_all

lemma finite_busy_run: "system_run L s ms s' \<Longrightarrow> finite {t. pcs s t \<noteq> Idle} \<Longrightarrow> finite {t. pcs s' t \<noteq> Idle}"
  by (induction rule: system_run.induct) (auto intro: finite_busy_step)

section \<open>What the locks give the session\<close>

fun touches_table :: "'c pc \<Rightarrow> bool" where
  "touches_table (Find x) = True"
| "touches_table (Insert x) = True"
| "touches_table (Use x) = True"
| "touches_table (Begin_Visit b) = True"
| "touches_table (Visit b done todo) = True"
| "touches_table p = False"

lemma touches_holds: "touches_table p \<Longrightarrow> holds p \<noteq> []"
  by (cases p) auto

text \<open>C8: no data race on the table of reliable output streams.  However many threads use a
  session and however they are scheduled, while one of them is at operator[] no other one
  reads the table, changes it, or works on a stream of it; the stream that an operation
  found is still in the table when it is used, and a loop over the table never sees it
  change.
\<close>
theorem session_table_race_free:
  assumes "system_run L (system_start s0) ms s"
  shows "(\<forall>t u x. pcs s t = Insert x \<longrightarrow> touches_table (pcs s u) \<longrightarrow> u = t) \<and>
    (\<forall>t x. pcs s t = Use x \<longrightarrow> map_find (reliable_ostreams (shared_session s)) (op_key x) \<noteq> None) \<and>
    (\<forall>t b past todo. pcs s t = Visit b past todo \<longrightarrow> map fst (reliable_ostreams (shared_session s)) = past @ todo)"
proof (intro conjI allI impI)
  have ok: "locks_ok s" "table_ok s" using table_ok_run [OF assms refl] by auto
  show "u = t" if "pcs s t = Insert x" "touches_table (pcs s u)" for t u x
    using insert_alone [OF ok(1), of t u] touches_holds [OF that(2)] that(1) by auto
  show "map_find (reliable_ostreams (shared_session s)) (op_key x) \<noteq> None" if "pcs s t = Use x" for t x
    using ok(2) that found_iff by (metis table_known.simps(7) table_ok_def)
  show "table_keys (shared_session s) = past @ todo" if "pcs s t = Visit b past todo" for t b past todo
    using ok(2) that by (metis table_known.simps(8) table_ok_def)
qed



lemma never_faults_reads [simp]:
  "never_faults L (Get_Output i n)" "never_faults L (From_Acknack i a)" "never_faults L (Fill_Heartbeat i hb)"
  by (auto simp: never_faults_def split: prod.splits)

section \<open>Witnesses\<close>

text \<open>
  Thread 1 asks for a message of a stream that is not there, makes the stream, and uses it
  while thread 2 has begun to list the streams.
\<close>

abbreviation sample_get :: "sim_cdr_state session_op" where
  "sample_get \<equiv> Get_Output 0x80 0"

definition sample_system :: "nat SharedMutex \<Rightarrow> (nat \<times> lock_kind) list \<Rightarrow> (nat \<times> lock_kind) list \<Rightarrow>
    sim_cdr_state pc \<Rightarrow> (nat, sim_cdr_state) session_system" where
  "sample_system m hs ts p = \<lparr>locks = \<lparr>mutex = m, holders = hs, trying = ts, asleep = []\<rparr>,
     pcs = (\<lambda>t. Idle)(2 := Locking List_Streams, 1 := p), shared_session = new_Session sample_info, history = []\<rparr>"

lemma sample_to_insert:
  "\<exists>ms m. system_run sim_cdr (system_start (new_Session sample_info)) ms
     (sample_system m [(1, Shared), (1, Exclusive)] [] (Insert sample_get)) \<and> exclusively_locked m"
proof -
  let ?m = "\<lambda>n b t. \<lparr>shared_counter = n, exclusively_locked = b, exclusive_thread_id = t :: nat option\<rparr>"
  let ?reached = "\<lambda>s. \<exists>ms. system_run sim_cdr (system_start (new_Session sample_info)) ms s"
  have next_step: "?reached u" if "?reached s" "system_step sim_cdr x s u" for x s u
    using that system_run.step by blast
  have start: "?reached (system_start (new_Session sample_info))" using system_run.start by blast
  have "?reached (sample_system (?m 0 False None) [] [] (Locking (Operation sample_get)))"
    using next_step [OF next_step [OF start system_step.begins [of _ "2::nat" List_Streams]]
        system_step.begins [of _ "1::nat" "Operation sample_get"]]
    by (simp add: system_start_def lock_start_def new_SharedMutex_def sample_system_def is_reliable_stream_def xrce_consts)
  from next_step [OF this system_step.calls [OF _ lock_step.call [of 1 _ shared_mutex_ops Shared]]]
  have "?reached (sample_system (?m 0 False None) [] [(1, Shared)] (Locking (Operation sample_get)))"
    by (simp add: sample_system_def)
  from next_step [OF this system_step.acquires [OF lock_step.acquire [of 1 Shared _ _ "?m 1 False None"]]]
  have "?reached (sample_system (?m 1 False None) [(1, Shared)] [] (Find sample_get))"
    by (simp add: sample_system_def)
  from next_step [OF this system_step.accesses [of _ _ 1]]
  have "?reached (sample_system (?m 1 False None) [(1, Shared)] [] (Unlock sample_get))"
    by (simp add: sample_system_def op_key_def is_reliable_stream_def xrce_consts new_Session_def)
  from next_step [OF this system_step.releases
      [OF _ lock_step.release [of 1 Shared _ _ Notify_One "?m 0 False None", OF _ _ _ notifies.nobody],
        where p = "Exclusive_Locking sample_get"]]
  have "?reached (sample_system (?m 0 False None) [] [] (Exclusive_Locking sample_get))"
    by (simp add: sample_system_def)
  from next_step [OF this system_step.calls [OF _ lock_step.call [of 1 _ shared_mutex_ops Exclusive]]]
  have "?reached (sample_system (?m 0 False None) [] [(1, Exclusive)] (Exclusive_Locking sample_get))"
    by (simp add: sample_system_def)
  from next_step [OF this system_step.acquires [OF lock_step.acquire [of 1 Exclusive _ _ "?m 0 True (Some 1)"]]]
  have "?reached (sample_system (?m 0 True (Some 1)) [(1, Exclusive)] [] (Relock sample_get))"
    by (simp add: sample_system_def)
  from next_step [OF this system_step.calls [OF _ lock_step.call [of 1 _ shared_mutex_ops Shared]]]
  have "?reached (sample_system (?m 0 True (Some 1)) [(1, Exclusive)] [(1, Shared)] (Relock sample_get))"
    by (simp add: sample_system_def)
  from next_step [OF this system_step.acquires [OF lock_step.acquire [of 1 Shared _ _ "?m 1 True (Some 1)"]]]
  have "?reached (sample_system (?m 1 True (Some 1)) [(1, Shared), (1, Exclusive)] [] (Insert sample_get))"
    by (simp add: sample_system_def)
  then show ?thesis by fastforce
qed

lemma session_table_race_free_witness:
  "\<exists>ms m. system_run sim_cdr (system_start (new_Session sample_info)) ms
       (sample_system m [(1, Shared), (1, Exclusive)] [] (Insert sample_get)) \<and>
     \<not> touches_table (pcs (sample_system m [(1, Shared), (1, Exclusive)] [] (Insert sample_get)) 2)"
proof -
  obtain ms m where run: "system_run sim_cdr (system_start (new_Session sample_info)) ms
      (sample_system m [(1, Shared), (1, Exclusive)] [] (Insert sample_get))"
    using sample_to_insert by blast
  have "pcs (sample_system m [(1, Shared), (1, Exclusive)] [] (Insert sample_get)) 1 = Insert sample_get"
    by (simp add: sample_system_def)
  then show ?thesis
    using conjunct1 [OF session_table_race_free [OF run], rule_format, of 1 sample_get 2] run by auto
qed



end
