(* ===== verification/SessionManager.thy ===== *)
theory SessionManager
  imports Containers
begin

text \<open>
  transport/SessionManager.hpp and the end points of transport/endpoint: which client is at
  which end point.  The manager keeps a map in each direction; a session whose identifier
  announces its client key (below 128) is entered in one of them only.  Each method runs
  under the manager's mutex, so it is one step; the log lines are left out.

  The classes of end points are datatypes whose order is the operator\<open><\<close> of the class, the
  order that std::map needs; they are instances of linorder, except the serial end points of
  several ports, which compare their file descriptors only.
\<close>

section \<open>End points\<close>

datatype IPv4EndPoint = IPv4EndPoint (v4_addr: u32) (v4_port: u16)

definition IPv4EndPoint_less :: "IPv4EndPoint \<Rightarrow> IPv4EndPoint \<Rightarrow> bool" where
  "IPv4EndPoint_less a b \<longleftrightarrow> v4_addr a < v4_addr b \<or> v4_addr a = v4_addr b \<and> v4_port a < v4_port b"

datatype IPv6EndPoint = IPv6EndPoint (v6_addr: "u8 list") (v6_port: u16)

text \<open>operator\<open><\<close> of std::array is lexicographic.\<close>

fun array_less :: "u8 list \<Rightarrow> u8 list \<Rightarrow> bool" where
  "array_less [] ys = (ys \<noteq> [])"
| "array_less (x # xs) [] = False"
| "array_less (x # xs) (y # ys) = (x < y \<or> x = y \<and> array_less xs ys)"

definition IPv6EndPoint_less :: "IPv6EndPoint \<Rightarrow> IPv6EndPoint \<Rightarrow> bool" where
  "IPv6EndPoint_less a b \<longleftrightarrow> array_less (v6_addr a) (v6_addr b) \<or> v6_addr a = v6_addr b \<and> v6_port a < v6_port b"

datatype SerialEndPoint = SerialEndPoint (serial_addr: u8)

definition SerialEndPoint_less :: "SerialEndPoint \<Rightarrow> SerialEndPoint \<Rightarrow> bool" where
  "SerialEndPoint_less a b \<longleftrightarrow> serial_addr a < serial_addr b"

datatype CanEndPoint = CanEndPoint (can_id: u32)

definition CanEndPoint_less :: "CanEndPoint \<Rightarrow> CanEndPoint \<Rightarrow> bool" where
  "CanEndPoint_less a b \<longleftrightarrow> can_id a < can_id b"

datatype MultiSerialEndPoint = MultiSerialEndPoint (multi_fd: int) (multi_addr: u8)

definition MultiSerialEndPoint_less :: "MultiSerialEndPoint \<Rightarrow> MultiSerialEndPoint \<Rightarrow> bool" where
  "MultiSerialEndPoint_less a b \<longleftrightarrow> multi_fd a < multi_fd b"

instantiation IPv4EndPoint :: linorder
begin

definition less_IPv4EndPoint :: "IPv4EndPoint \<Rightarrow> IPv4EndPoint \<Rightarrow> bool" where
  "less_IPv4EndPoint = IPv4EndPoint_less"

definition less_eq_IPv4EndPoint :: "IPv4EndPoint \<Rightarrow> IPv4EndPoint \<Rightarrow> bool" where
  "less_eq_IPv4EndPoint a b \<longleftrightarrow> IPv4EndPoint_less a b \<or> a = b"

instance
  by standard
    (auto simp: less_IPv4EndPoint_def less_eq_IPv4EndPoint_def IPv4EndPoint_less_def intro: IPv4EndPoint.expand)

end

lemma array_less_irrefl [simp]: "\<not> array_less xs xs"
  by (induction xs) auto

lemma array_less_trans: "array_less xs ys \<Longrightarrow> array_less ys zs \<Longrightarrow> array_less xs zs"
proof (induction xs ys arbitrary: zs rule: array_less.induct)
  case (3 x xs y ys)
  then show ?case by (cases zs) auto
qed (auto elim: array_less.elims)

lemma array_less_linear: "array_less xs ys \<or> xs = ys \<or> array_less ys xs"
proof (induction xs ys rule: array_less.induct)
  case (1 ys)
  then show ?case by (cases ys) auto
qed auto

instantiation IPv6EndPoint :: linorder
begin

definition less_IPv6EndPoint :: "IPv6EndPoint \<Rightarrow> IPv6EndPoint \<Rightarrow> bool" where
  "less_IPv6EndPoint = IPv6EndPoint_less"

definition less_eq_IPv6EndPoint :: "IPv6EndPoint \<Rightarrow> IPv6EndPoint \<Rightarrow> bool" where
  "less_eq_IPv6EndPoint a b \<longleftrightarrow> IPv6EndPoint_less a b \<or> a = b"

instance
proof
  fix a b c :: IPv6EndPoint
  obtain x p where a: "a = IPv6EndPoint x p" by (cases a)
  obtain y q where b: "b = IPv6EndPoint y q" by (cases b)
  obtain z r where c: "c = IPv6EndPoint z r" by (cases c)
  note order = less_IPv6EndPoint_def less_eq_IPv6EndPoint_def IPv6EndPoint_less_def a b c
    IPv6EndPoint.sel IPv6EndPoint.inject
  show "a \<le> b \<or> b \<le> a"
    unfolding order using array_less_linear [of x y] by auto
  have anti: "\<not> (array_less x y \<and> array_less y x)"
    using array_less_trans [of x y x] by auto
  then show "a < b \<longleftrightarrow> a \<le> b \<and> \<not> b \<le> a"
    unfolding order by auto
  show "a \<le> a"
    unfolding order by simp
  show "a \<le> b \<Longrightarrow> b \<le> c \<Longrightarrow> a \<le> c"
    unfolding order using array_less_trans [of x y z] by auto
  show "a \<le> b \<Longrightarrow> b \<le> a \<Longrightarrow> a = b"
    unfolding order using anti by auto
qed

end

instantiation SerialEndPoint :: linorder
begin

definition less_SerialEndPoint :: "SerialEndPoint \<Rightarrow> SerialEndPoint \<Rightarrow> bool" where
  "less_SerialEndPoint = SerialEndPoint_less"

definition less_eq_SerialEndPoint :: "SerialEndPoint \<Rightarrow> SerialEndPoint \<Rightarrow> bool" where
  "less_eq_SerialEndPoint a b \<longleftrightarrow> SerialEndPoint_less a b \<or> a = b"

instance
  by standard
    (auto simp: less_SerialEndPoint_def less_eq_SerialEndPoint_def SerialEndPoint_less_def intro: SerialEndPoint.expand)

end

instantiation CanEndPoint :: linorder
begin

definition less_CanEndPoint :: "CanEndPoint \<Rightarrow> CanEndPoint \<Rightarrow> bool" where
  "less_CanEndPoint = CanEndPoint_less"

definition less_eq_CanEndPoint :: "CanEndPoint \<Rightarrow> CanEndPoint \<Rightarrow> bool" where
  "less_eq_CanEndPoint a b \<longleftrightarrow> CanEndPoint_less a b \<or> a = b"

instance
  by standard
    (auto simp: less_CanEndPoint_def less_eq_CanEndPoint_def CanEndPoint_less_def intro: CanEndPoint.expand)

end

text \<open>A map takes two end points that are not ordered for the same key.\<close>

lemma multi_serial_same_key:
  "\<not> MultiSerialEndPoint_less a b \<and> \<not> MultiSerialEndPoint_less b a \<longleftrightarrow> multi_fd a = multi_fd b"
  by (auto simp: MultiSerialEndPoint_less_def)

section \<open>The session manager\<close>

definition has_session_client_key :: "u8 \<Rightarrow> bool" where
  "has_session_client_key session_id \<longleftrightarrow> 128 > session_id"

record 'e SessionManager =
  endpoint_to_client :: "('e \<times> u32) list"
  client_to_endpoint :: "(u32 \<times> 'e) list"

definition new_SessionManager :: "'e SessionManager" where
  "new_SessionManager = \<lparr>endpoint_to_client = [], client_to_endpoint = []\<rparr>"

definition establish_session :: "'e \<Rightarrow> u32 \<Rightarrow> u8 \<Rightarrow> 'e SessionManager \<Rightarrow> 'e SessionManager" where
  "establish_session endpoint client_key session_id s =
     (let s = (case map_find (client_to_endpoint s) client_key of
            Some old \<Rightarrow> s\<lparr>endpoint_to_client := map_erase old (endpoint_to_client s),
              client_to_endpoint := map_put client_key endpoint (client_to_endpoint s)\<rparr>
          | None \<Rightarrow> s\<lparr>client_to_endpoint := map_emplace client_key endpoint (client_to_endpoint s)\<rparr>)
      in if \<not> has_session_client_key session_id then
           (case map_find (endpoint_to_client s) endpoint of
              Some _ \<Rightarrow> s\<lparr>endpoint_to_client := map_put endpoint client_key (endpoint_to_client s)\<rparr>
            | None \<Rightarrow> s\<lparr>endpoint_to_client := map_emplace endpoint client_key (endpoint_to_client s)\<rparr>)
         else s)"

definition destroy_session_at :: "'e \<Rightarrow> 'e SessionManager \<Rightarrow> 'e SessionManager" where
  "destroy_session_at endpoint s =
     (case map_find (endpoint_to_client s) endpoint of
        Some client_key \<Rightarrow> s\<lparr>client_to_endpoint := map_erase client_key (client_to_endpoint s),
          endpoint_to_client := map_erase endpoint (endpoint_to_client s)\<rparr>
      | None \<Rightarrow> s)"

definition destroy_session_of :: "u32 \<Rightarrow> 'e SessionManager \<Rightarrow> 'e SessionManager" where
  "destroy_session_of client_key s =
     (case map_find (client_to_endpoint s) client_key of
        Some endpoint \<Rightarrow> s\<lparr>endpoint_to_client := map_erase endpoint (endpoint_to_client s),
          client_to_endpoint := map_erase client_key (client_to_endpoint s)\<rparr>
      | None \<Rightarrow> s)"

definition get_client_key :: "'e \<Rightarrow> 'e SessionManager \<Rightarrow> u32 option" where
  "get_client_key endpoint s = map_find (endpoint_to_client s) endpoint"

definition get_endpoint :: "u32 \<Rightarrow> 'e SessionManager \<Rightarrow> 'e option" where
  "get_endpoint client_key s = map_find (client_to_endpoint s) client_key"

datatype 'e manager_op = Establish 'e u32 u8 | Destroy_At 'e | Destroy_Of u32

fun manager_step :: "'e manager_op \<Rightarrow> 'e SessionManager \<Rightarrow> 'e SessionManager" where
  "manager_step (Establish e c i) s = establish_session e c i s"
| "manager_step (Destroy_At e) s = destroy_session_at e s"
| "manager_step (Destroy_Of c) s = destroy_session_of c s"

section \<open>What the maps say of each other\<close>

definition manager_ok :: "'e SessionManager \<Rightarrow> bool" where
  "manager_ok s \<longleftrightarrow> map_ok (endpoint_to_client s) \<and> map_ok (client_to_endpoint s) \<and>
     (\<forall>e c. get_client_key e s = Some c \<longrightarrow> get_endpoint c s = Some e)"

lemmas manager_defs = establish_session_def destroy_session_at_def destroy_session_of_def get_client_key_def
  get_endpoint_def

text \<open>What each operation does to the two lookups.\<close>

lemma establish_lookups:
  "get_endpoint c' (establish_session e c i s) = (if c' = c then Some e else get_endpoint c' s)"
  "get_client_key e' (establish_session e c i s) =
     (if e' = e \<and> \<not> has_session_client_key i then Some c
      else if get_endpoint c s = Some e' then None else get_client_key e' s)"
  by (auto simp: manager_defs Let_def split: option.splits)

lemma destroy_lookups:
  "get_endpoint c' (destroy_session_at e s) = (if get_client_key e s = Some c' then None else get_endpoint c' s)"
  "get_client_key e' (destroy_session_at e s) = (if e' = e then None else get_client_key e' s)"
  "get_endpoint c' (destroy_session_of c s) = (if c' = c then None else get_endpoint c' s)"
  "get_client_key e' (destroy_session_of c s) = (if get_endpoint c s = Some e' then None else get_client_key e' s)"
  by (auto simp: manager_defs split: option.splits)

lemma manager_maps_ok:
  "map_ok (endpoint_to_client s) \<Longrightarrow> map_ok (endpoint_to_client (manager_step x s))"
  "map_ok (client_to_endpoint s) \<Longrightarrow> map_ok (client_to_endpoint (manager_step x s))"
  by (cases x; auto simp: manager_defs Let_def split: option.splits)+

lemma client_unique:
  "manager_ok s \<Longrightarrow> get_client_key e s = Some c \<Longrightarrow> get_client_key e' s = Some c \<Longrightarrow> e = e'"
  unfolding manager_ok_def by (metis option.inject)

lemma manager_ok_step: "manager_ok s \<Longrightarrow> manager_ok (manager_step x s)"
proof -
  assume ok: "manager_ok s"
  have inv: "get_client_key e s = Some c \<Longrightarrow> get_endpoint c s = Some e" for e c
    using ok by (simp add: manager_ok_def)
  have "get_endpoint c (manager_step x s) = Some e" if k: "get_client_key e (manager_step x s) = Some c" for e c
  proof (cases x)
    case (Establish a b i)
    then show ?thesis
      using k inv [of e c] by (auto simp: establish_lookups split: if_splits)
  next
    case (Destroy_At a)
    then have "e \<noteq> a" "get_client_key e s = Some c"
      using k by (auto simp: destroy_lookups split: if_splits)
    then show ?thesis
      using Destroy_At inv client_unique [OF ok, of e c a] by (auto simp: destroy_lookups)
  next
    case (Destroy_Of b)
    then show ?thesis
      using k inv [of e c] by (auto simp: destroy_lookups split: if_splits)
  qed
  then show ?thesis
    using ok manager_maps_ok [of s x] by (auto simp: manager_ok_def)
qed

lemma manager_ok_run: "manager_ok s \<Longrightarrow> manager_ok (fold manager_step xs s)"
  by (induction xs arbitrary: s) (auto intro: manager_ok_step)

lemma manager_ok_new: "manager_ok new_SessionManager"
  by (simp add: manager_ok_def new_SessionManager_def get_client_key_def)

text \<open>C21: the two directions of the session manager agree.  After any sequence of sessions
  established and destroyed, the client that is found at an end point has that end point,
  so two end points never give the same client; and a session that is established then is
  found from its client, and from its end point when its identifier hides the client key.
\<close>
theorem session_manager_consistent:
  fixes xs :: "'e manager_op list"
  defines "s \<equiv> fold manager_step xs new_SessionManager"
  shows "(get_client_key e s = Some c \<longrightarrow> get_endpoint c s = Some e) \<and>
    (get_client_key e s = Some c \<and> get_client_key e' s = Some c \<longrightarrow> e = e') \<and>
    get_endpoint c (establish_session e c i s) = Some e \<and>
    (\<not> has_session_client_key i \<longrightarrow> get_client_key e (establish_session e c i s) = Some c)"
proof -
  have ok: "manager_ok s"
    unfolding s_def by (rule manager_ok_run [OF manager_ok_new])
  then show ?thesis
    using client_unique [OF ok, of e c e'] by (auto simp: manager_ok_def establish_lookups)
qed

lemma session_manager_consistent_witness:
  "let s = fold manager_step [Establish (IPv4EndPoint 1 2) 7 0x81, Establish (IPv4EndPoint 1 3) 7 0x81] new_SessionManager
   in get_client_key (IPv4EndPoint 1 3) s = Some 7 \<and> get_endpoint 7 s = Some (IPv4EndPoint 1 3) \<and>
      get_client_key (IPv4EndPoint 1 2) s = None"
proof -
  let ?s = "fold manager_step [Establish (IPv4EndPoint 1 2) 7 0x81, Establish (IPv4EndPoint 1 3) 7 0x81] new_SessionManager"
  have "get_client_key (IPv4EndPoint 1 3) ?s = Some 7" "get_client_key (IPv4EndPoint 1 2) ?s = None"
    by (simp_all add: establish_lookups has_session_client_key_def)
  moreover from this have "get_endpoint 7 ?s = Some (IPv4EndPoint 1 3)"
    using session_manager_consistent [of "IPv4EndPoint 1 3"
        "[Establish (IPv4EndPoint 1 2) 7 0x81, Establish (IPv4EndPoint 1 3) 7 0x81]" 7] by blast
  ultimately show ?thesis by simp
qed

text \<open>
  A client that goes takes the entry of another one with it.  When two clients are at
  one end point, which then gives the last of them, destroying the session of the other
  client, or establishing it again somewhere else, makes the end point unknown: the last
  client is still established there, but its messages are not recognised any more.
\<close>
theorem other_client_forgotten:
  assumes "get_endpoint c s = Some e" "get_client_key e s = Some c'" "c' \<noteq> c" "get_endpoint c' s = Some e"
  shows "get_client_key e (destroy_session_of c s) = None \<and>
    get_endpoint c' (destroy_session_of c s) = Some e \<and>
    (e' \<noteq> e \<longrightarrow> get_client_key e (establish_session e' c i s) = None \<and>
      get_endpoint c' (establish_session e' c i s) = Some e)"
  using assms by (auto simp: establish_lookups destroy_lookups)

lemma other_client_forgotten_witness:
  "let s = fold manager_step [Establish (IPv4EndPoint 1 2) 7 0x81, Establish (IPv4EndPoint 1 2) 8 0x81] new_SessionManager
   in get_client_key (IPv4EndPoint 1 2) s = Some 8 \<and> get_client_key (IPv4EndPoint 1 2) (destroy_session_of 7 s) = None"
proof -
  let ?s = "fold manager_step [Establish (IPv4EndPoint 1 2) 7 0x81, Establish (IPv4EndPoint 1 2) 8 0x81] new_SessionManager"
  have s: "get_endpoint 7 ?s = Some (IPv4EndPoint 1 2)" "get_client_key (IPv4EndPoint 1 2) ?s = Some 8"
    "get_endpoint 8 ?s = Some (IPv4EndPoint 1 2)"
    by (simp_all add: establish_lookups has_session_client_key_def)
  then have "get_client_key (IPv4EndPoint 1 2) (destroy_session_of 7 ?s) = None"
    using other_client_forgotten [of 7 ?s "IPv4EndPoint 1 2" 8 "IPv4EndPoint 1 2" 0] by simp
  then show ?thesis using s(2) by simp
qed

end
