(* ===== verification/PacketScheduler.thy ===== *)
theory PacketScheduler
  imports Containers
begin

text \<open>
  scheduler/PacketScheduler.hpp: the queue between the threads of a server, with one deque
  for each priority and a bound on its length, the oldest element being dropped when a push
  meets the bound.

  pop waits on a condition variable while the scheduler runs and is empty: the model gives
  None then, and the call is tried again in a later state.  Every method runs under the
  scheduler's mutex, so it is one step.  The specification is a function from priorities to
  lists, from which pop takes the front of the highest class that has one.
\<close>

record 'e PacketScheduler =
  ps_deque :: "(u8 \<times> 'e list) list"
  ps_sizes :: "(u8 \<times> nat) list"
  ps_running :: bool
  ps_max_size :: nat

definition new_PacketScheduler :: "nat \<Rightarrow> 'e PacketScheduler" where
  "new_PacketScheduler max_size = \<lparr>ps_deque = [], ps_sizes = [], ps_running = False, ps_max_size = max_size\<rparr>"

definition set_priority_size :: "u8 \<Rightarrow> nat \<Rightarrow> 'e PacketScheduler \<Rightarrow> 'e PacketScheduler" where
  "set_priority_size priority n s = s\<lparr>ps_sizes := map_put priority n (ps_sizes s)\<rparr>"

definition PacketScheduler_init :: "'e PacketScheduler \<Rightarrow> 'e PacketScheduler" where
  "PacketScheduler_init s = s\<lparr>ps_sizes := map_put 0 (ps_max_size s) (ps_sizes s), ps_running := True\<rparr>"

definition PacketScheduler_deinit :: "'e PacketScheduler \<Rightarrow> 'e PacketScheduler" where
  "PacketScheduler_deinit s = s\<lparr>ps_running := False\<rparr>"

text \<open>operator[] of both maps adds what is missing: a bound of 0 and an empty deque.\<close>

definition PacketScheduler_push :: "'e \<Rightarrow> u8 \<Rightarrow> 'e PacketScheduler \<Rightarrow> 'e PacketScheduler res" where
  "PacketScheduler_push element priority s =
     (let bound = map_index 0 (ps_sizes s) priority;
          q = map_index [] (ps_deque s) priority;
          s = s\<lparr>ps_sizes := map_put priority bound (ps_sizes s)\<rparr>
      in bind_res (if bound \<le> length q then (case q of [] \<Rightarrow> Inl Empty_Container | x # xs \<Rightarrow> Inr xs) else Inr q)
           (\<lambda>q. Inr (s\<lparr>ps_deque := map_put priority (q @ [element]) (ps_deque s)\<rparr>)))"

definition PacketScheduler_push_front :: "'e \<Rightarrow> u8 \<Rightarrow> 'e PacketScheduler \<Rightarrow> 'e PacketScheduler" where
  "PacketScheduler_push_front element priority s =
     s\<lparr>ps_deque := map_put priority (element # map_index [] (ps_deque s) priority) (ps_deque s)\<rparr>"

definition PacketScheduler_empty :: "'e PacketScheduler \<Rightarrow> bool" where
  "PacketScheduler_empty s = list_all (\<lambda>(priority, q). q = []) (ps_deque s)"

text \<open>The loop from the last key of the map down; None if the variable is not assigned.\<close>

definition available_priority :: "'e PacketScheduler \<Rightarrow> u8 option" where
  "available_priority s = find (\<lambda>p. map_index [] (ps_deque s) p \<noteq> []) (rev (sort (map fst (ps_deque s))))"

definition PacketScheduler_pop :: "'e PacketScheduler \<Rightarrow> ('e option \<times> 'e PacketScheduler) res option" where
  "PacketScheduler_pop s =
     (if PacketScheduler_empty s \<and> ps_running s then None
      else Some
        (if ps_running s then
           (case available_priority s of None \<Rightarrow> Inl Bad_Access
            | Some priority \<Rightarrow>
                (case map_index [] (ps_deque s) priority of [] \<Rightarrow> Inl Empty_Container
                 | element # q \<Rightarrow> Inr (Some element, s\<lparr>ps_deque := map_put priority q (ps_deque s)\<rparr>)))
         else Inr (None, s)))"

section \<open>The specification\<close>

datatype 'e sched_op = Sched_Push 'e u8 | Sched_Push_Front 'e u8 | Sched_Pop

type_synonym 'e classes = "u8 \<Rightarrow> 'e list"

fun spec_sched_step :: "(u8 \<Rightarrow> nat) \<Rightarrow> 'e sched_op \<Rightarrow> 'e classes \<Rightarrow> 'e option \<times> 'e classes" where
  "spec_sched_step bound (Sched_Push e p) q =
     (None, q(p := (if length (q p) < bound p then q p else tl (q p)) @ [e]))"
| "spec_sched_step bound (Sched_Push_Front e p) q = (None, q(p := e # q p))"
| "spec_sched_step bound Sched_Pop q =
     (if {p. q p \<noteq> []} = {} then (None, q)
      else let p = Max {p. q p \<noteq> []} in (Some (hd (q p)), q(p := tl (q p))))"

text \<open>The scheduler; a pop that waits gives nothing and leaves the state.\<close>

fun sched_step :: "'e sched_op \<Rightarrow> 'e PacketScheduler \<Rightarrow> ('e option \<times> 'e PacketScheduler) res" where
  "sched_step (Sched_Push e p) s = bind_res (PacketScheduler_push e p s) (\<lambda>s. Inr (None, s))"
| "sched_step (Sched_Push_Front e p) s = Inr (None, PacketScheduler_push_front e p s)"
| "sched_step Sched_Pop s = (case PacketScheduler_pop s of None \<Rightarrow> Inr (None, s) | Some r \<Rightarrow> r)"

fun spec_sched_run :: "(u8 \<Rightarrow> nat) \<Rightarrow> 'e sched_op list \<Rightarrow> 'e classes \<Rightarrow> 'e option list \<times> 'e classes" where
  "spec_sched_run bound [] q = ([], q)"
| "spec_sched_run bound (x # xs) q =
     (let (r, q) = spec_sched_step bound x q; (rs, q) = spec_sched_run bound xs q in (r # rs, q))"

fun sched_run :: "'e sched_op list \<Rightarrow> 'e PacketScheduler \<Rightarrow> ('e option list \<times> 'e PacketScheduler) res" where
  "sched_run [] s = Inr ([], s)"
| "sched_run (x # xs) s =
     bind_res (sched_step x s) (\<lambda>(r, s). bind_res (sched_run xs s) (\<lambda>(rs, s). Inr (r # rs, s)))"

abbreviation sched_classes :: "'e PacketScheduler \<Rightarrow> 'e classes" where
  "sched_classes s \<equiv> map_index [] (ps_deque s)"

abbreviation sched_bound :: "'e PacketScheduler \<Rightarrow> u8 \<Rightarrow> nat" where
  "sched_bound s \<equiv> map_index 0 (ps_sizes s)"

lemma map_index_put_fun: "map_index d (map_put k v m) = (map_index d m)(k := v)"
  by (simp add: fun_eq_iff)

lemma index_put_self [simp]: "map_index d (map_put k (map_index d m k) m) = map_index d m"
  by (simp add: map_index_put_fun)

text \<open>A push is undefined exactly for a class without a bound that is empty.\<close>

lemma push_fault_iff:
  "PacketScheduler_push e p s = Inl Empty_Container \<longleftrightarrow> sched_bound s p = 0 \<and> sched_classes s p = []"
  by (auto simp: PacketScheduler_push_def Let_def split: list.splits)

lemma push_eq:
  assumes "0 < sched_bound s p"
  shows "PacketScheduler_push e p s = Inr (s\<lparr>ps_sizes := map_put p (sched_bound s p) (ps_sizes s),
    ps_deque := map_put p ((if length (sched_classes s p) < sched_bound s p then sched_classes s p
      else tl (sched_classes s p)) @ [e]) (ps_deque s)\<rparr>)"
  using assms by (cases "sched_classes s p") (simp_all add: PacketScheduler_push_def Let_def not_less)

lemma classes_in_keys: "sched_classes s p \<noteq> [] \<Longrightarrow> p \<in> fst ` set (ps_deque s)"
  by (auto simp: map_index_def map_find_def map_of_eq_None_iff split: option.splits)
    (metis domI dom_map_of_conv_image_fst image_iff prod.collapse)

lemma empty_classes: "map_ok (ps_deque s) \<Longrightarrow> PacketScheduler_empty s \<longleftrightarrow> {p. sched_classes s p \<noteq> []} = {}"
  by (auto simp: PacketScheduler_empty_def list_all_iff map_index_def map_find_def map_ok_def split: option.splits)

lemma find_last:
  assumes "sorted xs" "\<exists>x\<in>set xs. P x"
  shows "find P (rev xs) = Some (Max {x \<in> set xs. P x})"
  using assms
proof (induction xs rule: rev_induct)
  case (snoc x xs)
  show ?case
  proof (cases "P x")
    case True
    have "Max {y \<in> set (xs @ [x]). P y} = x"
      using snoc.prems(1) True by (intro Max_eqI) (auto simp: sorted_append)
    then show ?thesis using True by simp
  next
    case False
    have "{y \<in> set (xs @ [x]). P y} = {y \<in> set xs. P y}"
      using False by auto
    then show ?thesis
      using snoc False by (auto simp: sorted_append)
  qed
qed simp

lemma available_is_highest:
  assumes "{p. sched_classes s p \<noteq> []} \<noteq> {}"
  shows "available_priority s = Some (Max {p. sched_classes s p \<noteq> []})"
proof -
  have keys: "{p \<in> set (sort (map fst (ps_deque s))). sched_classes s p \<noteq> []} = {p. sched_classes s p \<noteq> []}"
    using classes_in_keys [of s] by auto
  then show ?thesis
    unfolding available_priority_def using assms
    by (subst find_last) (auto simp del: set_sort simp flip: keys)
qed

lemma pop_eq:
  assumes "map_ok (ps_deque s)" "ps_running s"
  shows "PacketScheduler_pop s = (if {p. sched_classes s p \<noteq> []} = {} then None
    else let p = Max {p. sched_classes s p \<noteq> []} in Some (Inr (Some (hd (sched_classes s p)),
      s\<lparr>ps_deque := map_put p (tl (sched_classes s p)) (ps_deque s)\<rparr>)))"
proof (cases "{p. sched_classes s p \<noteq> []} = {}")
  case True
  then show ?thesis using assms empty_classes [OF assms(1)] by (simp add: PacketScheduler_pop_def)
next
  case False
  then have "Max {p. sched_classes s p \<noteq> []} \<in> {p. sched_classes s p \<noteq> []}"
    by (intro Max_in) auto
  then show ?thesis
    using False assms empty_classes [OF assms(1)] available_is_highest [OF False]
    by (auto simp: PacketScheduler_pop_def Let_def split: list.split)
qed

text \<open>What a run keeps.\<close>

definition sched_ok :: "(u8 \<Rightarrow> nat) \<Rightarrow> 'e PacketScheduler \<Rightarrow> bool" where
  "sched_ok bound s \<longleftrightarrow> map_ok (ps_deque s) \<and> ps_running s \<and> sched_bound s = bound"

fun op_priorities :: "'e sched_op list \<Rightarrow> u8 set" where
  "op_priorities [] = {}"
| "op_priorities (Sched_Push e p # xs) = insert p (op_priorities xs)"
| "op_priorities (x # xs) = op_priorities xs"

lemma sched_step_refines:
  assumes "sched_ok bound s" "\<forall>p\<in>op_priorities [x]. 0 < bound p"
  shows "\<exists>r t. sched_step x s = Inr (r, t) \<and> sched_ok bound t \<and>
    (r, sched_classes t) = spec_sched_step bound x (sched_classes s)"
proof (cases x)
  case (Sched_Push e p)
  then show ?thesis
    using assms push_eq [of s p e] by (auto simp: sched_ok_def map_index_put_fun)
next
  case (Sched_Push_Front e p)
  then show ?thesis
    using assms by (auto simp: sched_ok_def PacketScheduler_push_front_def map_index_put_fun)
next
  case Sched_Pop
  then show ?thesis
    using assms pop_eq [of s] by (auto simp: sched_ok_def Let_def map_index_put_fun)
qed

lemma sched_run_refines:
  assumes "sched_ok bound s" "\<forall>p\<in>op_priorities xs. 0 < bound p"
  shows "\<exists>rs t. sched_run xs s = Inr (rs, t) \<and> sched_ok bound t \<and>
    (rs, sched_classes t) = spec_sched_run bound xs (sched_classes s)"
  using assms
proof (induction xs arbitrary: s)
  case (Cons x xs)
  have "op_priorities (x # xs) = op_priorities [x] \<union> op_priorities xs"
    by (cases x) auto
  then have "\<forall>p\<in>op_priorities [x]. 0 < bound p" "\<forall>p\<in>op_priorities xs. 0 < bound p"
    using Cons.prems(2) by auto
  then obtain r t rs u where x: "sched_step x s = Inr (r, t)"
      "(r, sched_classes t) = spec_sched_step bound x (sched_classes s)"
    and xs: "sched_run xs t = Inr (rs, u)" "sched_ok bound u"
      "(rs, sched_classes u) = spec_sched_run bound xs (sched_classes t)"
    using sched_step_refines [OF Cons.prems(1), of x] Cons.IH by metis
  then show ?case
    by (simp flip: x(2) xs(3))
qed simp

lemma spec_bounded:
  assumes "\<forall>p. length (q p) \<le> bound p" "\<forall>p\<in>op_priorities xs. 0 < bound p"
    "list_all (\<lambda>x. \<forall>e p. x \<noteq> Sched_Push_Front e p) xs"
  shows "\<forall>p. length (snd (spec_sched_run bound xs q) p) \<le> bound p"
  using assms
proof (induction xs arbitrary: q)
  case (Cons x xs)
  have "length (snd (spec_sched_step bound x q) p) \<le> bound p" for p
  proof -
    have "length (q p') \<le> bound p'" "length (q p') - Suc 0 \<le> bound p'"
      "0 < bound p' \<Longrightarrow> length (q p') - Suc 0 < bound p'" for p'
      using spec [OF Cons.prems(1), of p'] by linarith+
    then show ?thesis
      using Cons.prems(2,3) by (cases x) (auto simp: Let_def Suc_le_eq)
  qed
  moreover have "\<forall>p\<in>op_priorities xs. 0 < bound p"
    using Cons.prems(2) by (cases x) auto
  ultimately show ?case
    using Cons.IH [of "snd (spec_sched_step bound x q)"] Cons.prems(3) by (simp add: case_prod_beta Let_def)
qed simp

text \<open>C13: the packet scheduler is a queue of priority classes.  A scheduler that is set up and
  running, in which only classes with a bound are pushed, goes through any sequence of
  operations without undefined behaviour; each pop gives the oldest element of the highest
  class that has one, a push into a full class drops its oldest element, and without
  push_front no class is longer than its bound.
\<close>
theorem packet_scheduler_refines:
  assumes "s = PacketScheduler_init (fold (\<lambda>(p, n). set_priority_size p n) sizes (new_PacketScheduler max_size))"
    and "\<forall>p\<in>op_priorities xs. 0 < sched_bound s p"
  shows "\<exists>rs t. sched_run xs s = Inr (rs, t) \<and>
    (rs, sched_classes t) = spec_sched_run (sched_bound s) xs (\<lambda>p. []) \<and>
    (list_all (\<lambda>x. \<forall>e p. x \<noteq> Sched_Push_Front e p) xs \<longrightarrow> (\<forall>p. length (sched_classes t p) \<le> sched_bound s p))"
proof -
  have start: "ps_deque (fold (\<lambda>(p, n). set_priority_size p n) sizes u) = ps_deque u" for u :: "'a PacketScheduler"
    by (induction sizes arbitrary: u) (auto simp: set_priority_size_def)
  then have s: "sched_ok (sched_bound s) s" "sched_classes s = (\<lambda>p. [])"
    by (auto simp: assms(1) sched_ok_def PacketScheduler_init_def new_PacketScheduler_def fun_eq_iff)
  obtain rs t where t: "sched_run xs s = Inr (rs, t)"
    "(rs, sched_classes t) = spec_sched_run (sched_bound s) xs (\<lambda>p. [])"
    using sched_run_refines [OF s(1) assms(2)] s(2) by auto
  moreover have "snd (spec_sched_run (sched_bound s) xs (\<lambda>p. [])) = sched_classes t"
    using t(2) by (metis snd_conv)
  ultimately show ?thesis
    using spec_bounded [of "\<lambda>p. []" "sched_bound s" xs] assms(2) by auto
qed

text \<open>Two classes, bounded by 2 and 1.\<close>

definition sample_scheduler :: "nat PacketScheduler" where
  "sample_scheduler = PacketScheduler_init (fold (\<lambda>(p, n). set_priority_size p n) [(5, 1)] (new_PacketScheduler 2))"

definition sample_sched_ops :: "nat sched_op list" where
  "sample_sched_ops = [Sched_Push 1 0, Sched_Push 2 5, Sched_Push 3 0, Sched_Push 4 0, Sched_Pop, Sched_Pop, Sched_Pop, Sched_Pop]"

lemma sample_sched_run:
  "\<exists>t. sched_run sample_sched_ops sample_scheduler =
     Inr ([None, None, None, None, Some 2, Some 3, Some 4, None], t)"
  by (simp add: sample_sched_ops_def sample_scheduler_def PacketScheduler_init_def set_priority_size_def new_PacketScheduler_def
      PacketScheduler_push_def PacketScheduler_pop_def PacketScheduler_empty_def available_priority_def map_index_def map_find_Cons
      map_put_def Let_def)

lemma packet_scheduler_refines_witness:
  "\<exists>t. sched_run sample_sched_ops sample_scheduler =
       Inr ([None, None, None, None, Some 2, Some 3, Some 4, None], t) \<and>
     spec_sched_run (sched_bound sample_scheduler) sample_sched_ops (\<lambda>p. []) =
       ([None, None, None, None, Some 2, Some 3, Some 4, None], sched_classes t)"
proof -
  have "\<forall>p\<in>op_priorities sample_sched_ops. 0 < sched_bound sample_scheduler p"
    by (simp add: sample_sched_ops_def sample_scheduler_def PacketScheduler_init_def set_priority_size_def
        new_PacketScheduler_def map_index_def map_put_def map_find_Cons)
  from packet_scheduler_refines [OF sample_scheduler_def this] sample_sched_run show ?thesis
    by auto
qed

end
