(* ===== verification/ArgumentParser.thy ===== *)
theory ArgumentParser
  imports Prelude "HOL-Library.Char_ord"
begin

text \<open>
  utils/ArgumentParser.hpp: the command line of the agent.  An argument searches the whole
  command line for its aliases; the argument groups of the transports are parsed one after
  the other over the same command line.  A C++ exception, here that of stol, is the fault
  Uncaught_Exception.  The profiles are those of config.hpp: discovery and socket CAN are
  compiled in, the peer-to-peer profile is not.

  The file system (whether stat finds a file, the lines of a file that opens), the agents
  of the transports and the speeds of termios are parameters.  The warnings on cerr and the
  log are left out; the help texts are modelled.
\<close>

datatype TransportKind =
  TK_INVALID | TK_UDP4 | TK_UDP6 | TK_TCP4 | TK_TCP6 | TK_CAN | TK_SERIAL | TK_MULTISERIAL | TK_PSEUDOTERMINAL | TK_HELP

datatype ArgumentKind = AK_NO_VALUE | AK_VALUE

datatype ParseResult = PR_INVALID | PR_NOT_FOUND | PR_VALID | PR_HELP

section \<open>One argument\<close>

record 'a Argument =
  argument_kind :: ArgumentKind
  short_alias :: string
  long_alias :: string
  arg_value :: 'a
  has_default_value :: bool
  enabled_by_default :: bool
  parse_found :: bool
  allowed_values :: "'a list"

definition new_int_Argument :: "string \<Rightarrow> string \<Rightarrow> ArgumentKind \<Rightarrow> 'w::len word list \<Rightarrow> bool \<Rightarrow> 'w word Argument" where
  "new_int_Argument short long kind allowed enabled = \<lparr>argument_kind = kind, short_alias = short, long_alias = long,
     arg_value = 0, has_default_value = False, enabled_by_default = enabled, parse_found = False, allowed_values = allowed\<rparr>"

definition new_int_Argument_default :: "string \<Rightarrow> string \<Rightarrow> 'w::len word \<Rightarrow> 'w word list \<Rightarrow> bool \<Rightarrow> 'w word Argument" where
  "new_int_Argument_default short long v allowed enabled = \<lparr>argument_kind = AK_VALUE, short_alias = short,
     long_alias = long, arg_value = v, has_default_value = True, enabled_by_default = enabled, parse_found = False,
     allowed_values = allowed\<rparr>"

definition new_string_Argument :: "string \<Rightarrow> string \<Rightarrow> string list \<Rightarrow> ArgumentKind \<Rightarrow> bool \<Rightarrow> string Argument" where
  "new_string_Argument short long allowed kind enabled = \<lparr>argument_kind = kind, short_alias = short, long_alias = long,
     arg_value = [], has_default_value = False, enabled_by_default = enabled, parse_found = False,
     allowed_values = allowed\<rparr>"

definition new_string_Argument_default :: "string \<Rightarrow> string \<Rightarrow> string \<Rightarrow> string list \<Rightarrow> bool \<Rightarrow> string Argument" where
  "new_string_Argument_default short long v allowed enabled = \<lparr>argument_kind = AK_VALUE, short_alias = short,
     long_alias = long, arg_value = v, has_default_value = True, enabled_by_default = enabled, parse_found = False,
     allowed_values = allowed\<rparr>"

text \<open>isdigit and stol of the C++ library: stol throws without digits and out of the range of a long.\<close>

definition isdigit :: "char \<Rightarrow> bool" where
  "isdigit c \<longleftrightarrow> 48 \<le> (of_char c :: nat) \<and> (of_char c :: nat) \<le> 57"

definition digits_value :: "string \<Rightarrow> nat" where
  "digits_value ds = foldl (\<lambda>n d. 10 * n + (of_char d - 48)) 0 ds"

definition stol :: "string \<Rightarrow> int res" where
  "stol ds = (if ds = [] \<or> 2 ^ 63 \<le> digits_value ds then Inl Uncaught_Exception else Inr (int (digits_value ds)))"

text \<open>The last part of the loop body, with a value for the argument.\<close>

definition parse_int_value :: "string \<Rightarrow> 'w::len word Argument \<Rightarrow> (ParseResult \<times> 'w word Argument) res" where
  "parse_int_value value_str a =
     (if list_all isdigit value_str then
        bind_res (stol value_str) (\<lambda>n.
          let a = a\<lparr>arg_value := word_of_int n\<rparr>
          in if allowed_values a \<noteq> [] \<and> arg_value a \<notin> set (allowed_values a) then Inr (PR_INVALID, a)
             else Inr (PR_VALID, a\<lparr>parse_found := True\<rparr>))
      else Inr (PR_INVALID, a))"

fun int_parse_argument :: "string list \<Rightarrow> 'w::len word Argument \<Rightarrow> (ParseResult \<times> 'w word Argument) res" where
  "int_parse_argument [] a =
     (if enabled_by_default a \<and> has_default_value a then Inr (PR_VALID, a\<lparr>parse_found := True\<rparr>)
      else Inr (PR_NOT_FOUND, a))"
| "int_parse_argument (opt # argv) a =
     (if short_alias a = opt \<or> long_alias a = opt then
        if argument_kind a \<noteq> AK_VALUE then Inr (PR_VALID, a\<lparr>parse_found := True\<rparr>)
        else (case argv of
            value_str # _ \<Rightarrow>
              if CHR ''-'' \<in> set value_str then
                if has_default_value a then Inr (PR_VALID, a\<lparr>parse_found := True\<rparr>)
                else Inr (PR_INVALID, a\<lparr>parse_found := False\<rparr>)
              else parse_int_value value_str a
          | [] \<Rightarrow> if has_default_value a then Inr (PR_VALID, a\<lparr>parse_found := True\<rparr>)
                  else int_parse_argument [] a)
      else if take (length (short_alias a)) opt = short_alias a then
        if argument_kind a \<noteq> AK_VALUE then Inr (PR_INVALID, a\<lparr>parse_found := False\<rparr>)
        else parse_int_value (drop (length (short_alias a)) opt) a
      else int_parse_argument argv a)"

fun string_parse_argument :: "string list \<Rightarrow> string Argument \<Rightarrow> ParseResult \<times> string Argument" where
  "string_parse_argument [] a =
     (if enabled_by_default a \<and> has_default_value a then (PR_VALID, a\<lparr>parse_found := True\<rparr>)
      else (PR_NOT_FOUND, a))"
| "string_parse_argument (opt # argv) a =
     (if opt = short_alias a \<or> opt = long_alias a then
        if argument_kind a = AK_VALUE then
          (case argv of
             v # _ \<Rightarrow> let a = a\<lparr>arg_value := v\<rparr>
               in if allowed_values a \<noteq> [] \<and> arg_value a \<notin> set (allowed_values a) then (PR_INVALID, a)
                  else (PR_VALID, a\<lparr>parse_found := True\<rparr>)
           | [] \<Rightarrow> (PR_INVALID, a))
        else (PR_VALID, a\<lparr>parse_found := True\<rparr>)
      else string_parse_argument argv a)"

section \<open>Help texts\<close>

text \<open>
  How a stream prints a value: a uint16_t in decimal, a uint8_t, which is an unsigned char,
  as the character with that code.
\<close>

definition print_u16 :: "u16 \<Rightarrow> string" where
  "print_u16 w = digit_string (unat w)"

definition print_u8 :: "u8 \<Rightarrow> string" where
  "print_u8 w = [char_of (unat w)]"

definition endl :: string where "endl = [CHR 0x0A]"

text \<open>The allowed values are a set in increasing order: first and last of the list.\<close>

definition int_get_help :: "('w::len word \<Rightarrow> string) \<Rightarrow> 'w word Argument \<Rightarrow> string" where
  "int_get_help pr a = short_alias a @ ''/'' @ long_alias a @
     (if argument_kind a = AK_VALUE then '' <value>'' else []) @
     (if allowed_values a \<noteq> [] then '' ('' @ pr (hd (allowed_values a)) @ '' - '' @ pr (last (allowed_values a)) @ '')'' else []) @
     (if has_default_value a then '' [default: '' @ [CHR 0x27] @ pr (arg_value a) @ [CHR 0x27] @ '']'' else []) @ ''.''"

definition string_get_help :: "string Argument \<Rightarrow> string" where
  "string_get_help a = short_alias a @ ''/'' @ long_alias a @
     (if argument_kind a = AK_VALUE then '' <value>'' else []) @
     (if allowed_values a \<noteq> [] then '' ('' @
        concat (map (\<lambda>v. v @ (if last (allowed_values a) \<noteq> v then '', '' else '')'')) (allowed_values a)) else []) @
     (if has_default_value a then '' [default: '' @ [CHR 0x27] @ arg_value a @ [CHR 0x27] @ '']'' else []) @ ''.''"

section \<open>The common arguments\<close>

record CommonArgs =
  ca_help :: "u8 Argument"
  ca_middleware :: "string Argument"
  ca_refs :: "string Argument"
  ca_verbose :: "u8 Argument"
  ca_discovery :: "u16 Argument"

definition DEFAULT_MIDDLEWARE :: string where "DEFAULT_MIDDLEWARE = ''dds''"

definition DEFAULT_VERBOSE_LEVEL :: nat where "DEFAULT_VERBOSE_LEVEL = 4"

definition DEFAULT_DISCOVERY_PORT :: nat where "DEFAULT_DISCOVERY_PORT = 7400"

definition DEFAULT_BAUDRATE_LEVEL :: string where "DEFAULT_BAUDRATE_LEVEL = ''115200''"

definition DEFAULT_CAN_ID :: string where "DEFAULT_CAN_ID = ''0x00000001''"

definition new_CommonArgs :: CommonArgs where
  "new_CommonArgs = \<lparr>
     ca_help = new_int_Argument ''-h'' ''--help'' AK_NO_VALUE [] True,
     ca_middleware = new_string_Argument_default ''-m'' ''--middleware'' DEFAULT_MIDDLEWARE [''ced'', ''dds'', ''rtps''] True,
     ca_refs = new_string_Argument ''-r'' ''--refs'' [] AK_VALUE True,
     ca_verbose = new_int_Argument_default ''-v'' ''--verbose'' (of_nat DEFAULT_VERBOSE_LEVEL) [0, 1, 2, 3, 4, 5, 6] True,
     ca_discovery = new_int_Argument_default ''-d'' ''--discovery'' (of_nat DEFAULT_DISCOVERY_PORT) [] False\<rparr>"

text \<open>The pair says whether the arguments are right and whether the help is asked for.\<close>

definition CommonArgs_parse :: "(string \<Rightarrow> bool) \<Rightarrow> string list \<Rightarrow> CommonArgs \<Rightarrow> ((bool \<times> bool) \<times> CommonArgs) res" where
  "CommonArgs_parse file_exists argv c =
     bind_res (int_parse_argument argv (ca_help c)) (\<lambda>(parse_help, a). let c = c\<lparr>ca_help := a\<rparr> in
       if parse_help = PR_VALID then Inr ((True, True), c)
       else if parse_help = PR_INVALID then Inr ((False, False), c)
       else let (parse_middleware, a) = string_parse_argument argv (ca_middleware c); c = c\<lparr>ca_middleware := a\<rparr> in
         if parse_middleware = PR_INVALID then Inr ((False, False), c)
         else let (refs_arg, a) = string_parse_argument argv (ca_refs c); c = c\<lparr>ca_refs := a\<rparr> in
           if refs_arg = PR_VALID \<and> \<not> file_exists (arg_value (ca_refs c)) then Inr ((False, False), c)
           else if refs_arg = PR_INVALID then Inr ((False, False), c)
           else bind_res (int_parse_argument argv (ca_verbose c)) (\<lambda>(parse_verbose, a). let c = c\<lparr>ca_verbose := a\<rparr> in
             if parse_verbose = PR_INVALID then Inr ((False, False), c)
             else bind_res (int_parse_argument argv (ca_discovery c)) (\<lambda>(parse_discovery, a). let c = c\<lparr>ca_discovery := a\<rparr> in
               if parse_discovery = PR_INVALID then Inr ((False, False), c) else Inr ((True, False), c))))"

definition CommonArgs_get_help :: "CommonArgs \<Rightarrow> string" where
  "CommonArgs_get_help c = ''    '' @ int_get_help print_u8 (ca_help c) @ endl @
     ''    '' @ string_get_help (ca_middleware c) @ endl @ ''    '' @ string_get_help (ca_refs c) @ endl @
     ''    '' @ int_get_help print_u8 (ca_verbose c) @ endl @ ''    '' @ int_get_help print_u16 (ca_discovery c) @ endl"

text \<open>What the command line does with an agent.\<close>

record 'g agent_api =
  start_agent :: "'g \<Rightarrow> bool \<times> 'g"
  has_discovery :: "'g \<Rightarrow> bool"
  enable_discovery :: "u16 \<Rightarrow> 'g \<Rightarrow> 'g"
  load_config_file :: "string \<Rightarrow> 'g \<Rightarrow> 'g"
  set_verbose_level :: "u8 \<Rightarrow> 'g \<Rightarrow> 'g"

definition apply_actions :: "'g agent_api \<Rightarrow> CommonArgs \<Rightarrow> 'g \<Rightarrow> 'g" where
  "apply_actions api c server =
     (let server = (if parse_found (ca_discovery c) \<and> has_discovery api server
            then enable_discovery api (arg_value (ca_discovery c)) server else server);
          server = (if parse_found (ca_refs c) then load_config_file api (arg_value (ca_refs c)) server else server)
      in if parse_found (ca_verbose c) then set_verbose_level api (arg_value (ca_verbose c)) server else server)"

section \<open>The arguments of the transports\<close>

record IPvXArgs =
  ip_port :: "u16 Argument"

definition new_IPvXArgs :: IPvXArgs where
  "new_IPvXArgs = \<lparr>ip_port = new_int_Argument ''-p'' ''--port'' AK_VALUE [] True\<rparr>"

definition IPvXArgs_parse :: "string list \<Rightarrow> IPvXArgs \<Rightarrow> (bool \<times> IPvXArgs) res" where
  "IPvXArgs_parse argv g = bind_res (int_parse_argument argv (ip_port g)) (\<lambda>(parse_port, a).
     Inr (parse_port = PR_VALID, g\<lparr>ip_port := a\<rparr>))"

definition IPvXArgs_get_help :: "IPvXArgs \<Rightarrow> string" where
  "IPvXArgs_get_help g = ''    '' @ int_get_help print_u16 (ip_port g) @ endl"

record PseudoTerminalArgs =
  pt_baudrate :: "string Argument"

definition new_PseudoTerminalArgs :: PseudoTerminalArgs where
  "new_PseudoTerminalArgs = \<lparr>pt_baudrate = new_string_Argument_default ''-b'' ''--baudrate'' DEFAULT_BAUDRATE_LEVEL [] True\<rparr>"

text \<open>The result is cast to a bool, so that only INVALID, which is 0, is false.\<close>

definition PseudoTerminalArgs_parse :: "string list \<Rightarrow> string Argument \<Rightarrow> bool \<times> string Argument" where
  "PseudoTerminalArgs_parse argv a = (let (r, a) = string_parse_argument argv a in (r \<noteq> PR_INVALID, a))"

definition PseudoTerminalArgs_get_help :: "PseudoTerminalArgs \<Rightarrow> string" where
  "PseudoTerminalArgs_get_help g = ''    '' @ string_get_help (pt_baudrate g) @ endl"

text \<open>The classes of serial ports extend the one of pseudoterminals; both take a device or a file.\<close>

record SerialArgs = PseudoTerminalArgs +
  sr_dev :: "string Argument"
  sr_file :: "string Argument"

definition new_SerialArgs :: SerialArgs where
  "new_SerialArgs = \<lparr>pt_baudrate = pt_baudrate new_PseudoTerminalArgs,
     sr_dev = new_string_Argument ''-D'' ''--dev'' [] AK_VALUE True,
     sr_file = new_string_Argument ''-f'' ''--file'' [] AK_VALUE True\<rparr>"

definition SerialArgs_parse :: "(string \<Rightarrow> string list option) \<Rightarrow> string list \<Rightarrow> SerialArgs \<Rightarrow> bool \<times> SerialArgs" where
  "SerialArgs_parse read_lines argv g =
     (let (ok, b) = PseudoTerminalArgs_parse argv (pt_baudrate g); g = g\<lparr>pt_baudrate := b\<rparr>
      in if \<not> ok then (False, g)
         else let (parse_dev, d) = string_parse_argument argv (sr_dev g);
                  (parse_file, f) = string_parse_argument argv (sr_file g);
                  g = g\<lparr>sr_dev := d, sr_file := f\<rparr>
              in if parse_dev \<noteq> PR_VALID \<and> parse_file = PR_VALID \<and> read_lines (arg_value f) = None then (False, g)
                 else ((parse_dev = PR_VALID) \<noteq> (parse_file = PR_VALID), g))"

text \<open>getline of a stream that is not open leaves the string empty.\<close>

definition SerialArgs_dev :: "(string \<Rightarrow> string list option) \<Rightarrow> SerialArgs \<Rightarrow> string" where
  "SerialArgs_dev read_lines g =
     (if parse_found (sr_dev g) then arg_value (sr_dev g)
      else if parse_found (sr_file g) then
        (case read_lines (arg_value (sr_file g)) of Some (l # _) \<Rightarrow> l | _ \<Rightarrow> [])
      else [])"

definition SerialArgs_get_help :: "SerialArgs \<Rightarrow> string" where
  "SerialArgs_get_help g = ''    '' @ string_get_help (sr_dev g)"

record MultiSerialArgs = PseudoTerminalArgs +
  ms_devs :: "string Argument"
  ms_file :: "string Argument"

definition new_MultiSerialArgs :: MultiSerialArgs where
  "new_MultiSerialArgs = \<lparr>pt_baudrate = pt_baudrate new_PseudoTerminalArgs,
     ms_devs = new_string_Argument ''-D'' ''--devs'' [] AK_VALUE True,
     ms_file = new_string_Argument ''-f'' ''--file'' [] AK_VALUE True\<rparr>"

definition MultiSerialArgs_parse :: "(string \<Rightarrow> string list option) \<Rightarrow> string list \<Rightarrow> MultiSerialArgs \<Rightarrow> bool \<times> MultiSerialArgs" where
  "MultiSerialArgs_parse read_lines argv g =
     (let (ok, b) = PseudoTerminalArgs_parse argv (pt_baudrate g); g = g\<lparr>pt_baudrate := b\<rparr>
      in if \<not> ok then (False, g)
         else let (parse_devs, d) = string_parse_argument argv (ms_devs g);
                  (parse_file, f) = string_parse_argument argv (ms_file g);
                  g = g\<lparr>ms_devs := d, ms_file := f\<rparr>
              in if parse_devs \<noteq> PR_VALID \<and> parse_file = PR_VALID \<and> read_lines (arg_value f) = None then (False, g)
                 else ((parse_devs = PR_VALID) \<noteq> (parse_file = PR_VALID), g))"

text \<open>The words of a string, as a stream reads them: between spaces and the characters 9 to 13.\<close>

definition is_space :: "char \<Rightarrow> bool" where
  "is_space c \<longleftrightarrow> of_char c = (32 :: nat) \<or> (9 :: nat) \<le> of_char c \<and> of_char c \<le> (13 :: nat)"

fun split_words :: "string \<Rightarrow> string \<Rightarrow> string list" where
  "split_words w [] = (if w = [] then [] else [w])"
| "split_words w (c # cs) =
     (if is_space c then (if w = [] then [] else [w]) @ split_words [] cs else split_words (w @ [c]) cs)"

definition MultiSerialArgs_devs :: "(string \<Rightarrow> string list option) \<Rightarrow> MultiSerialArgs \<Rightarrow> string list" where
  "MultiSerialArgs_devs read_lines g =
     (if parse_found (ms_devs g) then split_words [] (arg_value (ms_devs g))
      else if parse_found (ms_file g) then (case read_lines (arg_value (ms_file g)) of Some ls \<Rightarrow> ls | None \<Rightarrow> [])
      else [])"

definition MultiSerialArgs_get_help :: "MultiSerialArgs \<Rightarrow> string" where
  "MultiSerialArgs_get_help g = ''    '' @ string_get_help (ms_devs g)"

record CanArgs =
  can_dev :: "string Argument"
  can_id_arg :: "string Argument"

definition new_CanArgs :: CanArgs where
  "new_CanArgs = \<lparr>can_dev = new_string_Argument ''-D'' ''--dev'' [] AK_VALUE True,
     can_id_arg = new_string_Argument_default ''-I'' ''--id'' DEFAULT_CAN_ID [] True\<rparr>"

text \<open>The result of the identifier is not looked at.\<close>

definition CanArgs_parse :: "string list \<Rightarrow> CanArgs \<Rightarrow> bool \<times> CanArgs" where
  "CanArgs_parse argv g =
     (let (parse_dev, d) = string_parse_argument argv (can_dev g); g = g\<lparr>can_dev := d\<rparr>
      in if parse_dev \<noteq> PR_VALID then (False, g)
         else (True, g\<lparr>can_id_arg := snd (string_parse_argument argv (can_id_arg g))\<rparr>))"

definition CanArgs_get_help :: "CanArgs \<Rightarrow> string" where
  "CanArgs_get_help g = ''    '' @ string_get_help (can_dev g)"

section \<open>The parser\<close>

record 'g ArgumentParser =
  ap_argv :: "string list"
  ap_common :: CommonArgs
  ap_ip :: IPvXArgs
  ap_can :: CanArgs
  ap_serial :: SerialArgs
  ap_multiserial :: MultiSerialArgs
  ap_pseudoterminal :: PseudoTerminalArgs
  ap_transport_kind :: TransportKind
  ap_server :: "'g option"

definition new_ArgumentParser :: "string list \<Rightarrow> TransportKind \<Rightarrow> 'g ArgumentParser" where
  "new_ArgumentParser argv kind = \<lparr>ap_argv = argv, ap_common = new_CommonArgs, ap_ip = new_IPvXArgs,
     ap_can = new_CanArgs, ap_serial = new_SerialArgs, ap_multiserial = new_MultiSerialArgs,
     ap_pseudoterminal = new_PseudoTerminalArgs, ap_transport_kind = kind, ap_server = None\<rparr>"

text \<open>The switch over the transports.\<close>

definition parse_transport :: "(string \<Rightarrow> string list option) \<Rightarrow> 'g ArgumentParser \<Rightarrow> (bool \<times> 'g ArgumentParser) res" where
  "parse_transport read_lines p =
     (case ap_transport_kind p of
        TK_UDP4 \<Rightarrow> bind_res (IPvXArgs_parse (ap_argv p) (ap_ip p)) (\<lambda>(r, g). Inr (r, p\<lparr>ap_ip := g\<rparr>))
      | TK_UDP6 \<Rightarrow> bind_res (IPvXArgs_parse (ap_argv p) (ap_ip p)) (\<lambda>(r, g). Inr (r, p\<lparr>ap_ip := g\<rparr>))
      | TK_TCP4 \<Rightarrow> bind_res (IPvXArgs_parse (ap_argv p) (ap_ip p)) (\<lambda>(r, g). Inr (r, p\<lparr>ap_ip := g\<rparr>))
      | TK_TCP6 \<Rightarrow> bind_res (IPvXArgs_parse (ap_argv p) (ap_ip p)) (\<lambda>(r, g). Inr (r, p\<lparr>ap_ip := g\<rparr>))
      | TK_CAN \<Rightarrow> (let (r, g) = CanArgs_parse (ap_argv p) (ap_can p) in Inr (r, p\<lparr>ap_can := g\<rparr>))
      | TK_SERIAL \<Rightarrow> (let (r, g) = SerialArgs_parse read_lines (ap_argv p) (ap_serial p) in Inr (r, p\<lparr>ap_serial := g\<rparr>))
      | TK_MULTISERIAL \<Rightarrow> (let (r, g) = MultiSerialArgs_parse read_lines (ap_argv p) (ap_multiserial p)
          in Inr (r, p\<lparr>ap_multiserial := g\<rparr>))
      | TK_PSEUDOTERMINAL \<Rightarrow> (let (r, b) = PseudoTerminalArgs_parse (ap_argv p) (pt_baudrate (ap_pseudoterminal p))
          in Inr (r, p\<lparr>ap_pseudoterminal := (ap_pseudoterminal p)\<lparr>pt_baudrate := b\<rparr>\<rparr>))
      | TK_INVALID \<Rightarrow> Inr (False, p)
      | TK_HELP \<Rightarrow> Inr (False, p))"

definition parse_arguments :: "(string \<Rightarrow> bool) \<Rightarrow> (string \<Rightarrow> string list option) \<Rightarrow> 'g ArgumentParser \<Rightarrow>
    (ParseResult \<times> 'g ArgumentParser) res" where
  "parse_arguments file_exists read_lines p =
     (if 2 > length (ap_argv p) then Inr (PR_INVALID, p)
      else bind_res (CommonArgs_parse file_exists (ap_argv p) (ap_common p)) (\<lambda>((ok, help), c).
        let p = p\<lparr>ap_common := c\<rparr>
        in if help then Inr (PR_HELP, p)
           else bind_res (parse_transport read_lines p) (\<lambda>(r, p).
             Inr (if ok \<and> r then PR_VALID else PR_INVALID, p))))"

definition show_help_text :: "'g ArgumentParser \<Rightarrow> string" where
  "show_help_text p = endl @ ''Available arguments (per transport):'' @ endl @ ''  * COMMON'' @ endl @
     CommonArgs_get_help (ap_common p) @ ''  * IPvX (udp4, udp6, tcp4, tcp6)'' @ endl @ IPvXArgs_get_help (ap_ip p) @
     ''  * SERIAL (serial, multiserial, pseudoterminal)'' @ endl @ PseudoTerminalArgs_get_help (ap_pseudoterminal p) @
     SerialArgs_get_help (ap_serial p) @ ''  * CAN FD (canfd)'' @ endl @ CanArgs_get_help (ap_can p) @ endl"

section \<open>Terminal attributes\<close>

text \<open>The constants of termios.h are parameters; tc_speed n is B0, B50 and so on.\<close>

record termios_consts =
  tc_CREAD :: u32  tc_CLOCAL :: u32  tc_PARENB :: u32  tc_CSTOPB :: u32  tc_CSIZE :: u32  tc_CS8 :: u32  tc_CRTSCTS :: u32
  tc_ICANON :: u32  tc_ECHO :: u32  tc_ECHOE :: u32  tc_ISIG :: u32
  tc_IXON :: u32  tc_IXOFF :: u32  tc_INPCK :: u32  tc_ISTRIP :: u32  tc_IGNBRK :: u32  tc_IGNCR :: u32
  tc_INLCR :: u32  tc_ICRNL :: u32  tc_OPOST :: u32
  tc_speed :: "nat \<Rightarrow> u32"

record termios =
  c_cflag :: u32
  c_lflag :: u32
  c_iflag :: u32
  c_oflag :: u32
  c_vmin :: u8
  c_vtime :: u8
  c_ispeed :: u32
  c_ospeed :: u32

definition baud_rates :: "(string \<times> nat) list" where
  "baud_rates = [(''0'', 0), (''50'', 50), (''75'', 75), (''110'', 110), (''134'', 134), (''150'', 150), (''200'', 200),
     (''300'', 300), (''600'', 600), (''1200'', 1200), (''1800'', 1800), (''2400'', 2400), (''4800'', 4800), (''9600'', 9600),
     (''19200'', 19200), (''38400'', 38400), (''57600'', 57600), (''115200'', 115200), (''230400'', 230400),
     (''460800'', 460800), (''500000'', 500000), (''576000'', 576000), (''921600'', 921600), (''1000000'', 1000000),
     (''1152000'', 1152000), (''1500000'', 1500000), (''2000000'', 2000000), (''2500000'', 2500000),
     (''3000000'', 3000000), (''3500000'', 3500000), (''4000000'', 4000000)]"

text \<open>atoi: spaces, a sign and digits; out of the range of an int it is undefined.\<close>

definition atoi :: "string \<Rightarrow> int res" where
  "atoi s = (let s = dropWhile is_space s;
       neg = (s \<noteq> [] \<and> hd s = CHR ''-'');
       s = (if s \<noteq> [] \<and> (hd s = CHR ''-'' \<or> hd s = CHR ''+'') then tl s else s);
       n = int (digits_value (takeWhile isdigit s))
     in chk32 (if neg then - n else n))"

text \<open>serial/baud_rate_table_linux.h\<close>

definition getBaudRate :: "termios_consts \<Rightarrow> string \<Rightarrow> u32 res" where
  "getBaudRate tc s = (case map_of baud_rates s of
     Some n \<Rightarrow> Inr (tc_speed tc n)
   | None \<Rightarrow> bind_res (atoi s) (\<lambda>n. Inr (word_of_int n)))"

definition init_termios :: "termios_consts \<Rightarrow> string \<Rightarrow> termios res" where
  "init_termios tc baudrate_str =
     (let cflag = 0 OR tc_CREAD tc;
          cflag = cflag OR tc_CLOCAL tc;
          cflag = cflag AND NOT (tc_PARENB tc);
          cflag = cflag AND NOT (tc_CSTOPB tc);
          cflag = cflag AND NOT (tc_CSIZE tc);
          cflag = cflag OR tc_CS8 tc;
          cflag = cflag AND NOT (tc_CRTSCTS tc);
          lflag = 0 AND NOT (tc_ICANON tc) AND NOT (tc_ECHO tc) AND NOT (tc_ECHOE tc) AND NOT (tc_ISIG tc);
          iflag = 0 AND NOT (tc_IXON tc) AND NOT (tc_IXOFF tc) AND NOT (tc_INPCK tc) AND NOT (tc_ISTRIP tc) AND
            NOT (tc_IGNBRK tc) AND NOT (tc_IGNCR tc) AND NOT (tc_INLCR tc) AND NOT (tc_ICRNL tc);
          oflag = 0 AND NOT (tc_OPOST tc)
      in bind_res (getBaudRate tc baudrate_str) (\<lambda>baudrate.
        Inr \<lparr>c_cflag = cflag, c_lflag = lflag, c_iflag = iflag, c_oflag = oflag, c_vmin = 1, c_vtime = 1,
          c_ispeed = baudrate, c_ospeed = baudrate\<rparr>))"

section \<open>Starting the agent\<close>

datatype agent_type = IP_AGENT | TERMIOS_AGENT | MULTI_TERMIOS_AGENT | PSEUDO_TERMINAL_AGENT | CAN_AGENT

text \<open>The arguments of the constructors of the agents, the flags of open left out.\<close>

datatype 'k agent_config =
    IP_Config u16 'k
  | Termios_Config string termios 'k
  | Multi_Termios_Config "string list" termios 'k
  | Pseudo_Terminal_Config string 'k
  | Can_Config string u32 'k

text \<open>strtoul with base 16: spaces, a sign, 0x, and hexadecimal digits; it saturates.\<close>

definition hex_value :: "char \<Rightarrow> nat option" where
  "hex_value c = (let n = of_char c :: nat in
     if 48 \<le> n \<and> n \<le> 57 then Some (n - 48)
     else if 97 \<le> n \<and> n \<le> 102 then Some (n - 87)
     else if 65 \<le> n \<and> n \<le> 70 then Some (n - 55) else None)"

definition strtoul16 :: "string \<Rightarrow> u64" where
  "strtoul16 s = (let s = dropWhile is_space s;
       neg = (s \<noteq> [] \<and> hd s = CHR ''-'');
       s = (if s \<noteq> [] \<and> (hd s = CHR ''-'' \<or> hd s = CHR ''+'') then tl s else s);
       s = (if take 2 s = ''0x'' \<or> take 2 s = ''0X'' then drop 2 s else s);
       n = foldl (\<lambda>n c. 16 * n + the (hex_value c)) 0 (takeWhile (\<lambda>c. hex_value c \<noteq> None) s)
     in if 2 ^ 64 \<le> n then - 1 else if neg then - of_nat n else of_nat n)"

definition agent_config_of :: "termios_consts \<Rightarrow> (string \<Rightarrow> 'k) \<Rightarrow> (string \<Rightarrow> string list option) \<Rightarrow> agent_type \<Rightarrow>
    'g ArgumentParser \<Rightarrow> 'k agent_config res" where
  "agent_config_of tc get_mw_kind read_lines kind p =
     (let mw = get_mw_kind (arg_value (ca_middleware (ap_common p))) in case kind of
        IP_AGENT \<Rightarrow> Inr (IP_Config (arg_value (ip_port (ap_ip p))) mw)
      | TERMIOS_AGENT \<Rightarrow> bind_res (init_termios tc (arg_value (pt_baudrate (ap_serial p))))
          (\<lambda>attr. Inr (Termios_Config (SerialArgs_dev read_lines (ap_serial p)) attr mw))
      | MULTI_TERMIOS_AGENT \<Rightarrow> bind_res (init_termios tc (arg_value (pt_baudrate (ap_multiserial p))))
          (\<lambda>attr. Inr (Multi_Termios_Config (MultiSerialArgs_devs read_lines (ap_multiserial p)) attr mw))
      | PSEUDO_TERMINAL_AGENT \<Rightarrow> Inr (Pseudo_Terminal_Config (arg_value (pt_baudrate (ap_pseudoterminal p))) mw)
      | CAN_AGENT \<Rightarrow> Inr (Can_Config (arg_value (can_dev (ap_can p))) (ucast (strtoul16 (arg_value (can_id_arg (ap_can p))))) mw))"

definition launch_agent :: "termios_consts \<Rightarrow> (string \<Rightarrow> 'k) \<Rightarrow> (string \<Rightarrow> string list option) \<Rightarrow> 'g agent_api \<Rightarrow>
    ('k agent_config \<Rightarrow> 'g) \<Rightarrow> agent_type \<Rightarrow> 'g ArgumentParser \<Rightarrow> (bool \<times> 'g ArgumentParser) res" where
  "launch_agent tc get_mw_kind read_lines api new_agent kind p =
     bind_res (agent_config_of tc get_mw_kind read_lines kind p) (\<lambda>config.
       let (started, server) = start_agent api (new_agent config)
       in if started then Inr (True, p\<lparr>ap_server := Some (apply_actions api (ap_common p) server)\<rparr>)
          else Inr (False, p\<lparr>ap_server := Some server\<rparr>))"

text \<open>What the thread of create_agent_thread ends in.\<close>

datatype 'g thread_outcome = Shows_Usage | Serves 'g | Not_Started | Shows_Help string

definition create_agent_thread :: "termios_consts \<Rightarrow> (string \<Rightarrow> 'k) \<Rightarrow> (string \<Rightarrow> bool) \<Rightarrow> (string \<Rightarrow> string list option) \<Rightarrow>
    'g agent_api \<Rightarrow> ('k agent_config \<Rightarrow> 'g) \<Rightarrow> agent_type \<Rightarrow> string list \<Rightarrow> TransportKind \<Rightarrow> 'g thread_outcome res" where
  "create_agent_thread tc get_mw_kind file_exists read_lines api new_agent kind argv transport_kind =
     bind_res (parse_arguments file_exists read_lines (new_ArgumentParser argv transport_kind)) (\<lambda>(r, p).
       case r of
         PR_INVALID \<Rightarrow> Inr Shows_Usage
       | PR_NOT_FOUND \<Rightarrow> Inr Shows_Usage
       | PR_VALID \<Rightarrow> bind_res (launch_agent tc get_mw_kind read_lines api new_agent kind p) (\<lambda>(started, p).
           Inr (if started then (case ap_server p of Some g \<Rightarrow> Serves g | None \<Rightarrow> Not_Started) else Not_Started))
       | PR_HELP \<Rightarrow> Inr (Shows_Help (show_help_text p)))"

section \<open>Numbers on the command line\<close>

lemma digit_char: "d < 10 \<Longrightarrow> isdigit (char_of (48 + d :: nat)) \<and> of_char (char_of (48 + d :: nat)) = 48 + d"
  by (simp add: isdigit_def)

lemma digits_value_append [simp]: "digits_value (ds @ [d]) = 10 * digits_value ds + (of_char d - 48)"
  by (simp add: digits_value_def)

lemma digit_string_ok:
  "list_all isdigit (digit_string n) \<and> digits_value (digit_string n) = n \<and> digit_string n \<noteq> []"
proof (induction n rule: digit_string.induct)
  case (1 n)
  show ?case
  proof (cases "n < 10")
    case True
    then show ?thesis
      using digit_char [of n] by (simp add: digit_string.simps [of n] digits_value_def)
  next
    case False
    then show ?thesis
      using 1 digit_char [of "n mod 10"] by (simp add: digit_string.simps [of n])
  qed
qed

lemma isdigit_no_minus: "list_all isdigit ds \<Longrightarrow> CHR ''-'' \<notin> set ds"
  by (auto simp: list_all_iff isdigit_def)

lemma parse_int_digits:
  assumes "n < 2 ^ 63" "allowed_values a = []"
  shows "parse_int_value (digit_string n) a = Inr (PR_VALID, a\<lparr>arg_value := of_nat n, parse_found := True\<rparr>)"
  using assms digit_string_ok [of n] by (simp add: parse_int_value_def stol_def)

text \<open>Elements of the command line that an argument passes over.\<close>

definition not_option :: "'a Argument \<Rightarrow> string \<Rightarrow> bool" where
  "not_option a x \<longleftrightarrow> x \<noteq> short_alias a \<and> x \<noteq> long_alias a \<and> take (length (short_alias a)) x \<noteq> short_alias a"

lemma int_parse_skip:
  "list_all (not_option a) xs \<Longrightarrow> int_parse_argument (xs @ ys) a = int_parse_argument ys a"
  by (induction xs) (auto simp: not_option_def)

lemma int_parse_option:
  assumes "argument_kind a = AK_VALUE" "list_all isdigit v" "x = short_alias a \<or> x = long_alias a"
  shows "int_parse_argument (x # v # ys) a = parse_int_value v a"
  using assms isdigit_no_minus [of v] by auto

lemma int_parse_attached:
  assumes "argument_kind a = AK_VALUE" "v \<noteq> []" "short_alias a @ v \<noteq> long_alias a"
  shows "int_parse_argument ((short_alias a @ v) # ys) a = parse_int_value v a"
  using assms by auto

text \<open>C36: the port of the command line.  Whatever stands before the first port option, -p n,
  --port n and -pn set the port to n for every n below 2^16; a number beyond that is
  accepted too, and the agent listens on its remainder modulo 2^16.
\<close>
theorem port_roundtrip:
  assumes "list_all (\<lambda>x. take 2 x \<noteq> ''-p'' \<and> x \<noteq> ''--port'') xs" "n < 2 ^ 63"
    and "option = [''-p'', digit_string n] \<or> option = [''--port'', digit_string n] \<or> option = [''-p'' @ digit_string n]"
  shows "\<exists>g. IPvXArgs_parse (xs @ option @ ys) new_IPvXArgs = Inr (True, g) \<and>
    unat (arg_value (ip_port g)) = n mod 2 ^ 16 \<and> (n < 2 ^ 16 \<longrightarrow> unat (arg_value (ip_port g)) = n)"
proof -
  let ?a = "ip_port new_IPvXArgs"
  have a: "argument_kind ?a = AK_VALUE" "short_alias ?a = ''-p''" "long_alias ?a = ''--port''" "allowed_values ?a = []"
    by (simp_all add: new_IPvXArgs_def new_int_Argument_def)
  have "list_all (not_option ?a) xs"
    using assms(1) by (auto simp: list_all_iff not_option_def a numeral_2_eq_2)
  then have "int_parse_argument (xs @ option @ ys) ?a = int_parse_argument (option @ ys) ?a"
    by (rule int_parse_skip)
  also have "\<dots> = parse_int_value (digit_string n) ?a"
  proof -
    have d: "list_all isdigit (digit_string n)" "digit_string n \<noteq> []"
      using digit_string_ok [of n] by auto
    then have "CHR ''-'' \<notin> set (digit_string n)"
      using isdigit_no_minus by blast
    then have long: "''-p'' @ digit_string n \<noteq> ''--port''" by auto
    have "int_parse_argument ((''-p'' @ digit_string n) # ys) ?a = parse_int_value (digit_string n) ?a"
      using int_parse_attached [OF a(1) d(2), of ys] long by (simp only: a not_False_eq_True)
    moreover have "int_parse_argument (x # digit_string n # ys) ?a = parse_int_value (digit_string n) ?a"
      if "x = ''-p'' \<or> x = ''--port''" for x
      using int_parse_option [OF a(1) d(1), of x ys] that by (simp only: a)
    ultimately show ?thesis
      using assms(3) by (elim disjE) (simp_all del: int_parse_argument.simps)
  qed
  finally have "IPvXArgs_parse (xs @ option @ ys) new_IPvXArgs =
      Inr (True, new_IPvXArgs\<lparr>ip_port := ?a\<lparr>arg_value := of_nat n, parse_found := True\<rparr>\<rparr>)"
    using parse_int_digits [OF assms(2) a(4)] by (simp add: IPvXArgs_parse_def)
  moreover have "unat (of_nat n :: u16) = n mod 2 ^ 16"
    by (simp add: unsigned_of_nat take_bit_eq_mod)
  ultimately show ?thesis by simp
qed

lemma port_roundtrip_witness:
  "\<exists>g. IPvXArgs_parse [''agent'', ''udp4'', ''-p8888'', ''-v6''] new_IPvXArgs = Inr (True, g) \<and>
     unat (arg_value (ip_port g)) = 8888"
proof -
  have "digit_string 8888 = ''8888''"
    by (simp add: digit_string.simps char_of_def bit_iff_odd)
  then show ?thesis
    using port_roundtrip [of "[''agent'', ''udp4'']" 8888 "[''-p8888'']" "[''-v6'']"] by auto
qed

section \<open>Options with a text\<close>

text \<open>
  What an option is given on the command line: None if it is not there, Some None if it is
  the last word, Some (Some v) if v follows its first occurrence.
\<close>

fun option_text :: "string \<Rightarrow> string \<Rightarrow> string list \<Rightarrow> string option option" where
  "option_text short long [] = None"
| "option_text short long (x # xs) =
     (if x = short \<or> x = long then Some (case xs of [] \<Rightarrow> None | v # _ \<Rightarrow> Some v) else option_text short long xs)"

lemma string_parse_text:
  assumes "argument_kind a = AK_VALUE" "allowed_values a = []"
  shows "string_parse_argument argv a = (case option_text (short_alias a) (long_alias a) argv of
     None \<Rightarrow> if enabled_by_default a \<and> has_default_value a then (PR_VALID, a\<lparr>parse_found := True\<rparr>) else (PR_NOT_FOUND, a)
   | Some None \<Rightarrow> (PR_INVALID, a)
   | Some (Some v) \<Rightarrow> (PR_VALID, a\<lparr>arg_value := v, parse_found := True\<rparr>))"
  using assms by (induction argv) (auto split: list.splits)

lemma serial_args_fields:
  "short_alias (pt_baudrate new_SerialArgs) = ''-b''" "long_alias (pt_baudrate new_SerialArgs) = ''--baudrate''"
  "short_alias (sr_dev new_SerialArgs) = ''-D''" "long_alias (sr_dev new_SerialArgs) = ''--dev''"
  "short_alias (sr_file new_SerialArgs) = ''-f''" "long_alias (sr_file new_SerialArgs) = ''--file''"
  "argument_kind (pt_baudrate new_SerialArgs) = AK_VALUE" "argument_kind (sr_dev new_SerialArgs) = AK_VALUE"
  "argument_kind (sr_file new_SerialArgs) = AK_VALUE" "allowed_values (pt_baudrate new_SerialArgs) = []"
  "allowed_values (sr_dev new_SerialArgs) = []" "allowed_values (sr_file new_SerialArgs) = []"
  "enabled_by_default (pt_baudrate new_SerialArgs)" "has_default_value (pt_baudrate new_SerialArgs)"
  "\<not> has_default_value (sr_dev new_SerialArgs)" "\<not> has_default_value (sr_file new_SerialArgs)"
  "arg_value (pt_baudrate new_SerialArgs) = ''115200''" "\<not> parse_found (sr_dev new_SerialArgs)"
  "\<not> parse_found (sr_file new_SerialArgs)"
  by (simp_all add: new_SerialArgs_def new_PseudoTerminalArgs_def new_string_Argument_def
      new_string_Argument_default_def DEFAULT_BAUDRATE_LEVEL_def)

text \<open>The serial port of the command line.  The serial arguments are accepted exactly when
  the baud rate is not the last word and either a device or a readable file is given, not
  both; the port is then the device, or the first line of the file, and the baud rate is
  the one that is given, or 115200.
\<close>
theorem serial_args_spec:
  fixes argv :: "string list"
  defines "b \<equiv> option_text ''-b'' ''--baudrate'' argv"
    and "d \<equiv> option_text ''-D'' ''--dev'' argv" and "f \<equiv> option_text ''-f'' ''--file'' argv"
  shows "case SerialArgs_parse read_lines argv new_SerialArgs of (ok, g) \<Rightarrow>
    (ok \<longleftrightarrow> b \<noteq> Some None \<and>
      (case (d, f) of
         (Some (Some v), Some (Some w)) \<Rightarrow> False
       | (Some (Some v), _) \<Rightarrow> True
       | (_, Some (Some w)) \<Rightarrow> read_lines w \<noteq> None
       | _ \<Rightarrow> False)) \<and>
    (ok \<longrightarrow> arg_value (pt_baudrate g) = (case b of Some (Some r) \<Rightarrow> r | _ \<Rightarrow> ''115200'') \<and>
      SerialArgs_dev read_lines g =
        (case d of Some (Some v) \<Rightarrow> v
         | _ \<Rightarrow> (case read_lines (the (the f)) of Some (l # _) \<Rightarrow> l | _ \<Rightarrow> [])))"
proof -
  let ?g = new_SerialArgs
  have parse: "string_parse_argument argv (pt_baudrate ?g) = (case b of
       None \<Rightarrow> (PR_VALID, (pt_baudrate ?g)\<lparr>parse_found := True\<rparr>)
     | Some None \<Rightarrow> (PR_INVALID, pt_baudrate ?g)
     | Some (Some v) \<Rightarrow> (PR_VALID, (pt_baudrate ?g)\<lparr>arg_value := v, parse_found := True\<rparr>))"
    "string_parse_argument argv (sr_dev ?g) = (case d of
       None \<Rightarrow> (PR_NOT_FOUND, sr_dev ?g)
     | Some None \<Rightarrow> (PR_INVALID, sr_dev ?g)
     | Some (Some v) \<Rightarrow> (PR_VALID, (sr_dev ?g)\<lparr>arg_value := v, parse_found := True\<rparr>))"
    "string_parse_argument argv (sr_file ?g) = (case f of
       None \<Rightarrow> (PR_NOT_FOUND, sr_file ?g)
     | Some None \<Rightarrow> (PR_INVALID, sr_file ?g)
     | Some (Some v) \<Rightarrow> (PR_VALID, (sr_file ?g)\<lparr>arg_value := v, parse_found := True\<rparr>))"
    unfolding b_def d_def f_def by (simp_all add: string_parse_text serial_args_fields split: option.split)
  consider "b = None" | "b = Some None" | v where "b = Some (Some v)"
    by (metis not_None_eq)
  then show ?thesis
    unfolding SerialArgs_parse_def PseudoTerminalArgs_parse_def SerialArgs_dev_def Let_def
    by cases (cases d; cases f; auto simp: parse serial_args_fields split: option.splits list.splits)+
qed

lemma serial_args_spec_witness:
  "case SerialArgs_parse (\<lambda>f. None) [''agent'', ''serial'', ''-D'', ''/dev/ttyUSB0'', ''-b'', ''921600''] new_SerialArgs of
     (ok, g) \<Rightarrow> ok \<and> SerialArgs_dev (\<lambda>f. None) g = ''/dev/ttyUSB0'' \<and> arg_value (pt_baudrate g) = ''921600''"
  using serial_args_spec [of "[''agent'', ''serial'', ''-D'', ''/dev/ttyUSB0'', ''-b'', ''921600'']" "\<lambda>f. None"]
  by (auto split: prod.splits)

section \<open>Two faults of the numbers\<close>

text \<open>An empty port, or one that is no long, ends the program: nothing catches the exception of stol.\<close>

lemma port_exception:
  assumes "list_all (\<lambda>x. take 2 x \<noteq> ''-p'' \<and> x \<noteq> ''--port'') xs" "list_all isdigit v"
    "v = [] \<or> 2 ^ 63 \<le> digits_value v"
  shows "IPvXArgs_parse (xs @ ''-p'' # v # ys) new_IPvXArgs = Inl Uncaught_Exception"
proof -
  let ?a = "ip_port new_IPvXArgs"
  have a: "argument_kind ?a = AK_VALUE" "short_alias ?a = ''-p''" "long_alias ?a = ''--port''"
    by (simp_all add: new_IPvXArgs_def new_int_Argument_def)
  have "list_all (not_option ?a) xs"
    using assms(1) by (auto simp: list_all_iff not_option_def a numeral_2_eq_2)
  then have "int_parse_argument (xs @ ''-p'' # v # ys) ?a = parse_int_value v ?a"
    using int_parse_skip [of ?a xs] int_parse_option [OF a(1) assms(2)] a by metis
  then show ?thesis
    using assms(2,3) by (auto simp: IPvXArgs_parse_def parse_int_value_def stol_def)
qed

text \<open>The help of the verbose level prints its numbers as characters.\<close>

lemma verbose_help:
  "int_get_help print_u8 (ca_verbose new_CommonArgs) =
     ''-v/--verbose <value> ('' @ [CHR 0x00] @ '' - '' @ [CHR 0x06] @ '') [default: '' @ [CHR 0x27, CHR 0x04, CHR 0x27] @ ''].''"
  by (simp add: int_get_help_def new_CommonArgs_def new_int_Argument_default_def print_u8_def DEFAULT_VERBOSE_LEVEL_def
      char_of_def bit_iff_odd)

end
