(* ===== verification/TcpServer.thy ===== *)
theory TcpServer
  imports Prelude
begin

text \<open>
  transport/tcp/TCPServerBase.hpp and TCPConnection.hpp: how the agent finds the messages in
  the byte stream of a TCP connection.  Each message comes after its size, two bytes, low
  byte first; read_data keeps what has arrived so far in the input buffer of the
  connection and returns the size of a message when one is complete.

  recv_data is a virtual function of the server: a parameter over a state of the
  environment, which gives the bytes that it received and the return code that it left.
  read_data loops until a message is there, a message is cut off, or an error; it need not
  return, so its loop is a partial function.
\<close>

section \<open>The connection\<close>

datatype TransportRc = rc_ok | rc_server_error | rc_timeout_error | rc_connection_error

datatype TCPInputBufferState =
    TCP_BUFFER_EMPTY | TCP_SIZE_INCOMPLETE | TCP_SIZE_READ | TCP_MESSAGE_INCOMPLETE | TCP_MESSAGE_AVAILABLE

record TCPInputBuffer =
  tcp_buffer :: "u8 list"
  tcp_position :: u16
  tcp_state :: TCPInputBufferState
  tcp_msg_size :: u16

type_synonym 'e recv_data = "nat \<Rightarrow> 'e \<Rightarrow> (u8 list \<times> TransportRc) \<times> 'e"

text \<open>std::vector::resize, and bytes received into the buffer from a position on.\<close>

definition resize :: "nat \<Rightarrow> u8 list \<Rightarrow> u8 list" where
  "resize n xs = take n xs @ replicate (n - length xs) 0"

definition received_at :: "nat \<Rightarrow> u8 list \<Rightarrow> u8 list \<Rightarrow> u8 list" where
  "received_at p bs xs = take p xs @ bs @ drop (p + length bs) xs"

definition size_of_bytes :: "u8 \<Rightarrow> u16 \<Rightarrow> u16" where
  "size_of_bytes msb lsb = push_bit 8 (ucast msb) OR lsb"

section \<open>read_data\<close>

text \<open>One pass of the loop: rv, exit_flag, transport_rc, and the connection.\<close>

definition read_step :: "'e recv_data \<Rightarrow> TCPInputBuffer \<times> 'e \<Rightarrow> u16 \<times> bool \<times> TransportRc \<times> TCPInputBuffer \<times> 'e" where
  "read_step recv c = (case c of (s, e) \<Rightarrow> (case tcp_state s of
     TCP_BUFFER_EMPTY \<Rightarrow>
       let s = s\<lparr>tcp_position := 0\<rparr>; ((bs, rc), e) = recv 2 e in
       (0, False, rc,
        (if bs = [] then s
         else if length bs = 2 then
           let size = size_of_bytes (bs ! 1) (ucast (bs ! 0))
           in s\<lparr>tcp_msg_size := size, tcp_state := if size \<noteq> 0 then TCP_SIZE_READ else TCP_BUFFER_EMPTY\<rparr>
         else s\<lparr>tcp_msg_size := ucast (bs ! 0), tcp_state := TCP_SIZE_INCOMPLETE\<rparr>), e)
   | TCP_SIZE_INCOMPLETE \<Rightarrow>
       let ((bs, rc), e) = recv 1 e in
       (0, False, rc,
        (if bs = [] then s
         else
           let size = size_of_bytes (bs ! 0) (tcp_msg_size s)
           in s\<lparr>tcp_msg_size := size, tcp_state := if size \<noteq> 0 then TCP_SIZE_READ else TCP_BUFFER_EMPTY\<rparr>), e)
   | TCP_SIZE_READ \<Rightarrow>
       let s = s\<lparr>tcp_buffer := resize (unat (tcp_msg_size s)) (tcp_buffer s)\<rparr>;
           ((bs, rc), e) = recv (length (tcp_buffer s)) e;
           s' = s\<lparr>tcp_buffer := received_at 0 bs (tcp_buffer s)\<rparr> in
       if bs = [] then (0, False, rc, s, e)
       else if of_nat (length bs) = tcp_msg_size s then (0, False, rc, s'\<lparr>tcp_state := TCP_MESSAGE_AVAILABLE\<rparr>, e)
       else (0, True, rc, s'\<lparr>tcp_position := of_nat (length bs), tcp_state := TCP_MESSAGE_INCOMPLETE\<rparr>, e)
   | TCP_MESSAGE_INCOMPLETE \<Rightarrow>
       let ((bs, rc), e) = recv (length (tcp_buffer s) - unat (tcp_position s)) e;
           position = tcp_position s + of_nat (length bs);
           s' = s\<lparr>tcp_buffer := received_at (unat (tcp_position s)) bs (tcp_buffer s), tcp_position := position\<rparr> in
       if bs = [] then (0, False, rc, s, e)
       else if position = tcp_msg_size s then (0, False, rc, s'\<lparr>tcp_state := TCP_MESSAGE_AVAILABLE\<rparr>, e)
       else (0, True, rc, s', e)
   | TCP_MESSAGE_AVAILABLE \<Rightarrow> (tcp_msg_size s, True, rc_ok, s\<lparr>tcp_state := TCP_BUFFER_EMPTY\<rparr>, e)))"

partial_function (option) read_loop :: "'e recv_data \<Rightarrow> TCPInputBuffer \<times> 'e \<Rightarrow> (u16 \<times> TransportRc \<times> TCPInputBuffer \<times> 'e) option" where
  "read_loop recv c = (case read_step recv c of (rv, exit_flag, rc, c) \<Rightarrow>
     if \<not> exit_flag \<and> rc = rc_ok then read_loop recv c else Some (rv, rc, c))"

definition read_data :: "'e recv_data \<Rightarrow> TCPInputBuffer \<times> 'e \<Rightarrow> (u16 \<times> TransportRc \<times> TCPInputBuffer \<times> 'e) option" where
  "read_data recv c = read_loop recv c"

text \<open>A number of calls; when one returns a size, its caller takes as many bytes of the buffer.\<close>

fun read_calls :: "'e recv_data \<Rightarrow> nat \<Rightarrow> TCPInputBuffer \<times> 'e \<Rightarrow> (u8 list list \<times> TCPInputBuffer \<times> 'e) option" where
  "read_calls recv 0 c = Some ([], c)"
| "read_calls recv (Suc n) c = (case read_data recv c of
     None \<Rightarrow> None
   | Some (rv, rc, s, e) \<Rightarrow> (case read_calls recv n (s, e) of
       None \<Rightarrow> None
     | Some (ms, c) \<Rightarrow> Some (if 0 < rv then take (unat rv) (tcp_buffer s) # ms else ms, c)))"

definition new_connection :: TCPInputBuffer where
  "new_connection = \<lparr>tcp_buffer = [], tcp_position = 0, tcp_state = TCP_BUFFER_EMPTY, tcp_msg_size = 0\<rparr>"

section \<open>The messages of a byte stream\<close>

definition le_bytes :: "u16 \<Rightarrow> u8 list" where
  "le_bytes n = [ucast n, ucast (drop_bit 8 n)]"

definition frame :: "u8 list \<Rightarrow> u8 list" where
  "frame m = le_bytes (of_nat (length m)) @ m"

text \<open>The messages that are complete, and the bytes after them; a size of 0 is skipped.\<close>

function decode :: "u8 list \<Rightarrow> u8 list list \<times> u8 list" where
  "decode (lsb # msb # bs) =
     (let n = unat (size_of_bytes msb (ucast lsb)) in
      if length bs < n then ([], lsb # msb # bs)
      else let (ms, rest) = decode (drop n bs) in (if n = 0 then ms else take n bs # ms, rest))"
| "decode [] = ([], [])"
| "decode [b] = ([], [b])"
  by pat_completeness auto
termination by (relation "measure length") auto

section \<open>Sizes in bytes\<close>

lemma size_le_bytes [simp]: "size_of_bytes (ucast (drop_bit 8 n)) (ucast (ucast n :: u8)) = n"
  by (rule bit_word_eqI) (auto simp: size_of_bytes_def bit_or_iff bit_push_bit_iff bit_ucast_iff bit_drop_bit_eq)

lemma no_high_bit [simp]: "\<not> bit (b :: u8) (8 + n)"
  using bit_imp_le_length [of b "8 + n"] by auto

lemma le_bytes_size [simp]: "le_bytes (size_of_bytes msb (ucast lsb)) = [lsb, msb]"
proof -
  have "ucast (size_of_bytes msb (ucast lsb)) = lsb"
    by (rule bit_word_eqI) (auto simp: size_of_bytes_def bit_or_iff bit_push_bit_iff bit_ucast_iff)
  moreover have "ucast (drop_bit 8 (size_of_bytes msb (ucast lsb))) = msb"
    by (rule bit_word_eqI) (auto simp: size_of_bytes_def bit_or_iff bit_push_bit_iff bit_ucast_iff bit_drop_bit_eq)
  ultimately show ?thesis by (simp add: le_bytes_def)
qed

lemma le_bytes_zero: "le_bytes 0 = [0, 0]"
  by (simp add: le_bytes_def)

lemma ucast_byte [simp]: "(ucast (ucast b :: u16) :: u8) = b"
  by (rule bit_word_eqI) (auto simp: bit_ucast_iff)

lemma size_zero: "size_of_bytes msb (ucast (lsb :: u8)) = 0 \<longleftrightarrow> lsb = 0 \<and> msb = 0"
  using le_bytes_size [of msb lsb] by (auto simp: le_bytes_zero size_of_bytes_def)

lemma decode_le_bytes:
  "decode (le_bytes n @ bs) = (if length bs < unat n then ([], le_bytes n @ bs)
     else let (ms, rest) = decode (drop (unat n) bs) in (if n = 0 then ms else take (unat n) bs # ms, rest))"
  by (simp add: le_bytes_def unat_eq_zero Let_def)

lemma decode_message: "length m = unat n \<Longrightarrow> n \<noteq> 0 \<Longrightarrow> decode (le_bytes n @ m) = ([m], [])"
  by (simp add: decode_le_bytes)

text \<open>Bytes that arrive later: what was decoded stays.\<close>

definition after_messages :: "u8 list list \<Rightarrow> u8 list list \<times> u8 list \<Rightarrow> u8 list list \<times> u8 list" where
  "after_messages ds r = (ds @ fst r, snd r)"

lemma decode_append: "decode (xs @ ys) = after_messages (fst (decode xs)) (decode (snd (decode xs) @ ys))"
proof (induction xs rule: decode.induct)
  case (1 lsb msb bs)
  show ?case
  proof (cases "length bs < unat (size_of_bytes msb (ucast lsb))")
    case False
    then show ?thesis
      using 1 by (auto simp: after_messages_def Let_def case_prod_beta)
  qed (simp add: after_messages_def)
qed (simp_all add: after_messages_def)

lemma decode_extend:
  "decode c = after_messages ds (decode k) \<Longrightarrow> decode (c @ bs) = after_messages ds (decode (k @ bs))"
  using decode_append [of c bs] decode_append [of k bs] by (simp add: after_messages_def)

lemma decode_frame:
  assumes "m \<noteq> []" and "length m < 2 ^ 16"
  shows "decode (frame m @ bs) = (m # fst (decode bs), snd (decode bs))"
proof -
  have m: "unat (of_nat (length m) :: u16) = length m"
    using assms(2) by (simp add: unat_of_nat take_bit_nat_eq_self)
  with assms(1) have "(of_nat (length m) :: u16) \<noteq> 0" by (metis length_0_conv unat_0)
  with m show ?thesis
    using decode_le_bytes [of "of_nat (length m)" "m @ bs"] by (simp add: frame_def case_prod_beta Let_def)
qed

lemma decode_frames: "list_all (\<lambda>m. m \<noteq> [] \<and> length m < 2 ^ 16) ms \<Longrightarrow> decode (concat (map frame ms)) = (ms, [])"
  by (induction ms) (simp_all add: decode_frame)

section \<open>What the buffer holds\<close>

text \<open>The bytes that were received since the last message.\<close>

definition kept_bytes :: "TCPInputBuffer \<Rightarrow> u8 list" where
  "kept_bytes s = (case tcp_state s of
     TCP_BUFFER_EMPTY \<Rightarrow> []
   | TCP_SIZE_INCOMPLETE \<Rightarrow> [ucast (tcp_msg_size s)]
   | TCP_SIZE_READ \<Rightarrow> le_bytes (tcp_msg_size s)
   | TCP_MESSAGE_INCOMPLETE \<Rightarrow> le_bytes (tcp_msg_size s) @ take (unat (tcp_position s)) (tcp_buffer s)
   | TCP_MESSAGE_AVAILABLE \<Rightarrow> le_bytes (tcp_msg_size s) @ tcp_buffer s)"

definition connection_ok :: "TCPInputBuffer \<Rightarrow> bool" where
  "connection_ok s = (case tcp_state s of
     TCP_BUFFER_EMPTY \<Rightarrow> True
   | TCP_SIZE_INCOMPLETE \<Rightarrow> tcp_msg_size s = ucast (ucast (tcp_msg_size s) :: u8)
   | TCP_SIZE_READ \<Rightarrow> tcp_msg_size s \<noteq> 0
   | TCP_MESSAGE_INCOMPLETE \<Rightarrow> tcp_position s < tcp_msg_size s \<and> length (tcp_buffer s) = unat (tcp_msg_size s)
   | TCP_MESSAGE_AVAILABLE \<Rightarrow> tcp_msg_size s \<noteq> 0 \<and> length (tcp_buffer s) = unat (tcp_msg_size s))"

text \<open>recv_data hands out the bytes of a stream in order, at most as many as it is asked for.\<close>

definition byte_stream :: "'e recv_data \<Rightarrow> ('e \<Rightarrow> u8 list) \<Rightarrow> bool" where
  "byte_stream recv pending \<longleftrightarrow> (\<forall>len e bs rc e'. recv len e = ((bs, rc), e') \<longrightarrow> length bs \<le> len \<and> pending e = bs @ pending e')"

definition took :: "u8 list \<Rightarrow> u8 list \<Rightarrow> u8 list \<Rightarrow> bool" where
  "took k bs k' \<longleftrightarrow> k' = k @ bs \<or> k @ bs = [0, 0] \<and> k' = []"

lemma length_resize [simp]: "length (resize n xs) = n"
  by (simp add: resize_def)

lemma length_received_at: "p + length bs \<le> length xs \<Longrightarrow> length (received_at p bs xs) = length xs"
  by (simp add: received_at_def)

lemma take_received_at: "p + length bs \<le> length xs \<Longrightarrow> take (p + length bs) (received_at p bs xs) = take p xs @ bs"
  by (simp add: received_at_def)

lemma unat_length_u16: "length bs \<le> unat (n :: u16) \<Longrightarrow> unat (of_nat (length bs) :: u16) = length bs"
  using unsigned_less [of n, where 'a = nat] by (simp add: unat_of_nat take_bit_nat_eq_self)


section \<open>One pass of the loop\<close>

text \<open>A pass keeps the connection well formed and adds the bytes that it received to those kept.\<close>

lemma read_step_takes:
  assumes ok: "connection_ok s" and src: "byte_stream recv pending"
    and step: "read_step recv (s, e) = (rv, ex, rc, s', e')" and st: "tcp_state s \<noteq> TCP_MESSAGE_AVAILABLE"
  shows "rv = 0 \<and> connection_ok s' \<and> (\<exists>bs. pending e = bs @ pending e' \<and> took (kept_bytes s) bs (kept_bytes s'))"
proof (cases "tcp_state s")
  case TCP_BUFFER_EMPTY
  obtain bs rc1 e1 where r: "recv 2 e = ((bs, rc1), e1)" by (metis surj_pair)
  then have l: "length bs \<le> 2" "pending e = bs @ pending e1" using src by (auto simp: byte_stream_def)
  then consider "bs = []" | b where "bs = [b]" | b c where "bs = [b, c]"
    by (cases bs; cases "tl bs") (auto simp: numeral_2_eq_2 length_Suc_conv)
  then show ?thesis
    using step l r TCP_BUFFER_EMPTY
    by cases (auto simp: read_step_def connection_ok_def kept_bytes_def took_def Let_def size_zero
        split: if_splits)
next
  case TCP_SIZE_INCOMPLETE
  obtain bs rc1 e1 where r: "recv 1 e = ((bs, rc1), e1)" by (metis surj_pair)
  then have l: "length bs \<le> 1" "pending e = bs @ pending e1" using src by (auto simp: byte_stream_def)
  then consider "bs = []" | b where "bs = [b]" by (cases bs) auto
  moreover obtain lsb :: u8 where "tcp_msg_size s = ucast lsb"
    using ok TCP_SIZE_INCOMPLETE by (auto simp: connection_ok_def)
  ultimately show ?thesis
    using step l r TCP_SIZE_INCOMPLETE
    by cases (auto simp: read_step_def connection_ok_def kept_bytes_def took_def Let_def size_zero
        split: if_splits)
next
  case TCP_SIZE_READ
  let ?n = "tcp_msg_size s"
  obtain bs rc1 e1 where r: "recv (unat ?n) e = ((bs, rc1), e1)" by (metis surj_pair)
  then have l: "length bs \<le> unat ?n" and p: "pending e = bs @ pending e1" using src by (auto simp: byte_stream_def)
  have m: "unat (of_nat (length bs) :: u16) = length bs" by (rule unat_length_u16 [OF l])
  then have eq: "of_nat (length bs) = ?n \<longleftrightarrow> length bs = unat ?n" by (simp add: word_unat_eq_iff)
  have "of_nat (length bs) < ?n" if "length bs \<noteq> unat ?n"
    using that l m by (simp add: word_less_nat_alt)
  then show ?thesis
    using step l r p ok TCP_SIZE_READ m eq
      length_received_at [of 0 bs "resize (unat ?n) (tcp_buffer s)"]
      take_received_at [of 0 bs "resize (unat ?n) (tcp_buffer s)"]
    by (auto simp: read_step_def connection_ok_def kept_bytes_def took_def Let_def split: if_splits)
next
  case TCP_MESSAGE_INCOMPLETE
  let ?n = "tcp_msg_size s" and ?p = "tcp_position s"
  have pn: "?p < ?n" "length (tcp_buffer s) = unat ?n" using ok TCP_MESSAGE_INCOMPLETE by (auto simp: connection_ok_def)
  obtain bs rc1 e1 where r: "recv (unat ?n - unat ?p) e = ((bs, rc1), e1)" by (metis surj_pair)
  then have l: "length bs \<le> unat ?n - unat ?p" and p: "pending e = bs @ pending e1" using src by (auto simp: byte_stream_def)
  with pn have sum: "unat ?p + length bs \<le> unat ?n" by (simp add: word_less_nat_alt)
  have q: "unat (?p + of_nat (length bs)) = unat ?p + length bs"
    using sum unsigned_less [of ?n, where 'a = nat]
    by (subst unat_plus_if') (simp add: unat_length_u16 [of bs ?n])
  then have eq: "?p + of_nat (length bs) = ?n \<longleftrightarrow> unat ?p + length bs = unat ?n" by (simp only: word_unat_eq_iff)
  have "?p + of_nat (length bs) < ?n" if "unat ?p + length bs \<noteq> unat ?n"
    using that sum q by (simp add: word_less_nat_alt)
  then show ?thesis
    using step l r p pn TCP_MESSAGE_INCOMPLETE eq sum q
      length_received_at [of "unat ?p" bs "tcp_buffer s"] take_received_at [of "unat ?p" bs "tcp_buffer s"]
    by (auto simp: read_step_def connection_ok_def kept_bytes_def took_def Let_def split: if_splits)
qed (use st in simp)

text \<open>What a return value stands for: one message, or none.\<close>

definition returned :: "u16 \<Rightarrow> TCPInputBuffer \<Rightarrow> u8 list list" where
  "returned rv s = (if 0 < rv then [take (unat rv) (tcp_buffer s)] else [])"

definition reads :: "('e \<Rightarrow> u8 list) \<Rightarrow> TCPInputBuffer \<times> 'e \<Rightarrow> u8 list list \<Rightarrow> TCPInputBuffer \<times> 'e \<Rightarrow> bool" where
  "reads pending c ds c' \<longleftrightarrow> connection_ok (fst c') \<and> (\<exists>bs. pending (snd c) = bs @ pending (snd c') \<and>
     decode (kept_bytes (fst c) @ bs) = after_messages ds (decode (kept_bytes (fst c'))))"

lemma reads_trans:
  assumes "reads pending c ds c1" and "reads pending c1 ds' c2"
  shows "reads pending c (ds @ ds') c2"
proof -
  obtain xs ys where "pending (snd c) = xs @ pending (snd c1)" "pending (snd c1) = ys @ pending (snd c2)"
    "decode (kept_bytes (fst c) @ xs) = after_messages ds (decode (kept_bytes (fst c1)))"
    "decode (kept_bytes (fst c1) @ ys) = after_messages ds' (decode (kept_bytes (fst c2)))"
    using assms by (auto simp: reads_def)
  then show ?thesis
    using assms(2) decode_extend [of "kept_bytes (fst c) @ xs" ds "kept_bytes (fst c1)" ys]
    by (auto simp: reads_def after_messages_def intro!: exI [of _ "xs @ ys"])
qed

lemma reads_refl: "connection_ok (fst c) \<Longrightarrow> reads pending c [] c"
  by (auto simp: reads_def after_messages_def)

lemma took_decode: "took k bs k' \<Longrightarrow> decode (k @ bs) = after_messages [] (decode k')"
  by (auto simp: took_def after_messages_def size_of_bytes_def)

lemma read_step_reads:
  assumes ok: "connection_ok s" and src: "byte_stream recv pending"
    and step: "read_step recv (s, e) = (rv, ex, rc, s', e')"
  shows "reads pending (s, e) (returned rv s') (s', e')"
proof (cases "tcp_state s = TCP_MESSAGE_AVAILABLE")
  case True
  with ok have s: "tcp_msg_size s \<noteq> 0" "length (tcp_buffer s) = unat (tcp_msg_size s)" by (auto simp: connection_ok_def)
  then show ?thesis
    using True step decode_message [OF s(2) s(1)]
    by (auto simp: reads_def read_step_def connection_ok_def kept_bytes_def returned_def after_messages_def word_gt_0)
next
  case False
  from read_step_takes [OF ok src step False] show ?thesis
    by (auto simp: reads_def returned_def dest: took_decode)
qed

definition loop_reads :: "('e \<Rightarrow> u8 list) \<Rightarrow> 'e recv_data \<Rightarrow> TCPInputBuffer \<times> 'e \<Rightarrow> u16 \<times> TransportRc \<times> TCPInputBuffer \<times> 'e \<Rightarrow> bool" where
  "loop_reads pending recv c r \<longleftrightarrow> byte_stream recv pending \<longrightarrow> connection_ok (fst c) \<longrightarrow>
     (case r of (rv, rc, s', e') \<Rightarrow> reads pending c (returned rv s') (s', e'))"

lemma read_pass_reads:
  assumes rest: "\<And>c r. loop c = Some r \<Longrightarrow> loop_reads pending recv c r"
    and pass: "(case read_step recv c of (rv, exit_flag, rc, c) \<Rightarrow>
      if \<not> exit_flag \<and> rc = rc_ok then loop c else Some (rv, rc, c)) = Some r"
  shows "loop_reads pending recv c r"
proof -
  obtain s e where c: "c = (s, e)" by (metis surj_pair)
  obtain rv ex rc s1 e1 where step: "read_step recv (s, e) = (rv, ex, rc, s1, e1)" by (metis surj_pair)
  have first: "reads pending (s, e) (returned rv s1) (s1, e1)" if "byte_stream recv pending" "connection_ok s"
    using read_step_reads [OF that(2,1) step] .
  show ?thesis
  proof (cases "\<not> ex \<and> rc = rc_ok")
    case True
    have "returned rv s1 = []"
      using True step by (auto simp: returned_def read_step_def Let_def split: TCPInputBufferState.splits prod.splits if_splits)
    with first have first: "reads pending (s, e) [] (s1, e1)" if "byte_stream recv pending" "connection_ok s"
      using that by simp
    have "loop_reads pending recv (s1, e1) r"
      using rest pass c step True by simp
    then show ?thesis
      using first c reads_trans [OF first] by (auto simp: loop_reads_def reads_def [of _ _ "[]"])
  next
    case False
    then show ?thesis using pass first c step by (auto simp: loop_reads_def)
  qed
qed

lemma read_loop_reads:
  "read_loop recv c = Some r \<Longrightarrow> loop_reads pending recv c r"
  by (rule read_loop.raw_induct [where P = "loop_reads pending"]) (blast intro: read_pass_reads)+

lemma read_data_reads:
  assumes "read_data recv (s, e) = Some (rv, rc, s', e')" and "byte_stream recv pending" and "connection_ok s"
  shows "reads pending (s, e) (returned rv s') (s', e')"
  using read_loop_reads [of recv "(s, e)" _ pending] assms by (auto simp: read_data_def loop_reads_def)

lemma read_calls_reads:
  "read_calls recv n c = Some (ds, c') \<Longrightarrow> byte_stream recv pending \<Longrightarrow> connection_ok (fst c) \<Longrightarrow> reads pending c ds c'"
proof (induction n arbitrary: c ds)
  case (Suc n)
  then obtain rv rc s1 e1 ms where one: "read_data recv c = Some (rv, rc, s1, e1)"
      and rest: "read_calls recv n (s1, e1) = Some (ms, c')" and ds: "ds = returned rv s1 @ ms"
    by (auto simp: returned_def split: option.splits if_splits)
  have first: "reads pending c (returned rv s1) (s1, e1)"
    using read_data_reads [of recv "fst c" "snd c" rv rc s1 e1 pending] one Suc.prems by simp
  moreover have "reads pending (s1, e1) ms c'"
    using Suc.IH [OF rest Suc.prems(2)] first by (simp add: reads_def)
  ultimately show ?case using reads_trans ds by blast
qed (simp add: reads_refl)

section \<open>That a call returns\<close>

text \<open>Where recv_data reports an error when it has no bytes, a timeout say.\<close>

definition empty_is_error :: "'e recv_data \<Rightarrow> bool" where
  "empty_is_error recv \<longleftrightarrow> (\<forall>len e rc e'. recv len e = (([], rc), e') \<longrightarrow> 0 < len \<longrightarrow> rc \<noteq> rc_ok)"

text \<open>And where it has none only at the end of the stream.\<close>

definition prompt :: "'e recv_data \<Rightarrow> ('e \<Rightarrow> u8 list) \<Rightarrow> bool" where
  "prompt recv pending \<longleftrightarrow> (\<forall>len e rc e'. recv len e = (([], rc), e') \<longrightarrow> 0 < len \<longrightarrow> pending e = [])"

text \<open>How much is still to be read.\<close>

definition to_come :: "('e \<Rightarrow> u8 list) \<Rightarrow> TCPInputBuffer \<times> 'e \<Rightarrow> nat" where
  "to_come pending c = 2 * length (pending (snd c)) + (if tcp_state (fst c) = TCP_MESSAGE_AVAILABLE then 1 else 0)"

lemma read_step_shape:
  assumes ok: "connection_ok s" and src: "byte_stream recv pending" and err: "empty_is_error recv"
    and step: "read_step recv (s, e) = (rv, ex, rc, s', e')"
  obtains (available) "tcp_state s = TCP_MESSAGE_AVAILABLE" "ex" "e' = e" "tcp_state s' = TCP_BUFFER_EMPTY"
  | (empty) len where "recv len e = (([], rc), e')" "0 < len" "rc \<noteq> rc_ok" "tcp_state s' = tcp_state s" "pending e' = pending e"
      "tcp_state s \<noteq> TCP_MESSAGE_AVAILABLE"
  | (bytes) "length (pending e') < length (pending e)"
proof (cases "tcp_state s = TCP_MESSAGE_AVAILABLE")
  case True
  then show ?thesis using step available by (auto simp: read_step_def)
next
  case False
  define len where "len = (case tcp_state s of TCP_BUFFER_EMPTY \<Rightarrow> 2 | TCP_SIZE_INCOMPLETE \<Rightarrow> 1
    | TCP_SIZE_READ \<Rightarrow> unat (tcp_msg_size s) | _ \<Rightarrow> length (tcp_buffer s) - unat (tcp_position s))"
  obtain bs rc1 e1 where r: "recv len e = ((bs, rc1), e1)" by (metis surj_pair)
  have len: "0 < len"
    using ok False unfolding len_def connection_ok_def
    by (cases "tcp_state s") (auto simp: word_less_nat_alt unat_gt_0)
  have e: "e1 = e'" "rc1 = rc"
    using step r False unfolding len_def
    by (auto simp: read_step_def Let_def split: TCPInputBufferState.splits if_splits)
  show ?thesis
  proof (cases "bs = []")
    case True
    then have "tcp_state s' = tcp_state s"
      using step r False unfolding len_def
      by (auto simp: read_step_def Let_def split: TCPInputBufferState.splits if_splits)
    moreover have "rc1 \<noteq> rc_ok" "pending e = pending e1"
      using err src r len True by (auto simp: empty_is_error_def byte_stream_def)
    ultimately show ?thesis using empty r len e True False by simp
  next
    case False
    then show ?thesis using src r e bytes by (auto simp: byte_stream_def)
  qed
qed

lemma read_loop_returns:
  "connection_ok s \<Longrightarrow> byte_stream recv pending \<Longrightarrow> empty_is_error recv \<Longrightarrow> \<exists>r. read_loop recv (s, e) = Some r"
proof (induction "length (pending e)" arbitrary: s e rule: less_induct)
  case less
  obtain rv ex rc s1 e1 where step: "read_step recv (s, e) = (rv, ex, rc, s1, e1)" by (metis surj_pair)
  have "connection_ok s1"
    using read_step_reads [OF less.prems(1,2) step] by (simp add: reads_def)
  then have more: "\<exists>r. read_loop recv (s1, e1) = Some r" if "length (pending e1) < length (pending e)"
    using less that by blast
  have "ex \<or> rc \<noteq> rc_ok \<or> length (pending e1) < length (pending e)"
    by (rule read_step_shape [OF less.prems step]) simp_all
  with more show ?case
    by (subst read_loop.simps) (auto simp: step)
qed

text \<open>A call that finds something to read, reads; with nothing to read, it reports the error.\<close>

definition advances :: "('e \<Rightarrow> u8 list) \<Rightarrow> TCPInputBuffer \<times> 'e \<Rightarrow> TCPInputBuffer \<times> 'e \<Rightarrow> bool" where
  "advances pending c c' \<longleftrightarrow> to_come pending c' < to_come pending c \<or> to_come pending c = 0 \<and> to_come pending c' = 0"

lemma advances_trans: "advances pending a b \<Longrightarrow> advances pending b c \<Longrightarrow> advances pending a c"
  by (auto simp: advances_def)

lemma read_step_advances:
  assumes "connection_ok s" and "byte_stream recv pending" and "empty_is_error recv" and p: "prompt recv pending"
    and "read_step recv (s, e) = (rv, ex, rc, s', e')"
  shows "advances pending (s, e) (s', e')"
  by (rule read_step_shape [OF assms(1,2,3,5)]) (use p in \<open>auto simp: advances_def to_come_def prompt_def\<close>)

lemma read_loop_advances:
  "connection_ok s \<Longrightarrow> byte_stream recv pending \<Longrightarrow> empty_is_error recv \<Longrightarrow> prompt recv pending \<Longrightarrow>
   read_loop recv (s, e) = Some (rv, rc, s', e') \<Longrightarrow> advances pending (s, e) (s', e')"
proof (induction "length (pending e)" arbitrary: s e rule: less_induct)
  case less
  obtain rv1 ex rc1 s1 e1 where step: "read_step recv (s, e) = (rv1, ex, rc1, s1, e1)" by (metis surj_pair)
  have ok: "connection_ok s1"
    using read_step_reads [OF less.prems(1,2) step] by (simp add: reads_def)
  have one: "advances pending (s, e) (s1, e1)" by (rule read_step_advances [OF less.prems(1-4) step])
  show ?case
  proof (cases "\<not> ex \<and> rc1 = rc_ok")
    case True
    have "length (pending e1) < length (pending e)"
      by (rule read_step_shape [OF less.prems(1-3) step]) (use True in simp_all)
    moreover have "read_loop recv (s1, e1) = Some (rv, rc, s', e')"
      using less.prems(5) True by (subst (asm) read_loop.simps) (simp add: step)
    ultimately show ?thesis
      using less.hyps [OF _ ok less.prems(2-4)] one advances_trans by blast
  next
    case False
    then show ?thesis using less.prems(5) one by (subst (asm) read_loop.simps) (auto simp: step)
  qed
qed

lemma read_calls_return:
  "connection_ok (fst c) \<Longrightarrow> byte_stream recv pending \<Longrightarrow> empty_is_error recv \<Longrightarrow> \<exists>r. read_calls recv n c = Some r"
proof (induction n arbitrary: c)
  case (Suc n)
  obtain s e where c: "c = (s, e)" by (metis surj_pair)
  obtain rv rc s1 e1 where one: "read_data recv (s, e) = Some (rv, rc, s1, e1)"
    using read_loop_returns [of s recv pending e] Suc.prems c by (auto simp: read_data_def)
  have "connection_ok s1" using read_data_reads [OF one Suc.prems(2)] Suc.prems(1) c by (auto simp: reads_def)
  then show ?case using Suc.IH [of "(s1, e1)"] Suc.prems c one by auto
qed simp

lemma read_calls_advance:
  "connection_ok (fst c) \<Longrightarrow> byte_stream recv pending \<Longrightarrow> empty_is_error recv \<Longrightarrow> prompt recv pending \<Longrightarrow>
   read_calls recv n c = Some (ds, c') \<Longrightarrow> to_come pending c' \<le> to_come pending c - n"
proof (induction n arbitrary: c ds)
  case (Suc n)
  obtain s e where c: "c = (s, e)" by (metis surj_pair)
  obtain rv rc s1 e1 ms where one: "read_data recv (s, e) = Some (rv, rc, s1, e1)"
      and rest: "read_calls recv n (s1, e1) = Some (ms, c')"
    using Suc.prems(5) c by (auto split: option.splits)
  have ok: "connection_ok s1" using read_data_reads [OF one Suc.prems(2)] Suc.prems(1) c by (auto simp: reads_def)
  have "advances pending (s, e) (s1, e1)"
    using read_loop_advances [of s recv pending e rv rc s1 e1] one Suc.prems c by (simp add: read_data_def)
  then show ?case using Suc.IH [of "(s1, e1)" ms] ok Suc.prems(2-4) rest c by (auto simp: advances_def)
qed simp

section \<open>The messages of a connection\<close>

lemma ready_new [simp]: "connection_ok new_connection" "kept_bytes new_connection = []"
  "tcp_state new_connection = TCP_BUFFER_EMPTY"
  by (simp_all add: new_connection_def connection_ok_def kept_bytes_def)

lemma decode_kept: "connection_ok s \<Longrightarrow> tcp_state s \<noteq> TCP_MESSAGE_AVAILABLE \<Longrightarrow> decode (kept_bytes s) = ([], kept_bytes s)"
  using decode_le_bytes [of "tcp_msg_size s" "[]"]
    decode_le_bytes [of "tcp_msg_size s" "take (unat (tcp_position s)) (tcp_buffer s)"]
  by (cases "tcp_state s") (auto simp: kept_bytes_def connection_ok_def word_less_nat_alt unat_gt_0)

lemma delivered_so_far:
  assumes "byte_stream recv pending" and "list_all (\<lambda>m. m \<noteq> [] \<and> length m < 2 ^ 16) ms"
    and "pending e = concat (map frame ms)" and "read_calls recv n (new_connection, e) = Some (ds, s, e')"
  shows "connection_ok s" and "(ms, []) = after_messages ds (decode (kept_bytes s @ pending e'))"
proof -
  have "reads pending (new_connection, e) ds (s, e')"
    by (rule read_calls_reads [OF assms(4,1)]) simp
  then obtain bs where "connection_ok s" "pending e = bs @ pending e'" "decode bs = after_messages ds (decode (kept_bytes s))"
    by (auto simp: reads_def)
  then show "connection_ok s" "(ms, []) = after_messages ds (decode (kept_bytes s @ pending e'))"
    using decode_extend [of bs ds "kept_bytes s" "pending e'"] decode_frames [OF assms(2)] assms(3) by auto
qed

text \<open>C17: The bytes of messages, each of 1 to 65535 bytes after its size, come out as the
  messages: whatever the segments in which recv_data hands over the stream, the messages that
  any number of calls of read_data have returned are the first of those sent, in order and
  unchanged, and they are all of them once the stream is used up and no complete message
  waits in the buffer.\<close>

theorem tcp_messages_framed:
  assumes "byte_stream recv pending" and "list_all (\<lambda>m. m \<noteq> [] \<and> length m < 2 ^ 16) ms"
    and "pending e = concat (map frame ms)" and "read_calls recv n (new_connection, e) = Some (ds, s, e')"
  shows "\<exists>rest. ms = ds @ rest \<and> (pending e' = [] \<and> tcp_state s \<noteq> TCP_MESSAGE_AVAILABLE \<longrightarrow> rest = [])"
  using delivered_so_far [OF assms] decode_kept [of s] by (auto simp: after_messages_def)

text \<open>C35: When recv_data reports an error whenever it has no bytes (a timeout, a closed
  connection), every call of read_data returns; when it also hands over at least one byte
  while there are any, then twice as many calls as there are bytes return every message.\<close>

theorem tcp_read_returns:
  assumes "byte_stream recv pending" and "empty_is_error recv"
  shows "(\<exists>r. read_calls recv n (new_connection, e) = Some r) \<and>
    (prompt recv pending \<and> list_all (\<lambda>m. m \<noteq> [] \<and> length m < 2 ^ 16) ms \<and> pending e = concat (map frame ms) \<and>
       2 * length (pending e) \<le> n \<longrightarrow> (\<exists>c. read_calls recv n (new_connection, e) = Some (ms, c)))"
proof -
  obtain ds s e' where calls: "read_calls recv n (new_connection, e) = Some (ds, s, e')"
    using read_calls_return [of "(new_connection, e)" recv pending n] assms by auto
  have "ds = ms"
    if "prompt recv pending" "list_all (\<lambda>m. m \<noteq> [] \<and> length m < 2 ^ 16) ms"
      "pending e = concat (map frame ms)" "2 * length (pending e) \<le> n"
  proof -
    have "to_come pending (s, e') = 0"
      using read_calls_advance [OF _ assms that(1) calls] that(4) by (simp add: to_come_def)
    then have "pending e' = []" "tcp_state s \<noteq> TCP_MESSAGE_AVAILABLE"
      by (auto simp: to_come_def split: if_splits)
    then show "ds = ms"
      using delivered_so_far [OF assms(1) that(2,3) calls] decode_kept [of s] by (simp add: after_messages_def)
  qed
  with calls show ?thesis by auto
qed

text \<open>Without the error code a call need not return.\<close>

definition returns_never :: "'e recv_data \<Rightarrow> TCPInputBuffer \<times> 'e \<Rightarrow> 'r \<Rightarrow> bool" where
  "returns_never recv c r \<longleftrightarrow> (\<forall>len. recv len (snd c) = (([], rc_ok), snd c)) \<longrightarrow> fst c \<noteq> new_connection"

lemma silent_step:
  "\<forall>len. recv len e = (([], rc_ok), e) \<Longrightarrow> read_step recv (new_connection, e) = (0, False, rc_ok, new_connection, e)"
  by (simp add: read_step_def new_connection_def)

lemma tcp_read_hangs:
  assumes silent: "\<And>len. recv len e = (([], rc_ok), e)"
  shows "read_data recv (new_connection, e) = None"
proof -
  have "returns_never recv c r" if "read_loop recv c = Some r" for c r
  proof (rule read_loop.raw_induct [OF _ that, where P = returns_never])
    fix loop :: "'a recv_data \<Rightarrow> TCPInputBuffer \<times> 'a \<Rightarrow> (u16 \<times> TransportRc \<times> TCPInputBuffer \<times> 'a) option" and recv c r
    assume hyp: "\<And>recv c r. loop recv c = Some r \<Longrightarrow> returns_never recv c r"
      and "(case read_step recv c of (rv, exit_flag, rc, c) \<Rightarrow>
        if \<not> exit_flag \<and> rc = rc_ok then loop recv c else Some (rv, rc, c)) = Some r"
    then show "returns_never recv c r"
      using silent_step [of recv "snd c"] hyp [of recv c r] by (cases c) (auto simp: returns_never_def)
  qed
  from this [of "(new_connection, e)"] show ?thesis
    using silent by (cases "read_loop recv (new_connection, e)") (auto simp: read_data_def returns_never_def)
qed

text \<open>A source that hands over three bytes at a time at most.\<close>

definition three_at_a_time :: "u8 list recv_data" where
  "three_at_a_time len e =
     ((take (min len 3) e, if e = [] then rc_timeout_error else rc_ok), drop (min len 3) e)"

lemma three_at_a_time_stream:
  "byte_stream three_at_a_time id" "empty_is_error three_at_a_time" "prompt three_at_a_time id"
  by (auto simp: byte_stream_def empty_is_error_def prompt_def three_at_a_time_def split: if_splits)

lemma tcp_messages_framed_witness:
  "case read_calls three_at_a_time 6 (new_connection, [1, 0, 7, 4, 0, 1, 2, 3, 4]) of
     None \<Rightarrow> False
   | Some (ds, s, e') \<Rightarrow> \<exists>rest. [[7], [1, 2, 3, 4]] = ds @ rest \<and>
       (id e' = [] \<and> tcp_state s \<noteq> TCP_MESSAGE_AVAILABLE \<longrightarrow> rest = [])"
proof -
  obtain ds s e' where calls: "read_calls three_at_a_time 6 (new_connection, [1, 0, 7, 4, 0, 1, 2, 3, 4]) = Some (ds, s, e')"
    using read_calls_return [OF _ three_at_a_time_stream(1,2), of "(new_connection, [1, 0, 7, 4, 0, 1, 2, 3, 4])" 6] by auto
  from tcp_messages_framed [OF three_at_a_time_stream(1) _ _ calls, of "[[7], [1, 2, 3, 4]]"]
  show ?thesis by (simp add: calls frame_def le_bytes_def)
qed

lemma tcp_read_returns_witness:
  "\<exists>c. read_calls three_at_a_time 18 (new_connection, [1, 0, 7, 4, 0, 1, 2, 3, 4]) = Some ([[7], [1, 2, 3, 4]], c)"
  using tcp_read_returns [OF three_at_a_time_stream(1,2), of 18 "[1, 0, 7, 4, 0, 1, 2, 3, 4]" "[[7], [1, 2, 3, 4]]"]
    three_at_a_time_stream(3)
  by (simp add: frame_def le_bytes_def)

end
