(* ===== verification/Transports.thy ===== *)
theory Transports
  imports SessionManager "HOL-Library.Signed_Division"
begin

text \<open>
  What surrounds the transports of the agent: how end points (transport/endpoint) and the
  addresses of the discovery protocol (TransportAddress of types/XRCETypes.hpp) are printed,
  how the addresses of the machine are listed (transport/util/InterfaceLinux.hpp and
  InterfaceWindows.hpp), the start of the discovery server
  (transport/discovery/DiscoveryServer.hpp), and the clock (utils/Time.hpp).

  A stream of the C++ library is its text with the state that a manipulator sets: the base
  of numbers and the fill character stay as they are set, a width holds for one item.
  getifaddrs, GetAdaptersAddresses, the allocator and the init of a discovery server are
  parameters.
\<close>

section \<open>Streams\<close>

record ostream =
  os_text :: string
  os_base :: nat
  os_fill :: char

definition new_ostream :: ostream where
  "new_ostream = \<lparr>os_text = [], os_base = 10, os_fill = CHR '' ''\<rparr>"

definition digit_of :: "nat \<Rightarrow> char" where
  "digit_of d = ''0123456789abcdef'' ! d"

fun number_string :: "nat \<Rightarrow> nat \<Rightarrow> string" where
  "number_string b n = (if b < 2 \<or> n < b then [digit_of n] else number_string b (n div b) @ [digit_of (n mod b)])"

declare number_string.simps [simp del]

definition put :: "string \<Rightarrow> ostream \<Rightarrow> ostream" where
  "put s os = os\<lparr>os_text := os_text os @ s\<rparr>"

definition put_num :: "nat \<Rightarrow> ostream \<Rightarrow> ostream" where
  "put_num n os = put (number_string (os_base os) n) os"

text \<open>An int: other bases than ten print its bits.\<close>

definition put_int :: "u32 \<Rightarrow> ostream \<Rightarrow> ostream" where
  "put_int i os = (if os_base os = 10 \<and> sint i < 0 then put (''-'' @ number_string 10 (nat (- sint i))) os
     else put_num (unat i) os)"

definition set_base :: "nat \<Rightarrow> ostream \<Rightarrow> ostream" where
  "set_base b os = os\<lparr>os_base := b\<rparr>"

text \<open>\<open>setfill('0') << setw(2) << hex << int(b)\<close>.\<close>

definition put_hex2 :: "u8 \<Rightarrow> ostream \<Rightarrow> ostream" where
  "put_hex2 b os =
     (let os = os\<lparr>os_fill := CHR ''0'', os_base := 16\<rparr>; s = number_string 16 (unat b)
      in put (replicate (2 - length s) (os_fill os) @ s) os)"

section \<open>End points\<close>

definition v4_print :: "IPv4EndPoint \<Rightarrow> ostream \<Rightarrow> ostream" where
  "v4_print e os =
     (let os = put_num (unat (ucast (v4_addr e) :: u8)) os; os = put ''.'' os;
          os = put_num (unat (ucast (drop_bit 8 (v4_addr e)) :: u8)) os; os = put ''.'' os;
          os = put_num (unat (ucast (drop_bit 16 (v4_addr e)) :: u8)) os; os = put ''.'' os;
          os = put_num (unat (ucast (drop_bit 24 (v4_addr e)) :: u8)) os; os = put '':'' os
      in put_num (unat (v4_port e)) os)"

definition v6_print :: "IPv6EndPoint \<Rightarrow> ostream \<Rightarrow> ostream" where
  "v6_print e os = put_num (unat (v6_port e))
     (fold (\<lambda>i os. put '':'' (put_hex2 (v6_addr e ! (2 * i + 1)) (put_hex2 (v6_addr e ! (2 * i)) os))) [0..<8] os)"

definition serial_print :: "SerialEndPoint \<Rightarrow> ostream \<Rightarrow> ostream" where
  "serial_print e os = put_int (ucast (serial_addr e)) os"

definition can_print :: "CanEndPoint \<Rightarrow> ostream \<Rightarrow> ostream" where
  "can_print e os = put_int (can_id e) os"

definition multi_print :: "MultiSerialEndPoint \<Rightarrow> ostream \<Rightarrow> ostream" where
  "multi_print e os = put_int (word_of_int (multi_fd e)) os"

section \<open>Addresses of the discovery protocol\<close>

record TransportAddressSmall =
  small_address :: "u8 list"
  small_port :: u8

record TransportAddressMedium =
  medium_address :: "u8 list"
  medium_port :: u16

record TransportAddressLarge =
  large_address :: "u8 list"
  large_port :: u32

record TransportAddressString =
  string_value :: string

datatype TransportAddress =
    Small_Locator TransportAddressSmall
  | Medium_Locator TransportAddressMedium
  | Large_Locator TransportAddressLarge
  | String_Locator TransportAddressString

definition medium_print :: "TransportAddressMedium \<Rightarrow> ostream \<Rightarrow> ostream" where
  "medium_print t os =
     (let a = medium_address t;
          os = put_num (unat (a ! 0)) os; os = put ''.'' os;
          os = put_num (unat (a ! 1)) os; os = put ''.'' os;
          os = put_num (unat (a ! 2)) os; os = put ''.'' os;
          os = put_num (unat (a ! 3)) os; os = put '':'' os
      in put_num (unat (medium_port t)) os)"

text \<open>The bytes in hexadecimal, without leading zeros; the port in decimal.\<close>

definition large_print :: "TransportAddressLarge \<Rightarrow> ostream \<Rightarrow> ostream" where
  "large_print t os =
     (let a = large_address t;
          os = put ''['' (set_base 16 os);
          os = put_num (unat (a ! 1)) (put_num (unat (a ! 0)) os);
          os = fold (\<lambda>i os. put_num (unat (a ! (2 * i + 1))) (put_num (unat (a ! (2 * i))) (put '':'' os))) [1..<8] os;
          os = set_base 10 (put '']:'' os)
      in put_num (unat (large_port t)) os)"

fun address_print :: "TransportAddress \<Rightarrow> ostream \<Rightarrow> ostream" where
  "address_print (Medium_Locator t) os = medium_print t os"
| "address_print (Large_Locator t) os = large_print t os"
| "address_print (Small_Locator t) os = os"
| "address_print (String_Locator t) os = os"

section \<open>The addresses of the machine\<close>

text \<open>A sockaddr: its family, and the bytes after it.\<close>

record sockaddr =
  sa_family :: u16
  sa_data :: "u8 list"

definition AF_INET :: u16 where "AF_INET = 2"
definition AF_INET6 :: u16 where "AF_INET6 = 10"

definition v4_address_of :: "u16 \<Rightarrow> sockaddr \<Rightarrow> TransportAddress" where
  "v4_address_of agent_port a = Medium_Locator
     \<lparr>medium_address = [sa_data a ! 2, sa_data a ! 3, sa_data a ! 4, sa_data a ! 5], medium_port = agent_port\<rparr>"

text \<open>sin6_addr comes after the port (two bytes) and the flow information (four).\<close>

definition v6_address_of :: "u16 \<Rightarrow> sockaddr \<Rightarrow> TransportAddress" where
  "v6_address_of agent_port a = Large_Locator
     \<lparr>large_address = map (\<lambda>i. sa_data a ! (6 + i)) [0..<16], large_port = ucast agent_port\<rparr>"

text \<open>One pass of a loop: the vector grows at its end.\<close>

definition add_interface :: "u16 \<Rightarrow> (sockaddr \<Rightarrow> TransportAddress) \<Rightarrow> sockaddr option \<Rightarrow> TransportAddress list \<Rightarrow> TransportAddress list" where
  "add_interface family locator addr ts =
     (case addr of None \<Rightarrow> ts | Some a \<Rightarrow> if sa_family a = family then ts @ [locator a] else ts)"

text \<open>
  Linux: the nodes that getifaddrs links, each with an address or none; when the call fails,
  the pointer that freeifaddrs gets was never set.
\<close>

definition linux_interfaces_v4 :: "sockaddr option list option \<Rightarrow> u16 \<Rightarrow> TransportAddress list \<Rightarrow> TransportAddress list \<times> unit res" where
  "linux_interfaces_v4 getifaddrs agent_port transport_addresses =
     (let ts = [] in case getifaddrs of
        Some nodes \<Rightarrow> (fold (add_interface AF_INET (v4_address_of agent_port)) nodes ts, Inr ())
      | None \<Rightarrow> (ts, Inl Bad_Access))"

definition linux_interfaces_v6 :: "sockaddr option list option \<Rightarrow> u16 \<Rightarrow> TransportAddress list \<Rightarrow> TransportAddress list \<times> unit res" where
  "linux_interfaces_v6 getifaddrs agent_port transport_addresses =
     (let ts = [] in case getifaddrs of
        Some nodes \<Rightarrow> (fold (add_interface AF_INET6 (v6_address_of agent_port)) nodes ts, Inr ())
      | None \<Rightarrow> (ts, Inl Bad_Access))"

text \<open>
  Windows: GetAdaptersAddresses fills a buffer of the given size, or says what size it
  needs; malloc and realloc may fail.  Besides the addresses, the number of blocks that are
  still allocated at the end.
\<close>

datatype adapters = NO_ERROR "sockaddr list list" | ERROR_BUFFER_OVERFLOW nat | ERROR_OTHER

record windows_lib =
  GetAdaptersAddresses :: "nat \<Rightarrow> nat \<Rightarrow> adapters" \<comment> \<open>the number of the call, and the size\<close>
  alloc :: "nat \<Rightarrow> bool"

definition windows_AF_INET6 :: u16 where "windows_AF_INET6 = 23"

definition add_adapters :: "u16 \<Rightarrow> (sockaddr \<Rightarrow> TransportAddress) \<Rightarrow> adapters \<Rightarrow> TransportAddress list \<Rightarrow> TransportAddress list" where
  "add_adapters family locator rv ts = (case rv of
     NO_ERROR adapters \<Rightarrow> fold (\<lambda>unicast. fold (\<lambda>a. add_interface family locator (Some a)) unicast) adapters ts
   | _ \<Rightarrow> ts)"

definition windows_interfaces :: "windows_lib \<Rightarrow> u16 \<Rightarrow> (sockaddr \<Rightarrow> TransportAddress) \<Rightarrow> TransportAddress list \<times> nat" where
  "windows_interfaces w family locator =
     (if \<not> alloc w 1000 then ([], 0)
      else case GetAdaptersAddresses w 0 1000 of
        ERROR_BUFFER_OVERFLOW n \<Rightarrow>
          if \<not> alloc w n then ([], 1) else (add_adapters family locator (GetAdaptersAddresses w 1 n) [], 0)
      | rv \<Rightarrow> (add_adapters family locator rv [], 0))"

definition windows_interfaces_v4 :: "windows_lib \<Rightarrow> u16 \<Rightarrow> TransportAddress list \<Rightarrow> TransportAddress list \<times> nat" where
  "windows_interfaces_v4 w agent_port transport_addresses = windows_interfaces w AF_INET (v4_address_of agent_port)"

definition windows_interfaces_v6 :: "windows_lib \<Rightarrow> u16 \<Rightarrow> TransportAddress list \<Rightarrow> TransportAddress list \<times> nat" where
  "windows_interfaces_v6 w agent_port transport_addresses = windows_interfaces w windows_AF_INET6 (v6_address_of agent_port)"

section \<open>The discovery server\<close>

record DiscoveryServer =
  ds_running_cond :: bool
  ds_transport_addresses :: "TransportAddress list"
  ds_thread :: bool

text \<open>init opens the socket of the discovery port; thread: the discovery loop was started.\<close>

definition DiscoveryServer_run :: "(u16 \<Rightarrow> 'e \<Rightarrow> bool \<times> 'e) \<Rightarrow> u16 \<Rightarrow> TransportAddress list \<Rightarrow> DiscoveryServer \<times> 'e \<Rightarrow> bool \<times> DiscoveryServer \<times> 'e" where
  "DiscoveryServer_run init discovery_port transport_addresses c =
     (let (s, e) = c; s = s\<lparr>ds_transport_addresses := transport_addresses\<rparr> in
      if ds_running_cond s then (False, s, e)
      else let (ok, e) = init discovery_port e in
        if \<not> ok then (False, s, e)
        else (True, s\<lparr>ds_running_cond := True, ds_thread := True\<rparr>, e))"

section \<open>The clock\<close>

text \<open>Seconds and nanoseconds of a number of nanoseconds since 1970.\<close>

definition get_epoch_time :: "int \<Rightarrow> 32 word \<times> u32" where
  "get_epoch_time epoch_time = (word_of_int (epoch_time sdiv 10 ^ 9), word_of_int (epoch_time smod 10 ^ 9))"

definition max_mtu :: "'a::linorder \<Rightarrow> 'a \<Rightarrow> 'a" where
  "max_mtu fe se = (if fe > se then fe else se)"

section \<open>Numbers in a base\<close>

lemma digit_of_inj: "d < 16 \<Longrightarrow> d' < 16 \<Longrightarrow> digit_of d = digit_of d' \<longleftrightarrow> d = d'"
  by (simp add: digit_of_def nth_eq_iff_index_eq)

lemma number_string_10: "number_string 10 n = digit_string n"
proof (induction n rule: digit_string.induct)
  case (1 n)
  have "\<forall>d\<in>set [0..<10]. digit_of d = char_of (48 + d)" by code_simp
  then have d: "digit_of d = char_of (48 + d)" if "d < 10" for d using that by simp
  show ?case
    using 1 by (subst number_string.simps, subst digit_string.simps) (auto simp: d)
qed

definition separator :: "char \<Rightarrow> bool" where
  "separator c \<longleftrightarrow> c \<notin> set ''0123456789abcdef''"

lemma number_chars: "1 < b \<Longrightarrow> b \<le> 16 \<Longrightarrow> list_all (\<lambda>c. \<not> separator c) (number_string b n)"
proof (induction b n rule: number_string.induct)
  case (1 b n)
  have "\<not> separator (digit_of d)" if "d < 16" for d
    unfolding separator_def digit_of_def using that by (simp add: nth_mem del: set_simps list.set)
  then show ?case
    using 1 mod_less_divisor [of b n] less_le_trans [of "n mod b" b 16] by (subst number_string.simps) auto
qed

lemma number_not_empty [simp]: "number_string b n \<noteq> []" "[] \<noteq> number_string b n"
  by (subst number_string.simps; simp)+

lemma number_string_inj: "1 < b \<Longrightarrow> b \<le> 16 \<Longrightarrow> number_string b n = number_string b n' \<Longrightarrow> n = n'"
proof (induction b n arbitrary: n' rule: number_string.induct)
  case (1 b n)
  have d: "n mod b = n' mod b" if "digit_of (n mod b) = digit_of (n' mod b)"
    using that 1 digit_of_inj [of "n mod b" "n' mod b"] by (simp add: less_le_trans [OF mod_less_divisor])
  show ?case
  proof (cases "n < b"; cases "n' < b")
    assume "\<not> n < b" "\<not> n' < b"
    moreover from this 1 have "n div b = n' div b" "n mod b = n' mod b"
      using d number_string.simps [of b n] number_string.simps [of b n'] by auto
    ultimately show "n = n'" by (metis div_mult_mod_eq)
  qed (use 1 d number_string.simps [of b n] number_string.simps [of b n'] in auto)
qed

text \<open>A number before a separator can be read back.\<close>

lemma number_split:
  assumes "separator c" and "list_all (\<lambda>c. \<not> separator c) xs" and "list_all (\<lambda>c. \<not> separator c) ys"
  shows "xs @ c # r = ys @ c # r' \<longleftrightarrow> xs = ys \<and> r = r'"
proof
  assume eq: "xs @ c # r = ys @ c # r'"
  then have "takeWhile (\<lambda>c. \<not> separator c) (xs @ c # r) = takeWhile (\<lambda>c. \<not> separator c) (ys @ c # r')" by simp
  then have "xs = ys" using assms by (simp add: takeWhile_append list_all_iff)
  with eq show "xs = ys \<and> r = r'" by simp
qed simp

lemma number_before:
  assumes "1 < b" and "b \<le> 16" and "separator c"
  shows "number_string b n @ c # r = number_string b n' @ c # r' \<longleftrightarrow> n = n' \<and> r = r'"
  using number_split [OF assms(3), of "number_string b n" "number_string b n'" r r']
    number_chars [OF assms(1,2)] number_string_inj [OF assms(1,2)] by auto

section \<open>What is printed\<close>

lemma put_simps [simp]:
  "os_text (put s os) = os_text os @ s" "os_base (put s os) = os_base os"
  "os_text (put_num n os) = os_text os @ number_string (os_base os) n" "os_base (put_num n os) = os_base os"
  "os_text (set_base b os) = os_text os" "os_base (set_base b os) = b"
  by (simp_all add: put_def put_num_def set_base_def)

lemma separators [simp]: "separator CHR ''.''" "separator CHR '':''"
  by (simp_all add: separator_def)

text \<open>The four bytes of a word.\<close>

lemma word_of_bytes:
  fixes a a' :: u32
  assumes "\<And>k. k < 4 \<Longrightarrow> (ucast (drop_bit (8 * k) a) :: u8) = ucast (drop_bit (8 * k) a')"
  shows "a = a'"
proof (rule bit_word_eqI)
  fix n assume n: "n < LENGTH(32)"
  have split: "bit w n = bit (ucast (drop_bit (8 * (n div 8)) w) :: u8) (n mod 8)" for w :: u32
    by (simp add: bit_ucast_iff bit_drop_bit_eq)
  have "n div 8 < 4" using n by (simp add: div_less_iff_less_mult)
  then show "bit a n = bit a' n" by (simp add: split [of a] split [of a'] assms)
qed

lemma word_of_four_bytes:
  "(ucast (a :: u32) :: u8) = ucast a' \<Longrightarrow> (ucast (drop_bit 8 a) :: u8) = ucast (drop_bit 8 a') \<Longrightarrow>
   (ucast (drop_bit 16 a) :: u8) = ucast (drop_bit 16 a') \<Longrightarrow> (ucast (drop_bit 24 a) :: u8) = ucast (drop_bit 24 a') \<Longrightarrow> a = a'"
  by (rule word_of_bytes) (auto simp: numeral_eq_Suc less_Suc_eq)

lemma v4_print_inj:
  assumes "1 < os_base os" and "os_base os \<le> 16" and "os_text (v4_print e os) = os_text (v4_print e' os)"
  shows "e = e'"
proof -
  have "v4_addr e = v4_addr e'" "v4_port e = v4_port e'"
    using assms number_string_inj [OF assms(1,2), of "unat (v4_port e)" "unat (v4_port e')"]
    by (auto simp: v4_print_def Let_def number_before word_unat_eq_iff [of "ucast a :: u8" for a]
        word_unat_eq_iff [of "v4_port e"] intro!: word_of_four_bytes)
  then show ?thesis by (cases e; cases e') simp
qed

text \<open>A byte takes two hexadecimal digits.\<close>

definition hex2 :: "u8 \<Rightarrow> string" where
  "hex2 b = [digit_of (unat b div 16), digit_of (unat b mod 16)]"

lemma hex2_inj: "hex2 b = hex2 b' \<longleftrightarrow> b = b'"
proof -
  have "unat b div 16 < 16" "unat b' div 16 < 16" using unsigned_less [of b, where 'a = nat] unsigned_less [of b', where 'a = nat] by simp_all
  then have "hex2 b = hex2 b' \<longleftrightarrow> unat b div 16 = unat b' div 16 \<and> unat b mod 16 = unat b' mod 16"
    by (simp add: hex2_def digit_of_inj)
  also have "\<dots> \<longleftrightarrow> unat b = unat b'" by (metis div_mult_mod_eq)
  finally show ?thesis by (simp add: word_unat_eq_iff)
qed

lemma hex2_append: "hex2 b @ r = hex2 b' @ r' \<longleftrightarrow> b = b' \<and> r = r'"
  using hex2_inj [of b b'] by (auto simp: hex2_def)

lemma put_hex2: "put_hex2 b os = os\<lparr>os_text := os_text os @ hex2 b, os_base := 16, os_fill := CHR ''0''\<rparr>"
proof -
  have small: "unat b < 256" using unsigned_less [of b, where 'a = nat] by simp
  have "replicate (2 - length (number_string 16 (unat b))) CHR ''0'' @ number_string 16 (unat b) = hex2 b"
  proof (cases "unat b < 16")
    case True
    then show ?thesis by (subst (1 2) number_string.simps) (simp add: hex2_def digit_of_def)
  next
    case False
    then have "number_string 16 (unat b) = hex2 b"
      using small number_string.simps [of 16 "unat b"] number_string.simps [of 16 "unat b div 16"]
      by (simp add: hex2_def)
    then show ?thesis by (simp add: hex2_def)
  qed
  then show ?thesis by (simp add: put_hex2_def put_def Let_def)
qed

definition v6_text :: "u8 list \<Rightarrow> string" where
  "v6_text a = concat (map (\<lambda>i. hex2 (a ! (2 * i)) @ hex2 (a ! (2 * i + 1)) @ '':'') [0..<8])"

lemma v6_print:
  "v6_print e os = os\<lparr>os_text := os_text os @ v6_text (v6_addr e) @ number_string 16 (unat (v6_port e)),
     os_base := 16, os_fill := CHR ''0''\<rparr>"
  by (simp add: v6_print_def put_hex2 v6_text_def put_def put_num_def upt_rec)

lemma v6_text_inj:
  assumes "length a = 16" and "length a' = 16" and "v6_text a @ r = v6_text a' @ r'"
  shows "a = a' \<and> r = r'"
proof -
  have eq: "a ! 0 = a' ! 0 \<and> a ! 1 = a' ! 1 \<and> a ! 2 = a' ! 2 \<and> a ! 3 = a' ! 3 \<and> a ! 4 = a' ! 4 \<and> a ! 5 = a' ! 5 \<and>
      a ! 6 = a' ! 6 \<and> a ! 7 = a' ! 7 \<and> a ! 8 = a' ! 8 \<and> a ! 9 = a' ! 9 \<and> a ! 10 = a' ! 10 \<and> a ! 11 = a' ! 11 \<and>
      a ! 12 = a' ! 12 \<and> a ! 13 = a' ! 13 \<and> a ! 14 = a' ! 14 \<and> a ! 15 = a' ! 15 \<and> r = r'"
    using assms(3) by (simp add: v6_text_def upt_rec hex2_append)
  then have "map ((!) a) [0..<16] = map ((!) a') [0..<16]" by (simp add: upt_rec numeral_eq_Suc)
  then have "a = a'" using map_nth [of a] map_nth [of a'] assms(1,2) by argo
  with eq show ?thesis by simp
qed

text \<open>In the log two clients are told apart by their end points: on any stream that
  prints numbers in a base up to sixteen, two IPv4 end points that print the same text are
  the same, and so are two IPv6 end points (an array of sixteen bytes and a port).\<close>

theorem endpoint_text_unique:
  assumes "1 < os_base os" and "os_base os \<le> 16" and "length a = 16" and "length a' = 16"
  shows "(os_text (v4_print e os) = os_text (v4_print e' os) \<longleftrightarrow> e = e') \<and>
    (os_text (v6_print (IPv6EndPoint a p) os) = os_text (v6_print (IPv6EndPoint a' p') os) \<longleftrightarrow> a = a' \<and> p = p')"
  using v4_print_inj [OF assms(1,2)] v6_text_inj [OF assms(3,4)] number_string_inj [of 16 "unat p" "unat p'"]
  by (auto simp: v6_print word_unat_eq_iff [of p])

lemma endpoint_text_unique_witness:
  "os_text (v4_print (IPv4EndPoint 0x0100007F 8888) new_ostream) \<noteq> os_text (v4_print (IPv4EndPoint 0x0200007F 8888) new_ostream)"
  using endpoint_text_unique [of new_ostream "replicate 16 0" "replicate 16 0" "IPv4EndPoint 0x0100007F 8888" "IPv4EndPoint 0x0200007F 8888"]
  by (simp add: new_ostream_def)

text \<open>An IPv6 end point leaves the stream in hexadecimal, and prints its own port so.\<close>

lemma v6_port_in_hex:
  "os_text (v6_print (IPv6EndPoint (replicate 16 0) 8888) new_ostream) = ''0000:0000:0000:0000:0000:0000:0000:0000:22b8''"
  by (simp add: v6_print v6_text_def hex2_def digit_of_def new_ostream_def upt_rec number_string.simps)

lemma v6_leaves_hex: "os_base (v6_print e os) = 16"
  by (simp add: v6_print)

text \<open>Addresses of the discovery protocol in the long format print without leading zeros, so
  that two addresses may look the same.\<close>

lemma large_text_ambiguous:
  "os_text (address_print (Large_Locator \<lparr>large_address = 0x01 # 0x11 # replicate 14 0, large_port = 0\<rparr>) new_ostream) =
   os_text (address_print (Large_Locator \<lparr>large_address = 0x11 # 0x01 # replicate 14 0, large_port = 0\<rparr>) new_ostream)"
  by code_simp

section \<open>The addresses that are listed\<close>

lemma fold_add_interface:
  "fold (add_interface family locator) nodes ts =
     ts @ map locator (filter (\<lambda>a. sa_family a = family) (List.map_filter id nodes))"
  by (induction nodes arbitrary: ts) (auto simp: add_interface_def map_filter_simps split: option.splits)

lemma add_adapters_listed:
  "add_adapters family locator (NO_ERROR adapters) ts = ts @ map locator (filter (\<lambda>a. sa_family a = family) (concat adapters))"
proof -
  have one: "fold (\<lambda>a. add_interface family locator (Some a)) xs ts = ts @ map locator (filter (\<lambda>a. sa_family a = family) xs)" for xs ts
    by (induction xs arbitrary: ts) (auto simp: add_interface_def)
  show ?thesis by (induction adapters arbitrary: ts) (auto simp: add_adapters_def one)
qed

text \<open>Both systems list the addresses of the family, in order, with the port of the agent;
  what the vector held before is gone.\<close>

lemma interfaces_listed:
  "fst (linux_interfaces_v4 (Some nodes) port ts) =
     map (v4_address_of port) (filter (\<lambda>a. sa_family a = AF_INET) (List.map_filter id nodes))"
  "fst (linux_interfaces_v6 (Some nodes) port ts) =
     map (v6_address_of port) (filter (\<lambda>a. sa_family a = AF_INET6) (List.map_filter id nodes))"
  "alloc w 1000 \<Longrightarrow> GetAdaptersAddresses w 0 1000 = NO_ERROR adapters \<Longrightarrow>
     windows_interfaces_v4 w port ts = (map (v4_address_of port) (filter (\<lambda>a. sa_family a = AF_INET) (concat adapters)), 0)"
  by (simp_all add: linux_interfaces_v4_def linux_interfaces_v6_def fold_add_interface
      windows_interfaces_v4_def windows_interfaces_def add_adapters_listed)

text \<open>When the system call fails, Linux frees a pointer that was never set; when the larger
  buffer cannot be had, Windows loses the first one.\<close>

lemma interfaces_failed:
  "linux_interfaces_v4 None port ts = ([], Inl Bad_Access)"
  "linux_interfaces_v6 None port ts = ([], Inl Bad_Access)"
  "alloc w 1000 \<Longrightarrow> GetAdaptersAddresses w 0 1000 = ERROR_BUFFER_OVERFLOW n \<Longrightarrow> \<not> alloc w n \<Longrightarrow>
     windows_interfaces_v6 w port ts = ([], 1)"
  by (simp_all add: linux_interfaces_v4_def linux_interfaces_v6_def windows_interfaces_v6_def windows_interfaces_def)

text \<open>A second run fails, but the addresses that the running server announces are replaced.\<close>

lemma discovery_run_again:
  "ds_running_cond s \<Longrightarrow> DiscoveryServer_run init port ts (s, e) = (False, s\<lparr>ds_transport_addresses := ts\<rparr>, e)"
  by (simp add: DiscoveryServer_run_def Let_def)

section \<open>The clock\<close>

text \<open>Exact until the seconds leave 31 bits, in January 2038; then negative.\<close>

lemma epoch_time_exact:
  assumes "0 \<le> t" and "t < 2 ^ 31 * 10 ^ 9"
  shows "sint (fst (get_epoch_time t)) * 10 ^ 9 + uint (snd (get_epoch_time t)) = t"
proof -
  have q: "0 \<le> t div 10 ^ 9" "t div 10 ^ 9 < 2 ^ 31"
    using assms by (auto simp: pos_imp_zdiv_nonneg_iff int_div_less_self div_less_iff_less_mult)
  have r: "0 \<le> t mod 10 ^ 9" "t mod 10 ^ 9 < 2 ^ 32"
    using pos_mod_bound [of "10 ^ 9" t] by auto
  then have "sint (word_of_int (t div 10 ^ 9) :: 32 word) = t div 10 ^ 9" "uint (word_of_int (t mod 10 ^ 9) :: u32) = t mod 10 ^ 9"
    using q by (simp_all add: signed_of_int unsigned_of_int signed_take_bit_int_eq_self take_bit_int_eq_self)
  then show ?thesis
    using assms q by (simp add: get_epoch_time_def signed_divide_int_def signed_modulo_int_def sgn_if)
qed

lemma epoch_time_2038: "sint (fst (get_epoch_time (2 ^ 31 * 10 ^ 9))) = - (2 ^ 31)"
  by (simp add: get_epoch_time_def signed_divide_int_def sgn_if)

end
