(* ===== verification/StreamFraming.thy ===== *)
theory StreamFraming
  imports Prelude
begin

text \<open>
  transport/stream_framing/StreamFramingProtocol.hpp: the framing of messages on a serial
  line.  The functions that read and write frames are compiled into the agent's library and
  are not in the repository; the header has their table of the 16-bit CRC, the flags and the
  states of the reader.  The table is compared with the CRC that it stands for.
\<close>

section \<open>The constants of the protocol\<close>

definition crc16_table :: "u16 list" where
  "crc16_table =
    [0x0000, 0xC0C1, 0xC181, 0x0140, 0xC301, 0x03C0, 0x0280, 0xC241,
     0xC601, 0x06C0, 0x0780, 0xC741, 0x0500, 0xC5C1, 0xC481, 0x0440,
     0xCC01, 0x0CC0, 0x0D80, 0xCD41, 0x0F00, 0xCFC1, 0xCE81, 0x0E40,
     0x0A00, 0xCAC1, 0xCB81, 0x0B40, 0xC901, 0x09C0, 0x0880, 0xC841,
     0xD801, 0x18C0, 0x1980, 0xD941, 0x1B00, 0xDBC1, 0xDA81, 0x1A40,
     0x1E00, 0xDEC1, 0xDF81, 0x1F40, 0xDD01, 0x1DC0, 0x1C80, 0xDC41,
     0x1400, 0xD4C1, 0xD581, 0x1540, 0xD701, 0x17C0, 0x1680, 0xD641,
     0xD201, 0x12C0, 0x1380, 0xD341, 0x1100, 0xD1C1, 0xD081, 0x1040,
     0xF001, 0x30C0, 0x3180, 0xF141, 0x3300, 0xF3C1, 0xF281, 0x3240,
     0x3600, 0xF6C1, 0xF781, 0x3740, 0xF501, 0x35C0, 0x3480, 0xF441,
     0x3C00, 0xFCC1, 0xFD81, 0x3D40, 0xFF01, 0x3FC0, 0x3E80, 0xFE41,
     0xFA01, 0x3AC0, 0x3B80, 0xFB41, 0x3900, 0xF9C1, 0xF881, 0x3840,
     0x2800, 0xE8C1, 0xE981, 0x2940, 0xEB01, 0x2BC0, 0x2A80, 0xEA41,
     0xEE01, 0x2EC0, 0x2F80, 0xEF41, 0x2D00, 0xEDC1, 0xEC81, 0x2C40,
     0xE401, 0x24C0, 0x2580, 0xE541, 0x2700, 0xE7C1, 0xE681, 0x2640,
     0x2200, 0xE2C1, 0xE381, 0x2340, 0xE101, 0x21C0, 0x2080, 0xE041,
     0xA001, 0x60C0, 0x6180, 0xA141, 0x6300, 0xA3C1, 0xA281, 0x6240,
     0x6600, 0xA6C1, 0xA781, 0x6740, 0xA501, 0x65C0, 0x6480, 0xA441,
     0x6C00, 0xACC1, 0xAD81, 0x6D40, 0xAF01, 0x6FC0, 0x6E80, 0xAE41,
     0xAA01, 0x6AC0, 0x6B80, 0xAB41, 0x6900, 0xA9C1, 0xA881, 0x6840,
     0x7800, 0xB8C1, 0xB981, 0x7940, 0xBB01, 0x7BC0, 0x7A80, 0xBA41,
     0xBE01, 0x7EC0, 0x7F80, 0xBF41, 0x7D00, 0xBDC1, 0xBC81, 0x7C40,
     0xB401, 0x74C0, 0x7580, 0xB541, 0x7700, 0xB7C1, 0xB681, 0x7640,
     0x7200, 0xB2C1, 0xB381, 0x7340, 0xB101, 0x71C0, 0x7080, 0xB041,
     0x5000, 0x90C1, 0x9181, 0x5140, 0x9301, 0x53C0, 0x5280, 0x9241,
     0x9601, 0x56C0, 0x5780, 0x9741, 0x5500, 0x95C1, 0x9481, 0x5440,
     0x9C01, 0x5CC0, 0x5D80, 0x9D41, 0x5F00, 0x9FC1, 0x9E81, 0x5E40,
     0x5A00, 0x9AC1, 0x9B81, 0x5B40, 0x9901, 0x59C0, 0x5880, 0x9841,
     0x8801, 0x48C0, 0x4980, 0x8941, 0x4B00, 0x8BC1, 0x8A81, 0x4A40,
     0x4E00, 0x8EC1, 0x8F81, 0x4F40, 0x8D01, 0x4DC0, 0x4C80, 0x8C41,
     0x4400, 0x84C1, 0x8581, 0x4540, 0x8701, 0x47C0, 0x4680, 0x8641,
     0x8201, 0x42C0, 0x4380, 0x8341, 0x4100, 0x81C1, 0x8081, 0x4040]"

definition framing_begin_flag :: u8 where "framing_begin_flag = 0x7E"
definition framing_esc_flag :: u8 where "framing_esc_flag = 0x7D"
definition framing_xor_flag :: u8 where "framing_xor_flag = 0x20"

datatype InputState =
    UXR_FRAMING_UNINITIALIZED
  | UXR_FRAMING_READING_SRC_ADDR
  | UXR_FRAMING_READING_DST_ADDR
  | UXR_FRAMING_READING_LEN_LSB
  | UXR_FRAMING_READING_LEN_MSB
  | UXR_FRAMING_READING_PAYLOAD
  | UXR_FRAMING_READING_CRC_LSB
  | UXR_FRAMING_READING_CRC_MSB

section \<open>The CRC, bit by bit\<close>

text \<open>CRC-16 with the polynomial 0x8005, lowest bit first: one bit shifted out, and eight.\<close>

definition crc_bit :: "u16 \<Rightarrow> u16" where
  "crc_bit r = (if r AND 1 = 0 then drop_bit 1 r else drop_bit 1 r XOR 0xA001)"

definition crc_byte :: "u16 \<Rightarrow> u16" where
  "crc_byte r = (crc_bit ^^ 8) r"

lemma funpow_8: "(f ^^ 8) x = f (f (f (f (f (f (f (f x)))))))"
  by (simp add: numeral_eq_Suc)

lemma crc_byte: "crc_byte r = crc_bit (crc_bit (crc_bit (crc_bit (crc_bit (crc_bit (crc_bit (crc_bit r)))))))"
  by (simp add: crc_byte_def funpow_8)

text \<open>The table in rows of 32 entries.\<close>

definition crc_row :: "nat \<Rightarrow> nat \<Rightarrow> u16 list" where
  "crc_row i j = map (\<lambda>n. crc_byte (of_nat n)) [i..<j]"

lemma crc_row_split: "i \<le> j \<Longrightarrow> j \<le> k \<Longrightarrow> crc_row i k = crc_row i j @ crc_row j k"
  using upt_add_eq_append [of i j "k - j"] by (simp add: crc_row_def)

lemma first_indices: "[0..<32] = 0 # 1 # [2..<32]"
  by code_simp

lemma crc_row_0: "crc_row 0 32 =
    [0x0000, 0xC0C1, 0xC181, 0x0140, 0xC301, 0x03C0, 0x0280, 0xC241,
     0xC601, 0x06C0, 0x0780, 0xC741, 0x0500, 0xC5C1, 0xC481, 0x0440,
     0xCC01, 0x0CC0, 0x0D80, 0xCD41, 0x0F00, 0xCFC1, 0xCE81, 0x0E40,
     0x0A00, 0xCAC1, 0xCB81, 0x0B40, 0xC901, 0x09C0, 0x0880, 0xC841]"
  by (simp add: crc_row_def first_indices, simp add: crc_byte crc_bit_def)

lemma crc_row_1: "crc_row 32 64 =
    [0xD801, 0x18C0, 0x1980, 0xD941, 0x1B00, 0xDBC1, 0xDA81, 0x1A40,
     0x1E00, 0xDEC1, 0xDF81, 0x1F40, 0xDD01, 0x1DC0, 0x1C80, 0xDC41,
     0x1400, 0xD4C1, 0xD581, 0x1540, 0xD701, 0x17C0, 0x1680, 0xD641,
     0xD201, 0x12C0, 0x1380, 0xD341, 0x1100, 0xD1C1, 0xD081, 0x1040]"
  by (simp add: crc_row_def, simp add: crc_byte crc_bit_def)

lemma crc_row_2: "crc_row 64 96 =
    [0xF001, 0x30C0, 0x3180, 0xF141, 0x3300, 0xF3C1, 0xF281, 0x3240,
     0x3600, 0xF6C1, 0xF781, 0x3740, 0xF501, 0x35C0, 0x3480, 0xF441,
     0x3C00, 0xFCC1, 0xFD81, 0x3D40, 0xFF01, 0x3FC0, 0x3E80, 0xFE41,
     0xFA01, 0x3AC0, 0x3B80, 0xFB41, 0x3900, 0xF9C1, 0xF881, 0x3840]"
  by (simp add: crc_row_def, simp add: crc_byte crc_bit_def)

lemma crc_row_3: "crc_row 96 128 =
    [0x2800, 0xE8C1, 0xE981, 0x2940, 0xEB01, 0x2BC0, 0x2A80, 0xEA41,
     0xEE01, 0x2EC0, 0x2F80, 0xEF41, 0x2D00, 0xEDC1, 0xEC81, 0x2C40,
     0xE401, 0x24C0, 0x2580, 0xE541, 0x2700, 0xE7C1, 0xE681, 0x2640,
     0x2200, 0xE2C1, 0xE381, 0x2340, 0xE101, 0x21C0, 0x2080, 0xE041]"
  by (simp add: crc_row_def, simp add: crc_byte crc_bit_def)

lemma crc_row_4: "crc_row 128 160 =
    [0xA001, 0x60C0, 0x6180, 0xA141, 0x6300, 0xA3C1, 0xA281, 0x6240,
     0x6600, 0xA6C1, 0xA781, 0x6740, 0xA501, 0x65C0, 0x6480, 0xA441,
     0x6C00, 0xACC1, 0xAD81, 0x6D40, 0xAF01, 0x6FC0, 0x6E80, 0xAE41,
     0xAA01, 0x6AC0, 0x6B80, 0xAB41, 0x6900, 0xA9C1, 0xA881, 0x6840]"
  by (simp add: crc_row_def, simp add: crc_byte crc_bit_def)

lemma crc_row_5: "crc_row 160 192 =
    [0x7800, 0xB8C1, 0xB981, 0x7940, 0xBB01, 0x7BC0, 0x7A80, 0xBA41,
     0xBE01, 0x7EC0, 0x7F80, 0xBF41, 0x7D00, 0xBDC1, 0xBC81, 0x7C40,
     0xB401, 0x74C0, 0x7580, 0xB541, 0x7700, 0xB7C1, 0xB681, 0x7640,
     0x7200, 0xB2C1, 0xB381, 0x7340, 0xB101, 0x71C0, 0x7080, 0xB041]"
  by (simp add: crc_row_def, simp add: crc_byte crc_bit_def)

lemma crc_row_6: "crc_row 192 224 =
    [0x5000, 0x90C1, 0x9181, 0x5140, 0x9301, 0x53C0, 0x5280, 0x9241,
     0x9601, 0x56C0, 0x5780, 0x9741, 0x5500, 0x95C1, 0x9481, 0x5440,
     0x9C01, 0x5CC0, 0x5D80, 0x9D41, 0x5F00, 0x9FC1, 0x9E81, 0x5E40,
     0x5A00, 0x9AC1, 0x9B81, 0x5B40, 0x9901, 0x59C0, 0x5880, 0x9841]"
  by (simp add: crc_row_def, simp add: crc_byte crc_bit_def)

lemma crc_row_7: "crc_row 224 256 =
    [0x8801, 0x48C0, 0x4980, 0x8941, 0x4B00, 0x8BC1, 0x8A81, 0x4A40,
     0x4E00, 0x8EC1, 0x8F81, 0x4F40, 0x8D01, 0x4DC0, 0x4C80, 0x8C41,
     0x4400, 0x84C1, 0x8581, 0x4540, 0x8701, 0x47C0, 0x4680, 0x8641,
     0x8201, 0x42C0, 0x4380, 0x8341, 0x4100, 0x81C1, 0x8081, 0x4040]"
  by (simp add: crc_row_def, simp add: crc_byte crc_bit_def)

lemma crc_table_row: "crc16_table = crc_row 0 256"
proof -
  have "crc_row 0 256 = crc_row 0 32 @ crc_row 32 64 @ crc_row 64 96 @ crc_row 96 128 @
      crc_row 128 160 @ crc_row 160 192 @ crc_row 192 224 @ crc_row 224 256"
    using crc_row_split [of 0 32 256] crc_row_split [of 32 64 256] crc_row_split [of 64 96 256]
      crc_row_split [of 96 128 256] crc_row_split [of 128 160 256] crc_row_split [of 160 192 256]
      crc_row_split [of 192 224 256] by simp
  then show ?thesis
    by (simp only: crc16_table_def crc_row_0 crc_row_1 crc_row_2 crc_row_3 crc_row_4 crc_row_5 crc_row_6 crc_row_7
        append_Cons append_Nil)
qed

section \<open>The CRC is linear\<close>

lemma crc_bit_xor: "crc_bit (a XOR b) = crc_bit a XOR crc_bit b"
  by (auto simp: crc_bit_def and_one_eq even_xor_iff drop_bit_xor xor.assoc xor.left_commute xor.commute simp flip: even_iff_mod_2_eq_zero)

lemma crc_byte_xor: "crc_byte (a XOR b) = crc_byte a XOR crc_byte b"
  by (simp add: crc_byte crc_bit_xor)

lemma crc_bit_zero: "\<not> bit r 0 \<Longrightarrow> crc_bit r = drop_bit 1 r"
  by (simp add: crc_bit_def and_one_eq bit_0 even_iff_mod_2_eq_zero)

lemma crc_byte_high:
  assumes "\<And>i. i < 8 \<Longrightarrow> \<not> bit r i"
  shows "crc_byte r = drop_bit 8 r"
proof -
  have "crc_bit (drop_bit k r) = drop_bit (Suc k) r" if "k < 8" for k
    using crc_bit_zero [of "drop_bit k r"] assms [OF that] by (simp add: bit_drop_bit_eq)
  from this [of 0] this [of 1] this [of 2] this [of 3] this [of 4] this [of 5] this [of 6] this [of 7]
  show ?thesis by (simp add: crc_byte numeral_eq_Suc)
qed

text \<open>The table of the serial framing holds what it is meant to hold: entry n is the
  remainder of the byte n under the CRC-16 with the polynomial 0x8005 (bits reversed), shifted
  bit by bit; so the usual byte-wise update with the table, of a CRC with a byte, is the
  bitwise one.\<close>

theorem crc_table:
  "length crc16_table = 256 \<and> (\<forall>b :: u8. crc16_table ! unat b = crc_byte (ucast b)) \<and>
   (\<forall>(crc :: u16) (b :: u8). drop_bit 8 crc XOR crc16_table ! unat (ucast crc XOR b) = crc_byte (crc XOR ucast b))"
proof -
  have entry: "crc16_table ! unat b = crc_byte (ucast b)" for b :: u8
    using unsigned_less [of b, where 'a = nat]
    by (simp add: crc_table_row crc_row_def del: upt_rec_numeral)
  have "drop_bit 8 crc XOR crc16_table ! unat (ucast crc XOR b) = crc_byte (crc XOR ucast b)" for crc :: u16 and b :: u8
  proof -
    let ?high = "push_bit 8 (drop_bit 8 crc)"
    have "crc XOR ucast b = ?high XOR ucast (ucast crc XOR b)"
      by (rule bit_word_eqI) (auto simp: bit_xor_iff bit_push_bit_iff bit_drop_bit_eq bit_ucast_iff dest: bit_imp_le_length)
    moreover have "crc_byte ?high = drop_bit 8 crc"
    proof -
      have "crc_byte ?high = drop_bit 8 ?high" by (rule crc_byte_high) (simp add: bit_push_bit_iff)
      also have "\<dots> = drop_bit 8 crc"
        using bit_imp_le_length [of crc "8 + n" for n]
        by (intro bit_word_eqI) (fastforce simp: bit_push_bit_iff bit_drop_bit_eq)
      finally show ?thesis .
    qed
    ultimately show ?thesis by (simp add: crc_byte_xor entry)
  qed
  with entry show ?thesis by (simp add: crc16_table_def)
qed

end
