(* ===== verification/TokenBucket.thy ===== *)
theory TokenBucket
  imports Prelude "HOL-Library.Signed_Division"
begin

text \<open>
  utils/TokenBucket.hpp: the limit on the bytes that a reader passes on.  The bucket holds at
  most capacity tokens and gains rate of them in a second.

  Times are the counts of std::chrono on the platform: a time point is an int64_t of
  nanoseconds since the clock started, a duration an int64_t of milliseconds; size_t and
  uint64_t have 64 bits.  The clock and sleep_until are the parameter clock_lib, which works
  on a state of the environment; what the standard promises of them is steady_clock.
\<close>

section \<open>Time\<close>

definition chk64 :: "int \<Rightarrow> int res" where
  "chk64 n = (if - (2 ^ 63) \<le> n \<and> n < 2 ^ 63 then Inr n else Inl Signed_Overflow)"

lemma chk64_eq_Inr [simp]: "chk64 n = Inr m \<longleftrightarrow> m = n \<and> - (2 ^ 63) \<le> n \<and> n < 2 ^ 63"
  by (auto simp: chk64_def)

record 'e clock_lib =
  steady_now :: "'e \<Rightarrow> int \<times> 'e"
  sleep_until :: "int \<Rightarrow> 'e \<Rightarrow> 'e"

text \<open>
  steady_clock does not go back, and sleep_until returns at or after its time; time is a
  reading that the clock could give in a state.
\<close>

definition steady_clock :: "('e, 'x) clock_lib_scheme \<Rightarrow> ('e \<Rightarrow> int) \<Rightarrow> bool" where
  "steady_clock L time \<longleftrightarrow>
     (\<forall>e t e'. steady_now L e = (t, e') \<longrightarrow> time e \<le> t \<and> t \<le> time e') \<and>
     (\<forall>e t. time e \<le> time (sleep_until L t e) \<and> t \<le> time (sleep_until L t e))"

text \<open>Milliseconds from one time point to another, towards zero.\<close>

definition milliseconds_between :: "int \<Rightarrow> int \<Rightarrow> int res" where
  "milliseconds_between from to = bind_res (chk64 (to - from)) (\<lambda>ns. Inr (ns sdiv 1000000))"

section \<open>The bucket\<close>

record TokenBucket =
  tb_rate :: u64
  tb_capacity :: u64
  tb_tokens :: u64
  tb_timestamp :: int

definition new_TokenBucket :: "('e, 'x) clock_lib_scheme \<Rightarrow> u64 \<Rightarrow> u64 \<Rightarrow> 'e \<Rightarrow> TokenBucket \<times> 'e" where
  "new_TokenBucket L rate capacity e =
     (let capacity = (if capacity = 0 then rate else capacity); (now, e) = steady_now L e
      in (\<lparr>tb_rate = rate, tb_capacity = capacity, tb_tokens = capacity, tb_timestamp = now\<rparr>, e))"

text \<open>The tokens after some milliseconds, as unsigned numbers that wrap.\<close>

definition refilled :: "TokenBucket \<Rightarrow> int \<Rightarrow> u64" where
  "refilled b ms = min (tb_capacity b) (tb_tokens b + (tb_rate b * word_of_int ms) div 1000)"

text \<open>How long a call waits: until the missing tokens are there, but no longer than its timeout.\<close>

definition wait_time :: "TokenBucket \<Rightarrow> u64 \<Rightarrow> int \<Rightarrow> int" where
  "wait_time b required_tokens timeout =
     min (sint ((1000 * (tb_tokens b - required_tokens)) div tb_rate b)) timeout"

definition consume_tokens :: "('e, 'x) clock_lib_scheme \<Rightarrow> u64 \<Rightarrow> int \<Rightarrow> 'e \<times> TokenBucket \<Rightarrow>
    (bool \<times> 'e \<times> TokenBucket) res" where
  "consume_tokens L required_tokens timeout eb = (case eb of (e, b) \<Rightarrow>
     if required_tokens > tb_capacity b then Inr (False, e, b)
     else
       let (init_time, e) = steady_now L e in
       bind_res (milliseconds_between (tb_timestamp b) init_time) (\<lambda>ms.
       let current_tokens = refilled b ms in
       if current_tokens < required_tokens then
         if tb_rate b = 0 then Inl Division_By_Zero
         else
           bind_res (chk64 (1000000 * wait_time b required_tokens timeout)) (\<lambda>wait.
           bind_res (chk64 (init_time + wait)) (\<lambda>final_time.
           bind_res (milliseconds_between (tb_timestamp b) final_time) (\<lambda>ms.
           let expected_tokens = refilled b ms;
               (rv, b) = (if expected_tokens \<ge> required_tokens
                 then (True, b\<lparr>tb_tokens := expected_tokens - required_tokens, tb_timestamp := final_time\<rparr>)
                 else (False, b))
           in Inr (rv, sleep_until L final_time e, b))))
       else Inr (True, e, b\<lparr>tb_tokens := current_tokens - required_tokens, tb_timestamp := init_time\<rparr>)))"

lemma refilled_le: "refilled b ms \<le> tb_capacity b"
  by (simp add: refilled_def)

section \<open>A bucket without overflow\<close>

text \<open>
  The readers make a bucket with the rate as its capacity, and their rates are uint16_t
  numbers.  A rate of 1 is left out: there the wait comes out negative.
\<close>

definition bucket_ok :: "nat \<Rightarrow> TokenBucket \<Rightarrow> bool" where
  "bucket_ok rate b \<longleftrightarrow> 2 \<le> rate \<and> rate < 2 ^ 16 \<and> unat (tb_rate b) = rate \<and> unat (tb_capacity b) = rate \<and>
     unat (tb_tokens b) \<le> rate \<and> 0 \<le> tb_timestamp b"

lemma unat_refilled:
  assumes "bucket_ok rate b" "0 \<le> ms" "ms < 2 ^ 44"
  shows "unat (refilled b ms) = min rate (unat (tb_tokens b) + rate * nat ms div 1000)"
proof -
  have b: "rate < 2 ^ 16" "unat (tb_rate b) = rate" "unat (tb_tokens b) \<le> rate"
    using assms(1) by (auto simp: bucket_ok_def)
  have ms: "unat (word_of_int ms :: u64) = nat ms"
    using assms(2,3) by (simp add: unat_eq_nat_uint uint_word_of_int_eq take_bit_int_eq_self)
  have "rate * nat ms < 2 ^ 16 * 2 ^ 44"
    using b(1) assms(2,3) by (intro mult_strict_mono) auto
  then have prod: "unat (tb_rate b * word_of_int ms) = rate * nat ms"
    using b(2) ms by (simp add: unat_word_ariths)
  have "rate * nat ms div 1000 < 2 ^ 60"
    using \<open>rate * nat ms < 2 ^ 16 * 2 ^ 44\<close> by (simp add: div_less_mono div_le_dividend order_le_less_trans)
  then have "unat (tb_tokens b + (tb_rate b * word_of_int ms) div 1000) = unat (tb_tokens b) + rate * nat ms div 1000"
    using b prod by (simp add: unat_word_ariths unat_div_distrib)
  then show ?thesis
    using assms(1) unfolding refilled_def min_def word_le_nat_alt by (simp add: bucket_ok_def)
qed

lemma sint_of_unat: "unat (w :: u64) < 2 ^ 63 \<Longrightarrow> sint w = int (unat w)"
proof -
  assume "unat w < 2 ^ 63"
  then have "int (unat w) < int (2 ^ 63)" by (rule of_nat_less_iff [THEN iffD2])
  then have "uint w < 2 ^ 63" by simp
  moreover have "sint w = signed_take_bit 63 (uint w)" by (simp add: sint_uint)
  ultimately have "sint w = uint w"
    using uint_ge_0 [of w] by (simp add: signed_take_bit_int_eq_self)
  then show ?thesis by simp
qed

text \<open>The wait: the missing tokens are counted with the wrong sign, so the timeout is always shorter.\<close>

lemma missing_wraps:
  assumes "bucket_ok rate b" "tb_tokens b < req" "req \<le> tb_capacity b"
  shows "2 ^ 47 \<le> sint ((1000 * (tb_tokens b - req)) div tb_rate b)"
proof -
  let ?d = "unat req - unat (tb_tokens b)"
  have b: "2 \<le> rate" "rate < 2 ^ 16" "unat (tb_rate b) = rate" "unat (tb_capacity b) = rate"
    using assms(1) by (auto simp: bucket_ok_def)
  have d: "0 < ?d" "?d < 2 ^ 16"
    using assms(2,3) b by (auto simp: word_less_nat_alt word_le_nat_alt)
  have "tb_tokens b - req = - of_nat ?d"
    using assms(2) by (simp add: of_nat_diff word_less_nat_alt)
  then have "1000 * (tb_tokens b - req) = - of_nat (1000 * ?d)"
    by (simp only: of_nat_mult of_nat_numeral mult_minus_right)
  also have "\<dots> = of_nat (2 ^ 64 - 1000 * ?d)"
    using d by (simp add: of_nat_diff)
  finally have "1000 * (tb_tokens b - req) = of_nat (2 ^ 64 - 1000 * ?d)" .
  moreover have "unat (of_nat (2 ^ 64 - 1000 * ?d) :: u64) = 2 ^ 64 - 1000 * ?d"
    using d by (simp only: unat_of_nat) (simp add: take_bit_nat_eq_self)
  ultimately have q: "unat ((1000 * (tb_tokens b - req)) div tb_rate b) = (2 ^ 64 - 1000 * ?d) div rate"
    using b(3) by (simp add: unat_div_distrib)
  have "(2 ^ 64 - 1000 * ?d) div rate \<le> (2 ^ 64 - 1000 * ?d) div 2"
    using b(1) by (intro div_le_mono2) auto
  then have u: "(2 ^ 64 - 1000 * ?d) div rate < 2 ^ 63" using d by simp
  have "2 ^ 47 * rate \<le> 2 ^ 47 * (2 ^ 16 :: nat)" using b(2) by (intro mult_left_mono) auto
  also have "\<dots> \<le> 2 ^ 64 - 1000 * ?d" using d(2) by simp
  finally have l: "2 ^ 47 \<le> (2 ^ 64 - 1000 * ?d) div rate"
    using b(1) by (simp add: less_eq_div_iff_mult_less_eq)
  have "sint ((1000 * (tb_tokens b - req)) div tb_rate b) = int ((2 ^ 64 - 1000 * ?d) div rate)"
    using sint_of_unat [of "(1000 * (tb_tokens b - req)) div tb_rate b"] u unfolding q by blast
  moreover have "int (2 ^ 47) \<le> int ((2 ^ 64 - 1000 * ?d) div rate)"
    using l by (rule of_nat_mono)
  ultimately show ?thesis by simp
qed

section \<open>The rate is kept\<close>

lemma milliseconds_forward:
  assumes "0 \<le> from" "from \<le> to" "to < 2 ^ 62"
  shows "milliseconds_between from to = Inr ((to - from) div 1000000)"
  using assms by (simp add: milliseconds_between_def chk64_def signed_divide_int_def sgn_if)

lemma milliseconds_bound: "0 \<le> d \<Longrightarrow> d < 2 ^ 62 \<Longrightarrow> 0 \<le> d div 1000000 \<and> d div 1000000 < (2 ^ 44 :: int)"
proof -
  assume "0 \<le> d" "d < 2 ^ 62"
  moreover have "1000000 * (d div 1000000) \<le> d" by simp
  ultimately show ?thesis by (simp add: pos_imp_zdiv_nonneg_iff)
qed

text \<open>What a bucket gains in an interval, in billionths of a token.\<close>

lemma refill_gain:
  assumes "bucket_ok rate b" "0 \<le> d" "d < 2 ^ 62"
  shows "1000000000 * int (unat (refilled b (d div 1000000))) \<le> 1000000000 * int (unat (tb_tokens b)) + int rate * d"
proof -
  have ms: "0 \<le> d div 1000000" "d div 1000000 < 2 ^ 44"
    using milliseconds_bound [OF assms(2,3)] by auto
  have "int (rate * nat (d div 1000000) div 1000) = int rate * (d div 1000000) div 1000"
    using ms(1) by (simp add: zdiv_int)
  then have "1000 * int (rate * nat (d div 1000000) div 1000) \<le> int rate * (d div 1000000)" by simp
  then have "1000000000 * int (rate * nat (d div 1000000) div 1000) \<le> int rate * (1000000 * (d div 1000000))" by simp
  also have "\<dots> \<le> int rate * d"
    by (intro mult_left_mono) auto
  finally have "1000000000 * int (rate * nat (d div 1000000) div 1000) \<le> int rate * d" .
  moreover have "unat (refilled b (d div 1000000)) \<le> unat (tb_tokens b) + rate * nat (d div 1000000) div 1000"
    using unat_refilled [OF assms(1) ms] by simp
  then have "int (unat (refilled b (d div 1000000))) \<le>
      int (unat (tb_tokens b)) + int (rate * nat (d div 1000000) div 1000)"
    by (simp only: of_nat_add flip: of_nat_le_iff)
  ultimately show ?thesis by linarith
qed

text \<open>Taking tokens at a time, from the tokens that are there at that time.\<close>

lemma take_tokens:
  assumes "bucket_ok rate b" "tb_timestamp b \<le> t" "t < 2 ^ 62" "req \<le> refilled b ((t - tb_timestamp b) div 1000000)"
  defines "b' \<equiv> b\<lparr>tb_tokens := refilled b ((t - tb_timestamp b) div 1000000) - req, tb_timestamp := t\<rparr>"
  shows "bucket_ok rate b' \<and> 1000000000 * (int (unat (tb_tokens b')) + int (unat req)) \<le>
    1000000000 * int (unat (tb_tokens b)) + int rate * (t - tb_timestamp b)"
proof -
  have d: "0 \<le> t - tb_timestamp b" "t - tb_timestamp b < 2 ^ 62" "0 \<le> t"
    using assms(1-3) by (auto simp: bucket_ok_def)
  have "unat (refilled b ((t - tb_timestamp b) div 1000000) - req) =
      unat (refilled b ((t - tb_timestamp b) div 1000000)) - unat req"
    using assms(4) by (simp add: unat_sub)
  moreover have "unat (refilled b ((t - tb_timestamp b) div 1000000)) \<le> rate"
    using refilled_le [of b] assms(1) by (auto simp: bucket_ok_def word_le_nat_alt)
  moreover have "unat req \<le> unat (refilled b ((t - tb_timestamp b) div 1000000))"
    using assms(4) by (simp add: word_le_nat_alt)
  ultimately show ?thesis
    using refill_gain [OF assms(1) d(1,2)] assms(1) d(3) by (auto simp: b'_def bucket_ok_def of_nat_diff)
qed

lemma consume_time:
  assumes "steady_clock L time" "consume_tokens L req timeout (e, b) = Inr (rv, e', b')"
  shows "time e \<le> time e'"
proof -
  obtain now e1 where now: "steady_now L e = (now, e1)" by fastforce
  have sleeps: "time e1 \<le> time (sleep_until L d e1)" for d
    using assms(1) by (auto simp: steady_clock_def)
  have "time e \<le> time e1"
    using assms(1) now by (fastforce simp: steady_clock_def)
  moreover have "e' = e \<or> time e1 \<le> time e'"
    using assms(2) now sleeps by (auto simp: consume_tokens_def Let_def split: if_splits)
  ultimately show ?thesis by auto
qed

lemma consume_capacity:
  "consume_tokens L req timeout (e, b) = Inr (rv, e', b') \<Longrightarrow> tb_capacity b' = tb_capacity b"
  by (auto simp: consume_tokens_def Let_def split: if_splits prod.splits)

lemma consume_step:
  assumes "steady_clock L time" "bucket_ok rate b" "tb_timestamp b \<le> time e" "0 \<le> timeout"
    "consume_tokens L req timeout (e, b) = Inr (rv, e', b')" "time e' < 2 ^ 62"
  shows "bucket_ok rate b' \<and> time e \<le> time e' \<and> tb_timestamp b \<le> tb_timestamp b' \<and> tb_timestamp b' \<le> time e' \<and>
    1000000000 * (int (unat (tb_tokens b')) + (if rv then int (unat req) else 0)) \<le>
      1000000000 * int (unat (tb_tokens b)) + int rate * (tb_timestamp b' - tb_timestamp b)"
proof (cases "req > tb_capacity b")
  case True
  then show ?thesis using assms by (auto simp: consume_tokens_def)
next
  case fits: False
  obtain now e1 where now: "steady_now L e = (now, e1)" by fastforce
  then have t: "time e \<le> now" "now \<le> time e1" "0 \<le> tb_timestamp b"
    using assms(1,2) by (auto simp: steady_clock_def bucket_ok_def)
  have sleeps: "time e1 \<le> time (sleep_until L d e1)" "d \<le> time (sleep_until L d e1)" for d
    using assms(1) by (auto simp: steady_clock_def)
  have run: "consume_tokens L req timeout (e, b) = Inr (rv, e', b')" by fact
  have "time e1 \<le> time e'"
    using run fits now sleeps(1) by (auto simp: consume_tokens_def Let_def split: if_splits)
  then have "now < 2 ^ 62" using t(2) assms(6) by linarith
  then have ms: "milliseconds_between (tb_timestamp b) now = Inr ((now - tb_timestamp b) div 1000000)"
    using t assms(3) by (intro milliseconds_forward) auto
  show ?thesis
  proof (cases "refilled b ((now - tb_timestamp b) div 1000000) < req")
    case False
    then have "rv" "e' = e1" "b' = b\<lparr>tb_tokens := refilled b ((now - tb_timestamp b) div 1000000) - req, tb_timestamp := now\<rparr>"
      using run fits now ms by (auto simp: consume_tokens_def Let_def)
    then show ?thesis
      using take_tokens [OF assms(2), of now req] False t assms(3) \<open>now < 2 ^ 62\<close> by auto
  next
    case True
    obtain w where w: "w = wait_time b req timeout" by blast
    have e': "e' = sleep_until L (now + 1000000 * w) e1"
      using run fits now ms True by (auto simp: consume_tokens_def Let_def w split: if_splits)
    have tokens: "tb_tokens b < req"
    proof (rule ccontr)
      assume "\<not> tb_tokens b < req"
      then have "unat req \<le> unat (tb_tokens b)" by (simp add: word_le_nat_alt not_less)
      moreover have "unat req \<le> rate"
        using fits assms(2) by (simp add: bucket_ok_def word_le_nat_alt not_less)
      moreover have "unat (refilled b ((now - tb_timestamp b) div 1000000)) < unat req"
        using True by (simp add: word_less_nat_alt)
      moreover have "0 \<le> (now - tb_timestamp b) div 1000000" "(now - tb_timestamp b) div 1000000 < 2 ^ 44"
        using milliseconds_bound [of "now - tb_timestamp b"] t assms(3) \<open>now < 2 ^ 62\<close> by auto
      ultimately show False
        using unat_refilled [OF assms(2), of "(now - tb_timestamp b) div 1000000"] by simp
    qed
    then have "0 \<le> w"
      using missing_wraps [OF assms(2) tokens] fits assms(4) unfolding w wait_time_def not_less by (smt (verit) zero_le_power)
    then have final: "tb_timestamp b \<le> now + 1000000 * w" "now + 1000000 * w < 2 ^ 62"
      using t assms(3,6) sleeps [of "now + 1000000 * w"] e' by auto
    have ms': "milliseconds_between (tb_timestamp b) (now + 1000000 * w) =
        Inr ((now + 1000000 * w - tb_timestamp b) div 1000000)"
      using final t by (intro milliseconds_forward) auto
    have "rv \<and> req \<le> refilled b ((now + 1000000 * w - tb_timestamp b) div 1000000) \<and>
        b' = b\<lparr>tb_tokens := refilled b ((now + 1000000 * w - tb_timestamp b) div 1000000) - req,
          tb_timestamp := now + 1000000 * w\<rparr> \<or> \<not> rv \<and> b' = b"
      using run fits now ms True ms' by (auto simp: consume_tokens_def Let_def w [symmetric] split: if_splits)
    then show ?thesis
      using take_tokens [OF assms(2) final, of req] final sleeps [of "now + 1000000 * w"] t assms(2,3) e' by auto
  qed
qed

section \<open>What the wrong sign does\<close>

text \<open>A call that has to wait always waits for its whole timeout, however few tokens are missing.\<close>

lemma wait_is_timeout:
  assumes "bucket_ok rate b" "tb_tokens b < req" "req \<le> tb_capacity b" "timeout \<le> 2 ^ 47"
  shows "wait_time b req timeout = timeout"
  using missing_wraps [OF assms(1-3)] assms(4) by (simp add: wait_time_def)

text \<open>
  With a rate of 1 the number of missing milliseconds is the negative number -1000: the call
  looks at a time before now, where the elapsed milliseconds wrap to a huge number, and
  gives out a token that is not there, at once.
\<close>

lemma rate_one_is_no_limit:
  assumes "steady_now L e = (t, e')" "2000000000 \<le> t" "t < 2 ^ 62"
  shows "consume_tokens L 1 100 (e, \<lparr>tb_rate = 1, tb_capacity = 1, tb_tokens = 0, tb_timestamp = t\<rparr>) =
    Inr (True, sleep_until L (t - 1000000000) e',
      \<lparr>tb_rate = 1, tb_capacity = 1, tb_tokens = 0, tb_timestamp = t - 1000000000\<rparr>)"
proof -
  have "sint ((1000 * ((0 :: u64) - 1)) div 1) = - 1000" by simp
  then have w: "wait_time \<lparr>tb_rate = 1, tb_capacity = 1, tb_tokens = 0, tb_timestamp = t\<rparr> 1 100 = - 1000"
    by (simp add: wait_time_def)
  have r: "refilled \<lparr>tb_rate = 1, tb_capacity = 1, tb_tokens = 0, tb_timestamp = t\<rparr> 0 = 0"
    "refilled \<lparr>tb_rate = 1, tb_capacity = 1, tb_tokens = 0, tb_timestamp = t\<rparr> (- 1000) = 1"
    by (simp_all add: refilled_def min_def)
  show ?thesis
    using assms by (simp add: consume_tokens_def milliseconds_between_def chk64_def w r)
qed

end
