(* ===== verification/Reader.thy ===== *)
theory Reader
  imports TokenBucket
begin

text \<open>
  reader/Reader.hpp: a task that takes samples from a data reader of the middleware and
  writes them to a client, within the limits that the client asked for: a number of
  samples, a time, and a number of bytes in a second.

  read_task is a machine with one point for each test of its four nested loops; what it
  calls (read_fn, write_fn, the atomic running_cond_ that stop_reading clears, the clock) is
  the parameter reader_lib over a state of the environment, so a run is any run with any
  middleware, client and caller.
\<close>

section \<open>The reader\<close>

record DataDeliveryControl =
  max_samples :: u16
  max_elapsed_time :: u16
  max_bytes_per_second :: u16
  min_pace_period :: u16

definition rw_timeout :: u8 where "rw_timeout = 100"
definition max_samples_unlimited :: u16 where "max_samples_unlimited = 0xFFFF"
definition max_elapsed_time_unlimited :: u16 where "max_elapsed_time_unlimited = 0"
definition max_bytes_per_second_unlimited :: u16 where "max_bytes_per_second_unlimited = 0"
definition SIZE_MAX :: u64 where "SIZE_MAX = - 1"

lemmas reader_consts = rw_timeout_def max_samples_unlimited_def max_elapsed_time_unlimited_def
  max_bytes_per_second_unlimited_def SIZE_MAX_def

text \<open>
  The state of the object: running_cond_ has no initialiser, so a new reader has any value
  of it.  joinable is thread_.joinable(); the arguments are kept for the task.
\<close>

record ('r, 'w) Reader =
  delivery_control :: DataDeliveryControl
  read_args :: 'r
  write_args :: 'w
  running_cond :: bool
  joinable :: bool

definition new_Reader :: "bool \<Rightarrow> DataDeliveryControl \<Rightarrow> 'r \<Rightarrow> 'w \<Rightarrow> ('r, 'w) Reader" where
  "new_Reader indeterminate dc ra wa =
     \<lparr>delivery_control = dc, read_args = ra, write_args = wa, running_cond = indeterminate, joinable = False\<rparr>"

text \<open>Assigning to a thread that is joinable calls std::terminate.\<close>

definition start_reading :: "DataDeliveryControl \<Rightarrow> 'r \<Rightarrow> 'w \<Rightarrow> ('r, 'w) Reader \<Rightarrow> (bool \<times> ('r, 'w) Reader) res" where
  "start_reading dc ra wa s =
     (if \<not> running_cond s then
        if joinable s then Inl Terminated
        else Inr (True, s\<lparr>delivery_control := dc, read_args := ra, write_args := wa,
          running_cond := True, joinable := True\<rparr>)
      else Inr (False, s))"

text \<open>join returns when the task has seen that running_cond_ is false.\<close>

definition stop_reading :: "('r, 'w) Reader \<Rightarrow> bool \<times> ('r, 'w) Reader" where
  "stop_reading s =
     (if running_cond s then
        let s = s\<lparr>running_cond := False\<rparr>
        in if joinable s then (True, s\<lparr>joinable := False\<rparr>) else (False, s)
      else (True, s))"

section \<open>The task\<close>

record 'e reader_lib = "'e clock_lib" +
  running :: "'e \<Rightarrow> bool \<times> 'e"
  read_fn :: "u8 list \<Rightarrow> int \<Rightarrow> 'e \<Rightarrow> (bool \<times> u8 list) \<times> 'e"
  write_fn :: "u8 list \<Rightarrow> int \<Rightarrow> 'e \<Rightarrow> bool \<times> 'e"

datatype task_pc = While_Test | Consume | Write | Retry_Test | Stop_Test | Finished

text \<open>The local variables of read_task; written is what write_fn has taken so far.\<close>

record 'e read_task =
  task_pc :: task_pc
  env :: 'e
  token_bucket :: TokenBucket
  stop_cond :: bool
  message_count :: u16
  data :: "u8 list"
  timeout :: int
  final_time :: int
  written :: "u8 list list"

definition reader_rate :: "DataDeliveryControl \<Rightarrow> u64" where
  "reader_rate dc = (if max_bytes_per_second_unlimited = max_bytes_per_second dc then SIZE_MAX
     else ucast (max_bytes_per_second dc))"

definition time_point_max :: int where "time_point_max = 2 ^ 63 - 1"

definition start_task :: "('e, 'x) clock_lib_scheme \<Rightarrow> DataDeliveryControl \<Rightarrow> 'e \<Rightarrow> 'e read_task res" where
  "start_task L dc e =
     (let (b, e) = new_TokenBucket L (reader_rate dc) 0 e; (init_time, e) = steady_now L e in
      bind_res (if max_elapsed_time_unlimited = max_elapsed_time dc then Inr time_point_max
                else chk64 (init_time + 1000000000 * uint (max_elapsed_time dc))) (\<lambda>deadline.
        Inr \<lparr>task_pc = While_Test, env = e, token_bucket = b, stop_cond = False, message_count = 0,
             data = [], timeout = 0, final_time = deadline, written = []\<rparr>))"

text \<open>The timeout of the next call: what is left of the time, at most rw_timeout milliseconds.\<close>

definition next_timeout :: "('e, 'x) clock_lib_scheme \<Rightarrow> int \<Rightarrow> 'e \<Rightarrow> (int \<times> 'e) res" where
  "next_timeout L deadline e = (let (now, e) = steady_now L e in
     bind_res (milliseconds_between now deadline) (\<lambda>left. Inr (min (uint rw_timeout) left, e)))"

definition task_step :: "'e reader_lib \<Rightarrow> DataDeliveryControl \<Rightarrow> 'e read_task \<Rightarrow> 'e read_task res" where
  "task_step L dc s = (case task_pc s of
     While_Test \<Rightarrow>
       let (r, e) = running L (env s) in
       if r \<and> \<not> stop_cond s then
         bind_res (next_timeout L (final_time s) e) (\<lambda>(t, e).
         let ((ok, d), e) = read_fn L (data s) t e in
         Inr (s\<lparr>task_pc := if ok then Consume else Stop_Test, env := e, data := d, timeout := t\<rparr>))
       else Inr (s\<lparr>task_pc := Finished, env := e\<rparr>)
   | Consume \<Rightarrow>
       bind_res (consume_tokens L (of_nat (length (data s))) (timeout s) (env s, token_bucket s)) (\<lambda>(rv, e, b).
       Inr (s\<lparr>task_pc := if rv then Write else Retry_Test, env := e, token_bucket := b\<rparr>))
   | Write \<Rightarrow>
       bind_res (next_timeout L (final_time s) (env s)) (\<lambda>(t, e).
       let (pushed, e) = write_fn L (data s) t e; (r, e) = running L e in
       Inr (if pushed then s\<lparr>task_pc := Stop_Test, env := snd (running L e), timeout := t,
              message_count := message_count s + 1, written := written s @ [data s]\<rparr>
            else if r then s\<lparr>env := e, timeout := t\<rparr>
            else s\<lparr>task_pc := Retry_Test, env := e, timeout := t\<rparr>))
   | Retry_Test \<Rightarrow>
       let (r, e) = running L (env s) in
       Inr (s\<lparr>task_pc := if r then Consume else Stop_Test, env := e\<rparr>)
   | Stop_Test \<Rightarrow>
       if max_samples_unlimited \<noteq> max_samples dc \<and> message_count s = max_samples dc
       then Inr (s\<lparr>task_pc := While_Test, stop_cond := True\<rparr>)
       else let (now, e) = steady_now L (env s) in
         Inr (s\<lparr>task_pc := While_Test, env := e, stop_cond := now > final_time s\<rparr>)
   | Finished \<Rightarrow> Inr s)"

fun task_run :: "'e reader_lib \<Rightarrow> DataDeliveryControl \<Rightarrow> nat \<Rightarrow> 'e read_task \<Rightarrow> 'e read_task res" where
  "task_run L dc 0 s = Inr s"
| "task_run L dc (Suc n) s = bind_res (task_step L dc s) (task_run L dc n)"

section \<open>Within the rate\<close>

text \<open>
  What is known of the environment: the clock is steady, whatever is called, and a vector has
  fewer than 2^64 bytes.
\<close>

definition reader_laws :: "'e reader_lib \<Rightarrow> ('e \<Rightarrow> int) \<Rightarrow> bool" where
  "reader_laws L time \<longleftrightarrow> steady_clock L time \<and>
     (\<forall>e. time e \<le> time (snd (running L e))) \<and>
     (\<forall>d t e. time e \<le> time (snd (read_fn L d t e)) \<and> length (snd (fst (read_fn L d t e))) < 2 ^ 64) \<and>
     (\<forall>d t e. time e \<le> time (snd (write_fn L d t e)))"

lemma reader_lawsD:
  assumes "reader_laws L time"
  shows "steady_clock L time"
    and "running L e = (r, e') \<Longrightarrow> time e \<le> time e'"
    and "read_fn L d t e = ((ok, d'), e') \<Longrightarrow> time e \<le> time e' \<and> length d' < 2 ^ 64"
    and "write_fn L d t e = (r, e') \<Longrightarrow> time e \<le> time e'"
    and "steady_now L e = (now, e') \<Longrightarrow> time e \<le> now \<and> now \<le> time e'"
    and "next_timeout L deadline e = Inr (t, e') \<Longrightarrow> time e \<le> time e'"
proof -
  show now: "steady_now L e = (now, e') \<Longrightarrow> time e \<le> now \<and> now \<le> time e'" for e now e'
    using assms by (simp add: reader_laws_def steady_clock_def)
  show "next_timeout L deadline e = Inr (t, e') \<Longrightarrow> time e \<le> time e'"
    using now [of e] by (fastforce simp: next_timeout_def split: prod.splits)
  have "time e \<le> time (snd (running L e))" "time e \<le> time (snd (read_fn L d t e)) \<and> length (snd (fst (read_fn L d t e))) < 2 ^ 64"
    "time e \<le> time (snd (write_fn L d t e))"
    using assms by (auto simp: reader_laws_def)
  then show "running L e = (r, e') \<Longrightarrow> time e \<le> time e'"
    "read_fn L d t e = ((ok, d'), e') \<Longrightarrow> time e \<le> time e' \<and> length d' < 2 ^ 64"
    "write_fn L d t e = (r, e') \<Longrightarrow> time e \<le> time e'" by auto
qed (use assms in \<open>simp add: reader_laws_def\<close>)

text \<open>One step, by the point it starts from.\<close>

lemma task_step_cases [consumes 1, case_names ends reads consumes writes write_again retries samples deadline finished]:
  assumes "task_step L dc s = Inr s'"
  obtains
    r e where "task_pc s = While_Test" "running L (env s) = (r, e)" "\<not> r \<or> stop_cond s" "s' = s\<lparr>task_pc := Finished, env := e\<rparr>"
  | e1 e2 t ok d e where "task_pc s = While_Test" "running L (env s) = (True, e1)" "\<not> stop_cond s"
      "next_timeout L (final_time s) e1 = Inr (t, e2)" "read_fn L (data s) t e2 = ((ok, d), e)"
      "s' = s\<lparr>task_pc := if ok then Consume else Stop_Test, env := e, data := d, timeout := t\<rparr>"
  | rv e b where "task_pc s = Consume"
      "consume_tokens L (of_nat (length (data s))) (timeout s) (env s, token_bucket s) = Inr (rv, e, b)"
      "s' = s\<lparr>task_pc := if rv then Write else Retry_Test, env := e, token_bucket := b\<rparr>"
  | t e1 e2 r e3 r' e where "task_pc s = Write" "next_timeout L (final_time s) (env s) = Inr (t, e1)"
      "write_fn L (data s) t e1 = (True, e2)" "running L e2 = (r, e3)" "running L e3 = (r', e)"
      "s' = s\<lparr>task_pc := Stop_Test, env := e, timeout := t, message_count := message_count s + 1,
         written := written s @ [data s]\<rparr>"
  | t e1 e2 r e where "task_pc s = Write" "next_timeout L (final_time s) (env s) = Inr (t, e1)"
      "write_fn L (data s) t e1 = (False, e2)" "running L e2 = (r, e)"
      "s' = s\<lparr>task_pc := if r then Write else Retry_Test, env := e, timeout := t\<rparr>"
  | r e where "task_pc s = Retry_Test" "running L (env s) = (r, e)"
      "s' = s\<lparr>task_pc := if r then Consume else Stop_Test, env := e\<rparr>"
  | "task_pc s = Stop_Test" "max_samples dc \<noteq> max_samples_unlimited" "message_count s = max_samples dc"
      "s' = s\<lparr>task_pc := While_Test, stop_cond := True\<rparr>"
  | now e where "task_pc s = Stop_Test" "max_samples dc = max_samples_unlimited \<or> message_count s \<noteq> max_samples dc"
      "steady_now L (env s) = (now, e)" "s' = s\<lparr>task_pc := While_Test, env := e, stop_cond := now > final_time s\<rparr>"
  | "task_pc s = Finished" "s' = s"
proof (cases "task_pc s")
  case While_Test
  obtain r e1 where r: "running L (env s) = (r, e1)" by fastforce
  show ?thesis
  proof (cases "r \<and> \<not> stop_cond s")
    case False
    then show ?thesis using that(1) [OF While_Test r] assms While_Test r by (auto simp: task_step_def)
  next
    case True
    then obtain t e2 where t: "next_timeout L (final_time s) e1 = Inr (t, e2)"
      using assms While_Test r by (auto simp: task_step_def)
    obtain ok d e where d: "read_fn L (data s) t e2 = ((ok, d), e)" by (metis prod.collapse)
    show ?thesis
      using that(2) [OF While_Test _ _ t d] True assms While_Test r t d by (simp add: task_step_def)
  qed
next
  case Consume
  then obtain rv e b where c:
      "consume_tokens L (of_nat (length (data s))) (timeout s) (env s, token_bucket s) = Inr (rv, e, b)"
    using assms by (auto simp: task_step_def)
  show ?thesis using that(3) [OF Consume c] assms Consume c by (simp add: task_step_def)
next
  case Write
  obtain t e1 where t: "next_timeout L (final_time s) (env s) = Inr (t, e1)"
    using assms Write by (auto simp: task_step_def)
  obtain pushed e2 where w: "write_fn L (data s) t e1 = (pushed, e2)" by fastforce
  obtain r e3 where r: "running L e2 = (r, e3)" by fastforce
  obtain r' e4 where r': "running L e3 = (r', e4)" by fastforce
  show ?thesis
  proof (cases pushed)
    case True
    then show ?thesis
      using that(4) [OF Write t _ r r'] assms Write t w r r' by (simp add: task_step_def)
  next
    case False
    then have "s' = s\<lparr>task_pc := if r then Write else Retry_Test, env := e3, timeout := t\<rparr>"
      using assms Write t w r by (cases s) (simp add: task_step_def split: if_splits)
    then show ?thesis using that(5) [OF Write t _ r] w False by simp
  qed
next
  case Retry_Test
  obtain r e where r: "running L (env s) = (r, e)" by fastforce
  show ?thesis using that(6) [OF Retry_Test r] assms Retry_Test r by (simp add: task_step_def)
next
  case Stop_Test
  obtain now e where now: "steady_now L (env s) = (now, e)" by fastforce
  show ?thesis
  proof (cases "max_samples_unlimited \<noteq> max_samples dc \<and> message_count s = max_samples dc")
    case True
    then show ?thesis using that(7) [OF Stop_Test] assms Stop_Test by (auto simp: task_step_def)
  next
    case False
    then have "s' = s\<lparr>task_pc := While_Test, env := e, stop_cond := now > final_time s\<rparr>"
      using assms Stop_Test now by (simp add: task_step_def if_not_P)
    then show ?thesis using that(8) [OF Stop_Test _ now] False by auto
  qed
next
  case Finished
  then have "s' = s" using assms by (simp add: task_step_def)
  then show ?thesis using that(9) [OF Finished] by blast
qed

lemma task_run_append: "task_run L dc (m + n) s = bind_res (task_run L dc m s) (task_run L dc n)"
proof (induction m arbitrary: s)
  case (Suc m)
  then show ?case by (cases "task_step L dc s") auto
qed simp

lemma task_run_invariant:
  assumes "task_run L dc n s = Inr s'" "P s"
    "\<And>s s'. task_step L dc s = Inr s' \<Longrightarrow> P s \<Longrightarrow> P s'"
  shows "P s'"
  using assms(1,2)
proof (induction n arbitrary: s)
  case (Suc n)
  then obtain u where "task_step L dc s = Inr u" "task_run L dc n u = Inr s'" by auto
  then show ?case using Suc.IH assms(3) Suc.prems(2) by blast
qed simp

lemma task_step_time:
  assumes "reader_laws L time" "task_step L dc s = Inr s'"
  shows "time (env s) \<le> time (env s')"
  using assms(2)
proof (cases rule: task_step_cases)
  case (reads e1 e2 t ok d e)
  then show ?thesis
    using reader_lawsD(2) [OF assms(1), of "env s"] reader_lawsD(6) [OF assms(1) reads(4)] reader_lawsD(3) [OF assms(1) reads(5)]
    by force
next
  case (consumes rv e b)
  then show ?thesis using consume_time [OF reader_lawsD(1) [OF assms(1)]] by fastforce
next
  case (writes t e1 e2 r e3 r' e)
  then show ?thesis
    using reader_lawsD(6) [OF assms(1) writes(2)] reader_lawsD(4) [OF assms(1) writes(3)]
      reader_lawsD(2) [OF assms(1) writes(4)] reader_lawsD(2) [OF assms(1) writes(5)] by simp
next
  case (write_again t e1 e2 r e)
  then show ?thesis
    using reader_lawsD(6) [OF assms(1) write_again(2)] reader_lawsD(4) [OF assms(1) write_again(3)]
      reader_lawsD(2) [OF assms(1) write_again(4)] by simp
next
  case (deadline now e)
  then show ?thesis using reader_lawsD(5) [OF assms(1) deadline(3)] by simp
qed (use reader_lawsD(2) [OF assms(1)] in auto)

lemma task_run_time:
  assumes "reader_laws L time"
  shows "task_run L dc n s = Inr s' \<Longrightarrow> time (env s) \<le> time (env s')"
proof (induction n arbitrary: s)
  case (Suc n)
  then obtain u where "task_step L dc s = Inr u" "task_run L dc n u = Inr s'" by auto
  then show ?case using Suc.IH task_step_time [OF assms] by fastforce
qed simp

text \<open>The bytes that were let through, those of the sample in hand included.\<close>

definition passed_bytes :: "'e read_task \<Rightarrow> nat" where
  "passed_bytes s = sum_list (map length (written s)) + (if task_pc s = Write then length (data s) else 0)"

definition rate_kept :: "('e \<Rightarrow> int) \<Rightarrow> nat \<Rightarrow> int \<Rightarrow> 'e read_task \<Rightarrow> bool" where
  "rate_kept time rate t0 s \<longleftrightarrow> bucket_ok rate (token_bucket s) \<and> tb_timestamp (token_bucket s) \<le> time (env s) \<and>
     final_time s = time_point_max \<and> 0 \<le> timeout s \<and> length (data s) < 2 ^ 64 \<and>
     1000000000 * (int (unat (tb_tokens (token_bucket s))) + int (passed_bytes s)) \<le>
       1000000000 * int rate + int rate * (tb_timestamp (token_bucket s) - t0)"

lemma next_timeout_nonneg:
  assumes "next_timeout L time_point_max e = Inr (t, e')" "reader_laws L time" "0 \<le> time e" "time e' < 2 ^ 62"
  shows "0 \<le> t"
proof -
  obtain now where "steady_now L e = (now, e')"
    "milliseconds_between now time_point_max = Inr ((time_point_max - now) sdiv 1000000)"
    "t = min (uint rw_timeout) ((time_point_max - now) sdiv 1000000)"
    using assms(1) by (auto simp: next_timeout_def milliseconds_between_def split: prod.splits)
  moreover from this have "now < 2 ^ 62"
    using reader_lawsD(5) [OF assms(2)] assms(4) by fastforce
  ultimately show ?thesis
    by (simp add: time_point_max_def signed_divide_int_def sgn_if rw_timeout_def pos_imp_zdiv_nonneg_iff)
qed

lemma rate_kept_step:
  assumes "rate_kept time rate t0 s" "task_step L dc s = Inr s'" "reader_laws L time" "0 \<le> time (env s)" "time (env s') < 2 ^ 62"
  shows "rate_kept time rate t0 s'"
proof -
  have known: "bucket_ok rate (token_bucket s)" "tb_timestamp (token_bucket s) \<le> time (env s)"
    "final_time s = time_point_max" "0 \<le> timeout s" "length (data s) < 2 ^ 64"
    using assms(1) by (auto simp: rate_kept_def)
  have later: "tb_timestamp (token_bucket s) \<le> time (env s')"
    using known(2) task_step_time [OF assms(3,2)] by linarith
  from assms(2) show ?thesis
  proof (cases rule: task_step_cases)
    case (reads e1 e2 t ok d e)
    have "time (env s) \<le> time e1" "time e2 \<le> time e" "length d < 2 ^ 64"
      using reader_lawsD(2) [OF assms(3) reads(2)] reader_lawsD(3) [OF assms(3) reads(5)] by auto
    then have "0 \<le> t"
      using next_timeout_nonneg [OF reads(4) [unfolded known(3)] assms(3)] reads(6) assms(4,5) by simp
    then show ?thesis
      using assms(1) later reads(1,6) \<open>length d < 2 ^ 64\<close> by (simp add: rate_kept_def passed_bytes_def)
  next
    case (consumes rv e b)
    have "unat (of_nat (length (data s)) :: u64) = length (data s)"
      using known(5) by (simp only: unat_of_nat) (simp add: take_bit_nat_eq_self)
    then show ?thesis
      using consume_step [OF reader_lawsD(1) [OF assms(3)] known(1,2,4) consumes(2)] assms(1,5) consumes(1,3) later
      by (auto simp: rate_kept_def passed_bytes_def right_diff_distrib split: if_splits)
  next
    case (writes t e1 e2 r e3 r' e)
    have "time e1 \<le> time (env s')"
      using reader_lawsD(4) [OF assms(3) writes(3)] reader_lawsD(2) [OF assms(3) writes(4)]
        reader_lawsD(2) [OF assms(3) writes(5)] writes(6) by simp
    then have "0 \<le> t"
      using next_timeout_nonneg [OF writes(2) [unfolded known(3)] assms(3)] assms(4,5) by simp
    then show ?thesis
      using assms(1) later writes(1,6) by (simp add: rate_kept_def passed_bytes_def)
  next
    case (write_again t e1 e2 r e)
    have "time e1 \<le> time (env s')"
      using reader_lawsD(4) [OF assms(3) write_again(3)] reader_lawsD(2) [OF assms(3) write_again(4)] write_again(5) by simp
    then have "0 \<le> t"
      using next_timeout_nonneg [OF write_again(2) [unfolded known(3)] assms(3)] assms(4,5) by simp
    then show ?thesis
      using assms(1) later write_again(1,5) by (auto simp: rate_kept_def passed_bytes_def)
  qed (use assms(1) later in \<open>auto simp: rate_kept_def passed_bytes_def\<close>)
qed

lemma rate_kept_run:
  assumes "reader_laws L time"
  shows "task_run L dc n s = Inr s' \<Longrightarrow> rate_kept time rate t0 s \<Longrightarrow> 0 \<le> time (env s) \<Longrightarrow> time (env s') < 2 ^ 62 \<Longrightarrow>
    rate_kept time rate t0 s'"
proof (induction n arbitrary: s)
  case (Suc n)
  then obtain u where u: "task_step L dc s = Inr u" "task_run L dc n u = Inr s'" by auto
  have "time (env s) \<le> time (env u)" "time (env u) \<le> time (env s')"
    using task_step_time [OF assms u(1)] task_run_time [OF assms u(2)] by auto
  then show ?case
    using Suc.IH [OF u(2)] rate_kept_step [OF Suc.prems(2) u(1) assms] Suc.prems(3,4) by simp
qed simp

lemma start_task_fields:
  assumes "start_task L dc e = Inr s"
  shows "task_pc s = While_Test \<and> \<not> stop_cond s \<and> message_count s = 0 \<and> data s = [] \<and> timeout s = 0 \<and> written s = [] \<and>
    tb_rate (token_bucket s) = reader_rate dc \<and> tb_capacity (token_bucket s) = reader_rate dc \<and>
    tb_tokens (token_bucket s) = reader_rate dc \<and>
    (max_elapsed_time dc = max_elapsed_time_unlimited \<longrightarrow> final_time s = time_point_max)"
  using assms by (auto simp: start_task_def new_TokenBucket_def Let_def split: prod.splits if_splits)

lemma start_task_time:
  assumes "start_task L dc e = Inr s" "reader_laws L time"
  shows "time e \<le> tb_timestamp (token_bucket s) \<and> tb_timestamp (token_bucket s) \<le> time (env s)"
proof -
  obtain t1 e1 where 1: "steady_now L e = (t1, e1)" by fastforce
  obtain t2 e2 where 2: "steady_now L e1 = (t2, e2)" by fastforce
  have "tb_timestamp (token_bucket s) = t1" "env s = e2"
    using assms(1) 1 2 by (auto simp: start_task_def new_TokenBucket_def Let_def split: if_splits)
  then show ?thesis
    using reader_lawsD(5) [OF assms(2) 1] reader_lawsD(5) [OF assms(2) 2] by simp
qed

lemma without_tokens: "1000000000 * (a + b) \<le> (r :: int) \<Longrightarrow> 0 \<le> a \<Longrightarrow> 1000000000 * b \<le> r"
  by simp

lemma unat_reader_rate:
  assumes "max_bytes_per_second dc \<noteq> 0"
  shows "unat (reader_rate dc) = unat (max_bytes_per_second dc)"
proof -
  have "unat (max_bytes_per_second dc) < 2 ^ 64"
    using unsigned_less [of "max_bytes_per_second dc", where 'a = nat] by simp
  then show ?thesis
    using assms by (simp add: reader_rate_def reader_consts unsigned_ucast_eq take_bit_nat_eq_self)
qed


section \<open>The number of samples\<close>

definition samples_kept :: "nat \<Rightarrow> 'e read_task \<Rightarrow> bool" where
  "samples_kept m s \<longleftrightarrow> message_count s = of_nat (length (written s)) \<and> length (written s) \<le> m \<and>
     (task_pc s \<in> {Consume, Write, Retry_Test} \<or> task_pc s = While_Test \<and> \<not> stop_cond s \<longrightarrow> length (written s) < m)"

lemma samples_kept_step:
  assumes "task_step L dc s = Inr s'" "samples_kept (unat (max_samples dc)) s" "max_samples dc \<noteq> max_samples_unlimited"
  shows "samples_kept (unat (max_samples dc)) s'"
  using assms(1)
proof (cases rule: task_step_cases)
  case (deadline now e)
  then have "of_nat (length (written s)) \<noteq> max_samples dc"
    using assms(2,3) by (auto simp: samples_kept_def)
  then have "length (written s) \<noteq> unat (max_samples dc)" by auto
  then show ?thesis using deadline assms(2) by (auto simp: samples_kept_def)
qed (use assms(2) in \<open>auto simp: samples_kept_def split: if_splits\<close>)

text \<open>A middleware that always has a sample of three bytes, on a clock of its own.\<close>

definition sim_reader :: "int reader_lib" where
  "sim_reader = \<lparr>steady_now = (\<lambda>t. (t, t + 1)), sleep_until = (\<lambda>d t. max d t), running = (\<lambda>t. (True, t)),
     read_fn = (\<lambda>d timeout t. ((True, [1, 2, 3]), t + 1000)), write_fn = (\<lambda>d timeout t. (True, t + 1000))\<rparr>"

definition no_samples :: DataDeliveryControl where
  "no_samples = \<lparr>max_samples = 0, max_elapsed_time = 0, max_bytes_per_second = 100, min_pace_period = 0\<rparr>"

text \<open>The limit on the samples.  With a limit other than 0 (and other than 0xFFFF, which
  means none) the client never gets more samples than it asked for.  With the limit 0, which
  asks for no samples, it gets them: the number is compared for the first time when one
  sample has been delivered.
\<close>
theorem reader_sample_limit:
  "(start_task L dc e = Inr s0 \<and> task_run L dc n s0 = Inr s \<and> max_samples dc \<noteq> 0 \<and> max_samples dc \<noteq> max_samples_unlimited \<longrightarrow>
     length (written s) \<le> unat (max_samples dc)) \<and>
   (case bind_res (start_task sim_reader no_samples 0) (task_run sim_reader no_samples 11) of
      Inl f \<Rightarrow> False
    | Inr u \<Rightarrow> task_pc u = Stop_Test \<and> length (written u) = 3)"
proof (intro conjI impI)
  assume a: "start_task L dc e = Inr s0 \<and> task_run L dc n s0 = Inr s \<and> max_samples dc \<noteq> 0 \<and>
    max_samples dc \<noteq> max_samples_unlimited"
  then have "samples_kept (unat (max_samples dc)) s0"
    using start_task_fields [of L dc e s0] by (auto simp: samples_kept_def unat_gt_0)
  then have "samples_kept (unat (max_samples dc)) s"
    using task_run_invariant [of L dc n s0 s "samples_kept (unat (max_samples dc))"] samples_kept_step a by blast
  then show "length (written s) \<le> unat (max_samples dc)" by (simp add: samples_kept_def)
next
  show "case bind_res (start_task sim_reader no_samples 0) (task_run sim_reader no_samples 11) of
      Inl f \<Rightarrow> False
    | Inr u \<Rightarrow> task_pc u = Stop_Test \<and> length (written u) = 3"
    by code_simp
qed

section \<open>A sample larger than the rate\<close>

lemma capacity_run:
  assumes "task_run L dc n s = Inr s'"
  shows "tb_capacity (token_bucket s') = tb_capacity (token_bucket s)"
  using task_run_invariant [OF assms, of "\<lambda>u. tb_capacity (token_bucket u) = tb_capacity (token_bucket s)"]
proof -
  have "tb_capacity (token_bucket v) = tb_capacity (token_bucket u)" if "task_step L dc u = Inr v" for u v
    using that by (cases rule: task_step_cases) (auto simp: consume_capacity)
  then show ?thesis
    using task_run_invariant [OF assms, of "\<lambda>u. tb_capacity (token_bucket u) = tb_capacity (token_bucket s)"] by simp
qed

text \<open>A sample that is larger than the limit of bytes in a second stops the reader for good.
  The bucket can never hold the tokens for it, so the task asks for them again and again, as
  fast as it can: as long as nobody stops the reader it neither returns, whatever the other
  limits are, nor writes anything any more.
\<close>
theorem reader_oversize_spins:
  assumes "start_task L dc e = Inr s0" "task_run L dc n s0 = Inr s" "task_pc s = Consume"
    "max_bytes_per_second dc \<noteq> 0" "unat (max_bytes_per_second dc) < length (data s)" "length (data s) < 2 ^ 64"
    "\<forall>e. fst (running L e)"
  shows "\<exists>s'. task_run L dc k s = Inr s' \<and> task_pc s' \<in> {Consume, Retry_Test} \<and> written s' = written s"
proof -
  define stuck where "stuck u \<longleftrightarrow> task_pc u \<in> {Consume, Retry_Test} \<and> written u = written s \<and> data u = data s \<and>
    tb_capacity (token_bucket u) = reader_rate dc" for u :: "'a read_task"
  have "unat (of_nat (length (data s)) :: u64) = length (data s)"
    using assms(6) by (simp only: unat_of_nat) (simp add: take_bit_nat_eq_self)
  then have large: "reader_rate dc < of_nat (length (data s))"
    using assms(5) unat_reader_rate [OF assms(4)] by (simp add: word_less_nat_alt)
  have step: "\<exists>v. task_step L dc u = Inr v \<and> stuck v" if "stuck u" for u
  proof (cases "task_pc u")
    case Consume
    then show ?thesis using that large by (auto simp: stuck_def task_step_def consume_tokens_def)
  next
    case Retry_Test
    obtain r e' where r: "running L (env u) = (r, e')" by fastforce
    then have "r" using assms(7) by (metis fst_conv)
    then show ?thesis using that Retry_Test r by (auto simp: stuck_def task_step_def)
  qed (use that in \<open>auto simp: stuck_def\<close>)
  have "\<exists>s'. task_run L dc k u = Inr s' \<and> stuck s'" if "stuck u" for u
    using that
  proof (induction k arbitrary: u)
    case (Suc k)
    then obtain v where "task_step L dc u = Inr v" "stuck v" using step by blast
    then show ?case using Suc.IH by auto
  qed simp
  moreover have "stuck s"
    using capacity_run [OF assms(2)] start_task_fields [OF assms(1)] assms(3) by (simp add: stuck_def)
  ultimately show ?thesis by (auto simp: stuck_def)
qed

section \<open>The object around the task\<close>

text \<open>
  Of a reader whose running_cond_ happened to be false: a call of start_reading never
  assigns to a thread that runs, and it has no effect until stop_reading.  Of one whose
  running_cond_ happened to be true: neither call does anything but fail, once.
\<close>

lemma reader_object:
  "running_cond s = joinable s \<Longrightarrow> \<exists>r s'. start_reading dc ra wa s = Inr (r, s') \<and> running_cond s' \<and> joinable s' \<and> (r \<longleftrightarrow> \<not> running_cond s)"
  "running_cond s = joinable s \<Longrightarrow> stop_reading s = (True, s\<lparr>running_cond := False, joinable := False\<rparr>)"
  "start_reading dc ra wa (new_Reader True dc' ra' wa') = Inr (False, new_Reader True dc' ra' wa')"
  "stop_reading (new_Reader True dc ra wa) = (False, new_Reader False dc ra wa)"
  by (auto simp: start_reading_def stop_reading_def new_Reader_def)

section \<open>Witnesses\<close>

definition sim_limits :: DataDeliveryControl where
  "sim_limits = \<lparr>max_samples = 5, max_elapsed_time = 0, max_bytes_per_second = 4, min_pace_period = 0\<rparr>"

lemma sim_reader_laws: "reader_laws sim_reader (\<lambda>t. t)"
  by (simp add: reader_laws_def steady_clock_def sim_reader_def)

text \<open>The second sample has to wait for its tokens.\<close>

lemma sim_reader_run:
  "case bind_res (start_task sim_reader sim_limits 0) (task_run sim_reader sim_limits 14) of
     Inl f \<Rightarrow> False
   | Inr s \<Rightarrow> map length (written s) = [3] \<and> task_pc s = Write \<and> 500000000 < env s \<and> env s < 2 ^ 62"
  by code_simp


lemma reader_sample_limit_witness:
  "\<exists>s0 s. start_task sim_reader sim_limits 0 = Inr s0 \<and> task_run sim_reader sim_limits 14 s0 = Inr s \<and>
     written s \<noteq> [] \<and> length (written s) \<le> 5"
proof -
  obtain s0 s where s: "start_task sim_reader sim_limits 0 = Inr s0" "task_run sim_reader sim_limits 14 s0 = Inr s"
    "map length (written s) = [3]"
    using sim_reader_run by (auto simp del: task_run.simps split: sum.splits simp: bind_res_def)
  moreover have "unat (max_samples sim_limits) = 5" "max_samples sim_limits \<noteq> 0" "max_samples sim_limits \<noteq> max_samples_unlimited"
    by (simp_all add: sim_limits_def max_samples_unlimited_def)
  ultimately show ?thesis
    using reader_sample_limit [of sim_reader sim_limits 0 s0 14 s] by force
qed

definition sim_tight :: DataDeliveryControl where
  "sim_tight = \<lparr>max_samples = 5, max_elapsed_time = 0, max_bytes_per_second = 2, min_pace_period = 0\<rparr>"

lemma sim_tight_run:
  "case bind_res (start_task sim_reader sim_tight 0) (task_run sim_reader sim_tight 1) of
     Inl f \<Rightarrow> False
   | Inr s \<Rightarrow> written s = [] \<and> data s = [1, 2, 3] \<and> task_pc s = Consume"
  by code_simp

lemma reader_oversize_spins_witness:
  "\<exists>s s'. task_run sim_reader sim_tight 1000000 s = Inr s' \<and> task_pc s = Consume \<and> task_pc s' \<noteq> Finished \<and> written s' = []"
proof -
  obtain s0 s where s: "start_task sim_reader sim_tight 0 = Inr s0" "task_run sim_reader sim_tight 1 s0 = Inr s"
    "written s = []" "data s = [1, 2, 3]" "task_pc s = Consume"
    using sim_tight_run by (auto simp del: task_run.simps split: sum.splits simp: bind_res_def)
  have "max_bytes_per_second sim_tight \<noteq> 0" "unat (max_bytes_per_second sim_tight) < length (data s)"
    "length (data s) < 2 ^ 64" "\<forall>e. fst (running sim_reader e)"
    by (simp_all add: sim_tight_def sim_reader_def s(4))
  then obtain s' where "task_run sim_reader sim_tight 1000000 s = Inr s'" "task_pc s' \<in> {Consume, Retry_Test}"
    "written s' = written s"
    using reader_oversize_spins [OF s(1,2,5)] by blast
  then show ?thesis using s(3,5) by (intro exI [of _ s] exI [of _ s']) auto
qed

end
