(* ===== verification/Callbacks.thy ===== *)
theory Callbacks
  imports Prelude
begin

text \<open>
  middleware/utils/Callbacks.hpp: the functions that a user registers to be called when the
  agent creates or deletes an entity of the middleware.

  The C++ overloads of add_callback are chosen by the type of the function, so a signature is
  a value here; the functions themselves are any values, and what execute_callbacks gives is
  the calls that it makes, in order.  Its arguments go through a C variadic function: they
  come with their types, and va_arg of another type, or of an argument that is not there, is
  undefined behaviour.  The profile of CED is not compiled in (config.hpp).
\<close>

section \<open>Kinds and signatures\<close>

datatype Middleware_Kind = NONE | FASTRTPS | FASTDDS

datatype CallbackKind =
    CREATE_PARTICIPANT | CREATE_DATAWRITER | CREATE_DATAREADER | CREATE_REQUESTER | CREATE_REPLIER
  | DELETE_PARTICIPANT | DELETE_DATAWRITER | DELETE_DATAREADER | DELETE_REQUESTER | DELETE_REPLIER

text \<open>The pointer types, and the argument lists for which add_callback is specialised.\<close>

datatype pointer_type =
    Rtps_Participant | Rtps_Publisher | Rtps_Subscriber | Dds_Participant | Dds_DataWriter | Dds_DataReader

type_synonym signature = "pointer_type list"

type_synonym argument = "pointer_type \<times> nat"

section \<open>The lists of one middleware\<close>

record 'f callback_lists =
  on_create_participant_callbacks :: "'f list"
  on_delete_participant_callbacks :: "'f list"
  on_create_datawriter_callbacks :: "'f list"
  on_delete_datawriter_callbacks :: "'f list"
  on_create_datareader_callbacks :: "'f list"
  on_delete_datareader_callbacks :: "'f list"
  on_create_requester_callbacks :: "'f list"
  on_delete_requester_callbacks :: "'f list"
  on_create_replier_callbacks :: "'f list"
  on_delete_replier_callbacks :: "'f list"

text \<open>Both factories start with empty vectors.\<close>

definition no_callbacks :: "'f callback_lists" where
  "no_callbacks = \<lparr>on_create_participant_callbacks = [],
     on_delete_participant_callbacks = [],
     on_create_datawriter_callbacks = [],
     on_delete_datawriter_callbacks = [],
     on_create_datareader_callbacks = [],
     on_delete_datareader_callbacks = [],
     on_create_requester_callbacks = [],
     on_delete_requester_callbacks = [],
     on_create_replier_callbacks = [],
     on_delete_replier_callbacks = []\<rparr>"

text \<open>The next argument of the variadic call, as the type that the callee asks for.\<close>

fun va_arg :: "pointer_type \<Rightarrow> argument list \<Rightarrow> (argument \<times> argument list) res" where
  "va_arg ty [] = Inl Bad_Access"
| "va_arg ty (a # args) = (if fst a = ty then Inr (a, args) else Inl Bad_Access)"

text \<open>The range-based for loop over a vector of callbacks.\<close>

definition call_all :: "'f list \<Rightarrow> argument list \<Rightarrow> ('f \<times> argument list) list" where
  "call_all fs args = map (\<lambda>f. (f, args)) fs"

section \<open>FastCallbackFactory\<close>

text \<open>add_callback for functions of a participant (the template itself), and its specialisations.\<close>

fun FastCallbackFactory_add_callback_participant :: "CallbackKind \<Rightarrow> 'f \<Rightarrow> 'f callback_lists \<Rightarrow> 'f callback_lists" where
  "FastCallbackFactory_add_callback_participant CREATE_PARTICIPANT f s = s\<lparr>on_create_participant_callbacks := on_create_participant_callbacks s @ [f]\<rparr>"
| "FastCallbackFactory_add_callback_participant DELETE_PARTICIPANT f s = s\<lparr>on_delete_participant_callbacks := on_delete_participant_callbacks s @ [f]\<rparr>"
| "FastCallbackFactory_add_callback_participant callback_kind f s = s"

fun FastCallbackFactory_add_callback_writer :: "CallbackKind \<Rightarrow> 'f \<Rightarrow> 'f callback_lists \<Rightarrow> 'f callback_lists" where
  "FastCallbackFactory_add_callback_writer CREATE_DATAWRITER f s = s\<lparr>on_create_datawriter_callbacks := on_create_datawriter_callbacks s @ [f]\<rparr>"
| "FastCallbackFactory_add_callback_writer DELETE_DATAWRITER f s = s\<lparr>on_delete_datawriter_callbacks := on_delete_datawriter_callbacks s @ [f]\<rparr>"
| "FastCallbackFactory_add_callback_writer callback_kind f s = s"

fun FastCallbackFactory_add_callback_reader :: "CallbackKind \<Rightarrow> 'f \<Rightarrow> 'f callback_lists \<Rightarrow> 'f callback_lists" where
  "FastCallbackFactory_add_callback_reader CREATE_DATAREADER f s = s\<lparr>on_create_datareader_callbacks := on_create_datareader_callbacks s @ [f]\<rparr>"
| "FastCallbackFactory_add_callback_reader DELETE_DATAREADER f s = s\<lparr>on_delete_datareader_callbacks := on_delete_datareader_callbacks s @ [f]\<rparr>"
| "FastCallbackFactory_add_callback_reader callback_kind f s = s"

fun FastCallbackFactory_add_callback_both :: "CallbackKind \<Rightarrow> 'f \<Rightarrow> 'f callback_lists \<Rightarrow> 'f callback_lists" where
  "FastCallbackFactory_add_callback_both CREATE_REQUESTER f s = s\<lparr>on_create_requester_callbacks := on_create_requester_callbacks s @ [f]\<rparr>"
| "FastCallbackFactory_add_callback_both CREATE_REPLIER f s = s\<lparr>on_create_replier_callbacks := on_create_replier_callbacks s @ [f]\<rparr>"
| "FastCallbackFactory_add_callback_both DELETE_REQUESTER f s = s\<lparr>on_delete_requester_callbacks := on_delete_requester_callbacks s @ [f]\<rparr>"
| "FastCallbackFactory_add_callback_both DELETE_REPLIER f s = s\<lparr>on_delete_replier_callbacks := on_delete_replier_callbacks s @ [f]\<rparr>"
| "FastCallbackFactory_add_callback_both callback_kind f s = s"

fun FastCallbackFactory_execute_callbacks :: "CallbackKind \<Rightarrow> argument list \<Rightarrow> 'f callback_lists \<Rightarrow> ('f \<times> argument list) list res" where
  "FastCallbackFactory_execute_callbacks CREATE_PARTICIPANT args s =
     bind_res (va_arg Rtps_Participant args) (\<lambda>(participant, args).
     Inr (call_all (on_create_participant_callbacks s) [participant]))"
| "FastCallbackFactory_execute_callbacks CREATE_DATAWRITER args s =
     bind_res (va_arg Rtps_Participant args) (\<lambda>(participant, args).
     bind_res (va_arg Rtps_Publisher args) (\<lambda>(datawriter, args).
     Inr (call_all (on_create_datawriter_callbacks s) [participant, datawriter])))"
| "FastCallbackFactory_execute_callbacks CREATE_DATAREADER args s =
     bind_res (va_arg Rtps_Participant args) (\<lambda>(participant, args).
     bind_res (va_arg Rtps_Subscriber args) (\<lambda>(datareader, args).
     Inr (call_all (on_create_datareader_callbacks s) [participant, datareader])))"
| "FastCallbackFactory_execute_callbacks CREATE_REQUESTER args s =
     bind_res (va_arg Rtps_Participant args) (\<lambda>(participant, args).
     bind_res (va_arg Rtps_Publisher args) (\<lambda>(writer, args).
     bind_res (va_arg Rtps_Subscriber args) (\<lambda>(reader, args).
     Inr (call_all (on_create_requester_callbacks s) [participant, writer, reader]))))"
| "FastCallbackFactory_execute_callbacks CREATE_REPLIER args s =
     bind_res (va_arg Rtps_Participant args) (\<lambda>(participant, args).
     bind_res (va_arg Rtps_Publisher args) (\<lambda>(writer, args).
     bind_res (va_arg Rtps_Subscriber args) (\<lambda>(reader, args).
     Inr (call_all (on_create_replier_callbacks s) [participant, writer, reader]))))"
| "FastCallbackFactory_execute_callbacks DELETE_PARTICIPANT args s =
     bind_res (va_arg Rtps_Participant args) (\<lambda>(participant, args).
     Inr (call_all (on_delete_participant_callbacks s) [participant]))"
| "FastCallbackFactory_execute_callbacks DELETE_DATAWRITER args s =
     bind_res (va_arg Rtps_Participant args) (\<lambda>(participant, args).
     bind_res (va_arg Rtps_Publisher args) (\<lambda>(datawriter, args).
     Inr (call_all (on_delete_datawriter_callbacks s) [participant, datawriter])))"
| "FastCallbackFactory_execute_callbacks DELETE_DATAREADER args s =
     bind_res (va_arg Rtps_Participant args) (\<lambda>(participant, args).
     bind_res (va_arg Rtps_Subscriber args) (\<lambda>(datareader, args).
     Inr (call_all (on_delete_datareader_callbacks s) [participant, datareader])))"
| "FastCallbackFactory_execute_callbacks DELETE_REQUESTER args s =
     bind_res (va_arg Rtps_Participant args) (\<lambda>(participant, args).
     bind_res (va_arg Rtps_Publisher args) (\<lambda>(writer, args).
     bind_res (va_arg Rtps_Subscriber args) (\<lambda>(reader, args).
     Inr (call_all (on_delete_requester_callbacks s) [participant, writer, reader]))))"
| "FastCallbackFactory_execute_callbacks DELETE_REPLIER args s =
     bind_res (va_arg Rtps_Participant args) (\<lambda>(participant, args).
     bind_res (va_arg Rtps_Publisher args) (\<lambda>(writer, args).
     bind_res (va_arg Rtps_Subscriber args) (\<lambda>(reader, args).
     Inr (call_all (on_delete_replier_callbacks s) [participant, writer, reader]))))"

section \<open>FastDDSCallbackFactory\<close>

text \<open>add_callback for functions of a participant (the template itself), and its specialisations.\<close>

fun FastDDSCallbackFactory_add_callback_participant :: "CallbackKind \<Rightarrow> 'f \<Rightarrow> 'f callback_lists \<Rightarrow> 'f callback_lists" where
  "FastDDSCallbackFactory_add_callback_participant CREATE_PARTICIPANT f s = s\<lparr>on_create_participant_callbacks := on_create_participant_callbacks s @ [f]\<rparr>"
| "FastDDSCallbackFactory_add_callback_participant DELETE_PARTICIPANT f s = s\<lparr>on_delete_participant_callbacks := on_delete_participant_callbacks s @ [f]\<rparr>"
| "FastDDSCallbackFactory_add_callback_participant callback_kind f s = s"

fun FastDDSCallbackFactory_add_callback_writer :: "CallbackKind \<Rightarrow> 'f \<Rightarrow> 'f callback_lists \<Rightarrow> 'f callback_lists" where
  "FastDDSCallbackFactory_add_callback_writer CREATE_DATAWRITER f s = s\<lparr>on_create_datawriter_callbacks := on_create_datawriter_callbacks s @ [f]\<rparr>"
| "FastDDSCallbackFactory_add_callback_writer DELETE_DATAWRITER f s = s\<lparr>on_delete_datawriter_callbacks := on_delete_datawriter_callbacks s @ [f]\<rparr>"
| "FastDDSCallbackFactory_add_callback_writer callback_kind f s = s"

fun FastDDSCallbackFactory_add_callback_reader :: "CallbackKind \<Rightarrow> 'f \<Rightarrow> 'f callback_lists \<Rightarrow> 'f callback_lists" where
  "FastDDSCallbackFactory_add_callback_reader CREATE_DATAREADER f s = s\<lparr>on_create_datareader_callbacks := on_create_datareader_callbacks s @ [f]\<rparr>"
| "FastDDSCallbackFactory_add_callback_reader DELETE_DATAREADER f s = s\<lparr>on_delete_datareader_callbacks := on_delete_datareader_callbacks s @ [f]\<rparr>"
| "FastDDSCallbackFactory_add_callback_reader callback_kind f s = s"

fun FastDDSCallbackFactory_add_callback_both :: "CallbackKind \<Rightarrow> 'f \<Rightarrow> 'f callback_lists \<Rightarrow> 'f callback_lists" where
  "FastDDSCallbackFactory_add_callback_both CREATE_REQUESTER f s = s\<lparr>on_create_requester_callbacks := on_create_requester_callbacks s @ [f]\<rparr>"
| "FastDDSCallbackFactory_add_callback_both CREATE_REPLIER f s = s\<lparr>on_create_replier_callbacks := on_create_replier_callbacks s @ [f]\<rparr>"
| "FastDDSCallbackFactory_add_callback_both DELETE_REQUESTER f s = s\<lparr>on_delete_requester_callbacks := on_delete_requester_callbacks s @ [f]\<rparr>"
| "FastDDSCallbackFactory_add_callback_both DELETE_REPLIER f s = s\<lparr>on_delete_replier_callbacks := on_delete_replier_callbacks s @ [f]\<rparr>"
| "FastDDSCallbackFactory_add_callback_both callback_kind f s = s"

fun FastDDSCallbackFactory_execute_callbacks :: "CallbackKind \<Rightarrow> argument list \<Rightarrow> 'f callback_lists \<Rightarrow> ('f \<times> argument list) list res" where
  "FastDDSCallbackFactory_execute_callbacks CREATE_PARTICIPANT args s =
     bind_res (va_arg Dds_Participant args) (\<lambda>(participant, args).
     Inr (call_all (on_create_participant_callbacks s) [participant]))"
| "FastDDSCallbackFactory_execute_callbacks CREATE_DATAWRITER args s =
     bind_res (va_arg Dds_Participant args) (\<lambda>(participant, args).
     bind_res (va_arg Dds_DataWriter args) (\<lambda>(datawriter, args).
     Inr (call_all (on_create_datawriter_callbacks s) [participant, datawriter])))"
| "FastDDSCallbackFactory_execute_callbacks CREATE_DATAREADER args s =
     bind_res (va_arg Dds_Participant args) (\<lambda>(participant, args).
     bind_res (va_arg Dds_DataReader args) (\<lambda>(datareader, args).
     Inr (call_all (on_create_datareader_callbacks s) [participant, datareader])))"
| "FastDDSCallbackFactory_execute_callbacks CREATE_REQUESTER args s =
     bind_res (va_arg Dds_Participant args) (\<lambda>(participant, args).
     bind_res (va_arg Dds_DataWriter args) (\<lambda>(writer, args).
     bind_res (va_arg Dds_DataReader args) (\<lambda>(reader, args).
     Inr (call_all (on_create_requester_callbacks s) [participant, writer, reader]))))"
| "FastDDSCallbackFactory_execute_callbacks CREATE_REPLIER args s =
     bind_res (va_arg Dds_Participant args) (\<lambda>(participant, args).
     bind_res (va_arg Dds_DataWriter args) (\<lambda>(writer, args).
     bind_res (va_arg Dds_DataReader args) (\<lambda>(reader, args).
     Inr (call_all (on_create_replier_callbacks s) [participant, writer, reader]))))"
| "FastDDSCallbackFactory_execute_callbacks DELETE_PARTICIPANT args s =
     bind_res (va_arg Dds_Participant args) (\<lambda>(participant, args).
     Inr (call_all (on_delete_participant_callbacks s) [participant]))"
| "FastDDSCallbackFactory_execute_callbacks DELETE_DATAWRITER args s =
     bind_res (va_arg Dds_Participant args) (\<lambda>(participant, args).
     bind_res (va_arg Dds_DataWriter args) (\<lambda>(datawriter, args).
     Inr (call_all (on_delete_datawriter_callbacks s) [participant, datawriter])))"
| "FastDDSCallbackFactory_execute_callbacks DELETE_DATAREADER args s =
     bind_res (va_arg Dds_Participant args) (\<lambda>(participant, args).
     bind_res (va_arg Dds_DataReader args) (\<lambda>(datareader, args).
     Inr (call_all (on_delete_datareader_callbacks s) [participant, datareader])))"
| "FastDDSCallbackFactory_execute_callbacks DELETE_REQUESTER args s =
     bind_res (va_arg Dds_Participant args) (\<lambda>(participant, args).
     bind_res (va_arg Dds_DataWriter args) (\<lambda>(writer, args).
     bind_res (va_arg Dds_DataReader args) (\<lambda>(reader, args).
     Inr (call_all (on_delete_requester_callbacks s) [participant, writer, reader]))))"
| "FastDDSCallbackFactory_execute_callbacks DELETE_REPLIER args s =
     bind_res (va_arg Dds_Participant args) (\<lambda>(participant, args).
     bind_res (va_arg Dds_DataWriter args) (\<lambda>(writer, args).
     bind_res (va_arg Dds_DataReader args) (\<lambda>(reader, args).
     Inr (call_all (on_delete_replier_callbacks s) [participant, writer, reader]))))"

section \<open>CallbackFactory\<close>

record 'f CallbackFactory =
  fast_callback_factory :: "'f callback_lists"
  fast_dds_callback_factory :: "'f callback_lists"

definition getInstance :: "'f CallbackFactory" where
  "getInstance = \<lparr>fast_callback_factory = no_callbacks, fast_dds_callback_factory = no_callbacks\<rparr>"

text \<open>
  The eight specialisations of add_callback: each knows one middleware.  A function of any
  other type does not compile, which is None.
\<close>

definition add_fast :: "('f callback_lists \<Rightarrow> 'f callback_lists) \<Rightarrow> Middleware_Kind \<Rightarrow> 'f CallbackFactory \<Rightarrow> 'f CallbackFactory" where
  "add_fast add middleware_kind s =
     (if middleware_kind = FASTRTPS then s\<lparr>fast_callback_factory := add (fast_callback_factory s)\<rparr> else s)"

definition add_dds :: "('f callback_lists \<Rightarrow> 'f callback_lists) \<Rightarrow> Middleware_Kind \<Rightarrow> 'f CallbackFactory \<Rightarrow> 'f CallbackFactory" where
  "add_dds add middleware_kind s =
     (if middleware_kind = FASTDDS then s\<lparr>fast_dds_callback_factory := add (fast_dds_callback_factory s)\<rparr> else s)"

definition add_callback :: "signature \<Rightarrow> Middleware_Kind \<Rightarrow> CallbackKind \<Rightarrow> 'f \<Rightarrow> 'f CallbackFactory \<Rightarrow> 'f CallbackFactory option" where
  "add_callback sig m k f s =
     (if sig = [Rtps_Participant] then Some (add_fast (FastCallbackFactory_add_callback_participant k f) m s)
      else if sig = [Rtps_Participant, Rtps_Publisher] then Some (add_fast (FastCallbackFactory_add_callback_writer k f) m s)
      else if sig = [Rtps_Participant, Rtps_Subscriber] then Some (add_fast (FastCallbackFactory_add_callback_reader k f) m s)
      else if sig = [Rtps_Participant, Rtps_Publisher, Rtps_Subscriber]
        then Some (add_fast (FastCallbackFactory_add_callback_both k f) m s)
      else if sig = [Dds_Participant] then Some (add_dds (FastDDSCallbackFactory_add_callback_participant k f) m s)
      else if sig = [Dds_Participant, Dds_DataWriter] then Some (add_dds (FastDDSCallbackFactory_add_callback_writer k f) m s)
      else if sig = [Dds_Participant, Dds_DataReader] then Some (add_dds (FastDDSCallbackFactory_add_callback_reader k f) m s)
      else if sig = [Dds_Participant, Dds_DataWriter, Dds_DataReader]
        then Some (add_dds (FastDDSCallbackFactory_add_callback_both k f) m s)
      else None)"

definition execute_callbacks :: "Middleware_Kind \<Rightarrow> CallbackKind \<Rightarrow> argument list \<Rightarrow> 'f CallbackFactory \<Rightarrow>
    ('f \<times> argument list) list res" where
  "execute_callbacks m k args s = (case m of
     FASTRTPS \<Rightarrow> FastCallbackFactory_execute_callbacks k args (fast_callback_factory s)
   | FASTDDS \<Rightarrow> FastDDSCallbackFactory_execute_callbacks k args (fast_dds_callback_factory s)
   | NONE \<Rightarrow> Inr [])"

section \<open>What is called\<close>

fun listed :: "CallbackKind \<Rightarrow> 'f callback_lists \<Rightarrow> 'f list" where
  "listed CREATE_PARTICIPANT s = on_create_participant_callbacks s"
| "listed CREATE_DATAWRITER s = on_create_datawriter_callbacks s"
| "listed CREATE_DATAREADER s = on_create_datareader_callbacks s"
| "listed CREATE_REQUESTER s = on_create_requester_callbacks s"
| "listed CREATE_REPLIER s = on_create_replier_callbacks s"
| "listed DELETE_PARTICIPANT s = on_delete_participant_callbacks s"
| "listed DELETE_DATAWRITER s = on_delete_datawriter_callbacks s"
| "listed DELETE_DATAREADER s = on_delete_datareader_callbacks s"
| "listed DELETE_REQUESTER s = on_delete_requester_callbacks s"
| "listed DELETE_REPLIER s = on_delete_replier_callbacks s"

text \<open>The types that a kind of entity has in a middleware.\<close>

definition entity_types :: "pointer_type \<Rightarrow> pointer_type \<Rightarrow> pointer_type \<Rightarrow> CallbackKind \<Rightarrow> signature" where
  "entity_types participant writer reader k =
     (if k \<in> {CREATE_PARTICIPANT, DELETE_PARTICIPANT} then [participant]
      else if k \<in> {CREATE_DATAWRITER, DELETE_DATAWRITER} then [participant, writer]
      else if k \<in> {CREATE_DATAREADER, DELETE_DATAREADER} then [participant, reader]
      else [participant, writer, reader])"

definition entity_signature :: "Middleware_Kind \<Rightarrow> CallbackKind \<Rightarrow> signature" where
  "entity_signature m k = (if m = FASTRTPS then entity_types Rtps_Participant Rtps_Publisher Rtps_Subscriber k
     else entity_types Dds_Participant Dds_DataWriter Dds_DataReader k)"

fun va_args :: "signature \<Rightarrow> argument list \<Rightarrow> argument list res" where
  "va_args [] args = Inr []"
| "va_args (ty # tys) args = bind_res (va_arg ty args) (\<lambda>(a, args). bind_res (va_args tys args) (\<lambda>as. Inr (a # as)))"

lemma va_args_eq:
  "va_args sig args = (if map fst (take (length sig) args) = sig then Inr (take (length sig) args) else Inl Bad_Access)"
proof (induction sig arbitrary: args)
  case (Cons ty sig)
  then show ?case by (cases args) auto
qed simp

lemma fast_execute:
  "FastCallbackFactory_execute_callbacks k args s =
     bind_res (va_args (entity_types Rtps_Participant Rtps_Publisher Rtps_Subscriber k) args) (\<lambda>as. Inr (call_all (listed k s) as))"
  by (cases k) (auto simp: entity_types_def bind_res_def split: sum.split)

lemma dds_execute:
  "FastDDSCallbackFactory_execute_callbacks k args s =
     bind_res (va_args (entity_types Dds_Participant Dds_DataWriter Dds_DataReader k) args) (\<lambda>as. Inr (call_all (listed k s) as))"
  by (cases k) (auto simp: entity_types_def bind_res_def split: sum.split)

text \<open>Each overload appends to the vector of its kind, if it has one, and to no other.\<close>

lemma fast_listed_add:
  "listed k (FastCallbackFactory_add_callback_participant k' f s) = listed k s @ (if k' = k \<and> k \<in> {CREATE_PARTICIPANT, DELETE_PARTICIPANT} then [f] else [])"
  "listed k (FastCallbackFactory_add_callback_writer k' f s) = listed k s @ (if k' = k \<and> k \<in> {CREATE_DATAWRITER, DELETE_DATAWRITER} then [f] else [])"
  "listed k (FastCallbackFactory_add_callback_reader k' f s) = listed k s @ (if k' = k \<and> k \<in> {CREATE_DATAREADER, DELETE_DATAREADER} then [f] else [])"
  "listed k (FastCallbackFactory_add_callback_both k' f s) = listed k s @ (if k' = k \<and> k \<in> {CREATE_REQUESTER, CREATE_REPLIER, DELETE_REQUESTER, DELETE_REPLIER} then [f] else [])"
  by (cases k'; cases k; simp)+

lemma dds_listed_add:
  "listed k (FastDDSCallbackFactory_add_callback_participant k' f s) = listed k s @ (if k' = k \<and> k \<in> {CREATE_PARTICIPANT, DELETE_PARTICIPANT} then [f] else [])"
  "listed k (FastDDSCallbackFactory_add_callback_writer k' f s) = listed k s @ (if k' = k \<and> k \<in> {CREATE_DATAWRITER, DELETE_DATAWRITER} then [f] else [])"
  "listed k (FastDDSCallbackFactory_add_callback_reader k' f s) = listed k s @ (if k' = k \<and> k \<in> {CREATE_DATAREADER, DELETE_DATAREADER} then [f] else [])"
  "listed k (FastDDSCallbackFactory_add_callback_both k' f s) = listed k s @ (if k' = k \<and> k \<in> {CREATE_REQUESTER, CREATE_REPLIER, DELETE_REQUESTER, DELETE_REPLIER} then [f] else [])"
  by (cases k'; cases k; simp)+

definition factory_list :: "Middleware_Kind \<Rightarrow> CallbackKind \<Rightarrow> 'f CallbackFactory \<Rightarrow> 'f list" where
  "factory_list m k s = listed k (if m = FASTRTPS then fast_callback_factory s else fast_dds_callback_factory s)"

lemma entity_types_cases:
  "[p] = entity_types p w r k \<longleftrightarrow> k \<in> {CREATE_PARTICIPANT, DELETE_PARTICIPANT}"
  "w \<noteq> r \<Longrightarrow> [p, w] = entity_types p w r k \<longleftrightarrow> k \<in> {CREATE_DATAWRITER, DELETE_DATAWRITER}"
  "w \<noteq> r \<Longrightarrow> [p, r] = entity_types p w r k \<longleftrightarrow> k \<in> {CREATE_DATAREADER, DELETE_DATAREADER}"
  "[p, w, r] = entity_types p w r k \<longleftrightarrow> k \<in> {CREATE_REQUESTER, CREATE_REPLIER, DELETE_REQUESTER, DELETE_REPLIER}"
  "p \<noteq> q \<Longrightarrow> q # qs = entity_types p w r k \<longleftrightarrow> False"
  by (cases k; auto simp: entity_types_def)+

lemma add_callback_listed:
  assumes "add_callback sig m' k' f s = Some s'" "m \<noteq> NONE"
  shows "factory_list m k s' = factory_list m k s @ (if sig = entity_signature m k \<and> m' = m \<and> k' = k then [f] else [])"
proof (cases m)
  case FASTRTPS
  then show ?thesis
    using assms(1)
    by (auto simp: add_callback_def add_fast_def add_dds_def factory_list_def entity_signature_def entity_types_cases
        fast_listed_add split: if_splits)
next
  case FASTDDS
  then show ?thesis
    using assms(1)
    by (auto simp: add_callback_def add_fast_def add_dds_def factory_list_def entity_signature_def entity_types_cases
        dds_listed_add split: if_splits)
qed (use assms in simp)

text \<open>A program that registers functions, each with its type, middleware and kind.\<close>

type_synonym 'f registration = "signature \<times> Middleware_Kind \<times> CallbackKind \<times> 'f"

fun register_all :: "'f registration list \<Rightarrow> 'f CallbackFactory \<Rightarrow> 'f CallbackFactory option" where
  "register_all [] s = Some s"
| "register_all ((sig, m, k, f) # rs) s = (case add_callback sig m k f s of None \<Rightarrow> None | Some s \<Rightarrow> register_all rs s)"

text \<open>The functions that fit: registered for the middleware and the kind, with the types it has there.\<close>

definition fitting :: "Middleware_Kind \<Rightarrow> CallbackKind \<Rightarrow> 'f registration list \<Rightarrow> 'f list" where
  "fitting m k rs = [f. (sig, m', k', f) \<leftarrow> rs, sig = entity_signature m k \<and> m' = m \<and> k' = k]"

lemma register_all_listed:
  assumes "m \<noteq> NONE"
  shows "register_all rs s = Some s' \<Longrightarrow> factory_list m k s' = factory_list m k s @ fitting m k rs"
proof (induction rs s rule: register_all.induct)
  case (2 sig m' k' f rs s)
  then obtain u where u: "add_callback sig m' k' f s = Some u" "register_all rs u = Some s'"
    by (auto split: option.splits)
  then show ?case using 2(1) add_callback_listed [OF u(1) assms, of k] by (simp add: fitting_def)
qed (simp add: fitting_def)

text \<open>The callbacks that are called are those that were registered for the event.  Of the
  functions that a program registers, execute_callbacks calls exactly the ones that were
  registered for this middleware and this kind with the types of its entities, each once, in
  the order of their registration and with the pointers it was given; a function of another
  type is dropped without a word.  Pointers of other types, or too few of them, are undefined
  behaviour even if nothing is registered.
\<close>
theorem callbacks_as_registered:
  assumes "register_all rs getInstance = Some s"
  shows "execute_callbacks m k args s =
    (if m = NONE then Inr []
     else if map fst (take (length (entity_signature m k)) args) = entity_signature m k
       then Inr (map (\<lambda>f. (f, take (length (entity_signature m k)) args)) (fitting m k rs))
     else Inl Bad_Access)"
proof (cases "m = NONE")
  case False
  have "factory_list m k getInstance = []"
    by (cases k) (simp_all add: factory_list_def getInstance_def no_callbacks_def)
  then have "factory_list m k s = fitting m k rs"
    using register_all_listed [OF False assms, of k] by simp
  then show ?thesis
    using False by (cases m) (auto simp: execute_callbacks_def fast_execute dds_execute va_args_eq entity_signature_def
        factory_list_def call_all_def)
qed (simp add: execute_callbacks_def)

text \<open>Two functions for a new writer of Fast-DDS, one of them with the types of Fast-RTPS.\<close>

definition sample_registrations :: "nat registration list" where
  "sample_registrations =
     [([Dds_Participant, Dds_DataWriter], FASTDDS, CREATE_DATAWRITER, 1),
      ([Rtps_Participant, Rtps_Publisher], FASTDDS, CREATE_DATAWRITER, 2),
      ([Dds_Participant, Dds_DataWriter], FASTDDS, CREATE_DATAWRITER, 3)]"

lemma callbacks_as_registered_witness:
  "\<exists>s. register_all sample_registrations getInstance = Some s \<and>
     execute_callbacks FASTDDS CREATE_DATAWRITER [(Dds_Participant, 10), (Dds_DataWriter, 20)] s =
       Inr [(1, [(Dds_Participant, 10), (Dds_DataWriter, 20)]), (3, [(Dds_Participant, 10), (Dds_DataWriter, 20)])]"
proof -
  obtain s where s: "register_all sample_registrations getInstance = Some s"
    by (simp add: sample_registrations_def add_callback_def)
  show ?thesis
    using callbacks_as_registered [OF s, of FASTDDS CREATE_DATAWRITER "[(Dds_Participant, 10), (Dds_DataWriter, 20)]"] s
    by (intro exI [of _ s]) (simp add: entity_signature_def entity_types_def fitting_def sample_registrations_def)
qed

end
