(* ===== verification/CustomEndPoint.thy ===== *)
theory CustomEndPoint
  imports Containers "HOL-Library.Char_ord" "HOL-Library.List_Lexorder"
begin

text \<open>
  transport/endpoint/CustomEndPoint.hpp: an end point that the user of the agent puts
  together from named members, and types/Optional.hpp.

  A member is a kind and a void pointer, which is null or points to a value of the type that
  set_member_value was called with; the value here knows that type, and a cast to another
  one, or of null, is undefined behaviour.  The map of the members is sorted by name, as
  std::map is.  UINT128 is left out: it is compiled in only where __SIZEOF_UINT128__ is
  defined, and no compiler defines it.
\<close>

section \<open>Members\<close>

datatype MemberKind = UINT8 | UINT16 | UINT32 | UINT64 | STRING

datatype member_value = Value8 u8 | Value16 u16 | Value32 u32 | Value64 u64 | Value_Text string

fun value_kind :: "member_value \<Rightarrow> MemberKind" where
  "value_kind (Value8 x) = UINT8"
| "value_kind (Value16 x) = UINT16"
| "value_kind (Value32 x) = UINT32"
| "value_kind (Value64 x) = UINT64"
| "value_kind (Value_Text x) = STRING"

record Member =
  kind :: MemberKind
  data :: "member_value option"

text \<open>The three exceptions of the class, the one of std::map::at, and undefined behaviour.\<close>

datatype endpoint_error =
    SameKeyException string
  | NoExistingMemberException string
  | EmptyMemberException string
  | Out_Of_Range
  | Undefined_Behaviour

fun bind_endpoint :: "endpoint_error + 'a \<Rightarrow> ('a \<Rightarrow> endpoint_error + 'b) \<Rightarrow> endpoint_error + 'b" where
  "bind_endpoint (Inl e) k = Inl e"
| "bind_endpoint (Inr x) k = k x"

text \<open>The texts of what().\<close>

definition SameKeyException_what :: "string \<Rightarrow> nat \<Rightarrow> string \<Rightarrow> string \<Rightarrow> string" where
  "SameKeyException_what file line func key = file @ '':'' @ digit_string line @ '':'' @ func @
     '': Cannot add two members with the key '' @ [CHR 0x27] @ key @ [CHR 0x27] @ ''.''"

definition NoExistingMemberException_what :: "string \<Rightarrow> nat \<Rightarrow> string \<Rightarrow> string \<Rightarrow> string" where
  "NoExistingMemberException_what file line func key = file @ '':'' @ digit_string line @ '':'' @ func @
     '': Member '' @ [CHR 0x27] @ key @ [CHR 0x27] @ '' does not exist.''"

definition EmptyMemberException_what :: "string \<Rightarrow> string" where
  "EmptyMemberException_what member_name = '': Member '' @ [CHR 0x27] @ member_name @ [CHR 0x27] @ '' is empty.''"

section \<open>The end point\<close>

record CustomEndPoint =
  members :: "(string \<times> Member) list"

definition new_CustomEndPoint :: CustomEndPoint where
  "new_CustomEndPoint = \<lparr>members = []\<rparr>"

text \<open>emplace of a key that is not there, in the order of the keys.\<close>

fun emplace_sorted :: "'k::linorder \<Rightarrow> 'v \<Rightarrow> ('k \<times> 'v) list \<Rightarrow> ('k \<times> 'v) list" where
  "emplace_sorted k v [] = [(k, v)]"
| "emplace_sorted k v (x # m) = (if k < fst x then (k, v) # x # m else x # emplace_sorted k v m)"

definition add_member :: "string \<Rightarrow> MemberKind \<Rightarrow> CustomEndPoint \<Rightarrow> endpoint_error + bool \<times> CustomEndPoint" where
  "add_member name k s =
     (if map_find (members s) name \<noteq> None then Inl (SameKeyException name)
      else Inr (True, s\<lparr>members := emplace_sorted name \<lparr>kind = k, data = None\<rparr> (members s)\<rparr>))"

definition CustomEndPoint_reset :: "CustomEndPoint \<Rightarrow> CustomEndPoint" where
  "CustomEndPoint_reset s = s\<lparr>members := map_values (\<lambda>m. m\<lparr>data := None\<rparr>) (members s)\<rparr>"

definition set_member_value :: "string \<Rightarrow> member_value \<Rightarrow> CustomEndPoint \<Rightarrow> endpoint_error + CustomEndPoint" where
  "set_member_value name v s = (case map_find (members s) name of
     None \<Rightarrow> Inl (NoExistingMemberException name)
   | Some m \<Rightarrow> Inr (s\<lparr>members := map_put name (m\<lparr>data := Some v\<rparr>) (members s)\<rparr>))"

fun check_non_empty :: "(string \<times> Member) list \<Rightarrow> endpoint_error + unit" where
  "check_non_empty [] = Inr ()"
| "check_non_empty ((name, m) # ms) =
     (if data m = None then Inl (EmptyMemberException name) else check_non_empty ms)"

definition check_non_empty_members :: "CustomEndPoint \<Rightarrow> endpoint_error + unit" where
  "check_non_empty_members s = check_non_empty (members s)"

text \<open>The dereference of the data, cast to the type of a kind.\<close>

definition read_as :: "MemberKind \<Rightarrow> Member \<Rightarrow> endpoint_error + member_value" where
  "read_as k m = (case data m of
     None \<Rightarrow> Inl Undefined_Behaviour
   | Some v \<Rightarrow> if value_kind v = k then Inr v else Inl Undefined_Behaviour)"

definition get_member :: "MemberKind \<Rightarrow> string \<Rightarrow> CustomEndPoint \<Rightarrow> endpoint_error + member_value" where
  "get_member k key s = (case map_find (members s) key of
     None \<Rightarrow> Inl (NoExistingMemberException key)
   | Some m \<Rightarrow> read_as k m)"

text \<open>operator\<open><\<close> of two values of one type.\<close>

fun value_less :: "member_value \<Rightarrow> member_value \<Rightarrow> bool" where
  "value_less (Value8 x) (Value8 y) = (x < y)"
| "value_less (Value16 x) (Value16 y) = (x < y)"
| "value_less (Value32 x) (Value32 y) = (x < y)"
| "value_less (Value64 x) (Value64 y) = (x < y)"
| "value_less (Value_Text x) (Value_Text y) = (x < y)"
| "value_less x y = False"

definition less_than_members :: "MemberKind \<Rightarrow> Member \<Rightarrow> Member \<Rightarrow> endpoint_error + int" where
  "less_than_members k first second =
     bind_endpoint (read_as k first) (\<lambda>first_data.
     bind_endpoint (read_as k second) (\<lambda>second_data.
       Inr (if first_data = second_data then 0 else if value_less first_data second_data then - 1 else 1)))"

fun less_loop :: "(string \<times> Member) list \<Rightarrow> CustomEndPoint \<Rightarrow> endpoint_error + bool" where
  "less_loop [] other = Inr False"
| "less_loop ((member_name, member) # ms) other = (case map_find (members other) member_name of
     None \<Rightarrow> Inl Out_Of_Range
   | Some other_member \<Rightarrow>
       bind_endpoint (less_than_members (kind member) member other_member) (\<lambda>res.
       if 0 = res then less_loop ms other else Inr (res < 0)))"

definition CustomEndPoint_less :: "CustomEndPoint \<Rightarrow> CustomEndPoint \<Rightarrow> endpoint_error + bool" where
  "CustomEndPoint_less a b = less_loop (members a) b"

text \<open>operator\<open><<\<close>: a uint8_t is printed as a character.\<close>

fun print_value :: "member_value \<Rightarrow> string" where
  "print_value (Value8 x) = [char_of (unat x)]"
| "print_value (Value16 x) = digit_string (unat x)"
| "print_value (Value32 x) = digit_string (unat x)"
| "print_value (Value64 x) = digit_string (unat x)"
| "print_value (Value_Text x) = [CHR 0x27] @ x @ [CHR 0x27]"

definition print_member :: "Member \<Rightarrow> endpoint_error + string" where
  "print_member m = (if data m = None then Inr ''<null>''
     else bind_endpoint (read_as (kind m) m) (\<lambda>v. Inr (print_value v)))"

fun print_members :: "(string \<times> Member) list \<Rightarrow> endpoint_error + string" where
  "print_members [] = Inr []"
| "print_members ((name, m) # ms) =
     bind_endpoint (print_member m) (\<lambda>text.
     bind_endpoint (print_members ms) (\<lambda>rest.
       Inr (name @ '': '' @ text @ (if ms \<noteq> [] then '', '' else '''') @ rest)))"

definition print_CustomEndPoint :: "CustomEndPoint \<Rightarrow> endpoint_error + string" where
  "print_CustomEndPoint s = print_members (members s)"

section \<open>The map of the members\<close>

definition endpoint_ok :: "CustomEndPoint \<Rightarrow> bool" where
  "endpoint_ok s \<longleftrightarrow> sorted_wrt (<) (map fst (members s))"

lemma endpoint_ok_map: "endpoint_ok s \<Longrightarrow> map_ok (members s)"
  by (simp add: endpoint_ok_def map_ok_def strict_sorted_iff)

lemma keys_emplace_sorted:
  "k \<notin> fst ` set m \<Longrightarrow> sorted_wrt (<) (map fst m) \<Longrightarrow>
     sorted_wrt (<) (map fst (emplace_sorted k v m)) \<and> set (emplace_sorted k v m) = insert (k, v) (set m)"
proof (induction m)
  case (Cons x m)
  show ?case
  proof (cases "k < fst x")
    case True
    then show ?thesis using Cons.prems by (fastforce intro: less_trans)
  next
    case False
    then have "fst x < k" using Cons.prems(1) by auto
    then show ?thesis using False Cons by auto
  qed
qed simp

lemma map_find_emplace_sorted:
  assumes "map_find m k = None" "sorted_wrt (<) (map fst m)"
  shows "map_find (emplace_sorted k v m) k' = (if k' = k then Some v else map_find m k')"
  using assms
proof (induction m)
  case (Cons x m)
  obtain k2 v2 where x: "x = (k2, v2)" by fastforce
  then have "k2 \<noteq> k" "map_find m k = None"
    using Cons.prems(1) by (auto simp: map_find_Cons split: if_splits)
  then show ?case
    using Cons.IH Cons.prems(2) x by (auto simp: map_find_Cons)
qed (simp add: map_find_Cons)

lemma endpoint_ok_ops:
  "endpoint_ok new_CustomEndPoint"
  "add_member name k s = Inr (r, s') \<Longrightarrow> endpoint_ok s \<Longrightarrow> endpoint_ok s'"
  "endpoint_ok s \<Longrightarrow> endpoint_ok (CustomEndPoint_reset s)"
  "set_member_value name v s = Inr s' \<Longrightarrow> endpoint_ok s \<Longrightarrow> endpoint_ok s'"
proof -
  show "endpoint_ok new_CustomEndPoint" by (simp add: endpoint_ok_def new_CustomEndPoint_def)
  show "add_member name k s = Inr (r, s') \<Longrightarrow> endpoint_ok s \<Longrightarrow> endpoint_ok s'"
    using keys_emplace_sorted [of name "members s"]
    by (auto simp: add_member_def endpoint_ok_def map_find_def map_of_eq_None_iff split: if_splits)
  show "endpoint_ok s \<Longrightarrow> endpoint_ok (CustomEndPoint_reset s)"
    by (simp add: endpoint_ok_def CustomEndPoint_reset_def map_values_def comp_def case_prod_beta)
  have "map_find m k \<noteq> None \<Longrightarrow> map fst (map_put k v m) = map fst m" for m :: "(string \<times> Member) list" and k v
    by (auto simp: map_put_def update_keys map_find_def map_of_eq_None_iff)
  then show "set_member_value name v s = Inr s' \<Longrightarrow> endpoint_ok s \<Longrightarrow> endpoint_ok s'"
    by (auto simp: set_member_value_def endpoint_ok_def split: option.splits)
qed

text \<open>A value is read back as the type it was set with, and only so; other members keep theirs.\<close>

lemma set_get_member:
  assumes "set_member_value name v s = Inr s'"
  shows "get_member k name s' = (if k = value_kind v then Inr v else Inl Undefined_Behaviour)"
    and "name' \<noteq> name \<Longrightarrow> get_member k name' s' = get_member k name' s"
proof -
  obtain m where s': "s' = s\<lparr>members := map_put name (m\<lparr>data := Some v\<rparr>) (members s)\<rparr>"
    using assms by (auto simp: set_member_value_def split: option.splits)
  show "get_member k name s' = (if k = value_kind v then Inr v else Inl Undefined_Behaviour)"
    by (simp add: s' get_member_def read_as_def)
  show "name' \<noteq> name \<Longrightarrow> get_member k name' s' = get_member k name' s"
    by (simp add: s' get_member_def)
qed

lemma get_missing_or_empty:
  "map_find (members s) name = None \<Longrightarrow> get_member k name s = Inl (NoExistingMemberException name)"
  "add_member name k s = Inr (r, s') \<Longrightarrow> endpoint_ok s \<Longrightarrow> get_member k' name s' = Inl Undefined_Behaviour"
  by (auto simp: get_member_def read_as_def add_member_def endpoint_ok_def map_find_emplace_sorted split: if_splits)

section \<open>The order of the end points\<close>

text \<open>The values of a type in the order of that type.\<close>

fun kind_index :: "member_value \<Rightarrow> nat" where
  "kind_index (Value8 x) = 0"
| "kind_index (Value16 x) = 1"
| "kind_index (Value32 x) = 2"
| "kind_index (Value64 x) = 3"
| "kind_index (Value_Text x) = 4"

lemma kind_index_eq: "kind_index v = kind_index w \<longleftrightarrow> value_kind v = value_kind w"
  by (cases v; cases w; simp)

instantiation member_value :: linorder
begin

definition less_member_value :: "member_value \<Rightarrow> member_value \<Rightarrow> bool" where
  "less_member_value v w \<longleftrightarrow> kind_index v < kind_index w \<or> value_less v w"

definition less_eq_member_value :: "member_value \<Rightarrow> member_value \<Rightarrow> bool" where
  "less_eq_member_value v w \<longleftrightarrow> v < w \<or> v = (w :: member_value)"

instance
proof
  fix v w x :: member_value
  show "v \<le> v" by (simp add: less_eq_member_value_def)
  show "(v < w) = (v \<le> w \<and> \<not> w \<le> v)"
    by (cases v; cases w) (auto simp: less_eq_member_value_def less_member_value_def)
  show "v \<le> w \<Longrightarrow> w \<le> x \<Longrightarrow> v \<le> x"
    by (cases v; cases w; cases x) (auto simp: less_eq_member_value_def less_member_value_def)
  show "v \<le> w \<Longrightarrow> w \<le> v \<Longrightarrow> v = w"
    by (cases v; cases w) (auto simp: less_eq_member_value_def less_member_value_def)
  show "v \<le> w \<or> w \<le> v"
    by (cases v; cases w) (auto simp: less_eq_member_value_def less_member_value_def)
qed

end

lemma same_kind_less: "value_kind v = value_kind w \<Longrightarrow> value_less v w \<longleftrightarrow> v < w"
  using kind_index_eq [of v w] by (simp add: less_member_value_def)

definition member_filled :: "Member \<Rightarrow> bool" where
  "member_filled m = (case data m of None \<Rightarrow> False | Some v \<Rightarrow> value_kind v = kind m)"

definition filled :: "CustomEndPoint \<Rightarrow> bool" where
  "filled s = list_all (\<lambda>(name, m). member_filled m) (members s)"

definition shape :: "CustomEndPoint \<Rightarrow> (string \<times> MemberKind) list" where
  "shape s = map (\<lambda>(n, m). (n, kind m)) (members s)"

definition member_values :: "CustomEndPoint \<Rightarrow> member_value list" where
  "member_values s = map (\<lambda>(name, m). the (data m)) (members s)"

lemma less_than_members_eq:
  assumes "member_filled m" "member_filled m'" "kind m = kind m'"
  shows "less_than_members (kind m) m m' = Inr (if the (data m) = the (data m') then 0
    else if the (data m) < the (data m') then - 1 else 1)"
  using assms same_kind_less by (auto simp: less_than_members_def read_as_def member_filled_def split: option.splits)

lemma less_loop_eq:
  assumes "map (\<lambda>(n, m). (n, kind m)) ms = map (\<lambda>(n, m). (n, kind m)) ms'"
    "list_all (\<lambda>(n, m). member_filled m) ms" "list_all (\<lambda>(n, m). member_filled m \<and> map_find (members other) n = Some m) ms'"
  shows "less_loop ms other = Inr (map (\<lambda>(n, m). the (data m)) ms < map (\<lambda>(n, m). the (data m)) ms')"
  using assms
proof (induction ms arbitrary: ms')
  case (Cons x ms)
  obtain n m where x: "x = (n, m)" by fastforce
  then obtain m' ms2 where ms': "ms' = (n, m') # ms2" "kind m' = kind m" "map (\<lambda>(n, m). (n, kind m)) ms = map (\<lambda>(n, m). (n, kind m)) ms2"
    using Cons.prems(1) by (cases ms') auto
  have "less_than_members (kind m) m m' = Inr (if the (data m) = the (data m') then 0
    else if the (data m) < the (data m') then - 1 else 1)"
    using Cons.prems(2,3) x ms' by (intro less_than_members_eq) auto
  then show ?case
    using Cons x ms' by auto
qed simp

text \<open>C32: the order of custom end points.  For two end points with the same members, all of them
  set with values of their kinds, operator< does not throw, and it compares the values in the
  lexicographic order of the member names; end points with the same values are the same.  So
  on the end points of one such form it is the linear order that the maps of the session
  manager rely on.
\<close>
theorem custom_endpoint_order:
  assumes "endpoint_ok a" "endpoint_ok b" "filled a" "filled b" "shape a = shape b"
  shows "CustomEndPoint_less a b = Inr (member_values a < member_values b) \<and>
    (member_values a = member_values b \<longleftrightarrow> a = b)"
proof
  have "list_all (\<lambda>(n, m). member_filled m \<and> map_find (members b) n = Some m) (members b)"
    using assms(4) map_find_in_set [OF endpoint_ok_map [OF assms(2)]] by (auto simp: filled_def list_all_iff)
  then show "CustomEndPoint_less a b = Inr (member_values a < member_values b)"
    using less_loop_eq [of "members a" "members b" b] assms(3,5)
    by (simp add: CustomEndPoint_less_def member_values_def shape_def filled_def)
  have "map (\<lambda>(n, m). the (data m)) ms = map (\<lambda>(n, m). the (data m)) ms' \<Longrightarrow> ms = ms'"
    if "map (\<lambda>(n, m). (n, kind m)) ms = map (\<lambda>(n, m). (n, kind m)) ms'" "list_all (\<lambda>(n, m). member_filled m) ms"
      "list_all (\<lambda>(n, m). member_filled m) ms'" for ms ms' :: "(string \<times> Member) list"
    using that
  proof (induction ms arbitrary: ms')
    case (Cons x ms)
    then show ?case
      by (cases ms') (auto simp: member_filled_def split: option.splits)
  qed simp
  then show "member_values a = member_values b \<longleftrightarrow> a = b"
    using assms(3-5) by (auto simp: member_values_def shape_def filled_def intro!: CustomEndPoint.equality)
qed

text \<open>Of other forms, it depends on the side: with a member that the other one lacks it throws.\<close>

lemma custom_endpoint_less_throws:
  assumes "members a = (n, m) # ms" "map_find (members b) n = None"
  shows "CustomEndPoint_less a b = Inl Out_Of_Range"
  using assms by (simp add: CustomEndPoint_less_def)

lemma custom_endpoint_less_empty:
  assumes "members a = (n, m) # ms" "map_find (members b) n = Some m'" "data m = None \<or> data m' = None"
  shows "CustomEndPoint_less a b = Inl Undefined_Behaviour"
  using assms by (cases "data m") (auto simp: CustomEndPoint_less_def less_than_members_def read_as_def)

lemma custom_endpoint_less_new: "CustomEndPoint_less new_CustomEndPoint b = Inr False"
  by (simp add: CustomEndPoint_less_def new_CustomEndPoint_def)

section \<open>Optional.hpp\<close>

text \<open>data_ of an empty Optional is whatever T() leaves there; operator* does not look at present_.\<close>

record 'a Optional =
  present :: bool
  optional_data :: 'a

definition new_Optional :: "'a \<Rightarrow> 'a Optional" where
  "new_Optional d = \<lparr>present = False, optional_data = d\<rparr>"

definition Optional_of :: "'a \<Rightarrow> 'a Optional" where
  "Optional_of x = \<lparr>present = True, optional_data = x\<rparr>"

definition Optional_assign :: "'a \<Rightarrow> 'a Optional \<Rightarrow> 'a Optional" where
  "Optional_assign x s = s\<lparr>present := True, optional_data := x\<rparr>"

text \<open>operator->: a pointer to the value, or null.\<close>

definition Optional_arrow :: "'a Optional \<Rightarrow> 'a option" where
  "Optional_arrow s = (if present s then Some (optional_data s) else None)"

definition Optional_star :: "'a Optional \<Rightarrow> 'a" where
  "Optional_star s = optional_data s"

definition Optional_bool :: "'a Optional \<Rightarrow> bool" where
  "Optional_bool s = present s"

lemmas optional_defs = new_Optional_def Optional_of_def Optional_assign_def Optional_arrow_def Optional_star_def
  Optional_bool_def

lemma optional_value:
  "Optional_arrow (new_Optional d) = None" "Optional_star (new_Optional d) = d"
  "Optional_arrow (Optional_of x) = Some x"
  "Optional_arrow (Optional_assign x s) = Some x" "Optional_star (Optional_assign x s) = x"
  "Optional_bool s \<longleftrightarrow> Optional_arrow s \<noteq> None"
  "Optional_bool s \<Longrightarrow> Optional_arrow s = Some (Optional_star s)"
  by (simp_all add: optional_defs)

section \<open>Witnesses\<close>

definition sample_endpoint :: "u16 \<Rightarrow> CustomEndPoint" where
  "sample_endpoint p = \<lparr>members = [(''address'', \<lparr>kind = STRING, data = Some (Value_Text ''::1'')\<rparr>),
     (''port'', \<lparr>kind = UINT16, data = Some (Value16 p)\<rparr>)]\<rparr>"

lemma custom_endpoint_order_witness:
  "CustomEndPoint_less (sample_endpoint 80) (sample_endpoint 443) = Inr True \<and>
   CustomEndPoint_less (sample_endpoint 443) (sample_endpoint 80) = Inr False"
proof -
  have "endpoint_ok (sample_endpoint p)" "filled (sample_endpoint p)" "shape (sample_endpoint p) = shape (sample_endpoint q)" for p q
    by (simp_all add: endpoint_ok_def sample_endpoint_def filled_def member_filled_def shape_def)
  then have "CustomEndPoint_less (sample_endpoint p) (sample_endpoint q) =
      Inr (member_values (sample_endpoint p) < member_values (sample_endpoint q))" for p q
    using custom_endpoint_order by blast
  then show ?thesis
    by (simp add: member_values_def sample_endpoint_def less_member_value_def)
qed

end
