(* ===== verification/XrceData.thy ===== *)
theory XrceData
  imports XrceTypes Transports Reader CustomEndPoint
begin

text \<open>
  types/XRCETypes.hpp: the data of the XRCE protocol, from the representations of the objects
  that a client creates to the payloads of the submessages.  A structure is a record with
  the members of the class; its accessors are the selectors and updates of the record.  A
  class derived from another extends its record.  A union is a datatype with a constructor
  per member, and the function named after it with \<open>_d\<close> is its discriminator.  The
  serialisers, and the accessors of the unions, are compiled into the agent's library.

  An optional member is an Optional (CustomEndPoint): some accessors look whether it is there
  and throw, others do not look.  int16_t and int32_t members are words, read with sint.
\<close>

section \<open>Identifiers and versions\<close>

type_synonym ObjectPrefix = "u8 \<times> u8"
type_synonym XrceCookie = "u8 list"
type_synonym XrceVersion = "u8 list"
type_synonym XrceVendorId = "u8 list"

definition OBJK_INVALID :: ObjectKind where "OBJK_INVALID = 0x00"
definition OBJK_PARTICIPANT :: ObjectKind where "OBJK_PARTICIPANT = 0x01"
definition OBJK_TOPIC :: ObjectKind where "OBJK_TOPIC = 0x02"
definition OBJK_PUBLISHER :: ObjectKind where "OBJK_PUBLISHER = 0x03"
definition OBJK_SUBSCRIBER :: ObjectKind where "OBJK_SUBSCRIBER = 0x04"
definition OBJK_DATAWRITER :: ObjectKind where "OBJK_DATAWRITER = 0x05"
definition OBJK_DATAREADER :: ObjectKind where "OBJK_DATAREADER = 0x06"
definition OBJK_REQUESTER :: ObjectKind where "OBJK_REQUESTER = 0x07"
definition OBJK_REPLIER :: ObjectKind where "OBJK_REPLIER = 0x08"
definition OBJK_TYPE :: ObjectKind where "OBJK_TYPE = 0x0A"
definition OBJK_QOSPROFILE :: ObjectKind where "OBJK_QOSPROFILE = 0x0B"
definition OBJK_APPLICATION :: ObjectKind where "OBJK_APPLICATION = 0x0C"
definition OBJK_AGENT :: ObjectKind where "OBJK_AGENT = 0x0D"
definition OBJK_CLIENT :: ObjectKind where "OBJK_CLIENT = 0x0E"
definition OBJK_OTHER :: ObjectKind where "OBJK_OTHER = 0x0F"

definition CLIENTKEY_INVALID :: ClientKey where "CLIENTKEY_INVALID = (0, 0, 0, 0)"
definition OBJECTID_INVALID :: ObjectId where "OBJECTID_INVALID = (0x00, 0x00)"
definition OBJECTID_AGENT :: ObjectId where "OBJECTID_AGENT = (0xFF, 0xFD)"
definition OBJECTID_CLIENT :: ObjectId where "OBJECTID_CLIENT = (0xFF, 0xFE)"
definition OBJECTID_SESSION :: ObjectId where "OBJECTID_SESSION = (0xFF, 0xFF)"
definition XRCE_COOKIE :: XrceCookie where "XRCE_COOKIE = [0x58, 0x52, 0x43, 0x45]"
definition XRCE_VERSION_MAJOR :: u8 where "XRCE_VERSION_MAJOR = 0x01"
definition XRCE_VERSION_MINOR :: u8 where "XRCE_VERSION_MINOR = 0x00"
definition XRCE_VERSION :: XrceVersion where "XRCE_VERSION = [XRCE_VERSION_MAJOR, XRCE_VERSION_MINOR]"
definition XRCE_VENDOR_INVALID1 :: u8 where "XRCE_VENDOR_INVALID1 = 0x00"
definition XRCE_VENDOR_INVALID2 :: u8 where "XRCE_VENDOR_INVALID2 = 0x00"

datatype Endianness = BIG_ENDIANNESS | LITTLE_ENDIANNESS

text \<open>An optional member: what an accessor that looks returns.\<close>

definition selected :: "'a Optional \<Rightarrow> 'a res" where
  "selected x = (if Optional_bool x then Inr (Optional_star x) else Inl Uncaught_Exception)"

section \<open>Clients and agents\<close>

record Time_t =
  m_seconds :: u32
  m_nanoseconds :: u32

record Property =
  m_name :: string
  m_value :: string

type_synonym PropertySeq = "Property list"

record CLIENT_Representation =
  m_xrce_cookie :: XrceCookie
  m_xrce_version :: XrceVersion
  m_xrce_vendor_id :: XrceVendorId
  m_client_key :: ClientKey
  m_session_id :: SessionId
  m_properties :: "PropertySeq Optional"
  m_mtu :: u16

record AGENT_Representation =
  m_xrce_cookie :: XrceCookie
  m_xrce_version :: XrceVersion
  m_xrce_vendor_id :: XrceVendorId
  m_properties :: "PropertySeq Optional"

section \<open>Representations of objects\<close>

type_synonym RepresentationFormat = u8
definition REPRESENTATION_BY_REFERENCE :: RepresentationFormat where "REPRESENTATION_BY_REFERENCE = 0x01"
definition REPRESENTATION_AS_XML_STRING :: RepresentationFormat where "REPRESENTATION_AS_XML_STRING = 0x02"
definition REPRESENTATION_IN_BINARY :: RepresentationFormat where "REPRESENTATION_IN_BINARY = 0x03"
definition REFERENCE_MAX_LEN :: nat where "REFERENCE_MAX_LEN = 128"

datatype OBJK_Representation3Formats =
    Reference3 string
  | Xml3 string
  | Binary3 "u8 list"

fun OBJK_Representation3Formats_d :: "OBJK_Representation3Formats \<Rightarrow> RepresentationFormat" where
  "OBJK_Representation3Formats_d (Reference3 _) = REPRESENTATION_BY_REFERENCE"
| "OBJK_Representation3Formats_d (Xml3 _) = REPRESENTATION_AS_XML_STRING"
| "OBJK_Representation3Formats_d (Binary3 _) = REPRESENTATION_IN_BINARY"

datatype OBJK_RepresentationRefAndXMLFormats =
    Reference2 string
  | Xml2 string

fun OBJK_RepresentationRefAndXMLFormats_d :: "OBJK_RepresentationRefAndXMLFormats \<Rightarrow> RepresentationFormat" where
  "OBJK_RepresentationRefAndXMLFormats_d (Reference2 _) = REPRESENTATION_BY_REFERENCE"
| "OBJK_RepresentationRefAndXMLFormats_d (Xml2 _) = REPRESENTATION_AS_XML_STRING"

datatype OBJK_RepresentationBinAndXMLFormats =
    Binary_or_Xml_Binary "u8 list"
  | Binary_or_Xml_String string

fun OBJK_RepresentationBinAndXMLFormats_d :: "OBJK_RepresentationBinAndXMLFormats \<Rightarrow> RepresentationFormat" where
  "OBJK_RepresentationBinAndXMLFormats_d (Binary_or_Xml_Binary _) = REPRESENTATION_IN_BINARY"
| "OBJK_RepresentationBinAndXMLFormats_d (Binary_or_Xml_String _) = REPRESENTATION_AS_XML_STRING"

record OBJK_RepresentationRefAndXML_Base =
  m_representation :: OBJK_RepresentationRefAndXMLFormats

record OBJK_RepresentationBinAndXML_Base =
  m_representation :: OBJK_RepresentationBinAndXMLFormats
  m_endianness :: Endianness

record OBJK_Representation3_Base =
  m_representation :: OBJK_Representation3Formats
  m_endianness :: Endianness

type_synonym OBJK_QOSPROFILE_Representation = OBJK_RepresentationRefAndXML_Base

type_synonym OBJK_TYPE_Representation = OBJK_RepresentationRefAndXML_Base

type_synonym OBJK_DOMAIN_Representation = OBJK_RepresentationRefAndXML_Base

type_synonym OBJK_APPLICATION_Representation = OBJK_RepresentationRefAndXML_Base

record OBJK_PARTICIPANT_Representation = OBJK_Representation3_Base +
  m_domain_id :: u16

record OBJK_TOPIC_Representation = OBJK_Representation3_Base +
  m_participant_id :: ObjectId

record OBJK_PUBLISHER_Representation = OBJK_RepresentationBinAndXML_Base +
  m_participant_id :: ObjectId

record OBJK_SUBSCRIBER_Representation = OBJK_RepresentationBinAndXML_Base +
  m_participant_id :: ObjectId

record DATAWRITER_Representation = OBJK_Representation3_Base +
  m_publisher_id :: ObjectId

record DATAREADER_Representation = OBJK_Representation3_Base +
  m_subscriber_id :: ObjectId

record REQUESTER_Representation = OBJK_Representation3_Base +
  m_participant_id :: ObjectId

record REPLIER_Representation = OBJK_Representation3_Base +
  m_participant_id :: ObjectId

section \<open>Binary representations\<close>

record OBJK_DomainParticipant_Binary =
  m_domain_id :: u32
  m_domain_reference :: "string Optional"
  m_qos_profile :: "string Optional"

definition OBJK_DomainParticipant_Binary_set_domain_referente :: "string \<Rightarrow> OBJK_DomainParticipant_Binary \<Rightarrow> OBJK_DomainParticipant_Binary" where
  "OBJK_DomainParticipant_Binary_set_domain_referente v x = x\<lparr>m_domain_reference := Optional_assign v (m_domain_reference x)\<rparr>"

definition OBJK_DomainParticipant_Binary_domain_referente :: "OBJK_DomainParticipant_Binary \<Rightarrow> string" where
  "OBJK_DomainParticipant_Binary_domain_referente x = Optional_star (m_domain_reference x)"

definition OBJK_DomainParticipant_Binary_set_qos_profile :: "string \<Rightarrow> OBJK_DomainParticipant_Binary \<Rightarrow> OBJK_DomainParticipant_Binary" where
  "OBJK_DomainParticipant_Binary_set_qos_profile v x = x\<lparr>m_qos_profile := Optional_assign v (m_qos_profile x)\<rparr>"

definition OBJK_DomainParticipant_Binary_has_qos_profile :: "OBJK_DomainParticipant_Binary \<Rightarrow> bool" where
  "OBJK_DomainParticipant_Binary_has_qos_profile x = Optional_bool (m_qos_profile x)"

definition OBJK_DomainParticipant_Binary_qos_profile :: "OBJK_DomainParticipant_Binary \<Rightarrow> string" where
  "OBJK_DomainParticipant_Binary_qos_profile x = Optional_star (m_qos_profile x)"

record OBJK_Topic_Binary =
  m_topic_name :: string
  m_type_name :: "string Optional"
  m_type_identifier :: "string Optional"

definition OBJK_Topic_Binary_set_type_name :: "string \<Rightarrow> OBJK_Topic_Binary \<Rightarrow> OBJK_Topic_Binary" where
  "OBJK_Topic_Binary_set_type_name v x = x\<lparr>m_type_name := Optional_assign v (m_type_name x)\<rparr>"

definition OBJK_Topic_Binary_type_name :: "OBJK_Topic_Binary \<Rightarrow> string" where
  "OBJK_Topic_Binary_type_name x = Optional_star (m_type_name x)"

definition OBJK_Topic_Binary_set_type_identifier :: "string \<Rightarrow> OBJK_Topic_Binary \<Rightarrow> OBJK_Topic_Binary" where
  "OBJK_Topic_Binary_set_type_identifier v x = x\<lparr>m_type_identifier := Optional_assign v (m_type_identifier x)\<rparr>"

definition OBJK_Topic_Binary_type_identifier :: "OBJK_Topic_Binary \<Rightarrow> string" where
  "OBJK_Topic_Binary_type_identifier x = Optional_star (m_type_identifier x)"

record OBJK_PUBLISHER_QosBinary =
  m_partitions :: "string list"
  m_group_data :: "string list"

record OBJK_Publisher_Binary =
  m_publisher_name :: "string Optional"
  m_qos :: "OBJK_PUBLISHER_QosBinary Optional"

definition OBJK_Publisher_Binary_set_publisher_name :: "string \<Rightarrow> OBJK_Publisher_Binary \<Rightarrow> OBJK_Publisher_Binary" where
  "OBJK_Publisher_Binary_set_publisher_name v x = x\<lparr>m_publisher_name := Optional_assign v (m_publisher_name x)\<rparr>"

definition OBJK_Publisher_Binary_publisher_name :: "OBJK_Publisher_Binary \<Rightarrow> string" where
  "OBJK_Publisher_Binary_publisher_name x = Optional_star (m_publisher_name x)"

definition OBJK_Publisher_Binary_set_qos :: "OBJK_PUBLISHER_QosBinary \<Rightarrow> OBJK_Publisher_Binary \<Rightarrow> OBJK_Publisher_Binary" where
  "OBJK_Publisher_Binary_set_qos v x = x\<lparr>m_qos := Optional_assign v (m_qos x)\<rparr>"

definition OBJK_Publisher_Binary_has_qos :: "OBJK_Publisher_Binary \<Rightarrow> bool" where
  "OBJK_Publisher_Binary_has_qos x = Optional_bool (m_qos x)"

definition OBJK_Publisher_Binary_qos :: "OBJK_Publisher_Binary \<Rightarrow> OBJK_PUBLISHER_QosBinary" where
  "OBJK_Publisher_Binary_qos x = Optional_star (m_qos x)"

record OBJK_SUBSCRIBER_QosBinary =
  m_partitions :: "string list"
  m_group_data :: "u8 list"

record OBJK_Subscriber_Binary =
  m_subscriber_name :: "string Optional"
  m_qos :: "OBJK_SUBSCRIBER_QosBinary Optional"

definition OBJK_Subscriber_Binary_set_subscriber_name :: "string \<Rightarrow> OBJK_Subscriber_Binary \<Rightarrow> OBJK_Subscriber_Binary" where
  "OBJK_Subscriber_Binary_set_subscriber_name v x = x\<lparr>m_subscriber_name := Optional_assign v (m_subscriber_name x)\<rparr>"

definition OBJK_Subscriber_Binary_subscriber_name :: "OBJK_Subscriber_Binary \<Rightarrow> string" where
  "OBJK_Subscriber_Binary_subscriber_name x = Optional_star (m_subscriber_name x)"

definition OBJK_Subscriber_Binary_set_qos :: "OBJK_SUBSCRIBER_QosBinary \<Rightarrow> OBJK_Subscriber_Binary \<Rightarrow> OBJK_Subscriber_Binary" where
  "OBJK_Subscriber_Binary_set_qos v x = x\<lparr>m_qos := Optional_assign v (m_qos x)\<rparr>"

definition OBJK_Subscriber_Binary_has_qos :: "OBJK_Subscriber_Binary \<Rightarrow> bool" where
  "OBJK_Subscriber_Binary_has_qos x = Optional_bool (m_qos x)"

definition OBJK_Subscriber_Binary_qos :: "OBJK_Subscriber_Binary \<Rightarrow> OBJK_SUBSCRIBER_QosBinary" where
  "OBJK_Subscriber_Binary_qos x = Optional_star (m_qos x)"

text \<open>Flags of an end point.\<close>

type_synonym EndpointQosFlags = u16
definition is_reliable :: EndpointQosFlags where "is_reliable = push_bit 0 1"
definition is_history_keep_last :: EndpointQosFlags where "is_history_keep_last = push_bit 1 1"
definition is_ownership_exclusive :: EndpointQosFlags where "is_ownership_exclusive = push_bit 2 1"
definition is_durability_transient_local :: EndpointQosFlags where "is_durability_transient_local = push_bit 3 1"
definition is_durability_transient :: EndpointQosFlags where "is_durability_transient = push_bit 4 1"
definition is_durability_persistent :: EndpointQosFlags where "is_durability_persistent = push_bit 5 1"

record OBJK_Endpoint_QosBinary =
  m_qos_flags :: EndpointQosFlags
  m_history_depth :: "u16 Optional"
  m_deadline_msec :: "u32 Optional"
  m_lifespan_msec :: "u32 Optional"
  m_user_data :: "u8 list Optional"

definition OBJK_Endpoint_QosBinary_set_history_depth :: "u16 \<Rightarrow> OBJK_Endpoint_QosBinary \<Rightarrow> OBJK_Endpoint_QosBinary" where
  "OBJK_Endpoint_QosBinary_set_history_depth v x = x\<lparr>m_history_depth := Optional_assign v (m_history_depth x)\<rparr>"

definition OBJK_Endpoint_QosBinary_has_history_depth :: "OBJK_Endpoint_QosBinary \<Rightarrow> bool" where
  "OBJK_Endpoint_QosBinary_has_history_depth x = Optional_bool (m_history_depth x)"

definition OBJK_Endpoint_QosBinary_history_depth :: "OBJK_Endpoint_QosBinary \<Rightarrow> u16" where
  "OBJK_Endpoint_QosBinary_history_depth x = Optional_star (m_history_depth x)"

definition OBJK_Endpoint_QosBinary_set_deadline_msec :: "u32 \<Rightarrow> OBJK_Endpoint_QosBinary \<Rightarrow> OBJK_Endpoint_QosBinary" where
  "OBJK_Endpoint_QosBinary_set_deadline_msec v x = x\<lparr>m_deadline_msec := Optional_assign v (m_deadline_msec x)\<rparr>"

definition OBJK_Endpoint_QosBinary_has_deadline_msec :: "OBJK_Endpoint_QosBinary \<Rightarrow> bool" where
  "OBJK_Endpoint_QosBinary_has_deadline_msec x = Optional_bool (m_deadline_msec x)"

definition OBJK_Endpoint_QosBinary_deadline_msec :: "OBJK_Endpoint_QosBinary \<Rightarrow> u32" where
  "OBJK_Endpoint_QosBinary_deadline_msec x = Optional_star (m_deadline_msec x)"

definition OBJK_Endpoint_QosBinary_set_lifespan_msec :: "u32 \<Rightarrow> OBJK_Endpoint_QosBinary \<Rightarrow> OBJK_Endpoint_QosBinary" where
  "OBJK_Endpoint_QosBinary_set_lifespan_msec v x = x\<lparr>m_lifespan_msec := Optional_assign v (m_lifespan_msec x)\<rparr>"

definition OBJK_Endpoint_QosBinary_has_lifespan_msec :: "OBJK_Endpoint_QosBinary \<Rightarrow> bool" where
  "OBJK_Endpoint_QosBinary_has_lifespan_msec x = Optional_bool (m_lifespan_msec x)"

definition OBJK_Endpoint_QosBinary_lifespan_msec :: "OBJK_Endpoint_QosBinary \<Rightarrow> u32" where
  "OBJK_Endpoint_QosBinary_lifespan_msec x = Optional_star (m_lifespan_msec x)"

definition OBJK_Endpoint_QosBinary_set_user_data :: "u8 list \<Rightarrow> OBJK_Endpoint_QosBinary \<Rightarrow> OBJK_Endpoint_QosBinary" where
  "OBJK_Endpoint_QosBinary_set_user_data v x = x\<lparr>m_user_data := Optional_assign v (m_user_data x)\<rparr>"

definition OBJK_Endpoint_QosBinary_user_data :: "OBJK_Endpoint_QosBinary \<Rightarrow> u8 list" where
  "OBJK_Endpoint_QosBinary_user_data x = Optional_star (m_user_data x)"

record OBJK_DataReader_Binary_Qos =
  m_base :: OBJK_Endpoint_QosBinary
  m_timebasedfilter_msec :: "u32 Optional"
  m_contentbased_filter :: "string Optional"

definition OBJK_DataReader_Binary_Qos_has_timebasedfilter_msec :: "OBJK_DataReader_Binary_Qos \<Rightarrow> bool" where
  "OBJK_DataReader_Binary_Qos_has_timebasedfilter_msec x = Optional_bool (m_timebasedfilter_msec x)"

record OBJK_DataReader_Binary =
  m_topic_id :: ObjectId
  m_qos :: "OBJK_DataReader_Binary_Qos Optional"

definition OBJK_DataReader_Binary_has_qos :: "OBJK_DataReader_Binary \<Rightarrow> bool" where
  "OBJK_DataReader_Binary_has_qos x = Optional_bool (m_qos x)"

record OBJK_DataWriter_Binary_Qos =
  m_base :: OBJK_Endpoint_QosBinary
  m_ownership_strength :: "u32 Optional"

definition OBJK_DataWriter_Binary_Qos_has_ownership_strength :: "OBJK_DataWriter_Binary_Qos \<Rightarrow> bool" where
  "OBJK_DataWriter_Binary_Qos_has_ownership_strength x = Optional_bool (m_ownership_strength x)"

record OBJK_DataWriter_Binary =
  m_topic_id :: ObjectId
  m_qos :: "OBJK_DataWriter_Binary_Qos Optional"

definition OBJK_DataWriter_Binary_set_qos :: "OBJK_DataWriter_Binary_Qos \<Rightarrow> OBJK_DataWriter_Binary \<Rightarrow> OBJK_DataWriter_Binary" where
  "OBJK_DataWriter_Binary_set_qos v x = x\<lparr>m_qos := Optional_assign v (m_qos x)\<rparr>"

definition OBJK_DataWriter_Binary_has_qos :: "OBJK_DataWriter_Binary \<Rightarrow> bool" where
  "OBJK_DataWriter_Binary_has_qos x = Optional_bool (m_qos x)"

definition OBJK_DataWriter_Binary_qos :: "OBJK_DataWriter_Binary \<Rightarrow> OBJK_DataWriter_Binary_Qos" where
  "OBJK_DataWriter_Binary_qos x = Optional_star (m_qos x)"

record OBJK_Requester_Binary =
  m_service_name :: string
  m_request_type :: string
  m_reply_type :: string
  m_reply_topic_name :: "string Optional"
  m_request_topic_name :: "string Optional"

record OBJK_Replier_Binary =
  m_service_name :: string
  m_request_type :: string
  m_reply_type :: string
  m_reply_topic_name :: "string Optional"
  m_request_topic_name :: "string Optional"

section \<open>Objects of any kind\<close>

text \<open>The endianness is a member of its own, next to the union.\<close>

datatype ObjectVariant =
    Variant_Agent Endianness AGENT_Representation
  | Variant_Client Endianness CLIENT_Representation
  | Variant_Application Endianness OBJK_APPLICATION_Representation
  | Variant_Participant Endianness OBJK_PARTICIPANT_Representation
  | Variant_QosProfile Endianness OBJK_QOSPROFILE_Representation
  | Variant_Type Endianness OBJK_TYPE_Representation
  | Variant_Topic Endianness OBJK_TOPIC_Representation
  | Variant_Publisher Endianness OBJK_PUBLISHER_Representation
  | Variant_Subscriber Endianness OBJK_SUBSCRIBER_Representation
  | Variant_DataWriter Endianness DATAWRITER_Representation
  | Variant_DataReader Endianness DATAREADER_Representation
  | Variant_Requester Endianness REQUESTER_Representation
  | Variant_Replier Endianness REPLIER_Representation

fun ObjectVariant_d :: "ObjectVariant \<Rightarrow> ObjectKind" where
  "ObjectVariant_d (Variant_Agent _ _) = OBJK_AGENT"
| "ObjectVariant_d (Variant_Client _ _) = OBJK_CLIENT"
| "ObjectVariant_d (Variant_Application _ _) = OBJK_APPLICATION"
| "ObjectVariant_d (Variant_Participant _ _) = OBJK_PARTICIPANT"
| "ObjectVariant_d (Variant_QosProfile _ _) = OBJK_QOSPROFILE"
| "ObjectVariant_d (Variant_Type _ _) = OBJK_TYPE"
| "ObjectVariant_d (Variant_Topic _ _) = OBJK_TOPIC"
| "ObjectVariant_d (Variant_Publisher _ _) = OBJK_PUBLISHER"
| "ObjectVariant_d (Variant_Subscriber _ _) = OBJK_SUBSCRIBER"
| "ObjectVariant_d (Variant_DataWriter _ _) = OBJK_DATAWRITER"
| "ObjectVariant_d (Variant_DataReader _ _) = OBJK_DATAREADER"
| "ObjectVariant_d (Variant_Requester _ _) = OBJK_REQUESTER"
| "ObjectVariant_d (Variant_Replier _ _) = OBJK_REPLIER"

section \<open>Status and information\<close>

record CreationMode =
  m_reuse :: bool
  m_replace :: bool

type_synonym RequestId = "u8 list"
type_synonym StatusValue = u8
definition STATUS_OK :: StatusValue where "STATUS_OK = 0x00"
definition STATUS_OK_MATCHED :: StatusValue where "STATUS_OK_MATCHED = 0x01"
definition STATUS_ERR_DDS_ERROR :: StatusValue where "STATUS_ERR_DDS_ERROR = 0x80"
definition STATUS_ERR_MISMATCH :: StatusValue where "STATUS_ERR_MISMATCH = 0x81"
definition STATUS_ERR_ALREADY_EXISTS :: StatusValue where "STATUS_ERR_ALREADY_EXISTS = 0x82"
definition STATUS_ERR_DENIED :: StatusValue where "STATUS_ERR_DENIED = 0x83"
definition STATUS_ERR_UNKNOWN_REFERENCE :: StatusValue where "STATUS_ERR_UNKNOWN_REFERENCE = 0x84"
definition STATUS_ERR_INVALID_DATA :: StatusValue where "STATUS_ERR_INVALID_DATA = 0x85"
definition STATUS_ERR_INCOMPATIBLE :: StatusValue where "STATUS_ERR_INCOMPATIBLE = 0x86"
definition STATUS_ERR_RESOURCES :: StatusValue where "STATUS_ERR_RESOURCES = 0x87"

record ResultStatus =
  m_status :: StatusValue
  m_implementation_status :: u8

type_synonym InfoMask = u32
definition INFO_CONFIGURATION :: InfoMask where "INFO_CONFIGURATION = push_bit 0 1"
definition INFO_ACTIVITY :: InfoMask where "INFO_ACTIVITY = push_bit 1 1"

type_synonym TransportAddressSeq = "TransportAddress list"

record AGENT_ActivityInfo =
  m_availability :: u16
  m_address_seq :: TransportAddressSeq

record DATAREADER_ActivityInfo =
  m_highest_acked_num :: u16

record DATAWRITER_ActivityInfo =
  m_stream_seq_num :: u16
  m_sample_seq_num :: u64

datatype ActivityInfoVariant =
    Activity_Agent AGENT_ActivityInfo
  | Activity_DataWriter DATAWRITER_ActivityInfo
  | Activity_DataReader DATAREADER_ActivityInfo

fun ActivityInfoVariant_d :: "ActivityInfoVariant \<Rightarrow> ObjectKind" where
  "ActivityInfoVariant_d (Activity_Agent _) = OBJK_AGENT"
| "ActivityInfoVariant_d (Activity_DataWriter _) = OBJK_DATAWRITER"
| "ActivityInfoVariant_d (Activity_DataReader _) = OBJK_DATAREADER"

record ObjectInfo =
  m_config :: "ObjectVariant Optional"
  m_activity :: "ActivityInfoVariant Optional"

definition ObjectInfo_set_config :: "ObjectVariant \<Rightarrow> ObjectInfo \<Rightarrow> ObjectInfo" where
  "ObjectInfo_set_config v x = x\<lparr>m_config := Optional_assign v (m_config x)\<rparr>"

definition ObjectInfo_has_config :: "ObjectInfo \<Rightarrow> bool" where
  "ObjectInfo_has_config x = Optional_bool (m_config x)"

definition ObjectInfo_config :: "ObjectInfo \<Rightarrow> ObjectVariant res" where
  "ObjectInfo_config x = selected (m_config x)"

definition ObjectInfo_set_activity :: "ActivityInfoVariant \<Rightarrow> ObjectInfo \<Rightarrow> ObjectInfo" where
  "ObjectInfo_set_activity v x = x\<lparr>m_activity := Optional_assign v (m_activity x)\<rparr>"

definition ObjectInfo_has_activity :: "ObjectInfo \<Rightarrow> bool" where
  "ObjectInfo_has_activity x = Optional_bool (m_activity x)"

definition ObjectInfo_activity :: "ObjectInfo \<Rightarrow> ActivityInfoVariant res" where
  "ObjectInfo_activity x = selected (m_activity x)"

section \<open>Samples\<close>

type_synonym DataFormat = u8
definition FORMAT_DATA :: DataFormat where "FORMAT_DATA = 0x00"
definition FORMAT_SAMPLE :: DataFormat where "FORMAT_SAMPLE = 0x02"
definition FORMAT_DATA_SEQ :: DataFormat where "FORMAT_DATA_SEQ = 0x08"
definition FORMAT_SAMPLE_SEQ :: DataFormat where "FORMAT_SAMPLE_SEQ = 0x0A"
definition FORMAT_PACKED_SAMPLES :: DataFormat where "FORMAT_PACKED_SAMPLES = 0x0E"
definition FORMAT_MASK :: DataFormat where "FORMAT_MASK = 0x0E"

record ReadSpecification =
  m_preferred_stream_id :: StreamId
  m_data_format :: DataFormat
  m_content_filter_expression :: "string Optional"
  m_delivery_control :: "DataDeliveryControl Optional"

definition ReadSpecification_set_content_filter_expression :: "string \<Rightarrow> ReadSpecification \<Rightarrow> ReadSpecification" where
  "ReadSpecification_set_content_filter_expression v x = x\<lparr>m_content_filter_expression := Optional_assign v (m_content_filter_expression x)\<rparr>"

definition ReadSpecification_has_content_filter_expression :: "ReadSpecification \<Rightarrow> bool" where
  "ReadSpecification_has_content_filter_expression x = Optional_bool (m_content_filter_expression x)"

definition ReadSpecification_content_filter_expression :: "ReadSpecification \<Rightarrow> string res" where
  "ReadSpecification_content_filter_expression x = selected (m_content_filter_expression x)"

definition ReadSpecification_set_delivery_control :: "DataDeliveryControl \<Rightarrow> ReadSpecification \<Rightarrow> ReadSpecification" where
  "ReadSpecification_set_delivery_control v x = x\<lparr>m_delivery_control := Optional_assign v (m_delivery_control x)\<rparr>"

definition ReadSpecification_has_delivery_control :: "ReadSpecification \<Rightarrow> bool" where
  "ReadSpecification_has_delivery_control x = Optional_bool (m_delivery_control x)"

definition ReadSpecification_delivery_control :: "ReadSpecification \<Rightarrow> DataDeliveryControl res" where
  "ReadSpecification_delivery_control x = selected (m_delivery_control x)"

type_synonym SampleInfoFlags = u8
definition INSTANCE_STATE_UNREGISTERED :: SampleInfoFlags where "INSTANCE_STATE_UNREGISTERED = push_bit 0 1"
definition INSTANCE_STATE_DISPOSED :: SampleInfoFlags where "INSTANCE_STATE_DISPOSED = push_bit 1 1"
definition VIEW_STATE_NEW :: SampleInfoFlags where "VIEW_STATE_NEW = push_bit 2 1"
definition SAMPLE_STATE_READ :: SampleInfoFlags where "SAMPLE_STATE_READ = push_bit 3 1"
type_synonym DeciSecond = u16

record SampleInfo =
  m_state :: SampleInfoFlags
  m_sequence_number :: u32
  m_session_time_offset :: u32

record SampleInfoDelta =
  m_state :: SampleInfoFlags
  m_seq_number_delta :: u8
  m_timestamp_delta :: DeciSecond

record SampleData =
  m_serialized_data :: "u8 list"

definition SampleData_resize :: "nat \<Rightarrow> SampleData \<Rightarrow> SampleData" where
  "SampleData_resize n s = s\<lparr>m_serialized_data := take n (m_serialized_data s) @ replicate (n - length (m_serialized_data s)) 0\<rparr>"

record Sample =
  m_info :: SampleInfo
  m_data :: SampleData

record SampleDelta =
  m_info_delta :: SampleInfoDelta
  m_data :: SampleData

record PackedSamples =
  m_info_base :: SampleInfo
  m_sample_delta_seq :: "SampleDelta list"

type_synonym SampleDataSeq = "SampleData list"
type_synonym SampleSeq = "Sample list"
type_synonym SamplePackedSeq = "PackedSamples list"

datatype DataRepresentation =
    Format_Data SampleData
  | Format_Sample Sample
  | Format_DataSeq SampleDataSeq
  | Format_SampleSeq SampleSeq
  | Format_PackedSamples PackedSamples

fun DataRepresentation_d :: "DataRepresentation \<Rightarrow> DataFormat" where
  "DataRepresentation_d (Format_Data _) = FORMAT_DATA"
| "DataRepresentation_d (Format_Sample _) = FORMAT_SAMPLE"
| "DataRepresentation_d (Format_DataSeq _) = FORMAT_DATA_SEQ"
| "DataRepresentation_d (Format_SampleSeq _) = FORMAT_SAMPLE_SEQ"
| "DataRepresentation_d (Format_PackedSamples _) = FORMAT_PACKED_SAMPLES"

section \<open>Payloads of submessages\<close>

record BaseObjectRequest =
  m_request_id :: RequestId
  m_object_id :: ObjectId

type_synonym RelatedObjectRequest = BaseObjectRequest

record BaseObjectReply =
  m_related_request :: BaseObjectRequest
  m_result :: ResultStatus

record CREATE_CLIENT_Payload =
  m_client_representation :: CLIENT_Representation

record CREATE_Payload = BaseObjectRequest +
  m_object_representation :: ObjectVariant

record GET_INFO_Payload = BaseObjectRequest +
  m_info_mask :: InfoMask

type_synonym DELETE_Payload = BaseObjectRequest

record STATUS_AGENT_Payload =
  m_result :: ResultStatus
  m_agent_info :: AGENT_Representation

type_synonym STATUS_Payload = BaseObjectReply

record INFO_Payload = BaseObjectReply +
  m_object_info :: ObjectInfo

record READ_DATA_Payload = BaseObjectRequest +
  m_read_specification :: ReadSpecification

record WRITE_DATA_Payload_Data = BaseObjectRequest +
  m_data :: SampleData

record WRITE_DATA_Payload_Sample = BaseObjectRequest +
  m_sample :: Sample

record WRITE_DATA_Payload_DataSeq = BaseObjectRequest +
  m_data_seq :: "SampleData list"

record WRITE_DATA_Payload_SampleSeq = BaseObjectRequest +
  m_sample_seq :: "Sample list"

record WRITE_DATA_Payload_PackedSamples = BaseObjectRequest +
  m_packed_samples :: PackedSamples

record DATA_Payload_Data = BaseObjectRequest +
  m_data :: SampleData

record DATA_Payload_Sample = BaseObjectRequest +
  m_sample :: Sample

record DATA_Payload_DataSeq = BaseObjectRequest +
  m_data_seq :: "SampleData list"

record DATA_Payload_SampleSeq = BaseObjectRequest +
  m_sample_seq :: "Sample list"

record DATA_Payload_PackedSamples = BaseObjectRequest +
  m_packed_samples :: PackedSamples

record TIMESTAMP_Payload =
  m_transmit_timestamp :: Time_t

record TIMESTAMP_REPLY_Payload =
  m_transmit_timestamp :: Time_t
  m_receive_timestamp :: Time_t
  m_originate_timestamp :: Time_t

section \<open>Identities of samples\<close>

type_synonym GuidPrefix_t = "u8 list"

record EntityId_t =
  m_entityKey :: "u8 list"
  m_entityKind :: u8

record GUID_t =
  m_guidPrefix :: GuidPrefix_t
  m_entityId :: EntityId_t

record SequenceNumber_t =
  m_high :: u32
  m_low :: u32

record SampleIdentity =
  m_writer_guid :: GUID_t
  m_sequence_number :: SequenceNumber_t

definition EntityId_t_eq :: "EntityId_t \<Rightarrow> EntityId_t \<Rightarrow> bool" where
  "EntityId_t_eq a b = (m_entityKey a = m_entityKey b \<and> m_entityKind a = m_entityKind b)"

definition GUID_t_eq :: "GUID_t \<Rightarrow> GUID_t \<Rightarrow> bool" where
  "GUID_t_eq a b = (m_guidPrefix a = m_guidPrefix b \<and> EntityId_t_eq (m_entityId a) (m_entityId b))"

section \<open>Objects of a client\<close>

text \<open>
  object/XRCEObject.hpp: an object has its identifier; a client keeps its objects in a hash
  table, whose hash is the number of the identifier, without the kind.
\<close>

record XRCEObject =
  object_id :: ObjectId

definition ObjectIdHash :: "ObjectId \<Rightarrow> u16" where
  "ObjectIdHash oid = objectid_to_raw oid"

definition get_raw_id :: "XRCEObject \<Rightarrow> u16" where
  "get_raw_id x = objectid_to_raw (object_id x)"

lemmas objk_defs = OBJK_INVALID_def OBJK_PARTICIPANT_def OBJK_TOPIC_def OBJK_PUBLISHER_def OBJK_SUBSCRIBER_def
  OBJK_DATAWRITER_def OBJK_DATAREADER_def OBJK_REQUESTER_def OBJK_REPLIER_def OBJK_TYPE_def OBJK_QOSPROFILE_def
  OBJK_APPLICATION_def OBJK_AGENT_def OBJK_CLIENT_def OBJK_OTHER_def

text \<open>The kind of a representation fits into the four bits that an identifier has for it.\<close>

lemma variant_kind_four_bits: "ObjectVariant_d v AND 0x0F = ObjectVariant_d v"
  by (cases v) (simp_all add: objk_defs)

text \<open>Two objects share a hash when their identifiers differ in the kind only.\<close>

lemma hash_collision: "ObjectIdHash (a0, a1) = ObjectIdHash (b0, b1) \<longleftrightarrow> a0 = b0 \<and> drop_bit 4 a1 = drop_bit 4 b1"
proof
  assume "ObjectIdHash (a0, a1) = ObjectIdHash (b0, b1)"
  then have "raw_to_objectprefix (objectid_to_raw (a0, a1)) = raw_to_objectprefix (objectid_to_raw (b0, b1))"
    by (simp add: ObjectIdHash_def)
  moreover have "raw_to_objectprefix (objectid_to_raw (c0, c1)) = (c0, push_bit 4 (drop_bit 4 c1))" for c0 c1
    by (auto simp: raw_to_objectprefix_def objectid_to_raw_bits bit_eq_iff disjoint_bits bit_word_of_int_iff bit_uint_iff
        dest: bit_u8_less)
  ultimately have "a0 = b0" "push_bit 4 (drop_bit 4 a1) = push_bit 4 (drop_bit 4 b1)" by simp_all
  moreover have "drop_bit 4 (push_bit 4 (drop_bit 4 c)) = drop_bit 4 c" for c :: u8
    by (rule bit_word_eqI) (auto simp: bit_push_bit_iff bit_drop_bit_eq dest: bit_u8_less)
  ultimately show "a0 = b0 \<and> drop_bit 4 a1 = drop_bit 4 b1" by metis
qed (simp add: ObjectIdHash_def objectid_to_raw_bits)

text \<open>The identifier that is built from a number and the kind of a representation gives both
  back, the number in its low twelve bits.\<close>

lemma object_id_of_variant:
  "objectid_to_raw (raw_to_objectid raw (ObjectVariant_d v)) = take_bit 12 raw"
  "snd (raw_to_objectid raw (ObjectVariant_d v)) AND 0x0F = ObjectVariant_d v"
proof -
  show "objectid_to_raw (raw_to_objectid raw (ObjectVariant_d v)) = take_bit 12 raw"
    using objectid_to_raw_kind [of raw "ObjectVariant_d v"] by (simp add: variant_kind_four_bits)
  have "snd (raw_to_objectid raw kind) AND 0x0F = kind AND 0x0F" for kind
    by (rule bit_word_eqI) (auto simp: raw_to_objectid_bits and_15 bit_take_bit_iff bit_or_iff bit_push_bit_iff)
  then show "snd (raw_to_objectid raw (ObjectVariant_d v)) AND 0x0F = ObjectVariant_d v"
    by (simp add: variant_kind_four_bits)
qed

section \<open>Optional members\<close>

lemma optional_members:
  "ObjectInfo_config (ObjectInfo_set_config v x) = Inr v" "\<not> ObjectInfo_has_config x \<Longrightarrow> ObjectInfo_config x = Inl Uncaught_Exception"
  "ObjectInfo_activity (ObjectInfo_set_activity a x) = Inr a" "\<not> ObjectInfo_has_activity x \<Longrightarrow> ObjectInfo_activity x = Inl Uncaught_Exception"
  "ReadSpecification_delivery_control (ReadSpecification_set_delivery_control c r) = Inr c"
  "\<not> ReadSpecification_has_delivery_control r \<Longrightarrow> ReadSpecification_delivery_control r = Inl Uncaught_Exception"
  by (simp_all add: ObjectInfo_config_def ObjectInfo_set_config_def ObjectInfo_has_config_def
      ObjectInfo_activity_def ObjectInfo_set_activity_def ObjectInfo_has_activity_def ReadSpecification_delivery_control_def
      ReadSpecification_set_delivery_control_def ReadSpecification_has_delivery_control_def selected_def optional_defs)

text \<open>The accessors of the quality of service do not look: a deadline that was never set is
  whatever the memory held.\<close>

lemma missing_deadline:
  fixes x :: OBJK_Endpoint_QosBinary and garbage :: u32
  defines "y \<equiv> x\<lparr>m_deadline_msec := new_Optional garbage\<rparr>"
  shows "\<not> OBJK_Endpoint_QosBinary_has_deadline_msec y" and "OBJK_Endpoint_QosBinary_deadline_msec y = garbage"
  by (simp_all add: y_def OBJK_Endpoint_QosBinary_has_deadline_msec_def OBJK_Endpoint_QosBinary_deadline_msec_def optional_defs)

section \<open>Identities\<close>

lemma identities_equal: "EntityId_t_eq a b \<longleftrightarrow> a = b" "GUID_t_eq g h \<longleftrightarrow> g = h"
  by (cases a; cases b; simp add: EntityId_t_eq_def) (cases g; cases h; auto simp: GUID_t_eq_def EntityId_t_eq_def intro: EntityId_t.equality)

end
