(* ===== verification/LogQueue.thy ===== *)
theory LogQueue
  imports Containers
begin

text \<open>
  The queue behind the logging library of the agent (spdlog under the include directory of
  the installed micro_ros_agent): details/circular_q.h, the blocking queue of
  details/mpmc_blocking_q.h, the backtrace of details/backtracer-inl.h and the ring buffer
  of sinks/ringbuffer_sink.h.

  A circular_q is the record circ_q: a vector v of max_items slots, of which head, head + 1,
  ... (modulo max_items) up to tail are in use; one slot stays free as the mark of a full
  queue, so a queue made for n items has n + 1 slots.  cq_list is the list it stands for,
  cq_ok its invariant.  size_t is 64 bits wide; sz is its wrap-around.
\<close>

section \<open>details/circular_q.h\<close>

definition sz :: "nat \<Rightarrow> nat" where
  "sz n = n mod 2 ^ 64"

lemma sz_add [simp]: "sz (sz a + b) = sz (a + b)" "sz (a + sz b) = sz (a + b)"
  by (simp_all add: sz_def mod_simps)

lemma sz_less: "sz n < 2 ^ 64"
  by (simp add: sz_def)

lemma sz_small: "n < 2 ^ 64 \<Longrightarrow> sz n = n"
  by (simp add: sz_def)

text \<open>operator[] of a vector: out of range it is undefined.\<close>

definition vec_at :: "'a list \<Rightarrow> nat \<Rightarrow> 'a res" where
  "vec_at v i = (if i < length v then Inr (v ! i) else Inl Out_Of_Bounds)"

definition vec_put :: "'a list \<Rightarrow> nat \<Rightarrow> 'a \<Rightarrow> 'a list res" where
  "vec_put v i x = (if i < length v then Inr (v[i := x]) else Inl Out_Of_Bounds)"

record 'a circ_q =
  max_items :: nat
  head :: nat
  tail :: nat
  overrun :: nat
  slots :: "'a list"

definition cq_disabled :: "'a circ_q" where
  "cq_disabled = \<lparr>max_items = 0, head = 0, tail = 0, overrun = 0, slots = []\<rparr>"

text \<open>
  circular_q(size_t): vmax is the max_size of the vector (above it the vector throws
  std::length_error), dflt the value T() the slots start with.
\<close>

definition cq_new :: "nat \<Rightarrow> 'a \<Rightarrow> nat \<Rightarrow> 'a circ_q res" where
  "cq_new vmax dflt n =
     (let m = sz (n + 1)
      in if m \<le> vmax
         then Inr \<lparr>max_items = m, head = 0, tail = 0, overrun = 0, slots = replicate m dflt\<rparr>
         else Inl Uncaught_Exception)"

definition cq_push_back :: "'a \<Rightarrow> 'a circ_q \<Rightarrow> 'a circ_q res" where
  "cq_push_back item q =
     (if max_items q > 0
      then bind_res (vec_put (slots q) (tail q) item) (\<lambda>v.
        let q1 = q\<lparr>slots := v, tail := sz (tail q + 1) mod max_items q\<rparr>
        in if tail q1 = head q1
           then Inr (q1\<lparr>head := sz (head q1 + 1) mod max_items q1, overrun := sz (overrun q1 + 1)\<rparr>)
           else Inr q1)
      else Inr q)"

definition cq_front :: "'a circ_q \<Rightarrow> 'a res" where
  "cq_front q = vec_at (slots q) (head q)"

definition cq_size :: "'a circ_q \<Rightarrow> nat" where
  "cq_size q = (if tail q \<ge> head q then tail q - head q else max_items q - (head q - tail q))"

text \<open>at starts with an assert, which does nothing in a build with NDEBUG.\<close>

definition cq_at :: "bool \<Rightarrow> 'a circ_q \<Rightarrow> nat \<Rightarrow> 'a res" where
  "cq_at ndebug q i =
     (if \<not> ndebug \<and> \<not> i < cq_size q then Inl Terminated
      else if max_items q = 0 then Inl Division_By_Zero
      else vec_at (slots q) (sz (head q + i) mod max_items q))"

definition cq_pop_front :: "'a circ_q \<Rightarrow> 'a circ_q res" where
  "cq_pop_front q =
     (if max_items q = 0 then Inl Division_By_Zero
      else Inr (q\<lparr>head := sz (head q + 1) mod max_items q\<rparr>))"

definition cq_empty :: "'a circ_q \<Rightarrow> bool" where
  "cq_empty q = (tail q = head q)"

definition cq_full :: "'a circ_q \<Rightarrow> bool" where
  "cq_full q = (if max_items q > 0 then sz (tail q + 1) mod max_items q = head q else False)"

definition cq_overrun_counter :: "'a circ_q \<Rightarrow> nat" where
  "cq_overrun_counter q = overrun q"

text \<open>
  copy_moveable: the new value of this queue, and the queue that was moved from (a vector
  that was moved from is empty).
\<close>

definition cq_move :: "'a circ_q \<Rightarrow> 'a circ_q \<times> 'a circ_q" where
  "cq_move other =
     (\<lparr>max_items = max_items other, head = head other, tail = tail other,
       overrun = overrun other, slots = slots other\<rparr>,
      other\<lparr>max_items := 0, head := 0, tail := 0, overrun := 0, slots := []\<rparr>)"

section \<open>The list a queue stands for\<close>

definition cq_ok :: "'a circ_q \<Rightarrow> bool" where
  "cq_ok q \<longleftrightarrow>
     (if max_items q = 0 then head q = 0 \<and> tail q = 0
      else head q < max_items q \<and> tail q < max_items q \<and> length (slots q) = max_items q \<and>
        max_items q < 2 ^ 63)"

definition cq_list :: "'a circ_q \<Rightarrow> 'a list" where
  "cq_list q = map (\<lambda>i. slots q ! ((head q + i) mod max_items q)) [0..<cq_size q]"

definition cq_cap :: "'a circ_q \<Rightarrow> nat" where
  "cq_cap q = max_items q - 1"

text \<open>What a queue of a capacity promises: the last so many of the items.\<close>

definition last_n :: "nat \<Rightarrow> 'a list \<Rightarrow> 'a list" where
  "last_n n xs = drop (length xs - n) xs"

lemma last_n_id [simp]: "length xs \<le> n \<Longrightarrow> last_n n xs = xs"
  by (simp add: last_n_def)

lemma length_last_n [simp]: "length (last_n n xs) = min n (length xs)"
  by (simp add: last_n_def min_def)

lemma last_n_snoc: "last_n n (last_n n xs @ ys) = last_n n (xs @ ys)"
proof (cases "length xs \<le> n")
  case False
  then show ?thesis
    by (cases "length ys \<le> n") (simp_all add: last_n_def add.commute)
qed simp

lemma last_n_all: "m \<le> n \<Longrightarrow> last_n m (last_n n xs) = last_n m xs"
  by (cases "length xs \<le> n") (simp_all add: last_n_def)

lemma last_n_tl: "last_n (length xs) (xs @ [x]) = tl (xs @ [x])"
  by (cases xs) (simp_all add: last_n_def)

lemma mod_once: "b < m + m \<Longrightarrow> b mod m = (if b < m then b else b - m)" for b m :: nat
  by (simp add: mod_if)

lemma length_cq_list [simp]: "length (cq_list q) = cq_size q"
  by (simp add: cq_list_def)

lemma cq_list_nth: "i < cq_size q \<Longrightarrow> cq_list q ! i = slots q ! ((head q + i) mod max_items q)"
  by (simp add: cq_list_def)

lemma cq_ok_enabled:
  assumes "cq_ok q" "max_items q > 0"
  shows "head q < max_items q" "tail q < max_items q" "length (slots q) = max_items q"
    "max_items q < 2 ^ 63" "sz (Suc (tail q)) = Suc (tail q)" "sz (Suc (head q)) = Suc (head q)"
  using assms by (auto simp: cq_ok_def sz_def)

lemma cq_size_bound: "cq_ok q \<Longrightarrow> cq_size q \<le> cq_cap q"
  by (auto simp: cq_ok_def cq_size_def cq_cap_def split: if_splits)

lemma cq_size_disabled: "cq_ok q \<Longrightarrow> max_items q = 0 \<Longrightarrow> cq_size q = 0"
  by (simp add: cq_ok_def cq_size_def)

lemma cq_ok_cases:
  assumes "cq_ok q"
  obtains (disabled) "max_items q = 0" "head q = 0" "tail q = 0"
  | (up) "max_items q > 0" "head q \<le> tail q" "tail q < max_items q" "cq_size q = tail q - head q"
  | (wrapped) "max_items q > 0" "tail q < head q" "head q < max_items q"
      "cq_size q = max_items q - (head q - tail q)"
  using assms by (cases "max_items q = 0"; cases "head q \<le> tail q") (auto simp: cq_ok_def cq_size_def)

lemma cq_next_mod:
  "cq_ok q \<Longrightarrow> max_items q > 0 \<Longrightarrow>
   sz (tail q + 1) mod max_items q = (if tail q + 1 = max_items q then 0 else tail q + 1) \<and>
   sz (head q + 1) mod max_items q = (if head q + 1 = max_items q then 0 else head q + 1)"
  using cq_ok_enabled [of q] by simp

lemma cq_tail_mod:
  assumes "cq_ok q" "max_items q > 0"
  shows "(head q + cq_size q) mod max_items q = tail q"
  using assms(1) by (cases rule: cq_ok_cases) (use assms in simp_all)

lemma cq_slot_not_tail:
  assumes "cq_ok q" "i < cq_size q"
  shows "(head q + i) mod max_items q \<noteq> tail q"
  using assms(1) by (cases rule: cq_ok_cases) (use assms in \<open>auto simp: mod_once cq_size_def\<close>)

lemma cq_empty_iff: "cq_ok q \<Longrightarrow> cq_empty q \<longleftrightarrow> cq_list q = []"
  by (erule cq_ok_cases) (auto simp: cq_empty_def cq_list_def cq_size_def)

lemma cq_full_iff:
  assumes "cq_ok q"
  shows "cq_full q \<longleftrightarrow> max_items q > 0 \<and> cq_size q = cq_cap q"
  using assms(1)
  by (cases rule: cq_ok_cases)
    (use cq_next_mod [OF assms] in \<open>auto simp: cq_full_def cq_cap_def split: if_splits\<close>)

section \<open>The operations on the list\<close>

text \<open>The slots that a queue uses when its head or its tail moves on by one.\<close>

lemma cq_list_put_tail:
  fixes q :: "'a circ_q" and x :: 'a
  assumes "cq_ok q" "max_items q > 0" "\<not> cq_full q"
  defines "q' \<equiv> q\<lparr>slots := (slots q)[tail q := x], tail := sz (tail q + 1) mod max_items q\<rparr>"
  shows "cq_ok q'" "cq_list q' = cq_list q @ [x]"
proof -
  show ok: "cq_ok q'"
    using cq_ok_enabled [OF assms(1,2)] by (simp add: q'_def cq_ok_def)
  have size: "cq_size q' = cq_size q + 1"
    using assms(1)
    by (cases rule: cq_ok_cases)
      (use assms(3) cq_next_mod [OF assms(1,2)] in \<open>auto simp: q'_def cq_size_def cq_full_def\<close>)
  show "cq_list q' = cq_list q @ [x]"
  proof (rule nth_equalityI)
    fix i assume "i < length (cq_list q')"
    then have i: "i < cq_size q + 1" by (simp add: size)
    show "cq_list q' ! i = (cq_list q @ [x]) ! i"
    proof (cases "i = cq_size q")
      case True
      then show ?thesis
        using cq_tail_mod [OF assms(1,2)] cq_ok_enabled [OF assms(1,2)]
        by (simp add: cq_list_nth size nth_append) (simp add: q'_def)
    next
      case False
      then have "i < cq_size q" using i by simp
      then show ?thesis
        using cq_slot_not_tail [OF assms(1), of i]
        by (simp add: cq_list_nth size nth_append) (simp add: q'_def)
    qed
  qed (simp add: size)
qed

lemma cq_pop:
  assumes "cq_ok q" "cq_size q > 0"
  defines "q' \<equiv> q\<lparr>head := sz (head q + 1) mod max_items q\<rparr>"
  shows "cq_pop_front q = Inr q'" "cq_ok q'" "cq_list q' = tl (cq_list q)"
    "cq_front q = Inr (hd (cq_list q))" "cq_size q' = cq_size q - 1"
proof -
  have pos: "max_items q > 0"
    using assms(1,2) cq_size_disabled [of q] by (cases "max_items q = 0") auto
  note en = cq_ok_enabled [OF assms(1) pos] and nx = cq_next_mod [OF assms(1) pos]
  show "cq_pop_front q = Inr q'" using pos by (simp add: cq_pop_front_def q'_def)
  show "cq_ok q'" using en by (simp add: q'_def cq_ok_def)
  show size: "cq_size q' = cq_size q - 1"
    using assms(1)
    by (cases rule: cq_ok_cases) (use nx assms(2) in \<open>auto simp: q'_def cq_size_def\<close>)
  have move: "(head q' + i) mod max_items q = (head q + Suc i) mod max_items q" for i
    by (simp add: q'_def en mod_simps)
  show "cq_list q' = tl (cq_list q)"
    by (rule nth_equalityI) (use move in \<open>simp_all add: size cq_list_nth nth_tl\<close>, simp add: q'_def)
  have "cq_list q \<noteq> []" using assms(2) by (metis length_0_conv length_cq_list less_irrefl)
  then show "cq_front q = Inr (hd (cq_list q))"
    using en cq_list_nth [of 0 q] assms(2) by (simp add: cq_front_def vec_at_def hd_conv_nth)
qed

lemma cq_push_full:
  assumes "cq_ok q" "cq_full q"
  defines "q1 \<equiv> q\<lparr>head := sz (head q + 1) mod max_items q\<rparr>"
  shows "cq_push_back x q =
    Inr (q1\<lparr>slots := (slots q1)[tail q1 := x], tail := sz (tail q1 + 1) mod max_items q1,
            overrun := sz (overrun q + 1)\<rparr>)"
proof -
  have pos: "max_items q > 0" using assms(2) by (simp add: cq_full_def split: if_splits)
  show ?thesis
    using cq_ok_enabled [OF assms(1) pos] pos assms(2)
    by (auto simp: cq_push_back_def vec_put_def cq_full_def q1_def Let_def)
qed

lemma cq_overrun_list [simp]:
  "cq_list (q\<lparr>overrun := n\<rparr>) = cq_list q" "cq_ok (q\<lparr>overrun := n\<rparr>) = cq_ok q"
  by (simp_all add: cq_list_def cq_size_def cq_ok_def)

lemma cq_push:
  assumes "cq_ok q"
  obtains q' where "cq_push_back x q = Inr q'" "cq_ok q'" "max_items q' = max_items q"
    "cq_list q' = last_n (cq_cap q) (cq_list q @ [x])"
    "overrun q' = (if cq_full q then sz (overrun q + 1) else overrun q)"
proof -
  consider (off) "max_items q = 0" | (room) "max_items q > 0" "\<not> cq_full q"
    | (full) "max_items q > 0" "cq_full q" "cq_size q > 0" | (none) "max_items q = 1"
    using cq_full_iff [OF assms] by (cases "max_items q = 1") (auto simp: cq_cap_def)
  then show thesis
  proof cases
    case off
    then show ?thesis
      using assms cq_size_disabled [OF assms] that [of q]
      by (simp add: cq_push_back_def cq_list_def cq_cap_def last_n_def cq_full_def)
  next
    case room
    note put = cq_list_put_tail [OF assms room, of x]
    have "cq_size q < cq_cap q"
      using cq_full_iff [OF assms] cq_size_bound [OF assms] room by auto
    then show ?thesis
      using that [OF _ put(1)] put(2) cq_ok_enabled [OF assms room(1)] room
      by (simp add: cq_push_back_def vec_put_def cq_full_def)
  next
    case full
    define q1 where "q1 = q\<lparr>head := sz (head q + 1) mod max_items q\<rparr>"
    define q2 where "q2 = q1\<lparr>slots := (slots q1)[tail q1 := x], tail := sz (tail q1 + 1) mod max_items q1\<rparr>"
    note pop = cq_pop [OF assms full(3), folded q1_def]
    have cap: "cq_size q = cq_cap q" using cq_full_iff [OF assms] full by simp
    have "\<not> cq_full q1"
      using cq_full_iff [OF pop(2)] cap full pop(5) by (simp add: q1_def cq_cap_def)
    moreover have "max_items q1 > 0" using full by (simp add: q1_def)
    ultimately have q2: "cq_ok q2" "cq_list q2 = cq_list q1 @ [x]"
      unfolding q2_def using cq_list_put_tail [OF pop(2)] by blast+
    have push: "cq_push_back x q = Inr (q2\<lparr>overrun := sz (overrun q + 1)\<rparr>)"
      using cq_push_full [OF assms full(2), folded q1_def, of x] by (simp add: q2_def)
    have "max_items q2 = max_items q" by (simp add: q2_def q1_def)
    moreover have "last_n (cq_cap q) (cq_list q @ [x]) = tl (cq_list q) @ [x]"
      using last_n_tl [of "cq_list q" x] cap full(3) length_cq_list [of q] by (cases "cq_list q") auto
    ultimately show ?thesis
      using that [OF push] q2 pop(3) full(2) by simp
  next
    case none
    then show ?thesis
      using assms cq_size_bound [OF assms]
        that [of "q\<lparr>slots := (slots q)[0 := x], overrun := sz (overrun q + 1)\<rparr>"]
      by (simp add: cq_push_back_def cq_ok_def vec_put_def cq_cap_def cq_list_def cq_size_def
          cq_full_def last_n_def)
  qed
qed

lemma cq_at_list:
  assumes "cq_ok q" "i < cq_size q"
  shows "cq_at ndebug q i = Inr (cq_list q ! i)"
proof -
  have pos: "max_items q > 0"
    using assms cq_size_disabled [of q] by (cases "max_items q = 0") auto
  have "head q + i < 2 ^ 64"
    using assms(2) cq_size_bound [OF assms(1)] cq_ok_enabled [OF assms(1) pos] by (simp add: cq_cap_def)
  then show ?thesis
    using assms cq_ok_enabled [OF assms(1) pos] pos
    by (simp add: cq_at_def vec_at_def cq_list_nth sz_small)
qed

lemma cq_new_ok:
  assumes "cq_new vmax dflt n = Inr q" "vmax < 2 ^ 63"
  shows "cq_ok q" "cq_list q = []" "cq_cap q = sz (n + 1) - 1" "overrun q = 0"
  using assms by (auto simp: cq_new_def cq_ok_def cq_list_def cq_size_def cq_cap_def Let_def split: if_splits)

lemma cq_move_ok:
  "cq_ok q \<Longrightarrow> cq_list (fst (cq_move q)) = cq_list q \<and> cq_ok (fst (cq_move q)) \<and>
   cq_cap (fst (cq_move q)) = cq_cap q \<and> cq_list (snd (cq_move q)) = [] \<and> cq_ok (snd (cq_move q))"
  by (auto simp: cq_move_def cq_list_def cq_size_def cq_ok_def cq_cap_def split: if_splits)

section \<open>The interface: a window on the last items\<close>

text \<open>
  What the users of the queue rely on: inv is kept, push appends and keeps the last cap
  items, pop takes the first one, and the queue counts what it dropped.
\<close>

definition res_fold :: "('x \<Rightarrow> 's \<Rightarrow> 's res) \<Rightarrow> 'x list \<Rightarrow> 's \<Rightarrow> 's res" where
  "res_fold f xs s = foldl (\<lambda>r x. bind_res r (f x)) (Inr s) xs"

lemma res_fold_Nil [simp]: "res_fold f [] s = Inr s"
  by (simp add: res_fold_def)

lemma res_fold_snoc: "res_fold f (xs @ [x]) s = bind_res (res_fold f xs s) (f x)"
  by (simp add: res_fold_def)

text \<open>
  A sequence of operations as the users of the queue issue them: a pop is a test of empty,
  then front and pop_front.  window_run is what it should do to a list.
\<close>

fun queue_ops :: "('a \<Rightarrow> 's \<Rightarrow> 's res) \<Rightarrow> ('s \<Rightarrow> bool) \<Rightarrow> ('s \<Rightarrow> 'a res) \<Rightarrow> ('s \<Rightarrow> 's res) \<Rightarrow>
    'a queue_op list \<Rightarrow> 's \<Rightarrow> ('a list \<times> 's) res" where
  "queue_ops push is_empty front pop [] s = Inr ([], s)"
| "queue_ops push is_empty front pop (Queue_Push a # ops) s =
     bind_res (push a s) (queue_ops push is_empty front pop ops)"
| "queue_ops push is_empty front pop (Queue_Pop # ops) s =
     (if is_empty s then queue_ops push is_empty front pop ops s
      else bind_res (front s) (\<lambda>x. bind_res (pop s) (\<lambda>s'.
           bind_res (queue_ops push is_empty front pop ops s') (\<lambda>(out, t). Inr (x # out, t)))))"

fun window_run :: "nat \<Rightarrow> 'a queue_op list \<Rightarrow> 'a list \<Rightarrow> 'a list \<times> 'a list" where
  "window_run n [] l = ([], l)"
| "window_run n (Queue_Push a # ops) l = window_run n ops (last_n n (l @ [a]))"
| "window_run n (Queue_Pop # ops) [] = window_run n ops []"
| "window_run n (Queue_Pop # ops) (x # l) = (let (out, l') = window_run n ops l in (x # out, l'))"

locale window_queue =
  fixes inv :: "'s \<Rightarrow> bool"
    and items :: "'s \<Rightarrow> 'a list"
    and cap :: "'s \<Rightarrow> nat"
    and dropped :: "'s \<Rightarrow> nat"
    and push :: "'a \<Rightarrow> 's \<Rightarrow> 's res"
    and is_empty :: "'s \<Rightarrow> bool"
    and front :: "'s \<Rightarrow> 'a res"
    and pop :: "'s \<Rightarrow> 's res"
  assumes push_law: "inv s \<Longrightarrow> \<exists>s'. push x s = Inr s' \<and> inv s' \<and> cap s' = cap s \<and>
      items s' = last_n (cap s) (items s @ [x]) \<and>
      (0 < cap s \<longrightarrow> dropped s' = sz (dropped s + (if length (items s) = cap s then 1 else 0)))"
    and pop_law: "inv s \<Longrightarrow> items s = x # xs \<Longrightarrow>
      front s = Inr x \<and> (\<exists>s'. pop s = Inr s' \<and> inv s' \<and> cap s' = cap s \<and> dropped s' = dropped s \<and> items s' = xs)"
    and empty_law: "inv s \<Longrightarrow> is_empty s \<longleftrightarrow> items s = []"
    and bounded: "inv s \<Longrightarrow> length (items s) \<le> cap s"
    and dropped_size: "inv s \<Longrightarrow> dropped s < 2 ^ 64"
begin

lemma pushes:
  assumes "inv s"
  shows "\<exists>s'. res_fold push xs s = Inr s' \<and> inv s' \<and> cap s' = cap s \<and>
    items s' = last_n (cap s) (items s @ xs) \<and>
    (0 < cap s \<longrightarrow> dropped s' = sz (dropped s + (length (items s @ xs) - cap s)))"
proof (induction xs rule: rev_induct)
  case Nil
  then show ?case
    using assms bounded [OF assms] dropped_size [OF assms] by (simp add: sz_def)
next
  case (snoc x xs)
  then obtain t where t: "res_fold push xs s = Inr t" "inv t" "cap t = cap s"
    "items t = last_n (cap s) (items s @ xs)"
    "0 < cap s \<longrightarrow> dropped t = sz (dropped s + (length (items s @ xs) - cap s))"
    by (elim exE conjE) (rule that)
  obtain u where u: "push x t = Inr u" "inv u" "cap u = cap t"
    "items u = last_n (cap t) (items t @ [x])"
    "0 < cap t \<longrightarrow> dropped u = sz (dropped t + (if length (items t) = cap t then 1 else 0))"
    using push_law [OF t(2), of x] by (elim exE conjE) (rule that)
  have "dropped u = sz (dropped s + (length (items s @ xs @ [x]) - cap s))" if "0 < cap s"
  proof -
    define n where "n = length (items s @ xs)"
    have len: "length (items t) = min (cap s) n"
      using t(4) by (simp add: n_def)
    have "dropped u = sz (dropped s + (n - cap s) + (if length (items t) = cap s then 1 else 0))"
      using u(5) t(3,5) that by (simp add: n_def)
    moreover have "n - cap s + (if length (items t) = cap s then 1 else 0) = Suc n - cap s"
      unfolding len by auto
    moreover have "length (items s @ xs @ [x]) = Suc n"
      by (simp add: n_def)
    ultimately show ?thesis by (simp only: add.assoc)
  qed
  then show ?case
    using t u by (auto simp: res_fold_snoc last_n_snoc)
qed

lemma ops_refine:
  "inv s \<Longrightarrow> \<exists>t. queue_ops push is_empty front pop ops s = Inr (fst (window_run (cap s) ops (items s)), t) \<and>
     inv t \<and> cap t = cap s \<and> items t = snd (window_run (cap s) ops (items s))"
proof (induction ops arbitrary: s)
  case (Cons op ops)
  show ?case
  proof (cases op)
    case (Queue_Push a)
    obtain s' where s': "push a s = Inr s'" "inv s'" "cap s' = cap s" "items s' = last_n (cap s) (items s @ [a])"
      using push_law [OF Cons.prems, of a] by (elim exE conjE) (rule that)
    then show ?thesis
      using Cons.IH [OF s'(2)] Queue_Push by simp
  next
    case Queue_Pop
    show ?thesis
    proof (cases "items s")
      case Nil
      then show ?thesis
        using Cons.IH [OF Cons.prems] empty_law [OF Cons.prems] Queue_Pop by simp
    next
      case item: (Cons x xs)
      obtain s' where s': "front s = Inr x" "pop s = Inr s'" "inv s'" "cap s' = cap s" "items s' = xs"
        using pop_law [OF Cons.prems item] by (elim exE conjE) (rule that)
      obtain t where "queue_ops push is_empty front pop ops s' = Inr (fst (window_run (cap s') ops xs), t)"
        "inv t" "cap t = cap s'" "items t = snd (window_run (cap s') ops xs)"
        using Cons.IH [OF s'(3)] s'(5) by auto
      then show ?thesis
        using Queue_Pop item s' empty_law [OF Cons.prems] by (simp add: split_beta)
    qed
  qed
qed simp

end

interpretation cq: window_queue "\<lambda>q. cq_ok q \<and> overrun q < 2 ^ 64" cq_list cq_cap overrun cq_push_back
  cq_empty cq_front cq_pop_front
proof (unfold_locales, goal_cases)
  case (1 q x)
  then have "cq_ok q" by simp
  then obtain q' where q': "cq_push_back x q = Inr q'" "cq_ok q'" "max_items q' = max_items q"
    "cq_list q' = last_n (cq_cap q) (cq_list q @ [x])"
    "overrun q' = (if cq_full q then sz (overrun q + 1) else overrun q)"
    by (rule cq_push)
  moreover have "overrun q' < 2 ^ 64"
    using q'(5) sz_less [of "overrun q + 1"] 1 by presburger
  moreover have "overrun q' = sz (overrun q + (if length (cq_list q) = cq_cap q then 1 else 0))" if "0 < cq_cap q"
    using cq_full_iff [of q] 1 that q'(5) sz_small [of "overrun q"] by (simp add: cq_cap_def)
  moreover have "cq_cap q' = cq_cap q" using q'(3) by (simp add: cq_cap_def)
  ultimately show ?case by (intro exI [of _ q'] conjI impI) simp_all
next
  case (2 q x xs)
  then have "cq_size q > 0"
    by (metis length_cq_list length_greater_0_conv list.distinct(1))
  then show ?case
    using cq_pop [of q] 2 by (auto simp: cq_cap_def)
qed (simp_all add: cq_empty_iff cq_size_bound)

section \<open>details/backtracer-inl.h\<close>

record 'm backtracer =
  bt_enabled :: bool
  bt_messages :: "'m circ_q"

definition bt_init :: "'m backtracer" where
  "bt_init = \<lparr>bt_enabled = False, bt_messages = cq_disabled\<rparr>"

text \<open>
  enable sets the flag before it makes the new queue, so an allocation that throws leaves a
  tracer that is enabled and keeps its old queue.
\<close>

definition bt_enable :: "nat \<Rightarrow> 'm \<Rightarrow> nat \<Rightarrow> 'm backtracer \<Rightarrow> unit res \<times> 'm backtracer" where
  "bt_enable vmax dflt n b =
     (let b1 = b\<lparr>bt_enabled := True\<rparr>
      in case cq_new vmax dflt n of
           Inl e \<Rightarrow> (Inl e, b1)
         | Inr q \<Rightarrow> (Inr (), b1\<lparr>bt_messages := fst (cq_move q)\<rparr>))"

definition bt_disable :: "'m backtracer \<Rightarrow> 'm backtracer" where
  "bt_disable b = b\<lparr>bt_enabled := False\<rparr>"

definition bt_push_back :: "'m \<Rightarrow> 'm backtracer \<Rightarrow> 'm backtracer res" where
  "bt_push_back msg b = bind_res (cq_push_back msg (bt_messages b)) (\<lambda>q. Inr (b\<lparr>bt_messages := q\<rparr>))"

text \<open>
  The copy constructor, and the move constructor: the new tracer and the one it was made
  from.
\<close>

definition bt_copy :: "'m backtracer \<Rightarrow> 'm backtracer" where
  "bt_copy other = \<lparr>bt_enabled = bt_enabled other, bt_messages = bt_messages other\<rparr>"

definition bt_move :: "'m backtracer \<Rightarrow> 'm backtracer \<times> 'm backtracer" where
  "bt_move other =
     (\<lparr>bt_enabled = bt_enabled other, bt_messages = fst (cq_move (bt_messages other))\<rparr>,
      other\<lparr>bt_messages := snd (cq_move (bt_messages other))\<rparr>)"

text \<open>
  foreach_pop hands each message to a function on the state of the caller, which may throw
  (Some exception).  A message is popped after the function has returned, so one whose
  function throws stays in the queue.  The fuel of the loop is the number of messages.
\<close>

fun bt_pop_loop ::
    "nat \<Rightarrow> ('m \<Rightarrow> 's \<Rightarrow> 'e option \<times> 's) \<Rightarrow> 'm circ_q \<Rightarrow> 's \<Rightarrow> (fault + 'e) option \<times> 's \<times> 'm circ_q" where
  "bt_pop_loop fuel fun q s =
     (if cq_empty q then (None, s, q)
      else case fuel of
        0 \<Rightarrow> (Some (Inl Hang), s, q)
      | Suc fuel' \<Rightarrow>
          (case cq_front q of
             Inl f \<Rightarrow> (Some (Inl f), s, q)
           | Inr m \<Rightarrow> (case fun m s of
               (Some e, s') \<Rightarrow> (Some (Inr e), s', q)
             | (None, s') \<Rightarrow> (case cq_pop_front q of
                 Inl f \<Rightarrow> (Some (Inl f), s', q)
               | Inr q' \<Rightarrow> bt_pop_loop fuel' fun q' s'))))"

declare bt_pop_loop.simps [simp del]

definition bt_foreach_pop ::
    "('m \<Rightarrow> 's \<Rightarrow> 'e option \<times> 's) \<Rightarrow> 'm backtracer \<Rightarrow> 's \<Rightarrow> (fault + 'e) option \<times> 's \<times> 'm backtracer" where
  "bt_foreach_pop fun b s =
     (let (e, s, q) = bt_pop_loop (cq_size (bt_messages b)) fun (bt_messages b) s
      in (e, s, b\<lparr>bt_messages := q\<rparr>))"

text \<open>
  What the loop does: the function is applied to the messages in order until it throws; the
  messages whose function has returned are gone.
\<close>

fun apply_until :: "('m \<Rightarrow> 's \<Rightarrow> 'e option \<times> 's) \<Rightarrow> 'm list \<Rightarrow> 's \<Rightarrow> (fault + 'e) option \<times> 's \<times> 'm list" where
  "apply_until f [] s = (None, s, [])"
| "apply_until f (m # ms) s =
     (case f m s of (Some e, s') \<Rightarrow> (Some (Inr e), s', m # ms) | (None, s') \<Rightarrow> apply_until f ms s')"

lemma cq_pop_Cons:
  assumes "cq_ok q" "cq_list q = m # ms"
  obtains q' where "cq_front q = Inr m" "cq_pop_front q = Inr q'" "cq_ok q'" "cq_list q' = ms"
    "max_items q' = max_items q" "overrun q' = overrun q"
proof -
  have "cq_size q > 0"
    using assms(2) length_cq_list [of q] by simp
  then show thesis
    using that cq_pop [OF assms(1)] assms(2) by simp
qed

lemma bt_pop_loop_spec:
  assumes "cq_ok q" "length (cq_list q) \<le> fuel"
  shows "\<exists>q'. bt_pop_loop fuel f q s = (fst (apply_until f (cq_list q) s), fst (snd (apply_until f (cq_list q) s)), q') \<and>
    cq_ok q' \<and> cq_list q' = snd (snd (apply_until f (cq_list q) s)) \<and> max_items q' = max_items q \<and> overrun q' = overrun q"
  using assms
proof (induction fuel arbitrary: q s)
  case 0
  then have "cq_list q = []" by (simp del: length_cq_list)
  then show ?case
    using 0 by (subst bt_pop_loop.simps) (simp add: cq_empty_iff)
next
  case (Suc fuel)
  show ?case
  proof (cases "cq_list q")
    case Nil
    then show ?thesis
      using Suc.prems by (subst bt_pop_loop.simps) (simp add: cq_empty_iff)
  next
    case (Cons m ms)
    obtain q' where q': "cq_front q = Inr m" "cq_pop_front q = Inr q'" "cq_ok q'"
      "cq_list q' = ms" "max_items q' = max_items q" "overrun q' = overrun q"
      using Suc.prems(1) Cons by (rule cq_pop_Cons)
    obtain e s' where f: "f m s = (e, s')" by fastforce
    have "length (cq_list q') \<le> fuel"
      using Suc.prems(2) Cons q'(4) by (simp del: length_cq_list)
    then show ?thesis
      using Suc.IH [OF q'(3), of s'] Cons f q' Suc.prems(1)
      by (subst bt_pop_loop.simps) (cases e; simp add: cq_empty_iff)
  qed
qed

lemma bt_foreach_pop_spec:
  assumes "cq_ok (bt_messages b)" "apply_until f (cq_list (bt_messages b)) s = (e, s', rest)"
  obtains b' where "bt_foreach_pop f b s = (e, s', b')"
    "cq_ok (bt_messages b')" "cq_list (bt_messages b') = rest"
    "bt_enabled b' = bt_enabled b" "max_items (bt_messages b') = max_items (bt_messages b)"
    "overrun (bt_messages b') = overrun (bt_messages b)"
proof -
  obtain q' where "bt_pop_loop (cq_size (bt_messages b)) f (bt_messages b) s = (e, s', q')" "cq_ok q'"
    "cq_list q' = rest" "max_items q' = max_items (bt_messages b)" "overrun q' = overrun (bt_messages b)"
    using bt_pop_loop_spec [OF assms(1), of "cq_size (bt_messages b)" f s] assms(2) by auto
  then show thesis
    by (intro that [of "b\<lparr>bt_messages := q'\<rparr>"]) (simp_all add: bt_foreach_pop_def)
qed

section \<open>sinks/ringbuffer_sink.h\<close>

text \<open>
  The sink is its queue; each function runs under the lock of the sink.  last_raw copies the
  last lim0 messages (all of them for 0), last_formatted has the formatter turn each into a
  text; the formatter may keep a state of its own and may throw.
\<close>

definition rb_new :: "nat \<Rightarrow> 'm \<Rightarrow> nat \<Rightarrow> 'm circ_q res" where
  "rb_new vmax dflt n_items = cq_new vmax dflt n_items"

definition rb_sink_it :: "'m \<Rightarrow> 'm circ_q \<Rightarrow> 'm circ_q res" where
  "rb_sink_it msg q = cq_push_back msg q"

definition rb_indices :: "nat \<Rightarrow> 'm circ_q \<Rightarrow> nat list" where
  "rb_indices lim0 q =
     (let items_available = cq_size q;
          n_items = (if lim0 > 0 then min lim0 items_available else items_available)
      in [items_available - n_items ..< items_available])"

definition rb_last_raw :: "bool \<Rightarrow> nat \<Rightarrow> 'm circ_q \<Rightarrow> 'm list res" where
  "rb_last_raw ndebug lim0 q =
     res_fold (\<lambda>i ret. bind_res (cq_at ndebug q i) (\<lambda>m. Inr (ret @ [m]))) (rb_indices lim0 q) []"

definition rb_last_formatted ::
    "('m \<Rightarrow> 'f \<Rightarrow> (string \<times> 'f) res) \<Rightarrow> bool \<Rightarrow> nat \<Rightarrow> 'm circ_q \<Rightarrow> 'f \<Rightarrow> (string list \<times> 'f) res" where
  "rb_last_formatted format ndebug lim0 q fm =
     res_fold (\<lambda>i (ret, fm). bind_res (cq_at ndebug q i) (\<lambda>m.
         bind_res (format m fm) (\<lambda>(formatted, fm'). Inr (ret @ [formatted], fm'))))
       (rb_indices lim0 q) ([], fm)"

lemma rb_collect:
  assumes "cq_ok q" "b \<le> cq_size q"
  shows "res_fold (\<lambda>i ret. bind_res (cq_at ndebug q i) (\<lambda>m. Inr (ret @ [m]))) [a ..< b] [] =
    Inr (map (\<lambda>i. cq_list q ! i) [a ..< b])"
  using assms(2)
proof (induction b)
  case (Suc b)
  then show ?case
    using cq_at_list [OF assms(1), of b ndebug] by (simp add: res_fold_snoc)
qed simp

lemma rb_last_raw_eq:
  assumes "cq_ok q"
  shows "rb_last_raw ndebug lim0 q = Inr (last_n (if lim0 = 0 then cq_size q else lim0) (cq_list q))"
proof -
  have "map (\<lambda>i. cq_list q ! i) [k ..< cq_size q] = drop k (cq_list q)" for k
    using map_nth [of "cq_list q"] by (metis drop_map drop_upt length_cq_list plus_nat.add_0)
  then show ?thesis
    using rb_collect [OF assms, of "cq_size q" ndebug]
    by (simp add: rb_last_raw_def rb_indices_def last_n_def min_def Let_def)
qed

section \<open>Properties\<close>

text \<open>C26: A circular queue is a list of bounded length, for every sequence of operations: a
  push appends and, when the queue is full, drops the oldest item; a test of empty followed by
  front and pop takes the items out in order.  No slot is read or written out of range,
  whatever the positions of head and tail.\<close>

theorem circular_queue_refines_window:
  assumes "cq_new vmax dflt n = Inr q" "vmax < 2 ^ 63"
  shows "\<exists>t. queue_ops cq_push_back cq_empty cq_front cq_pop_front ops q =
      Inr (fst (window_run (sz (n + 1) - 1) ops []), t) \<and>
    cq_list t = snd (window_run (sz (n + 1) - 1) ops []) \<and> cq_ok t"
proof -
  note new = cq_new_ok [OF assms]
  then show ?thesis
    using cq.ops_refine [of q ops] by (auto simp del: One_nat_def)
qed

theorem circular_queue_refines_window_witness:
  "\<exists>t. queue_ops cq_push_back cq_empty cq_front cq_pop_front
      [Queue_Push 1, Queue_Push 2, Queue_Push 3, Queue_Pop, Queue_Push 4, Queue_Push 5]
      \<lparr>max_items = 3, head = 0, tail = 0, overrun = 0, slots = [0, 0, 0 :: nat]\<rparr> =
      Inr ([2], t) \<and> cq_list t = [4, 5] \<and> cq_ok t"
proof -
  have "window_run 2 [Queue_Push 1, Queue_Push 2, Queue_Push 3, Queue_Pop, Queue_Push 4, Queue_Push 5]
      ([] :: nat list) = ([2], [4, 5])"
    by (simp add: last_n_def numeral_2_eq_2)
  moreover have "sz (2 + 1) - 1 = 2" by (simp add: sz_def)
  moreover have "cq_new 100 (0 :: nat) 2 =
      Inr \<lparr>max_items = 3, head = 0, tail = 0, overrun = 0, slots = [0, 0, 0]\<rparr>"
    by (simp add: cq_new_def sz_def) (simp add: numeral_3_eq_3)
  ultimately show ?thesis
    using circular_queue_refines_window [of 100 "0 :: nat" 2 _
      "[Queue_Push 1, Queue_Push 2, Queue_Push 3, Queue_Pop, Queue_Push 4, Queue_Push 5]"]
    by simp
qed

text \<open>The ring buffer of a log keeps the last messages: after any messages, last_raw of a
  limit gives the last of them in order, at most as many as the sink was made for, and the
  counter of the queue has counted the messages that were overwritten.\<close>

theorem ringbuffer_keeps_last:
  assumes "rb_new vmax dflt n = Inr q" "vmax < 2 ^ 63" "0 < n" "n < 2 ^ 64 - 1"
  shows "\<exists>q'. res_fold rb_sink_it msgs q = Inr q' \<and>
    rb_last_raw ndebug lim0 q' = Inr (last_n (if lim0 = 0 then n else min lim0 n) msgs) \<and>
    cq_overrun_counter q' = sz (length msgs - n)"
proof -
  have new: "cq_ok q" "cq_list q = []" "cq_cap q = n" "overrun q = 0"
    using cq_new_ok [OF assms(1)[unfolded rb_new_def] assms(2)] assms(4) by (simp_all add: sz_small)
  obtain q' where q': "res_fold cq_push_back msgs q = Inr q'" "cq_ok q'"
    "cq_list q' = last_n n msgs" "overrun q' = sz (length msgs - n)"
    using cq.pushes [of q msgs] new assms(3) by auto
  have "last_n (if lim0 = 0 then cq_size q' else lim0) (cq_list q') =
      last_n (if lim0 = 0 then n else min lim0 n) msgs"
  proof (cases "lim0 \<le> n")
    case True
    then show ?thesis
      using last_n_id [of "cq_list q'" "cq_size q'"] by (simp add: q'(3) [symmetric] min_def)
        (simp add: q'(3) last_n_all)
  next
    case False
    then show ?thesis
      by (simp add: q'(3) min_def)
  qed
  then show ?thesis
    using q' rb_last_raw_eq [OF q'(2)]
    by (simp add: rb_sink_it_def [abs_def] cq_overrun_counter_def)
qed

theorem ringbuffer_keeps_last_witness:
  "\<exists>q q'. rb_new 100 ''-'' 2 = Inr q \<and> res_fold rb_sink_it [''a'', ''b'', ''c''] q = Inr q' \<and>
    rb_last_raw False 0 q' = Inr [''b'', ''c''] \<and> cq_overrun_counter q' = 1"
proof -
  have "rb_new 100 ''-'' 2 = Inr \<lparr>max_items = 3, head = 0, tail = 0, overrun = 0, slots = replicate 3 ''-''\<rparr>"
    by (simp add: rb_new_def cq_new_def sz_def)
  moreover have "last_n 2 [''a'', ''b'', ''c''] = [''b'', ''c'']"
    by (simp add: last_n_def numeral_2_eq_2)
  ultimately show ?thesis
    using ringbuffer_keeps_last [of 100 "''-''" 2 _ "[''a'', ''b'', ''c'']" False 0]
    by (simp add: sz_def)
qed

end
