(* ===== verification/LogBlocking.thy ===== *)
theory LogBlocking
  imports LogQueue
begin

text \<open>
  details/mpmc_blocking_q.h: the queue that the threads of the logging library share, a
  circular queue under a mutex with two condition variables.  mq_enqueue, mq_enqueue_nowait
  and mq_dequeue are what the three operations do with the lock in hand; None stands for a
  predicate that does not hold, on which the thread waits.

  mq_internal is the step relation of the threads in these functions, with the points at
  which they leave the lock: a test of the predicate that puts the thread to sleep, the
  change of the queue, and the notify_one that follows it after the lock was released.
  mq_env are the steps of the surroundings: a call, a return, a wait that times out and a
  spurious wake-up.  The lemmas show that no wake-up is lost.
\<close>

section \<open>The operations under the lock\<close>

definition mq_new :: "nat \<Rightarrow> 'm \<Rightarrow> nat \<Rightarrow> 'm circ_q res" where
  "mq_new vmax dflt n = cq_new vmax dflt n"

definition mq_enqueue :: "'m \<Rightarrow> 'm circ_q \<Rightarrow> 'm circ_q res option" where
  "mq_enqueue item q = (if \<not> cq_full q then Some (cq_push_back item q) else None)"

definition mq_enqueue_nowait :: "'m \<Rightarrow> 'm circ_q \<Rightarrow> 'm circ_q res" where
  "mq_enqueue_nowait item q = cq_push_back item q"

definition mq_dequeue :: "'m circ_q \<Rightarrow> ('m \<times> 'm circ_q) res option" where
  "mq_dequeue q =
     (if \<not> cq_empty q
      then Some (bind_res (cq_front q) (\<lambda>m. bind_res (cq_pop_front q) (\<lambda>q'. Inr (m, q'))))
      else None)"

definition mq_overrun_counter :: "'m circ_q \<Rightarrow> nat" where
  "mq_overrun_counter q = cq_overrun_counter q"

definition mq_size :: "'m circ_q \<Rightarrow> nat" where
  "mq_size q = cq_size q"

lemma mq_enqueue_cases:
  assumes "cq_ok q" "mq_enqueue m q = Some r"
  obtains q' where "r = Inr q'" "cq_ok q'" "cq_cap q' = cq_cap q" "max_items q' = max_items q"
    "overrun q' = overrun q" "max_items q > 0 \<Longrightarrow> cq_list q' = cq_list q @ [m]"
    "max_items q = 0 \<Longrightarrow> cq_list q' = []"
proof -
  have nf: "\<not> cq_full q" and r: "r = cq_push_back m q"
    using assms(2) by (auto simp: mq_enqueue_def split: if_splits)
  obtain q' where q': "cq_push_back m q = Inr q'" "cq_ok q'" "max_items q' = max_items q"
    "cq_list q' = last_n (cq_cap q) (cq_list q @ [m])"
    "overrun q' = (if cq_full q then sz (overrun q + 1) else overrun q)"
    using assms(1) by (rule cq_push)
  have "cq_list q' = cq_list q @ [m]" if "max_items q > 0"
    using q'(4) cq_full_iff [OF assms(1)] cq_size_bound [OF assms(1)] nf that by simp
  moreover have "cq_list q' = []" if "max_items q = 0"
    using q'(2,3) that cq_size_disabled [of q'] by (simp add: cq_list_def)
  ultimately show thesis
    using that [of q'] q' r nf by (simp add: cq_cap_def)
qed

lemma mq_nowait_cases:
  assumes "cq_ok q"
  obtains q' where "mq_enqueue_nowait m q = Inr q'" "cq_ok q'" "cq_cap q' = cq_cap q"
    "max_items q' = max_items q" "cq_list q' = last_n (cq_cap q) (cq_list q @ [m])"
    "overrun q' = (if cq_full q then sz (overrun q + 1) else overrun q)"
  using cq_push [OF assms] unfolding mq_enqueue_nowait_def cq_cap_def by metis

lemma mq_dequeue_cases:
  assumes "cq_ok q"
  obtains (none) "mq_dequeue q = None" "cq_list q = []"
  | (some) m q' where "mq_dequeue q = Some (Inr (m, q'))" "cq_list q = m # cq_list q'" "cq_ok q'"
      "cq_cap q' = cq_cap q" "max_items q' = max_items q" "overrun q' = overrun q"
proof (cases "cq_list q")
  case Nil
  then show thesis
    using none cq_empty_iff [OF assms] by (simp add: mq_dequeue_def)
next
  case (Cons m ms)
  then obtain q' where "cq_front q = Inr m" "cq_pop_front q = Inr q'" "cq_ok q'" "cq_list q' = ms"
    "max_items q' = max_items q" "overrun q' = overrun q"
    using cq_pop_Cons [OF assms] by metis
  then show thesis
    using some [of m q'] Cons cq_empty_iff [OF assms] by (simp add: mq_dequeue_def cq_cap_def)
qed

lemma mq_dequeue_None: "cq_ok q \<Longrightarrow> mq_dequeue q = None \<Longrightarrow> cq_size q = 0"
  by (metis cq_empty_iff length_cq_list list.size(3) mq_dequeue_def option.distinct(1))

lemma mq_dequeue_Some:
  assumes "cq_ok q" "mq_dequeue q = Some (Inr (m, q'))"
  shows "cq_list q = m # cq_list q'" "cq_ok q'" "cq_cap q' = cq_cap q" "max_items q' = max_items q"
    "overrun q' = overrun q" "cq_size q = cq_size q' + 1"
proof -
  have "cq_list q = m # cq_list q' \<and> cq_ok q' \<and> cq_cap q' = cq_cap q \<and> max_items q' = max_items q \<and>
      overrun q' = overrun q"
    using assms(1) by (rule mq_dequeue_cases) (use assms(2) in auto)
  then show "cq_list q = m # cq_list q'" "cq_ok q'" "cq_cap q' = cq_cap q" "max_items q' = max_items q"
    "overrun q' = overrun q" "cq_size q = cq_size q' + 1"
    using length_cq_list [of q] by auto
qed

section \<open>The threads\<close>

datatype 'm mq_pc =
    Outside
  | Enqueue 'm \<comment> \<open>about to take the lock and test that the queue is not full\<close>
  | Enqueue_Asleep 'm \<comment> \<open>in pop_cv_.wait\<close>
  | Enqueue_Nowait 'm
  | Notify_Push \<comment> \<open>about to call push_cv_.notify_one\<close>
  | Dequeue \<comment> \<open>about to take the lock and test that the queue is not empty\<close>
  | Dequeue_Asleep \<comment> \<open>in push_cv_.wait_for\<close>
  | Dequeue_Late \<comment> \<open>the wait has timed out: the last test\<close>
  | Notify_Pop 'm \<comment> \<open>about to call pop_cv_.notify_one\<close>
  | Returned "'m option"

type_synonym 'm mq_state = "'m circ_q \<times> 'm mq_pc list"

definition asleep_push :: "'m mq_pc \<Rightarrow> bool" where
  "asleep_push pc = (case pc of Dequeue_Asleep \<Rightarrow> True | _ \<Rightarrow> False)"

definition asleep_pop :: "'m mq_pc \<Rightarrow> bool" where
  "asleep_pop pc = (case pc of Enqueue_Asleep _ \<Rightarrow> True | _ \<Rightarrow> False)"

lemma asleep_pop_iff: "asleep_pop pc \<longleftrightarrow> (\<exists>m. pc = Enqueue_Asleep m)"
  by (cases pc) (simp_all add: asleep_pop_def)

inductive mq_internal :: "'m mq_state \<Rightarrow> 'm mq_state \<Rightarrow> bool" where
  enqueue_waits:
    "i < length ps \<Longrightarrow> ps ! i = Enqueue m \<Longrightarrow> mq_enqueue m q = None \<Longrightarrow>
     mq_internal (q, ps) (q, ps[i := Enqueue_Asleep m])"
| enqueue_pushes:
    "i < length ps \<Longrightarrow> ps ! i = Enqueue m \<Longrightarrow> mq_enqueue m q = Some (Inr q') \<Longrightarrow>
     mq_internal (q, ps) (q', ps[i := Notify_Push])"
| nowait_pushes:
    "i < length ps \<Longrightarrow> ps ! i = Enqueue_Nowait m \<Longrightarrow> mq_enqueue_nowait m q = Inr q' \<Longrightarrow>
     mq_internal (q, ps) (q', ps[i := Notify_Push])"
| notify_push_one:
    "i < length ps \<Longrightarrow> ps ! i = Notify_Push \<Longrightarrow> j < length ps \<Longrightarrow> asleep_push (ps ! j) \<Longrightarrow>
     mq_internal (q, ps) (q, ps[i := Outside, j := Dequeue])"
| notify_push_none:
    "i < length ps \<Longrightarrow> ps ! i = Notify_Push \<Longrightarrow> list_all (\<lambda>pc. \<not> asleep_push pc) ps \<Longrightarrow>
     mq_internal (q, ps) (q, ps[i := Outside])"
| dequeue_waits:
    "i < length ps \<Longrightarrow> ps ! i = Dequeue \<Longrightarrow> mq_dequeue q = None \<Longrightarrow>
     mq_internal (q, ps) (q, ps[i := Dequeue_Asleep])"
| dequeue_pops:
    "i < length ps \<Longrightarrow> ps ! i = Dequeue \<Longrightarrow> mq_dequeue q = Some (Inr (m, q')) \<Longrightarrow>
     mq_internal (q, ps) (q', ps[i := Notify_Pop m])"
| late_fails:
    "i < length ps \<Longrightarrow> ps ! i = Dequeue_Late \<Longrightarrow> mq_dequeue q = None \<Longrightarrow>
     mq_internal (q, ps) (q, ps[i := Returned None])"
| late_pops:
    "i < length ps \<Longrightarrow> ps ! i = Dequeue_Late \<Longrightarrow> mq_dequeue q = Some (Inr (m, q')) \<Longrightarrow>
     mq_internal (q, ps) (q', ps[i := Notify_Pop m])"
| notify_pop_one:
    "i < length ps \<Longrightarrow> ps ! i = Notify_Pop m \<Longrightarrow> j < length ps \<Longrightarrow> ps ! j = Enqueue_Asleep m' \<Longrightarrow>
     mq_internal (q, ps) (q, ps[i := Returned (Some m), j := Enqueue m'])"
| notify_pop_none:
    "i < length ps \<Longrightarrow> ps ! i = Notify_Pop m \<Longrightarrow> list_all (\<lambda>pc. \<not> asleep_pop pc) ps \<Longrightarrow>
     mq_internal (q, ps) (q, ps[i := Returned (Some m)])"

inductive mq_env :: "'m mq_state \<Rightarrow> 'm mq_state \<Rightarrow> bool" where
  call_enqueue: "i < length ps \<Longrightarrow> ps ! i = Outside \<Longrightarrow> mq_env (q, ps) (q, ps[i := Enqueue m])"
| call_nowait: "i < length ps \<Longrightarrow> ps ! i = Outside \<Longrightarrow> mq_env (q, ps) (q, ps[i := Enqueue_Nowait m])"
| call_dequeue: "i < length ps \<Longrightarrow> ps ! i = Outside \<Longrightarrow> mq_env (q, ps) (q, ps[i := Dequeue])"
| returns: "i < length ps \<Longrightarrow> ps ! i = Returned r \<Longrightarrow> mq_env (q, ps) (q, ps[i := Outside])"
| times_out: "i < length ps \<Longrightarrow> ps ! i = Dequeue_Asleep \<Longrightarrow> mq_env (q, ps) (q, ps[i := Dequeue_Late])"
| spurious_push: "i < length ps \<Longrightarrow> ps ! i = Dequeue_Asleep \<Longrightarrow> mq_env (q, ps) (q, ps[i := Dequeue])"
| spurious_pop: "i < length ps \<Longrightarrow> ps ! i = Enqueue_Asleep m \<Longrightarrow> mq_env (q, ps) (q, ps[i := Enqueue m])"

inductive mq_reach :: "'m mq_state \<Rightarrow> 'm mq_state \<Rightarrow> bool" for s where
  start: "mq_reach s s"
| internal: "mq_reach s t \<Longrightarrow> mq_internal t u \<Longrightarrow> mq_reach s u"
| env: "mq_reach s t \<Longrightarrow> mq_env t u \<Longrightarrow> mq_reach s u"

section \<open>No wake-up is lost\<close>

definition cnt :: "('x \<Rightarrow> bool) \<Rightarrow> 'x list \<Rightarrow> nat" where
  "cnt P xs = length (filter P xs)"

lemma cnt_update:
  "i < length xs \<Longrightarrow>
   cnt P (xs[i := x]) + (if P (xs ! i) then 1 else 0) = cnt P xs + (if P x then 1 else 0)"
proof (induction xs arbitrary: i)
  case (Cons y ys)
  then show ?case by (cases i) (auto simp: cnt_def)
qed simp

lemma cnt_eq_0: "cnt P xs = 0 \<longleftrightarrow> list_all (\<lambda>x. \<not> P x) xs"
  by (auto simp: cnt_def filter_empty_conv list_all_iff)

lemma cnt_pos: "i < length xs \<Longrightarrow> P (xs ! i) \<Longrightarrow> 0 < cnt P xs"
  by (metis cnt_eq_0 gr0I list_all_length)

lemma cnt_pos_nth: "0 < cnt P xs \<Longrightarrow> \<exists>i < length xs. P (xs ! i)"
  by (metis cnt_eq_0 less_numeral_extra(3) list_all_length)

definition minds_push :: "'m mq_pc \<Rightarrow> bool" where
  "minds_push pc = (case pc of Notify_Push \<Rightarrow> True | Dequeue \<Rightarrow> True | Dequeue_Late \<Rightarrow> True | _ \<Rightarrow> False)"

definition minds_pop :: "'m mq_pc \<Rightarrow> bool" where
  "minds_pop pc = (case pc of Notify_Pop _ \<Rightarrow> True | Enqueue _ \<Rightarrow> True | _ \<Rightarrow> False)"

text \<open>
  While a consumer sleeps, each item of the queue has a notification under way or a consumer
  that is about to look; while a producer sleeps, so has each free place.
\<close>

definition mq_inv :: "'m mq_state \<Rightarrow> bool" where
  "mq_inv s \<longleftrightarrow> (case s of (q, ps) \<Rightarrow>
     cq_ok q \<and>
     (cnt asleep_push ps = 0 \<or> cq_size q \<le> cnt minds_push ps) \<and>
     (cnt asleep_pop ps = 0 \<or> cq_cap q - cq_size q \<le> cnt minds_pop ps))"

lemmas pc_class_defs = asleep_push_def asleep_pop_def minds_push_def minds_pop_def

lemma count_step:
  fixes a a' b b' n n' :: nat
  assumes "a' + (if A then 1 else 0) = a + (if A' then 1 else 0)"
    "b' + (if B then 1 else 0) = b + (if B' then 1 else 0)"
    "a = 0 \<or> n \<le> b"
    "a' = 0 \<or> n' = 0 \<or> \<not> A' \<and> n' + (if B then 1 else 0) \<le> n + (if B' then 1 else 0)"
  shows "a' = 0 \<or> n' \<le> b'"
proof (cases "a' = 0 \<or> n' = 0 \<or> A'")
  case False
  then have "n \<le> b" "n' + (if B then 1 else 0) \<le> n + (if B' then 1 else 0)"
    using assms(1,3,4) by (auto split: if_splits)
  then show ?thesis
    using assms(2) by linarith
qed (use assms(4) in auto)

lemma mq_inv_move:
  assumes "mq_inv (q, ps)" "i < length ps" "cq_ok q'" "cq_cap q' = cq_cap q"
    and "cnt asleep_push (ps[i := pc]) = 0 \<or> cq_size q' = 0 \<or>
      (\<not> asleep_push pc \<and> cq_size q' + (if minds_push (ps ! i) then 1 else 0) \<le> cq_size q + (if minds_push pc then 1 else 0))"
    and "cnt asleep_pop (ps[i := pc]) = 0 \<or> cq_cap q - cq_size q' = 0 \<or>
      (\<not> asleep_pop pc \<and> cq_cap q - cq_size q' + (if minds_pop (ps ! i) then 1 else 0)
          \<le> cq_cap q - cq_size q + (if minds_pop pc then 1 else 0))"
  shows "mq_inv (q', ps[i := pc])"
proof -
  have inv: "cnt asleep_push ps = 0 \<or> cq_size q \<le> cnt minds_push ps"
    "cnt asleep_pop ps = 0 \<or> cq_cap q - cq_size q \<le> cnt minds_pop ps"
    using assms(1) by (simp_all add: mq_inv_def)
  show ?thesis
    using count_step [OF cnt_update cnt_update inv(1) assms(5), OF assms(2) assms(2)]
      count_step [OF cnt_update cnt_update inv(2) assms(6), OF assms(2) assms(2)] assms(3,4)
    by (simp add: mq_inv_def)
qed

text \<open>A notification wakes one more thread between the two changes.\<close>

lemma mq_inv_wake:
  assumes "mq_inv (q, ps)" "i < length ps" "j < length ps" "i \<noteq> j"
    and "asleep_push (ps ! j) \<and> pc = Dequeue \<and> ps ! i = Notify_Push \<and> pc' = Outside \<or>
      asleep_pop (ps ! j) \<and> pc = Enqueue m \<and> (\<exists>m'. ps ! i = Notify_Pop m') \<and> pc' = Returned r"
  shows "mq_inv (q, ps[i := pc', j := pc])"
proof -
  have ok: "cq_ok q" using assms(1) by (simp add: mq_inv_def)
  have "mq_inv (q, ps[j := pc])"
    using assms(5)
    by (intro mq_inv_move [OF assms(1,3) ok refl]) (auto simp: pc_class_defs split: mq_pc.splits)
  have "cnt asleep_push (ps[j := pc, i := pc']) = cnt asleep_push (ps[j := pc])"
    "cnt asleep_pop (ps[j := pc, i := pc']) = cnt asleep_pop (ps[j := pc])"
    using cnt_update [of i "ps[j := pc]" asleep_push pc'] cnt_update [of i "ps[j := pc]" asleep_pop pc']
      assms(2,4,5) by (auto simp: pc_class_defs)
  moreover have "cnt minds_push (ps[j := pc, i := pc']) = cnt minds_push ps"
    "cnt minds_pop (ps[j := pc, i := pc']) = cnt minds_pop ps"
    using cnt_update [of i "ps[j := pc]" minds_push pc'] cnt_update [of j ps minds_push pc]
      cnt_update [of i "ps[j := pc]" minds_pop pc'] cnt_update [of j ps minds_pop pc]
      assms(2-5) by (auto simp: pc_class_defs split: mq_pc.splits)
  moreover have "cnt asleep_push (ps[j := pc]) \<le> cnt asleep_push ps" "cnt asleep_pop (ps[j := pc]) \<le> cnt asleep_pop ps"
    using cnt_update [of j ps asleep_push pc] cnt_update [of j ps asleep_pop pc] assms(3,5)
    by (auto simp: pc_class_defs split: mq_pc.splits)
  ultimately show ?thesis
    using assms(1) unfolding list_update_swap [OF assms(4)] by (auto simp: mq_inv_def)
qed

lemma mq_inv_ok: "mq_inv (q, ps) \<Longrightarrow> cq_ok q"
  by (simp add: mq_inv_def)

lemma list_all_update_cnt:
  "list_all (\<lambda>pc. \<not> P pc) ps \<Longrightarrow> \<not> P pc \<Longrightarrow> i < length ps \<Longrightarrow> cnt P (ps[i := pc]) = 0"
  using cnt_update [of i ps P pc] by (simp add: cnt_eq_0 [symmetric] split: if_splits)

lemma mq_internal_inv: "mq_internal s t \<Longrightarrow> mq_inv s \<Longrightarrow> mq_inv t"
proof (induction rule: mq_internal.induct)
  case (enqueue_waits i ps m q)
  then have "cq_full q" by (simp add: mq_enqueue_def split: if_splits)
  then show ?case
    using enqueue_waits cq_full_iff [OF mq_inv_ok [OF enqueue_waits(4)]]
    by (intro mq_inv_move [OF enqueue_waits(4,1) mq_inv_ok [OF enqueue_waits(4)] refl])
      (auto simp: pc_class_defs)
next
  case (enqueue_pushes i ps m q q')
  obtain q1 where "q1 = q'" "cq_ok q'" "cq_cap q' = cq_cap q" "max_items q' = max_items q"
    "max_items q > 0 \<Longrightarrow> cq_list q' = cq_list q @ [m]" "max_items q = 0 \<Longrightarrow> cq_list q' = []"
    using mq_enqueue_cases [OF mq_inv_ok [OF enqueue_pushes(4)] enqueue_pushes(3)] by auto
  moreover from this have "cq_size q' \<le> cq_size q + 1" "cq_cap q - cq_size q' \<le> cq_cap q - cq_size q - 1"
    using length_cq_list [of q] length_cq_list [of q']
    by (cases "max_items q = 0"; simp add: cq_cap_def)+
  moreover have "cq_cap q - cq_size q > 0 \<or> max_items q = 0"
    using enqueue_pushes(3) cq_full_iff [OF mq_inv_ok [OF enqueue_pushes(4)]]
      cq_size_bound [OF mq_inv_ok [OF enqueue_pushes(4)]]
    by (auto simp: mq_enqueue_def split: if_splits)
  ultimately show ?case
    using enqueue_pushes
    by (intro mq_inv_move [OF enqueue_pushes(4,1)]) (auto simp: pc_class_defs cq_cap_def)
next
  case (nowait_pushes i ps m q q')
  obtain q1 where "q1 = q'" "cq_ok q'" "cq_cap q' = cq_cap q" "cq_list q' = last_n (cq_cap q) (cq_list q @ [m])"
    using mq_nowait_cases [OF mq_inv_ok [OF nowait_pushes(4)], of m] nowait_pushes(3) by auto
  moreover from this have "cq_size q' = min (cq_cap q) (cq_size q + 1)"
    using length_cq_list [of q'] by (simp del: length_cq_list) simp
  ultimately show ?case
    using nowait_pushes
    by (intro mq_inv_move [OF nowait_pushes(4,1)]) (auto simp: pc_class_defs)
next
  case (notify_push_one i ps j q)
  then show ?case
    by (intro mq_inv_wake) (auto simp: pc_class_defs)
next
  case (notify_push_none i ps q)
  then show ?case
    by (intro mq_inv_move [OF notify_push_none(4,1) mq_inv_ok [OF notify_push_none(4)] refl])
      (auto simp: pc_class_defs list_all_update_cnt)
next
  case (dequeue_waits i ps q)
  have "cq_size q = 0"
    using mq_dequeue_None [OF mq_inv_ok [OF dequeue_waits(4)] dequeue_waits(3)] .
  then show ?case
    using dequeue_waits
    by (intro mq_inv_move [OF dequeue_waits(4,1) mq_inv_ok [OF dequeue_waits(4)] refl])
      (auto simp: pc_class_defs)
next
  case (dequeue_pops i ps q m q')
  note deq = mq_dequeue_Some [OF mq_inv_ok [OF dequeue_pops(4)] dequeue_pops(3)]
  then show ?case
    using dequeue_pops
    by (intro mq_inv_move [OF dequeue_pops(4,1)]) (auto simp: pc_class_defs)
next
  case (late_fails i ps q)
  have "cq_size q = 0"
    using mq_dequeue_None [OF mq_inv_ok [OF late_fails(4)] late_fails(3)] .
  then show ?case
    using late_fails
    by (intro mq_inv_move [OF late_fails(4,1) mq_inv_ok [OF late_fails(4)] refl])
      (auto simp: pc_class_defs)
next
  case (late_pops i ps q m q')
  note deq = mq_dequeue_Some [OF mq_inv_ok [OF late_pops(4)] late_pops(3)]
  then show ?case
    using late_pops
    by (intro mq_inv_move [OF late_pops(4,1)]) (auto simp: pc_class_defs)
next
  case (notify_pop_one i ps m j m' q)
  then show ?case
    by (intro mq_inv_wake) (auto simp: pc_class_defs)
next
  case (notify_pop_none i ps m q)
  then show ?case
    by (intro mq_inv_move [OF notify_pop_none(4,1) mq_inv_ok [OF notify_pop_none(4)] refl])
      (auto simp: pc_class_defs list_all_update_cnt)
qed

lemma mq_env_inv: "mq_env s t \<Longrightarrow> mq_inv s \<Longrightarrow> mq_inv t"
  by (erule mq_env.cases; simp; rule mq_inv_move [OF _ _ mq_inv_ok refl], assumption, assumption, assumption;
      simp add: pc_class_defs)

lemma mq_reach_inv: "mq_reach s t \<Longrightarrow> mq_inv s \<Longrightarrow> mq_inv t"
  by (induction rule: mq_reach.induct) (auto intro: mq_internal_inv mq_env_inv)

section \<open>Quiescence\<close>

text \<open>When no thread can move on its own, every thread is outside of the queue or asleep for a
  reason that holds: a consumer because the queue is empty, a producer because it is full.\<close>

definition mq_settled :: "'m mq_state \<Rightarrow> bool" where
  "mq_settled s \<longleftrightarrow> (case s of (q, ps) \<Rightarrow>
     list_all (\<lambda>pc. case pc of
        Outside \<Rightarrow> True
      | Returned _ \<Rightarrow> True
      | Dequeue_Asleep \<Rightarrow> cq_size q = 0
      | Enqueue_Asleep _ \<Rightarrow> cq_size q = cq_cap q
      | _ \<Rightarrow> False) ps)"

lemma mq_moves:
  assumes "mq_inv (q, ps)" "i < length ps"
    and "minds_push (ps ! i) \<or> minds_pop (ps ! i) \<or> (\<exists>m. ps ! i = Enqueue_Nowait m)"
  shows "\<exists>t. mq_internal (q, ps) t"
proof -
  have ok: "cq_ok q" using assms(1) by (rule mq_inv_ok)
  have deq: "mq_dequeue q = None \<or> (\<exists>m q'. mq_dequeue q = Some (Inr (m, q')))"
    using mq_dequeue_cases [OF ok] by metis
  show ?thesis
  proof (cases "ps ! i")
    case (Enqueue m)
    then show ?thesis
      using mq_enqueue_cases [OF ok, of m] assms(2) by (metis enqueue_pushes enqueue_waits option.exhaust)
  next
    case (Enqueue_Nowait m)
    then show ?thesis
      using mq_nowait_cases [OF ok, of m] assms(2) by (metis nowait_pushes)
  next
    case Notify_Push
    then show ?thesis
      using assms(2) notify_push_none [of i ps] notify_push_one [of i ps]
      by (fastforce simp: list_all_length)
  next
    case Dequeue
    then show ?thesis
      using deq assms(2) by (metis dequeue_pops dequeue_waits)
  next
    case Dequeue_Late
    then show ?thesis
      using deq assms(2) by (metis late_fails late_pops)
  next
    case (Notify_Pop m)
    show ?thesis
    proof (cases "list_all (\<lambda>pc. \<not> asleep_pop pc) ps")
      case True
      show ?thesis by (rule exI) (rule notify_pop_none [OF assms(2) Notify_Pop True])
    next
      case False
      then obtain j m' where j: "j < length ps" "ps ! j = Enqueue_Asleep m'"
        by (auto simp: list_all_length asleep_pop_iff)
      show ?thesis by (rule exI) (rule notify_pop_one [OF assms(2) Notify_Pop j])
    qed
  qed (use assms(3) in \<open>auto simp: pc_class_defs\<close>)
qed

text \<open>C15: No wake-up of the blocking queue is lost.  However the calls of the threads, their
  time-outs and spurious wake-ups fall, when no thread can make a step on its own any more,
  each consumer that sleeps does so on an empty queue and each producer that sleeps on a full
  one; no thread is left in the middle of an operation.\<close>

theorem blocking_queue_no_lost_wakeup:
  assumes "mq_new vmax dflt n = Inr q" "vmax < 2 ^ 63"
    and "mq_reach (q, replicate k Outside) s" "\<not> (\<exists>t. mq_internal s t)"
  shows "mq_settled s"
proof -
  obtain q' ps where s: "s = (q', ps)" by (cases s)
  have "mq_inv (q, replicate k Outside)"
    using cq_new_ok [OF assms(1)[unfolded mq_new_def] assms(2)]
    by (simp add: mq_inv_def cnt_def asleep_push_def asleep_pop_def)
  then have inv: "mq_inv (q', ps)"
    using mq_reach_inv assms(3) s by blast
  then have quiet: "\<not> minds_push (ps ! i)" "\<not> minds_pop (ps ! i)" "\<And>m. ps ! i \<noteq> Enqueue_Nowait m"
    if "i < length ps" for i
    using mq_moves [OF inv that] assms(4) s by blast+
  then have none: "cnt minds_push ps = 0" "cnt minds_pop ps = 0"
    by (simp_all add: cnt_eq_0 list_all_length)
  have "case ps ! i of Outside \<Rightarrow> True | Returned _ \<Rightarrow> True | Dequeue_Asleep \<Rightarrow> cq_size q' = 0
      | Enqueue_Asleep _ \<Rightarrow> cq_size q' = cq_cap q' | _ \<Rightarrow> False" if i: "i < length ps" for i
    using quiet [OF i] inv none cnt_pos [OF i, of asleep_push] cnt_pos [OF i, of asleep_pop]
      cq_size_bound [OF mq_inv_ok [OF inv]]
    by (auto simp: mq_inv_def pc_class_defs split: mq_pc.splits)
  then show ?thesis
    by (simp add: s mq_settled_def list_all_length)
qed

theorem blocking_queue_no_lost_wakeup_witness:
  "mq_settled (\<lparr>max_items = 2, head = 0, tail = 0, overrun = 0, slots = [0, 0 :: nat]\<rparr>, [Dequeue_Asleep])"
proof -
  let ?q = "\<lparr>max_items = 2, head = 0, tail = 0, overrun = 0, slots = [0, 0 :: nat]\<rparr>"
  have "mq_new 100 (0 :: nat) 1 = Inr ?q"
    by (simp add: mq_new_def cq_new_def sz_def)
  moreover have "mq_reach (?q, replicate 1 Outside) (?q, [Dequeue_Asleep])"
  proof (rule mq_reach.internal [OF mq_reach.env [OF mq_reach.start]])
    show "mq_env (?q, replicate 1 Outside) (?q, [Dequeue])"
      using call_dequeue [of 0 "[Outside]" ?q] by simp
    show "mq_internal (?q, [Dequeue]) (?q, [Dequeue_Asleep])"
      using dequeue_waits [of 0 "[Dequeue]" ?q] by (simp add: mq_dequeue_def cq_empty_def)
  qed
  moreover have "\<not> (\<exists>t. mq_internal (?q, [Dequeue_Asleep]) t)"
    by (auto elim!: mq_internal.cases)
  ultimately show ?thesis
    using blocking_queue_no_lost_wakeup [of 100 "0 :: nat" 1 ?q 1 "(?q, [Dequeue_Asleep])"] by simp
qed

end
