(* ===== verification/LogPool.thy ===== *)
theory LogPool
  imports LogBlocking "HOL-Library.Multiset" "HOL-Library.Sublist"
begin

text \<open>
  The threads of the logging library: details/thread_pool-inl.h and the front end of
  async_logger-inl.h.  The operations of the queue are the ones of LogBlocking, which run
  under its mutex; an enqueue that waits is a step that is not enabled yet.

  pool_step is the step relation of a pool: posts of the loggers (with their messages as
  label), the workers, which take a message and then handle it in a step of its own, and the
  destructor, which posts one terminate message per worker and joins the workers one by one.
  What a worker does with a message, to have its logger write it or flush, is recorded in
  pool_events.
\<close>

section \<open>Messages\<close>

datatype async_msg_type = Async_Log | Async_Flush | Async_Terminate

datatype async_overflow_policy = Overflow_Block | Overrun_Oldest

text \<open>worker_ptr is null in a terminate message and in the default value of a queue slot.\<close>

record ('l, 'm) async_msg =
  msg_type :: async_msg_type
  worker_ptr :: "'l option"
  payload :: "'m option"

definition async_log :: "'l \<Rightarrow> 'm \<Rightarrow> ('l, 'm) async_msg" where
  "async_log worker msg = \<lparr>msg_type = Async_Log, worker_ptr = Some worker, payload = Some msg\<rparr>"

definition async_flush :: "'l \<Rightarrow> ('l, 'm) async_msg" where
  "async_flush worker = \<lparr>msg_type = Async_Flush, worker_ptr = Some worker, payload = None\<rparr>"

definition async_terminate :: "('l, 'm) async_msg" where
  "async_terminate = \<lparr>msg_type = Async_Terminate, worker_ptr = None, payload = None\<rparr>"

definition async_default :: "('l, 'm) async_msg" where
  "async_default = \<lparr>msg_type = Async_Log, worker_ptr = None, payload = None\<rparr>"

datatype ('l, 'm) pool_event = Backend_Sink_It 'l "'m option" | Backend_Flush 'l

section \<open>The pool\<close>

datatype ('l, 'm) worker = Waiting | Holding "('l, 'm) async_msg" | Ended

datatype destructor = Not_Called | Posting nat | Joining nat | Destroyed

record ('l, 'm) pool =
  pool_q :: "('l, 'm) async_msg circ_q"
  pool_workers :: "('l, 'm) worker list"
  pool_dtor :: destructor
  pool_events :: "('l, 'm) pool_event list"

text \<open>The constructor makes the queue before it looks at the number of threads.\<close>

definition pool_new :: "nat \<Rightarrow> nat \<Rightarrow> nat \<Rightarrow> ('l, 'm) pool res" where
  "pool_new vmax q_max_items threads_n =
     bind_res (mq_new vmax async_default q_max_items) (\<lambda>q.
       if threads_n = 0 \<or> threads_n > 1000 then Inl Uncaught_Exception
       else Inr \<lparr>pool_q = q, pool_workers = replicate threads_n Waiting, pool_dtor = Not_Called, pool_events = []\<rparr>)"

definition post_async_msg :: "('l, 'm) async_msg \<Rightarrow> async_overflow_policy \<Rightarrow> ('l, 'm) pool \<Rightarrow> ('l, 'm) pool res option" where
  "post_async_msg new_msg policy p =
     (if policy = Overflow_Block
      then map_option (\<lambda>r. bind_res r (\<lambda>q. Inr (p\<lparr>pool_q := q\<rparr>))) (mq_enqueue new_msg (pool_q p))
      else Some (bind_res (mq_enqueue_nowait new_msg (pool_q p)) (\<lambda>q. Inr (p\<lparr>pool_q := q\<rparr>))))"

definition post_log :: "'l \<Rightarrow> 'm \<Rightarrow> async_overflow_policy \<Rightarrow> ('l, 'm) pool \<Rightarrow> ('l, 'm) pool res option" where
  "post_log worker msg policy p = post_async_msg (async_log worker msg) policy p"

definition post_flush :: "'l \<Rightarrow> async_overflow_policy \<Rightarrow> ('l, 'm) pool \<Rightarrow> ('l, 'm) pool res option" where
  "post_flush worker policy p = post_async_msg (async_flush worker) policy p"

definition pool_overrun_counter :: "('l, 'm) pool \<Rightarrow> nat" where
  "pool_overrun_counter p = mq_overrun_counter (pool_q p)"

definition pool_queue_size :: "('l, 'm) pool \<Rightarrow> nat" where
  "pool_queue_size p = mq_size (pool_q p)"

text \<open>
  sink_it_ and flush_ of an async_logger: the weak pointer to the pool is locked; without a
  pool they throw.
\<close>

definition async_sink_it :: "'l \<Rightarrow> async_overflow_policy \<Rightarrow> 'm \<Rightarrow> ('l, 'm) pool option \<Rightarrow> ('l, 'm) pool res option" where
  "async_sink_it self overflow_policy msg thread_pool =
     (case thread_pool of
        Some p \<Rightarrow> post_log self msg overflow_policy p
      | None \<Rightarrow> Some (Inl Uncaught_Exception))"

definition async_flush_it :: "'l \<Rightarrow> async_overflow_policy \<Rightarrow> ('l, 'm) pool option \<Rightarrow> ('l, 'm) pool res option" where
  "async_flush_it self overflow_policy thread_pool =
     (case thread_pool of
        Some p \<Rightarrow> post_flush self overflow_policy p
      | None \<Rightarrow> Some (Inl Uncaught_Exception))"

text \<open>
  process_next_msg_ in two parts.  dequeue_for may time out: then the worker goes round its
  loop and waits again.  handle_msg gives what the logger is told to do and whether the
  worker goes on.
\<close>

definition handle_msg :: "('l, 'm) async_msg \<Rightarrow> (('l, 'm) pool_event list \<times> bool) res" where
  "handle_msg m =
     (case msg_type m of
        Async_Log \<Rightarrow> (case worker_ptr m of None \<Rightarrow> Inl Bad_Access
                      | Some l \<Rightarrow> Inr ([Backend_Sink_It l (payload m)], True))
      | Async_Flush \<Rightarrow> (case worker_ptr m of None \<Rightarrow> Inl Bad_Access
                      | Some l \<Rightarrow> Inr ([Backend_Flush l], True))
      | Async_Terminate \<Rightarrow> Inr ([], False))"

inductive pool_work :: "('l, 'm) pool \<Rightarrow> ('l, 'm) pool \<Rightarrow> bool" where
  takes:
    "i < length (pool_workers p) \<Longrightarrow> pool_workers p ! i = Waiting \<Longrightarrow>
     mq_dequeue (pool_q p) = Some (Inr (m, q)) \<Longrightarrow>
     pool_work p (p\<lparr>pool_q := q, pool_workers := (pool_workers p)[i := Holding m]\<rparr>)"
| handles:
    "i < length (pool_workers p) \<Longrightarrow> pool_workers p ! i = Holding m \<Longrightarrow> handle_msg m = Inr (evs, goes_on) \<Longrightarrow>
     pool_work p (p\<lparr>pool_events := pool_events p @ evs,
       pool_workers := (pool_workers p)[i := (if goes_on then Waiting else Ended)]\<rparr>)"
| posts_terminate:
    "pool_dtor p = Posting k \<Longrightarrow> k < length (pool_workers p) \<Longrightarrow>
     post_async_msg async_terminate Overflow_Block p = Some (Inr p') \<Longrightarrow>
     pool_work p (p'\<lparr>pool_dtor := Posting (k + 1)\<rparr>)"
| posted_all:
    "pool_dtor p = Posting (length (pool_workers p)) \<Longrightarrow>
     pool_work p (p\<lparr>pool_dtor := Joining 0\<rparr>)"
| joins:
    "pool_dtor p = Joining k \<Longrightarrow> k < length (pool_workers p) \<Longrightarrow> pool_workers p ! k = Ended \<Longrightarrow>
     pool_work p (p\<lparr>pool_dtor := Joining (k + 1)\<rparr>)"
| joined_all:
    "pool_dtor p = Joining (length (pool_workers p)) \<Longrightarrow>
     pool_work p (p\<lparr>pool_dtor := Destroyed\<rparr>)"

text \<open>
  pool_reach p posts p': from p the pool gets to p', the messages of posts being posted on
  the way in this order.  A logger that posts keeps the pool alive, so there are no posts
  once the destructor runs.
\<close>

inductive pool_reach :: "('l, 'm) pool \<Rightarrow> (async_overflow_policy \<times> ('l, 'm) async_msg) list \<Rightarrow> ('l, 'm) pool \<Rightarrow> bool"
  for p0 where
  starts: "pool_reach p0 [] p0"
| works: "pool_reach p0 posts p \<Longrightarrow> pool_work p p' \<Longrightarrow> pool_reach p0 posts p'"
| posts_log:
    "pool_reach p0 posts p \<Longrightarrow> pool_dtor p = Not_Called \<Longrightarrow> async_sink_it l policy msg (Some p) = Some (Inr p') \<Longrightarrow>
     pool_reach p0 (posts @ [(policy, async_log l msg)]) p'"
| posts_flush:
    "pool_reach p0 posts p \<Longrightarrow> pool_dtor p = Not_Called \<Longrightarrow> async_flush_it l policy (Some p) = Some (Inr p') \<Longrightarrow>
     pool_reach p0 (posts @ [(policy, async_flush l)]) p'"
| destroys:
    "pool_reach p0 posts p \<Longrightarrow> pool_dtor p = Not_Called \<Longrightarrow> pool_reach p0 posts (p\<lparr>pool_dtor := Posting 0\<rparr>)"

section \<open>What happens to the messages\<close>

definition events_of :: "('l, 'm) async_msg \<Rightarrow> ('l, 'm) pool_event list" where
  "events_of m = (case handle_msg m of Inl _ \<Rightarrow> [] | Inr (evs, _) \<Rightarrow> evs)"

definition all_events :: "('l, 'm) async_msg list \<Rightarrow> ('l, 'm) pool_event list" where
  "all_events ms = concat (map events_of ms)"

definition worker_msgs :: "('l, 'm) worker \<Rightarrow> ('l, 'm) async_msg list" where
  "worker_msgs w = (case w of Holding m \<Rightarrow> [m] | _ \<Rightarrow> [])"

definition held :: "('l, 'm) worker list \<Rightarrow> ('l, 'm) async_msg list" where
  "held ws = concat (map worker_msgs ws)"

text \<open>What the loggers have done, then what the workers and the queue hold for them.\<close>

definition pool_trace :: "('l, 'm) pool \<Rightarrow> ('l, 'm) pool_event list" where
  "pool_trace p = pool_events p @ all_events (held (pool_workers p)) @ all_events (cq_list (pool_q p))"

lemma all_events_simps [simp]:
  "all_events [] = []" "all_events (m # ms) = events_of m @ all_events ms"
  "all_events (ms @ ns) = all_events ms @ all_events ns"
  by (simp_all add: all_events_def)

lemma events_of_terminate [simp]: "events_of async_terminate = []"
  by (simp add: events_of_def handle_msg_def async_terminate_def)

lemma mset_held_update:
  "i < length ws \<Longrightarrow>
   mset (all_events (held (ws[i := w]))) + mset (all_events (worker_msgs (ws ! i))) =
   mset (all_events (held ws)) + mset (all_events (worker_msgs w))"
proof (induction ws arbitrary: i)
  case (Cons v ws)
  then show ?case by (cases i) (simp_all add: held_def ac_simps)
qed simp

lemma all_events_last_n: "subseq (all_events (last_n n ms)) (all_events ms)"
proof -
  have "all_events ms = all_events (take (length ms - n) ms) @ all_events (last_n n ms)"
    unfolding last_n_def all_events_simps(3) [symmetric] by simp
  then show ?thesis by (metis list_emb_append2 subseq_order.refl)
qed

lemma subseq_mset: "subseq xs ys \<Longrightarrow> mset xs \<subseteq># mset ys"
  by (induction rule: list_emb.induct) (auto simp: subset_mset.le_iff_add)

text \<open>The posts that a pool has had, and what became of them.\<close>

definition accounted :: "nat \<Rightarrow> ('l, 'm) pool_event list \<Rightarrow> ('l, 'm) pool_event list \<Rightarrow> bool \<Rightarrow> bool" where
  "accounted n done_or_held posted blocking \<longleftrightarrow>
     mset done_or_held \<subseteq># mset posted \<and> (blocking \<longrightarrow> mset done_or_held = mset posted) \<and>
     (n = 1 \<longrightarrow> subseq done_or_held posted)"

lemma accounted_mset:
  assumes "accounted n tr posted blocking" "mset tr' = mset tr" "n = 1 \<Longrightarrow> tr' = tr"
  shows "accounted n tr' posted blocking"
  using assms by (auto simp: accounted_def)

lemma accounted_post:
  assumes "accounted n (tr @ old) posted blocking" "subseq new (old @ evs)" "blocking' \<Longrightarrow> blocking \<and> new = old @ evs"
  shows "accounted n (tr @ new) (posted @ evs) blocking'"
proof -
  have "mset (tr @ new) \<subseteq># mset ((tr @ old) @ evs)"
    using subseq_mset [OF assms(2)] by simp
  also have "\<dots> \<subseteq># mset (posted @ evs)"
    using assms(1) by (simp add: accounted_def)
  finally have "mset (tr @ new) \<subseteq># mset (posted @ evs)" .
  moreover have "mset (tr @ new) = mset (posted @ evs)" if blocking'
  proof -
    have "mset (tr @ old) = mset posted" using assms(1,3) that by (simp add: accounted_def)
    then show ?thesis using assms(3) that by (simp add: union_assoc [symmetric])
  qed
  moreover have "subseq (tr @ new) (posted @ evs)" if "n = 1"
  proof -
    have "subseq (tr @ new) ((tr @ old) @ evs)"
      using assms(2) by (simp add: list_emb_append_mono)
    moreover have "subseq ((tr @ old) @ evs) (posted @ evs)"
      using assms(1) that by (simp only: accounted_def subseq_append)
    ultimately show ?thesis by (rule subseq_order.trans)
  qed
  ultimately show ?thesis by (simp add: accounted_def)
qed

definition is_terminate :: "('l, 'm) async_msg \<Rightarrow> bool" where
  "is_terminate m \<longleftrightarrow> msg_type m = Async_Terminate"

definition msg_ok :: "('l, 'm) async_msg \<Rightarrow> bool" where
  "msg_ok m \<longleftrightarrow> is_terminate m \<or> worker_ptr m \<noteq> None"

lemma handle_msg_ok:
  "msg_ok m \<Longrightarrow> handle_msg m = Inr (events_of m, \<not> is_terminate m)"
  by (auto simp: handle_msg_def msg_ok_def events_of_def is_terminate_def split: async_msg_type.split)

text \<open>A worker that has a terminate message in hand or has ended with one.\<close>

definition past_terminate :: "('l, 'm) worker \<Rightarrow> bool" where
  "past_terminate w = (case w of Waiting \<Rightarrow> False | Holding m \<Rightarrow> is_terminate m | Ended \<Rightarrow> True)"

definition terminates_posted :: "nat \<Rightarrow> destructor \<Rightarrow> nat" where
  "terminates_posted n d = (case d of Not_Called \<Rightarrow> 0 | Posting k \<Rightarrow> k | Joining _ \<Rightarrow> n | Destroyed \<Rightarrow> n)"

definition dtor_ok :: "('l, 'm) worker list \<Rightarrow> destructor \<Rightarrow> bool" where
  "dtor_ok ws d =
     (case d of Not_Called \<Rightarrow> True
      | Posting k \<Rightarrow> k \<le> length ws
      | Joining k \<Rightarrow> k \<le> length ws \<and> list_all (\<lambda>w. w = Ended) (take k ws)
      | Destroyed \<Rightarrow> list_all (\<lambda>w. w = Ended) ws)"

fun logs_first :: "('l, 'm) async_msg list \<Rightarrow> bool" where
  "logs_first [] = True"
| "logs_first (m # ms) = (if is_terminate m then list_all is_terminate ms else logs_first ms)"

definition pool_inv :: "nat \<Rightarrow> nat \<Rightarrow> ('l, 'm) pool \<Rightarrow> bool" where
  "pool_inv n c p \<longleftrightarrow>
     length (pool_workers p) = n \<and> cq_ok (pool_q p) \<and> max_items (pool_q p) > 0 \<and> cq_cap (pool_q p) = c \<and>
     list_all msg_ok (cq_list (pool_q p)) \<and> list_all (\<lambda>w. list_all msg_ok (worker_msgs w)) (pool_workers p) \<and>
     cnt is_terminate (cq_list (pool_q p)) + cnt past_terminate (pool_workers p) = terminates_posted n (pool_dtor p) \<and>
     dtor_ok (pool_workers p) (pool_dtor p) \<and> logs_first (cq_list (pool_q p)) \<and>
     (cnt past_terminate (pool_workers p) = 0 \<or> list_all is_terminate (cq_list (pool_q p)))"

lemma cnt_Nil [simp]: "cnt P [] = 0"
  and cnt_Cons [simp]: "cnt P (x # xs) = (if P x then 1 else 0) + cnt P xs"
  and cnt_append [simp]: "cnt P (xs @ ys) = cnt P xs + cnt P ys"
  by (simp_all add: cnt_def)

lemma logs_first_terminates: "list_all is_terminate ms \<Longrightarrow> logs_first ms"
  by (cases ms) auto

lemma logs_first_tl: "logs_first (m # ms) \<Longrightarrow> logs_first ms \<and> (is_terminate m \<longrightarrow> list_all is_terminate ms)"
  by (simp add: logs_first_terminates split: if_splits)

lemma logs_first_snoc: "logs_first ms \<Longrightarrow> is_terminate m \<Longrightarrow> logs_first (ms @ [m])"
  by (induction ms) auto

lemma logs_first_none: "cnt is_terminate ms = 0 \<Longrightarrow> logs_first ms"
  by (induction ms) (auto split: if_splits)

lemma dtor_ok_update: "dtor_ok ws d \<Longrightarrow> i < length ws \<Longrightarrow> ws ! i \<noteq> Ended \<Longrightarrow> dtor_ok (ws[i := w]) d"
  by (auto simp: dtor_ok_def list_all_length nth_list_update split: destructor.splits)

lemma list_all_update: "list_all P xs \<Longrightarrow> P x \<Longrightarrow> list_all P (xs[i := x])"
  by (cases "i < length xs") (auto simp: list_all_length nth_list_update)

lemma pool_inv_worker:
  assumes "pool_inv n c p" "i < length (pool_workers p)" "pool_workers p ! i \<noteq> Ended"
    and "list_all msg_ok (worker_msgs w)" "cq_ok q" "max_items q = max_items (pool_q p)"
    and "pool_workers p' = (pool_workers p)[i := w]" "pool_q p' = q" "pool_dtor p' = pool_dtor p"
    and "past_terminate w = past_terminate (pool_workers p ! i) \<and> cq_list q = cq_list (pool_q p) \<or>
      \<not> past_terminate (pool_workers p ! i) \<and> (\<exists>m. cq_list (pool_q p) = m # cq_list q \<and> past_terminate w = is_terminate m)"
  shows "pool_inv n c p'"
proof -
  note inv = assms(1)[unfolded pool_inv_def]
  note u = cnt_update [OF assms(2), of past_terminate w]
  have 1: "cnt is_terminate (cq_list q) + cnt past_terminate ((pool_workers p)[i := w]) =
      terminates_posted n (pool_dtor p)"
    using assms(10) inv u by (auto split: if_splits)
  have 2: "logs_first (cq_list q) \<and>
      (cnt past_terminate ((pool_workers p)[i := w]) = 0 \<or> list_all is_terminate (cq_list q))"
    using assms(10)
  proof
    assume "past_terminate w = past_terminate (pool_workers p ! i) \<and> cq_list q = cq_list (pool_q p)"
    then show ?thesis using inv u by simp
  next
    assume "\<not> past_terminate (pool_workers p ! i) \<and>
      (\<exists>m. cq_list (pool_q p) = m # cq_list q \<and> past_terminate w = is_terminate m)"
    then obtain m where m: "\<not> past_terminate (pool_workers p ! i)" "cq_list (pool_q p) = m # cq_list q"
      "past_terminate w = is_terminate m" by blast
    then have "logs_first (cq_list q) \<and> (is_terminate m \<longrightarrow> list_all is_terminate (cq_list q))"
      using inv logs_first_terminates [of "cq_list q"] by (auto split: if_splits)
    moreover have "cnt past_terminate (pool_workers p) = 0 \<or> list_all is_terminate (cq_list q)"
      using inv m(2) by auto
    ultimately show ?thesis using u m by auto
  qed
  have 3: "list_all msg_ok (cq_list q)"
    using assms(10) inv by auto
  show ?thesis
    using inv 1 2 3 assms(5,6) dtor_ok_update [OF _ assms(2,3)]
      list_all_update [of "\<lambda>w. list_all msg_ok (worker_msgs w)" "pool_workers p" w i] assms(4)
    by (simp add: pool_inv_def assms(7-9) cq_cap_def)
qed

lemma post_blocking_cases:
  assumes "pool_inv n c p" "post_async_msg m Overflow_Block p = Some r"
  obtains q where "r = Inr (p\<lparr>pool_q := q\<rparr>)" "cq_ok q" "cq_cap q = cq_cap (pool_q p)"
    "max_items q = max_items (pool_q p)" "cq_list q = cq_list (pool_q p) @ [m]"
    "overrun q = overrun (pool_q p)"
proof -
  have ok: "cq_ok (pool_q p)" "max_items (pool_q p) > 0"
    using assms(1) by (simp_all add: pool_inv_def)
  obtain r' where r': "mq_enqueue m (pool_q p) = Some r'" "r = bind_res r' (\<lambda>q. Inr (p\<lparr>pool_q := q\<rparr>))"
    using assms(2) by (auto simp: post_async_msg_def)
  show thesis
    by (rule mq_enqueue_cases [OF ok(1) r'(1)]) (use that ok(2) r'(2) in simp)
qed

lemma post_overrun_cases:
  assumes "pool_inv n c p"
  obtains q where "post_async_msg m Overrun_Oldest p = Some (Inr (p\<lparr>pool_q := q\<rparr>))" "cq_ok q"
    "max_items q = max_items (pool_q p)" "cq_list q = last_n c (cq_list (pool_q p) @ [m])"
proof -
  have ok: "cq_ok (pool_q p)" "cq_cap (pool_q p) = c"
    using assms(1) by (simp_all add: pool_inv_def)
  show thesis
    by (rule mq_nowait_cases [OF ok(1), of m]) (use that ok(2) in \<open>simp add: post_async_msg_def\<close>)
qed

lemma async_terminate_ok [simp]: "is_terminate async_terminate" "msg_ok async_terminate"
  by (simp_all add: is_terminate_def msg_ok_def async_terminate_def)

lemma pool_inv_terminate:
  assumes "pool_inv n c p" "pool_dtor p = Posting k" "k < length (pool_workers p)"
    and "post_async_msg async_terminate Overflow_Block p = Some (Inr p')"
  shows "pool_inv n c (p'\<lparr>pool_dtor := Posting (k + 1)\<rparr>)"
proof -
  obtain q where q: "p' = p\<lparr>pool_q := q\<rparr>" "cq_ok q" "cq_cap q = cq_cap (pool_q p)"
    "max_items q = max_items (pool_q p)" "cq_list q = cq_list (pool_q p) @ [async_terminate]"
    using post_blocking_cases [OF assms(1,4)] by auto
  have "logs_first (cq_list q)"
    using assms(1) q(5) logs_first_snoc [of "cq_list (pool_q p)" async_terminate] by (simp add: pool_inv_def)
  then show ?thesis
    using assms(1-3) q by (simp add: pool_inv_def terminates_posted_def dtor_ok_def)
qed

lemma pool_inv_work: "pool_work p p' \<Longrightarrow> pool_inv n c p \<Longrightarrow> pool_inv n c p'"
proof (induction rule: pool_work.induct)
  case (takes i p m q)
  have ok: "cq_ok (pool_q p)" using takes(4) by (simp add: pool_inv_def)
  note deq = mq_dequeue_Some [OF ok takes(3)]
  have "msg_ok m" using takes(4) deq(1) by (simp add: pool_inv_def)
  then show ?case
    using takes(2) deq(1)
    by (intro pool_inv_worker [OF takes(4,1) _ _ deq(2,4), where w = "Holding m"])
      (simp_all add: worker_msgs_def past_terminate_def)
next
  case (handles i p m evs goes_on)
  have "list_all msg_ok (worker_msgs (pool_workers p ! i))" "cq_ok (pool_q p)"
    using handles(1,4) by (simp_all add: pool_inv_def list_all_length)
  then have "goes_on = (\<not> is_terminate m)" "cq_ok (pool_q p)"
    using handles(2,3) handle_msg_ok [of m] by (simp_all add: worker_msgs_def)
  then show ?case
    using handles(2)
    by (intro pool_inv_worker [OF handles(4,1) _ _ _ refl, where w = "if goes_on then Waiting else Ended"])
      (simp_all add: worker_msgs_def past_terminate_def)
next
  case (posts_terminate p k p')
  then show ?case using pool_inv_terminate by blast
next
  case (joins p k)
  then show ?case
    by (auto simp: pool_inv_def terminates_posted_def dtor_ok_def take_Suc_conv_app_nth)
qed (auto simp: pool_inv_def terminates_posted_def dtor_ok_def)

lemma cnt_last_n: "cnt P xs = 0 \<Longrightarrow> cnt P (last_n n xs) = 0"
  by (auto simp: cnt_eq_0 list_all_iff last_n_def dest: in_set_dropD)

lemma pool_inv_post:
  assumes "pool_inv n c p" "pool_dtor p = Not_Called" "\<not> is_terminate m" "worker_ptr m \<noteq> None"
    and "post_async_msg m policy p = Some (Inr p')"
  shows "pool_inv n c p' \<and> p' = p\<lparr>pool_q := pool_q p'\<rparr> \<and>
    subseq (cq_list (pool_q p')) (cq_list (pool_q p) @ [m]) \<and>
    (policy = Overflow_Block \<longrightarrow> cq_list (pool_q p') = cq_list (pool_q p) @ [m])"
proof -
  obtain q where q: "p' = p\<lparr>pool_q := q\<rparr>" "cq_ok q" "max_items q = max_items (pool_q p)"
    "cq_list q = last_n (if policy = Overflow_Block then cq_size (pool_q p) + 1 else c) (cq_list (pool_q p) @ [m])"
  proof (cases policy)
    case Overflow_Block
    then obtain q where "p' = p\<lparr>pool_q := q\<rparr>" "cq_ok q" "max_items q = max_items (pool_q p)"
      "cq_list q = cq_list (pool_q p) @ [m]"
      using post_blocking_cases [OF assms(1)] assms(5) by (metis sum.inject(2))
    then show ?thesis using that Overflow_Block by simp
  next
    case Overrun_Oldest
    then show ?thesis
      using post_overrun_cases [OF assms(1), of m] assms(5) that by auto
  qed
  have none: "cnt is_terminate (cq_list (pool_q p)) = 0" "cnt past_terminate (pool_workers p) = 0"
    using assms(1,2) by (simp_all add: pool_inv_def terminates_posted_def)
  then have new: "cnt is_terminate (cq_list q) = 0"
    using assms(3) unfolding q(4) by (intro cnt_last_n) simp
  have "set (cq_list q) \<subseteq> insert m (set (cq_list (pool_q p)))"
    unfolding q(4) last_n_def using set_drop_subset by fastforce
  then have oks: "list_all msg_ok (cq_list q)"
    using assms(1,4) by (auto simp: pool_inv_def msg_ok_def list_all_iff)
  then have "pool_inv n c p'"
    using assms(1,2) none new oks q(1-3) logs_first_none [OF new]
    by (simp add: pool_inv_def terminates_posted_def cq_cap_def)
  moreover have "subseq (last_n j ms) ms" for j and ms :: "('a, 'b) async_msg list"
    unfolding last_n_def by (metis append_take_drop_id list_emb_append2 subseq_order.refl)
  ultimately show ?thesis
    using q(1,4) by simp
qed

lemma held_one: "length ws = 1 \<Longrightarrow> i < length ws \<Longrightarrow> held ws = worker_msgs (ws ! i) \<and> held (ws[i := w]) = worker_msgs w"
  by (cases ws) (simp_all add: held_def)

lemma pool_trace_work:
  assumes "pool_inv n c p" "pool_work p p'"
  shows "mset (pool_trace p') = mset (pool_trace p)" "n = 1 \<Longrightarrow> pool_trace p' = pool_trace p"
proof -
  have "mset (pool_trace p') = mset (pool_trace p) \<and> (n = 1 \<longrightarrow> pool_trace p' = pool_trace p)"
    using assms(2,1)
  proof (induction rule: pool_work.induct)
    case (takes i p m q)
    have "cq_ok (pool_q p)" using takes(4) by (simp add: pool_inv_def)
    note deq = mq_dequeue_Some [OF this takes(3)]
    have "mset (all_events (held ((pool_workers p)[i := Holding m]))) =
        mset (all_events (held (pool_workers p))) + mset (events_of m)"
      using mset_held_update [OF takes(1), of "Holding m"] takes(2) by (simp add: worker_msgs_def)
    moreover have "held (pool_workers p) = [] \<and> held ((pool_workers p)[i := Holding m]) = [m]" if "n = 1"
      using held_one [of "pool_workers p" i "Holding m"] takes that by (simp add: pool_inv_def worker_msgs_def)
    ultimately show ?case
      by (simp add: pool_trace_def deq(1) ac_simps)
  next
    case (handles i p m evs goes_on)
    have evs: "events_of m = evs" using handles(3) by (simp add: events_of_def)
    have "mset (all_events (held (pool_workers p))) =
        mset (all_events (held ((pool_workers p)[i := if goes_on then Waiting else Ended]))) + mset evs"
      using mset_held_update [OF handles(1), of "if goes_on then Waiting else Ended"] handles(2) evs
      by (simp add: worker_msgs_def)
    moreover have "held (pool_workers p) = [m] \<and> held ((pool_workers p)[i := if goes_on then Waiting else Ended]) = []"
      if "n = 1"
      using held_one [of "pool_workers p" i "if goes_on then Waiting else Ended"] handles that
      by (simp add: pool_inv_def worker_msgs_def)
    ultimately show ?case
      using evs by (simp add: pool_trace_def ac_simps)
  next
    case (posts_terminate p k p')
    obtain q where "p' = p\<lparr>pool_q := q\<rparr>" "cq_list q = cq_list (pool_q p) @ [async_terminate]"
      using post_blocking_cases [OF posts_terminate(4,3)] by auto
    then show ?case by (simp add: pool_trace_def)
  qed (simp_all add: pool_trace_def)
  then show "mset (pool_trace p') = mset (pool_trace p)" "n = 1 \<Longrightarrow> pool_trace p' = pool_trace p"
    by simp_all
qed

definition all_block :: "(async_overflow_policy \<times> ('l, 'm) async_msg) list \<Rightarrow> bool" where
  "all_block posts \<longleftrightarrow> list_all (\<lambda>(policy, m). policy = Overflow_Block) posts"

definition posted_events :: "(async_overflow_policy \<times> ('l, 'm) async_msg) list \<Rightarrow> ('l, 'm) pool_event list" where
  "posted_events posts = all_events (map snd posts)"

lemma async_msg_ok [simp]:
  "\<not> is_terminate (async_log l m)" "worker_ptr (async_log l m) = Some l"
  "\<not> is_terminate (async_flush l)" "worker_ptr (async_flush l) = Some l"
  by (simp_all add: async_log_def async_flush_def is_terminate_def)

lemma pool_post_accounted:
  assumes "pool_inv n c p" "accounted n (pool_trace p) (posted_events posts) (all_block posts)"
    and "pool_dtor p = Not_Called" "\<not> is_terminate m" "worker_ptr m \<noteq> None"
    and "post_async_msg m policy p = Some (Inr p')"
  shows "pool_inv n c p' \<and> accounted n (pool_trace p') (posted_events (posts @ [(policy, m)])) (all_block (posts @ [(policy, m)]))"
proof -
  note post = pool_inv_post [OF assms(1,3-6)]
  let ?done = "pool_events p @ all_events (held (pool_workers p))"
  have same: "pool_events p' = pool_events p" "pool_workers p' = pool_workers p"
    using post by (metis pool.simps pool.surjective pool.update_convs(1))+
  have sub: "subseq (all_events (cq_list (pool_q p'))) (all_events (cq_list (pool_q p)) @ events_of m)"
    if "subseq xs ys" "xs = cq_list (pool_q p')" "ys = cq_list (pool_q p) @ [m]" for xs ys :: "('a, 'b) async_msg list"
  proof -
    have "subseq (all_events xs) (all_events ys)"
      using that(1) by (induction rule: list_emb.induct) (simp_all add: list_emb_append_mono list_emb_append2)
    then show ?thesis using that by simp
  qed
  have "accounted n (?done @ all_events (cq_list (pool_q p'))) (posted_events posts @ events_of m)
      (all_block (posts @ [(policy, m)]))"
  proof (rule accounted_post [where old = "all_events (cq_list (pool_q p))"])
    show "accounted n (?done @ all_events (cq_list (pool_q p))) (posted_events posts) (all_block posts)"
      using assms(2) by (simp add: pool_trace_def)
    show "subseq (all_events (cq_list (pool_q p'))) (all_events (cq_list (pool_q p)) @ events_of m)"
      using sub post by blast
    show "all_block posts \<and> all_events (cq_list (pool_q p')) = all_events (cq_list (pool_q p)) @ events_of m"
      if "all_block (posts @ [(policy, m)])"
      using that post by (simp add: all_block_def)
  qed
  then show ?thesis
    using post same by (simp add: pool_trace_def posted_events_def)
qed

lemma pool_reach_inv:
  assumes "pool_reach p0 posts p" "pool_inv n c p0" "pool_trace p0 = []"
  shows "pool_inv n c p \<and> accounted n (pool_trace p) (posted_events posts) (all_block posts)"
  using assms(1)
proof (induction rule: pool_reach.induct)
  case starts
  then show ?case
    using assms(2,3) by (simp add: accounted_def posted_events_def)
next
  case (works posts p p')
  then show ?case
    using pool_inv_work pool_trace_work [of n c p p'] accounted_mset by blast
next
  case (posts_log posts p l policy msg p')
  then show ?case
    using pool_post_accounted [of n c p posts "async_log l msg" policy p']
    by (simp add: async_sink_it_def post_log_def)
next
  case (posts_flush posts p l policy p')
  then show ?case
    using pool_post_accounted [of n c p posts "async_flush l" policy p']
    by (simp add: async_flush_it_def post_flush_def)
next
  case (destroys posts p)
  then show ?case
    by (simp add: pool_inv_def pool_trace_def terminates_posted_def dtor_ok_def)
qed

section \<open>The destructor\<close>

definition dtor_measure :: "nat \<Rightarrow> destructor \<Rightarrow> nat" where
  "dtor_measure n d = (case d of Not_Called \<Rightarrow> 0 | Posting k \<Rightarrow> 3 * (n - k) + n + 3 | Joining k \<Rightarrow> n - k + 2 | Destroyed \<Rightarrow> 0)"

definition is_holding :: "('l, 'm) worker \<Rightarrow> bool" where
  "is_holding w = (case w of Holding _ \<Rightarrow> True | _ \<Rightarrow> False)"

definition pool_measure :: "('l, 'm) pool \<Rightarrow> nat" where
  "pool_measure p =
     2 * cq_size (pool_q p) + cnt is_holding (pool_workers p) + dtor_measure (length (pool_workers p)) (pool_dtor p)"

lemma pool_work_measure:
  assumes "pool_inv n c p" "pool_work p p'"
  shows "pool_measure p' < pool_measure p"
  using assms(2,1)
proof (induction rule: pool_work.induct)
  case (takes i p m q)
  have "cq_ok (pool_q p)" using takes(4) by (simp add: pool_inv_def)
  then show ?case
    using mq_dequeue_Some(6) [OF _ takes(3)] cnt_update [OF takes(1), of is_holding "Holding m"] takes(2)
    by (simp add: pool_measure_def is_holding_def)
next
  case (handles i p m evs goes_on)
  then show ?case
    using cnt_update [OF handles(1), of is_holding "if goes_on then Waiting else Ended"]
    by (simp add: pool_measure_def is_holding_def split: if_splits)
next
  case (posts_terminate p k p')
  obtain q where q: "p' = p\<lparr>pool_q := q\<rparr>" "cq_list q = cq_list (pool_q p) @ [async_terminate]"
    using post_blocking_cases [OF posts_terminate(4,3)] by auto
  have "cq_size q = cq_size (pool_q p) + 1"
    using arg_cong [OF q(2), of length] by simp
  then show ?case
    using posts_terminate(1,2) q(1) by (simp add: pool_measure_def dtor_measure_def)
qed (simp_all add: pool_measure_def dtor_measure_def)

lemma cnt_le_length: "cnt P xs \<le> length xs"
  by (simp add: cnt_def)

lemma cnt_not_all: "i < length xs \<Longrightarrow> \<not> P (xs ! i) \<Longrightarrow> cnt P xs < length xs"
  unfolding cnt_def by (rule length_filter_less [OF nth_mem])

text \<open>A worker that has not ended can take or handle a message when there is one.\<close>

lemma pool_worker_moves:
  assumes "pool_inv n c p" "i < length (pool_workers p)" "pool_workers p ! i \<noteq> Ended"
    and "pool_workers p ! i = Waiting \<Longrightarrow> cq_list (pool_q p) \<noteq> []"
  shows "\<exists>p'. pool_work p p'"
proof (cases "pool_workers p ! i")
  case Waiting
  have "cq_ok (pool_q p)" using assms(1) by (simp add: pool_inv_def)
  then obtain m q where "mq_dequeue (pool_q p) = Some (Inr (m, q))"
    using assms(4) Waiting by (cases rule: mq_dequeue_cases) auto
  then show ?thesis
    using pool_work.takes [OF assms(2) Waiting] by blast
next
  case (Holding m)
  have "list_all msg_ok (worker_msgs (pool_workers p ! i))"
    using assms(1,2) by (simp add: pool_inv_def list_all_length)
  then have "handle_msg m = Inr (events_of m, \<not> is_terminate m)"
    using Holding by (simp add: worker_msgs_def handle_msg_ok)
  then show ?thesis
    using pool_work.handles [OF assms(2) Holding] by blast
qed (use assms(3) in simp)

lemma pool_progress:
  assumes inv: "pool_inv n c p" and "0 < c" "pool_dtor p \<noteq> Not_Called" "pool_dtor p \<noteq> Destroyed"
  shows "\<exists>p'. pool_work p p'"
proof (cases "pool_dtor p")
  case (Posting k)
  have ok: "cq_ok (pool_q p)" "max_items (pool_q p) > 0" "cq_cap (pool_q p) = c" "length (pool_workers p) = n"
    and kn: "k \<le> n" and sum: "cnt is_terminate (cq_list (pool_q p)) + cnt past_terminate (pool_workers p) = k"
    using inv Posting by (auto simp: pool_inv_def dtor_ok_def terminates_posted_def)
  show ?thesis
  proof (cases "k = n")
    case True
    then show ?thesis using pool_work.posted_all [of p] Posting ok(4) by blast
  next
    case False
    show ?thesis
    proof (cases "cq_full (pool_q p)")
      case True
      then have "cq_list (pool_q p) \<noteq> []"
        using cq_full_iff [OF ok(1)] ok(3) \<open>0 < c\<close> length_cq_list [of "pool_q p"] by force
      moreover have "\<exists>i < length (pool_workers p). \<not> past_terminate (pool_workers p ! i)"
      proof (rule ccontr)
        assume "\<not> ?thesis"
        then have "cnt past_terminate (pool_workers p) = n"
          using ok(4) by (simp add: cnt_def filter_id_conv all_set_conv_all_nth)
        then show False using sum False kn by simp
      qed
      ultimately show ?thesis
        using pool_worker_moves [OF inv] by (metis past_terminate_def worker.simps(10))
    next
      case room: False
      obtain q where "mq_enqueue async_terminate (pool_q p) = Some (Inr q)"
        using room cq_push [OF ok(1)] unfolding mq_enqueue_def by metis
      then have "post_async_msg async_terminate Overflow_Block p = Some (Inr (p\<lparr>pool_q := q\<rparr>))"
        by (simp add: post_async_msg_def)
      then show ?thesis
        using pool_work.posts_terminate [OF Posting] kn False ok(4) by fastforce
    qed
  qed
next
  case (Joining k)
  have len: "length (pool_workers p) = n" and kn: "k \<le> n"
    and sum: "cnt is_terminate (cq_list (pool_q p)) + cnt past_terminate (pool_workers p) = n"
    using inv Joining by (auto simp: pool_inv_def dtor_ok_def terminates_posted_def)
  show ?thesis
  proof (cases "k = n")
    case True
    then show ?thesis using pool_work.joined_all [of p] Joining len by blast
  next
    case False
    then have k: "k < length (pool_workers p)" using kn len by simp
    show ?thesis
    proof (cases "pool_workers p ! k = Ended")
      case True
      then show ?thesis using pool_work.joins [OF Joining k] by blast
    next
      case not_ended: False
      have "cq_list (pool_q p) \<noteq> []" if "pool_workers p ! k = Waiting"
        using cnt_not_all [OF k, of past_terminate] that sum len
        by (auto simp: past_terminate_def)
      then show ?thesis
        using pool_worker_moves [OF inv k not_ended] by blast
    qed
  qed
qed (use assms(3,4) in auto)

lemma pool_new_inv:
  assumes "pool_new vmax q_max_items threads_n = Inr p0" "vmax < 2 ^ 63" "q_max_items < 2 ^ 64 - 1"
  shows "pool_inv threads_n q_max_items p0" "pool_trace p0 = []" "0 < threads_n"
proof -
  obtain q where q: "mq_new vmax async_default q_max_items = Inr q" "0 < threads_n"
    "p0 = \<lparr>pool_q = q, pool_workers = replicate threads_n Waiting, pool_dtor = Not_Called, pool_events = []\<rparr>"
    using assms(1) by (auto simp: pool_new_def split: if_splits)
  note new = cq_new_ok [OF q(1)[unfolded mq_new_def] assms(2)]
  have "max_items q > 0"
    using q(1) assms(3) by (auto simp: mq_new_def cq_new_def sz_small Let_def split: if_splits)
  moreover have "cnt past_terminate (replicate threads_n Waiting :: ('a, 'b) worker list) = 0"
    by (simp add: cnt_eq_0 past_terminate_def list_all_iff)
  ultimately show "pool_inv threads_n q_max_items p0"
    using new assms(3) by (simp add: q(3) pool_inv_def terminates_posted_def dtor_ok_def sz_small worker_msgs_def list_all_iff)
  have "held (replicate threads_n Waiting :: ('a, 'b) worker list) = []"
    by (induction threads_n) (simp_all add: held_def worker_msgs_def)
  then show "pool_trace p0 = []"
    using new by (simp add: q(3) pool_trace_def)
  show "0 < threads_n" by (rule q(2))
qed

lemma destroyed_trace:
  assumes "pool_inv n c p" "0 < n" "pool_dtor p = Destroyed"
  shows "pool_trace p = pool_events p"
proof -
  have ended: "list_all (\<lambda>w. w = Ended) (pool_workers p)" "length (pool_workers p) = n"
    and sum: "cnt is_terminate (cq_list (pool_q p)) + cnt past_terminate (pool_workers p) = n"
    and past: "cnt past_terminate (pool_workers p) = 0 \<or> list_all is_terminate (cq_list (pool_q p))"
    using assms(1,3) by (simp_all add: pool_inv_def dtor_ok_def terminates_posted_def)
  have "filter past_terminate (pool_workers p) = pool_workers p"
    using ended(1) by (auto simp: filter_id_conv list_all_iff past_terminate_def)
  then have "cnt past_terminate (pool_workers p) = n"
    using ended(2) by (simp add: cnt_def)
  then have "cq_list (pool_q p) = []"
    using sum past assms(2) by (cases "cq_list (pool_q p)") auto
  moreover have "held (pool_workers p) = []"
    using ended(1) by (auto simp: held_def worker_msgs_def list_all_iff)
  ultimately show ?thesis by (simp add: pool_trace_def)
qed

section \<open>Properties\<close>

text \<open>C14: Nothing that was logged is lost or repeated when the logging threads shut down.  When
  the destructor of a thread pool has returned, its loggers have done only what was posted, each
  post at most once; with the blocking policy they have done all of it; and with one worker they
  have done it in the order of the posts.\<close>

theorem thread_pool_delivers:
  assumes "pool_new vmax q_max_items threads_n = Inr p0" "vmax < 2 ^ 63" "q_max_items < 2 ^ 64 - 1"
    and "pool_reach p0 posts p" "pool_dtor p = Destroyed"
  shows "mset (pool_events p) \<subseteq># mset (posted_events posts) \<and>
    (all_block posts \<longrightarrow> mset (pool_events p) = mset (posted_events posts)) \<and>
    (threads_n = 1 \<longrightarrow> subseq (pool_events p) (posted_events posts)) \<and>
    (threads_n = 1 \<and> all_block posts \<longrightarrow> pool_events p = posted_events posts)"
proof -
  note new = pool_new_inv [OF assms(1-3)]
  have inv: "pool_inv threads_n q_max_items p"
    and acc: "accounted threads_n (pool_trace p) (posted_events posts) (all_block posts)"
    using pool_reach_inv [OF assms(4) new(1,2)] by simp_all
  have "pool_trace p = pool_events p"
    using destroyed_trace [OF inv new(3) assms(5)] .
  then show ?thesis
    using acc by (auto simp: accounted_def dest: mset_eq_length intro: subseq_same_length)
qed

text \<open>C27: The destructor of a thread pool returns.  With a queue of at least one place, from any
  state in which the destructor has begun and has not returned, some thread of the pool or the
  destructor itself can make a step, and every such step makes a measure smaller; so the
  terminate messages all find room, every worker ends, and the joins return.\<close>

theorem thread_pool_shuts_down:
  assumes "pool_new vmax q_max_items threads_n = Inr p0" "vmax < 2 ^ 63" "q_max_items < 2 ^ 64 - 1"
    and "0 < q_max_items" "pool_reach p0 posts p" "pool_dtor p \<noteq> Not_Called" "pool_dtor p \<noteq> Destroyed"
  shows "(\<exists>p'. pool_work p p') \<and> (\<forall>p'. pool_work p p' \<longrightarrow> pool_measure p' < pool_measure p)"
proof -
  have inv: "pool_inv threads_n q_max_items p"
    using pool_reach_inv [OF assms(5)] pool_new_inv [OF assms(1-3)] by blast
  show ?thesis
    using pool_progress [OF inv assms(4,6,7)] pool_work_measure [OF inv] by blast
qed

text \<open>
  A run of a pool with one worker and one place: a message is logged, the destructor is
  called, and everything is handled.
\<close>

definition run_q :: "nat \<Rightarrow> nat \<Rightarrow> (nat, string) async_msg list \<Rightarrow> (nat, string) async_msg circ_q" where
  "run_q h t v = \<lparr>max_items = 2, head = h, tail = t, overrun = 0, slots = v\<rparr>"

definition run_p :: "(nat, string) async_msg circ_q \<Rightarrow> (nat, string) worker \<Rightarrow> destructor \<Rightarrow>
    (nat, string) pool_event list \<Rightarrow> (nat, string) pool" where
  "run_p q w d e = \<lparr>pool_q = q, pool_workers = [w], pool_dtor = d, pool_events = e\<rparr>"

lemmas run_defs = run_q_def run_p_def mq_dequeue_def mq_enqueue_def cq_empty_def cq_full_def cq_front_def
  cq_pop_front_def cq_push_back_def vec_at_def vec_put_def sz_def post_async_msg_def

lemma run_new: "pool_new 100 1 1 = Inr (run_p (run_q 0 0 [async_default, async_default]) Waiting Not_Called [])"
  by (simp add: pool_new_def mq_new_def cq_new_def run_defs)

theorem thread_pool_shuts_down_witness:
  "(\<exists>p'. pool_work (run_p (run_q 0 0 [async_default, async_default]) Waiting (Posting 0) []) p')"
proof -
  have "pool_reach (run_p (run_q 0 0 [async_default, async_default]) Waiting Not_Called []) []
      (run_p (run_q 0 0 [async_default, async_default]) Waiting (Posting 0) [])"
    using pool_reach.destroys [OF pool_reach.starts, of "run_p (run_q 0 0 [async_default, async_default]) Waiting Not_Called []"]
    by (simp add: run_p_def)
  then show ?thesis
    using thread_pool_shuts_down [OF run_new, of "[]"] by (simp add: run_p_def)
qed

theorem thread_pool_delivers_witness:
  "\<exists>p. pool_dtor p = Destroyed \<and> pool_events p = [Backend_Sink_It 7 (Some ''x'')] \<and>
    pool_reach (run_p (run_q 0 0 [async_default, async_default]) Waiting Not_Called [])
      [(Overflow_Block, async_log 7 ''x'')] p"
proof -
  let ?d = async_default and ?m = "async_log 7 ''x'' :: (nat, string) async_msg" and ?t = async_terminate
  let ?e = "[Backend_Sink_It 7 (Some ''x'')]"
  have h: "handle_msg ?m = Inr (?e, True)" "handle_msg ?t = Inr ([], False)"
    by (simp_all add: handle_msg_def async_log_def async_terminate_def)
  have r: "pool_reach (run_p (run_q 0 0 [?d, ?d]) Waiting Not_Called []) [(Overflow_Block, ?m)]
      (run_p (run_q 0 1 [?m, ?d]) Waiting Not_Called [])"
    using pool_reach.posts_log [OF pool_reach.starts, of "run_p (run_q 0 0 [?d, ?d]) Waiting Not_Called []" 7 Overflow_Block "''x''"
        "run_p (run_q 0 1 [?m, ?d]) Waiting Not_Called []"]
    by (simp add: run_defs async_sink_it_def post_log_def)
  have r: "pool_reach (run_p (run_q 0 0 [?d, ?d]) Waiting Not_Called []) [(Overflow_Block, ?m)]
      (run_p (run_q 0 1 [?m, ?d]) Waiting (Posting 0) [])"
    using pool_reach.destroys [OF r] by (simp add: run_p_def)
  have w: "pool_work (run_p (run_q 0 1 [?m, ?d]) Waiting (Posting 0) [])
      (run_p (run_q 1 1 [?m, ?d]) (Holding ?m) (Posting 0) [])"
    "pool_work (run_p (run_q 1 1 [?m, ?d]) (Holding ?m) (Posting 0) [])
      (run_p (run_q 1 1 [?m, ?d]) Waiting (Posting 0) ?e)"
    "pool_work (run_p (run_q 1 1 [?m, ?d]) Waiting (Posting 0) ?e)
      (run_p (run_q 1 0 [?m, ?t]) Waiting (Posting 1) ?e)"
    "pool_work (run_p (run_q 1 0 [?m, ?t]) Waiting (Posting 1) ?e)
      (run_p (run_q 0 0 [?m, ?t]) (Holding ?t) (Posting 1) ?e)"
    "pool_work (run_p (run_q 0 0 [?m, ?t]) (Holding ?t) (Posting 1) ?e)
      (run_p (run_q 0 0 [?m, ?t]) Ended (Posting 1) ?e)"
    "pool_work (run_p (run_q 0 0 [?m, ?t]) Ended (Posting 1) ?e)
      (run_p (run_q 0 0 [?m, ?t]) Ended (Joining 0) ?e)"
    "pool_work (run_p (run_q 0 0 [?m, ?t]) Ended (Joining 0) ?e)
      (run_p (run_q 0 0 [?m, ?t]) Ended (Joining 1) ?e)"
    "pool_work (run_p (run_q 0 0 [?m, ?t]) Ended (Joining 1) ?e)
      (run_p (run_q 0 0 [?m, ?t]) Ended Destroyed ?e)"
    using pool_work.takes [of 0 "run_p (run_q 0 1 [?m, ?d]) Waiting (Posting 0) []" ?m "run_q 1 1 [?m, ?d]"]
      pool_work.handles [of 0 "run_p (run_q 1 1 [?m, ?d]) (Holding ?m) (Posting 0) []" ?m ?e True]
      pool_work.posts_terminate [of "run_p (run_q 1 1 [?m, ?d]) Waiting (Posting 0) ?e" 0
        "run_p (run_q 1 0 [?m, ?t]) Waiting (Posting 0) ?e"]
      pool_work.takes [of 0 "run_p (run_q 1 0 [?m, ?t]) Waiting (Posting 1) ?e" ?t "run_q 0 0 [?m, ?t]"]
      pool_work.handles [of 0 "run_p (run_q 0 0 [?m, ?t]) (Holding ?t) (Posting 1) ?e" ?t "[]" False]
      pool_work.posted_all [of "run_p (run_q 0 0 [?m, ?t]) Ended (Posting 1) ?e"]
      pool_work.joins [of "run_p (run_q 0 0 [?m, ?t]) Ended (Joining 0) ?e" 0]
      pool_work.joined_all [of "run_p (run_q 0 0 [?m, ?t]) Ended (Joining 1) ?e"] h
    by (simp_all add: run_defs)
  have reach: "pool_reach (run_p (run_q 0 0 [?d, ?d]) Waiting Not_Called []) [(Overflow_Block, ?m)]
      (run_p (run_q 0 0 [?m, ?t]) Ended Destroyed ?e)"
    by (rule pool_reach.works [OF pool_reach.works [OF pool_reach.works [OF pool_reach.works [OF
        pool_reach.works [OF pool_reach.works [OF pool_reach.works [OF pool_reach.works [OF r w(1)]
        w(2)] w(3)] w(4)] w(5)] w(6)] w(7)] w(8)])
  moreover have "pool_events (run_p (run_q 0 0 [?m, ?t]) Ended Destroyed ?e) = ?e"
    using thread_pool_delivers [OF run_new _ _ reach] h
    by (simp add: run_p_def all_block_def posted_events_def events_of_def)
  ultimately show ?thesis
    by (intro exI [of _ "run_p (run_q 0 0 [?m, ?t]) Ended Destroyed ?e"]) (simp add: run_p_def)
qed

end
