(* ===== verification/LogFiles.thy ===== *)
theory LogFiles
  imports LogQueue "HOL-Library.Sublist"
begin

text \<open>
  The files of the logging library: the helpers on paths of details/os-inl.h, the file
  helper of details/file_helper-inl.h, and sinks/basic_file_sink-inl.h and
  sinks/rotating_file_sink-inl.h.

  The file system is a map from paths to directories and files, with a list of faults: each
  call of the operating system that may fail takes the next one and fails when it is True
  (when the list is used up the calls succeed), so a theorem over all lists is a theorem
  over all failures.  A FILE is the path it was opened with; what fwrite was given counts
  as written.
\<close>

section \<open>The operating system\<close>

datatype node = Directory | Regular string

record os =
  nodes :: "string \<Rightarrow> node option"
  faults :: "bool list"

text \<open>Whether the next call fails, and the system after it.\<close>

definition next_fault :: "os \<Rightarrow> bool \<times> os" where
  "next_fault os = (case faults os of [] \<Rightarrow> (False, os) | f # fs \<Rightarrow> (f, os\<lparr>faults := fs\<rparr>))"

lemma next_fault_cases:
  obtains (ok) os' where "next_fault os = (False, os')" "nodes os' = nodes os"
  | (fail) os' where "next_fault os = (True, os')" "nodes os' = nodes os"
  by (cases "faults os") (auto simp: next_fault_def split: bool.splits)

lemma next_fault_none [simp]: "faults os = [] \<Longrightarrow> next_fault os = (False, os)"
  by (simp add: next_fault_def)

definition path_exists :: "string \<Rightarrow> os \<Rightarrow> bool" where
  "path_exists filename os = (nodes os filename \<noteq> None)"

definition content :: "os \<Rightarrow> string \<Rightarrow> string option" where
  "content os filename = (case nodes os filename of Some (Regular t) \<Rightarrow> Some t | _ \<Rightarrow> None)"

text \<open>
  fopen with mode wb (trunc) or ab; a directory cannot be opened, nor the empty path.  The result is the path
  as the FILE, or None for a null pointer.
\<close>

definition fopen :: "bool \<Rightarrow> string \<Rightarrow> os \<Rightarrow> string option \<times> os" where
  "fopen trunc filename os =
     (let (failed, os) = next_fault os
      in if failed \<or> filename = [] \<or> nodes os filename = Some Directory then (None, os)
         else (Some filename,
               os\<lparr>nodes := (nodes os)(filename \<mapsto>
                  Regular (if trunc then [] else case content os filename of Some t \<Rightarrow> t | None \<Rightarrow> []))\<rparr>))"

text \<open>fopen_s: whether the FILE is null, and the FILE.\<close>

definition fopen_s :: "bool \<Rightarrow> string \<Rightarrow> os \<Rightarrow> (bool \<times> string option) \<times> os" where
  "fopen_s trunc filename os = (let (fp, os) = fopen trunc filename os in ((fp = None, fp), os))"

text \<open>remove and rename give True on success.\<close>

definition os_remove :: "string \<Rightarrow> os \<Rightarrow> bool \<times> os" where
  "os_remove filename os =
     (let (failed, os) = next_fault os
      in if failed \<or> nodes os filename = None then (False, os)
         else (True, os\<lparr>nodes := (nodes os)(filename := None)\<rparr>))"

definition remove_if_exists :: "string \<Rightarrow> os \<Rightarrow> bool \<times> os" where
  "remove_if_exists filename os = (if path_exists filename os then os_remove filename os else (True, os))"

definition os_rename :: "string \<Rightarrow> string \<Rightarrow> os \<Rightarrow> bool \<times> os" where
  "os_rename filename1 filename2 os =
     (let (failed, os) = next_fault os
      in case nodes os filename1 of
           None \<Rightarrow> (False, os)
         | Some n \<Rightarrow> if failed then (False, os)
             else (True, os\<lparr>nodes := (nodes os)(filename1 := None, filename2 \<mapsto> n)\<rparr>))"

definition os_mkdir :: "string \<Rightarrow> os \<Rightarrow> bool \<times> os" where
  "os_mkdir path os =
     (let (failed, os) = next_fault os
      in if failed \<or> path_exists path os then (False, os)
         else (True, os\<lparr>nodes := (nodes os)(path \<mapsto> Directory)\<rparr>))"

text \<open>fwrite gives the number of bytes written; a write that fails has written a part.\<close>

definition fwrite :: "string \<Rightarrow> string option \<Rightarrow> os \<Rightarrow> nat res \<times> os" where
  "fwrite data fd os =
     (case fd of
        None \<Rightarrow> (Inl Bad_Access, os)
      | Some filename \<Rightarrow>
          (let (failed, os) = next_fault os;
               part = (if failed then take (length data div 2) data else data);
               old = (case content os filename of Some t \<Rightarrow> t | None \<Rightarrow> [])
           in (Inr (length part), os\<lparr>nodes := (nodes os)(filename \<mapsto> Regular (old @ part))\<rparr>)))"

section \<open>Paths (details/os-inl.h)\<close>

text \<open>rfind, find_last_of and find_first_of from a position on, for one character.\<close>

fun find_from :: "char \<Rightarrow> nat \<Rightarrow> string \<Rightarrow> nat option" where
  "find_from c k [] = None"
| "find_from c k (x # xs) = (if x = c then Some k else find_from c (k + 1) xs)"

definition find_first_of :: "char \<Rightarrow> nat \<Rightarrow> string \<Rightarrow> nat option" where
  "find_first_of c pos s = find_from c pos (drop pos s)"

definition find_last_of :: "char \<Rightarrow> string \<Rightarrow> nat option" where
  "find_last_of c s = map_option (\<lambda>k. length s - 1 - k) (find_from c 0 (rev s))"

definition dir_name :: "string \<Rightarrow> string" where
  "dir_name path = (case find_last_of CHR ''/'' path of Some pos \<Rightarrow> take pos path | None \<Rightarrow> [])"

lemma find_from_bounds: "find_from c k s = Some i \<Longrightarrow> k \<le> i \<and> i < k + length s \<and> s ! (i - k) = c"
proof (induction s arbitrary: k)
  case (Cons x xs)
  show ?case
  proof (cases "x = c")
    case False
    then have "find_from c (k + 1) xs = Some i" using Cons.prems by simp
    then show ?thesis using Cons.IH [of "k + 1"] by (simp add: nth_Cons' Suc_diff_le)
  qed (use Cons.prems in auto)
qed simp

lemma find_from_first: "find_from c k s = Some i \<Longrightarrow> c \<notin> set (take (i - k) s)"
proof (induction s arbitrary: k)
  case (Cons x xs)
  show ?case
  proof (cases "x = c")
    case False
    then have s: "find_from c (k + 1) xs = Some i" using Cons.prems by simp
    then have "take (i - k) (x # xs) = x # take (i - (k + 1)) xs"
      using find_from_bounds [OF s] by (simp add: take_Cons' Suc_diff_le)
    then show ?thesis using Cons.IH [OF s] False by simp
  qed (use Cons.prems in auto)
qed simp

lemma find_from_none: "find_from c k s = None \<longleftrightarrow> c \<notin> set s"
  by (induction s arbitrary: k) auto

lemma find_last_of_Some:
  assumes "find_last_of c s = Some i"
  shows "i < length s" "s ! i = c" "c \<notin> set (drop (i + 1) s)"
proof -
  obtain k where k: "find_from c 0 (rev s) = Some k" "i = length s - 1 - k"
    using assms by (auto simp: find_last_of_def)
  have b: "k < length s" "rev s ! k = c"
    using find_from_bounds [OF k(1)] by simp_all
  then show "i < length s" "s ! i = c"
    by (auto simp: k(2) rev_nth)
  have "length s - k = i + 1" using b(1) k(2) by simp
  then have "take k (rev s) = rev (drop (i + 1) s)"
    by (simp add: take_rev)
  then show "c \<notin> set (drop (i + 1) s)"
    using find_from_first [OF k(1)] by simp
qed

lemma find_last_of_None: "find_last_of c s = None \<longleftrightarrow> c \<notin> set s"
  by (simp add: find_last_of_def find_from_none)

text \<open>
  create_dir makes each directory on the path that is not there.  The offset grows with each
  round of its loop; the fuel is the length of the path.
\<close>

fun create_dirs :: "nat \<Rightarrow> nat \<Rightarrow> string \<Rightarrow> os \<Rightarrow> bool res \<times> os" where
  "create_dirs 0 search_offset path os = (Inl Hang, os)"
| "create_dirs (Suc fuel) search_offset path os =
     (let token_pos = (case find_first_of CHR ''/'' search_offset path of Some p \<Rightarrow> p | None \<Rightarrow> length path);
          subdir = take token_pos path;
          (ok, os) = (if subdir \<noteq> [] \<and> \<not> path_exists subdir os then os_mkdir subdir os else (True, os))
      in if \<not> ok then (Inr False, os)
         else if token_pos + 1 < length path then create_dirs fuel (token_pos + 1) path os
         else (Inr True, os))"

definition create_dir :: "string \<Rightarrow> os \<Rightarrow> bool res \<times> os" where
  "create_dir path os =
     (if path_exists path os then (Inr True, os)
      else if path = [] then (Inr False, os)
      else create_dirs (length path) 0 path os)"

lemma create_dirs_returns:
  "search_offset < length path \<Longrightarrow> length path - search_offset \<le> fuel \<Longrightarrow>
   \<exists>ok. fst (create_dirs fuel search_offset path os) = Inr ok"
proof (induction fuel arbitrary: search_offset os)
  case (Suc fuel)
  define token_pos where "token_pos =
    (case find_first_of CHR ''/'' search_offset path of Some p \<Rightarrow> p | None \<Rightarrow> length path)"
  have "search_offset \<le> token_pos"
    using Suc.prems find_from_bounds [of "CHR ''/''" search_offset "drop search_offset path"]
    by (auto simp: token_pos_def find_first_of_def split: option.split)
  then have IH: "\<exists>ok. fst (create_dirs fuel (token_pos + 1) path os) = Inr ok"
    if "token_pos + 1 < length path" for os
    using Suc.prems that by (intro Suc.IH) auto
  obtain ok os' where r: "(if take token_pos path \<noteq> [] \<and> \<not> path_exists (take token_pos path) os
      then os_mkdir (take token_pos path) os else (True, os)) = (ok, os')"
    by fastforce
  show ?case
    unfolding create_dirs.simps token_pos_def [symmetric] Let_def r using IH [of os'] by auto
qed simp

lemma create_dir_returns: "\<exists>ok os'. create_dir path os = (Inr ok, os')"
  using create_dirs_returns [of 0 path "length path" os]
  by (cases "path = []") (auto simp: create_dir_def, metis prod.collapse)

section \<open>details/file_helper-inl.h\<close>

record file_helper =
  fh_fd :: "string option"
  fh_filename :: string

definition fh_new :: file_helper where
  "fh_new = \<lparr>fh_fd = None, fh_filename = []\<rparr>"

definition fh_close :: "file_helper \<Rightarrow> file_helper" where
  "fh_close fh = (if fh_fd fh \<noteq> None then fh\<lparr>fh_fd := None\<rparr> else fh)"

text \<open>
  open tries five times: a truncation that fails goes straight to the next try.  Between two
  tries the thread sleeps, which changes nothing here.
\<close>

definition open_tries :: nat where
  "open_tries = 5"

fun open_loop :: "nat \<Rightarrow> bool \<Rightarrow> string \<Rightarrow> file_helper \<Rightarrow> os \<Rightarrow> unit res \<times> file_helper \<times> os" where
  "open_loop 0 trunc fname fh os = (Inl Uncaught_Exception, fh, os)"
| "open_loop (Suc tries) trunc fname fh os =
     (case create_dir (dir_name fname) os of
        (Inl e, os) \<Rightarrow> (Inl e, fh, os)
      | (Inr _, os) \<Rightarrow>
          (let ((failed, _), os) = (if trunc then fopen_s True fname os else ((False, None), os))
           in if failed then open_loop tries trunc fname fh os
              else
                (let ((failed, fd), os) = fopen_s False fname os;
                     fh = fh\<lparr>fh_fd := fd\<rparr>
                 in if \<not> failed then (Inr (), fh, os) else open_loop tries trunc fname fh os)))"

definition fh_open :: "string \<Rightarrow> bool \<Rightarrow> file_helper \<Rightarrow> os \<Rightarrow> unit res \<times> file_helper \<times> os" where
  "fh_open fname trunc fh os = open_loop open_tries trunc fname ((fh_close fh)\<lparr>fh_filename := fname\<rparr>) os"

definition fh_reopen :: "bool \<Rightarrow> file_helper \<Rightarrow> os \<Rightarrow> unit res \<times> file_helper \<times> os" where
  "fh_reopen trunc fh os =
     (if fh_filename fh = [] then (Inl Uncaught_Exception, fh, os)
      else fh_open (fh_filename fh) trunc fh os)"

definition fh_write :: "string \<Rightarrow> file_helper \<Rightarrow> os \<Rightarrow> unit res \<times> os" where
  "fh_write buf fh os =
     (case fwrite buf (fh_fd fh) os of
        (Inl e, os) \<Rightarrow> (Inl e, os)
      | (Inr n, os) \<Rightarrow> (if n \<noteq> length buf then (Inl Uncaught_Exception, os) else (Inr (), os)))"

definition fh_size :: "file_helper \<Rightarrow> os \<Rightarrow> nat res" where
  "fh_size fh os =
     (case fh_fd fh of
        None \<Rightarrow> Inl Uncaught_Exception
      | Some filename \<Rightarrow> Inr (case content os filename of Some t \<Rightarrow> length t | None \<Rightarrow> 0))"

text \<open>
  split_by_extension; the comparison with the index of the last folder separator is one of
  unsigned numbers, ext_index being at least one there.
\<close>

definition split_by_extension :: "string \<Rightarrow> string \<times> string" where
  "split_by_extension fname =
     (case find_last_of CHR ''.'' fname of
        None \<Rightarrow> (fname, [])
      | Some ext_index \<Rightarrow>
          if ext_index = 0 \<or> ext_index = length fname - 1 then (fname, [])
          else case find_last_of CHR ''/'' fname of
            None \<Rightarrow> (take ext_index fname, drop ext_index fname)
          | Some folder_index \<Rightarrow>
              if folder_index \<ge> ext_index - 1 then (fname, [])
              else (take ext_index fname, drop ext_index fname))"

lemma split_append: "fst (split_by_extension f) @ snd (split_by_extension f) = f"
  by (simp add: split_by_extension_def split: option.split)

text \<open>
  What the parts are: the extension is empty or a dot and at least one more character, none a
  dot or a folder separator; and then the last component of the path is not a hidden file
  without an extension.
\<close>

lemma split_ext:
  assumes "split_by_extension f = (base, ext)" "ext \<noteq> []"
  shows "hd ext = CHR ''.''" "length ext > 1" "CHR ''.'' \<notin> set (tl ext)" "CHR ''/'' \<notin> set ext"
    "base \<noteq> []" "last base \<noteq> CHR ''/''"
proof -
  obtain i where i: "find_last_of CHR ''.'' f = Some i" "i \<noteq> 0" "i \<noteq> length f - 1"
    "base = take i f" "ext = drop i f"
    "\<And>k. find_last_of CHR ''/'' f = Some k \<Longrightarrow> k < i - 1"
    using assms by (auto simp: split_by_extension_def split: option.splits if_splits)
  note d = find_last_of_Some [OF i(1)]
  then have ext: "ext = CHR ''.'' # drop (i + 1) f" "length ext > 1" "length base = i"
    using i(3-5) by (auto simp: Cons_nth_drop_Suc [symmetric])
  then show "hd ext = CHR ''.''" "length ext > 1" "CHR ''.'' \<notin> set (tl ext)"
    using d(3) by simp_all
  have "CHR ''/'' \<notin> set (drop (i - 1) f)"
  proof (cases "find_last_of CHR ''/'' f")
    case None
    then show ?thesis by (meson find_last_of_None in_set_dropD)
  next
    case (Some k)
    then have "CHR ''/'' \<notin> set (drop (k + 1) f)" "k + 1 \<le> i - 1"
      using find_last_of_Some [OF Some] i(6) by auto
    then show ?thesis using set_drop_subset_set_drop [of "k + 1" "i - 1" f] by auto
  qed
  moreover have "drop (i - 1) f = last base # ext"
    using d(1) i(2,4,5) last_conv_nth [of "take i f"] by (cases "f = []") (simp_all add: Cons_nth_drop_Suc [symmetric])
  ultimately show "CHR ''/'' \<notin> set ext" "last base \<noteq> CHR ''/''" by auto
  show "base \<noteq> []" using ext(3) i(2) by auto
qed

section \<open>sinks/basic_file_sink-inl.h\<close>

text \<open>format stands for the formatter of the sink, which may throw.\<close>

definition basic_file_sink :: "string \<Rightarrow> bool \<Rightarrow> os \<Rightarrow> unit res \<times> file_helper \<times> os" where
  "basic_file_sink filename trunc os = fh_open filename trunc fh_new os"

definition basic_sink_it :: "('m \<Rightarrow> string res) \<Rightarrow> 'm \<Rightarrow> file_helper \<Rightarrow> os \<Rightarrow> unit res \<times> os" where
  "basic_sink_it format msg fh os =
     (case format msg of Inl e \<Rightarrow> (Inl e, os) | Inr formatted \<Rightarrow> fh_write formatted fh os)"

section \<open>sinks/rotating_file_sink-inl.h\<close>

definition calc_filename :: "string \<Rightarrow> nat \<Rightarrow> string" where
  "calc_filename filename index =
     (if index = 0 then filename
      else let (basename, ext) = split_by_extension filename
           in basename @ ''.'' @ digit_string index @ ext)"

record rotating_file_sink =
  rs_base_filename :: string
  rs_max_size :: nat
  rs_max_files :: nat
  rs_current_size :: nat
  rs_file_helper :: file_helper

definition rename_file :: "string \<Rightarrow> string \<Rightarrow> os \<Rightarrow> bool \<times> os" where
  "rename_file src_filename target_filename os =
     (let (_, os) = os_remove target_filename os in os_rename src_filename target_filename os)"

text \<open>
  The loop of rotate_, from i down to 1: Inr when every file was moved; Inl () when one could
  not be renamed in two attempts.
\<close>

fun rotate_loop :: "string \<Rightarrow> nat \<Rightarrow> os \<Rightarrow> (unit + unit) \<times> os" where
  "rotate_loop base 0 os = (Inr (), os)"
| "rotate_loop base (Suc i) os =
     (let src = calc_filename base i
      in if \<not> path_exists src os then rotate_loop base i os
         else
           (let target = calc_filename base (Suc i);
                (renamed, os) = rename_file src target os
            in if renamed then rotate_loop base i os
               else
                 (let (renamed, os) = rename_file src target os
                  in if renamed then rotate_loop base i os else (Inl (), os))))"

definition rotating_rotate :: "rotating_file_sink \<Rightarrow> os \<Rightarrow> unit res \<times> rotating_file_sink \<times> os" where
  "rotating_rotate rs os =
     (let fh = fh_close (rs_file_helper rs)
      in case rotate_loop (rs_base_filename rs) (rs_max_files rs) os of
           (Inl _, os) \<Rightarrow>
             (case fh_reopen True fh os of
                (Inl e, fh, os) \<Rightarrow> (Inl e, rs\<lparr>rs_file_helper := fh\<rparr>, os)
              | (Inr _, fh, os) \<Rightarrow> (Inl Uncaught_Exception, rs\<lparr>rs_file_helper := fh, rs_current_size := 0\<rparr>, os))
         | (Inr _, os) \<Rightarrow>
             (case fh_reopen True fh os of (r, fh, os) \<Rightarrow> (r, rs\<lparr>rs_file_helper := fh\<rparr>, os)))"

text \<open>The constructor: None when it throws.\<close>

definition rotating_new :: "string \<Rightarrow> nat \<Rightarrow> nat \<Rightarrow> bool \<Rightarrow> os \<Rightarrow> rotating_file_sink option \<times> os" where
  "rotating_new base_name size_limit file_limit rotate_on_open os =
     (case fh_open (calc_filename base_name 0) False fh_new os of
        (Inl e, fh, os) \<Rightarrow> (None, os)
      | (Inr _, fh, os) \<Rightarrow>
          (case fh_size fh os of
             Inl e \<Rightarrow> (None, os)
           | Inr len \<Rightarrow>
               (let rs = \<lparr>rs_base_filename = base_name, rs_max_size = size_limit, rs_max_files = file_limit,
                          rs_current_size = len, rs_file_helper = fh\<rparr>
                in if rotate_on_open \<and> rs_current_size rs > 0
                   then (case rotating_rotate rs os of
                           (Inl e, rs, os) \<Rightarrow> (None, os)
                         | (Inr _, rs, os) \<Rightarrow> (Some rs, os))
                   else (Some rs, os))))"

definition rotating_sink_it ::
    "('m \<Rightarrow> string res) \<Rightarrow> 'm \<Rightarrow> rotating_file_sink \<Rightarrow> os \<Rightarrow> unit res \<times> rotating_file_sink \<times> os" where
  "rotating_sink_it format msg rs os =
     (case format msg of
        Inl e \<Rightarrow> (Inl e, rs, os)
      | Inr formatted \<Rightarrow>
          (let rs = rs\<lparr>rs_current_size := sz (rs_current_size rs + length formatted)\<rparr>;
               (r, rs, os) =
                 (if rs_current_size rs > rs_max_size rs
                  then (case rotating_rotate rs os of
                          (Inl e, rs, os) \<Rightarrow> (Inl e, rs, os)
                        | (Inr _, rs, os) \<Rightarrow> (Inr (), rs\<lparr>rs_current_size := length formatted\<rparr>, os))
                  else (Inr (), rs, os))
           in case r of
                Inl e \<Rightarrow> (Inl e, rs, os)
              | Inr _ \<Rightarrow> (case fh_write formatted (rs_file_helper rs) os of (r, os) \<Rightarrow> (r, rs, os))))"

text \<open>A sequence of messages, the errors of single messages being caught by the logger.\<close>

fun rotating_log :: "('m \<Rightarrow> string res) \<Rightarrow> 'm list \<Rightarrow> rotating_file_sink \<Rightarrow> os \<Rightarrow> unit res list \<times> rotating_file_sink \<times> os" where
  "rotating_log format [] rs os = ([], rs, os)"
| "rotating_log format (m # ms) rs os =
     (let (r, rs, os) = rotating_sink_it format m rs os; (out, rs, os) = rotating_log format ms rs os
      in (r # out, rs, os))"

section \<open>File names\<close>

lemma digit_string_not_Nil: "digit_string n \<noteq> []"
  by (subst digit_string.simps) simp

lemma calc_filename_0 [simp]: "calc_filename base 0 = base"
  by (simp add: calc_filename_def)

lemma length_calc_filename:
  "0 < i \<Longrightarrow> length (calc_filename base i) = length base + 1 + length (digit_string i)"
  using arg_cong [OF split_append [of base], of length] by (simp add: calc_filename_def split_beta Let_def)


definition digits_value :: "string \<Rightarrow> nat" where
  "digits_value s = foldl (\<lambda>v c. 10 * v + (of_char c - 48)) 0 s"

lemma digits_value_string: "digits_value (digit_string n) = n"
proof (induction n rule: less_induct)
  case (less n)
  show ?case
  proof (cases "n < 10")
    case True
    then show ?thesis
      by (subst digit_string.simps) (simp add: digits_value_def)
  next
    case False
    then have "digits_value (digit_string (n div 10)) = n div 10"
      using less.IH [of "n div 10"] by simp
    then show ?thesis
      using False by (subst digit_string.simps) (simp add: digits_value_def)
  qed
qed

lemma digit_string_inj: "digit_string m = digit_string n \<Longrightarrow> m = n"
  by (metis digits_value_string)

lemma calc_filename_inj: "calc_filename base i = calc_filename base j \<longleftrightarrow> i = j"
proof
  assume eq: "calc_filename base i = calc_filename base j"
  show "i = j"
  proof (cases "i = 0 \<or> j = 0")
    case True
    then show ?thesis
      using eq length_calc_filename [of i base] length_calc_filename [of j base] by force
  next
    case False
    then show ?thesis
      using eq digit_string_inj [of i j] by (simp add: calc_filename_def split_beta Let_def)
  qed
qed simp

section \<open>What opening a file does\<close>

lemma os_mkdir_spec:
  "os_mkdir path os = (ok, os') \<Longrightarrow>
   (ok \<longrightarrow> nodes os path = None \<and> nodes os' = (nodes os)(path \<mapsto> Directory)) \<and>
   (\<not> ok \<longrightarrow> nodes os' = nodes os) \<and> (faults os = [] \<longrightarrow> faults os' = [])"
  by (cases os rule: next_fault_cases) (auto simp: os_mkdir_def path_exists_def next_fault_def split: if_splits list.splits)

text \<open>The directories that are made are no longer than the path.\<close>

lemma create_dirs_frame:
  "create_dirs fuel k path os = (r, os') \<Longrightarrow> length path < length p \<Longrightarrow>
   nodes os' p = nodes os p \<and> (faults os = [] \<longrightarrow> faults os' = [])"
proof (induction fuel arbitrary: k os)
  case (Suc fuel)
  define token_pos where "token_pos =
    (case find_first_of CHR ''/'' k path of Some p \<Rightarrow> p | None \<Rightarrow> length path)"
  obtain ok os1 where r: "(if take token_pos path \<noteq> [] \<and> \<not> path_exists (take token_pos path) os
      then os_mkdir (take token_pos path) os else (True, os)) = (ok, os1)"
    by fastforce
  have "p \<noteq> take token_pos path" using Suc.prems(2) by auto
  then have os1: "nodes os1 p = nodes os p" "faults os = [] \<longrightarrow> faults os1 = []"
    using r os_mkdir_spec [of "take token_pos path" os ok os1] by (auto split: if_splits)
  have "(if \<not> ok then (Inr False, os1) else if token_pos + 1 < length path
      then create_dirs fuel (token_pos + 1) path os1 else (Inr True, os1)) = (r, os')"
    using Suc.prems(1) r unfolding create_dirs.simps token_pos_def [symmetric] Let_def by simp
  then show ?case
    using os1 Suc.IH [of "token_pos + 1" os1] Suc.prems(2) by (auto split: if_splits)
qed simp

lemma create_dir_frame:
  "create_dir path os = (r, os') \<Longrightarrow> length path < length p \<Longrightarrow>
   nodes os' p = nodes os p \<and> (faults os = [] \<longrightarrow> faults os' = [])"
  using create_dirs_frame [of "length path" 0 path os r os' p] by (auto simp: create_dir_def split: if_splits)

lemma length_dir_name: "f \<noteq> [] \<Longrightarrow> length (dir_name f) < length f"
  using find_last_of_Some(1) [of "CHR ''/''" f] by (auto simp: dir_name_def split: option.split)

lemma fopen_spec:
  assumes "fopen trunc f os = (fp, os')"
  shows "fp = None \<and> nodes os' = nodes os \<or>
    fp = Some f \<and> nodes os' = (nodes os)(f \<mapsto> Regular (if trunc then [] else case content os f of Some t \<Rightarrow> t | None \<Rightarrow> []))"
    "faults os = [] \<Longrightarrow> faults os' = []"
    "faults os = [] \<Longrightarrow> f \<noteq> [] \<Longrightarrow> nodes os f \<noteq> Some Directory \<Longrightarrow> fp = Some f"
proof -
  show "fp = None \<and> nodes os' = nodes os \<or>
    fp = Some f \<and> nodes os' = (nodes os)(f \<mapsto> Regular (if trunc then [] else case content os f of Some t \<Rightarrow> t | None \<Rightarrow> []))"
    using assms
    by (cases os rule: next_fault_cases) (auto simp: fopen_def content_def split: if_splits)
qed (use assms in \<open>auto simp: fopen_def split: if_splits\<close>)

lemma content_update [simp]:
  "nodes os' = (nodes os)(f \<mapsto> Regular t) \<Longrightarrow> content os' p = (if p = f then Some t else content os p)"
  by (simp add: content_def)

text \<open>
  The outcome of open: either no FILE and an exception, or the FILE of the path with what it
  held (nothing when truncated); other files at least as long by name are as before.
\<close>

definition opened :: "bool \<Rightarrow> string \<Rightarrow> os \<Rightarrow> unit res \<times> file_helper \<times> os \<Rightarrow> bool" where
  "opened trunc f os res \<longleftrightarrow> (case res of (r, fh', os') \<Rightarrow>
     fh_filename fh' = f \<and>
     (\<forall>p. length f \<le> length p \<longrightarrow> p \<noteq> f \<longrightarrow> nodes os' p = nodes os p) \<and>
     (r = Inl Uncaught_Exception \<and> fh_fd fh' = None \<or>
      r = Inr () \<and> fh_fd fh' = Some f \<and>
        (if trunc then content os' f = Some []
         else content os' f = Some (case content os f of Some t \<Rightarrow> t | None \<Rightarrow> []))))"

lemma content_cong: "nodes os' p = nodes os p \<Longrightarrow> content os' p = content os p"
  by (simp add: content_def)

lemma open_loop_opened:
  assumes "f \<noteq> []" "fh_fd fh = None" "fh_filename fh = f"
  shows "opened trunc f os (open_loop tries trunc f fh os)"
  using assms(2,3)
proof (induction tries arbitrary: fh os)
  case (Suc tries)
  obtain ok os1 where c: "create_dir (dir_name f) os = (Inr ok, os1)"
    using create_dir_returns by blast
  have frame: "nodes os1 p = nodes os p" if "length f \<le> length p" for p
    using create_dir_frame [OF c, of p] length_dir_name [OF assms(1)] that by simp
  then have c1: "content os1 f = content os f" by (simp add: content_def)
  define x where "x = (if trunc then fopen_s True f os1 else ((False, None), os1))"
  obtain failed fd os2 where "x = ((failed, fd), os2)"
    by (cases x; cases "fst x") simp
  then have t: "(if trunc then fopen_s True f os1 else ((False, None), os1)) = ((failed, fd), os2)"
    by (simp add: x_def)
  have t2: "(trunc \<and> \<not> failed \<longrightarrow> content os2 f = Some []) \<and> (\<not> trunc \<longrightarrow> os2 = os1) \<and>
      (\<forall>p. p \<noteq> f \<longrightarrow> nodes os2 p = nodes os1 p)"
    using t fopen_spec(1) [of True f os1] by (auto simp: fopen_s_def split: prod.splits if_splits)
  show ?case
  proof (cases failed)
    case True
    then have "trunc" using t by (auto split: if_splits)
    have "opened trunc f os2 (open_loop tries trunc f fh os2)"
      using Suc.IH Suc.prems by simp
    then show ?thesis
      using t t2 True frame \<open>trunc\<close> by (auto simp: c opened_def Let_def split: prod.splits)
  next
    case False
    obtain fp os3 where o: "fopen False f os2 = (fp, os3)" by fastforce
    note o3 = fopen_spec(1) [OF o]
    show ?thesis
    proof (cases fp)
      case None
      then have "opened trunc f os3 (open_loop tries trunc f (fh\<lparr>fh_fd := None\<rparr>) os3)"
        using Suc.IH Suc.prems by simp
      moreover have "content os3 f = content os f" if "\<not> trunc"
        using o3 None t2 that c1 by (simp add: content_def)
      ultimately show ?thesis
        using t t2 False o o3 None frame
        by (auto simp: c opened_def Let_def fopen_s_def split: prod.splits)
    next
      case (Some g)
      then have "content os3 f = Some (case content os2 f of Some t \<Rightarrow> t | None \<Rightarrow> [])"
        using o3 by (auto split: if_splits)
      moreover have "content os2 f = (if trunc then Some [] else content os f)"
        using t2 False c1 by auto
      ultimately show ?thesis
        using t t2 False o o3 Some frame Suc.prems
        by (auto simp: c opened_def Let_def fopen_s_def)
    qed
  qed
qed (use assms in \<open>simp add: opened_def\<close>)

lemma fh_open_opened: "f \<noteq> [] \<Longrightarrow> opened trunc f os (fh_open f trunc fh os)"
  unfolding fh_open_def by (rule open_loop_opened) (simp_all add: fh_close_def)

lemma fh_reopen_opened:
  "fh_filename fh = f \<Longrightarrow> f \<noteq> [] \<Longrightarrow> opened trunc f os (fh_reopen trunc fh os)"
  by (simp add: fh_reopen_def fh_open_opened)

lemma fh_open_succeeds:
  assumes "faults os = []" "f \<noteq> []" "nodes os f \<noteq> Some Directory"
  obtains fh' os' where "fh_open f trunc fh os = (Inr (), fh', os')" "faults os' = []"
proof -
  obtain ok os1 where c: "create_dir (dir_name f) os = (Inr ok, os1)"
    using create_dir_returns by blast
  have os1: "nodes os1 f = nodes os f" "faults os1 = []"
    using create_dir_frame [OF c, of f] length_dir_name [OF assms(2)] assms(1) by simp_all
  obtain fp os2 where t: "fopen True f os1 = (fp, os2)" by fastforce
  have os2: "fp = Some f" "faults os2 = []" "nodes os2 f \<noteq> Some Directory"
    using fopen_spec [OF t] os1 assms by auto
  obtain fp3 os3 where o: "fopen False f (if trunc then os2 else os1) = (fp3, os3)" by fastforce
  have "fp3 = Some f" "faults os3 = []"
    using fopen_spec(2,3) [OF o] os1 os2 assms by auto
  then show thesis
    using c t o os2(1) that
    by (cases trunc) (auto simp: fh_open_def open_tries_def fopen_s_def numeral_eq_Suc Let_def)
qed

section \<open>What a rotation does\<close>

definition rotated :: "nat \<Rightarrow> (nat \<Rightarrow> 'n option) \<Rightarrow> nat \<Rightarrow> 'n option" where
  "rotated k N i =
     (if k = 0 \<or> i > k then N i
      else if i = 0 then None
      else if N (i - 1) \<noteq> None then N (i - 1)
      else if i < k then None else N k)"

lemma rotated_Suc:
  "rotated (Suc k) N = rotated k (if N k = None then N else N(Suc k := N k, k := None))"
  by (rule ext) (auto simp: rotated_def)

lemma rename_file_succeeds:
  assumes "faults os = []" "nodes os src = Some n" "src \<noteq> target"
  shows "\<exists>os'. rename_file src target os = (True, os') \<and> faults os' = [] \<and>
    nodes os' = (nodes os)(src := None, target := Some n)"
  using assms by (auto simp: rename_file_def os_remove_def os_rename_def)

lemma rotate_loop_rotates:
  assumes "faults os = []"
  shows "\<exists>os'. rotate_loop base k os = (Inr (), os') \<and> faults os' = [] \<and>
    (\<forall>i. nodes os' (calc_filename base i) = rotated k (\<lambda>i. nodes os (calc_filename base i)) i) \<and>
    (\<forall>p. p \<notin> range (calc_filename base) \<longrightarrow> nodes os' p = nodes os p)"
  using assms
proof (induction k arbitrary: os)
  case 0
  then show ?case by (simp add: rotated_def)
next
  case (Suc k)
  let ?N = "\<lambda>i. nodes os (calc_filename base i)"
  show ?case
  proof (cases "?N k")
    case None
    then show ?thesis
      using Suc.IH [OF Suc.prems] by (simp add: path_exists_def rotated_Suc)
  next
    case (Some n)
    obtain os1 where os1: "rename_file (calc_filename base k) (calc_filename base (Suc k)) os = (True, os1)"
      "faults os1 = []" "nodes os1 = (nodes os)(calc_filename base k := None, calc_filename base (Suc k) := Some n)"
      using rename_file_succeeds [OF Suc.prems Some, of "calc_filename base (Suc k)"] by (auto simp: calc_filename_inj)
    have "(\<lambda>i. nodes os1 (calc_filename base i)) = ?N(Suc k := ?N k, k := None)"
      by (rule ext) (simp add: os1(3) calc_filename_inj Some)
    moreover have "nodes os1 p = nodes os p" if "p \<notin> range (calc_filename base)" for p
      using that by (auto simp: os1(3))
    ultimately show ?thesis
      using Suc.IH [OF os1(2)] os1(1) Some by (simp add: path_exists_def rotated_Suc)
  qed
qed

text \<open>
  Where the sink stands: the files hold the texts of hist, the newest first, and there are no
  more of them.
\<close>

definition holds_files :: "string \<Rightarrow> nat \<Rightarrow> string list \<Rightarrow> os \<Rightarrow> bool" where
  "holds_files base n hist os \<longleftrightarrow>
     hist \<noteq> [] \<and> length hist \<le> n + 1 \<and>
     (\<forall>i \<le> n. nodes os (calc_filename base i) = (if i < length hist then Some (Regular (hist ! i)) else None))"

definition sink_files :: "rotating_file_sink \<Rightarrow> string list \<Rightarrow> os \<Rightarrow> bool" where
  "sink_files rs hist os \<longleftrightarrow>
     holds_files (rs_base_filename rs) (rs_max_files rs) hist os \<and> faults os = [] \<and>
     rs_base_filename rs \<noteq> [] \<and> fh_filename (rs_file_helper rs) = rs_base_filename rs \<and>
     fh_fd (rs_file_helper rs) = Some (rs_base_filename rs)"

definition sink_at :: "rotating_file_sink \<Rightarrow> string list \<Rightarrow> os \<Rightarrow> bool" where
  "sink_at rs hist os \<longleftrightarrow> sink_files rs hist os \<and> rs_current_size rs = length (hd hist)"

text \<open>What a message does to the texts.\<close>

definition rotating_spec :: "nat \<Rightarrow> nat \<Rightarrow> string \<Rightarrow> string list \<Rightarrow> string list" where
  "rotating_spec limit n t hist =
     (if length (hd hist) + length t > limit then take (n + 1) (t # hist) else (hd hist @ t) # tl hist)"

lemma fwrite_succeeds:
  "faults os = [] \<Longrightarrow> content os f = Some old \<Longrightarrow>
   fwrite data (Some f) os = (Inr (length data), os\<lparr>nodes := (nodes os)(f \<mapsto> Regular (old @ data))\<rparr>)"
  by (simp add: fwrite_def)

lemma length_calc_filename_le: "length base \<le> length (calc_filename base i)"
  using length_calc_filename [of i base] by (cases "i = 0") auto

lemma rotate_sink:
  assumes "sink_files rs hist os"
  obtains fh os' where "rotating_rotate rs os = (Inr (), rs\<lparr>rs_file_helper := fh\<rparr>, os')" "faults os' = []"
    "fh_filename fh = rs_base_filename rs" "fh_fd fh = Some (rs_base_filename rs)"
    "holds_files (rs_base_filename rs) (rs_max_files rs) (take (rs_max_files rs + 1) ([] # hist)) os'"
proof -
  let ?b = "rs_base_filename rs" and ?n = "rs_max_files rs"
  let ?N = "\<lambda>i. nodes os (calc_filename ?b i)"
  have s: "holds_files ?b ?n hist os" "faults os = []" "?b \<noteq> []" "fh_filename (rs_file_helper rs) = ?b"
    using assms by (simp_all add: sink_files_def)
  obtain os1 where os1: "rotate_loop ?b ?n os = (Inr (), os1)" "faults os1 = []"
    "\<And>i. nodes os1 (calc_filename ?b i) = rotated ?n ?N i"
    using rotate_loop_rotates [OF s(2), of ?b ?n] by blast
  have "nodes os1 ?b \<noteq> Some Directory"
    using os1(3) [of 0] s(1) by (auto simp: rotated_def holds_files_def)
  then obtain fh os2 where open': "fh_open ?b True (fh_close (rs_file_helper rs)) os1 = (Inr (), fh, os2)" "faults os2 = []"
    using fh_open_succeeds [OF os1(2) s(3), of True] by metis
  have name: "fh_filename (fh_close (rs_file_helper rs)) = ?b"
    using s(4) by (simp add: fh_close_def)
  have o: "fh_reopen True (fh_close (rs_file_helper rs)) os1 = (Inr (), fh, os2)" "faults os2 = []"
    using open' name s(3) by (simp_all add: fh_reopen_def)
  have op: "opened True ?b os1 (Inr (), fh, os2)"
    using fh_reopen_opened [OF name s(3), of True os1] o(1) by simp
  have "nodes os2 (calc_filename ?b i) =
      (if i < length (take (?n + 1) ([] # hist)) then Some (Regular (take (?n + 1) ([] # hist) ! i)) else None)"
    if "i \<le> ?n" for i
  proof (cases i)
    case 0
    then show ?thesis
      using op by (auto simp: opened_def content_def split: option.splits node.splits)
  next
    case (Suc j)
    then have "nodes os2 (calc_filename ?b i) = rotated ?n ?N i"
      using op os1(3) [of i] length_calc_filename_le [of ?b i] calc_filename_inj [of ?b i 0]
      by (simp add: opened_def)
    then show ?thesis
      using that Suc s(1) by (auto simp: rotated_def holds_files_def)
  qed
  then have "holds_files ?b ?n (take (?n + 1) ([] # hist)) os2"
    by (simp add: holds_files_def) (auto simp: min_def)
  then show thesis
    using that os1(1) o op by (auto simp: rotating_rotate_def opened_def)
qed

lemma sink_writes:
  assumes "holds_files base n (cur # olds) os" "faults os = []" "fh_fd fh = Some base"
  obtains os' where "fh_write t fh os = (Inr (), os')" "holds_files base n ((cur @ t) # olds) os'" "faults os' = []"
proof -
  have "nodes os (calc_filename base 0) = Some (Regular cur)"
    using assms(1) unfolding holds_files_def by (metis le0 length_greater_0_conv nth_Cons_0)
  then have c: "content os base = Some cur"
    by (simp add: content_def)
  have "calc_filename base i \<noteq> base" if "i \<noteq> 0" for i
    using that calc_filename_inj [of base i 0] by simp
  then have "holds_files base n ((cur @ t) # olds) (os\<lparr>nodes := (nodes os)(base \<mapsto> Regular (cur @ t))\<rparr>)"
    using assms(1) by (auto simp: holds_files_def nth_Cons split: nat.split)
  then show thesis
    using that assms(2,3) fwrite_succeeds [OF assms(2) c] by (simp add: fh_write_def)
qed

lemma sink_it_step:
  assumes "sink_at rs hist os" "format m = Inr t" "length (hd hist) + length t < 2 ^ 64"
  obtains rs' os' where "rotating_sink_it format m rs os = (Inr (), rs', os')"
    "sink_at rs' (rotating_spec (rs_max_size rs) (rs_max_files rs) t hist) os'"
    "rs_base_filename rs' = rs_base_filename rs" "rs_max_size rs' = rs_max_size rs" "rs_max_files rs' = rs_max_files rs"
proof -
  have s: "holds_files (rs_base_filename rs) (rs_max_files rs) hist os" "faults os = []" "rs_base_filename rs \<noteq> []"
    "fh_filename (rs_file_helper rs) = rs_base_filename rs" "fh_fd (rs_file_helper rs) = Some (rs_base_filename rs)"
    "rs_current_size rs = length (hd hist)" "hist \<noteq> []"
    using assms(1) by (simp_all add: sink_at_def sink_files_def holds_files_def)
  define rs1 where "rs1 = rs\<lparr>rs_current_size := length (hd hist) + length t\<rparr>"
  have sz1: "rs\<lparr>rs_current_size := sz (rs_current_size rs + length t)\<rparr> = rs1"
    using assms(3) s(6) by (simp add: rs1_def sz_small)
  show thesis
  proof (cases "length (hd hist) + length t > rs_max_size rs")
    case True
    have "sink_files rs1 hist os"
      using assms(1) by (simp add: sink_at_def sink_files_def rs1_def)
    then obtain fh os1 where "rotating_rotate rs1 os = (Inr (), rs1\<lparr>rs_file_helper := fh\<rparr>, os1)" "faults os1 = []"
      "fh_filename fh = rs_base_filename rs1" "fh_fd fh = Some (rs_base_filename rs1)"
      "holds_files (rs_base_filename rs1) (rs_max_files rs1) (take (rs_max_files rs1 + 1) ([] # hist)) os1"
      by (rule rotate_sink)
    then have r1: "rotating_rotate rs1 os = (Inr (), rs1\<lparr>rs_file_helper := fh\<rparr>, os1)"
      and r: "faults os1 = []" "fh_filename fh = rs_base_filename rs" "fh_fd fh = Some (rs_base_filename rs)"
        "holds_files (rs_base_filename rs) (rs_max_files rs) (take (rs_max_files rs + 1) ([] # hist)) os1"
      by (simp_all add: rs1_def)
    have "take (rs_max_files rs + 1) ([] # hist) = [] # take (rs_max_files rs) hist"
      by simp
    then obtain os2 where w: "fh_write t fh os1 = (Inr (), os2)"
      "holds_files (rs_base_filename rs) (rs_max_files rs) (t # take (rs_max_files rs) hist) os2" "faults os2 = []"
      using sink_writes [of "rs_base_filename rs" "rs_max_files rs" "[]" "take (rs_max_files rs) hist" os1 fh t] r by auto
    let ?rs' = "rs1\<lparr>rs_file_helper := fh, rs_current_size := length t\<rparr>"
    have "rotating_sink_it format m rs os = (Inr (), ?rs', os2)"
      using True r1 w(1) by (simp add: rotating_sink_it_def assms(2) Let_def sz1) (simp add: rs1_def)
    moreover have "sink_at ?rs' (rotating_spec (rs_max_size rs) (rs_max_files rs) t hist) os2"
      using True w r s by (simp add: sink_at_def sink_files_def rotating_spec_def rs1_def)
    ultimately show ?thesis
      using that by (simp add: rs1_def)
  next
    case False
    obtain os2 where w: "fh_write t (rs_file_helper rs) os = (Inr (), os2)"
      "holds_files (rs_base_filename rs) (rs_max_files rs) ((hd hist @ t) # tl hist) os2" "faults os2 = []"
      using sink_writes [of "rs_base_filename rs" "rs_max_files rs" "hd hist" "tl hist" os "rs_file_helper rs" t] s by auto
    have "rotating_sink_it format m rs os = (Inr (), rs1, os2)"
      using False w(1) by (simp add: rotating_sink_it_def assms(2) Let_def sz1) (simp add: rs1_def)
    moreover have "sink_at rs1 (rotating_spec (rs_max_size rs) (rs_max_files rs) t hist) os2"
      using False w s by (simp add: sink_at_def sink_files_def rotating_spec_def rs1_def)
    ultimately show ?thesis
      using that by (simp add: rs1_def)
  qed
qed

text \<open>A sequence of messages against the list of texts.\<close>

definition rotating_run :: "nat \<Rightarrow> nat \<Rightarrow> string list \<Rightarrow> string list \<Rightarrow> string list" where
  "rotating_run limit n ts hist = foldl (\<lambda>h t. rotating_spec limit n t h) hist ts"

definition texts_of :: "('m \<Rightarrow> string res) \<Rightarrow> 'm list \<Rightarrow> string list \<Rightarrow> bool" where
  "texts_of format ms ts \<longleftrightarrow> map format ms = map Inr ts"

lemma spec_hd_bound:
  "hist \<noteq> [] \<Longrightarrow> rotating_spec limit n t hist \<noteq> [] \<and> length (hd (rotating_spec limit n t hist)) \<le> length (hd hist) + length t"
  by (simp add: rotating_spec_def)

lemma rotating_log_run:
  assumes "sink_at rs hist os" "texts_of format ms ts" "length (hd hist) + length (concat ts) < 2 ^ 64"
  shows "\<exists>rs' os'. rotating_log format ms rs os = (replicate (length ms) (Inr ()), rs', os') \<and>
    sink_at rs' (rotating_run (rs_max_size rs) (rs_max_files rs) ts hist) os' \<and>
    rs_base_filename rs' = rs_base_filename rs \<and> rs_max_files rs' = rs_max_files rs"
  using assms
proof (induction ms arbitrary: rs hist os ts)
  case Nil
  then show ?case by (simp add: texts_of_def rotating_run_def)
next
  case (Cons m ms)
  then obtain t ts' where ts: "ts = t # ts'" "format m = Inr t" "texts_of format ms ts'"
    by (cases ts) (auto simp: texts_of_def)
  have "hist \<noteq> []" using Cons.prems(1) by (simp add: sink_at_def sink_files_def holds_files_def)
  have "length (hd hist) + length t < 2 ^ 64" using Cons.prems(3) ts(1) by simp
  then obtain rs1 os1 where step: "rotating_sink_it format m rs os = (Inr (), rs1, os1)"
    "sink_at rs1 (rotating_spec (rs_max_size rs) (rs_max_files rs) t hist) os1"
    "rs_base_filename rs1 = rs_base_filename rs" "rs_max_size rs1 = rs_max_size rs" "rs_max_files rs1 = rs_max_files rs"
    using sink_it_step [of rs hist os format m t] Cons.prems(1) ts(2) by blast
  have "length (hd (rotating_spec (rs_max_size rs) (rs_max_files rs) t hist)) + length (concat ts') < 2 ^ 64"
    using spec_hd_bound [OF \<open>hist \<noteq> []\<close>, of "rs_max_size rs" "rs_max_files rs" t] Cons.prems(3) ts(1) by simp
  then obtain rs2 os2 where "rotating_log format ms rs1 os1 = (replicate (length ms) (Inr ()), rs2, os2)"
    "sink_at rs2 (rotating_run (rs_max_size rs) (rs_max_files rs) ts' (rotating_spec (rs_max_size rs) (rs_max_files rs) t hist)) os2"
    "rs_base_filename rs2 = rs_base_filename rs1" "rs_max_files rs2 = rs_max_files rs1"
    using Cons.IH [OF step(2) ts(3)] step(4,5) by auto
  then show ?case
    using step ts(1) by (simp add: rotating_run_def)
qed

lemma spec_length:
  assumes "hist \<noteq> []" "length hist \<le> n + 1"
  shows "length hist \<le> length (rotating_spec limit n t hist)" "length (rotating_spec limit n t hist) \<le> n + 1"
  using assms by (auto simp: rotating_spec_def)

lemma suffix_concat_take: "suffix (concat (rev (take k xs))) (concat (rev xs))"
proof -
  have "rev xs = rev (drop k xs) @ rev (take k xs)"
    by (simp flip: rev_append)
  then show ?thesis by (metis concat_append suffixI)
qed

lemma spec_text:
  assumes "hist \<noteq> []" "length hist \<le> n + 1"
  shows "suffix (concat (rev (rotating_spec limit n t hist))) (concat (rev hist) @ t)"
    "length (rotating_spec limit n t hist) \<le> n \<Longrightarrow> concat (rev (rotating_spec limit n t hist)) = concat (rev hist) @ t"
    "\<forall>x \<in> set (rotating_spec limit n t hist). x \<in> set hist \<or> x = t \<or> length x \<le> limit"
proof -
  have h: "concat (rev hist) @ t = concat (rev (tl hist)) @ (hd hist @ t)"
    using assms(1) by (cases hist) auto
  show "suffix (concat (rev (rotating_spec limit n t hist))) (concat (rev hist) @ t)"
    using suffix_concat_take [of "n + 1" "t # hist"] h by (auto simp: rotating_spec_def)
  show "concat (rev (rotating_spec limit n t hist)) = concat (rev hist) @ t"
    if "length (rotating_spec limit n t hist) \<le> n"
    using that h by (auto simp: rotating_spec_def split: if_splits)
  show "\<forall>x \<in> set (rotating_spec limit n t hist). x \<in> set hist \<or> x = t \<or> length x \<le> limit"
    using assms(1) by (auto simp: rotating_spec_def dest: in_set_takeD list.set_sel(2))
qed

lemma run_length:
  "hist \<noteq> [] \<Longrightarrow> length hist \<le> n + 1 \<Longrightarrow> length hist \<le> length (rotating_run limit n ts hist)"
proof (induction ts arbitrary: hist)
  case (Cons t ts)
  have "length hist \<le> length (rotating_spec limit n t hist)"
    using spec_length(1) [OF Cons.prems] .
  also have "\<dots> \<le> length (rotating_run limit n ts (rotating_spec limit n t hist))"
    using Cons.IH spec_hd_bound [OF Cons.prems(1)] spec_length(2) [OF Cons.prems] by blast
  finally show ?case by (simp add: rotating_run_def)
qed (simp add: rotating_run_def)

lemma run_text:
  assumes "hist \<noteq> []" "length hist \<le> n + 1"
  shows "suffix (concat (rev (rotating_run limit n ts hist))) (concat (rev hist) @ concat ts)"
    "length (rotating_run limit n ts hist) \<le> n \<Longrightarrow>
     concat (rev (rotating_run limit n ts hist)) = concat (rev hist) @ concat ts"
    "\<forall>x \<in> set (rotating_run limit n ts hist). x \<in> set hist \<or> x \<in> set ts \<or> length x \<le> limit"
proof -
  have "suffix (concat (rev (rotating_run limit n ts hist))) (concat (rev hist) @ concat ts) \<and>
    (length (rotating_run limit n ts hist) \<le> n \<longrightarrow>
     concat (rev (rotating_run limit n ts hist)) = concat (rev hist) @ concat ts) \<and>
    (\<forall>x \<in> set (rotating_run limit n ts hist). x \<in> set hist \<or> x \<in> set ts \<or> length x \<le> limit)"
    using assms
  proof (induction ts arbitrary: hist)
    case Nil
    then show ?case by (simp add: rotating_run_def)
  next
    case (Cons t ts)
    let ?h = "rotating_spec limit n t hist" and ?r = "rotating_run limit n ts (rotating_spec limit n t hist)"
    have ne: "?h \<noteq> []" "length ?h \<le> n + 1"
      using spec_hd_bound [OF Cons.prems(1)] spec_length(2) [OF Cons.prems] by blast+
    note IH = Cons.IH [OF ne]
    have run: "rotating_run limit n (t # ts) hist = ?r" by (simp add: rotating_run_def)
    have "suffix (concat (rev ?h) @ concat ts) ((concat (rev hist) @ t) @ concat ts)"
      using spec_text(1) [OF Cons.prems] by (simp only: same_suffix_suffix append.assoc) (auto simp: suffix_def)
    then have "suffix (concat (rev ?r)) (concat (rev hist) @ concat (t # ts))"
      using IH suffix_order.trans by fastforce
    moreover have "concat (rev ?r) = concat (rev hist) @ concat (t # ts)" if "length ?r \<le> n"
    proof -
      have "length ?h \<le> n" using run_length [OF ne, of limit ts] that by simp
      then show ?thesis using IH spec_text(2) [OF Cons.prems, of limit t] that by simp
    qed
    moreover have "\<forall>x \<in> set ?r. x \<in> set hist \<or> x \<in> set (t # ts) \<or> length x \<le> limit"
      using IH spec_text(3) [OF Cons.prems] by auto
    ultimately show ?case unfolding run by blast
  qed
  then show "suffix (concat (rev (rotating_run limit n ts hist))) (concat (rev hist) @ concat ts)"
    "length (rotating_run limit n ts hist) \<le> n \<Longrightarrow>
     concat (rev (rotating_run limit n ts hist)) = concat (rev hist) @ concat ts"
    "\<forall>x \<in> set (rotating_run limit n ts hist). x \<in> set hist \<or> x \<in> set ts \<or> length x \<le> limit"
    by blast+
qed

lemma rotating_new_sink:
  assumes "faults os = []" "base \<noteq> []" "\<forall>i \<le> n. nodes os (calc_filename base i) = None"
  shows "\<exists>rs os'. rotating_new base size_limit n on_open os = (Some rs, os') \<and> sink_at rs [[]] os' \<and>
    rs_base_filename rs = base \<and> rs_max_files rs = n \<and> rs_max_size rs = size_limit"
proof -
  have none: "nodes os base = None" using assms(3) [rule_format, of 0] by simp
  then have "nodes os base \<noteq> Some Directory" by simp
  then obtain fh os1 where o: "fh_open base False fh_new os = (Inr (), fh, os1)" "faults os1 = []"
    by (rule fh_open_succeeds [OF assms(1,2)])
  have op: "opened False base os (Inr (), fh, os1)"
    using fh_open_opened [OF assms(2)] o(1) by metis
  then have f: "fh_filename fh = base" "fh_fd fh = Some base" "content os1 base = Some []"
    using none by (auto simp: opened_def content_def)
  have "nodes os1 (calc_filename base i) = (if i < 1 then Some (Regular []) else None)" if "i \<le> n" for i
  proof (cases "i = 0")
    case True
    then show ?thesis
      using f(3) by (auto simp: content_def split: option.splits node.splits)
  next
    case False
    then show ?thesis
      using op that assms(3) length_calc_filename_le [of base i] calc_filename_inj [of base i 0]
      by (simp add: opened_def)
  qed
  then show ?thesis
    using o f assms(2)
    by (simp add: rotating_new_def fh_size_def sink_at_def sink_files_def holds_files_def)
qed



section \<open>Under failures\<close>

text \<open>
  Whatever fails, a sink either has no FILE and a counted size above the limit, so that the
  next message rotates and opens a file first, or has its FILE open and counts at least what
  the file holds.
\<close>

definition sink_safe :: "nat \<Rightarrow> rotating_file_sink \<Rightarrow> os \<Rightarrow> bool" where
  "sink_safe b rs os \<longleftrightarrow>
     fh_filename (rs_file_helper rs) = rs_base_filename rs \<and> rs_base_filename rs \<noteq> [] \<and>
     (fh_fd (rs_file_helper rs) = None \<and> rs_current_size rs > rs_max_size rs \<or>
      fh_fd (rs_file_helper rs) = Some (rs_base_filename rs) \<and>
      (\<exists>t. content os (rs_base_filename rs) = Some t \<and> length t \<le> rs_current_size rs \<and> length t \<le> b))"

lemma rotate_safe:
  assumes "fh_filename (rs_file_helper rs) = rs_base_filename rs" "rs_base_filename rs \<noteq> []"
    "rotating_rotate rs os = (r, rs', os')"
  shows "(r = Inr () \<or> r = Inl Uncaught_Exception) \<and>
    rs_base_filename rs' = rs_base_filename rs \<and> rs_max_size rs' = rs_max_size rs \<and> rs_max_files rs' = rs_max_files rs \<and>
    rs_current_size rs' \<le> rs_current_size rs \<and>
    (r = Inr () \<or> rs_current_size rs > rs_max_size rs \<longrightarrow> sink_safe b rs' os') \<and>
    (r = Inr () \<longrightarrow> fh_fd (rs_file_helper rs') = Some (rs_base_filename rs) \<and> content os' (rs_base_filename rs) = Some [])"
proof -
  obtain moved os1 where l: "rotate_loop (rs_base_filename rs) (rs_max_files rs) os = (moved, os1)"
    by fastforce
  obtain r2 fh os2 where o: "fh_reopen True (fh_close (rs_file_helper rs)) os1 = (r2, fh, os2)"
    using prod_cases3 by blast
  have "fh_filename (fh_close (rs_file_helper rs)) = rs_base_filename rs"
    using assms(1) by (simp add: fh_close_def)
  then have "opened True (rs_base_filename rs) os1 (r2, fh, os2)"
    using fh_reopen_opened [of "fh_close (rs_file_helper rs)" "rs_base_filename rs" True os1] assms(2) o by simp
  then show ?thesis
    using assms(2,3) l o
    by (cases moved) (auto simp: rotating_rotate_def opened_def sink_safe_def Let_def)
qed

lemma fh_write_safe:
  assumes "fh_write t fh os = (r, os')" "fh_fd fh = Some f" "content os f = Some old"
  shows "(r = Inr () \<or> r = Inl Uncaught_Exception) \<and>
    (\<exists>new. content os' f = Some new \<and> length new \<le> length old + length t)"
proof -
  have "content os1 f = Some old" if "nodes os1 = nodes os" for os1
    using that assms(3) by (simp add: content_def)
  then show ?thesis
    using assms(1,2)
    by (cases os rule: next_fault_cases) (auto simp: fh_write_def fwrite_def Let_def split: if_splits)
qed

lemma sink_it_safe:
  assumes "sink_safe b rs os" "format m = Inr t" "rs_current_size rs + length t < 2 ^ 64"
    "rs_max_size rs \<le> b" "length t \<le> b" "rotating_sink_it format m rs os = (r, rs', os')"
  shows "(r = Inr () \<or> r = Inl Uncaught_Exception) \<and> sink_safe b rs' os' \<and>
    rs_max_size rs' = rs_max_size rs \<and> rs_base_filename rs' = rs_base_filename rs \<and>
    rs_current_size rs' \<le> rs_current_size rs + length t"
proof -
  define rs1 where "rs1 = rs\<lparr>rs_current_size := rs_current_size rs + length t\<rparr>"
  have sz1: "rs\<lparr>rs_current_size := sz (rs_current_size rs + length t)\<rparr> = rs1"
    using assms(3) by (simp add: rs1_def sz_small)
  have name: "fh_filename (rs_file_helper rs) = rs_base_filename rs" "rs_base_filename rs \<noteq> []"
    using assms(1) by (simp_all add: sink_safe_def)
  show ?thesis
  proof (cases "rs_current_size rs1 > rs_max_size rs1")
    case True
    obtain r2 rs2 os2 where rot: "rotating_rotate rs1 os = (r2, rs2, os2)"
      using prod_cases3 by blast
    have rot': "r2 = Inr () \<or> r2 = Inl Uncaught_Exception" "rs_base_filename rs2 = rs_base_filename rs"
      "rs_max_size rs2 = rs_max_size rs" "rs_current_size rs2 \<le> rs_current_size rs + length t" "sink_safe b rs2 os2"
      "r2 = Inr () \<Longrightarrow> fh_fd (rs_file_helper rs2) = Some (rs_base_filename rs) \<and> content os2 (rs_base_filename rs) = Some []"
      using rotate_safe [of rs1 os r2 rs2 os2 b] name True rot by (simp_all add: rs1_def)
    show ?thesis
    proof (cases "r2 = Inr ()")
      case True
      obtain r3 os3 where w: "fh_write t (rs_file_helper rs2) os2 = (r3, os3)" by fastforce
      have "r = r3" "os' = os3" "rs' = rs2\<lparr>rs_current_size := length t\<rparr>"
        using assms(6) True rot w \<open>rs_current_size rs1 > rs_max_size rs1\<close>
        by (simp_all add: rotating_sink_it_def assms(2) sz1)
      then show ?thesis
        using rot' True fh_write_safe [OF w] assms(5) by (fastforce simp: sink_safe_def)
    next
      case False
      then have "r = Inl Uncaught_Exception" "os' = os2" "rs' = rs2"
        using assms(6) rot rot'(1) \<open>rs_current_size rs1 > rs_max_size rs1\<close>
        by (auto simp: rotating_sink_it_def assms(2) sz1)
      then show ?thesis using rot' by simp
    qed
  next
    case False
    then have fd: "fh_fd (rs_file_helper rs) = Some (rs_base_filename rs)"
      and "\<exists>t. content os (rs_base_filename rs) = Some t \<and> length t \<le> rs_current_size rs"
      using assms(1) by (auto simp: sink_safe_def rs1_def)
    then obtain old where old: "content os (rs_base_filename rs) = Some old" "length old \<le> rs_current_size rs" by blast
    obtain r3 os3 where w: "fh_write t (rs_file_helper rs) os = (r3, os3)" by fastforce
    have eq: "r = r3" "os' = os3" "rs' = rs1"
      using assms(6) w False by (simp_all add: rotating_sink_it_def assms(2) sz1) (simp_all add: rs1_def)
    obtain new where "content os3 (rs_base_filename rs) = Some new" "length new \<le> length old + length t"
      using fh_write_safe [OF w fd old(1)] by blast
    then show ?thesis
      using fh_write_safe [OF w fd old(1)] eq name fd old(2) False assms(4) by (auto simp: sink_safe_def rs1_def)
  qed
qed

definition text_size :: "('m \<Rightarrow> string res) \<Rightarrow> 'm \<Rightarrow> nat" where
  "text_size format m = (case format m of Inl e \<Rightarrow> 0 | Inr t \<Rightarrow> length t)"

lemma rotating_log_safe:
  assumes "sink_safe b rs os" "rotating_log format ms rs os = (out, rs', os')"
    "rs_current_size rs + sum_list (map (text_size format) ms) < 2 ^ 64"
    "rs_max_size rs \<le> b" "\<forall>m \<in> set ms. text_size format m \<le> b \<and> format m \<noteq> Inl Bad_Access"
  shows "Inl Bad_Access \<notin> set out \<and> sink_safe b rs' os' \<and> rs_base_filename rs' = rs_base_filename rs"
  using assms
proof (induction ms arbitrary: rs os out)
  case (Cons m ms)
  obtain r rs1 os1 where step: "rotating_sink_it format m rs os = (r, rs1, os1)"
    using prod_cases3 by blast
  obtain out2 where rest: "rotating_log format ms rs1 os1 = (out2, rs', os')" "out = r # out2"
    using Cons.prems(2) step by (auto simp: Let_def split: prod.splits)
  have "r \<noteq> Inl Bad_Access \<and> sink_safe b rs1 os1 \<and> rs_max_size rs1 = rs_max_size rs \<and>
      rs_base_filename rs1 = rs_base_filename rs \<and> rs_current_size rs1 \<le> rs_current_size rs + text_size format m"
  proof (cases "format m")
    case (Inl e)
    then show ?thesis
      using step Cons.prems(1,5) by (auto simp: rotating_sink_it_def)
  next
    case (Inr t)
    then have "text_size format m = length t" by (simp add: text_size_def)
    then show ?thesis
      using sink_it_safe [of b rs os format m t r rs1 os1] Cons.prems Inr step by auto
  qed
  then show ?case
    using Cons.IH [of rs1 os1 out2] rest Cons.prems(3-5) by auto
qed simp

lemma rotating_new_safe:
  assumes "rotating_new base size_limit n on_open os = (Some rs, os1)" "base \<noteq> []"
    "\<And>t. content os base = Some t \<Longrightarrow> length t \<le> b"
  shows "sink_safe b rs os1 \<and> rs_base_filename rs = base \<and> rs_max_size rs = size_limit \<and> rs_current_size rs \<le> b"
proof -
  obtain r fh os2 where o: "fh_open base False fh_new os = (r, fh, os2)"
    using prod_cases3 by blast
  have op: "opened False base os (r, fh, os2)"
    using fh_open_opened [OF assms(2), of False os fh_new] o by simp
  moreover from this have "r = Inr ()"
    using assms(1) o by (auto simp: rotating_new_def opened_def)
  ultimately obtain t where f: "fh_filename fh = base" "fh_fd fh = Some base" "content os2 base = Some t" "length t \<le> b"
    using assms(3) by (auto simp: opened_def split: option.splits)
  define rs0 where "rs0 = \<lparr>rs_base_filename = base, rs_max_size = size_limit, rs_max_files = n,
    rs_current_size = length t, rs_file_helper = fh\<rparr>"
  have new: "rotating_new base size_limit n on_open os =
      (if on_open \<and> rs_current_size rs0 > 0
       then (case rotating_rotate rs0 os2 of (Inl e, rs, os) \<Rightarrow> (None, os) | (Inr _, rs, os) \<Rightarrow> (Some rs, os))
       else (Some rs0, os2))"
    using o \<open>r = Inr ()\<close> f by (simp add: rotating_new_def fh_size_def rs0_def Let_def)
  show ?thesis
  proof (cases "on_open \<and> rs_current_size rs0 > 0")
    case True
    then have "rotating_rotate rs0 os2 = (Inr (), rs, os1)"
      using new assms(1) by (auto split: prod.splits sum.splits)
    then show ?thesis
      using rotate_safe [of rs0 os2 "Inr ()" rs os1 b] f assms(2) by (simp add: rs0_def)
  next
    case False
    then show ?thesis
      using new assms(1,2) f by (auto simp: rs0_def sink_safe_def)
  qed
qed

text \<open>C29: A rotating log stays safe and bounded under every failure of the system.  Whichever
  calls to open, remove, rename, make a directory or write fail, a sink that was constructed
  never writes to a null FILE; and its current file never grows beyond the limit, the size it
  was found with, or the longest single message.\<close>

theorem rotating_file_bounded_under_failures:
  assumes "rotating_new base size_limit n on_open os = (Some rs, os1)" "base \<noteq> []"
    and "\<forall>t. content os base = Some t \<longrightarrow> length t \<le> b" "size_limit \<le> b"
    and "\<forall>m \<in> set ms. text_size format m \<le> b \<and> format m \<noteq> Inl Bad_Access"
    and "b + sum_list (map (text_size format) ms) < 2 ^ 64"
    and "rotating_log format ms rs os1 = (out, rs', os')"
  shows "Inl Bad_Access \<notin> set out \<and>
    (fh_fd (rs_file_helper rs') = None \<or> (\<exists>t. content os' base = Some t \<and> length t \<le> b))"
proof -
  have new: "sink_safe b rs os1" "rs_base_filename rs = base" "rs_max_size rs = size_limit" "rs_current_size rs \<le> b"
    using rotating_new_safe [OF assms(1,2)] assms(3) by blast+
  then have "Inl Bad_Access \<notin> set out \<and> sink_safe b rs' os' \<and> rs_base_filename rs' = base"
    using rotating_log_safe [OF new(1) assms(7)] assms(4-6) by auto
  then show ?thesis
    by (auto simp: sink_safe_def)
qed

text \<open>
  The witness: every rename fails, so the first rotation fails and throws; the message is
  lost, the current file is emptied and later messages go on in it.
\<close>

theorem rotating_file_bounded_under_failures_witness:
  "\<exists>rs os1 out rs' os'.
    rotating_new ''l'' 2 1 False \<lparr>nodes = [''l'' \<mapsto> Regular ''old''], faults = [False, True, True, True, True]\<rparr> = (Some rs, os1) \<and>
    rotating_log Inr [''ab'', ''c''] rs os1 = (out, rs', os') \<and> Inl Bad_Access \<notin> set out"
proof -
  let ?os = "\<lparr>nodes = [''l'' \<mapsto> Regular ''old''], faults = [False, True, True, True, True]\<rparr>"
  obtain rs os1 where new: "rotating_new ''l'' 2 1 False ?os = (Some rs, os1)"
    by (auto simp: rotating_new_def fh_open_def open_tries_def numeral_eq_Suc create_dir_def dir_name_def
        find_last_of_def path_exists_def fh_close_def fh_new_def fopen_s_def fopen_def next_fault_def content_def fh_size_def)
  obtain out rs' os' where log: "rotating_log Inr [''ab'', ''c''] rs os1 = (out, rs', os')"
    using prod_cases3 by blast
  have "Inl Bad_Access \<notin> set out"
    using rotating_file_bounded_under_failures [OF new _ _ _ _ _ log, of 3] by (simp add: content_def text_size_def)
  then show ?thesis
    using new log by blast
qed

end
