(* ===== verification/LogTimed.thy ===== *)
theory LogTimed
  imports LogFiles
begin

text \<open>
  The file sinks that start a new file at a time: sinks/daily_file_sink.h and
  sinks/hourly_file_sink.h.  The two sinks have the same code but for the name of a file and
  the next time of rotation; timed_* is that code, with the name of the file at a time
  (name_at) and the next rotation (next_tp) as arguments, daily_* and hourly_* are the two
  sinks.

  A time point is a number of nanoseconds.  The time zone, that is localtime and mktime, is
  an argument, and so is the clock: now is what log_clock::now gave in the call.
\<close>

section \<open>File names\<close>

record tm =
  tm_year :: int
  tm_mon :: int
  tm_mday :: int
  tm_hour :: int
  tm_min :: int
  tm_sec :: int
  tm_wday :: int

text \<open>to_time_t cuts off the fraction of a second; from_time_t is its converse.\<close>

definition to_time_t :: "int \<Rightarrow> int" where
  "to_time_t tp = (if tp \<ge> 0 then tp div 1000000000 else - (- tp div 1000000000))"

definition from_time_t :: "int \<Rightarrow> int" where
  "from_time_t t = t * 1000000000"

definition seconds :: "int \<Rightarrow> int" where
  "seconds n = n * 1000000000"

text \<open>The replacement field with a width, filled up with zeros after the sign.\<close>

definition fmt_0d :: "nat \<Rightarrow> int \<Rightarrow> string" where
  "fmt_0d width n =
     (let sign = (if n < 0 then ''-'' else ''''); digits = digit_string (nat \<bar>n\<bar>)
      in sign @ replicate (width - length sign - length digits) CHR ''0'' @ digits)"

definition daily_calc_filename :: "string \<Rightarrow> tm \<Rightarrow> string" where
  "daily_calc_filename filename now_tm =
     (let (basename, ext) = split_by_extension filename
      in basename @ ''_'' @ fmt_0d 4 (tm_year now_tm + 1900) @ ''-'' @ fmt_0d 2 (tm_mon now_tm + 1) @ ''-'' @
         fmt_0d 2 (tm_mday now_tm) @ ext)"

definition hourly_calc_filename :: "string \<Rightarrow> tm \<Rightarrow> string" where
  "hourly_calc_filename filename now_tm =
     (let (basename, ext) = split_by_extension filename
      in basename @ ''_'' @ fmt_0d 4 (tm_year now_tm + 1900) @ fmt_0d 2 (tm_mon now_tm + 1) @
         fmt_0d 2 (tm_mday now_tm) @ ''_'' @ fmt_0d 2 (tm_hour now_tm) @ ext)"

definition now_tm :: "(int \<Rightarrow> tm) \<Rightarrow> int \<Rightarrow> tm" where
  "now_tm localtime tp = localtime (to_time_t tp)"

definition daily_next_rotation_tp :: "(int \<Rightarrow> tm) \<Rightarrow> (tm \<Rightarrow> int) \<Rightarrow> int \<Rightarrow> int \<Rightarrow> int \<Rightarrow> int" where
  "daily_next_rotation_tp localtime mktime rotation_h rotation_m now =
     (let date = (now_tm localtime now)\<lparr>tm_hour := rotation_h, tm_min := rotation_m, tm_sec := 0\<rparr>;
          rotation_time = from_time_t (mktime date)
      in if rotation_time > now then rotation_time else rotation_time + seconds (24 * 3600))"

definition hourly_next_rotation_tp :: "(int \<Rightarrow> tm) \<Rightarrow> (tm \<Rightarrow> int) \<Rightarrow> int \<Rightarrow> int" where
  "hourly_next_rotation_tp localtime mktime now =
     (let date = (now_tm localtime now)\<lparr>tm_min := 0, tm_sec := 0\<rparr>;
          rotation_time = from_time_t (mktime date)
      in if rotation_time > now then rotation_time else rotation_time + seconds 3600)"

section \<open>The sink\<close>

record timed_sink =
  ts_rotation_tp :: int
  ts_file_helper :: file_helper
  ts_truncate :: bool
  ts_max_files :: nat
  ts_filenames_q :: "string circ_q"

text \<open>
  init_filenames_q_: the names of the files that are there, going back one period at a time,
  are put into the queue with the oldest first.
\<close>

fun existing_files :: "nat \<Rightarrow> (int \<Rightarrow> string) \<Rightarrow> int \<Rightarrow> int \<Rightarrow> os \<Rightarrow> string list" where
  "existing_files 0 name_at period now os = []"
| "existing_files (Suc n) name_at period now os =
     (if \<not> path_exists (name_at now) os then []
      else name_at now # existing_files n name_at period (now - period) os)"

definition init_filenames_q :: "nat \<Rightarrow> (int \<Rightarrow> string) \<Rightarrow> int \<Rightarrow> int \<Rightarrow> os \<Rightarrow> timed_sink \<Rightarrow> timed_sink res" where
  "init_filenames_q vmax name_at period now os ts =
     bind_res (cq_new vmax [] (ts_max_files ts)) (\<lambda>q.
     bind_res (res_fold cq_push_back (rev (existing_files (ts_max_files ts) name_at period now os)) q) (\<lambda>q.
       Inr (ts\<lparr>ts_filenames_q := q\<rparr>)))"

definition timed_new :: "nat \<Rightarrow> (int \<Rightarrow> string) \<Rightarrow> (int \<Rightarrow> int) \<Rightarrow> int \<Rightarrow> bool \<Rightarrow> nat \<Rightarrow> int \<Rightarrow> os \<Rightarrow> timed_sink res \<times> os" where
  "timed_new vmax name_at next_tp period trunc file_limit now os =
     (case fh_open (name_at now) trunc fh_new os of
        (Inl e, fh, os) \<Rightarrow> (Inl e, os)
      | (Inr _, fh, os) \<Rightarrow>
          (let ts = \<lparr>ts_rotation_tp = next_tp now, ts_file_helper = fh, ts_truncate = trunc,
                     ts_max_files = file_limit, ts_filenames_q = cq_disabled\<rparr>
           in if file_limit > 0 then (init_filenames_q vmax name_at period now os ts, os) else (Inr ts, os)))"

text \<open>delete_old_; the queue is changed before a failure to remove the file is thrown.\<close>

definition delete_old :: "timed_sink \<Rightarrow> os \<Rightarrow> unit res \<times> timed_sink \<times> os" where
  "delete_old ts os =
     (let current_file = fh_filename (ts_file_helper ts);
          q = ts_filenames_q ts;
          push = (\<lambda>q. cq_push_back current_file q)
      in if cq_full q
         then case bind_res (cq_front q) (\<lambda>old. bind_res (cq_pop_front q) (\<lambda>q. Inr (old, q))) of
                Inl e \<Rightarrow> (Inl e, ts, os)
              | Inr (old_filename, q) \<Rightarrow>
                  (let (ok, os) = remove_if_exists old_filename os
                   in case push q of
                        Inl e \<Rightarrow> (Inl e, ts, os)
                      | Inr q \<Rightarrow> (if \<not> ok then Inl Uncaught_Exception else Inr (), ts\<lparr>ts_filenames_q := q\<rparr>, os))
         else case push q of
                Inl e \<Rightarrow> (Inl e, ts, os)
              | Inr q \<Rightarrow> (Inr (), ts\<lparr>ts_filenames_q := q\<rparr>, os))"

text \<open>sink_it_ of a message of a time; the clock is read again for the next rotation.\<close>

definition timed_sink_it ::
    "(int \<Rightarrow> string) \<Rightarrow> (int \<Rightarrow> int) \<Rightarrow> ('m \<Rightarrow> string res) \<Rightarrow> ('m \<Rightarrow> int) \<Rightarrow> int \<Rightarrow> 'm \<Rightarrow> timed_sink \<Rightarrow> os \<Rightarrow>
     unit res \<times> timed_sink \<times> os" where
  "timed_sink_it name_at next_tp format msg_time now msg ts os =
     (let time = msg_time msg;
          should_rotate = (time \<ge> ts_rotation_tp ts);
          (r, ts, os) =
            (if should_rotate
             then (case fh_open (name_at time) (ts_truncate ts) (ts_file_helper ts) os of
                     (Inl e, fh, os) \<Rightarrow> (Inl e, ts\<lparr>ts_file_helper := fh\<rparr>, os)
                   | (Inr _, fh, os) \<Rightarrow> (Inr (), ts\<lparr>ts_file_helper := fh, ts_rotation_tp := next_tp now\<rparr>, os))
             else (Inr (), ts, os))
      in case r of
           Inl e \<Rightarrow> (Inl e, ts, os)
         | Inr _ \<Rightarrow>
             (case format msg of
                Inl e \<Rightarrow> (Inl e, ts, os)
              | Inr formatted \<Rightarrow>
                  (case fh_write formatted (ts_file_helper ts) os of
                     (Inl e, os) \<Rightarrow> (Inl e, ts, os)
                   | (Inr _, os) \<Rightarrow>
                       if should_rotate \<and> ts_max_files ts > 0 then delete_old ts os else (Inr (), ts, os))))"

section \<open>The two sinks\<close>

definition daily_new ::
    "nat \<Rightarrow> (int \<Rightarrow> tm) \<Rightarrow> (tm \<Rightarrow> int) \<Rightarrow> string \<Rightarrow> int \<Rightarrow> int \<Rightarrow> bool \<Rightarrow> u16 \<Rightarrow> int \<Rightarrow> os \<Rightarrow> timed_sink res \<times> os" where
  "daily_new vmax localtime mktime base rotation_hour rotation_minute trunc file_limit now os =
     (if rotation_hour < 0 \<or> rotation_hour > 23 \<or> rotation_minute < 0 \<or> rotation_minute > 59
      then (Inl Uncaught_Exception, os)
      else timed_new vmax (\<lambda>t. daily_calc_filename base (now_tm localtime t))
             (daily_next_rotation_tp localtime mktime rotation_hour rotation_minute) (seconds (24 * 3600))
             trunc (unat file_limit) now os)"

definition daily_sink_it ::
    "(int \<Rightarrow> tm) \<Rightarrow> (tm \<Rightarrow> int) \<Rightarrow> string \<Rightarrow> int \<Rightarrow> int \<Rightarrow> ('m \<Rightarrow> string res) \<Rightarrow> ('m \<Rightarrow> int) \<Rightarrow> int \<Rightarrow> 'm \<Rightarrow>
     timed_sink \<Rightarrow> os \<Rightarrow> unit res \<times> timed_sink \<times> os" where
  "daily_sink_it localtime mktime base rotation_h rotation_m =
     timed_sink_it (\<lambda>t. daily_calc_filename base (now_tm localtime t))
       (daily_next_rotation_tp localtime mktime rotation_h rotation_m)"

definition hourly_new ::
    "nat \<Rightarrow> (int \<Rightarrow> tm) \<Rightarrow> (tm \<Rightarrow> int) \<Rightarrow> string \<Rightarrow> bool \<Rightarrow> u16 \<Rightarrow> int \<Rightarrow> os \<Rightarrow> timed_sink res \<times> os" where
  "hourly_new vmax localtime mktime base trunc file_limit now os =
     timed_new vmax (\<lambda>t. hourly_calc_filename base (now_tm localtime t))
       (hourly_next_rotation_tp localtime mktime) (seconds 3600) trunc (unat file_limit) now os"

definition hourly_sink_it ::
    "(int \<Rightarrow> tm) \<Rightarrow> (tm \<Rightarrow> int) \<Rightarrow> string \<Rightarrow> ('m \<Rightarrow> string res) \<Rightarrow> ('m \<Rightarrow> int) \<Rightarrow> int \<Rightarrow> 'm \<Rightarrow>
     timed_sink \<Rightarrow> os \<Rightarrow> unit res \<times> timed_sink \<times> os" where
  "hourly_sink_it localtime mktime base =
     timed_sink_it (\<lambda>t. hourly_calc_filename base (now_tm localtime t)) (hourly_next_rotation_tp localtime mktime)"

section \<open>Retention\<close>

lemma remove_if_exists_spec:
  assumes "remove_if_exists f os = (ok, os')" "faults os = []"
  shows "ok \<and> nodes os' = (nodes os)(f := None) \<and> faults os' = []"
  using assms by (auto simp: remove_if_exists_def path_exists_def os_remove_def split: if_splits)

text \<open>
  What delete_old_ does when the removal works: the queue has the last max_files names, and
  the file whose name it dropped is gone.
\<close>

lemma delete_old_spec:
  assumes "cq_ok (ts_filenames_q ts)" "max_items (ts_filenames_q ts) > 1" "faults os = []"
  obtains ts' os' where "delete_old ts os = (Inr (), ts', os')" "cq_ok (ts_filenames_q ts')"
    "max_items (ts_filenames_q ts') = max_items (ts_filenames_q ts)"
    "cq_list (ts_filenames_q ts') =
       last_n (cq_cap (ts_filenames_q ts)) (cq_list (ts_filenames_q ts) @ [fh_filename (ts_file_helper ts)])"
    "ts' = ts\<lparr>ts_filenames_q := ts_filenames_q ts'\<rparr>" "faults os' = []"
    "nodes os' = (if cq_full (ts_filenames_q ts) then (nodes os)(hd (cq_list (ts_filenames_q ts)) := None) else nodes os)"
proof -
  let ?q = "ts_filenames_q ts" and ?f = "fh_filename (ts_file_helper ts)"
  show thesis
  proof (cases "cq_full ?q")
    case False
    obtain q' where "cq_push_back ?f ?q = Inr q'" "cq_ok q'" "max_items q' = max_items ?q"
      "cq_list q' = last_n (cq_cap ?q) (cq_list ?q @ [?f])"
      using assms(1) by (rule cq_push)
    then show ?thesis
      using that [of "ts\<lparr>ts_filenames_q := q'\<rparr>" os] False assms(3) by (simp add: delete_old_def Let_def)
  next
    case True
    then have size: "cq_size ?q = cq_cap ?q"
      using cq_full_iff [OF assms(1)] by simp
    then have "cq_list ?q \<noteq> []"
      using assms(2) length_cq_list [of ?q] by (auto simp: cq_cap_def simp del: length_cq_list)
    then obtain old rest where l: "cq_list ?q = old # rest" by (cases "cq_list ?q") auto
    obtain q1 where q1: "cq_front ?q = Inr old" "cq_pop_front ?q = Inr q1" "cq_ok q1" "cq_list q1 = rest"
      "max_items q1 = max_items ?q"
      using cq_pop_Cons [OF assms(1) l] .
    obtain q' where q': "cq_push_back ?f q1 = Inr q'" "cq_ok q'" "max_items q' = max_items q1"
      "cq_list q' = last_n (cq_cap q1) (cq_list q1 @ [?f])"
      using q1(3) by (rule cq_push)
    have len: "length (cq_list ?q) = cq_cap ?q" using size by simp
    have "last_n (cq_cap ?q) (cq_list ?q @ [?f]) = rest @ [?f]"
      using last_n_tl [of "cq_list ?q" ?f] unfolding len by (simp add: l)
    moreover have "last_n (cq_cap q1) (cq_list q1 @ [?f]) = rest @ [?f]"
      using len l q1(4,5) by (simp add: cq_cap_def)
    moreover obtain ok os' where rm: "remove_if_exists old os = (ok, os')" by fastforce
    ultimately show ?thesis
      using that [of "ts\<lparr>ts_filenames_q := q'\<rparr>" os'] True q1 q' l remove_if_exists_spec [OF rm assms(3)]
      by (simp add: delete_old_def Let_def)
  qed
qed

text \<open>
  A rotation to the file that the queue has as its only one (the same day, or the same hour)
  removes the file that was just opened and written: from then on the messages go to a file
  without a name.
\<close>

lemma rotation_to_the_same_file_removes_it:
  assumes "cq_ok (ts_filenames_q ts)" "max_items (ts_filenames_q ts) = 2" "ts_max_files ts = 1"
    and "cq_list (ts_filenames_q ts) = [name_at (msg_time msg)]" "msg_time msg \<ge> ts_rotation_tp ts"
    and "faults os = []" "name_at (msg_time msg) \<noteq> []" "nodes os (name_at (msg_time msg)) \<noteq> Some Directory"
    and "format msg = Inr t"
  shows "\<exists>ts' os'. timed_sink_it name_at next_tp format msg_time now msg ts os = (Inr (), ts', os') \<and>
    fh_fd (ts_file_helper ts') = Some (name_at (msg_time msg)) \<and> nodes os' (name_at (msg_time msg)) = None"
proof -
  let ?f = "name_at (msg_time msg)"
  obtain fh os1 where o: "fh_open ?f (ts_truncate ts) (ts_file_helper ts) os = (Inr (), fh, os1)" "faults os1 = []"
    using assms(6-8) by (rule fh_open_succeeds)
  have "opened (ts_truncate ts) ?f os (Inr (), fh, os1)"
    using fh_open_opened [OF assms(7), of "ts_truncate ts" os "ts_file_helper ts"] o(1) by simp
  then obtain old where fh: "fh_filename fh = ?f" "fh_fd fh = Some ?f" "content os1 ?f = Some old"
    by (auto simp: opened_def split: if_splits)
  define os2 where "os2 = os1\<lparr>nodes := (nodes os1)(?f \<mapsto> Regular (old @ t))\<rparr>"
  have w: "fh_write t fh os1 = (Inr (), os2)" "faults os2 = []"
    using fwrite_succeeds [OF o(2) fh(3)] fh(2) o(2) by (simp_all add: fh_write_def os2_def)
  define ts1 where "ts1 = ts\<lparr>ts_file_helper := fh, ts_rotation_tp := next_tp now\<rparr>"
  have q: "ts_filenames_q ts1 = ts_filenames_q ts" by (simp add: ts1_def)
  have full: "cq_full (ts_filenames_q ts)"
    using cq_full_iff [OF assms(1)] arg_cong [OF assms(4), of length] assms(2) by (simp add: cq_cap_def)
  obtain ts' os' where d: "delete_old ts1 os2 = (Inr (), ts', os')" "ts' = ts1\<lparr>ts_filenames_q := ts_filenames_q ts'\<rparr>"
    "nodes os' = (if cq_full (ts_filenames_q ts1) then (nodes os2)(hd (cq_list (ts_filenames_q ts1)) := None) else nodes os2)"
    using delete_old_spec [of ts1 os2] assms(1,2) w(2) unfolding q by (metis one_less_numeral_iff semiring_norm(76))
  have "timed_sink_it name_at next_tp format msg_time now msg ts os = (Inr (), ts', os')"
    using assms(3,5,9) o(1) w(1) d(1) by (simp add: timed_sink_it_def Let_def ts1_def)
  moreover have "fh_fd (ts_file_helper ts') = Some ?f"
    by (subst d(2)) (simp add: ts1_def fh(2))
  moreover have "nodes os' ?f = None"
    using d(3) full assms(4) by (simp add: q)
  ultimately show ?thesis by blast
qed

text \<open>
  A rotation whose file cannot be opened leaves the sink without a FILE and the time of
  rotation as it was; a message of an earlier time is then written to the null FILE.
\<close>

lemma late_message_after_failed_open:
  assumes "fh_fd (ts_file_helper ts) = None" "msg_time msg < ts_rotation_tp ts" "format msg = Inr t"
  shows "fst (timed_sink_it name_at next_tp format msg_time now msg ts os) = Inl Bad_Access"
  using assms by (simp add: timed_sink_it_def fh_write_def fwrite_def)

lemma failed_open_keeps_rotation_tp:
  assumes "fh_open (name_at (msg_time msg)) (ts_truncate ts) (ts_file_helper ts) os = (Inl e, fh, os1)"
    "msg_time msg \<ge> ts_rotation_tp ts"
  shows "timed_sink_it name_at next_tp format msg_time now msg ts os = (Inl e, ts\<lparr>ts_file_helper := fh\<rparr>, os1)"
  using assms by (simp add: timed_sink_it_def)

end
