(* ===== verification/Loggers.thy ===== *)
theory Loggers
  imports LogQueue "HOL-Library.Sublist"
begin

text \<open>
  The loggers of the logging library: the levels of common.h and common-inl.h, the messages
  of details/log_msg-inl.h, logger-inl.h with the log functions of logger.h, and the sinks
  that pass messages on to other sinks, sinks/dist_sink.h and sinks/dup_filter_sink.h.

  A logger calls sinks, which may be anything.  The model keeps the calls made so far, in
  order, and a sink behaves as any function of them says: what it answers to a call (be_log,
  be_flush: an exception or none), its level (be_level), and the clock and the
  thread id (be_now, be_tid).  So a theorem over all behaviours is one over all sinks, with
  whatever state and failures.
\<close>

section \<open>Levels\<close>

datatype level_enum = Trace | Debug | Info | Warn | Err | Critical | Off

definition all_levels :: "level_enum list" where
  "all_levels = [Trace, Debug, Info, Warn, Err, Critical, Off]"

fun level_num :: "level_enum \<Rightarrow> nat" where
  "level_num Trace = 0" | "level_num Debug = 1" | "level_num Info = 2" | "level_num Warn = 3"
| "level_num Err = 4" | "level_num Critical = 5" | "level_num Off = 6"

lemma level_num_inj: "level_num a = level_num b \<Longrightarrow> a = b"
  by (cases a; cases b) simp_all

instantiation level_enum :: linorder
begin

definition less_eq_level_enum :: "level_enum \<Rightarrow> level_enum \<Rightarrow> bool" where
  "less_eq_level_enum a b \<longleftrightarrow> level_num a \<le> level_num b"

definition less_level_enum :: "level_enum \<Rightarrow> level_enum \<Rightarrow> bool" where
  "less_level_enum a b \<longleftrightarrow> level_num a < level_num b"

instance
  by standard (auto simp: less_eq_level_enum_def less_level_enum_def dest: level_num_inj)

end

definition level_string_views :: "string list" where
  "level_string_views = [''trace'', ''debug'', ''info'', ''warning'', ''error'', ''critical'', ''off'']"

definition short_level_names :: "string list" where
  "short_level_names = [''T'', ''D'', ''I'', ''W'', ''E'', ''C'', ''O'']"

definition to_string_view :: "level_enum \<Rightarrow> string" where
  "to_string_view l = level_string_views ! level_num l"

definition to_short_c_str :: "level_enum \<Rightarrow> string" where
  "to_short_c_str l = short_level_names ! level_num l"

text \<open>std::find: the position of the first element that is equal.\<close>

fun find_index :: "'a \<Rightarrow> 'a list \<Rightarrow> nat" where
  "find_index x [] = 0"
| "find_index x (y # ys) = (if y = x then 0 else find_index x ys + 1)"

definition from_str :: "string \<Rightarrow> level_enum" where
  "from_str name =
     (let it = find_index name level_string_views
      in if it \<noteq> length level_string_views then all_levels ! it
         else if name = ''warn'' then Warn
         else if name = ''err'' then Err
         else Off)"

lemma from_str_to_string_view: "from_str (to_string_view l) = l"
  by (cases l) (simp_all add: from_str_def to_string_view_def level_string_views_def all_levels_def Let_def)

lemma from_str_names:
  "from_str s = l \<longleftrightarrow>
     s = to_string_view l \<or> s = ''warn'' \<and> l = Warn \<or> s = ''err'' \<and> l = Err \<or>
     s \<notin> set level_string_views \<and> s \<noteq> ''warn'' \<and> s \<noteq> ''err'' \<and> l = Off"
  by (cases l) (auto simp: from_str_def to_string_view_def level_string_views_def all_levels_def Let_def)

section \<open>Messages\<close>

record source_loc =
  sl_filename :: "string option"
  sl_line :: int
  sl_funcname :: "string option"

definition no_source :: source_loc where
  "no_source = \<lparr>sl_filename = None, sl_line = 0, sl_funcname = None\<rparr>"

definition source_empty :: "source_loc \<Rightarrow> bool" where
  "source_empty loc = (sl_line loc = 0)"

record log_msg =
  lm_logger_name :: string
  lm_level :: level_enum
  lm_time :: int
  lm_thread_id :: nat
  lm_source :: source_loc
  lm_payload :: string

definition log_msg_default :: log_msg where
  "log_msg_default = \<lparr>lm_logger_name = [], lm_level = Off, lm_time = 0, lm_thread_id = 0,
     lm_source = no_source, lm_payload = []\<rparr>"

section \<open>Sinks and exceptions\<close>

datatype exc = Std_Exception string | Unknown_Exception | Undefined fault

datatype sink_call = Sink_Log nat log_msg | Sink_Flush nat | Sink_Set_Formatter nat nat

record sinks_env =
  be_level :: "sink_call list \<Rightarrow> nat \<Rightarrow> level_enum"
  be_log :: "sink_call list \<Rightarrow> nat \<Rightarrow> log_msg \<Rightarrow> exc option"
  be_flush :: "sink_call list \<Rightarrow> nat \<Rightarrow> exc option"
  be_now :: "sink_call list \<Rightarrow> int"
  be_tid :: "sink_call list \<Rightarrow> nat"

text \<open>What the loggers of the process share: the calls, and the statics of err_handler_.\<close>

record log_world =
  lw_calls :: "sink_call list"
  lw_handled :: "string list" \<comment> \<open>messages given to custom error handlers\<close>
  lw_err_counter :: nat
  lw_last_report :: int
  lw_stderr :: "(nat \<times> int \<times> string \<times> string) list"

definition sink_should_log :: "sinks_env \<Rightarrow> log_world \<Rightarrow> nat \<Rightarrow> level_enum \<Rightarrow> bool" where
  "sink_should_log be w s msg_level = (msg_level \<ge> be_level be (lw_calls w) s)"

definition sink_log :: "sinks_env \<Rightarrow> nat \<Rightarrow> log_msg \<Rightarrow> log_world \<Rightarrow> exc option \<times> log_world" where
  "sink_log be s msg w = (be_log be (lw_calls w) s msg, w\<lparr>lw_calls := lw_calls w @ [Sink_Log s msg]\<rparr>)"

definition sink_flush :: "sinks_env \<Rightarrow> nat \<Rightarrow> log_world \<Rightarrow> exc option \<times> log_world" where
  "sink_flush be s w = (be_flush be (lw_calls w) s, w\<lparr>lw_calls := lw_calls w @ [Sink_Flush s]\<rparr>)"

section \<open>logger-inl.h\<close>

record logger =
  lg_name :: string
  lg_sinks :: "nat list"
  lg_level :: level_enum
  lg_flush_level :: level_enum
  lg_custom_err_handler :: bool
  lg_tracer :: "log_msg backtracer"

definition logger_new :: "string \<Rightarrow> nat list \<Rightarrow> logger" where
  "logger_new name sinks = \<lparr>lg_name = name, lg_sinks = sinks, lg_level = Info, lg_flush_level = Off,
     lg_custom_err_handler = False, lg_tracer = bt_init\<rparr>"

definition logger_copy :: "logger \<Rightarrow> logger" where
  "logger_copy other = \<lparr>lg_name = lg_name other, lg_sinks = lg_sinks other, lg_level = lg_level other,
     lg_flush_level = lg_flush_level other, lg_custom_err_handler = lg_custom_err_handler other,
     lg_tracer = bt_copy (lg_tracer other)\<rparr>"

definition logger_swap :: "logger \<Rightarrow> logger \<Rightarrow> logger \<times> logger" where
  "logger_swap this other = (other, this)"

definition logger_clone :: "string \<Rightarrow> logger \<Rightarrow> logger" where
  "logger_clone logger_name this = (logger_copy this)\<lparr>lg_name := logger_name\<rparr>"

definition logger_set_level :: "level_enum \<Rightarrow> logger \<Rightarrow> logger" where
  "logger_set_level log_level lg = lg\<lparr>lg_level := log_level\<rparr>"

definition logger_flush_on :: "level_enum \<Rightarrow> logger \<Rightarrow> logger" where
  "logger_flush_on log_level lg = lg\<lparr>lg_flush_level := log_level\<rparr>"

text \<open>set_formatter gives each sink a copy of the formatter, the last one the formatter itself.\<close>

definition logger_set_formatter :: "nat \<Rightarrow> logger \<Rightarrow> log_world \<Rightarrow> log_world" where
  "logger_set_formatter f lg w = w\<lparr>lw_calls := lw_calls w @ map (\<lambda>s. Sink_Set_Formatter s f) (lg_sinks lg)\<rparr>"

definition logger_should_log :: "logger \<Rightarrow> level_enum \<Rightarrow> bool" where
  "logger_should_log lg msg_level = (msg_level \<ge> lg_level lg)"

definition logger_should_flush :: "logger \<Rightarrow> log_msg \<Rightarrow> bool" where
  "logger_should_flush lg msg = (lm_level msg \<ge> lg_flush_level lg \<and> lm_level msg \<noteq> Off)"

definition logger_enable_backtrace :: "nat \<Rightarrow> nat \<Rightarrow> logger \<Rightarrow> unit res \<times> logger" where
  "logger_enable_backtrace vmax n_messages lg =
     (let (r, t) = bt_enable vmax log_msg_default n_messages (lg_tracer lg) in (r, lg\<lparr>lg_tracer := t\<rparr>))"

definition logger_disable_backtrace :: "logger \<Rightarrow> logger" where
  "logger_disable_backtrace lg = lg\<lparr>lg_tracer := bt_disable (lg_tracer lg)\<rparr>"

text \<open>
  err_handler_: the custom handler, or a line on stderr, of which there is at most one in a
  second; the counter and the time of the last report are static, shared by all loggers.  A
  line is the counter, the time, the name of the logger and the message.
\<close>

definition logger_err_handler :: "sinks_env \<Rightarrow> logger \<Rightarrow> string \<Rightarrow> log_world \<Rightarrow> log_world" where
  "logger_err_handler be lg msg w =
     (if lg_custom_err_handler lg then w\<lparr>lw_handled := lw_handled w @ [msg]\<rparr>
      else
        (let now = be_now be (lw_calls w);
             w = w\<lparr>lw_err_counter := sz (lw_err_counter w + 1)\<rparr>
         in if now - lw_last_report w < 1000000000 then w
            else w\<lparr>lw_last_report := now,
                   lw_stderr := lw_stderr w @ [(lw_err_counter w, now, lg_name lg, msg)]\<rparr>))"

text \<open>SPDLOG_LOGGER_CATCH: what a logger does with an exception, and whether it throws on.\<close>

definition logger_catch :: "sinks_env \<Rightarrow> logger \<Rightarrow> exc option \<times> log_world \<Rightarrow> exc option \<times> log_world" where
  "logger_catch be lg r =
     (case r of
        (None, w) \<Rightarrow> (None, w)
      | (Some (Std_Exception what), w) \<Rightarrow> (None, logger_err_handler be lg what w)
      | (Some Unknown_Exception, w) \<Rightarrow>
          (Some Unknown_Exception, logger_err_handler be lg ''Rethrowing unknown exception in logger'' w)
      | (Some (Undefined f), w) \<Rightarrow> (Some (Undefined f), w))"

fun log_to_sinks :: "sinks_env \<Rightarrow> logger \<Rightarrow> log_msg \<Rightarrow> nat list \<Rightarrow> log_world \<Rightarrow> exc option \<times> log_world" where
  "log_to_sinks be lg msg [] w = (None, w)"
| "log_to_sinks be lg msg (s # ss) w =
     (if sink_should_log be w s (lm_level msg)
      then case logger_catch be lg (sink_log be s msg w) of
             (Some e, w) \<Rightarrow> (Some e, w)
           | (None, w) \<Rightarrow> log_to_sinks be lg msg ss w
      else log_to_sinks be lg msg ss w)"

fun flush_sinks :: "sinks_env \<Rightarrow> logger \<Rightarrow> nat list \<Rightarrow> log_world \<Rightarrow> exc option \<times> log_world" where
  "flush_sinks be lg [] w = (None, w)"
| "flush_sinks be lg (s # ss) w =
     (case logger_catch be lg (sink_flush be s w) of
        (Some e, w) \<Rightarrow> (Some e, w)
      | (None, w) \<Rightarrow> flush_sinks be lg ss w)"

definition logger_flush :: "sinks_env \<Rightarrow> logger \<Rightarrow> log_world \<Rightarrow> exc option \<times> log_world" where
  "logger_flush be lg w = flush_sinks be lg (lg_sinks lg) w"

definition logger_sink_it :: "sinks_env \<Rightarrow> logger \<Rightarrow> log_msg \<Rightarrow> log_world \<Rightarrow> exc option \<times> log_world" where
  "logger_sink_it be lg msg w =
     (case log_to_sinks be lg msg (lg_sinks lg) w of
        (Some e, w) \<Rightarrow> (Some e, w)
      | (None, w) \<Rightarrow> if logger_should_flush lg msg then logger_flush be lg w else (None, w))"

definition logger_log_it ::
    "sinks_env \<Rightarrow> log_msg \<Rightarrow> bool \<Rightarrow> bool \<Rightarrow> logger \<Rightarrow> log_world \<Rightarrow> exc option \<times> logger \<times> log_world" where
  "logger_log_it be msg log_enabled traceback_enabled lg w =
     (case (if log_enabled then logger_sink_it be lg msg w else (None, w)) of
        (Some e, w) \<Rightarrow> (Some e, lg, w)
      | (None, w) \<Rightarrow>
          if traceback_enabled
          then (case bt_push_back msg (lg_tracer lg) of
                  Inl f \<Rightarrow> (Some (Undefined f), lg, w)
                | Inr t \<Rightarrow> (None, lg\<lparr>lg_tracer := t\<rparr>, w))
          else (None, lg, w))"

text \<open>log with a text: the message has the time and the thread of the call.\<close>

definition make_log_msg :: "sinks_env \<Rightarrow> source_loc \<Rightarrow> string \<Rightarrow> level_enum \<Rightarrow> string \<Rightarrow> log_world \<Rightarrow> log_msg" where
  "make_log_msg be loc name lvl msg w =
     \<lparr>lm_logger_name = name, lm_level = lvl, lm_time = be_now be (lw_calls w), lm_thread_id = be_tid be (lw_calls w),
      lm_source = loc, lm_payload = msg\<rparr>"

definition logger_log ::
    "sinks_env \<Rightarrow> source_loc \<Rightarrow> level_enum \<Rightarrow> string \<Rightarrow> logger \<Rightarrow> log_world \<Rightarrow> exc option \<times> logger \<times> log_world" where
  "logger_log be loc lvl msg lg w =
     (let log_enabled = logger_should_log lg lvl; traceback_enabled = bt_enabled (lg_tracer lg)
      in if \<not> log_enabled \<and> \<not> traceback_enabled then (None, lg, w)
         else logger_log_it be (make_log_msg be loc (lg_name lg) lvl msg w) log_enabled traceback_enabled lg w)"

text \<open>
  log_ with a format and arguments: formatting is inside of the try block, so that the error
  of a bad format goes to the error handler.
\<close>

definition logger_log_fmt ::
    "sinks_env \<Rightarrow> source_loc \<Rightarrow> level_enum \<Rightarrow> exc + string \<Rightarrow> logger \<Rightarrow> log_world \<Rightarrow> exc option \<times> logger \<times> log_world" where
  "logger_log_fmt be loc lvl formatted lg w =
     (let log_enabled = logger_should_log lg lvl; traceback_enabled = bt_enabled (lg_tracer lg)
      in if \<not> log_enabled \<and> \<not> traceback_enabled then (None, lg, w)
         else
           (let (e, lg', w') =
                 (case formatted of
                    Inl e \<Rightarrow> (Some e, lg, w)
                  | Inr msg \<Rightarrow> logger_log_it be (make_log_msg be loc (lg_name lg) lvl msg w) log_enabled traceback_enabled lg w);
                (e, w') = logger_catch be lg' (e, w')
            in (e, lg', w')))"

definition logger_dump_backtrace :: "sinks_env \<Rightarrow> logger \<Rightarrow> log_world \<Rightarrow> exc option \<times> logger \<times> log_world" where
  "logger_dump_backtrace be lg w =
     (if bt_enabled (lg_tracer lg)
      then case logger_sink_it be lg (make_log_msg be no_source (lg_name lg) Info
                  ''****************** Backtrace Start ******************'' w) w of
             (Some e, w) \<Rightarrow> (Some e, lg, w)
           | (None, w) \<Rightarrow>
               (case bt_foreach_pop (logger_sink_it be lg) (lg_tracer lg) w of
                  (Some (Inl f), w, t) \<Rightarrow> (Some (Undefined f), lg\<lparr>lg_tracer := t\<rparr>, w)
                | (Some (Inr e), w, t) \<Rightarrow> (Some e, lg\<lparr>lg_tracer := t\<rparr>, w)
                | (None, w, t) \<Rightarrow>
                    (let lg = lg\<lparr>lg_tracer := t\<rparr>;
                         (e, w) = logger_sink_it be lg (make_log_msg be no_source (lg_name lg) Info
                           ''****************** Backtrace End ********************'' w) w
                     in (e, lg, w)))
      else (None, lg, w))"

section \<open>sinks/dist_sink.h and sinks/dup_filter_sink.h\<close>

text \<open>
  A dist_sink is its list of sinks.  It does not catch the exceptions of a sink, so the sinks
  after one that throws do not get the message.
\<close>

fun dist_sink_it :: "sinks_env \<Rightarrow> log_msg \<Rightarrow> nat list \<Rightarrow> log_world \<Rightarrow> exc option \<times> log_world" where
  "dist_sink_it be msg [] w = (None, w)"
| "dist_sink_it be msg (s # ss) w =
     (if sink_should_log be w s (lm_level msg)
      then case sink_log be s msg w of (Some e, w) \<Rightarrow> (Some e, w) | (None, w) \<Rightarrow> dist_sink_it be msg ss w
      else dist_sink_it be msg ss w)"

fun dist_flush :: "sinks_env \<Rightarrow> nat list \<Rightarrow> log_world \<Rightarrow> exc option \<times> log_world" where
  "dist_flush be [] w = (None, w)"
| "dist_flush be (s # ss) w =
     (case sink_flush be s w of (Some e, w) \<Rightarrow> (Some e, w) | (None, w) \<Rightarrow> dist_flush be ss w)"

definition dist_add_sink :: "nat \<Rightarrow> nat list \<Rightarrow> nat list" where
  "dist_add_sink s sinks = sinks @ [s]"

definition dist_remove_sink :: "nat \<Rightarrow> nat list \<Rightarrow> nat list" where
  "dist_remove_sink s sinks = filter (\<lambda>x. x \<noteq> s) sinks"

definition dist_set_sinks :: "nat list \<Rightarrow> nat list \<Rightarrow> nat list" where
  "dist_set_sinks new sinks = new"

text \<open>Durations in microseconds are compared with times in nanoseconds.\<close>

record dup_filter =
  df_sinks :: "nat list"
  df_max_skip_duration :: int
  df_last_msg_time :: int
  df_last_msg_payload :: string
  df_skip_counter :: nat

definition dup_filter_new :: "int \<Rightarrow> dup_filter" where
  "dup_filter_new max_skip_duration = \<lparr>df_sinks = [], df_max_skip_duration = max_skip_duration,
     df_last_msg_time = 0, df_last_msg_payload = [], df_skip_counter = 0\<rparr>"

definition dup_filter_pass :: "dup_filter \<Rightarrow> log_msg \<Rightarrow> bool" where
  "dup_filter_pass df msg =
     (lm_time msg - df_last_msg_time df > df_max_skip_duration df * 1000 \<or> lm_payload msg \<noteq> df_last_msg_payload df)"

definition skipped_text :: "nat \<Rightarrow> string" where
  "skipped_text n = ''Skipped '' @ digit_string (n mod 2 ^ 32) @ '' duplicate messages..''"

definition dup_filter_sink_it :: "sinks_env \<Rightarrow> log_msg \<Rightarrow> dup_filter \<Rightarrow> log_world \<Rightarrow> exc option \<times> dup_filter \<times> log_world" where
  "dup_filter_sink_it be msg df w =
     (if \<not> dup_filter_pass df msg then (None, df\<lparr>df_skip_counter := sz (df_skip_counter df + 1)\<rparr>, w)
      else
        (let buf = skipped_text (df_skip_counter df);
             r = (if df_skip_counter df > 0 \<and> length buf < 64
                  then dist_sink_it be (make_log_msg be no_source (lm_logger_name msg) Info buf w) (df_sinks df) w
                  else (None, w))
         in case r of
              (Some e, w) \<Rightarrow> (Some e, df, w)
            | (None, w) \<Rightarrow>
                (case dist_sink_it be msg (df_sinks df) w of
                   (Some e, w) \<Rightarrow> (Some e, df, w)
                 | (None, w) \<Rightarrow>
                     (None, df\<lparr>df_last_msg_time := lm_time msg, df_skip_counter := 0,
                               df_last_msg_payload := lm_payload msg\<rparr>, w))))"

text \<open>
  The example in the header of dup_filter_sink.h, three times Hello and then another text:
  the notice speaks of 2 messages.
\<close>

definition hello :: "string \<Rightarrow> log_msg" where
  "hello t = \<lparr>lm_logger_name = ''logger'', lm_level = Info, lm_time = 2000000000, lm_thread_id = 1,
     lm_source = no_source, lm_payload = t\<rparr>"

definition quiet_env :: sinks_env where
  "quiet_env = \<lparr>be_level = (\<lambda>_ _. Trace), be_log = (\<lambda>_ _ _. None), be_flush = (\<lambda>_ _. None),
     be_now = (\<lambda>_. 2000000000), be_tid = (\<lambda>_. 1)\<rparr>"

definition empty_world :: log_world where
  "empty_world = \<lparr>lw_calls = [], lw_handled = [], lw_err_counter = 0, lw_last_report = 0, lw_stderr = []\<rparr>"

fun dup_filter_run :: "sinks_env \<Rightarrow> log_msg list \<Rightarrow> dup_filter \<Rightarrow> log_world \<Rightarrow> dup_filter \<times> log_world" where
  "dup_filter_run be [] df w = (df, w)"
| "dup_filter_run be (m # ms) df w = (let (e, df, w) = dup_filter_sink_it be m df w in dup_filter_run be ms df w)"

lemma digit_string_2: "digit_string (Suc (Suc 0)) = ''2''"
  by code_simp

lemma dup_filter_example:
  "lw_calls (snd (dup_filter_run quiet_env [hello ''Hello'', hello ''Hello'', hello ''Hello'', hello ''Different Hello'']
      ((dup_filter_new 5000000)\<lparr>df_sinks := [0]\<rparr>) empty_world)) =
   [Sink_Log 0 (hello ''Hello''), Sink_Log 0 (hello ''Skipped 2 duplicate messages..''),
    Sink_Log 0 (hello ''Different Hello'')]"
  by (simp add: dup_filter_sink_it_def dup_filter_pass_def dup_filter_new_def hello_def empty_world_def quiet_env_def
      sink_should_log_def sink_log_def make_log_msg_def skipped_text_def sz_def digit_string_2
      less_eq_level_enum_def less_level_enum_def)

section \<open>Delivery\<close>

text \<open>The exceptions that the sinks answer with are all derived from std::exception.\<close>

definition std_exceptions_only :: "sinks_env \<Rightarrow> bool" where
  "std_exceptions_only be \<longleftrightarrow>
     (\<forall>cs s m e. be_log be cs s m = Some e \<longrightarrow> (\<exists>t. e = Std_Exception t)) \<and>
     (\<forall>cs s e. be_flush be cs s = Some e \<longrightarrow> (\<exists>t. e = Std_Exception t))"

text \<open>No sink changes its level.\<close>

definition levels_fixed :: "sinks_env \<Rightarrow> (nat \<Rightarrow> level_enum) \<Rightarrow> bool" where
  "levels_fixed be lv \<longleftrightarrow> (\<forall>cs s. be_level be cs s = lv s)"

definition log_calls :: "(nat \<Rightarrow> level_enum) \<Rightarrow> nat list \<Rightarrow> log_msg \<Rightarrow> sink_call list" where
  "log_calls lv sinks msg = map (\<lambda>s. Sink_Log s msg) (filter (\<lambda>s. lv s \<le> lm_level msg) sinks)"

definition delivery_calls :: "(nat \<Rightarrow> level_enum) \<Rightarrow> logger \<Rightarrow> log_msg \<Rightarrow> sink_call list" where
  "delivery_calls lv lg msg =
     log_calls lv (lg_sinks lg) msg @ (if logger_should_flush lg msg then map Sink_Flush (lg_sinks lg) else [])"

lemma err_handler_calls [simp]: "lw_calls (logger_err_handler be lg t w) = lw_calls w"
  by (simp add: logger_err_handler_def Let_def)

lemma logger_catch_std:
  assumes "\<And>e. fst r = Some e \<Longrightarrow> \<exists>t. e = Std_Exception t"
  obtains w where "logger_catch be lg r = (None, w)" "lw_calls w = lw_calls (snd r)"
proof (cases r)
  case (Pair x w)
  then show thesis
    using assms that by (cases x) (fastforce simp: logger_catch_def)+
qed

lemma log_to_sinks_calls:
  assumes "std_exceptions_only be" "levels_fixed be lv"
  shows "\<exists>w'. log_to_sinks be lg msg sinks w = (None, w') \<and> lw_calls w' = lw_calls w @ log_calls lv sinks msg"
proof (induction sinks arbitrary: w)
  case Nil
  then show ?case by (simp add: log_calls_def)
next
  case (Cons s ss)
  show ?case
  proof (cases "lv s \<le> lm_level msg")
    case True
    obtain w1 where "logger_catch be lg (sink_log be s msg w) = (None, w1)"
      "lw_calls w1 = lw_calls w @ [Sink_Log s msg]"
      using logger_catch_std [of "sink_log be s msg w" be lg] assms(1)
      by (force simp: sink_log_def std_exceptions_only_def)
    then show ?thesis
      using Cons.IH [of w1] True assms(2) by (auto simp: sink_should_log_def levels_fixed_def log_calls_def)
  next
    case False
    then show ?thesis
      using Cons.IH [of w] assms(2) by (auto simp: sink_should_log_def levels_fixed_def log_calls_def)
  qed
qed

lemma flush_sinks_calls:
  assumes "std_exceptions_only be"
  shows "\<exists>w'. flush_sinks be lg sinks w = (None, w') \<and> lw_calls w' = lw_calls w @ map Sink_Flush sinks"
proof (induction sinks arbitrary: w)
  case (Cons s ss)
  obtain w1 where "logger_catch be lg (sink_flush be s w) = (None, w1)" "lw_calls w1 = lw_calls w @ [Sink_Flush s]"
    using logger_catch_std [of "sink_flush be s w" be lg] assms
    by (force simp: sink_flush_def std_exceptions_only_def)
  then show ?case
    using Cons.IH [of w1] by auto
qed simp

lemma logger_sink_it_calls:
  assumes "std_exceptions_only be" "levels_fixed be lv"
  obtains w' where "logger_sink_it be lg msg w = (None, w')" "lw_calls w' = lw_calls w @ delivery_calls lv lg msg"
proof -
  obtain w1 where w1: "log_to_sinks be lg msg (lg_sinks lg) w = (None, w1)"
    "lw_calls w1 = lw_calls w @ log_calls lv (lg_sinks lg) msg"
    using log_to_sinks_calls [OF assms] by blast
  show thesis
  proof (cases "logger_should_flush lg msg")
    case True
    obtain w2 where "flush_sinks be lg (lg_sinks lg) w1 = (None, w2)" "lw_calls w2 = lw_calls w1 @ map Sink_Flush (lg_sinks lg)"
      using flush_sinks_calls [OF assms(1)] by blast
    then show ?thesis
      using that [of w2] w1 True by (simp add: logger_sink_it_def logger_flush_def delivery_calls_def)
  next
    case False
    then show ?thesis
      using that [of w1] w1 by (simp add: logger_sink_it_def delivery_calls_def)
  qed
qed

text \<open>What the tracer of a logger keeps.\<close>

definition tracer_ok :: "nat \<Rightarrow> logger \<Rightarrow> log_msg list \<Rightarrow> bool" where
  "tracer_ok n lg ms \<longleftrightarrow>
     bt_enabled (lg_tracer lg) \<and> cq_ok (bt_messages (lg_tracer lg)) \<and> cq_cap (bt_messages (lg_tracer lg)) = n \<and>
     cq_list (bt_messages (lg_tracer lg)) = last_n n ms"

lemma tracer_push:
  assumes "tracer_ok n lg ms"
  obtains t where "bt_push_back m (lg_tracer lg) = Inr t" "tracer_ok n (lg\<lparr>lg_tracer := t\<rparr>) (ms @ [m])"
proof -
  have ok: "cq_ok (bt_messages (lg_tracer lg))" using assms by (simp add: tracer_ok_def)
  obtain q' where "cq_push_back m (bt_messages (lg_tracer lg)) = Inr q'" "cq_ok q'"
    "max_items q' = max_items (bt_messages (lg_tracer lg))"
    "cq_list q' = last_n (cq_cap (bt_messages (lg_tracer lg))) (cq_list (bt_messages (lg_tracer lg)) @ [m])"
    using ok by (rule cq_push)
  then show thesis
    using assms that by (simp add: bt_push_back_def tracer_ok_def cq_cap_def last_n_snoc)
qed

text \<open>Several texts logged one after the other at a level.\<close>

fun log_texts :: "sinks_env \<Rightarrow> level_enum \<Rightarrow> string list \<Rightarrow> logger \<Rightarrow> log_world \<Rightarrow> exc option list \<times> logger \<times> log_world" where
  "log_texts be lvl [] lg w = ([], lg, w)"
| "log_texts be lvl (t # ts) lg w =
     (let (e, lg, w) = logger_log be no_source lvl t lg w; (es, lg, w) = log_texts be lvl ts lg w in (e # es, lg, w))"

lemma log_below_level:
  assumes "tracer_ok n lg ms" "\<not> logger_should_log lg lvl"
  shows "\<exists>lg'. logger_log be no_source lvl t lg w = (None, lg', w) \<and>
    tracer_ok n lg' (ms @ [make_log_msg be no_source (lg_name lg) lvl t w]) \<and>
    lg_name lg' = lg_name lg \<and> lg_sinks lg' = lg_sinks lg \<and> lg_level lg' = lg_level lg \<and> lg_flush_level lg' = lg_flush_level lg"
proof -
  obtain tr where "bt_push_back (make_log_msg be no_source (lg_name lg) lvl t w) (lg_tracer lg) = Inr tr"
    "tracer_ok n (lg\<lparr>lg_tracer := tr\<rparr>) (ms @ [make_log_msg be no_source (lg_name lg) lvl t w])"
    using tracer_push [OF assms(1)] .
  moreover have "bt_enabled (lg_tracer lg)" using assms(1) by (simp add: tracer_ok_def)
  ultimately show ?thesis
    using assms(2) by (simp add: logger_log_def logger_log_it_def)
qed

lemma log_texts_below_level:
  assumes "tracer_ok n lg ms" "\<not> logger_should_log lg lvl"
  shows "\<exists>lg'. log_texts be lvl ts lg w = (replicate (length ts) None, lg', w) \<and>
    tracer_ok n lg' (ms @ map (\<lambda>t. make_log_msg be no_source (lg_name lg) lvl t w) ts) \<and>
    lg_name lg' = lg_name lg \<and> lg_sinks lg' = lg_sinks lg \<and> lg_level lg' = lg_level lg \<and> lg_flush_level lg' = lg_flush_level lg"
  using assms
proof (induction ts arbitrary: lg ms)
  case (Cons t ts)
  obtain lg1 where lg1: "logger_log be no_source lvl t lg w = (None, lg1, w)"
    "tracer_ok n lg1 (ms @ [make_log_msg be no_source (lg_name lg) lvl t w])"
    "lg_name lg1 = lg_name lg" "lg_sinks lg1 = lg_sinks lg" "lg_level lg1 = lg_level lg" "lg_flush_level lg1 = lg_flush_level lg"
    using log_below_level [OF Cons.prems] by blast
  have "\<not> logger_should_log lg1 lvl" using Cons.prems(2) lg1(5) by (simp add: logger_should_log_def)
  from Cons.IH [OF lg1(2) this] show ?case
    using lg1 by auto
qed simp

lemma apply_until_sinks:
  assumes "std_exceptions_only be" "levels_fixed be lv"
  shows "\<exists>w'. apply_until (logger_sink_it be lg) ms w = (None, w', []) \<and>
    lw_calls w' = lw_calls w @ concat (map (delivery_calls lv lg) ms)"
proof (induction ms arbitrary: w)
  case (Cons m ms)
  obtain w1 where "logger_sink_it be lg m w = (None, w1)" "lw_calls w1 = lw_calls w @ delivery_calls lv lg m"
    using assms by (rule logger_sink_it_calls)
  then show ?case
    using Cons.IH [of w1] by auto
qed simp

lemma delivery_calls_tracer [simp]: "delivery_calls lv (lg\<lparr>lg_tracer := t\<rparr>) m = delivery_calls lv lg m"
  by (simp add: delivery_calls_def logger_should_flush_def)

lemma dump_backtrace_calls:
  assumes "std_exceptions_only be" "levels_fixed be lv" "tracer_ok n lg ms"
  shows "\<exists>lg' w' a b. logger_dump_backtrace be lg w = (None, lg', w') \<and> tracer_ok n lg' [] \<and>
    lm_payload a = ''****************** Backtrace Start ******************'' \<and> lm_level a = Info \<and>
    lm_payload b = ''****************** Backtrace End ********************'' \<and> lm_level b = Info \<and>
    lw_calls w' = lw_calls w @ concat (map (delivery_calls lv lg) (a # last_n n ms @ [b]))"
proof -
  let ?a = "make_log_msg be no_source (lg_name lg) Info ''****************** Backtrace Start ******************'' w"
  have en: "bt_enabled (lg_tracer lg)" "cq_ok (bt_messages (lg_tracer lg))"
    "cq_list (bt_messages (lg_tracer lg)) = last_n n ms" "cq_cap (bt_messages (lg_tracer lg)) = n"
    using assms(3) by (simp_all add: tracer_ok_def)
  obtain w1 where w1: "logger_sink_it be lg ?a w = (None, w1)" "lw_calls w1 = lw_calls w @ delivery_calls lv lg ?a"
    using assms(1,2) by (rule logger_sink_it_calls)
  obtain w2 where w2: "apply_until (logger_sink_it be lg) (last_n n ms) w1 = (None, w2, [])"
    "lw_calls w2 = lw_calls w1 @ concat (map (delivery_calls lv lg) (last_n n ms))"
    using apply_until_sinks [OF assms(1,2)] by blast
  obtain t where t: "bt_foreach_pop (logger_sink_it be lg) (lg_tracer lg) w1 = (None, w2, t)"
    "cq_ok (bt_messages t)" "cq_list (bt_messages t) = []" "bt_enabled t = bt_enabled (lg_tracer lg)"
    "max_items (bt_messages t) = max_items (bt_messages (lg_tracer lg))"
    using bt_foreach_pop_spec [OF en(2), of "logger_sink_it be lg" w1 None w2 "[]"] w2(1) en(3) by auto
  define lg1 where "lg1 = lg\<lparr>lg_tracer := t\<rparr>"
  let ?b = "make_log_msg be no_source (lg_name lg1) Info ''****************** Backtrace End ********************'' w2"
  obtain w3 where w3: "logger_sink_it be lg1 ?b w2 = (None, w3)" "lw_calls w3 = lw_calls w2 @ delivery_calls lv lg1 ?b"
    using assms(1,2) by (rule logger_sink_it_calls)
  have "logger_dump_backtrace be lg w = (None, lg1, w3)"
    using en(1) w1(1) t(1) w3(1) by (simp add: logger_dump_backtrace_def Let_def lg1_def)
  moreover have "tracer_ok n lg1 []"
    using t en by (simp add: tracer_ok_def lg1_def cq_cap_def)
  moreover have "lw_calls w3 = lw_calls w @ concat (map (delivery_calls lv lg) (?a # last_n n ms @ [?b]))"
    using w1(2) w2(2) w3(2) by (simp add: lg1_def)
  ultimately show ?thesis
    by (intro exI [of _ lg1] exI [of _ w3] exI [of _ ?a] exI [of _ ?b]) (simp add: make_log_msg_def)
qed

section \<open>Properties\<close>

text \<open>C28: A logger delivers an enabled message to every sink that wants it, in order and once,
  whichever sinks fail.  With sinks that only throw exceptions derived from std::exception,
  log returns without one; each sink whose level admits the message has been called with it,
  with the name, level and text of the call, and then every sink is flushed if the level asks
  for it.\<close>

theorem logger_delivers_to_every_sink:
  assumes "std_exceptions_only be" "levels_fixed be lv" "logger_should_log lg lvl" "\<not> bt_enabled (lg_tracer lg)"
  shows "\<exists>w' msg. logger_log be loc lvl text lg w = (None, lg, w') \<and>
    lm_payload msg = text \<and> lm_level msg = lvl \<and> lm_logger_name msg = lg_name lg \<and>
    lw_calls w' = lw_calls w @ map (\<lambda>s. Sink_Log s msg) (filter (\<lambda>s. lv s \<le> lvl) (lg_sinks lg)) @
      (if lg_flush_level lg \<le> lvl \<and> lvl \<noteq> Off then map Sink_Flush (lg_sinks lg) else [])"
proof -
  let ?msg = "make_log_msg be loc (lg_name lg) lvl text w"
  obtain w' where "logger_sink_it be lg ?msg w = (None, w')" "lw_calls w' = lw_calls w @ delivery_calls lv lg ?msg"
    using assms(1,2) by (rule logger_sink_it_calls)
  then show ?thesis
    using assms(3,4)
    by (intro exI [of _ w'] exI [of _ ?msg])
      (simp add: logger_log_def logger_log_it_def delivery_calls_def log_calls_def logger_should_flush_def make_log_msg_def)
qed

text \<open>A logger with two sinks of which the first always throws.\<close>

definition failing_env :: sinks_env where
  "failing_env = quiet_env\<lparr>be_log := (\<lambda>_ s _. if s = 0 then Some (Std_Exception ''disk full'') else None)\<rparr>"

theorem logger_delivers_to_every_sink_witness:
  "\<exists>w' msg. logger_log failing_env no_source Err ''x'' (logger_new ''log'' [0, 1]) empty_world =
      (None, logger_new ''log'' [0, 1], w') \<and> lm_payload msg = ''x'' \<and>
    lw_calls w' = [Sink_Log 0 msg, Sink_Log 1 msg]"
proof -
  have "std_exceptions_only failing_env" "levels_fixed failing_env (\<lambda>_. Trace)"
    by (simp_all add: std_exceptions_only_def levels_fixed_def failing_env_def quiet_env_def)
  then show ?thesis
    using logger_delivers_to_every_sink [of failing_env "\<lambda>_. Trace" "logger_new ''log'' [0, 1]" Err no_source "''x''" empty_world]
    by (auto simp: logger_new_def logger_should_log_def bt_init_def empty_world_def less_eq_level_enum_def)
qed



end
