(* ===== verification/LogRegistry.thy ===== *)
theory LogRegistry
  imports Loggers
begin

text \<open>
  details/registry-inl.h, which the functions of spdlog-inl.h call, and cfg/helpers-inl.h,
  which sets the levels of the loggers from a text such as ''off,net=debug''.

  Loggers are shared: a logger is a number, rg_heap says what it is now, and the map of the
  registry and its default logger are such numbers.
\<close>

section \<open>details/registry-inl.h\<close>

record registry =
  rg_heap :: "nat \<Rightarrow> logger"
  rg_loggers :: "(string \<times> nat) list"
  rg_log_levels :: "(string \<times> level_enum) list"
  rg_formatter :: nat
  rg_global_log_level :: level_enum
  rg_flush_level :: level_enum
  rg_err_handler :: bool
  rg_default_logger :: "nat option"
  rg_automatic_registration :: bool
  rg_backtrace_n_messages :: nat
  rg_tp :: "nat option"
  rg_periodic_flusher :: "int option"

definition rg_name :: "registry \<Rightarrow> nat \<Rightarrow> string" where
  "rg_name rg p = lg_name (rg_heap rg p)"

definition rg_modify :: "nat \<Rightarrow> (logger \<Rightarrow> logger) \<Rightarrow> registry \<Rightarrow> registry" where
  "rg_modify p f rg = rg\<lparr>rg_heap := (rg_heap rg)(p := f (rg_heap rg p))\<rparr>"

text \<open>The loop over the loggers of the map.\<close>

definition rg_for_all :: "(logger \<Rightarrow> logger) \<Rightarrow> registry \<Rightarrow> registry" where
  "rg_for_all f rg = foldl (\<lambda>rg (k, p). rg_modify p f rg) rg (rg_loggers rg)"

text \<open>The constructor registers the default logger p, whose name is empty.\<close>

definition registry_new :: "nat \<Rightarrow> nat \<Rightarrow> (nat \<Rightarrow> logger) \<Rightarrow> nat \<Rightarrow> registry" where
  "registry_new p color_sink heap f =
     \<lparr>rg_heap = heap(p := logger_new [] [color_sink]), rg_loggers = [([], p)], rg_log_levels = [],
      rg_formatter = f, rg_global_log_level = Info, rg_flush_level = Off, rg_err_handler = False,
      rg_default_logger = Some p, rg_automatic_registration = True, rg_backtrace_n_messages = 0, rg_tp = None,
      rg_periodic_flusher = None\<rparr>"

definition register_logger :: "nat \<Rightarrow> registry \<Rightarrow> unit res \<times> registry" where
  "register_logger p rg =
     (let logger_name = rg_name rg p
      in if map_find (rg_loggers rg) logger_name \<noteq> None then (Inl Uncaught_Exception, rg)
         else (Inr (), rg\<lparr>rg_loggers := map_put logger_name p (rg_loggers rg)\<rparr>))"

definition rg_get :: "string \<Rightarrow> registry \<Rightarrow> nat option" where
  "rg_get logger_name rg = map_find (rg_loggers rg) logger_name"

definition initialize_logger :: "nat \<Rightarrow> nat \<Rightarrow> registry \<Rightarrow> log_world \<Rightarrow> unit res \<times> registry \<times> log_world" where
  "initialize_logger vmax p rg w =
     (let w = logger_set_formatter (rg_formatter rg) (rg_heap rg p) w;
          rg = (if rg_err_handler rg then rg_modify p (\<lambda>l. l\<lparr>lg_custom_err_handler := True\<rparr>) rg else rg);
          new_level = (case map_find (rg_log_levels rg) (rg_name rg p) of
                         Some l \<Rightarrow> l | None \<Rightarrow> rg_global_log_level rg);
          rg = rg_modify p (logger_set_level new_level) rg;
          rg = rg_modify p (logger_flush_on (rg_flush_level rg)) rg;
          (r, rg) =
            (if rg_backtrace_n_messages rg > 0
             then (let (r, l) = logger_enable_backtrace vmax (rg_backtrace_n_messages rg) (rg_heap rg p)
                   in (r, rg_modify p (\<lambda>_. l) rg))
             else (Inr (), rg))
      in case r of
           Inl e \<Rightarrow> (Inl e, rg, w)
         | Inr _ \<Rightarrow>
             (if rg_automatic_registration rg
              then (let (r, rg) = register_logger p rg in (r, rg, w)) else (Inr (), rg, w)))"

definition set_default_logger :: "nat option \<Rightarrow> registry \<Rightarrow> registry" where
  "set_default_logger new_default_logger rg =
     (let rg = (case rg_default_logger rg of
                  None \<Rightarrow> rg | Some p \<Rightarrow> rg\<lparr>rg_loggers := map_erase (rg_name rg p) (rg_loggers rg)\<rparr>);
          rg = (case new_default_logger of
                  None \<Rightarrow> rg | Some p \<Rightarrow> rg\<lparr>rg_loggers := map_put (rg_name rg p) p (rg_loggers rg)\<rparr>)
      in rg\<lparr>rg_default_logger := new_default_logger\<rparr>)"

definition rg_set_formatter :: "nat \<Rightarrow> registry \<Rightarrow> log_world \<Rightarrow> registry \<times> log_world" where
  "rg_set_formatter f rg w =
     (rg\<lparr>rg_formatter := f\<rparr>, foldl (\<lambda>w (k, p). logger_set_formatter f (rg_heap rg p) w) w (rg_loggers rg))"

text \<open>enable_backtrace stops at a logger whose queue cannot be made.\<close>

fun rg_backtrace_loop :: "nat \<Rightarrow> nat \<Rightarrow> (string \<times> nat) list \<Rightarrow> registry \<Rightarrow> unit res \<times> registry" where
  "rg_backtrace_loop vmax n [] rg = (Inr (), rg)"
| "rg_backtrace_loop vmax n ((k, p) # ls) rg =
     (case logger_enable_backtrace vmax n (rg_heap rg p) of
        (Inl e, l) \<Rightarrow> (Inl e, rg_modify p (\<lambda>_. l) rg)
      | (Inr _, l) \<Rightarrow> rg_backtrace_loop vmax n ls (rg_modify p (\<lambda>_. l) rg))"

definition rg_enable_backtrace :: "nat \<Rightarrow> nat \<Rightarrow> registry \<Rightarrow> unit res \<times> registry" where
  "rg_enable_backtrace vmax n_messages rg =
     rg_backtrace_loop vmax n_messages (rg_loggers rg) (rg\<lparr>rg_backtrace_n_messages := n_messages\<rparr>)"

definition rg_disable_backtrace :: "registry \<Rightarrow> registry" where
  "rg_disable_backtrace rg = rg_for_all logger_disable_backtrace (rg\<lparr>rg_backtrace_n_messages := 0\<rparr>)"

definition rg_set_level :: "level_enum \<Rightarrow> registry \<Rightarrow> registry" where
  "rg_set_level log_level rg = (rg_for_all (logger_set_level log_level) rg)\<lparr>rg_global_log_level := log_level\<rparr>"

definition rg_flush_on :: "level_enum \<Rightarrow> registry \<Rightarrow> registry" where
  "rg_flush_on log_level rg = (rg_for_all (logger_flush_on log_level) rg)\<lparr>rg_flush_level := log_level\<rparr>"

definition rg_set_error_handler :: "bool \<Rightarrow> registry \<Rightarrow> registry" where
  "rg_set_error_handler handler rg =
     (rg_for_all (\<lambda>l. l\<lparr>lg_custom_err_handler := handler\<rparr>) rg)\<lparr>rg_err_handler := handler\<rparr>"

definition rg_apply_all :: "(logger \<Rightarrow> logger) \<Rightarrow> registry \<Rightarrow> registry" where
  "rg_apply_all f rg = rg_for_all f rg"

fun flush_loggers :: "sinks_env \<Rightarrow> logger list \<Rightarrow> log_world \<Rightarrow> exc option \<times> log_world" where
  "flush_loggers be [] w = (None, w)"
| "flush_loggers be (l # ls) w =
     (case logger_flush be l w of (Some e, w) \<Rightarrow> (Some e, w) | (None, w) \<Rightarrow> flush_loggers be ls w)"

definition rg_flush_all :: "sinks_env \<Rightarrow> registry \<Rightarrow> log_world \<Rightarrow> exc option \<times> log_world" where
  "rg_flush_all be rg w = flush_loggers be (map (\<lambda>(k, p). rg_heap rg p) (rg_loggers rg)) w"

definition rg_drop :: "string \<Rightarrow> registry \<Rightarrow> registry" where
  "rg_drop logger_name rg =
     (let rg = rg\<lparr>rg_loggers := map_erase logger_name (rg_loggers rg)\<rparr>
      in case rg_default_logger rg of
           Some p \<Rightarrow> if rg_name rg p = logger_name then rg\<lparr>rg_default_logger := None\<rparr> else rg
         | None \<Rightarrow> rg)"

definition rg_drop_all :: "registry \<Rightarrow> registry" where
  "rg_drop_all rg = rg\<lparr>rg_loggers := [], rg_default_logger := None\<rparr>"

definition rg_set_tp :: "nat option \<Rightarrow> registry \<Rightarrow> registry" where
  "rg_set_tp tp rg = rg\<lparr>rg_tp := tp\<rparr>"

text \<open>
  flush_every replaces the periodic flusher: a thread that calls flush_all, of which the
  registry keeps the interval here.
\<close>

definition rg_flush_every :: "int \<Rightarrow> registry \<Rightarrow> registry" where
  "rg_flush_every interval rg = rg\<lparr>rg_periodic_flusher := Some interval\<rparr>"

definition rg_shutdown :: "registry \<Rightarrow> registry" where
  "rg_shutdown rg = (rg_drop_all (rg\<lparr>rg_periodic_flusher := None\<rparr>))\<lparr>rg_tp := None\<rparr>"

definition rg_set_automatic_registration :: "bool \<Rightarrow> registry \<Rightarrow> registry" where
  "rg_set_automatic_registration automatic rg = rg\<lparr>rg_automatic_registration := automatic\<rparr>"

definition rg_set_levels :: "(string \<times> level_enum) list \<Rightarrow> level_enum option \<Rightarrow> registry \<Rightarrow> registry" where
  "rg_set_levels levels global_level rg =
     (let rg = rg\<lparr>rg_log_levels := levels,
                  rg_global_log_level := (case global_level of Some l \<Rightarrow> l | None \<Rightarrow> rg_global_log_level rg)\<rparr>
      in foldl (\<lambda>rg (k, p).
           case map_find levels k of
             Some l \<Rightarrow> rg_modify p (logger_set_level l) rg
           | None \<Rightarrow> (case global_level of Some l \<Rightarrow> rg_modify p (logger_set_level l) rg | None \<Rightarrow> rg))
         rg (rg_loggers rg))"

section \<open>The registry stays consistent\<close>

text \<open>Each logger of the map is there under its name, and the default logger is one of them.\<close>

definition rg_ok :: "registry \<Rightarrow> bool" where
  "rg_ok rg \<longleftrightarrow>
     map_ok (rg_loggers rg) \<and> (\<forall>k p. map_find (rg_loggers rg) k = Some p \<longrightarrow> rg_name rg p = k) \<and>
     (\<forall>p. rg_default_logger rg = Some p \<longrightarrow> map_find (rg_loggers rg) (rg_name rg p) = Some p)"

datatype rg_op =
    Register nat
  | Initialize nat
  | Set_Default "nat option"
  | Set_Formatter nat
  | Enable_Backtrace nat
  | Disable_Backtrace
  | Set_Level level_enum
  | Flush_On level_enum
  | Set_Error_Handler bool
  | Drop string
  | Drop_All
  | Set_Automatic_Registration bool
  | Set_Levels "(string \<times> level_enum) list" "level_enum option"
  | Set_Tp "nat option"
  | Flush_Every int
  | Shutdown

fun rg_step :: "nat \<Rightarrow> rg_op \<Rightarrow> registry \<times> log_world \<Rightarrow> registry \<times> log_world" where
  "rg_step vmax (Register p) (rg, w) = (snd (register_logger p rg), w)"
| "rg_step vmax (Initialize p) (rg, w) = snd (initialize_logger vmax p rg w)"
| "rg_step vmax (Set_Default p) (rg, w) = (set_default_logger p rg, w)"
| "rg_step vmax (Set_Formatter f) (rg, w) = rg_set_formatter f rg w"
| "rg_step vmax (Enable_Backtrace n) (rg, w) = (snd (rg_enable_backtrace vmax n rg), w)"
| "rg_step vmax Disable_Backtrace (rg, w) = (rg_disable_backtrace rg, w)"
| "rg_step vmax (Set_Level l) (rg, w) = (rg_set_level l rg, w)"
| "rg_step vmax (Flush_On l) (rg, w) = (rg_flush_on l rg, w)"
| "rg_step vmax (Set_Error_Handler h) (rg, w) = (rg_set_error_handler h rg, w)"
| "rg_step vmax (Drop name) (rg, w) = (rg_drop name rg, w)"
| "rg_step vmax Drop_All (rg, w) = (rg_drop_all rg, w)"
| "rg_step vmax (Set_Automatic_Registration b) (rg, w) = (rg_set_automatic_registration b rg, w)"
| "rg_step vmax (Set_Levels levels g) (rg, w) = (rg_set_levels levels g rg, w)"
| "rg_step vmax (Set_Tp tp) (rg, w) = (rg_set_tp tp rg, w)"
| "rg_step vmax (Flush_Every interval) (rg, w) = (rg_flush_every interval rg, w)"
| "rg_step vmax Shutdown (rg, w) = (rg_shutdown rg, w)"

text \<open>A change of the heap that keeps the names, and leaves the map and the default alone.\<close>

definition keeps_names :: "registry \<Rightarrow> registry \<Rightarrow> bool" where
  "keeps_names rg rg' \<longleftrightarrow>
     (\<forall>p. rg_name rg' p = rg_name rg p) \<and> rg_loggers rg' = rg_loggers rg \<and> rg_default_logger rg' = rg_default_logger rg"

lemma keeps_names_ok: "keeps_names rg rg' \<Longrightarrow> rg_ok rg \<Longrightarrow> rg_ok rg'"
  by (simp add: keeps_names_def rg_ok_def)

lemma keeps_names_trans: "keeps_names a b \<Longrightarrow> keeps_names b c \<Longrightarrow> keeps_names a c"
  by (simp add: keeps_names_def)

lemma keeps_names_refl [simp]: "keeps_names rg rg"
  by (simp add: keeps_names_def)

lemma keeps_names_modify: "lg_name (f (rg_heap rg p)) = rg_name rg p \<Longrightarrow> keeps_names rg (rg_modify p f rg)"
  by (simp add: keeps_names_def rg_name_def rg_modify_def)

lemma keeps_names_fold:
  assumes "\<And>rg x. x \<in> set xs \<Longrightarrow> keeps_names rg (f rg x)"
  shows "keeps_names rg (foldl f rg xs)"
  using assms
proof (induction xs arbitrary: rg)
  case (Cons x xs)
  then show ?case
    using keeps_names_trans [of rg "f rg x"] by simp
qed simp

lemma keeps_names_for_all: "(\<And>l. lg_name (f l) = lg_name l) \<Longrightarrow> keeps_names rg (rg_for_all f rg)"
  unfolding rg_for_all_def
  by (rule keeps_names_fold) (auto intro!: keeps_names_modify simp: rg_name_def)

lemma logger_names [simp]:
  "lg_name (logger_set_level l lg) = lg_name lg" "lg_name (logger_flush_on l lg) = lg_name lg"
  "lg_name (logger_disable_backtrace lg) = lg_name lg"
  "lg_name (snd (logger_enable_backtrace vmax n lg)) = lg_name lg"
  by (simp_all add: logger_set_level_def logger_flush_on_def logger_disable_backtrace_def
      logger_enable_backtrace_def split_beta)

lemma keeps_names_backtrace: "keeps_names rg (snd (rg_backtrace_loop vmax n ls rg))"
proof (induction ls arbitrary: rg)
  case (Cons a ls)
  obtain k p where a: "a = (k, p)" by fastforce
  obtain r l where e: "logger_enable_backtrace vmax n (rg_heap rg p) = (r, l)" by fastforce
  have "lg_name l = rg_name rg p"
    using logger_names(4) [of vmax n "rg_heap rg p"] e by (simp add: rg_name_def)
  then have "keeps_names rg (rg_modify p (\<lambda>_. l) rg)"
    by (simp add: keeps_names_modify)
  then show ?case
    using Cons.IH [of "rg_modify p (\<lambda>_. l) rg"] keeps_names_trans a e by (cases r) auto
qed simp

lemma rg_update_simps [simp]:
  "keeps_names rg (rg\<lparr>rg_formatter := f\<rparr>)" "keeps_names rg (rg\<lparr>rg_global_log_level := l\<rparr>)"
  "keeps_names rg (rg\<lparr>rg_flush_level := l\<rparr>)" "keeps_names rg (rg\<lparr>rg_err_handler := b\<rparr>)"
  "keeps_names rg (rg\<lparr>rg_automatic_registration := b\<rparr>)" "keeps_names rg (rg\<lparr>rg_backtrace_n_messages := n\<rparr>)"
  "keeps_names rg (rg\<lparr>rg_log_levels := ls\<rparr>)"
  "keeps_names rg (rg\<lparr>rg_tp := t\<rparr>)" "keeps_names rg (rg\<lparr>rg_periodic_flusher := i\<rparr>)"
  by (simp_all add: keeps_names_def rg_name_def)

lemma register_logger_ok: "rg_ok rg \<Longrightarrow> rg_ok (snd (register_logger p rg))"
  by (auto simp: register_logger_def rg_ok_def rg_name_def Let_def)

lemma initialize_logger_keeps:
  obtains rg1 where "keeps_names rg rg1"
    "fst (snd (initialize_logger vmax p rg w)) = rg1 \<or> fst (snd (initialize_logger vmax p rg w)) = snd (register_logger p rg1)"
proof -
  define rg2 where "rg2 = (if rg_err_handler rg then rg_modify p (\<lambda>l. l\<lparr>lg_custom_err_handler := True\<rparr>) rg else rg)"
  define new_level where "new_level = (case map_find (rg_log_levels rg2) (rg_name rg2 p) of
      Some l \<Rightarrow> l | None \<Rightarrow> rg_global_log_level rg2)"
  define rg3 where "rg3 = rg_modify p (logger_set_level new_level) rg2"
  define rg4 where "rg4 = rg_modify p (logger_flush_on (rg_flush_level rg3)) rg3"
  define rg5 where "rg5 = (if rg_backtrace_n_messages rg4 > 0
    then rg_modify p (\<lambda>_. snd (logger_enable_backtrace vmax (rg_backtrace_n_messages rg4) (rg_heap rg4 p))) rg4 else rg4)"
  have "keeps_names rg rg2" by (simp add: rg2_def keeps_names_modify rg_name_def)
  moreover have "keeps_names rg2 rg3" by (simp add: rg3_def keeps_names_modify rg_name_def)
  moreover have "keeps_names rg3 rg4" by (simp add: rg4_def keeps_names_modify rg_name_def)
  moreover have "keeps_names rg4 rg5" by (simp add: rg5_def keeps_names_modify rg_name_def)
  ultimately have "keeps_names rg rg5" by (blast intro: keeps_names_trans)
  moreover have "fst (snd (initialize_logger vmax p rg w)) = rg5 \<or>
      fst (snd (initialize_logger vmax p rg w)) = snd (register_logger p rg5)"
    unfolding initialize_logger_def Let_def rg2_def [symmetric] new_level_def [symmetric]
      rg3_def [symmetric] rg4_def [symmetric]
    by (auto simp: rg5_def split_beta split: sum.split)
  ultimately show thesis by (rule that)
qed

lemma set_default_logger_ok: "rg_ok rg \<Longrightarrow> rg_ok (set_default_logger p rg)"
  by (auto simp: set_default_logger_def rg_ok_def rg_name_def Let_def split: option.splits if_splits)

lemma rg_drop_ok: "rg_ok rg \<Longrightarrow> rg_ok (rg_drop name rg)"
  by (auto simp: rg_drop_def rg_ok_def rg_name_def Let_def split: option.splits if_splits)

lemma rg_set_levels_keeps: "keeps_names rg (rg_set_levels levels g rg)"
proof -
  let ?rg = "rg\<lparr>rg_log_levels := levels,
    rg_global_log_level := (case g of Some l \<Rightarrow> l | None \<Rightarrow> rg_global_log_level rg)\<rparr>"
  have "keeps_names rg ?rg" by (simp add: keeps_names_def rg_name_def)
  moreover have "keeps_names ?rg (rg_set_levels levels g rg)"
    unfolding rg_set_levels_def Let_def
    by (rule keeps_names_fold) (auto intro!: keeps_names_modify simp: rg_name_def split: option.splits)
  ultimately show ?thesis by (rule keeps_names_trans)
qed

lemma rg_step_ok:
  assumes "rg_ok rg"
  shows "rg_ok (fst (rg_step vmax op (rg, w)))"
proof (cases op)
  case (Initialize p)
  obtain rg1 where rg1: "keeps_names rg rg1"
    "fst (snd (initialize_logger vmax p rg w)) = rg1 \<or> fst (snd (initialize_logger vmax p rg w)) = snd (register_logger p rg1)"
    by (rule initialize_logger_keeps)
  then have "rg_ok rg1" using assms keeps_names_ok by blast
  then show ?thesis
    using rg1(2) register_logger_ok [of rg1 p] Initialize by auto
next
  case (Enable_Backtrace n)
  have "rg_ok (rg\<lparr>rg_backtrace_n_messages := n\<rparr>)" using assms keeps_names_ok rg_update_simps(6) by blast
  then show ?thesis
    using keeps_names_ok [OF keeps_names_backtrace] Enable_Backtrace by (simp add: rg_enable_backtrace_def)
next
  case Disable_Backtrace
  have "rg_ok (rg\<lparr>rg_backtrace_n_messages := 0\<rparr>)" using assms keeps_names_ok rg_update_simps(6) by blast
  then show ?thesis
    using keeps_names_ok [OF keeps_names_for_all] Disable_Backtrace by (simp add: rg_disable_backtrace_def)
next
  case (Set_Level l)
  have "rg_ok (rg_for_all (logger_set_level l) rg)"
    using keeps_names_ok [OF keeps_names_for_all] assms by simp
  then show ?thesis
    using Set_Level keeps_names_ok rg_update_simps(2) by (fastforce simp: rg_set_level_def)
next
  case (Flush_On l)
  have "rg_ok (rg_for_all (logger_flush_on l) rg)"
    using keeps_names_ok [OF keeps_names_for_all] assms by simp
  then show ?thesis
    using Flush_On keeps_names_ok rg_update_simps(3) by (fastforce simp: rg_flush_on_def)
next
  case (Set_Error_Handler h)
  have "rg_ok (rg_for_all (\<lambda>l. l\<lparr>lg_custom_err_handler := h\<rparr>) rg)"
    using keeps_names_ok [OF keeps_names_for_all] assms by simp
  then show ?thesis
    using Set_Error_Handler keeps_names_ok rg_update_simps(4) by (fastforce simp: rg_set_error_handler_def)
next
  case Drop_All
  then show ?thesis by (simp add: rg_drop_all_def rg_ok_def map_ok_def)
next
  case Shutdown
  then show ?thesis by (simp add: rg_shutdown_def rg_drop_all_def rg_ok_def map_ok_def)
next
  case (Set_Tp tp)
  then show ?thesis using keeps_names_ok [OF rg_update_simps(8) assms] by (simp add: rg_set_tp_def)
next
  case (Flush_Every i)
  then show ?thesis using keeps_names_ok [OF rg_update_simps(9) assms] by (simp add: rg_flush_every_def)
next
  case (Set_Levels levels g)
  then show ?thesis using keeps_names_ok [OF rg_set_levels_keeps assms] by simp
qed (use assms in \<open>auto simp: register_logger_ok set_default_logger_ok rg_drop_ok rg_set_formatter_def
      rg_set_automatic_registration_def intro: keeps_names_ok rg_update_simps\<close>)

section \<open>cfg/helpers-inl.h\<close>

text \<open>Characters are compared and changed by their codes.\<close>

definition lower_char :: "char \<Rightarrow> char" where
  "lower_char ch = (let n = of_char ch :: nat in if n \<ge> 65 \<and> n \<le> 90 then char_of (n + 32) else ch)"

definition to_lower :: "string \<Rightarrow> string" where
  "to_lower str = map lower_char str"

definition is_space :: "char \<Rightarrow> bool" where
  "is_space c \<longleftrightarrow> c \<in> {CHR '' '', CHR 0x0A, CHR 0x0D, CHR 0x09}"

text \<open>
  trim_ erases what follows the last character that is no space, then what precedes the
  first one.
\<close>

definition trim :: "string \<Rightarrow> string" where
  "trim str = dropWhile is_space (rev (dropWhile is_space (rev str)))"

definition extract_kv :: "char \<Rightarrow> string \<Rightarrow> string \<times> string" where
  "extract_kv sep str =
     (let n = length (takeWhile (\<lambda>c. c \<noteq> sep) str)
      in if n = length str then (trim [], trim str) else (trim (take n str), trim (drop (n + 1) str)))"

text \<open>
  getline with a delimiter: the tokens between the delimiters; there is none after a
  delimiter at the end.
\<close>

fun tokens :: "char \<Rightarrow> string \<Rightarrow> string \<Rightarrow> string list" where
  "tokens sep acc [] = (if acc = [] then [] else [acc])"
| "tokens sep acc (c # cs) = (if c = sep then acc # tokens sep [] cs else tokens sep (acc @ [c]) cs)"

definition extract_key_vals :: "string \<Rightarrow> (string \<times> string) list" where
  "extract_key_vals str =
     foldl (\<lambda>rv token. if token = [] then rv
         else (let kv = extract_kv CHR ''='' token in map_put (fst kv) (snd kv) rv))
       [] (tokens CHR '','' [] str)"

text \<open>
  The loop over the pairs, in the order of the map (which is not specified in C++; the keys are
  distinct, so it makes no difference).  A level that is not known is left out.
\<close>

definition levels_of :: "(string \<times> string) list \<Rightarrow> (string \<times> level_enum) list \<times> level_enum option" where
  "levels_of key_vals =
     foldl (\<lambda>(levels, global_level) (logger_name, v).
         let level_name = to_lower v; level = from_str level_name
         in if level = Off \<and> level_name \<noteq> ''off'' then (levels, global_level)
            else if logger_name = [] then (levels, Some level)
            else (map_put logger_name level levels, global_level))
       ([], None) key_vals"

definition load_levels :: "string \<Rightarrow> registry \<Rightarrow> registry" where
  "load_levels input rg =
     (if input = [] \<or> length input > 512 then rg
      else (let (levels, global_level) = levels_of (extract_key_vals input)
            in rg_set_levels levels global_level rg))"

text \<open>cfg/env.h and cfg/argv.h: the variable SPDLOG_LEVEL, and the arguments after the first.\<close>

definition load_env_levels :: "string option \<Rightarrow> registry \<Rightarrow> registry" where
  "load_env_levels env rg =
     (let env_val = (case env of Some v \<Rightarrow> v | None \<Rightarrow> [])
      in if env_val \<noteq> [] then load_levels env_val rg else rg)"

definition load_argv_levels :: "string list \<Rightarrow> registry \<Rightarrow> registry" where
  "load_argv_levels argv rg =
     foldl (\<lambda>rg arg. if take (length ''SPDLOG_LEVEL='') arg = ''SPDLOG_LEVEL=''
         then load_levels (drop (length ''SPDLOG_LEVEL='') arg) rg else rg)
       rg (drop 1 argv)"

section \<open>Reading a configuration back\<close>

text \<open>A name of a logger that the text can carry.\<close>

definition plain_name :: "string \<Rightarrow> bool" where
  "plain_name s \<longleftrightarrow> s \<noteq> [] \<and> CHR '','' \<notin> set s \<and> CHR ''='' \<notin> set s \<and> \<not> is_space (hd s) \<and> \<not> is_space (last s)"

definition entry_text :: "string \<times> level_enum \<Rightarrow> string" where
  "entry_text e = fst e @ ''='' @ to_string_view (snd e)"

definition comma_list :: "string list \<Rightarrow> string" where
  "comma_list ts = (case ts of [] \<Rightarrow> [] | t # ts \<Rightarrow> t @ concat (map (\<lambda>u. CHR '','' # u) ts))"

definition config_text :: "(string \<times> level_enum) list \<Rightarrow> level_enum option \<Rightarrow> string" where
  "config_text settings g =
     comma_list (map entry_text settings @ (case g of Some l \<Rightarrow> [to_string_view l] | None \<Rightarrow> []))"

lemma tokens_word: "sep \<notin> set t \<Longrightarrow> tokens sep acc (t @ rest) = tokens sep (acc @ t) rest"
  by (induction t arbitrary: acc) auto

lemma tokens_rest:
  assumes "\<forall>t \<in> set ts. sep \<notin> set t \<and> t \<noteq> []" "acc \<noteq> []"
  shows "tokens sep acc (concat (map (\<lambda>u. sep # u) ts)) = acc # ts"
  using assms
proof (induction ts arbitrary: acc)
  case (Cons t ts)
  then show ?case using tokens_word [of sep t "[]"] by simp
qed simp

lemma tokens_comma_list:
  assumes "\<forall>t \<in> set ts. CHR '','' \<notin> set t \<and> t \<noteq> []"
  shows "tokens CHR '','' [] (comma_list ts) = ts"
proof (cases ts)
  case (Cons t ts')
  then show ?thesis
    using assms tokens_word [of "CHR '',''" t "[]"] tokens_rest [of ts' "CHR '',''" t] by (simp add: comma_list_def)
qed (simp add: comma_list_def)

lemma level_text:
  "CHR '','' \<notin> set (to_string_view l)" "CHR ''='' \<notin> set (to_string_view l)" "to_string_view l \<noteq> []"
  "trim (to_string_view l) = to_string_view l" "to_lower (to_string_view l) = to_string_view l"
  "to_string_view l = ''off'' \<longleftrightarrow> l = Off"
  by (cases l; simp add: to_string_view_def level_string_views_def trim_def is_space_def to_lower_def; code_simp)+

lemma trim_plain: "s \<noteq> [] \<Longrightarrow> \<not> is_space (hd s) \<Longrightarrow> \<not> is_space (last s) \<Longrightarrow> trim s = s"
proof -
  assume s: "s \<noteq> []" "\<not> is_space (hd s)" "\<not> is_space (last s)"
  have drop: "dropWhile is_space t = t" if "t \<noteq> []" "\<not> is_space (hd t)" for t
    using that by (cases t) auto
  have "dropWhile is_space (rev s) = rev s" using s by (intro drop) (simp_all add: hd_rev)
  then show "trim s = s" using drop s by (simp add: trim_def)
qed

lemma trim_Nil: "trim [] = []"
  by (simp add: trim_def)

lemma takeWhile_until: "c \<notin> set s \<Longrightarrow> takeWhile (\<lambda>x. x \<noteq> c) (s @ c # t) = s"
  by (induction s) auto

lemma find_set: "find P xs = Some x \<Longrightarrow> P x \<and> x \<in> set xs"
  by (induction xs) (auto split: if_splits)

lemma extract_kv_entry:
  assumes "plain_name name"
  shows "extract_kv CHR ''='' (entry_text (name, l)) = (name, to_string_view l)"
proof -
  have "takeWhile (\<lambda>c. c \<noteq> CHR ''='') (name @ CHR ''='' # to_string_view l) = name"
    using assms takeWhile_until [of "CHR ''=''" name "to_string_view l"] by (simp add: plain_name_def)
  then show ?thesis
    using assms trim_plain [of name] by (simp add: extract_kv_def entry_text_def plain_name_def level_text)
qed

lemma extract_kv_global: "extract_kv CHR ''='' (to_string_view l) = ([], to_string_view l)"
proof -
  have "takeWhile (\<lambda>c. c \<noteq> CHR ''='') (to_string_view l) = to_string_view l"
    using level_text(2) [of l] by (auto simp: takeWhile_eq_all_conv)
  then show ?thesis unfolding extract_kv_def by (simp only: Let_def) (simp add: level_text trim_Nil)
qed

lemma map_put_new: "k \<notin> fst ` set m \<Longrightarrow> map_put k v m = m @ [(k, v)]"
  by (induction m) (auto simp: map_put_def)

lemma extract_key_vals_entries:
  "\<forall>e \<in> set settings. plain_name (fst e) \<Longrightarrow> distinct (map fst settings) \<Longrightarrow>
   foldl (\<lambda>rv token. if token = [] then rv
       else (let kv = extract_kv CHR ''='' token in map_put (fst kv) (snd kv) rv)) [] (map entry_text settings) =
   map (\<lambda>(n, l). (n, to_string_view l)) settings"
proof (induction settings rule: rev_induct)
  case (snoc e es)
  obtain n l where e: "e = (n, l)" by fastforce
  have "entry_text e \<noteq> []" by (simp add: entry_text_def)
  moreover have "extract_kv CHR ''='' (entry_text e) = (n, to_string_view l)"
    using extract_kv_entry snoc.prems e by simp
  moreover have "n \<notin> fst ` set (map (\<lambda>(n, l). (n, to_string_view l)) es)"
    using snoc.prems(2) e by force
  ultimately show ?case
    using snoc e by (simp add: map_put_new)
qed simp

lemma levels_of_entries:
  "\<forall>e \<in> set settings. fst e \<noteq> [] \<Longrightarrow> distinct (map fst settings) \<Longrightarrow>
   levels_of (map (\<lambda>(n, l). (n, to_string_view l)) settings) = (settings, None)"
proof (induction settings rule: rev_induct)
  case (snoc e es)
  obtain n l where e: "e = (n, l)" by fastforce
  have "n \<notin> fst ` set es" "n \<noteq> []" using snoc.prems e by auto
  then show ?case
    using snoc e by (simp add: levels_of_def Let_def level_text from_str_to_string_view map_put_new)
qed (simp add: levels_of_def)

lemma load_levels_config:
  assumes "\<forall>e \<in> set settings. plain_name (fst e)" "distinct (map fst settings)"
    and "config_text settings g \<noteq> []" "length (config_text settings g) \<le> 512"
  shows "load_levels (config_text settings g) rg = rg_set_levels settings g rg"
proof -
  let ?ts = "map entry_text settings @ (case g of Some l \<Rightarrow> [to_string_view l] | None \<Rightarrow> [])"
  have "CHR '','' \<notin> set t \<and> t \<noteq> []" if "t \<in> set ?ts" for t
    using that assms(1) level_text(1,3) by (auto simp: entry_text_def plain_name_def split: option.splits)
  then have toks: "tokens CHR '','' [] (config_text settings g) = ?ts"
    unfolding config_text_def by (intro tokens_comma_list) blast
  have kv: "extract_key_vals (config_text settings g) =
      map (\<lambda>(n, l). (n, to_string_view l)) settings @ (case g of Some l \<Rightarrow> [([], to_string_view l)] | None \<Rightarrow> [])"
  proof (cases g)
    case None
    then show ?thesis
      unfolding extract_key_vals_def toks using extract_key_vals_entries [OF assms(1,2)] None by simp
  next
    case (Some l)
    have "[] \<notin> fst ` set (map (\<lambda>(n, l). (n, to_string_view l)) settings)"
      using assms(1) by (auto simp: plain_name_def)
    then show ?thesis
      unfolding extract_key_vals_def toks using extract_key_vals_entries [OF assms(1,2)] Some
      by (simp add: extract_kv_global level_text map_put_new)
  qed
  have "\<forall>e \<in> set settings. fst e \<noteq> []" using assms(1) by (simp add: plain_name_def)
  from levels_of_entries [OF this assms(2)]
  have "levels_of (extract_key_vals (config_text settings g)) = (settings, g)"
    unfolding kv
    by (cases g) (simp_all add: levels_of_def Let_def level_text from_str_to_string_view)
  then show ?thesis
    using assms(3,4) by (simp add: load_levels_def)
qed

text \<open>What set_levels does to the loggers of the registry.\<close>

definition level_for :: "(string \<times> level_enum) list \<Rightarrow> level_enum option \<Rightarrow> string \<Rightarrow> level_enum \<Rightarrow> level_enum" where
  "level_for settings g name old =
     (case map_find settings name of Some l \<Rightarrow> l | None \<Rightarrow> (case g of Some l \<Rightarrow> l | None \<Rightarrow> old))"

lemma rg_levels_fold:
  assumes "distinct (map snd ls)"
  shows "rg_heap (foldl (\<lambda>rg (k, p). case map_find levels k of
             Some l \<Rightarrow> rg_modify p (logger_set_level l) rg
           | None \<Rightarrow> (case g of Some l \<Rightarrow> rg_modify p (logger_set_level l) rg | None \<Rightarrow> rg)) rg ls) p =
    (case find (\<lambda>x. snd x = p) ls of
       None \<Rightarrow> rg_heap rg p
     | Some (k, _) \<Rightarrow> logger_set_level (level_for levels g k (lg_level (rg_heap rg p))) (rg_heap rg p))"
  using assms
proof (induction ls arbitrary: rg)
  case (Cons a ls)
  obtain k q where a: "a = (k, q)" by fastforce
  have "find (\<lambda>x. snd x = p) ls = None" if "q = p"
    using Cons.prems that by (force simp: a find_None_iff)
  then show ?case
    using Cons a
    by (cases "q = p")
      (auto simp: rg_modify_def level_for_def logger_set_level_def split: option.splits)
qed simp

lemma rg_set_levels_level:
  assumes "rg_ok rg" "map_find (rg_loggers rg) k = Some p"
  shows "lg_level (rg_heap (rg_set_levels settings g rg) p) = level_for settings g k (lg_level (rg_heap rg p))"
proof -
  let ?ls = "rg_loggers rg"
  have names: "fst x = rg_name rg (snd x)" if "x \<in> set ?ls" for x
    using assms(1) that map_find_in_set [of ?ls "fst x" "snd x"] by (auto simp: rg_ok_def)
  have "distinct (map fst ?ls)" using assms(1) by (simp add: rg_ok_def map_ok_def)
  moreover have "map fst ?ls = map (rg_name rg) (map snd ?ls)"
    using names by simp
  ultimately have dist: "distinct (map snd ?ls)"
    using distinct_map by metis
  have mem: "(k, p) \<in> set ?ls"
    using assms map_find_in_set [of ?ls k p] by (auto simp: rg_ok_def)
  have "find (\<lambda>x. snd x = p) ?ls \<noteq> None"
    using mem by (auto simp: find_None_iff)
  then obtain k' where "find (\<lambda>x. snd x = p) ?ls = Some (k', p)" "(k', p) \<in> set ?ls"
    using find_set [of "\<lambda>x. snd x = p" ?ls] by force
  moreover from this have "k' = k" using names [of "(k', p)"] names [of "(k, p)"] mem by simp
  ultimately show ?thesis
    using rg_levels_fold [OF dist, where levels = settings and g = g and p = p]
    by (simp add: rg_set_levels_def Let_def logger_set_level_def)
qed

section \<open>Properties\<close>

text \<open>The registry of the loggers stays consistent.  After any operations (registering,
  initializing, replacing the default, dropping, and the settings for all loggers, in any
  order and whether or not they throw), the logger that is found under a name has this name,
  no name is there twice, and the default logger, when there is one, is the one found under
  its name.\<close>

theorem registry_stays_consistent:
  "rg_ok (fst (foldl (\<lambda>s op. rg_step vmax op s) (registry_new p color_sink heap f, w) ops))"
proof (induction ops rule: rev_induct)
  case Nil
  then show ?case
    by (simp add: registry_new_def rg_ok_def rg_name_def map_find_Cons logger_new_def map_ok_def)
next
  case (snoc op ops)
  then show ?case
    using rg_step_ok [of "fst (foldl (\<lambda>s op. rg_step vmax op s) (registry_new p color_sink heap f, w) ops)" vmax op
        "snd (foldl (\<lambda>s op. rg_step vmax op s) (registry_new p color_sink heap f, w) ops)"] by simp
qed

text \<open>C30: The levels that a configuration text names are the levels the loggers get.  The text made of
  any settings (distinct names that the text can carry, and a level for all other loggers or
  none) and read back gives each registered logger the level of its name, or else the level for
  all others, or else leaves it as it was; and the settings are kept for loggers to come.\<close>

theorem configured_levels_round_trip:
  assumes "\<forall>e \<in> set settings. plain_name (fst e)" "distinct (map fst settings)"
    and "config_text settings g \<noteq> []" "length (config_text settings g) \<le> 512"
    and "rg_ok rg" "rg_get name rg = Some p"
  shows "lg_level (rg_heap (load_levels (config_text settings g) rg) p) =
      (case map_of settings name of Some l \<Rightarrow> l | None \<Rightarrow> (case g of Some l \<Rightarrow> l | None \<Rightarrow> lg_level (rg_heap rg p))) \<and>
    rg_log_levels (load_levels (config_text settings g) rg) = settings"
proof
  note load = load_levels_config [OF assms(1-4), of rg]
  show "lg_level (rg_heap (load_levels (config_text settings g) rg) p) =
      (case map_of settings name of Some l \<Rightarrow> l | None \<Rightarrow> (case g of Some l \<Rightarrow> l | None \<Rightarrow> lg_level (rg_heap rg p)))"
    using rg_set_levels_level [OF assms(5), of name p] assms(6)
    by (simp add: load rg_get_def level_for_def map_find_def)
  have "rg_log_levels (foldl (\<lambda>rg (k, p). case map_find settings k of
             Some l \<Rightarrow> rg_modify p (logger_set_level l) rg
           | None \<Rightarrow> (case g of Some l \<Rightarrow> rg_modify p (logger_set_level l) rg | None \<Rightarrow> rg)) rg ls) = rg_log_levels rg"
    for ls rg
    by (induction ls arbitrary: rg) (auto simp: rg_modify_def split: option.splits)
  then show "rg_log_levels (load_levels (config_text settings g) rg) = settings"
    by (simp add: load rg_set_levels_def Let_def)
qed

theorem configured_levels_round_trip_witness:
  "lg_level (rg_heap (load_levels ''net=debug,error'' (registry_new 3 0 (\<lambda>_. logger_new ''x'' []) 0)) 3) = Err"
proof -
  have t: "config_text [(''net'', Debug)] (Some Err) = ''net=debug,error''"
    by (simp add: config_text_def comma_list_def entry_text_def to_string_view_def level_string_views_def)
  have "rg_ok (registry_new 3 0 (\<lambda>_. logger_new ''x'' []) 0)"
    by (simp add: registry_new_def rg_ok_def rg_name_def map_find_Cons logger_new_def map_ok_def)
  moreover have "rg_get [] (registry_new 3 0 (\<lambda>_. logger_new ''x'' []) 0) = Some 3"
    by (simp add: rg_get_def registry_new_def map_find_def)
  ultimately show ?thesis
    using configured_levels_round_trip [of "[(''net'', Debug)]" "Some Err"
        "registry_new 3 0 (\<lambda>_. logger_new ''x'' []) 0" "[]" 3]
    unfolding t by (simp add: plain_name_def is_space_def)
qed

end
