(* ===== verification/FmtInt.thy ===== *)
theory FmtInt
  imports LogQueue
begin

text \<open>
  Integers as text: the part of fmt (fmt/bundled/format.h) on which the formatters of the log
  rest.  count_digits has three bodies: one by groups of four digits, one for 64 bits over a
  table indexed by the highest bit, and one for 32 bits that adds a table entry and reads
  the answer from the upper half of the sum.  format_int writes digits in pairs from the end
  of a buffer of 22 characters to its front; a write before the front is Out_Of_Bounds.
  digit_string (Prelude) is the reference: digits one by one.

  The builtin for leading zeros is clz; FMT_BUILTIN_CLZ xor 31 is the number of the highest bit.
\<close>

section \<open>Counting digits\<close>

definition clz :: "'a :: len word \<Rightarrow> nat" where
  "clz n = LENGTH('a) - floorlog 2 (unat n)"

fun count_digits_fallback :: "nat \<Rightarrow> nat \<Rightarrow> nat" where
  "count_digits_fallback n count =
     (if n < 10 then count
      else if n < 100 then count + 1
      else if n < 1000 then count + 2
      else if n < 10000 then count + 3
      else count_digits_fallback (n div 10000) (count + 4))"

declare count_digits_fallback.simps [simp del]

definition bsr2log10 :: "nat list" where
  "bsr2log10 =
     [1,  1,  1,  2,  2,  2,  3,  3,  3,  4,  4,  4,  4,  5,  5,  5,
      6,  6,  6,  7,  7,  7,  7,  8,  8,  8,  9,  9,  9,  10, 10, 10,
      10, 11, 11, 11, 12, 12, 12, 13, 13, 13, 13, 14, 14, 14, 15, 15,
      15, 16, 16, 16, 16, 17, 17, 17, 18, 18, 18, 19, 19, 19, 19, 20]"

definition powers_of_10 :: "nat \<Rightarrow> nat list" where
  "powers_of_10 factor =
     [factor * 10, factor * 100, factor * 1000, factor * 10000, factor * 100000,
      factor * 1000000, factor * 10000000, factor * 100000000, factor * 1000000000]"

definition zero_or_powers_of_10 :: "nat list" where
  "zero_or_powers_of_10 = [0, 0] @ powers_of_10 1 @ powers_of_10 1000000000 @ [10000000000000000000]"

definition count_digits_64 :: "u64 \<Rightarrow> nat res" where
  "count_digits_64 n =
     bind_res (vec_at bsr2log10 (clz (n OR 1) XOR 63)) (\<lambda>t.
       bind_res (vec_at zero_or_powers_of_10 t) (\<lambda>p. Inr (t - (if unat n < p then 1 else 0))))"

text \<open>FMT_INC: the length of the literal in the upper half, less the number.\<close>

definition fmt_inc :: "nat \<Rightarrow> u64" where
  "fmt_inc T = push_bit 32 (of_nat (length (digit_string T))) - of_nat T"

definition inc_numbers :: "nat list" where
  "inc_numbers =
     [0,          0,          0,
      10,         10,         10,
      100,        100,        100,
      1000,       1000,       1000,
      10000,      10000,      10000,
      100000,     100000,     100000,
      1000000,    1000000,    1000000,
      10000000,   10000000,   10000000,
      100000000,  100000000,  100000000,
      1000000000, 1000000000, 1000000000,
      1000000000, 1000000000]"

definition count_digits_inc :: "nat \<Rightarrow> u64 res" where
  "count_digits_inc n = vec_at (map fmt_inc inc_numbers) n"

definition count_digits_32 :: "u32 \<Rightarrow> nat res" where
  "count_digits_32 n =
     bind_res (count_digits_inc (clz (n OR 1) XOR 31)) (\<lambda>inc. Inr (unat (drop_bit 32 (ucast n + inc))))"

section \<open>Writing digits\<close>

definition digit_pairs :: "string list" where
  "digit_pairs = concat (map (\<lambda>a. map (\<lambda>b. [a, b]) ''0123456789'') ''0123456789'')"

fun format_decimal :: "nat \<Rightarrow> nat \<Rightarrow> string \<Rightarrow> (nat \<times> string) res" where
  "format_decimal out value text =
     (if value \<ge> 100
      then (if out < 2 then Inl Out_Of_Bounds
            else format_decimal (out - 2) (value div 100) (digit_pairs ! (value mod 100) @ text))
      else if value < 10
      then (if out < 1 then Inl Out_Of_Bounds else Inr (out - 1, char_of (48 + value) # text))
      else (if out < 2 then Inl Out_Of_Bounds else Inr (out - 2, digit_pairs ! value @ text)))"

declare format_decimal.simps [simp del]

definition buffer_size :: nat where
  "buffer_size = 19 + 3"

definition format_unsigned :: "'a :: len word \<Rightarrow> (nat \<times> string) res" where
  "format_unsigned value = format_decimal (buffer_size - 1) (unat value) []"

definition format_signed :: "'a :: len word \<Rightarrow> (nat \<times> string) res" where
  "format_signed value =
     (let negative = sint value < 0;
          abs_value = (if negative then 0 - value else value)
      in bind_res (format_unsigned abs_value) (\<lambda>(begin, text).
           if negative then (if begin < 1 then Inl Out_Of_Bounds else Inr (begin - 1, CHR ''-'' # text))
           else Inr (begin, text)))"

text \<open>data and size of a format_int: the text from str_ to the end.\<close>

definition format_int_signed :: "'a :: len word \<Rightarrow> string res" where
  "format_int_signed value = bind_res (format_signed value) (\<lambda>(begin, text). Inr text)"

definition format_int_unsigned :: "'a :: len word \<Rightarrow> string res" where
  "format_int_unsigned value = bind_res (format_unsigned value) (\<lambda>(begin, text). Inr text)"

definition decimal :: "int \<Rightarrow> string" where
  "decimal n = (if n < 0 then CHR ''-'' # digit_string (nat (- n)) else digit_string (nat n))"

section \<open>The number of digits\<close>

lemma length_digit_string_rec:
  "length (digit_string n) = (if n < 10 then 1 else length (digit_string (n div 10)) + 1)"
  by (subst digit_string.simps) simp

lemma length_digit_string_div: "10 \<le> n \<Longrightarrow> length (digit_string n) = length (digit_string (n div 10)) + 1"
  using length_digit_string_rec [of n] by simp

lemma length_digit_string_pos: "0 < length (digit_string n)"
  by (subst length_digit_string_rec) simp

lemma length_digit_string_le: "n < 10 ^ k \<Longrightarrow> 0 < k \<Longrightarrow> length (digit_string n) \<le> k"
proof (induction k arbitrary: n)
  case (Suc k)
  then show ?case
    by (subst length_digit_string_rec) (cases k; simp add: less_mult_imp_div_less mult.commute)
qed simp

lemma length_digit_string_ge: "10 ^ k \<le> n \<Longrightarrow> k < length (digit_string n)"
proof (induction k arbitrary: n)
  case 0
  then show ?case using length_digit_string_pos by simp
next
  case (Suc k)
  then have "10 ^ k \<le> n div 10" by (simp add: less_eq_div_iff_mult_less_eq mult.commute)
  then have "k < length (digit_string (n div 10))" by (rule Suc.IH)
  moreover have "10 \<le> n"
    using Suc.prems power_increasing [of 1 "Suc k" "10 :: nat"] by (simp del: power_Suc)
  ultimately show ?case
    using length_digit_string_div [of n] by simp
qed

lemma length_digit_string_eq:
  assumes "n < 10 ^ k" "0 < k" "k = 1 \<or> 10 ^ (k - 1) \<le> n"
  shows "length (digit_string n) = k"
  using length_digit_string_le [OF assms(1,2)] length_digit_string_ge [of "k - 1" n] assms(2,3)
    length_digit_string_pos [of n] by (cases "k = 1") (auto simp del: length_greater_0_conv)

lemma count_digits_fallback_eq: "count_digits_fallback n count + 1 = count + length (digit_string n)"
proof (induction n count rule: count_digits_fallback.induct)
  case (1 n count)
  note len = length_digit_string_eq [of n 1] length_digit_string_eq [of n 2]
    length_digit_string_eq [of n 3] length_digit_string_eq [of n 4]
  have "length (digit_string n) = length (digit_string (n div 10000)) + 4" if "\<not> n < 10000"
  proof -
    have "10 \<le> n" "10 \<le> n div 10" "10 \<le> n div 10 div 10" "10 \<le> n div 10 div 10 div 10"
      using that by (simp_all add: div_mult2_eq [symmetric] less_eq_div_iff_mult_less_eq)
    then have "length (digit_string n) = length (digit_string (n div 10 div 10 div 10 div 10)) + 4"
      by (simp add: length_digit_string_div)
    then show ?thesis by (simp add: div_mult2_eq [symmetric])
  qed
  then show ?case
    using 1 len by (subst count_digits_fallback.simps) auto
qed

text \<open>The highest bit of a number that is not zero.\<close>

lemma unat_or_1: "unat (n OR 1 :: 'a :: len word) = (if even (unat n) then unat n + 1 else unat n)"
proof -
  have "unat (n OR 1) = unat n OR 1"
    by (simp add: unsigned_or_eq)
  also have "\<dots> = unat n + of_bool (even (unat n))"
    using or_Suc_0_eq [of "unat n"] by simp
  finally show ?thesis by simp
qed

lemma top_bit:
  fixes n :: "'a :: len word"
  obtains b where "b < LENGTH('a)" "clz (n OR 1) = LENGTH('a) - 1 - b"
    "unat n < 2 ^ (b + 1)" "b = 0 \<or> 2 ^ b \<le> unat n"
proof -
  let ?m = "unat (n OR 1)"
  have m: "0 < ?m" by (simp add: unat_or_1 odd_pos)
  define b where "b = floorlog 2 ?m - 1"
  have f: "floorlog 2 ?m = b + 1"
    using m by (simp add: b_def floorlog_def)
  have bounds: "2 ^ b \<le> ?m" "?m < 2 ^ (b + 1)"
    using floorlog_bounds [of ?m 2] m f by simp_all
  have "?m < 2 ^ LENGTH('a)" by (rule unsigned_less)
  then have lt: "b < LENGTH('a)"
    using bounds(1) power_less_imp_less_exp [of "2 :: nat" b "LENGTH('a)"] by linarith
  have "unat n \<le> ?m" by (simp add: unat_or_1)
  moreover have "2 ^ b \<le> unat n" if "b \<noteq> 0"
  proof -
    have "even ((2 :: nat) ^ b)" using that by simp
    then have "2 ^ b \<noteq> unat n + 1" if "even (unat n)" using that by (metis even_plus_one_iff)
    then show ?thesis
      using bounds(1) unat_or_1 [of n] by (auto split: if_splits)
  qed
  ultimately show thesis
    using that [of b] lt bounds(2) f by (auto simp: clz_def)
qed

lemma clz_xor_63: "b < 64 \<Longrightarrow> (63 - b) XOR 63 = (b :: nat)"
proof -
  have "\<forall>b \<in> set [0..<64]. (63 - b) XOR 63 = (b :: nat)" by code_simp
  then show "b < 64 \<Longrightarrow> (63 - b) XOR 63 = (b :: nat)" by simp
qed

lemma clz_xor_31: "b < 32 \<Longrightarrow> (31 - b) XOR 31 = (b :: nat)"
proof -
  have "\<forall>b \<in> set [0..<32]. (31 - b) XOR 31 = (b :: nat)" by code_simp
  then show "b < 32 \<Longrightarrow> (31 - b) XOR 31 = (b :: nat)" by simp
qed

text \<open>
  The two tables: below the power of ten of its entry a number with a given highest bit has
  one digit less.
\<close>

definition entry_ok :: "nat \<Rightarrow> nat \<Rightarrow> bool" where
  "entry_ok b t \<longleftrightarrow> 0 < t \<and> t \<le> 20 \<and> 2 ^ (b + 1) \<le> (10 :: nat) ^ t \<and>
     (t \<le> 2 \<or> b \<noteq> 0 \<and> 10 ^ (t - 2) \<le> (2 :: nat) ^ b)"

fun indexed :: "(nat \<Rightarrow> 'a \<Rightarrow> bool) \<Rightarrow> nat \<Rightarrow> 'a list \<Rightarrow> bool" where
  "indexed P i [] = True"
| "indexed P i (x # xs) = (P i x \<and> indexed P (i + 1) xs)"

lemma indexed_nth: "indexed P i xs \<Longrightarrow> k < length xs \<Longrightarrow> P (i + k) (xs ! k)"
proof (induction xs arbitrary: i k)
  case (Cons x xs)
  then show ?case by (cases k) (use Cons.IH [of "i + 1"] Cons.prems in auto)
qed simp

lemma bsr2log10_ok:
  assumes "b < 64"
  obtains t where "vec_at bsr2log10 b = Inr t" "entry_ok b t"
proof
  have len: "length bsr2log10 = 64" by (simp add: bsr2log10_def)
  then show "vec_at bsr2log10 b = Inr (bsr2log10 ! b)"
    using assms by (simp add: vec_at_def)
  have "indexed entry_ok 0 bsr2log10"
    by (simp add: bsr2log10_def entry_ok_def)
  then show "entry_ok b (bsr2log10 ! b)"
    using indexed_nth [of entry_ok 0 bsr2log10 b] assms len by simp
qed

lemma powers_ok:
  assumes "0 < t" "t \<le> 20"
  shows "vec_at zero_or_powers_of_10 t = Inr (if t = 1 then 0 else 10 ^ (t - 1))"
proof -
  let ?P = "\<lambda>t p. p = (if t \<le> 1 then 0 else 10 ^ (t - 1))"
  have "indexed ?P 0 zero_or_powers_of_10"
    by (simp add: zero_or_powers_of_10_def powers_of_10_def)
  moreover have "length zero_or_powers_of_10 = 21"
    by (simp add: zero_or_powers_of_10_def powers_of_10_def)
  ultimately show ?thesis
    using indexed_nth [of ?P 0 zero_or_powers_of_10 t] assms by (auto simp: vec_at_def)
qed

lemma entry_digits:
  assumes "entry_ok b t" "n < 2 ^ (b + 1)" "b = 0 \<or> 2 ^ b \<le> n"
  shows "length (digit_string n) = t - (if n < (if t = 1 then 0 else 10 ^ (t - 1)) then 1 else 0)"
proof -
  have t: "0 < t" "n < 10 ^ t"
    using assms(1,2) by (auto simp: entry_ok_def intro: less_le_trans)
  consider "t = 1" | "t = 2" | "2 < t" "10 ^ (t - 2) \<le> n"
    using assms(1,3) by (fastforce simp: entry_ok_def)
  then show ?thesis
  proof cases
    case 3
    then show ?thesis
      using length_digit_string_eq [of n "t - 1"] length_digit_string_eq [of n t] t
      by (auto simp: numeral_2_eq_2 not_less)
  qed (use length_digit_string_eq [of n 1] length_digit_string_eq [of n 2] t in \<open>auto simp: not_less\<close>)
qed

lemma count_digits_64_eq: "count_digits_64 n = Inr (length (digit_string (unat n)))"
proof -
  obtain b where b: "b < 64" "clz (n OR 1) = 63 - b" "unat n < 2 ^ (b + 1)" "b = 0 \<or> 2 ^ b \<le> unat n"
    by (rule top_bit [of n]) auto
  obtain t where t: "vec_at bsr2log10 b = Inr t" "entry_ok b t"
    by (rule bsr2log10_ok [OF b(1)])
  have "0 < t" "t \<le> 20" using t(2) by (simp_all add: entry_ok_def)
  then show ?thesis
    using entry_digits [OF t(2) b(3,4)] powers_ok [of t] t(1) clz_xor_63 [OF b(1)] b(2)
    by (simp add: count_digits_64_def)
qed

lemma length_digit_string_power: "length (digit_string (10 ^ k)) = k + 1"
  using length_digit_string_eq [of "10 ^ k" "k + 1"] by simp

lemma inc_sum:
  assumes "T < 2 ^ 32" "length (digit_string T) = t" "0 < t" "t \<le> 20"
  shows "unat (drop_bit 32 (ucast (n :: u32) + fmt_inc T)) = t - (if unat n < T then 1 else 0)"
proof -
  define x where "x = int (unat n) + int t * 2 ^ 32 - int T"
  have n: "unat n < 2 ^ 32" using unsigned_less [of n] by simp
  have w: "ucast n + fmt_inc T = (word_of_int x :: u64)"
  proof -
    have "push_bit 32 (of_nat t :: u64) = word_of_int (int t * 2 ^ 32)"
      by (simp add: push_bit_eq_mult)
    moreover have "ucast n = (word_of_int (int (unat n)) :: u64)"
      by (simp add: of_nat_unat)
    ultimately show ?thesis
      by (simp only: fmt_inc_def assms(2) x_def) (simp add: algebra_simps)
  qed
  have "1 * 2 ^ 32 \<le> int t * 2 ^ 32" using assms(3) by (intro mult_right_mono) auto
  moreover have iT: "int T < 2 ^ 32" using assms(1) by simp
  ultimately have "0 \<le> x" unfolding x_def by linarith
  moreover have "int t * 2 ^ 32 \<le> 20 * 2 ^ 32" using assms(4) by (intro mult_right_mono) auto
  then have "x < 2 ^ 64" using n of_nat_less_iff [of "unat n" "2 ^ 32", where 'a = int] by (simp add: x_def)
  ultimately have small: "take_bit 64 x = x"
    by (simp add: take_bit_int_eq_self)
  then have "uint (word_of_int x :: u64) = x"
    by (simp add: uint_word_of_int take_bit_eq_mod)
  then have "uint (drop_bit 32 (word_of_int x :: u64)) = drop_bit 32 x"
    by (simp only: unsigned_drop_bit_eq) (simp add: small)
  then have "uint (drop_bit 32 (word_of_int x :: u64)) = x div 2 ^ 32"
    by (simp add: drop_bit_eq_div)
  also have "x div 2 ^ 32 = int t - (if unat n < T then 1 else 0)"
  proof (cases "unat n < T")
    case True
    have "x = (int (unat n) - int T + 2 ^ 32) + (int t - 1) * 2 ^ 32" by (simp add: x_def)
    then have "x div 2 ^ 32 = (int (unat n) - int T + 2 ^ 32) div 2 ^ 32 + (int t - 1)"
      by (metis div_mult_self1 zero_neq_numeral power_not_zero add.commute)
    moreover have "(int (unat n) - int T + 2 ^ 32) div 2 ^ 32 = 0"
    proof (rule div_pos_pos_trivial)
      show "0 \<le> int (unat n) - int T + 2 ^ 32" using iT by linarith
      show "int (unat n) - int T + 2 ^ 32 < 2 ^ 32" using True by linarith
    qed
    ultimately have "x div 2 ^ 32 = int t - 1" by linarith
    then show ?thesis using True by simp
  next
    case False
    have "x = (int (unat n) - int T) + int t * 2 ^ 32" by (simp add: x_def)
    then have "x div 2 ^ 32 = (int (unat n) - int T) div 2 ^ 32 + int t"
      by (metis div_mult_self1 zero_neq_numeral power_not_zero add.commute)
    moreover have "(int (unat n) - int T) div 2 ^ 32 = 0"
    proof (rule div_pos_pos_trivial)
      show "0 \<le> int (unat n) - int T" using False by linarith
      show "int (unat n) - int T < 2 ^ 32"
        using n of_nat_less_iff [of "unat n" "2 ^ 32", where 'a = int] by simp
    qed
    ultimately have "x div 2 ^ 32 = int t" by linarith
    then show ?thesis using False by simp
  qed
  finally have u: "uint (drop_bit 32 (word_of_int x :: u64)) = int t - (if unat n < T then 1 else 0)" .
  show ?thesis
    unfolding w unat_eq_nat_uint [of "drop_bit 32 (word_of_int x :: u64)"] u using assms(3) by auto
qed

lemma inc_numbers_ok:
  assumes "b < 32"
  obtains t where "entry_ok b t" "t \<le> 10" "vec_at (map fmt_inc inc_numbers) b = Inr (fmt_inc (if t = 1 then 0 else 10 ^ (t - 1)))"
proof -
  define ts :: "nat list" where "ts = [1, 1, 1, 2, 2, 2, 3, 3, 3, 4, 4, 4, 5, 5, 5, 6, 6, 6, 7, 7, 7, 8, 8, 8, 9, 9, 9,
    10, 10, 10, 10, 10]"
  have i: "inc_numbers = map (\<lambda>t. if t = 1 then 0 else 10 ^ (t - 1)) ts"
    by (simp add: inc_numbers_def ts_def)
  have len: "length ts = 32" by (simp add: ts_def)
  have "indexed (\<lambda>b t. entry_ok b t \<and> t \<le> 10) 0 ts"
    by (simp add: ts_def entry_ok_def)
  then have "entry_ok b (ts ! b) \<and> ts ! b \<le> 10"
    using indexed_nth [of "\<lambda>b t. entry_ok b t \<and> t \<le> 10" 0 ts b] assms len by simp
  then show thesis
    using that [of "ts ! b"] assms len by (simp add: i vec_at_def del: One_nat_def)
qed

lemma count_digits_32_eq: "count_digits_32 n = Inr (length (digit_string (unat n)))"
proof -
  obtain b where b: "b < 32" "clz (n OR 1) = 31 - b" "unat n < 2 ^ (b + 1)" "b = 0 \<or> 2 ^ b \<le> unat n"
    by (rule top_bit [of n]) auto
  obtain t where t: "entry_ok b t" "t \<le> 10"
    "vec_at (map fmt_inc inc_numbers) b = Inr (fmt_inc (if t = 1 then 0 else 10 ^ (t - 1)))"
    by (rule inc_numbers_ok [OF b(1)])
  let ?T = "if t = 1 then 0 else 10 ^ (t - 1) :: nat"
  have pos: "0 < t" using t(1) by (simp add: entry_ok_def)
  have "(10 :: nat) ^ (t - 1) \<le> 10 ^ 9" using t(2) by (intro power_increasing) simp_all
  then have "?T < 2 ^ 32" by auto
  moreover have "length (digit_string ?T) = t"
    using length_digit_string_power [of "t - 1"] length_digit_string_rec [of 0] pos by auto
  ultimately have "unat (drop_bit 32 (ucast n + fmt_inc ?T)) = t - (if unat n < ?T then 1 else 0)"
    using pos t(2) by (intro inc_sum) auto
  then show ?thesis
    using entry_digits [OF t(1) b(3,4)] t(3) clz_xor_31 [OF b(1)] b(2)
    by (simp add: count_digits_32_def count_digits_inc_def)
qed

section \<open>The text of a number\<close>

lemma digit_pairs_nth: "k < 100 \<Longrightarrow> digit_pairs ! k = [char_of (48 + k div 10), char_of (48 + k mod 10)]"
proof -
  have "\<forall>k \<in> set [0..<100]. digit_pairs ! k = [char_of (48 + k div 10), char_of (48 + k mod 10)]"
    by code_simp
  then show "k < 100 \<Longrightarrow> digit_pairs ! k = [char_of (48 + k div 10), char_of (48 + k mod 10)]" by simp
qed

lemma format_decimal_eq:
  "length (digit_string v) \<le> out \<Longrightarrow>
   format_decimal out v rest = Inr (out - length (digit_string v), digit_string v @ rest)"
proof (induction out v rest rule: format_decimal.induct)
  case (1 out v rest)
  note rec = digit_string.simps [of "v"] digit_string.simps [of "v div 10"]
  consider "v < 10" | "10 \<le> v" "v < 100" | "100 \<le> v" by linarith
  then show ?case
  proof cases
    case 3
    have d: "digit_string v = digit_string (v div 100) @ digit_pairs ! (v mod 100)"
    proof -
      have "v mod 100 = 10 * (v div 10 mod 10) + v mod 10"
        using mod_mult2_eq [of v 10 10] by simp
      then have "v mod 100 div 10 = v div 10 mod 10" "v mod 100 mod 10 = v mod 10"
        by simp_all
      moreover have "10 \<le> v div 10" using 3 by simp
      ultimately show ?thesis
        using rec digit_pairs_nth [of "v mod 100"] by (simp add: div_mult2_eq [symmetric])
    qed
    moreover have "length (digit_pairs ! (v mod 100)) = 2"
      using digit_pairs_nth [of "v mod 100"] by simp
    ultimately show ?thesis
      using "1.IH" "1.prems" 3 by (subst format_decimal.simps) simp
  next
    case 1
    then show ?thesis
      using "1.prems" rec by (subst format_decimal.simps) simp
  next
    case 2
    then have "v div 10 < 10" by linarith
    then have "digit_string v = digit_pairs ! v"
      using rec digit_pairs_nth [of v] 2 by simp
    moreover have "length (digit_pairs ! v) = 2"
      using digit_pairs_nth [of v] 2 by simp
    ultimately show ?thesis
      using "1.prems" 2 by (subst format_decimal.simps) simp
  qed
qed

lemma unat_length_digits:
  assumes "LENGTH('a) \<le> 64"
  shows "length (digit_string (unat (w :: 'a :: len word))) \<le> 20"
proof -
  have "unat w < 2 ^ LENGTH('a)" by (rule unsigned_less)
  also have "(2 :: nat) ^ LENGTH('a) \<le> 2 ^ 64" using assms by (rule power_increasing) simp
  also have "(2 :: nat) ^ 64 < 10 ^ 20" by simp
  finally show ?thesis by (rule length_digit_string_le) simp
qed

lemma format_int_unsigned_eq:
  "LENGTH('a) \<le> 64 \<Longrightarrow> format_int_unsigned (w :: 'a :: len word) = Inr (digit_string (unat w))"
  using unat_length_digits [of w]
  by (simp add: format_int_unsigned_def format_unsigned_def buffer_size_def format_decimal_eq)

lemma negated_word:
  assumes "sint (w :: 'a :: len word) < 0"
  shows "unat (0 - w) = nat (- sint w)"
proof -
  have "- sint w \<le> 2 ^ (LENGTH('a) - 1)" using sint_greater_eq [of w] by simp
  also have "(2 :: int) ^ (LENGTH('a) - 1) < 2 ^ LENGTH('a)" by (rule power_strict_increasing) simp_all
  finally have b: "- sint w < 2 ^ LENGTH('a)" .
  have "0 - w = word_of_int (- sint w)" by simp
  then have "uint (0 - w) = - sint w"
    using b assms by (simp only: uint_word_of_int) (simp add: take_bit_int_eq_self)
  then show ?thesis by (simp add: unat_eq_nat_uint)
qed

lemma format_int_signed_eq:
  assumes "LENGTH('a) \<le> 64"
  shows "format_int_signed (w :: 'a :: len word) = Inr (decimal (sint w))"
proof (cases "sint w < 0")
  case True
  then show ?thesis
    using unat_length_digits [of "0 - w", OF assms] negated_word [OF True]
    by (simp add: format_int_signed_def format_signed_def format_unsigned_def buffer_size_def format_decimal_eq
        decimal_def Let_def)
next
  case False
  have "sint w < 2 ^ (LENGTH('a) - 1)" using sint_less [of w] by simp
  also have "(2 :: int) ^ (LENGTH('a) - 1) < 2 ^ LENGTH('a)" by (rule power_strict_increasing) simp_all
  finally have "uint w = sint w"
    using False by (subst uint_sint) (simp add: take_bit_int_eq_self)
  then have "nat (sint w) = unat w" by (simp add: unat_eq_nat_uint)
  then show ?thesis
    using False unat_length_digits [of w, OF assms]
    by (simp add: format_int_signed_def format_signed_def format_unsigned_def buffer_size_def format_decimal_eq
        decimal_def Let_def)
qed

text \<open>C23: The fast integer routines of the formatting library compute what the slow ones do.  For
  every 32-bit and 64-bit number the table-driven counts and the count by groups of four give
  the number of its decimal digits, every table being read within its bounds; and the text
  that is written in pairs of digits from the back of the buffer is the decimal number, with
  its sign, and never runs out of the buffer.\<close>

theorem integer_text_exact:
  "count_digits_32 a = Inr (length (digit_string (unat a))) \<and>
   count_digits_64 b = Inr (length (digit_string (unat b))) \<and>
   count_digits_fallback n 1 = length (digit_string n) \<and>
   format_int_unsigned b = Inr (digit_string (unat b)) \<and>
   format_int_unsigned a = Inr (digit_string (unat a)) \<and>
   format_int_signed a = Inr (decimal (sint a)) \<and>
   format_int_signed b = Inr (decimal (sint b))"
  using count_digits_32_eq count_digits_64_eq count_digits_fallback_eq [of n 1]
    format_int_unsigned_eq [of a] format_int_unsigned_eq [of b] format_int_signed_eq [of a] format_int_signed_eq [of b]
  by simp

end
