(* ===== verification/FlagFormatters.thy ===== *)
theory FlagFormatters
  imports FmtInt LogTimed Loggers
begin

text \<open>
  The formatters of single flags (pattern_formatter-inl.h, lines 33 to 1013) over the helpers of
  details/fmt_helper.h.  A buffer is a string, and what appends to it a writer, which may run
  into a fault; writes does several one after the other.  A class x_formatter is the definition
  x_format; its template argument is the padder, its member padinfo_ an argument.

  A scoped_padder pads in its constructor and in its destructor: with_padder puts the writing
  between the two.  When it truncates it cuts the whole buffer, by what the field is declared
  to be too wide: resize with a negative number asks for more memory than there is, and the
  exception in a destructor ends the program.

  Times are in nanoseconds; a duration_cast rounds towards zero.
\<close>

section \<open>details/fmt_helper.h\<close>

type_synonym writer = "string \<Rightarrow> string res"

fun writes :: "writer list \<Rightarrow> writer" where
  "writes [] dest = Inr dest"
| "writes (w # ws) dest = bind_res (w dest) (writes ws)"

definition push_back :: "char \<Rightarrow> writer" where
  "push_back c dest = Inr (dest @ [c])"

definition append_string_view :: "string \<Rightarrow> writer" where
  "append_string_view view dest = Inr (dest @ view)"

text \<open>append_int at its instances: int, int64_t, uint32_t and size_t.\<close>

definition append_i32 :: "int \<Rightarrow> writer" where
  "append_i32 n dest = bind_res (format_int_signed (word_of_int n :: u32)) (\<lambda>i. Inr (dest @ i))"

definition append_i64 :: "int \<Rightarrow> writer" where
  "append_i64 n dest = bind_res (format_int_signed (word_of_int n :: u64)) (\<lambda>i. Inr (dest @ i))"

definition append_u32 :: "u32 \<Rightarrow> writer" where
  "append_u32 n dest = bind_res (format_int_unsigned n) (\<lambda>i. Inr (dest @ i))"

definition append_u64 :: "u64 \<Rightarrow> writer" where
  "append_u64 n dest = bind_res (format_int_unsigned n) (\<lambda>i. Inr (dest @ i))"

definition pad2 :: "int \<Rightarrow> writer" where
  "pad2 n dest =
     (if n \<ge> 0 \<and> n < 100 then Inr (dest @ [char_of (48 + nat n div 10), char_of (48 + nat n mod 10)])
      else Inr (dest @ fmt_0d 2 n))"

definition pad_uint :: "u64 \<Rightarrow> nat \<Rightarrow> writer" where
  "pad_uint n width dest =
     bind_res (count_digits_64 n) (\<lambda>digits. append_u64 n (dest @ replicate (width - digits) CHR ''0''))"

definition pad3 :: "u32 \<Rightarrow> writer" where
  "pad3 n dest =
     (if n < 1000
      then Inr (dest @ [char_of (unat n div 100 + 48), char_of (unat n mod 100 div 10 + 48),
                        char_of (unat n mod 100 mod 10 + 48)])
      else append_u32 n dest)"

definition pad6 :: "u64 \<Rightarrow> writer" where
  "pad6 n dest = pad_uint n 6 dest"

definition pad9 :: "u64 \<Rightarrow> writer" where
  "pad9 n dest = pad_uint n 9 dest"

definition trunc_div :: "int \<Rightarrow> int \<Rightarrow> int" where
  "trunc_div a b = (if a \<ge> 0 then a div b else - (- a div b))"

definition int_rem :: "int \<Rightarrow> int \<Rightarrow> int" where
  "int_rem a b = a - b * trunc_div a b"

definition to_seconds :: "int \<Rightarrow> int" where
  "to_seconds tp = trunc_div tp 1000000000"

text \<open>time_fraction, for a duration of so many nanoseconds.\<close>

definition time_fraction :: "int \<Rightarrow> int \<Rightarrow> int" where
  "time_fraction unit tp = trunc_div tp unit - to_seconds tp * (1000000000 div unit)"

section \<open>Padding\<close>

datatype pad_side = Pad_Left | Pad_Right | Pad_Center

record padding_info =
  pi_width :: nat
  pi_side :: pad_side
  pi_truncate :: bool
  pi_enabled :: bool

definition no_padding :: padding_info where
  "no_padding = \<lparr>pi_width = 0, pi_side = Pad_Left, pi_truncate = False, pi_enabled = False\<rparr>"

definition make_padding :: "nat \<Rightarrow> pad_side \<Rightarrow> bool \<Rightarrow> padding_info" where
  "make_padding width side trunc = \<lparr>pi_width = width, pi_side = side, pi_truncate = trunc, pi_enabled = True\<rparr>"

text \<open>pad_it reads its spaces from a string of 64.\<close>

definition pad_it :: "int \<Rightarrow> writer" where
  "pad_it count dest =
     (if 0 \<le> count \<and> count \<le> 64 then Inr (dest @ replicate (nat count) CHR '' '') else Inl Out_Of_Bounds)"

definition padder_open :: "nat \<Rightarrow> padding_info \<Rightarrow> string \<Rightarrow> (int \<times> string) res" where
  "padder_open wrapped_size padinfo dest =
     (let remaining_pad = int (pi_width padinfo) - int wrapped_size
      in if remaining_pad \<le> 0 then Inr (remaining_pad, dest)
         else (case pi_side padinfo of
                 Pad_Left \<Rightarrow> bind_res (pad_it remaining_pad dest) (\<lambda>dest. Inr (0, dest))
               | Pad_Center \<Rightarrow>
                   (let half_pad = remaining_pad div 2; reminder = remaining_pad mod 2
                    in bind_res (pad_it half_pad dest) (\<lambda>dest. Inr (half_pad + reminder, dest)))
               | Pad_Right \<Rightarrow> Inr (remaining_pad, dest)))"

definition padder_close :: "padding_info \<Rightarrow> int \<Rightarrow> writer" where
  "padder_close padinfo remaining_pad dest =
     (if remaining_pad \<ge> 0 then pad_it remaining_pad dest
      else if pi_truncate padinfo
      then (let new_size = int (length dest) + remaining_pad
            in if new_size < 0 then Inl Terminated else Inr (take (nat new_size) dest))
      else Inr dest)"

datatype padder = Scoped_Padder | Null_Scoped_Padder

definition with_padder :: "padder \<Rightarrow> nat \<Rightarrow> padding_info \<Rightarrow> writer \<Rightarrow> writer" where
  "with_padder p wrapped_size padinfo body dest =
     (case p of
        Null_Scoped_Padder \<Rightarrow> body dest
      | Scoped_Padder \<Rightarrow>
          bind_res (padder_open wrapped_size padinfo dest) (\<lambda>(remaining_pad, dest).
            bind_res (body dest) (padder_close padinfo remaining_pad)))"

definition padder_count_digits_32 :: "padder \<Rightarrow> u32 \<Rightarrow> nat res" where
  "padder_count_digits_32 p n = (case p of Scoped_Padder \<Rightarrow> count_digits_32 n | Null_Scoped_Padder \<Rightarrow> Inr 0)"

definition padder_count_digits_64 :: "padder \<Rightarrow> u64 \<Rightarrow> nat res" where
  "padder_count_digits_64 p n = (case p of Scoped_Padder \<Rightarrow> count_digits_64 n | Null_Scoped_Padder \<Rightarrow> Inr 0)"

definition padded_text :: "padder \<Rightarrow> padding_info \<Rightarrow> string \<Rightarrow> writer" where
  "padded_text p padinfo s dest = with_padder p (length s) padinfo (append_string_view s) dest"

section \<open>Name, level and message\<close>

definition name_format :: "padder \<Rightarrow> padding_info \<Rightarrow> log_msg \<Rightarrow> writer" where
  "name_format p padinfo msg =
     padded_text p padinfo (lm_logger_name msg)"

definition level_format :: "padder \<Rightarrow> padding_info \<Rightarrow> log_msg \<Rightarrow> writer" where
  "level_format p padinfo msg =
     padded_text p padinfo (to_string_view (lm_level msg))"

definition short_level_format :: "padder \<Rightarrow> padding_info \<Rightarrow> log_msg \<Rightarrow> writer" where
  "short_level_format p padinfo msg =
     padded_text p padinfo (to_short_c_str (lm_level msg))"

definition v_format :: "padder \<Rightarrow> padding_info \<Rightarrow> log_msg \<Rightarrow> writer" where
  "v_format p padinfo msg =
     padded_text p padinfo (lm_payload msg)"

section \<open>Date and time\<close>

definition ampm :: "tm \<Rightarrow> string" where
  "ampm t = (if tm_hour t \<ge> 12 then ''PM'' else ''AM'')"

definition to12h :: "tm \<Rightarrow> int" where
  "to12h t = (if tm_hour t > 12 then tm_hour t - 12 else tm_hour t)"

definition days :: "string list" where
  "days = [''Sun'', ''Mon'', ''Tue'', ''Wed'', ''Thu'', ''Fri'', ''Sat'']"

definition full_days :: "string list" where
  "full_days = [''Sunday'', ''Monday'', ''Tuesday'', ''Wednesday'', ''Thursday'', ''Friday'', ''Saturday'']"

definition months :: "string list" where
  "months = [''Jan'', ''Feb'', ''Mar'', ''Apr'', ''May'', ''Jun'', ''Jul'', ''Aug'', ''Sept'', ''Oct'', ''Nov'', ''Dec'']"

definition full_months :: "string list" where
  "full_months = [''January'', ''February'', ''March'', ''April'', ''May'', ''June'', ''July'', ''August'', ''September'',
     ''October'', ''November'', ''December'']"

text \<open>The index is converted to size_t: a negative one is out of range as well.\<close>

definition name_at :: "string list \<Rightarrow> int \<Rightarrow> string res" where
  "name_at names i = (if i < 0 then Inl Out_Of_Bounds else vec_at names (nat i))"

definition append_name :: "string list \<Rightarrow> int \<Rightarrow> writer" where
  "append_name names i dest = bind_res (name_at names i) (\<lambda>view. append_string_view view dest)"

definition of_sum :: "int \<Rightarrow> int \<Rightarrow> (int \<Rightarrow> writer) \<Rightarrow> writer" where
  "of_sum a b w dest = bind_res (chk32 (a + b)) (\<lambda>n. w n dest)"

definition a_format :: "padder \<Rightarrow> padding_info \<Rightarrow> tm \<Rightarrow> writer" where
  "a_format p padinfo t dest =
     bind_res (name_at days (tm_wday t)) (\<lambda>field_value. padded_text p padinfo field_value dest)"

definition A_format :: "padder \<Rightarrow> padding_info \<Rightarrow> tm \<Rightarrow> writer" where
  "A_format p padinfo t dest =
     bind_res (name_at full_days (tm_wday t)) (\<lambda>field_value. padded_text p padinfo field_value dest)"

definition b_format :: "padder \<Rightarrow> padding_info \<Rightarrow> tm \<Rightarrow> writer" where
  "b_format p padinfo t dest =
     bind_res (name_at months (tm_mon t)) (\<lambda>field_value. padded_text p padinfo field_value dest)"

definition B_format :: "padder \<Rightarrow> padding_info \<Rightarrow> tm \<Rightarrow> writer" where
  "B_format p padinfo t dest =
     bind_res (name_at full_months (tm_mon t)) (\<lambda>field_value. padded_text p padinfo field_value dest)"

definition c_format :: "padder \<Rightarrow> padding_info \<Rightarrow> tm \<Rightarrow> writer" where
  "c_format p padinfo t =
     with_padder p 24 padinfo (writes
       [append_name days (tm_wday t), push_back CHR '' '', append_name months (tm_mon t), push_back CHR '' '',
        append_i32 (tm_mday t), push_back CHR '' '',
        pad2 (tm_hour t), push_back CHR '':'', pad2 (tm_min t), push_back CHR '':'', pad2 (tm_sec t), push_back CHR '' '',
        of_sum (tm_year t) 1900 append_i32])"

definition C_format :: "padder \<Rightarrow> padding_info \<Rightarrow> tm \<Rightarrow> writer" where
  "C_format p padinfo t =
     with_padder p 2 padinfo (writes
       [pad2 (int_rem (tm_year t) 100)])"

definition D_format :: "padder \<Rightarrow> padding_info \<Rightarrow> tm \<Rightarrow> writer" where
  "D_format p padinfo t =
     with_padder p 10 padinfo (writes
       [of_sum (tm_mon t) 1 pad2, push_back CHR ''/'', pad2 (tm_mday t), push_back CHR ''/'', pad2 (int_rem (tm_year t) 100)])"

definition Y_format :: "padder \<Rightarrow> padding_info \<Rightarrow> tm \<Rightarrow> writer" where
  "Y_format p padinfo t =
     with_padder p 4 padinfo (writes
       [of_sum (tm_year t) 1900 append_i32])"

definition m_format :: "padder \<Rightarrow> padding_info \<Rightarrow> tm \<Rightarrow> writer" where
  "m_format p padinfo t =
     with_padder p 2 padinfo (writes
       [of_sum (tm_mon t) 1 pad2])"

definition d_format :: "padder \<Rightarrow> padding_info \<Rightarrow> tm \<Rightarrow> writer" where
  "d_format p padinfo t =
     with_padder p 2 padinfo (writes
       [pad2 (tm_mday t)])"

definition H_format :: "padder \<Rightarrow> padding_info \<Rightarrow> tm \<Rightarrow> writer" where
  "H_format p padinfo t =
     with_padder p 2 padinfo (writes
       [pad2 (tm_hour t)])"

definition I_format :: "padder \<Rightarrow> padding_info \<Rightarrow> tm \<Rightarrow> writer" where
  "I_format p padinfo t =
     with_padder p 2 padinfo (writes
       [pad2 (to12h t)])"

definition M_format :: "padder \<Rightarrow> padding_info \<Rightarrow> tm \<Rightarrow> writer" where
  "M_format p padinfo t =
     with_padder p 2 padinfo (writes
       [pad2 (tm_min t)])"

definition S_format :: "padder \<Rightarrow> padding_info \<Rightarrow> tm \<Rightarrow> writer" where
  "S_format p padinfo t =
     with_padder p 2 padinfo (writes
       [pad2 (tm_sec t)])"

definition e_format :: "padder \<Rightarrow> padding_info \<Rightarrow> log_msg \<Rightarrow> writer" where
  "e_format p padinfo msg =
     with_padder p 3 padinfo (writes
       [pad3 (word_of_int (time_fraction 1000000 (lm_time msg)))])"

definition f_format :: "padder \<Rightarrow> padding_info \<Rightarrow> log_msg \<Rightarrow> writer" where
  "f_format p padinfo msg =
     with_padder p 6 padinfo (writes
       [pad6 (word_of_int (time_fraction 1000 (lm_time msg)))])"

definition F_format :: "padder \<Rightarrow> padding_info \<Rightarrow> log_msg \<Rightarrow> writer" where
  "F_format p padinfo msg =
     with_padder p 9 padinfo (writes
       [pad9 (word_of_int (time_fraction 1 (lm_time msg)))])"

definition E_format :: "padder \<Rightarrow> padding_info \<Rightarrow> log_msg \<Rightarrow> writer" where
  "E_format p padinfo msg =
     with_padder p 10 padinfo (writes
       [append_i64 (to_seconds (lm_time msg))])"

definition p_format :: "padder \<Rightarrow> padding_info \<Rightarrow> tm \<Rightarrow> writer" where
  "p_format p padinfo t =
     with_padder p 2 padinfo (writes
       [append_string_view (ampm t)])"

definition r_format :: "padder \<Rightarrow> padding_info \<Rightarrow> tm \<Rightarrow> writer" where
  "r_format p padinfo t =
     with_padder p 11 padinfo (writes
       [pad2 (to12h t), push_back CHR '':'', pad2 (tm_min t), push_back CHR '':'', pad2 (tm_sec t), push_back CHR '' '',
        append_string_view (ampm t)])"

definition R_format :: "padder \<Rightarrow> padding_info \<Rightarrow> tm \<Rightarrow> writer" where
  "R_format p padinfo t =
     with_padder p 5 padinfo (writes
       [pad2 (tm_hour t), push_back CHR '':'', pad2 (tm_min t)])"

definition T_format :: "padder \<Rightarrow> padding_info \<Rightarrow> tm \<Rightarrow> writer" where
  "T_format p padinfo t =
     with_padder p 8 padinfo (writes
       [pad2 (tm_hour t), push_back CHR '':'', pad2 (tm_min t), push_back CHR '':'', pad2 (tm_sec t)])"

text \<open>
  The offset from UTC is asked for once in ten seconds of log time; the state of the formatter
  is the time of the last update and the offset.
\<close>

definition get_cached_offset :: "(tm \<Rightarrow> int) \<Rightarrow> log_msg \<Rightarrow> tm \<Rightarrow> int \<times> int \<Rightarrow> int \<times> int \<times> int" where
  "get_cached_offset utc_minutes_offset msg t cache =
     (let (last_update, offset_minutes) = cache
      in if lm_time msg - last_update \<ge> seconds 10
         then (utc_minutes_offset t, lm_time msg, utc_minutes_offset t)
         else (offset_minutes, last_update, offset_minutes))"

definition z_format :: "padder \<Rightarrow> padding_info \<Rightarrow> int \<Rightarrow> writer" where
  "z_format p padinfo total_minutes =
     with_padder p 6 padinfo (writes
       (if total_minutes < 0
        then [push_back CHR ''-'', pad2 (- total_minutes div 60), push_back CHR '':'', pad2 (- total_minutes mod 60)]
        else [push_back CHR ''+'', pad2 (total_minutes div 60), push_back CHR '':'', pad2 (total_minutes mod 60)]))"

section \<open>Thread, process and source\<close>

definition t_format :: "padder \<Rightarrow> padding_info \<Rightarrow> log_msg \<Rightarrow> writer" where
  "t_format p padinfo msg dest =
     (let thread_id = of_nat (lm_thread_id msg)
      in bind_res (padder_count_digits_64 p thread_id) (\<lambda>field_size.
           with_padder p field_size padinfo (append_u64 thread_id) dest))"

definition pid_format :: "padder \<Rightarrow> padding_info \<Rightarrow> u32 \<Rightarrow> writer" where
  "pid_format p padinfo pid dest =
     bind_res (padder_count_digits_32 p pid) (\<lambda>field_size.
       with_padder p field_size padinfo (append_u32 pid) dest)"

text \<open>The names of a source location are pointers to characters, which may be null.\<close>

definition source_filename :: "log_msg \<Rightarrow> string res" where
  "source_filename msg = of_opt Bad_Access (sl_filename (lm_source msg))"

definition source_location_format :: "padder \<Rightarrow> padding_info \<Rightarrow> log_msg \<Rightarrow> writer" where
  "source_location_format p padinfo msg dest =
     (if source_empty (lm_source msg) then Inr dest
      else
        bind_res (source_filename msg) (\<lambda>filename.
        bind_res
          (if pi_enabled padinfo
           then bind_res (padder_count_digits_32 p (word_of_int (sl_line (lm_source msg)))) (\<lambda>digits.
             Inr (length filename + digits + 1))
           else Inr 0)
          (\<lambda>text_size. with_padder p text_size padinfo (writes
             [append_string_view filename, push_back CHR '':'', append_i32 (sl_line (lm_source msg))]) dest)))"

definition source_filename_format :: "padder \<Rightarrow> padding_info \<Rightarrow> log_msg \<Rightarrow> writer" where
  "source_filename_format p padinfo msg dest =
     (if source_empty (lm_source msg) then Inr dest
      else
        bind_res (source_filename msg) (\<lambda>filename.
          with_padder p (if pi_enabled padinfo then length filename else 0) padinfo (append_string_view filename) dest))"

text \<open>basename: what comes after the last separator.\<close>

definition basename_of :: "string \<Rightarrow> string" where
  "basename_of filename = rev (takeWhile (\<lambda>c. c \<noteq> CHR ''/'') (rev filename))"

definition short_filename_format :: "padder \<Rightarrow> padding_info \<Rightarrow> log_msg \<Rightarrow> writer" where
  "short_filename_format p padinfo msg dest =
     (if source_empty (lm_source msg) then Inr dest
      else
        bind_res (source_filename msg) (\<lambda>path.
          let filename = basename_of path
          in with_padder p (if pi_enabled padinfo then length filename else 0) padinfo (append_string_view filename) dest))"

definition source_linenum_format :: "padder \<Rightarrow> padding_info \<Rightarrow> log_msg \<Rightarrow> writer" where
  "source_linenum_format p padinfo msg dest =
     (if source_empty (lm_source msg) then Inr dest
      else
        bind_res (padder_count_digits_32 p (word_of_int (sl_line (lm_source msg)))) (\<lambda>field_size.
          with_padder p field_size padinfo (append_i32 (sl_line (lm_source msg))) dest))"

definition source_funcname_format :: "padder \<Rightarrow> padding_info \<Rightarrow> log_msg \<Rightarrow> writer" where
  "source_funcname_format p padinfo msg dest =
     (if source_empty (lm_source msg) then Inr dest
      else
        bind_res (of_opt Bad_Access (sl_funcname (lm_source msg))) (\<lambda>funcname.
          with_padder p (if pi_enabled padinfo then length funcname else 0) padinfo (append_string_view funcname) dest))"

text \<open>
  The time since the last message, in units of so many nanoseconds; last is the time of the
  message before, which the caller replaces.
\<close>

definition elapsed_format :: "padder \<Rightarrow> padding_info \<Rightarrow> int \<Rightarrow> int \<Rightarrow> log_msg \<Rightarrow> writer" where
  "elapsed_format p padinfo unit last_time msg dest =
     (let delta = max (lm_time msg - last_time) 0;
          delta_count = word_of_int (trunc_div delta unit) :: u64
      in bind_res (padder_count_digits_64 p delta_count) (\<lambda>n_digits.
           with_padder p n_digits padinfo (append_u64 delta_count) dest))"

section \<open>The full formatter\<close>

text \<open>The text of the date and time, which is kept for the other messages of the second.\<close>

definition full_datetime :: "tm \<Rightarrow> string res" where
  "full_datetime t = writes
     [push_back CHR ''['', of_sum (tm_year t) 1900 append_i32, push_back CHR ''-'',
      of_sum (tm_mon t) 1 pad2, push_back CHR ''-'', pad2 (tm_mday t), push_back CHR '' '',
      pad2 (tm_hour t), push_back CHR '':'', pad2 (tm_min t), push_back CHR '':'',
      pad2 (tm_sec t), push_back CHR ''.''] []"

definition full_before_level :: "log_msg \<Rightarrow> writer" where
  "full_before_level msg = writes
     ([pad3 (word_of_int (time_fraction 1000000 (lm_time msg))), push_back CHR '']'', push_back CHR '' ''] @
      (if length (lm_logger_name msg) > 0
       then [push_back CHR ''['', append_string_view (lm_logger_name msg), push_back CHR '']'', push_back CHR '' '']
       else []) @
      [push_back CHR ''[''])"

definition full_after_level :: "log_msg \<Rightarrow> writer" where
  "full_after_level msg dest =
     bind_res
       (if source_empty (lm_source msg) then Inr []
        else bind_res (source_filename msg) (\<lambda>path. Inr
          [push_back CHR ''['', append_string_view (basename_of path), push_back CHR '':'',
           append_i32 (sl_line (lm_source msg)), push_back CHR '']'', push_back CHR '' '']))
       (\<lambda>source.
          writes ([push_back CHR '']'', push_back CHR '' ''] @ source @ [append_string_view (lm_payload msg)]) dest)"

end
