(* ===== verification/PatternFormatter.thy ===== *)
theory PatternFormatter
  imports FlagFormatters
begin

text \<open>
  The pattern formatter (pattern_formatter-inl.h): a pattern is compiled to a list of flag
  formatters, which write one after the other.  A flag formatter is a value of flag_formatter;
  the classes without state are the constructor Field with the name of the class, the others
  carry their state, and format gives the formatter back as it is afterwards.

  fmt_out is what a call of format changes: the buffer, and the two members of the message that
  mark the range of the colour.  fmt_env is what the formatter asks the system for: the local
  time and UTC, the offset between them, and the number of the process.  A custom flag is a
  number, of which fe_custom is the behaviour; such a formatter has no state of its own.
\<close>

section \<open>Flag formatters\<close>

record fmt_env =
  fe_localtime :: "int \<Rightarrow> tm"
  fe_gmtime :: "int \<Rightarrow> tm"
  fe_utc_minutes_offset :: "tm \<Rightarrow> int"
  fe_pid :: u32
  fe_custom :: "nat \<Rightarrow> padding_info \<Rightarrow> log_msg \<Rightarrow> tm \<Rightarrow> writer"

record fmt_out =
  fo_text :: string
  fo_color_start :: nat
  fo_color_end :: nat

datatype field = F_name | F_level | F_short_level | F_thread | F_v | F_a | F_A | F_b | F_B | F_c | F_C | F_Y | F_D
  | F_m | F_d | F_H | F_I | F_M | F_S | F_e | F_f | F_F | F_E | F_p | F_r | F_R | F_T | F_pid
  | F_source_location | F_short_filename | F_source_filename | F_source_linenum | F_source_funcname

definition field_format :: "fmt_env \<Rightarrow> field \<Rightarrow> padder \<Rightarrow> padding_info \<Rightarrow> log_msg \<Rightarrow> tm \<Rightarrow> writer" where
  "field_format env f p padinfo msg t =
     (case f of
        F_name \<Rightarrow> name_format p padinfo msg
      | F_level \<Rightarrow> level_format p padinfo msg
      | F_short_level \<Rightarrow> short_level_format p padinfo msg
      | F_thread \<Rightarrow> t_format p padinfo msg
      | F_v \<Rightarrow> v_format p padinfo msg
      | F_a \<Rightarrow> a_format p padinfo t
      | F_A \<Rightarrow> A_format p padinfo t
      | F_b \<Rightarrow> b_format p padinfo t
      | F_B \<Rightarrow> B_format p padinfo t
      | F_c \<Rightarrow> c_format p padinfo t
      | F_C \<Rightarrow> C_format p padinfo t
      | F_Y \<Rightarrow> Y_format p padinfo t
      | F_D \<Rightarrow> D_format p padinfo t
      | F_m \<Rightarrow> m_format p padinfo t
      | F_d \<Rightarrow> d_format p padinfo t
      | F_H \<Rightarrow> H_format p padinfo t
      | F_I \<Rightarrow> I_format p padinfo t
      | F_M \<Rightarrow> M_format p padinfo t
      | F_S \<Rightarrow> S_format p padinfo t
      | F_e \<Rightarrow> e_format p padinfo msg
      | F_f \<Rightarrow> f_format p padinfo msg
      | F_F \<Rightarrow> F_format p padinfo msg
      | F_E \<Rightarrow> E_format p padinfo msg
      | F_p \<Rightarrow> p_format p padinfo t
      | F_r \<Rightarrow> r_format p padinfo t
      | F_R \<Rightarrow> R_format p padinfo t
      | F_T \<Rightarrow> T_format p padinfo t
      | F_pid \<Rightarrow> pid_format p padinfo (fe_pid env)
      | F_source_location \<Rightarrow> source_location_format p padinfo msg
      | F_short_filename \<Rightarrow> short_filename_format p padinfo msg
      | F_source_filename \<Rightarrow> source_filename_format p padinfo msg
      | F_source_linenum \<Rightarrow> source_linenum_format p padinfo msg
      | F_source_funcname \<Rightarrow> source_funcname_format p padinfo msg)"

datatype flag_formatter =
    Field field padder padding_info
  | Z_Formatter padder padding_info int int \<comment> \<open>last_update_ and offset_minutes_\<close>
  | Elapsed_Formatter padder padding_info int int \<comment> \<open>the unit and last_message_time_\<close>
  | Full_Formatter padding_info int string \<comment> \<open>cache_timestamp_ and cached_datetime_\<close>
  | Ch_Formatter char
  | Aggregate_Formatter string
  | Color_Start_Formatter padding_info
  | Color_Stop_Formatter padding_info
  | Custom_Formatter nat padding_info

definition on_text :: "writer \<Rightarrow> fmt_out \<Rightarrow> fmt_out res" where
  "on_text w out = bind_res (w (fo_text out)) (\<lambda>s. Inr (out\<lparr>fo_text := s\<rparr>))"

definition color_start :: "fmt_out \<Rightarrow> fmt_out" where
  "color_start out = out\<lparr>fo_color_start := length (fo_text out)\<rparr>"

definition color_stop :: "fmt_out \<Rightarrow> fmt_out" where
  "color_stop out = out\<lparr>fo_color_end := length (fo_text out)\<rparr>"

definition full_format :: "string \<Rightarrow> log_msg \<Rightarrow> fmt_out \<Rightarrow> fmt_out res" where
  "full_format cached_datetime msg out =
     bind_res (on_text (writes [append_string_view cached_datetime, full_before_level msg]) out) (\<lambda>out.
     bind_res (on_text (append_string_view (to_string_view (lm_level msg))) (color_start out)) (\<lambda>out.
     on_text (full_after_level msg) (color_stop out)))"

fun flag_format :: "fmt_env \<Rightarrow> flag_formatter \<Rightarrow> log_msg \<Rightarrow> tm \<Rightarrow> fmt_out \<Rightarrow> (flag_formatter \<times> fmt_out) res" where
  "flag_format env (Field f p padinfo) msg t out =
     bind_res (on_text (field_format env f p padinfo msg t) out) (\<lambda>out. Inr (Field f p padinfo, out))"
| "flag_format env (Z_Formatter p padinfo last_update offset) msg t out =
     (let (total_minutes, last_update, offset) = get_cached_offset (fe_utc_minutes_offset env) msg t (last_update, offset)
      in bind_res (on_text (z_format p padinfo total_minutes) out) (\<lambda>out.
           Inr (Z_Formatter p padinfo last_update offset, out)))"
| "flag_format env (Elapsed_Formatter p padinfo unit last_time) msg t out =
     bind_res (on_text (elapsed_format p padinfo unit last_time msg) out) (\<lambda>out.
       Inr (Elapsed_Formatter p padinfo unit (lm_time msg), out))"
| "flag_format env (Full_Formatter padinfo cache_timestamp cached_datetime) msg t out =
     (let secs = to_seconds (lm_time msg)
      in bind_res
           (if cache_timestamp \<noteq> secs \<or> length cached_datetime = 0
            then bind_res (full_datetime t) (\<lambda>datetime. Inr (secs, datetime))
            else Inr (cache_timestamp, cached_datetime))
           (\<lambda>(cache_timestamp, cached_datetime).
              bind_res (full_format cached_datetime msg out) (\<lambda>out.
                Inr (Full_Formatter padinfo cache_timestamp cached_datetime, out))))"
| "flag_format env (Ch_Formatter ch) msg t out =
     bind_res (on_text (push_back ch) out) (\<lambda>out. Inr (Ch_Formatter ch, out))"
| "flag_format env (Aggregate_Formatter str) msg t out =
     bind_res (on_text (append_string_view str) out) (\<lambda>out. Inr (Aggregate_Formatter str, out))"
| "flag_format env (Color_Start_Formatter padinfo) msg t out = Inr (Color_Start_Formatter padinfo, color_start out)"
| "flag_format env (Color_Stop_Formatter padinfo) msg t out = Inr (Color_Stop_Formatter padinfo, color_stop out)"
| "flag_format env (Custom_Formatter h padinfo) msg t out =
     bind_res (on_text (fe_custom env h padinfo msg t) out) (\<lambda>out. Inr (Custom_Formatter h padinfo, out))"

section \<open>Patterns\<close>

text \<open>The cases of the switch of handle_flag_ whose classes have no state.\<close>

definition field_of :: "char \<Rightarrow> field option" where
  "field_of flag = map_of
     [(CHR ''n'', F_name), (CHR ''l'', F_level), (CHR ''L'', F_short_level), (CHR ''t'', F_thread), (CHR ''v'', F_v),
      (CHR ''a'', F_a), (CHR ''A'', F_A), (CHR ''b'', F_b), (CHR ''h'', F_b), (CHR ''B'', F_B), (CHR ''c'', F_c),
      (CHR ''C'', F_C), (CHR ''Y'', F_Y), (CHR ''D'', F_D), (CHR ''x'', F_D), (CHR ''m'', F_m), (CHR ''d'', F_d),
      (CHR ''H'', F_H), (CHR ''I'', F_I), (CHR ''M'', F_M), (CHR ''S'', F_S), (CHR ''e'', F_e), (CHR ''f'', F_f),
      (CHR ''F'', F_F), (CHR ''E'', F_E), (CHR ''p'', F_p), (CHR ''r'', F_r), (CHR ''R'', F_R), (CHR ''T'', F_T),
      (CHR ''X'', F_T), (CHR ''P'', F_pid), (CHR ''@'', F_source_location), (CHR ''s'', F_short_filename),
      (CHR ''g'', F_source_filename), (CHR ''#'', F_source_linenum), (CHR ''!'', F_source_funcname)] flag"

text \<open>
  handle_flag_ gives the formatters that it appends; now is the clock, which the formatter of
  elapsed time reads when it is made.
\<close>

definition handle_flag ::
    "(char \<times> nat) list \<Rightarrow> int \<Rightarrow> padder \<Rightarrow> char \<Rightarrow> padding_info \<Rightarrow> flag_formatter list" where
  "handle_flag custom now p flag padding =
     (case map_find custom flag of
        Some h \<Rightarrow> [Custom_Formatter h padding]
      | None \<Rightarrow>
          (case field_of flag of
             Some f \<Rightarrow> [Field f p padding]
           | None \<Rightarrow>
               if flag = CHR ''+'' then [Full_Formatter padding 0 []]
               else if flag = CHR ''z'' then [Z_Formatter p padding 0 0]
               else if flag = CHR ''^'' then [Color_Start_Formatter padding]
               else if flag = CHR ''$'' then [Color_Stop_Formatter padding]
               else if flag = CHR ''%'' then [Ch_Formatter CHR ''%'']
               else if flag = CHR ''u'' then [Elapsed_Formatter p padding 1 now]
               else if flag = CHR ''i'' then [Elapsed_Formatter p padding 1000 now]
               else if flag = CHR ''o'' then [Elapsed_Formatter p padding 1000000 now]
               else if flag = CHR ''O'' then [Elapsed_Formatter p padding 1000000000 now]
               else if \<not> pi_truncate padding then [Aggregate_Formatter [CHR ''%'', flag]]
               else [Field F_source_funcname p (padding\<lparr>pi_truncate := False\<rparr>), Aggregate_Formatter [flag]]))"

text \<open>handle_padspec_ gives what it found and where it stopped.\<close>

definition is_digit :: "char \<Rightarrow> bool" where
  "is_digit c \<longleftrightarrow> 48 \<le> (of_char c :: nat) \<and> (of_char c :: nat) \<le> 57"

fun pad_width :: "nat \<Rightarrow> string \<Rightarrow> nat \<times> string" where
  "pad_width width [] = (width, [])"
| "pad_width width (c # cs) =
     (if is_digit c then pad_width (sz (width * 10 + (of_char c - 48))) cs else (width, c # cs))"

definition max_width :: nat where
  "max_width = 64"

definition handle_padspec :: "string \<Rightarrow> padding_info \<times> string" where
  "handle_padspec it =
     (case it of
        [] \<Rightarrow> (no_padding, [])
      | c # cs \<Rightarrow>
          (let (side, it) = (if c = CHR ''-'' then (Pad_Right, cs)
                             else if c = CHR ''='' then (Pad_Center, cs) else (Pad_Left, it))
           in case it of
                [] \<Rightarrow> (no_padding, it)
              | d # ds \<Rightarrow>
                  if \<not> is_digit d then (no_padding, it)
                  else
                    (let (width, it) = pad_width (of_char d - 48) ds;
                         (trunc, it) = (case it of [] \<Rightarrow> (False, it)
                                        | e # es \<Rightarrow> if e = CHR ''!'' then (True, es) else (False, it))
                     in (make_padding (min width max_width) side trunc, it))))"

lemma length_pad_width: "length (snd (pad_width w s)) \<le> length s"
  by (induction w s rule: pad_width.induct) auto

lemma length_handle_padspec: "handle_padspec it = (padding, rest) \<Longrightarrow> length rest \<le> length it"
  using length_pad_width [of "of_char (hd (tl it)) - 48" "tl (tl it)"] length_pad_width [of "of_char (hd it) - 48" "tl it"]
  by (auto simp: handle_padspec_def split: list.splits if_splits prod.splits)

definition append_chars :: "string option \<Rightarrow> flag_formatter list" where
  "append_chars user_chars = (case user_chars of Some str \<Rightarrow> [Aggregate_Formatter str] | None \<Rightarrow> [])"

text \<open>The loop of compile_pattern_, with the characters and the formatters found so far.\<close>

function compile_loop ::
    "(char \<times> nat) list \<Rightarrow> int \<Rightarrow> string \<Rightarrow> string option \<Rightarrow> flag_formatter list \<Rightarrow> flag_formatter list" where
  "compile_loop custom now [] user_chars formatters = formatters @ append_chars user_chars"
| "compile_loop custom now (c # cs) user_chars formatters =
     (if c = CHR ''%''
      then (let formatters = formatters @ append_chars user_chars; (padding, it) = handle_padspec cs
            in case it of
                 [] \<Rightarrow> formatters
               | flag # rest \<Rightarrow>
                   compile_loop custom now rest None (formatters @
                     (if pi_enabled padding then handle_flag custom now Scoped_Padder flag padding
                      else handle_flag custom now Null_Scoped_Padder flag padding)))
      else compile_loop custom now cs
             (Some ((case user_chars of Some str \<Rightarrow> str | None \<Rightarrow> []) @ [c])) formatters)"
  by pat_completeness auto
termination
  by (relation "measure (\<lambda>(custom, now, it, user_chars, formatters). length it)")
    (auto dest!: length_handle_padspec [OF sym])

definition compile_pattern :: "(char \<times> nat) list \<Rightarrow> int \<Rightarrow> string \<Rightarrow> flag_formatter list" where
  "compile_pattern custom now pattern = compile_loop custom now pattern None []"

section \<open>The formatter\<close>

datatype pattern_time_type = Time_Local | Time_Utc

record pattern_formatter =
  pf_pattern :: string
  pf_eol :: string
  pf_time_type :: pattern_time_type
  pf_cached_tm :: tm
  pf_last_log_secs :: int
  pf_formatters :: "flag_formatter list"
  pf_custom_handlers :: "(char \<times> nat) list"

definition zero_tm :: tm where
  "zero_tm = \<lparr>tm_year = 0, tm_mon = 0, tm_mday = 0, tm_hour = 0, tm_min = 0, tm_sec = 0, tm_wday = 0\<rparr>"

definition pf_new :: "string \<Rightarrow> pattern_time_type \<Rightarrow> string \<Rightarrow> (char \<times> nat) list \<Rightarrow> int \<Rightarrow> pattern_formatter" where
  "pf_new pattern time_type eol custom now =
     \<lparr>pf_pattern = pattern, pf_eol = eol, pf_time_type = time_type, pf_cached_tm = zero_tm, pf_last_log_secs = 0,
      pf_formatters = compile_pattern custom now pattern, pf_custom_handlers = custom\<rparr>"

definition pf_default :: "pattern_time_type \<Rightarrow> string \<Rightarrow> pattern_formatter" where
  "pf_default time_type eol =
     \<lparr>pf_pattern = ''%+'', pf_eol = eol, pf_time_type = time_type, pf_cached_tm = zero_tm, pf_last_log_secs = 0,
      pf_formatters = [Full_Formatter no_padding 0 []], pf_custom_handlers = []\<rparr>"

definition pf_clone :: "int \<Rightarrow> pattern_formatter \<Rightarrow> pattern_formatter" where
  "pf_clone now pf = pf_new (pf_pattern pf) (pf_time_type pf) (pf_eol pf) (pf_custom_handlers pf) now"

definition pf_add_flag :: "char \<Rightarrow> nat \<Rightarrow> pattern_formatter \<Rightarrow> pattern_formatter" where
  "pf_add_flag flag h pf = pf\<lparr>pf_custom_handlers := map_put flag h (pf_custom_handlers pf)\<rparr>"

definition pf_set_pattern :: "int \<Rightarrow> string \<Rightarrow> pattern_formatter \<Rightarrow> pattern_formatter" where
  "pf_set_pattern now pattern pf =
     pf\<lparr>pf_pattern := pattern, pf_formatters := compile_pattern (pf_custom_handlers pf) now pattern\<rparr>"

definition pf_get_time :: "fmt_env \<Rightarrow> pattern_formatter \<Rightarrow> log_msg \<Rightarrow> tm" where
  "pf_get_time env pf msg =
     (if pf_time_type pf = Time_Local then fe_localtime env (to_time_t (lm_time msg))
      else fe_gmtime env (to_time_t (lm_time msg)))"

fun run_formatters ::
    "fmt_env \<Rightarrow> flag_formatter list \<Rightarrow> log_msg \<Rightarrow> tm \<Rightarrow> fmt_out \<Rightarrow> (flag_formatter list \<times> fmt_out) res" where
  "run_formatters env [] msg t out = Inr ([], out)"
| "run_formatters env (f # fs) msg t out =
     bind_res (flag_format env f msg t out) (\<lambda>(f, out).
     bind_res (run_formatters env fs msg t out) (\<lambda>(fs, out). Inr (f # fs, out)))"

definition pf_format :: "fmt_env \<Rightarrow> log_msg \<Rightarrow> pattern_formatter \<Rightarrow> fmt_out \<Rightarrow> (pattern_formatter \<times> fmt_out) res" where
  "pf_format env msg pf out =
     (let secs = to_seconds (lm_time msg);
          pf = (if secs \<noteq> pf_last_log_secs pf
                then pf\<lparr>pf_cached_tm := pf_get_time env pf msg, pf_last_log_secs := secs\<rparr> else pf)
      in bind_res (run_formatters env (pf_formatters pf) msg (pf_cached_tm pf) out) (\<lambda>(fs, out).
           bind_res (on_text (append_string_view (pf_eol pf)) out) (\<lambda>out. Inr (pf\<lparr>pf_formatters := fs\<rparr>, out))))"

section \<open>Padding is alignment\<close>

definition spaces :: "nat \<Rightarrow> string" where
  "spaces n = replicate n CHR '' ''"

text \<open>What a padded field is meant to be.\<close>

definition aligned :: "padding_info \<Rightarrow> string \<Rightarrow> string" where
  "aligned padinfo s =
     (let n = pi_width padinfo - length s
      in if length s \<le> pi_width padinfo
         then (case pi_side padinfo of
                 Pad_Left \<Rightarrow> spaces n @ s
               | Pad_Right \<Rightarrow> s @ spaces n
               | Pad_Center \<Rightarrow> spaces (n div 2) @ s @ spaces (n - n div 2))
         else if pi_truncate padinfo then take (pi_width padinfo) s else s)"

lemma pad_it_nat: "n \<le> 64 \<Longrightarrow> pad_it (int n) dest = Inr (dest @ spaces n)"
  by (simp add: pad_it_def spaces_def)

lemma padded_text_eq:
  assumes "pi_width padinfo \<le> 64"
  shows "padded_text Scoped_Padder padinfo s dest = Inr (dest @ aligned padinfo s)"
proof (cases "length s \<le> pi_width padinfo")
  case True
  define n where "n = pi_width padinfo - length s"
  have n: "int (pi_width padinfo) - int (length s) = int n" "n \<le> 64"
    using True assms by (simp_all add: n_def)
  have h: "int n div 2 = int (n div 2)" "int (n div 2) + int n mod 2 = int (n - n div 2)"
    by (simp_all add: zdiv_int)
  show ?thesis
  proof (cases "n = 0")
    case True
    then show ?thesis
      using n True \<open>length s \<le> _\<close>
      by (simp add: padded_text_def with_padder_def padder_open_def padder_close_def append_string_view_def
          aligned_def pad_it_def spaces_def n_def split: pad_side.split)
  next
    case False
    then show ?thesis
      using n \<open>length s \<le> _\<close> pad_it_nat [of n] pad_it_nat [of "n div 2"] pad_it_nat [of "n - n div 2"] pad_it_nat [of 0]
      by (cases "pi_side padinfo")
        (simp_all add: padded_text_def with_padder_def padder_open_def padder_close_def append_string_view_def
          aligned_def h Let_def spaces_def flip: n_def)
  qed
next
  case False
  then show ?thesis
    by (simp add: padded_text_def with_padder_def padder_open_def padder_close_def append_string_view_def aligned_def
        nat_add_distrib)
qed

section \<open>A pattern without flags prints itself\<close>

definition escape_char :: "char \<Rightarrow> string" where
  "escape_char c = (if c = CHR ''%'' then ''%%'' else [c])"

definition escape :: "string \<Rightarrow> string" where
  "escape s = concat (map escape_char s)"

text \<open>The text of formatters that only repeat characters, if they are such.\<close>

fun verbatim :: "flag_formatter list \<Rightarrow> string option" where
  "verbatim [] = Some []"
| "verbatim (Ch_Formatter c # fs) = map_option (\<lambda>s. c # s) (verbatim fs)"
| "verbatim (Aggregate_Formatter a # fs) = map_option (\<lambda>s. a @ s) (verbatim fs)"
| "verbatim (f # fs) = None"

lemma verbatim_append: "verbatim fs = Some s \<Longrightarrow> verbatim gs = Some s' \<Longrightarrow> verbatim (fs @ gs) = Some (s @ s')"
  by (induction fs arbitrary: s rule: verbatim.induct) auto

lemma run_verbatim:
  "verbatim fs = Some s \<Longrightarrow> run_formatters env fs msg t out = Inr (fs, out\<lparr>fo_text := fo_text out @ s\<rparr>)"
  by (induction fs arbitrary: s out rule: verbatim.induct)
    (auto simp: on_text_def push_back_def append_string_view_def)

lemma field_of_percent: "field_of CHR ''%'' = None"
  by (simp add: field_of_def)

lemma handle_percent:
  assumes "map_find custom CHR ''%'' = None"
  shows "handle_flag custom now p CHR ''%'' padding = [Ch_Formatter CHR ''%'']"
  using assms by (simp add: handle_flag_def field_of_percent)

lemma padspec_percent: "handle_padspec (CHR ''%'' # cs) = (no_padding, CHR ''%'' # cs)"
  by (simp add: handle_padspec_def is_digit_def)

lemma compile_escape:
  assumes "map_find custom CHR ''%'' = None"
  shows "verbatim fs = Some s \<Longrightarrow>
    verbatim (compile_loop custom now (escape words) uc fs) =
      Some (s @ (case uc of Some str \<Rightarrow> str | None \<Rightarrow> []) @ words)"
proof (induction words arbitrary: uc fs s)
  case Nil
  have "verbatim (append_chars uc) = Some (case uc of Some str \<Rightarrow> str | None \<Rightarrow> [])"
    by (simp add: append_chars_def split: option.split)
  then show ?case using verbatim_append [OF Nil] by (simp add: escape_def)
next
  case (Cons c words)
  have uc: "verbatim (append_chars uc) = Some (case uc of Some str \<Rightarrow> str | None \<Rightarrow> [])"
    by (simp add: append_chars_def split: option.split)
  show ?case
  proof (cases "c = CHR ''%''")
    case True
    have "verbatim ((fs @ append_chars uc) @ [Ch_Formatter CHR ''%'']) =
        Some ((s @ (case uc of Some str \<Rightarrow> str | None \<Rightarrow> [])) @ ''%'')"
      by (rule verbatim_append [OF verbatim_append [OF Cons.prems uc]]) simp
    from Cons.IH [OF this, of None] show ?thesis
      using True handle_percent [OF assms]
      by (simp add: escape_def escape_char_def padspec_percent no_padding_def)
  next
    case False
    then show ?thesis
      using Cons.IH [OF Cons.prems, of "Some ((case uc of Some str \<Rightarrow> str | None \<Rightarrow> []) @ [c])"]
      by (simp add: escape_def escape_char_def)
  qed
qed

text \<open>Text in a pattern is printed as it stands.  A formatter for the pattern that has every percent
  sign doubled prints, for any message, exactly the text and the end of line, appends to what
  the buffer holds, and leaves the range of the colour alone.\<close>

theorem pattern_text_round_trip:
  assumes "map_find custom CHR ''%'' = None"
  shows "\<exists>pf'. pf_format env msg (pf_new (escape words) time_type eol custom now) out =
    Inr (pf', out\<lparr>fo_text := fo_text out @ words @ eol\<rparr>)"
proof -
  have "verbatim (compile_pattern custom now (escape words)) = Some words"
    using compile_escape [OF assms, of "[]" "[]" now words None] by (simp add: compile_pattern_def)
  note run = run_verbatim [OF this]
  show ?thesis
    by (simp add: pf_format_def pf_new_def Let_def run on_text_def append_string_view_def)
qed

text \<open>A message at a quarter past ten on the first of March 2024, and an environment in UTC.\<close>

definition sample_tm :: tm where
  "sample_tm = \<lparr>tm_year = 124, tm_mon = 2, tm_mday = 1, tm_hour = 10, tm_min = 15, tm_sec = 7, tm_wday = 5\<rparr>"

definition sample_env :: fmt_env where
  "sample_env = \<lparr>fe_localtime = (\<lambda>_. sample_tm), fe_gmtime = (\<lambda>_. sample_tm), fe_utc_minutes_offset = (\<lambda>_. 0),
     fe_pid = 42, fe_custom = (\<lambda>_ _ _ _ dest. Inr dest)\<rparr>"

definition sample_msg :: log_msg where
  "sample_msg = \<lparr>lm_logger_name = ''agent'', lm_level = Warn, lm_time = 1709288107123456789, lm_thread_id = 7,
     lm_source = \<lparr>sl_filename = Some ''/src/main.cpp'', sl_line = 12, sl_funcname = Some ''main''\<rparr>, lm_payload = ''lost''\<rparr>"

theorem pattern_text_round_trip_witness:
  "\<exists>pf'. pf_format sample_env sample_msg (pf_new (escape ''100% of'') Time_Utc ''!'' [] 0) (fmt_out.make ''>'' 1 2) =
    Inr (pf', fmt_out.make ''>100% of!'' 1 2)"
  using pattern_text_round_trip
    [where custom = "[]" and env = sample_env and msg = sample_msg and words = "''100% of''" and time_type = Time_Utc
      and eol = "''!''" and now = 0 and out = "fmt_out.make ''>'' 1 2"]
  by (simp add: map_find_def fmt_out.defs)

section \<open>The caches change nothing\<close>

lemma to_time_t_seconds: "to_time_t tp = to_seconds tp"
  by (simp add: to_time_t_def to_seconds_def trunc_div_def)

text \<open>A formatter whose output is meant to depend on the messages before: the elapsed time and the offset.\<close>

definition looks_back :: "flag_formatter \<Rightarrow> bool" where
  "looks_back f = (case f of Z_Formatter _ _ _ _ \<Rightarrow> True | Elapsed_Formatter _ _ _ _ \<Rightarrow> True | _ \<Rightarrow> False)"

definition fresh :: "flag_formatter \<Rightarrow> flag_formatter" where
  "fresh f = (case f of Full_Formatter padinfo _ _ \<Rightarrow> Full_Formatter padinfo 0 [] | _ \<Rightarrow> f)"

text \<open>What a full formatter keeps is the text of its second, whose time is tm_of.\<close>

definition cache_ok :: "(int \<Rightarrow> tm) \<Rightarrow> flag_formatter \<Rightarrow> bool" where
  "cache_ok tm_of f =
     (case f of
        Full_Formatter _ ts cached \<Rightarrow> ts \<noteq> 0 \<and> cached \<noteq> [] \<longrightarrow> full_datetime (tm_of ts) = Inr cached
      | _ \<Rightarrow> True)"

definition outs :: "('a \<times> fmt_out) res \<Rightarrow> fmt_out res" where
  "outs r = bind_res r (\<lambda>(_, out). Inr out)"

lemma outs_simps [simp]: "outs (Inl e) = Inl e" "outs (Inr (x, out)) = Inr out"
  by (simp_all add: outs_def)

lemma outs_bind: "outs (bind_res r (\<lambda>(x, out). Inr (g x, out))) = outs r"
  by (cases r) (auto simp: outs_def)

lemma flag_keeps_cache:
  assumes "cache_ok tm_of f" "\<not> looks_back f" "to_seconds (lm_time msg) \<noteq> 0 \<longrightarrow> t = tm_of (to_seconds (lm_time msg))"
    and "flag_format env f msg t out = Inr (f', out')"
  shows "cache_ok tm_of f' \<and> \<not> looks_back f' \<and> fresh f' = fresh f"
proof (cases f)
  case (Full_Formatter padinfo ts cached)
  then show ?thesis
    using assms by (auto simp: cache_ok_def looks_back_def fresh_def Let_def split: if_splits)
qed (use assms in \<open>auto simp: cache_ok_def looks_back_def fresh_def Let_def\<close>)

lemma flag_cache_unseen:
  assumes "cache_ok tm_of f" "\<not> looks_back f" "to_seconds (lm_time msg) \<noteq> 0" "t = tm_of (to_seconds (lm_time msg))"
  shows "outs (flag_format env f msg t out) = outs (flag_format env (fresh f) msg t out)"
proof (cases f)
  case (Full_Formatter padinfo ts cached)
  show ?thesis
  proof (cases "ts \<noteq> to_seconds (lm_time msg) \<or> cached = []")
    case True
    then show ?thesis using Full_Formatter by (auto simp: fresh_def)
  next
    case False
    then have "full_datetime t = Inr cached"
      using assms Full_Formatter by (simp add: cache_ok_def)
    then show ?thesis
      using False assms(3) Full_Formatter by (simp add: fresh_def outs_bind)
  qed
qed (use assms(2) in \<open>auto simp: fresh_def looks_back_def\<close>)

lemma run_keeps_cache:
  assumes "\<forall>f \<in> set fs. cache_ok tm_of f \<and> \<not> looks_back f"
    and "to_seconds (lm_time msg) \<noteq> 0 \<longrightarrow> t = tm_of (to_seconds (lm_time msg))"
    and "run_formatters env fs msg t out = Inr (fs', out')"
  shows "(\<forall>f \<in> set fs'. cache_ok tm_of f \<and> \<not> looks_back f) \<and> map fresh fs' = map fresh fs"
  using assms(1,3)
proof (induction fs arbitrary: out fs' out')
  case (Cons f fs)
  then obtain f1 out1 fs1 out2 where f: "flag_format env f msg t out = Inr (f1, out1)"
    "run_formatters env fs msg t out1 = Inr (fs1, out2)" "fs' = f1 # fs1" by auto
  have "cache_ok tm_of f1 \<and> \<not> looks_back f1 \<and> fresh f1 = fresh f"
    by (rule flag_keeps_cache [where tm_of = tm_of and t = t, OF _ _ assms(2) f(1)]) (use Cons.prems(1) in simp_all)
  moreover have "(\<forall>f \<in> set fs1. cache_ok tm_of f \<and> \<not> looks_back f) \<and> map fresh fs1 = map fresh fs"
    by (rule Cons.IH [OF _ f(2)]) (use Cons.prems(1) in simp)
  ultimately show ?case using f(3) by simp
qed simp

lemma run_cache_unseen:
  assumes "\<forall>f \<in> set fs. cache_ok tm_of f \<and> \<not> looks_back f"
    and "to_seconds (lm_time msg) \<noteq> 0" "t = tm_of (to_seconds (lm_time msg))"
  shows "outs (run_formatters env fs msg t out) = outs (run_formatters env (map fresh fs) msg t out)"
  using assms(1)
proof (induction fs arbitrary: out)
  case (Cons f fs)
  have f: "outs (flag_format env f msg t out) = outs (flag_format env (fresh f) msg t out)"
    using flag_cache_unseen assms(2,3) Cons.prems by simp
  show ?case
  proof (cases "flag_format env f msg t out")
    case (Inl e)
    then have "flag_format env (fresh f) msg t out = Inl e"
      using f by (cases "flag_format env (fresh f) msg t out") auto
    then show ?thesis using Inl by simp
  next
    case (Inr r)
    then obtain f1 out1 where r: "r = (f1, out1)" by (cases r)
    then obtain f2 where "flag_format env (fresh f) msg t out = Inr (f2, out1)"
      using f Inr by (cases "flag_format env (fresh f) msg t out") auto
    then show ?thesis
      using Inr r Cons.IH [of out1] Cons.prems by (simp add: outs_bind)
  qed
qed simp

lemma outs_bind_out [simp]: "outs (bind_res r (\<lambda>out. Inr (h out, out))) = r"
  by (cases r) auto

definition pf_tm_of :: "fmt_env \<Rightarrow> pattern_formatter \<Rightarrow> int \<Rightarrow> tm" where
  "pf_tm_of env pf = (if pf_time_type pf = Time_Local then fe_localtime env else fe_gmtime env)"

lemma pf_get_time_of: "pf_get_time env pf msg = pf_tm_of env pf (to_seconds (lm_time msg))"
  by (simp add: pf_get_time_def pf_tm_of_def to_time_t_seconds)

definition pf_ok :: "fmt_env \<Rightarrow> pattern_formatter \<Rightarrow> pattern_formatter \<Rightarrow> bool" where
  "pf_ok env pf0 pf \<longleftrightarrow>
     pf_eol pf = pf_eol pf0 \<and> pf_time_type pf = pf_time_type pf0 \<and>
     map fresh (pf_formatters pf) = map fresh (pf_formatters pf0) \<and>
     (pf_last_log_secs pf \<noteq> 0 \<longrightarrow> pf_cached_tm pf = pf_tm_of env pf0 (pf_last_log_secs pf)) \<and>
     (\<forall>f \<in> set (pf_formatters pf). cache_ok (pf_tm_of env pf0) f \<and> \<not> looks_back f)"

text \<open>A history: the messages that a formatter has formatted, each into a buffer of its own.\<close>

fun pf_history :: "fmt_env \<Rightarrow> log_msg list \<Rightarrow> pattern_formatter \<Rightarrow> pattern_formatter res" where
  "pf_history env [] pf = Inr pf"
| "pf_history env (m # ms) pf =
     bind_res (pf_format env m pf (fmt_out.make [] 0 0)) (\<lambda>(pf, out). pf_history env ms pf)"

text \<open>The formatter when its time is up to date.\<close>

definition pf_timed :: "fmt_env \<Rightarrow> log_msg \<Rightarrow> pattern_formatter \<Rightarrow> pattern_formatter" where
  "pf_timed env msg pf =
     (if to_seconds (lm_time msg) \<noteq> pf_last_log_secs pf
      then pf\<lparr>pf_cached_tm := pf_get_time env pf msg, pf_last_log_secs := to_seconds (lm_time msg)\<rparr> else pf)"

lemma pf_format_timed:
  "pf_format env msg pf out =
     bind_res (run_formatters env (pf_formatters pf) msg (pf_cached_tm (pf_timed env msg pf)) out) (\<lambda>(fs, out).
       bind_res (on_text (append_string_view (pf_eol pf)) out) (\<lambda>out.
         Inr ((pf_timed env msg pf)\<lparr>pf_formatters := fs\<rparr>, out)))"
  by (simp add: pf_format_def pf_timed_def Let_def)

lemma pf_timed_ok:
  assumes "pf_ok env pf0 pf"
  shows "pf_ok env pf0 (pf_timed env msg pf)" "pf_last_log_secs (pf_timed env msg pf) = to_seconds (lm_time msg)"
    "to_seconds (lm_time msg) \<noteq> 0 \<Longrightarrow> pf_cached_tm (pf_timed env msg pf) = pf_tm_of env pf0 (to_seconds (lm_time msg))"
  using assms by (auto simp: pf_timed_def pf_ok_def pf_get_time_of pf_tm_of_def)

lemma pf_format_ok:
  assumes "pf_ok env pf0 pf" "pf_format env msg pf out = Inr (pf', out')"
  shows "pf_ok env pf0 pf'"
proof -
  note ok = pf_timed_ok [OF assms(1), of msg]
  obtain fs out1 where run: "run_formatters env (pf_formatters pf) msg (pf_cached_tm (pf_timed env msg pf)) out = Inr (fs, out1)"
    "pf' = (pf_timed env msg pf)\<lparr>pf_formatters := fs\<rparr>"
    using assms(2) by (auto simp: pf_format_timed)
  have "\<forall>f \<in> set (pf_formatters pf). cache_ok (pf_tm_of env pf0) f \<and> \<not> looks_back f"
    using assms(1) unfolding pf_ok_def by blast
  from run_keeps_cache [OF this _ run(1)] have
    "(\<forall>f \<in> set fs. cache_ok (pf_tm_of env pf0) f \<and> \<not> looks_back f) \<and> map fresh fs = map fresh (pf_formatters pf)"
    using ok(3) by blast
  moreover have "map fresh (pf_formatters pf) = map fresh (pf_formatters pf0)"
    using assms(1) by (simp add: pf_ok_def)
  ultimately show ?thesis
    using ok(1) run(2) by (simp add: pf_ok_def)
qed

lemma pf_history_ok: "pf_ok env pf0 pf \<Longrightarrow> pf_history env ms pf = Inr pf' \<Longrightarrow> pf_ok env pf0 pf'"
proof (induction ms arbitrary: pf)
  case (Cons m ms)
  then obtain pf1 out1 where "pf_format env m pf (fmt_out.make [] 0 0) = Inr (pf1, out1)" "pf_history env ms pf1 = Inr pf'"
    by auto
  then show ?case using Cons.IH pf_format_ok [OF Cons.prems(1)] by blast
qed simp

lemma fresh_simps:
  "fresh (Field f p padding) = Field f p padding" "fresh (Z_Formatter p padding a b) = Z_Formatter p padding a b"
  "fresh (Elapsed_Formatter p padding a b) = Elapsed_Formatter p padding a b"
  "fresh (Full_Formatter padding 0 []) = Full_Formatter padding 0 []" "fresh (Ch_Formatter c) = Ch_Formatter c"
  "fresh (Aggregate_Formatter str) = Aggregate_Formatter str" "fresh (Color_Start_Formatter padding) = Color_Start_Formatter padding"
  "fresh (Color_Stop_Formatter padding) = Color_Stop_Formatter padding" "fresh (Custom_Formatter h padding) = Custom_Formatter h padding"
  by (simp_all add: fresh_def)

lemma handle_flag_fresh: "\<forall>f \<in> set (handle_flag custom now p flag padding). fresh f = f"
proof (cases "map_find custom flag")
  case None
  then show ?thesis
    by (cases "field_of flag") (simp_all only: handle_flag_def option.case list.set ball_simps fresh_simps split: if_split, blast?)
qed (simp add: handle_flag_def fresh_simps)

lemma append_chars_fresh: "\<forall>f \<in> set (append_chars uc). fresh f = f"
  by (cases uc) (simp_all add: append_chars_def fresh_simps)

lemma compiled_fresh: "\<forall>f \<in> set fs. fresh f = f \<Longrightarrow> \<forall>f \<in> set (compile_loop custom now it uc fs). fresh f = f"
proof (induction custom now it uc fs rule: compile_loop.induct)
  case (2 custom now c cs uc fs)
  show ?case
  proof (cases "c = CHR ''%''")
    case True
    obtain padding rest where ps: "handle_padspec cs = (padding, rest)" by fastforce
    show ?thesis
    proof (cases rest)
      case Nil
      then show ?thesis using True ps "2.prems" append_chars_fresh by auto
    next
      case (Cons flag it)
      show ?thesis
        using "2.IH"(1) [OF True refl refl ps [symmetric] Cons] True ps Cons "2.prems" append_chars_fresh [of uc]
          handle_flag_fresh [of custom now _ flag padding] by (simp add: ball_Un)
    qed
  next
    case False
    then show ?thesis using "2.IH"(2) "2.prems" by simp
  qed
qed (use append_chars_fresh in auto)

lemma pf_new_ok:
  assumes "\<forall>f \<in> set (compile_pattern custom now pattern). \<not> looks_back f"
  shows "pf_ok env (pf_new pattern time_type eol custom now) (pf_new pattern time_type eol custom now)"
proof -
  have "cache_ok tm_of f" if "fresh f = f" for tm_of f
    using that by (cases f) (auto simp: fresh_def cache_ok_def)
  then show ?thesis
    using assms compiled_fresh [of "[]" custom now pattern None]
    by (simp add: pf_ok_def pf_new_def compile_pattern_def)
qed


lemma sample_history:
  "case pf_history sample_env [sample_msg] (pf_new ''%+'' Time_Utc ''.'' [] 0) of Inl _ \<Rightarrow> False | Inr _ \<Rightarrow> True"
  by code_simp

lemma sample_cacheable: "\<forall>f \<in> set (compile_pattern [] 0 ''%+''). \<not> looks_back f"
  by code_simp


section \<open>The full formatter and its pattern\<close>

definition pad2_text :: "int \<Rightarrow> string" where
  "pad2_text n = (if n \<ge> 0 \<and> n < 100 then [char_of (48 + nat n div 10), char_of (48 + nat n mod 10)] else fmt_0d 2 n)"

lemma pad2_eq: "pad2 n dest = Inr (dest @ pad2_text n)"
  by (simp add: pad2_def pad2_text_def)

lemma append_i32_eq: "append_i32 n dest = Inr (dest @ decimal (sint (word_of_int n :: u32)))"
  by (simp add: append_i32_def format_int_signed_eq)

definition pad3_text :: "u32 \<Rightarrow> string" where
  "pad3_text n = (if n < 1000 then [char_of (unat n div 100 + 48), char_of (unat n mod 100 div 10 + 48),
     char_of (unat n mod 100 mod 10 + 48)] else digit_string (unat n))"

lemma pad3_eq: "pad3 n dest = Inr (dest @ pad3_text n)"
  by (simp add: pad3_def pad3_text_def append_u32_def format_int_unsigned_eq)

lemma outs_run_Cons:
  "outs (run_formatters env (f # fs) msg t out) =
     bind_res (outs (flag_format env f msg t out)) (\<lambda>out. outs (run_formatters env fs msg t out))"
proof (cases "flag_format env f msg t out")
  case (Inr r)
  then show ?thesis by (cases r) (simp add: outs_bind)
qed simp

lemma outs_flag_format:
  "outs (flag_format env (Field f p padinfo) msg t out) = on_text (field_format env f p padinfo msg t) out"
  "outs (flag_format env (Aggregate_Formatter str) msg t out) = on_text (append_string_view str) out"
  by simp_all

lemma outs_pf_format:
  "outs (pf_format env msg pf out) =
     bind_res (outs (run_formatters env (pf_formatters pf) msg (pf_cached_tm (pf_timed env msg pf)) out))
       (on_text (append_string_view (pf_eol pf)))"
  by (cases "run_formatters env (pf_formatters pf) msg (pf_cached_tm (pf_timed env msg pf)) out")
    (auto simp: pf_format_timed)

definition full_pattern :: string where
  "full_pattern = ''[%Y-%m-%d %H:%M:%S.%e] [%n] [%^%l%$] [%s:%#] %v''"

lemma compile_full_pattern:
  "compile_pattern [] now full_pattern =
     [Aggregate_Formatter ''['', Field F_Y Null_Scoped_Padder no_padding, Aggregate_Formatter ''-'',
      Field F_m Null_Scoped_Padder no_padding, Aggregate_Formatter ''-'', Field F_d Null_Scoped_Padder no_padding,
      Aggregate_Formatter '' '', Field F_H Null_Scoped_Padder no_padding, Aggregate_Formatter '':'',
      Field F_M Null_Scoped_Padder no_padding, Aggregate_Formatter '':'', Field F_S Null_Scoped_Padder no_padding,
      Aggregate_Formatter ''.'', Field F_e Null_Scoped_Padder no_padding, Aggregate_Formatter ''] ['',
      Field F_name Null_Scoped_Padder no_padding, Aggregate_Formatter ''] ['', Color_Start_Formatter no_padding,
      Field F_level Null_Scoped_Padder no_padding, Color_Stop_Formatter no_padding, Aggregate_Formatter ''] ['',
      Field F_short_filename Null_Scoped_Padder no_padding, Aggregate_Formatter '':'',
      Field F_source_linenum Null_Scoped_Padder no_padding, Aggregate_Formatter ''] '',
      Field F_v Null_Scoped_Padder no_padding]"
  by code_simp

lemma on_text_Inr: "w (fo_text out) = Inr s \<Longrightarrow> on_text w out = Inr (out\<lparr>fo_text := s\<rparr>)"
  by (simp add: on_text_def)



lemma full_formatter_sample:
  "outs (pf_format sample_env sample_msg (pf_default Time_Local ''.'') (fmt_out.make [] 0 0)) =
    Inr (fmt_out.make ''[2024-03-01 10:15:07.123] [agent] [warning] [main.cpp:12] lost.'' 35 42)"
  by code_simp

section \<open>A padded flag\<close>

definition padspec :: "pad_side \<Rightarrow> nat \<Rightarrow> bool \<Rightarrow> string" where
  "padspec side width trunc =
     (case side of Pad_Left \<Rightarrow> [] | Pad_Right \<Rightarrow> ''-'' | Pad_Center \<Rightarrow> ''='') @ digit_string width @
     (if trunc then ''!'' else [])"

lemma is_digit_digit_string: "list_all is_digit (digit_string n)"
proof (induction n rule: digit_string.induct)
  case (1 n)
  have "is_digit (char_of (48 + n mod 10))"
    using mod_less_divisor [of 10 n] by (simp add: is_digit_def)
  moreover have "is_digit (char_of (48 + n))" if "n < 10" using that by (simp add: is_digit_def)
  ultimately show ?case
    using 1 by (subst digit_string.simps) simp
qed

lemma sz_mult: "sz (sz a * b) = sz (a * b)"
  by (simp add: sz_def mod_simps)

lemma pad_width_digits:
  assumes "list_all is_digit ds" "rest = [] \<or> \<not> is_digit (List.hd rest)"
  shows "pad_width (sz w) (ds @ rest) = (sz (foldl (\<lambda>v c. 10 * v + (of_char c - 48)) w ds), rest)"
  using assms(1)
proof (induction ds arbitrary: w)
  case Nil
  then show ?case using assms(2) by (cases rest) auto
next
  case (Cons d ds)
  have "sz (sz w * 10 + (of_char d - 48)) = sz (10 * w + (of_char d - 48))"
    using sz_mult [of w 10] sz_add(1) [of "sz w * 10" "of_char d - 48"] sz_add(1) [of "w * 10" "of_char d - 48"]
    by (simp only: mult.commute [of 10 w])
  then show ?case
    using Cons.IH [of "10 * w + (of_char d - 48)"] Cons.prems by simp
qed

lemma pad_width_number:
  assumes "digit_string width = d # ds" "width < 2 ^ 64" "rest = [] \<or> \<not> is_digit (List.hd rest)"
  shows "pad_width (of_char d - 48) (ds @ rest) = (width, rest)"
proof -
  have "list_all is_digit (d # ds)" using is_digit_digit_string [of width] assms(1) by simp
  moreover have "foldl (\<lambda>v c. 10 * v + (of_char c - 48)) (of_char d - 48) ds = width"
    using digits_value_string [of width] assms(1) by (simp add: digits_value_def)
  moreover have "sz (of_char d - 48) = of_char d - 48"
    using \<open>list_all is_digit (d # ds)\<close> by (intro sz_small) (auto simp: is_digit_def)
  ultimately show ?thesis
    using pad_width_digits [of ds rest "of_char d - 48"] assms(2,3) by (simp add: sz_small)
qed

lemma handle_padspec_spec:
  assumes "width < 2 ^ 64" "\<not> is_digit flag" "flag \<noteq> CHR ''!''"
  shows "handle_padspec (padspec side width trunc @ flag # rest) = (make_padding (min width max_width) side trunc, flag # rest)"
proof -
  obtain d ds where ds: "digit_string width = d # ds"
    using digit_string_not_Nil [of width] by (cases "digit_string width") auto
  have d: "is_digit d" using is_digit_digit_string [of width] ds by simp
  then have nd: "d \<noteq> CHR ''-''" "d \<noteq> CHR ''=''" by (auto simp: is_digit_def)
  note w = pad_width_number [OF ds assms(1)]
  have w1: "pad_width (of_char d - 48) (ds @ CHR ''!'' # flag # rest) = (width, CHR ''!'' # flag # rest)"
    by (rule w) (simp add: is_digit_def)
  have w2: "pad_width (of_char d - 48) (ds @ flag # rest) = (width, flag # rest)"
    by (rule w) (simp add: assms(2))
  show ?thesis
    using d nd w1 w2 assms(3) by (cases side; cases trunc) (simp_all add: handle_padspec_def padspec_def ds)
qed

text \<open>The flags whose fields have the length of what they print.\<close>

definition exact_field :: "log_msg \<Rightarrow> char \<Rightarrow> string option" where
  "exact_field msg flag = map_of
     [(CHR ''v'', lm_payload msg), (CHR ''n'', lm_logger_name msg), (CHR ''l'', to_string_view (lm_level msg)),
      (CHR ''L'', to_short_c_str (lm_level msg))] flag"



text \<open>
  A field that is declared wider than it prints is cut by too much: %0!D takes away the end of
  what was written before, and ends the program when there is nothing to take.
\<close>

lemma truncated_date_eats:
  "outs (pf_format sample_env sample_msg (pf_new ''date: %0!D'' Time_Utc [] [] 0) (fmt_out.make [] 0 0)) =
    Inr (fmt_out.make ''date'' 0 0)"
  by code_simp

lemma truncated_date_terminates:
  "outs (pf_format sample_env sample_msg (pf_new ''%0!D'' Time_Utc [] [] 0) (fmt_out.make [] 0 0)) = Inl Terminated"
  by code_simp

end
