(* ===== verification/Spec2Isabelle.thy ===== *)
theory Spec2Isabelle
  imports Ros ReliableLink SessionLocks SessionManager PacketScheduler ArgumentParser TcpServer Transports
    StreamFraming Reader Callbacks CustomEndPoint XrceData LogPool LogTimed LogRegistry
    PatternFormatter
begin

text \<open>
  Burgerbot: the firmware of a two-wheeled robot, and the agent that it talks to.

  PROGRAM.  The repository holds the firmware of an ESP32-S3 board (src/firmware/src, C++
  for the Arduino core with micro-ROS).  The board drives two DC motors through four PWM
  channels, counts encoder edges in two interrupt handlers, estimates speeds and yaw,
  closes two velocity loops with PID controllers, and talks to a micro-ROS agent over a
  serial line: it publishes odometry, IMU, compass and wheel speed messages and accepts
  velocity, wheel speed, PID gain and compass calibration commands.

  The agent on the other end of the line is the Micro XRCE-DDS agent, of which the
  repository has the installed headers (ros2_ws/installfff/micro_ros_agent/include/uxr/agent).
  The classes below are written in the headers, with their bodies, and run between the
  serial line and the DDS network: a server receives packets through a packet scheduler,
  finds the client of an end point in the session manager, and gives the message to a stream
  of the client's session; a reliable stream numbers, stores, acknowledges and repeats
  messages, and cuts large ones into fragments.

  THEORIES OF THE FIRMWARE, in the order in which they are built.
    Prelude      values and faults (a fault stands for undefined behaviour of the C++ code),
                 checked 32-bit arithmetic, facts on words and bytes.
    Float32      IEEE binary32 arithmetic (round to nearest even, infinities, one NaN),
                 executable on integers and exact rationals, with the rounding lemmas.
    BoardConfig  every constant of config.h.
    Board        the Arduino board: pins, PWM channels, millis and micros.
    Motors       motors.cpp: initMotorPinsAndPwm, stopMotors, applyMotorCommand,
                 setTargetsFromCmdVel.
    Encoders     encoders.cpp: the two interrupt handlers over 32-bit counters.
    Pid          pid.cpp: the class PidController (Update with its clamps and anti-windup,
                 Reset, SetGains, SetFeedforward) and the settings stored in flash.
    Imu          imu.cpp: I2C access, the QMC5883 compass, hard-iron calibration, the yaw
                 filter.
    Odometry     odometry.cpp: runControlStep, in the pieces in which the source writes it
                 (countEdges, estimateSpeeds, integrateOdometry, checkCmdTimeout, kickstart,
                 driveMotors), over the record robot, which collects the globals and the
                 function's static variables.
    Ros          main.cpp: messages, callbacks, createRosEntities and destroyRosEntities,
                 checkAgent (the connection state machine), setup, loop, and the inductive
                 relation reachable of the states of the running firmware, in which encoder
                 interrupts may come between two runs of loop.

  THEORIES OF THE AGENT.
    SeqNum         utils/SeqNum.hpp: 16-bit sequence numbers with serial comparison.
    XrceTypes      types/XRCETypes.hpp, types/MessageHeader.hpp, types/SubMessageHeader.hpp,
                   client/session/SessionInfo.hpp, utils/Conversion.hpp: the protocol data
                   that streams use, and the conversions of identifiers.
    Containers     the maps and queues of the C++ library, with the interface locale
                   bounded_queue of the four bounded message queues of a session.
    Messages       message/InputMessage.hpp and OutputMessage.hpp.
    InputStream    client/session/stream/InputStream.hpp, and the receiver with unbounded
                   numbers that the reliable input stream refines.
    OutputStream   client/session/stream/OutputStream.hpp, with the fragmentation loop as a
                   partial function (it may run for ever) and the invariant of the window.
    ReliableLink   the two reliable streams joined by a network that loses, repeats and
                   reorders: safety, progress, and the round trip of fragments.
    Session        client/session/Session.hpp: the streams of a client by their identifiers.
    SharedMutex    utils/SharedMutex.hpp and SharedMutexPriority.hpp: the locks, and threads
                   that wait on their condition variable, with the interface locale shared_lock.
    SessionLocks   client/session/Session.hpp over utils/SharedMutex.hpp: threads on one session,
                   as program counters over the steps of the lock.
    SessionManager transport/SessionManager.hpp and transport/endpoint: clients and end points.
    PacketScheduler scheduler/PacketScheduler.hpp: the queue with priorities of a server.
    ArgumentParser utils/ArgumentParser.hpp and transport/serial/baud_rate_table_linux.h: the
                   command line, from the arguments to the agent that is started.
    TcpServer      transport/tcp/TCPServerBase.hpp and TCPConnection.hpp: messages in the byte
                   stream of a TCP connection; the loop is a partial function.
    Transports     the printing of end points and addresses, transport/util/InterfaceLinux.hpp
                   and InterfaceWindows.hpp, transport/discovery/DiscoveryServer.hpp, utils/Time.hpp.
    StreamFraming  transport/stream_framing/StreamFramingProtocol.hpp: the table of the CRC.
    TokenBucket    utils/TokenBucket.hpp: the limit on the bytes in a second.
    Reader         reader/Reader.hpp: the task that passes samples from the middleware to a
                   client, as a machine with one point for each test of its nested loops.
    Callbacks      middleware/utils/Callbacks.hpp: the functions that a user registers.
    CustomEndPoint transport/endpoint/CustomEndPoint.hpp and types/Optional.hpp: end points with
                   typed members, with the order that std::map needs.
    XrceData       types/XRCETypes.hpp and object/XRCEObject.hpp: every class of the protocol as a
                   record, a union as a datatype with its discriminator.

  THEORIES OF THE LOG.  The agent logs through spdlog, whose headers are installed with it
  (ros2_ws/installfff/micro_ros_agent/include/spdlog), bodies included.
    LogQueue       details/circular_q.h, details/backtracer-inl.h, sinks/ringbuffer_sink.h: the
                   circular queue, with the interface locale window_queue, and its two users.
    LogBlocking    details/mpmc_blocking_q.h: threads on the queue and its two condition variables.
    LogPool        details/thread_pool-inl.h, async_logger-inl.h: the threads that log, from the
                   posts of the loggers to the destructor.
    LogFiles       details/os-inl.h, details/file_helper-inl.h, sinks/basic_file_sink-inl.h,
                   sinks/rotating_file_sink-inl.h: files, directories and rotation, over an
                   operating system of which any call may fail.
    LogTimed       sinks/daily_file_sink.h, sinks/hourly_file_sink.h.
    Loggers        common.h, details/log_msg-inl.h, logger-inl.h, sinks/dist_sink.h,
                   sinks/dup_filter_sink.h: levels, messages, and loggers over sinks that may throw.
    LogRegistry    details/registry-inl.h, cfg/helpers-inl.h, cfg/env.h, cfg/argv.h: the loggers
                   of the process by name, and their levels from a text.

    FmtInt         fmt/bundled/format.h: the number of digits of an integer and its text.
    FlagFormatters details/fmt_helper.h and the classes of pattern_formatter-inl.h that print one
                   flag, with their padding.
    PatternFormatter pattern_formatter-inl.h: patterns, their compilation, and the formatter with
                   its caches.

  CORRESPONDENCE.  Each global variable is a field of a record and each function a
  definition of the same name that takes the state and returns it updated; a function that
  may run into undefined behaviour (a float converted to an integer that does not hold it,
  a signed overflow) returns a value of type res, whose Fault is that behaviour.  float
  is the type f32, int32_t is a word of 32 bits or a checked integer, volatile long is a
  word that wraps.
  A class of the agent is a record of its members and a method is a definition named after
  it, with the class in front where two classes share the name (ReliableInputStream_reset).
  A std::map is an association list with one entry for a key, a std::queue a list; a method
  that fills an argument and returns a bool gives an option.  A mutex makes a method one
  step; what happens between methods is a step relation (link_step, lock_step, system_step) or a
  list of operations (session_run, sched_run, manager_step).

  OUTSIDE THE MODEL.  libm, Wire, Preferences, the drivers of the inertial unit, rcl, rclc
  and rmw are not in the repository: they are fields of the records platform (Imu) and
  firmware (Ros), functions that the definitions take as parameters.  The laws the code
  relies on are hypotheses of the theorems that use them, and sim_platform and
  sim_firmware are concrete instances that satisfy them.  The firmware is modelled as it
  is built by default, with USE_MICROROS set.  Serial logging has no effect on the state.
  For the agent, Fast-CDR and the generated serialisers are the record cdr_lib (Messages),
  with the documented behaviour of the library as the predicate cdr_laws, which the instance
  sim_cdr satisfies; the file system, the terminal constants and the agents that the command
  line starts are parameters of ArgumentParser.  The clock is the record clock_lib
  (TokenBucket), the two functions of a reader and the flag that stops it extend it to
  reader_lib; recv_data is a parameter of TcpServer, of which the theorems assume that it
  hands out the bytes of a stream in order (byte_stream) and, for termination, that it
  reports an error when it has none (empty_is_error).  getifaddrs, GetAdaptersAddresses and
  the allocator are parameters of Transports.
  Of the log, the text that a formatter makes of a message, the behaviour of a sink (its
  level, and what its log and flush throw), custom flags, localtime and mktime are parameters; the operating
  system is the record os (LogFiles), a map of paths to files and directories with a list of
  the calls that fail.

  BOUNDS.  The reliable streams compare numbers that wrap at 2^16: the receiver is exact as
  long as what arrives is within 2^14 of what was delivered (near), which every run of the
  link guarantees, since the window holds 16 messages.  The fragmentation round trip is for
  submessages of less than 2^16 bytes with their header, cut into at most 16000 fragments;
  from 2^16 bytes on oversize_push_hangs shows that the loop never ends.

  A reader keeps its rate as long as the clock stays below 2^62 nanoseconds (146 years) and
  from a limit of 2 bytes in a second on; with a limit of 1, rate_one_is_no_limit.  A message
  of the TCP server has 1 to 65535 bytes; read_loop needs no fuel, and tcp_read_returns gives
  the number of calls after which every message has been returned.
  The queues of the log hold fewer than 2^63 items, the limit of a vector (vmax); sizes are
  numbers below 2^64 that wrap (sz).

  NOT MODELLED.  The bodies of the agent that are compiled into its library (clients,
  processor, the servers of the transports, the framing of the serial line, the discovery loop,
  the bridges to the DDS implementations, the serialisers and the accessors of unions) are
  not in the repository; their headers are declarations.  The macros of the log have no
  behaviour of their own.  Of spdlog the sinks for the terminal, sockets and the system log and
  the thread of the periodic flusher are left out, and what of fmt is
  templates over the types of the arguments to be formatted.  The generated messages are generated code; the launch files, the lidar driver in Python and the robot descriptions are not C++.

  LEMMAS.  Each component has its invariant (pid_sane, robot_ok, counters_ok, targets_ok,
  sys_inv) with a lemma per operation that the operation keeps it; the PID controller has
  the interface locale controller, interpreted on pid_Update.  The theorems of Ros hold
  in every reachable state of the firmware.  For the agent: queue_fifo (order and
  bound of the four queues), step_simulates (the reliable input stream refines its receiver),
  the sends lemmas (each operation of the reliable output stream keeps its window),
  session_step_view and session_step_other (an operation sees and changes one stream),
  waits_well_step (nobody sleeps who could go on), manager_ok_step, sched_step_refines, and
  the round trip of numbers on the command line.  Of the composition of sessions and locks:
  locks_agree (which locks each program counter holds) and its preservation, same_views and
  replay (the accesses one after the other).  Of the reader: consume_step and consume_time (one call
  of the bucket, in unsigned arithmetic that wraps) and rate_kept, the invariant of the task.
  Of the TCP server: read_step_takes (a pass adds what it received to what was kept) and
  read_calls_reads, over the reference decoder decode.  Of custom end points: endpoint_ok_ops
  and the comparison of values as a linorder.  Of the log: cq_ok and ops_refine (the circular
  queue is a window), mq_inv (each sleeper has somebody who will wake it), pool_inv with
  accounted (where each posted message is) and pool_measure, sink_at (the files of a rotating
  sink and their history) and sink_safe (what survives every failure), rg_ok (the map of the
  loggers), and the round trip of the configuration text; count_digits_32_eq, count_digits_64_eq
  and format_decimal_eq (fast integer routines are digit_string), padded_text_eq (padding is
  alignment), and pf_ok (the caches of a formatter).
\<close>

end
